(* ===== verification/Prelude.thy ===== *)
theory Prelude
  imports Main "HOL-Library.Word" "HOL-Library.AList"
begin

text \<open>
  Shared ground of the development: Go's clock and duration arithmetic, Go maps as
  association lists, the FNV-1a shard hash of \<^verbatim>\<open>internal/shardutil\<close>, and the bounded table
  with idle and least-recently-seen eviction that the DNS rate limiter, the NXDOMAIN guard and
  the repeat-query guard all use.

  Conventions. A \<^verbatim>\<open>time.Time\<close> is an \<open>int\<close>, nanoseconds since Go's zero time, so \<open>0\<close> is the value
  for which \<^verbatim>\<open>IsZero\<close> holds; \<^verbatim>\<open>time.Now()\<close> is an argument \<open>now\<close> of every operation that reads the
  clock. A Go map is an association list with distinct keys; the order of the list stands for
  whichever iteration order the runtime picks, and every theorem holds for all of them.
\<close>

unbundle bit_operations_syntax

named_theorems gomap_simps \<open>lookup, length and key laws of Go maps\<close>
named_theorems table_intros \<open>preservation of the bounded-table invariant\<close>

section \<open>Clock and durations\<close>

type_synonym gotime = int
type_synonym duration = int

abbreviation IsZero :: "gotime \<Rightarrow> bool" where
  "IsZero t \<equiv> t = 0"

abbreviation Second :: duration where "Second \<equiv> 1000000000"
abbreviation Minute :: duration where "Minute \<equiv> 60000000000"
abbreviation Hour :: duration where "Hour \<equiv> 3600000000000"

definition minDuration :: duration where "minDuration = - 9223372036854775808"
definition maxDuration :: duration where "maxDuration = 9223372036854775807"

text \<open>\<^verbatim>\<open>Time.Sub\<close> saturates at the two ends of \<^verbatim>\<open>int64\<close>.\<close>

definition tsub :: "gotime \<Rightarrow> gotime \<Rightarrow> duration" where
  "tsub t u = max minDuration (min maxDuration (t - u))"

lemma tsub_mono: "u \<le> v \<Longrightarrow> tsub t v \<le> tsub t u"
  by (simp add: tsub_def minDuration_def maxDuration_def)

lemma tsub_mono_left: "t \<le> t' \<Longrightarrow> tsub t u \<le> tsub t' u"
  by (simp add: tsub_def minDuration_def maxDuration_def)

lemma tsub_nonneg: "u \<le> t \<Longrightarrow> 0 \<le> tsub t u"
  by (simp add: tsub_def minDuration_def maxDuration_def)

lemma tsub_le: "u \<le> t \<Longrightarrow> tsub t u \<le> t - u"
  by (simp add: tsub_def minDuration_def maxDuration_def)

lemma tsub_self [simp]: "tsub t t = 0"
  by (simp add: tsub_def minDuration_def maxDuration_def)

lemma tsub_exact: "u \<le> t \<Longrightarrow> t - u \<le> maxDuration \<Longrightarrow> tsub t u = t - u"
  by (simp add: tsub_def minDuration_def maxDuration_def)

lemma tsub_gt_iff: "0 \<le> d \<Longrightarrow> d < maxDuration \<Longrightarrow> d < tsub t u \<longleftrightarrow> u + d < t"
  by (auto simp: tsub_def minDuration_def maxDuration_def)

section \<open>Go maps\<close>

type_synonym ('k, 'v) gomap = "('k \<times> 'v) list"

abbreviation gm_wf :: "('k, 'v) gomap \<Rightarrow> bool" where
  "gm_wf m \<equiv> distinct (map fst m)"

abbreviation gm_put :: "'k \<Rightarrow> 'v \<Rightarrow> ('k, 'v) gomap \<Rightarrow> ('k, 'v) gomap" where
  "gm_put \<equiv> AList.update"

abbreviation gm_del :: "'k \<Rightarrow> ('k, 'v) gomap \<Rightarrow> ('k, 'v) gomap" where
  "gm_del \<equiv> AList.delete"

lemma map_of_put [gomap_simps, simp]: "map_of (gm_put k v m) x = (if x = k then Some v else map_of m x)"
  by (simp add: update_conv')

lemma map_of_del [gomap_simps, simp]: "map_of (gm_del k m) x = (if x = k then None else map_of m x)"
  by (simp add: delete_conv')

lemma keys_put [gomap_simps, simp]: "fst ` set (gm_put k v m) = insert k (fst ` set m)"
  by (simp add: dom_update)

lemma keys_del [gomap_simps, simp]: "fst ` set (gm_del k m) = fst ` set m - {k}"
  by (induction m) auto

lemma wf_put [simp]: "gm_wf m \<Longrightarrow> gm_wf (gm_put k v m)"
  by (rule distinct_update)

lemma wf_del [simp]: "gm_wf m \<Longrightarrow> gm_wf (gm_del k m)"
  by (rule distinct_delete)

lemma length_put_old: "k \<in> fst ` set m \<Longrightarrow> length (gm_put k v m) = length m"
  by (induction m) auto

lemma length_put_new: "k \<notin> fst ` set m \<Longrightarrow> length (gm_put k v m) = Suc (length m)"
  by (induction m) auto

lemma length_put_le: "length (gm_put k v m) \<le> Suc (length m)"
  by (induction m) auto

lemma length_put_some: "map_of m k = Some e \<Longrightarrow> length (gm_put k v m) = length m"
  using map_of_SomeD[of m k e] by (force intro: length_put_old)

lemma length_del_less: "k \<in> fst ` set m \<Longrightarrow> length (gm_del k m) < length m"
  by (induction m) (auto simp: less_Suc_eq_le length_delete_le Suc_le_eq image_iff)

lemma set_put_sub: "set (gm_put k v m) \<subseteq> insert (k, v) (set m)"
  by (induction m) auto

lemma set_put_wf: "gm_wf m \<Longrightarrow> set (gm_put k v m) = insert (k, v) {x \<in> set m. fst x \<noteq> k}"
  by (induction m) (auto simp: rev_image_eqI)

lemma set_del [simp]: "set (gm_del k m) = {x \<in> set m. fst x \<noteq> k}"
  by (induction m) auto

lemma gm_put_ball: "\<forall>x \<in> set m. P x \<Longrightarrow> P (k, v) \<Longrightarrow> \<forall>x \<in> set (gm_put k v m). P x"
  using set_put_sub[of k v m] by auto

section \<open>FNV-1a sharding\<close>

definition FNV1a :: "string \<Rightarrow> 32 word" where
  "FNV1a key = foldl (\<lambda>h c. (h XOR of_char c) * 16777619) 2166136261 key"

text \<open>The shard index \<^verbatim>\<open>shardutil.FNV1a(key) & (n-1)\<close>, for a shard count \<open>n\<close>.\<close>

definition shard_ix :: "nat \<Rightarrow> string \<Rightarrow> nat" where
  "shard_ix n key = unat (FNV1a key AND (of_nat n - 1))"

lemma shard_ix_mod:
  assumes "k < 32" shows "shard_ix (2 ^ k) key = unat (FNV1a key) mod 2 ^ k"
proof -
  have "(of_nat (2 ^ k) - 1 :: 32 word) = mask k"
    by (simp add: mask_eq_exp_minus_1)
  then have "shard_ix (2 ^ k) key = unat (take_bit k (FNV1a key))"
    by (simp only: shard_ix_def take_bit_eq_mask)
  also have "\<dots> = take_bit k (unat (FNV1a key))"
    by (rule unsigned_take_bit_eq)
  finally show ?thesis by (simp only: take_bit_eq_mod)
qed

lemma shard_ix_64: "shard_ix 64 key < 64"
  using shard_ix_mod[of 6 key] by simp

section \<open>Bounded tables\<close>

text \<open>
  The scan for the least recently seen entry: \<open>o\<close> starts as the empty string, the marker for
  \<open>none yet\<close>, and the loop replaces it on the first entry and on every strictly older one.
\<close>

fun oldest_scan ::
  "('e \<Rightarrow> gotime) \<Rightarrow> string \<times> gotime \<Rightarrow> (string, 'e) gomap \<Rightarrow> string \<times> gotime" where
  "oldest_scan seen (old, oldSeen) [] = (old, oldSeen)"
| "oldest_scan seen (old, oldSeen) ((k, e) # m) =
     (if old = [] \<or> seen e < oldSeen then oldest_scan seen (k, seen e) m
      else oldest_scan seen (old, oldSeen) m)"

lemma oldest_scan_least:
  "[] \<notin> fst ` set m \<Longrightarrow> old \<noteq> [] \<Longrightarrow> oldest_scan seen (old, t) m = (k, t') \<Longrightarrow>
   t' \<le> t \<and> (\<forall>x \<in> set m. t' \<le> seen (snd x)) \<and>
   ((k, t') = (old, t) \<or> (\<exists>e. (k, e) \<in> set m \<and> seen e = t'))"
proof (induction m arbitrary: old t)
  case (Cons a m)
  obtain k1 e1 where a: "a = (k1, e1)" by (cases a)
  show ?case
  proof (cases "seen e1 < t")
    case True
    then show ?thesis using Cons.IH[of k1 "seen e1"] Cons.prems a by auto
  next
    case False
    then show ?thesis using Cons.IH[of old t] Cons.prems a by auto
  qed
qed auto

lemma oldest_scan_key: "m \<noteq> [] \<Longrightarrow> fst (oldest_scan seen ([], t) m) \<in> fst ` set m"
proof -
  assume "m \<noteq> []"
  then obtain k e r where m: "m = (k, e) # r" by (cases m) auto
  have "fst (oldest_scan seen p r) \<in> insert (fst p) (fst ` set r)" for p
    by (induction seen p r rule: oldest_scan.induct) auto
  from this[of "(k, seen e)"] show ?thesis using m by auto
qed

lemma oldest_entry_least:
  assumes "gm_wf m" "[] \<notin> fst ` set m" "(fst (oldest_scan seen ([], t0) m), e') \<in> set m" "x \<in> set m"
  shows "seen e' \<le> seen (snd x)"
proof (cases m)
  case (Cons a r)
  obtain k e where a: "a = (k, e)" by (cases a)
  obtain k' t' where kt: "oldest_scan seen (k, seen e) r = (k', t')" by fastforce
  have least: "t' \<le> seen e \<and> (\<forall>x \<in> set r. t' \<le> seen (snd x)) \<and>
      ((k', t') = (k, seen e) \<or> (\<exists>e. (k', e) \<in> set r \<and> seen e = t'))"
    by (rule oldest_scan_least[OF _ _ kt]) (use assms(2) Cons a in auto)
  have "fst (oldest_scan seen ([], t0) m) = k'" using Cons a kt by simp
  then have "(k', e') \<in> set m" using assms(3) by simp
  moreover from least have "\<exists>d. (k', d) \<in> set m \<and> seen d = t'" using Cons a by auto
  ultimately have "seen e' = t'" using assms(1) by (metis eq_key_imp_eq_value)
  then show ?thesis using least assms(4) Cons a by auto
qed (use assms in simp)

text \<open>The second eviction loop: drop the oldest entry while the table is at its cap.\<close>

function evict_oldest :: "('e \<Rightarrow> gotime) \<Rightarrow> nat \<Rightarrow> (string, 'e) gomap \<Rightarrow> (string, 'e) gomap" where
  "evict_oldest seen cap m =
     (if 0 < cap \<and> cap \<le> length m
      then evict_oldest seen cap (gm_del (fst (oldest_scan seen ([], 0) m)) m)
      else m)"
  by pat_completeness auto
termination
proof (relation "measure (\<lambda>(seen, cap, m). length m)")
  fix seen :: "'e \<Rightarrow> gotime" and cap and m :: "(string, 'e) gomap"
  assume "0 < cap \<and> cap \<le> length m"
  then have "m \<noteq> []" by auto
  then show "((seen, cap, gm_del (fst (oldest_scan seen ([], 0) m)) m), seen, cap, m)
      \<in> measure (\<lambda>(seen, cap, m). length m)"
    by (simp add: length_del_less oldest_scan_key)
qed simp

declare evict_oldest.simps [simp del]

definition evict_table ::
  "('e \<Rightarrow> gotime) \<Rightarrow> nat \<Rightarrow> duration \<Rightarrow> (string, 'e) gomap \<Rightarrow> gotime \<Rightarrow> (string, 'e) gomap" where
  "evict_table seen cap idle m now =
     (if length m < cap then m
      else evict_oldest seen cap (filter (\<lambda>(k, e). \<not> tsub now (seen e) > idle) m))"

lemma evict_oldest_len: "0 < cap \<Longrightarrow> length (evict_oldest seen cap m) < cap"
proof (induction seen cap m rule: evict_oldest.induct)
  case (1 seen cap m)
  then show ?case by (subst evict_oldest.simps) auto
qed

lemma evict_oldest_sub: "set (evict_oldest seen cap m) \<subseteq> set m"
proof (induction seen cap m rule: evict_oldest.induct)
  case (1 seen cap m)
  then show ?case by (subst evict_oldest.simps) auto
qed

lemma evict_oldest_wf: "gm_wf m \<Longrightarrow> gm_wf (evict_oldest seen cap m)"
proof (induction seen cap m rule: evict_oldest.induct)
  case (1 seen cap m)
  then show ?case by (subst evict_oldest.simps) auto
qed

lemma wf_filter: "gm_wf m \<Longrightarrow> gm_wf (filter P m)"
  by (induction m) auto

lemma evict_oldest_lru:
  "gm_wf m \<Longrightarrow> [] \<notin> fst ` set m \<Longrightarrow> x \<in> set m - set (evict_oldest seen cap m) \<Longrightarrow>
   y \<in> set (evict_oldest seen cap m) \<Longrightarrow> seen (snd x) \<le> seen (snd y)"
proof (induction seen cap m rule: evict_oldest.induct)
  case (1 seen cap m)
  let ?k = "fst (oldest_scan seen ([], 0) m)"
  let ?m = "gm_del ?k m"
  show ?case
  proof (cases "0 < cap \<and> cap \<le> length m")
    case True
    then have ev: "evict_oldest seen cap m = evict_oldest seen cap ?m"
      by (subst evict_oldest.simps) simp
    have yin: "y \<in> set m" using "1.prems"(4) ev evict_oldest_sub[of seen cap ?m] by auto
    show ?thesis
    proof (cases "fst x = ?k")
      case True
      then have "(?k, snd x) \<in> set m" using "1.prems"(3) by (metis DiffD1 prod.collapse)
      then show ?thesis using oldest_entry_least[OF "1.prems"(1,2) _ yin] by blast
    next
      case False
      then have "x \<in> set ?m - set (evict_oldest seen cap ?m)"
        using "1.prems"(3) ev by auto
      moreover have "[] \<notin> fst ` set ?m" using "1.prems"(2) by auto
      ultimately show ?thesis
        using "1.IH"[OF True] "1.prems"(1,4) ev by auto
    qed
  next
    case False
    then have "evict_oldest seen cap m = m"
      by (subst evict_oldest.simps) auto
    then show ?thesis using "1.prems"(3) by simp
  qed
qed

text \<open>
  What the table operations promise their clients: eviction makes room, drops entries only, keeps
  keys distinct and does nothing while there is room. Every guard rests on the lemmas of this
  locale, interpreted on its own eviction routine.
\<close>

locale bounded_table =
  fixes evict :: "(string, 'e) gomap \<Rightarrow> gotime \<Rightarrow> (string, 'e) gomap"
    and seen :: "'e \<Rightarrow> gotime"
    and cap :: nat
  assumes evict_room: "length (evict m now) < cap"
    and evict_sub: "set (evict m now) \<subseteq> set m"
    and evict_wf: "gm_wf m \<Longrightarrow> gm_wf (evict m now)"
    and evict_id: "length m < cap \<Longrightarrow> evict m now = m"
    and evict_lru: "gm_wf m \<Longrightarrow> [] \<notin> fst ` set m \<Longrightarrow> x \<in> set m - set (evict m now) \<Longrightarrow>
      y \<in> set (evict m now) \<Longrightarrow> seen (snd x) \<le> seen (snd y)"
begin

definition tbl_ok :: "(string, 'e) gomap \<Rightarrow> bool" where
  "tbl_ok m \<longleftrightarrow> gm_wf m \<and> length m \<le> cap \<and> [] \<notin> fst ` set m"

lemma tbl_ok_empty: "tbl_ok []"
  by (simp add: tbl_ok_def)

lemma tbl_ok_insert: "tbl_ok m \<Longrightarrow> k \<noteq> [] \<Longrightarrow> tbl_ok (gm_put k v (evict m now))"
  using evict_sub[of m now] evict_room[of m now] length_put_le[of k v "evict m now"]
  by (auto simp: tbl_ok_def evict_wf)

lemma tbl_ok_update: "tbl_ok m \<Longrightarrow> map_of m k = Some e \<Longrightarrow> tbl_ok (gm_put k v m)"
proof -
  assume ok: "tbl_ok m" and k: "map_of m k = Some e"
  then have "k \<noteq> []" unfolding tbl_ok_def using map_of_SomeD[OF k] by force
  then show ?thesis using ok k by (simp add: tbl_ok_def length_put_some)
qed

lemma evict_lookup: "gm_wf m \<Longrightarrow> map_of (evict m now) k = Some e \<Longrightarrow> map_of m k = Some e"
proof -
  assume wf: "gm_wf m" and "map_of (evict m now) k = Some e"
  then have "(k, e) \<in> set (evict m now)" by (simp add: map_of_SomeD)
  then have "(k, e) \<in> set m" using evict_sub by blast
  then show ?thesis using wf by simp
qed

lemma evict_ball: "\<forall>x \<in> set m. P x \<Longrightarrow> \<forall>x \<in> set (gm_put k v (evict m now)). x = (k, v) \<or> P x"
  using evict_sub[of m now] set_put_sub[of k v "evict m now"] by auto

end

lemma evict_table_bounded:
  fixes seen :: "'e \<Rightarrow> gotime"
  assumes "0 < cap"
  shows "bounded_table (evict_table seen cap idle) seen cap"
proof
  fix m :: "(string, 'e) gomap" and now
  let ?f = "filter (\<lambda>(k, e). \<not> tsub now (seen e) > idle) m"
  show "length (evict_table seen cap idle m now) < cap"
    using assms by (simp add: evict_table_def evict_oldest_len)
  show "set (evict_table seen cap idle m now) \<subseteq> set m"
    using evict_oldest_sub[of seen cap ?f] by (auto simp: evict_table_def)
  show "gm_wf m \<Longrightarrow> gm_wf (evict_table seen cap idle m now)"
    by (simp add: evict_table_def evict_oldest_wf wf_filter)
  show "length m < cap \<Longrightarrow> evict_table seen cap idle m now = m"
    by (simp add: evict_table_def)
  fix x y
  assume wf: "gm_wf m" and ne: "[] \<notin> fst ` set m"
    and x: "x \<in> set m - set (evict_table seen cap idle m now)"
    and y: "y \<in> set (evict_table seen cap idle m now)"
  show "seen (snd x) \<le> seen (snd y)"
  proof (cases "length m < cap")
    case True then show ?thesis using x by (simp add: evict_table_def)
  next
    case False
    then have ev: "evict_table seen cap idle m now = evict_oldest seen cap ?f"
      by (simp add: evict_table_def)
    have y': "y \<in> set ?f" using y ev evict_oldest_sub[of seen cap ?f] by auto
    show ?thesis
    proof (cases "x \<in> set ?f")
      case True
      moreover have "[] \<notin> fst ` set ?f" using ne by auto
      ultimately show ?thesis
        using evict_oldest_lru[of ?f x seen cap y] wf wf_filter x y ev by auto
    next
      case False
      then have "idle < tsub now (seen (snd x))" using x by (auto split: prod.splits)
      moreover have "tsub now (seen (snd y)) \<le> idle" using y' by (auto split: prod.splits)
      ultimately have "\<not> seen (snd y) \<le> seen (snd x)"
        using tsub_mono[of "seen (snd y)" "seen (snd x)" now] by linarith
      then show ?thesis by simp
    qed
  qed
qed

end
