(* ===== verification/TokenBucket.thy ===== *)
theory TokenBucket
  imports Prelude Complex_Main
begin

text \<open>
  The contract of a token bucket and what follows from it. The DNS rate limiter and the web API
  limiter are both interpreted here, each on its own \<^verbatim>\<open>Allow\<close>. Token counts (\<^verbatim>\<open>float64\<close> in the
  sources) are exact rationals: rounding of the floating-point additions is not modelled.
\<close>

text \<open>\<^verbatim>\<open>Duration.Seconds\<close>.\<close>

definition Seconds :: "duration \<Rightarrow> rat" where
  "Seconds d = of_int d / of_int Second"

lemma Seconds_nonneg: "0 \<le> d \<Longrightarrow> 0 \<le> Seconds d"
  by (simp add: Seconds_def)

lemma Seconds_add: "Seconds a + Seconds b = Seconds (a + b)"
  by (simp add: Seconds_def add_divide_distrib)

lemma refill_nonneg: "u \<le> t \<Longrightarrow> 0 \<le> q \<Longrightarrow> 0 \<le> Seconds (tsub t u) * q"
  by (simp add: Seconds_nonneg tsub_nonneg)

lemma refill_le: "u \<le> t \<Longrightarrow> 0 \<le> q \<Longrightarrow> Seconds (tsub t u) * q \<le> q * Seconds (t - u)"
  using tsub_le[of u t] by (simp add: Seconds_def divide_right_mono mult.commute[of q] mult_right_mono)

text \<open>A run of requests at the given times, with the decision of each.\<close>

fun query_run :: "('s \<Rightarrow> gotime \<Rightarrow> bool \<times> 's) \<Rightarrow> 's \<Rightarrow> gotime list \<Rightarrow> bool list \<times> 's" where
  "query_run allow s [] = ([], s)"
| "query_run allow s (t # ts) =
     (let (ok, s1) = allow s t; (oks, s2) = query_run allow s1 ts in (ok # oks, s2))"

definition admitted :: "bool list \<Rightarrow> rat" where
  "admitted oks = of_nat (length (filter id oks))"

text \<open>
  The contract: on a state in scope a decision costs one token per admission, and the level grows
  at most by the rate times the time that passed since the last decision.
\<close>

locale token_bucket =
  fixes allow :: "'s \<Rightarrow> gotime \<Rightarrow> bool \<times> 's"
    and level :: "'s \<Rightarrow> rat"
    and seen :: "'s \<Rightarrow> gotime"
    and rate :: rat
    and scope :: "'s \<Rightarrow> bool"
  assumes level_nonneg: "scope s \<Longrightarrow> 0 \<le> level s"
    and allow_scope: "scope s \<Longrightarrow> seen s \<le> now \<Longrightarrow> allow s now = (ok, s') \<Longrightarrow> scope s' \<and> seen s' = now"
    and allow_cost: "scope s \<Longrightarrow> seen s \<le> now \<Longrightarrow> allow s now = (ok, s') \<Longrightarrow>
      (if ok then 1 else 0) + level s' \<le> level s + rate * Seconds (now - seen s)"
begin

lemma admission_bound:
  assumes "scope s" "sorted (seen s # ts)"
  shows "admitted (fst (query_run allow s ts)) \<le> level s + rate * Seconds (last (seen s # ts) - seen s)"
  using assms
proof (induction ts arbitrary: s)
  case Nil
  then show ?case using level_nonneg by (simp add: admitted_def Seconds_def)
next
  case (Cons t ts)
  obtain ok s' where s': "allow s t = (ok, s')" by fastforce
  have t: "seen s \<le> t" using Cons.prems by simp
  note sc = allow_scope[OF Cons.prems(1) t s'] and cost = allow_cost[OF Cons.prems(1) t s']
  have IH: "admitted (fst (query_run allow s' ts)) \<le> level s' + rate * Seconds (last (t # ts) - t)"
    using Cons.IH[of s'] sc Cons.prems by simp
  have "admitted (fst (query_run allow s (t # ts))) = (if ok then 1 else 0) + admitted (fst (query_run allow s' ts))"
    using s' by (simp add: admitted_def split: prod.splits)
  also have "\<dots> \<le> level s + rate * (Seconds (t - seen s) + Seconds (last (t # ts) - t))"
    using cost IH by (simp add: algebra_simps)
  finally show ?case by (simp add: Seconds_add)
qed

end

end
