(* ===== verification/RateLimit.thy ===== *)
theory RateLimit
  imports TokenBucket
begin

text \<open>
  The DNS rate limiter of \<^verbatim>\<open>internal/dnsserver/ratelimit.go\<close>: one token bucket per client address,
  in 64 shards, with the auto-block layer. The clock is the
  argument \<open>now\<close>. Shard locks make each operation atomic, so an operation is one state transition.
\<close>

section \<open>State\<close>

record rlBucket =
  rb_tokens :: rat
  rb_lastSeen :: gotime
  rb_violations :: int
  rb_firstViol :: gotime
  rb_blockedUntil :: gotime
  rb_queries :: int
  rb_blocks :: int
  rb_firstSeen :: gotime

definition rlShards :: nat where "rlShards = 64"
definition rlMaxPerShard :: nat where "rlMaxPerShard = 4096"
definition rlIdleEvict :: duration where "rlIdleEvict = 10 * Minute"

record RateLimiter =
  rl_shards :: "nat \<Rightarrow> (string, rlBucket) gomap"
  rl_qps :: rat
  rl_burst :: rat
  rl_autoBlock :: bool
  rl_blockAfter :: int
  rl_blockFor :: duration

definition zero_rlBucket :: rlBucket where
  "zero_rlBucket = \<lparr>rb_tokens = 0, rb_lastSeen = 0, rb_violations = 0, rb_firstViol = 0,
     rb_blockedUntil = 0, rb_queries = 0, rb_blocks = 0, rb_firstSeen = 0\<rparr>"

section \<open>Operations\<close>

definition NewRateLimiter :: "int \<Rightarrow> int \<Rightarrow> RateLimiter" where
  "NewRateLimiter qps burst =
     (let qps = (if qps < 1 then 1 else qps);
          burst = (if burst < qps then qps else burst)
      in \<lparr>rl_shards = (\<lambda>_. []), rl_qps = of_int qps, rl_burst = of_int burst,
          rl_autoBlock = False, rl_blockAfter = 0, rl_blockFor = 0\<rparr>)"

definition SetAutoBlock :: "RateLimiter \<Rightarrow> int \<Rightarrow> duration \<Rightarrow> RateLimiter" where
  "SetAutoBlock rl after blockFor =
     (let after = (if after < 1 then 1 else after);
          blockFor = (if blockFor \<le> 0 then Minute else blockFor)
      in rl\<lparr>rl_autoBlock := True, rl_blockAfter := after, rl_blockFor := blockFor\<rparr>)"

definition rl_shard :: "string \<Rightarrow> nat" where
  "rl_shard key = shard_ix rlShards key"

definition evictLocked :: "(string, rlBucket) gomap \<Rightarrow> gotime \<Rightarrow> (string, rlBucket) gomap" where
  "evictLocked = evict_table rb_lastSeen rlMaxPerShard rlIdleEvict"

definition recordViolationLocked :: "RateLimiter \<Rightarrow> rlBucket \<Rightarrow> gotime \<Rightarrow> rlBucket" where
  "recordViolationLocked rl b now =
     (if \<not> rl_autoBlock rl then b
      else
        let b1 = (if IsZero (rb_firstViol b) \<or> tsub now (rb_firstViol b) > rl_blockFor rl
                  then b\<lparr>rb_firstViol := now, rb_violations := 1\<rparr>
                  else b\<lparr>rb_violations := rb_violations b + 1\<rparr>)
        in if rb_violations b1 \<ge> rl_blockAfter rl
           then b1\<lparr>rb_blockedUntil := now + rl_blockFor rl, rb_violations := 0,
                   rb_firstViol := 0, rb_blocks := rb_blocks b1 + 1\<rparr>
           else b1)"

text \<open>The part of \<^verbatim>\<open>Allow\<close> that works on the bucket of a known client.\<close>

definition allowBucket :: "RateLimiter \<Rightarrow> rlBucket \<Rightarrow> gotime \<Rightarrow> bool \<times> rlBucket" where
  "allowBucket rl b now =
     (let elapsed = Seconds (tsub now (rb_lastSeen b));
          b1 = b\<lparr>rb_lastSeen := now, rb_queries := rb_queries b + 1\<rparr>
      in if \<not> IsZero (rb_blockedUntil b1) \<and> now < rb_blockedUntil b1 then (False, b1)
         else
           let b2 = (if \<not> IsZero (rb_blockedUntil b1)
                     then b1\<lparr>rb_blockedUntil := 0, rb_violations := 0, rb_firstViol := 0,
                             rb_tokens := rl_burst rl\<rparr>
                     else b1);
               t = rb_tokens b2 + elapsed * rl_qps rl;
               t' = (if t > rl_burst rl then rl_burst rl else t)
           in if t' < 1 then (False, recordViolationLocked rl (b2\<lparr>rb_tokens := t'\<rparr>) now)
              else (True, b2\<lparr>rb_tokens := t' - 1\<rparr>))"

definition rl_put :: "RateLimiter \<Rightarrow> string \<Rightarrow> (string, rlBucket) gomap \<Rightarrow> RateLimiter" where
  "rl_put rl client s = rl\<lparr>rl_shards := (rl_shards rl)(rl_shard client := s)\<rparr>"

definition RateLimiter_Allow :: "RateLimiter \<Rightarrow> string \<Rightarrow> gotime \<Rightarrow> bool \<times> RateLimiter" where
  "RateLimiter_Allow rl client now =
     (if client = [] then (True, rl)
      else
        let s = rl_shards rl (rl_shard client)
        in case map_of s client of
             None \<Rightarrow>
               (True, rl_put rl client
                  (gm_put client (zero_rlBucket\<lparr>rb_tokens := rl_burst rl - 1, rb_lastSeen := now,
                      rb_queries := 1, rb_firstSeen := now\<rparr>) (evictLocked s now)))
           | Some b \<Rightarrow>
               (let (ok, b') = allowBucket rl b now
                in (ok, rl_put rl client (gm_put client b' s))))"

definition RateLimiter_ForceBlock :: "RateLimiter \<Rightarrow> string \<Rightarrow> duration \<Rightarrow> gotime \<Rightarrow> RateLimiter" where
  "RateLimiter_ForceBlock rl client d now =
     (if client = [] \<or> d \<le> 0 then rl
      else
        let s = rl_shards rl (rl_shard client);
            (b, s') = (case map_of s client of
                         None \<Rightarrow> (zero_rlBucket\<lparr>rb_lastSeen := now, rb_firstSeen := now\<rparr>, evictLocked s now)
                       | Some b \<Rightarrow> (b, s))
        in rl_put rl client
             (gm_put client (b\<lparr>rb_blockedUntil := now + d, rb_violations := 0, rb_firstViol := 0,
                rb_blocks := rb_blocks b + 1, rb_lastSeen := now\<rparr>) s'))"

definition Blocked :: "RateLimiter \<Rightarrow> string \<Rightarrow> gotime \<Rightarrow> bool \<times> gotime" where
  "Blocked rl client now =
     (if client = [] then (False, 0)
      else case map_of (rl_shards rl (rl_shard client)) client of
             Some b \<Rightarrow> if \<not> IsZero (rb_blockedUntil b) \<and> now < rb_blockedUntil b
                       then (True, rb_blockedUntil b) else (False, 0)
           | None \<Rightarrow> (False, 0))"

record BlockedClient =
  bc_IP :: string
  bc_BlockedUntil :: gotime
  bc_Queries :: int
  bc_Blocks :: int
  bc_FirstSeen :: gotime

definition BlockedList :: "RateLimiter \<Rightarrow> gotime \<Rightarrow> BlockedClient list" where
  "BlockedList rl now =
     sort_key (\<lambda>c. - bc_BlockedUntil c)
       (concat (map (\<lambda>i. map (\<lambda>(ip, b). \<lparr>bc_IP = ip, bc_BlockedUntil = rb_blockedUntil b,
                                bc_Queries = rb_queries b, bc_Blocks = rb_blocks b,
                                bc_FirstSeen = rb_firstSeen b\<rparr>)
                        (filter (\<lambda>(ip, b). \<not> IsZero (rb_blockedUntil b) \<and> now < rb_blockedUntil b)
                           (rl_shards rl i)))
                [0..<rlShards]))"

definition Unblock :: "RateLimiter \<Rightarrow> string \<Rightarrow> gotime \<Rightarrow> RateLimiter" where
  "Unblock rl client now =
     (if client = [] then rl
      else
        let s = rl_shards rl (rl_shard client)
        in case map_of s client of
             Some b \<Rightarrow> rl_put rl client
               (gm_put client (b\<lparr>rb_blockedUntil := 0, rb_violations := 0, rb_firstViol := 0,
                  rb_tokens := rl_burst rl, rb_lastSeen := now\<rparr>) s)
           | None \<Rightarrow> rl)"

section \<open>The table behind the shards\<close>

interpretation rlt: bounded_table evictLocked rb_lastSeen rlMaxPerShard
  unfolding evictLocked_def by (rule evict_table_bounded) (simp add: rlMaxPerShard_def)

definition rl_bucket :: "RateLimiter \<Rightarrow> string \<Rightarrow> rlBucket option" where
  "rl_bucket rl client = map_of (rl_shards rl (rl_shard client)) client"

lemma rl_shard_less: "rl_shard client < rlShards"
  by (simp add: rl_shard_def rlShards_def shard_ix_64)

lemma rl_put_fields [simp]:
  "rl_qps (rl_put rl c s) = rl_qps rl" "rl_burst (rl_put rl c s) = rl_burst rl"
  "rl_autoBlock (rl_put rl c s) = rl_autoBlock rl" "rl_blockAfter (rl_put rl c s) = rl_blockAfter rl"
  "rl_blockFor (rl_put rl c s) = rl_blockFor rl"
  by (simp_all add: rl_put_def)

lemma rl_put_shards:
  "rl_shards (rl_put rl c s) i = (if i = rl_shard c then s else rl_shards rl i)"
  by (simp add: rl_put_def)

lemma rl_bucket_put: "rl_bucket (rl_put rl c (gm_put c b s)) c = Some b"
  by (simp add: rl_bucket_def rl_put_shards)

section \<open>Bucket laws\<close>

definition bucket_ok :: "RateLimiter \<Rightarrow> gotime \<Rightarrow> rlBucket \<Rightarrow> bool" where
  "bucket_ok rl t b \<longleftrightarrow> 0 \<le> rb_tokens b \<and> rb_tokens b \<le> rl_burst rl \<and> rb_lastSeen b \<le> t \<and>
     0 \<le> rb_blocks b \<and> 0 \<le> rb_violations b"

lemma recordViolationLocked_simps [simp]:
  "rb_tokens (recordViolationLocked rl b now) = rb_tokens b"
  "rb_lastSeen (recordViolationLocked rl b now) = rb_lastSeen b"
  "rb_queries (recordViolationLocked rl b now) = rb_queries b"
  "rb_firstSeen (recordViolationLocked rl b now) = rb_firstSeen b"
  by (simp_all add: recordViolationLocked_def Let_def)

lemma recordViolationLocked_counts:
  "0 \<le> rb_blocks b \<Longrightarrow> 0 \<le> rb_blocks (recordViolationLocked rl b now)"
  "0 \<le> rb_violations b \<Longrightarrow> 0 \<le> rb_violations (recordViolationLocked rl b now)"
  by (simp_all add: recordViolationLocked_def Let_def)

lemma recordViolationLocked_off:
  "\<not> rl_autoBlock rl \<Longrightarrow> recordViolationLocked rl b now = b"
  by (simp add: recordViolationLocked_def)

lemma allowBucket_ok:
  assumes "bucket_ok rl t b" "t \<le> now" "1 \<le> rl_burst rl" "0 \<le> rl_qps rl"
  shows "bucket_ok rl now (snd (allowBucket rl b now))"
proof -
  have "0 \<le> Seconds (tsub now (rb_lastSeen b)) * rl_qps rl"
    using assms by (simp add: bucket_ok_def Seconds_nonneg tsub_nonneg)
  then show ?thesis
    using assms by (auto simp: allowBucket_def Let_def bucket_ok_def recordViolationLocked_counts)
qed

lemma bucket_ok_time: "bucket_ok rl t b \<Longrightarrow> t \<le> t' \<Longrightarrow> bucket_ok rl t' b"
  by (simp add: bucket_ok_def)

lemma allowBucket_refuses:
  "0 < rb_blockedUntil b \<Longrightarrow> now < rb_blockedUntil b \<Longrightarrow>
   allowBucket rl b now = (False, b\<lparr>rb_lastSeen := now, rb_queries := rb_queries b + 1\<rparr>)"
  by (simp add: allowBucket_def Let_def)

lemma allowBucket_after_block:
  assumes "rb_blockedUntil b \<noteq> 0" "rb_blockedUntil b \<le> now" "1 \<le> rl_burst rl" "0 \<le> rl_qps rl"
    "rb_lastSeen b \<le> now"
  shows "fst (allowBucket rl b now)"
    and "rb_blockedUntil (snd (allowBucket rl b now)) = 0"
    and "rb_tokens (snd (allowBucket rl b now)) = rl_burst rl - 1"
proof -
  have "0 \<le> Seconds (tsub now (rb_lastSeen b)) * rl_qps rl"
    using assms by (simp add: Seconds_nonneg tsub_nonneg)
  then show "fst (allowBucket rl b now)"
    and "rb_blockedUntil (snd (allowBucket rl b now)) = 0"
    and "rb_tokens (snd (allowBucket rl b now)) = rl_burst rl - 1"
    using assms by (auto simp: allowBucket_def Let_def)
qed

lemma allowBucket_potential:
  assumes "rb_blockedUntil b = 0" "\<not> rl_autoBlock rl" "0 \<le> rl_qps rl" "rb_lastSeen b \<le> now"
    "allowBucket rl b now = (ok, b')"
  shows "(if ok then 1 else 0) + rb_tokens b' \<le> rb_tokens b + rl_qps rl * Seconds (now - rb_lastSeen b)"
  using refill_le[OF assms(4,3)] assms
  by (auto simp: allowBucket_def Let_def recordViolationLocked_off split: if_splits)

section \<open>Runs of the limiter\<close>

datatype rl_event = EvAllow string | EvForceBlock string duration | EvUnblock string

fun rl_apply :: "RateLimiter \<Rightarrow> rl_event \<Rightarrow> gotime \<Rightarrow> RateLimiter" where
  "rl_apply rl (EvAllow c) now = snd (RateLimiter_Allow rl c now)"
| "rl_apply rl (EvForceBlock c d) now = RateLimiter_ForceBlock rl c d now"
| "rl_apply rl (EvUnblock c) now = Unblock rl c now"

text \<open>Limiter states a server can be in: built from the configuration, then driven by queries,
  honeypot and repeat-query blocks and dashboard unblocks at non-decreasing times.\<close>

inductive rl_reach :: "RateLimiter \<Rightarrow> gotime \<Rightarrow> bool" where
  rl_new: "0 \<le> t \<Longrightarrow> rl_reach (NewRateLimiter qps burst) t"
| rl_auto: "0 \<le> t \<Longrightarrow> rl_reach (SetAutoBlock (NewRateLimiter qps burst) after d) t"
| rl_step: "rl_reach rl t \<Longrightarrow> t \<le> now \<Longrightarrow> rl_reach (rl_apply rl ev now) now"

definition rl_inv :: "RateLimiter \<Rightarrow> gotime \<Rightarrow> bool" where
  "rl_inv rl t \<longleftrightarrow> 1 \<le> rl_burst rl \<and> 1 \<le> rl_qps rl \<and>
     (\<forall>i. rlt.tbl_ok (rl_shards rl i) \<and> (\<forall>x \<in> set (rl_shards rl i). bucket_ok rl t (snd x)))"

lemma bucket_ok_cong:
  "rl_burst rl' = rl_burst rl \<Longrightarrow> bucket_ok rl' t b = bucket_ok rl t b"
  by (simp add: bucket_ok_def)

lemma rl_inv_time: "rl_inv rl t \<Longrightarrow> t \<le> t' \<Longrightarrow> rl_inv rl t'"
  by (auto simp: rl_inv_def intro: bucket_ok_time)

lemma rl_inv_put:
  assumes "rl_inv rl t" "rlt.tbl_ok s" "\<forall>x \<in> set s. bucket_ok rl t (snd x)"
  shows "rl_inv (rl_put rl c s) t"
  using assms unfolding rl_inv_def by (simp add: rl_put_shards bucket_ok_cong[of "rl_put rl c s" rl])

lemma rl_inv_lookup:
  "rl_inv rl t \<Longrightarrow> map_of (rl_shards rl i) c = Some b \<Longrightarrow> bucket_ok rl t b"
  unfolding rl_inv_def using map_of_SomeD[of "rl_shards rl i" c b] by fastforce

lemma rl_inv_insert:
  assumes inv: "rl_inv rl t" and c: "c \<noteq> []" and b: "bucket_ok rl t b"
  shows "rl_inv (rl_put rl c (gm_put c b (evictLocked (rl_shards rl (rl_shard c)) now))) t"
proof (rule rl_inv_put[OF inv])
  show "rlt.tbl_ok (gm_put c b (evictLocked (rl_shards rl (rl_shard c)) now))"
    using inv c by (auto simp: rl_inv_def intro: rlt.tbl_ok_insert)
  have "\<forall>x \<in> set (rl_shards rl (rl_shard c)). bucket_ok rl t (snd x)"
    using inv by (simp add: rl_inv_def)
  then show "\<forall>x \<in> set (gm_put c b (evictLocked (rl_shards rl (rl_shard c)) now)). bucket_ok rl t (snd x)"
    using b rlt.evict_ball[of _ "\<lambda>x. bucket_ok rl t (snd x)" c b now] by fastforce
qed

lemma rl_inv_update:
  assumes inv: "rl_inv rl t" and m: "map_of (rl_shards rl (rl_shard c)) c = Some b'" and b: "bucket_ok rl t b"
  shows "rl_inv (rl_put rl c (gm_put c b (rl_shards rl (rl_shard c)))) t"
proof (rule rl_inv_put[OF inv])
  show "rlt.tbl_ok (gm_put c b (rl_shards rl (rl_shard c)))"
    using inv m by (auto simp: rl_inv_def intro: rlt.tbl_ok_update)
  show "\<forall>x \<in> set (gm_put c b (rl_shards rl (rl_shard c))). bucket_ok rl t (snd x)"
    using inv b by (intro gm_put_ball) (auto simp: rl_inv_def)
qed

lemma Allow_inv:
  assumes inv: "rl_inv rl t" and t: "t \<le> now"
  shows "rl_inv (snd (RateLimiter_Allow rl c now)) now"
proof -
  note inv' = rl_inv_time[OF inv t]
  have burst: "1 \<le> rl_burst rl" "1 \<le> rl_qps rl" using inv by (simp_all add: rl_inv_def)
  show ?thesis
  proof (cases "c = []")
    case False
    show ?thesis
    proof (cases "map_of (rl_shards rl (rl_shard c)) c")
      case None
      then show ?thesis using False burst
        by (auto simp: RateLimiter_Allow_def Let_def bucket_ok_def zero_rlBucket_def
            intro!: rl_inv_insert inv')
    next
      case (Some b)
      then have "bucket_ok rl now (snd (allowBucket rl b now))"
        using rl_inv_lookup[OF inv Some] t burst by (auto intro!: allowBucket_ok[of rl t])
      then show ?thesis using False Some inv'
        by (auto simp: RateLimiter_Allow_def Let_def split: prod.splits intro!: rl_inv_update)
    qed
  qed (use inv' in \<open>simp add: RateLimiter_Allow_def\<close>)
qed

lemma ForceBlock_inv:
  assumes inv: "rl_inv rl t" and t: "t \<le> now"
  shows "rl_inv (RateLimiter_ForceBlock rl c d now) now"
proof -
  note inv' = rl_inv_time[OF inv t]
  have burst: "1 \<le> rl_burst rl" "1 \<le> rl_qps rl" using inv by (simp_all add: rl_inv_def)
  show ?thesis
  proof (cases "map_of (rl_shards rl (rl_shard c)) c")
    case None
    then show ?thesis using inv' burst
      by (auto simp: RateLimiter_ForceBlock_def Let_def bucket_ok_def zero_rlBucket_def
          intro!: rl_inv_insert)
  next
    case (Some b)
    then show ?thesis using inv' rl_inv_lookup[OF inv' Some]
      by (auto simp: RateLimiter_ForceBlock_def Let_def bucket_ok_def intro!: rl_inv_update)
  qed
qed

lemma Unblock_inv:
  assumes inv: "rl_inv rl t" and t: "t \<le> now"
  shows "rl_inv (Unblock rl c now) now"
proof -
  note inv' = rl_inv_time[OF inv t]
  have burst: "1 \<le> rl_burst rl" "1 \<le> rl_qps rl" using inv by (simp_all add: rl_inv_def)
  show ?thesis
  proof (cases "map_of (rl_shards rl (rl_shard c)) c")
    case (Some b)
    then show ?thesis using inv' burst rl_inv_lookup[OF inv' Some]
      by (auto simp: Unblock_def Let_def bucket_ok_def intro!: rl_inv_update)
  qed (use inv' in \<open>simp add: Unblock_def\<close>)
qed

lemma NewRateLimiter_inv: "rl_inv (NewRateLimiter qps burst) t"
  by (simp add: NewRateLimiter_def rl_inv_def rlt.tbl_ok_empty)

lemma SetAutoBlock_inv: "rl_inv rl t \<Longrightarrow> rl_inv (SetAutoBlock rl after d) t"
  by (simp add: SetAutoBlock_def rl_inv_def Let_def bucket_ok_def)

lemma rl_reach_inv: "rl_reach rl t \<Longrightarrow> rl_inv rl t"
proof (induction rule: rl_reach.induct)
  case (rl_step rl t now ev)
  then show ?case by (cases ev) (auto intro: Allow_inv ForceBlock_inv Unblock_inv)
qed (simp_all add: NewRateLimiter_inv SetAutoBlock_inv)

section \<open>One client over a run of queries\<close>

abbreviation allow_run :: "RateLimiter \<Rightarrow> string \<Rightarrow> gotime list \<Rightarrow> bool list \<times> RateLimiter" where
  "allow_run rl c ts \<equiv> query_run (\<lambda>rl. RateLimiter_Allow rl c) rl ts"

lemma Allow_known:
  assumes "c \<noteq> []" "rl_bucket rl c = Some b" "allowBucket rl b now = (ok, b')"
  obtains rl' where "RateLimiter_Allow rl c now = (ok, rl')" "rl_bucket rl' c = Some b'"
    "rl_qps rl' = rl_qps rl" "rl_burst rl' = rl_burst rl" "rl_autoBlock rl' = rl_autoBlock rl"
    "rl_blockFor rl' = rl_blockFor rl" "rl_blockAfter rl' = rl_blockAfter rl"
  using assms by (simp add: RateLimiter_Allow_def rl_bucket_def Let_def rl_put_shards)

lemma Allow_blocked_run:
  assumes "c \<noteq> []" "rl_bucket rl c = Some b" "0 < rb_blockedUntil b" "\<forall>t \<in> set ts. t < rb_blockedUntil b"
  shows "\<forall>ok \<in> set (fst (allow_run rl c ts)). \<not> ok"
  using assms
proof (induction ts arbitrary: rl b)
  case (Cons t ts)
  let ?b = "b\<lparr>rb_lastSeen := t, rb_queries := rb_queries b + 1\<rparr>"
  have "allowBucket rl b t = (False, ?b)" using Cons.prems by (simp add: allowBucket_refuses)
  then obtain rl' where rl': "RateLimiter_Allow rl c t = (False, rl')" "rl_bucket rl' c = Some ?b"
    using Allow_known[OF Cons.prems(1,2)] by metis
  have "\<forall>ok \<in> set (fst (allow_run rl' c ts)). \<not> ok"
    by (rule Cons.IH[OF Cons.prems(1) rl'(2)]) (use Cons.prems in auto)
  then show ?case using rl' by (auto split: prod.splits)
qed simp

text \<open>
  Without auto-block and with no block in force, a client's bucket is a token bucket: an admission
  costs one token and the refill is bounded by the elapsed time.
\<close>

definition rl_plain :: "string \<Rightarrow> rat \<Rightarrow> RateLimiter \<Rightarrow> bool" where
  "rl_plain c q rl \<longleftrightarrow> c \<noteq> [] \<and> 0 \<le> q \<and> rl_qps rl = q \<and> 1 \<le> rl_burst rl \<and> \<not> rl_autoBlock rl \<and>
     (\<exists>b. rl_bucket rl c = Some b \<and> rb_blockedUntil b = 0 \<and> 0 \<le> rb_tokens b)"

definition rl_level :: "string \<Rightarrow> RateLimiter \<Rightarrow> rat" where
  "rl_level c rl = rb_tokens (the (rl_bucket rl c))"

definition rl_seen :: "string \<Rightarrow> RateLimiter \<Rightarrow> gotime" where
  "rl_seen c rl = rb_lastSeen (the (rl_bucket rl c))"

lemma rl_plain_allow:
  assumes "rl_plain c q rl" "rl_seen c rl \<le> now" "RateLimiter_Allow rl c now = (ok, rl')"
  shows "rl_plain c q rl' \<and> rl_seen c rl' = now"
    and "(if ok then 1 else 0) + rl_level c rl' \<le> rl_level c rl + q * Seconds (now - rl_seen c rl)"
proof -
  obtain b where b: "c \<noteq> []" "rl_bucket rl c = Some b" "rb_blockedUntil b = 0" "0 \<le> rb_tokens b"
    and cfg: "0 \<le> q" "rl_qps rl = q" "1 \<le> rl_burst rl" "\<not> rl_autoBlock rl"
    using assms(1) by (auto simp: rl_plain_def)
  have seen: "rb_lastSeen b \<le> now" using assms(2) b by (simp add: rl_seen_def)
  obtain ok' b' where ab: "allowBucket rl b now = (ok', b')" by fastforce
  have r: "ok' = ok" "rl_bucket rl' c = Some b'" "rl_qps rl' = q" "rl_burst rl' = rl_burst rl"
    "rl_autoBlock rl' = rl_autoBlock rl"
    using Allow_known[OF b(1,2) ab] assms(3) cfg by (metis Pair_inject)+
  have "0 \<le> rb_tokens b'" "rb_lastSeen b' = now" "rb_blockedUntil b' = 0"
    using ab b cfg refill_nonneg[OF seen cfg(1)]
    by (auto simp: allowBucket_def Let_def recordViolationLocked_off split: if_splits)
  then show "rl_plain c q rl' \<and> rl_seen c rl' = now"
    using b r cfg by (simp add: rl_plain_def rl_seen_def)
  have "(if ok' then 1 else 0) + rb_tokens b' \<le> rb_tokens b + q * Seconds (now - rb_lastSeen b)"
    using allowBucket_potential[OF b(3) cfg(4) _ seen ab] cfg by simp
  then show "(if ok then 1 else 0) + rl_level c rl' \<le> rl_level c rl + q * Seconds (now - rl_seen c rl)"
    using b r by (simp add: rl_level_def rl_seen_def)
qed

interpretation rlb: token_bucket "\<lambda>rl. RateLimiter_Allow rl c" "rl_level c" "rl_seen c" q "rl_plain c q" for c q
proof
  show "rl_plain c q rl \<Longrightarrow> 0 \<le> rl_level c rl" for rl by (auto simp: rl_plain_def rl_level_def)
qed (rule rl_plain_allow; assumption)+

section \<open>The auto-block trips\<close>

lemma Allow_violation:
  assumes "c \<noteq> []" "rl_bucket rl c = Some b" "rb_blockedUntil b = 0" "rb_lastSeen b = now"
    "rb_tokens b < 1" "rb_tokens b \<le> rl_burst rl"
  obtains rl' where "RateLimiter_Allow rl c now = (False, rl')"
    "rl_bucket rl' c = Some (recordViolationLocked rl (b\<lparr>rb_queries := rb_queries b + 1\<rparr>) now)"
    "rl_autoBlock rl' = rl_autoBlock rl" "rl_blockFor rl' = rl_blockFor rl"
    "rl_blockAfter rl' = rl_blockAfter rl" "rl_burst rl' = rl_burst rl"
proof -
  have eta: "b\<lparr>rb_lastSeen := now, rb_queries := q\<rparr> = b\<lparr>rb_queries := q\<rparr>" for q
    using assms(4) by (cases b) simp
  have "allowBucket rl b now = (False, recordViolationLocked rl (b\<lparr>rb_queries := rb_queries b + 1\<rparr>) now)"
    using assms by (simp add: allowBucket_def Let_def Seconds_def eta)
  then show thesis by (rule Allow_known[OF assms(1,2)]) (rule that)
qed

lemma violations_accumulate:
  assumes "c \<noteq> []" "rl_bucket rl c = Some b" "rb_blockedUntil b = 0" "rb_lastSeen b = now"
    "rb_tokens b < 1" "rb_tokens b \<le> rl_burst rl" "rl_autoBlock rl" "0 < now" "0 \<le> rl_blockFor rl"
    "(rb_firstViol b = 0 \<and> rb_violations b = 0) \<or> rb_firstViol b = now"
    "int n = rl_blockAfter rl - rb_violations b" "0 < n"
  shows "\<exists>b'. (\<forall>ok \<in> set (fst (allow_run rl c (replicate n now))). \<not> ok) \<and>
     rl_bucket (snd (allow_run rl c (replicate n now))) c = Some b' \<and>
     rb_blockedUntil b' = now + rl_blockFor rl"
  using assms
proof (induction n arbitrary: rl b)
  case (Suc n)
  let ?b = "b\<lparr>rb_queries := rb_queries b + 1\<rparr>"
  let ?r = "recordViolationLocked rl ?b now"
  obtain rl' where rl': "RateLimiter_Allow rl c now = (False, rl')" "rl_bucket rl' c = Some ?r"
    "rl_autoBlock rl' = rl_autoBlock rl" "rl_blockFor rl' = rl_blockFor rl"
    "rl_blockAfter rl' = rl_blockAfter rl" "rl_burst rl' = rl_burst rl"
    by (rule Allow_violation[OF Suc.prems(1-6)])
  show ?case
  proof (cases "n = 0")
    case True
    then have "rb_blockedUntil ?r = now + rl_blockFor rl"
      using Suc.prems by (auto simp: recordViolationLocked_def Let_def)
    then show ?thesis using rl' True by simp
  next
    case False
    have r: "rb_blockedUntil ?r = 0" "rb_firstViol ?r = now" "rb_violations ?r = rb_violations b + 1"
      using Suc.prems False by (auto simp: recordViolationLocked_def Let_def)
    have "\<exists>b'. (\<forall>ok \<in> set (fst (allow_run rl' c (replicate n now))). \<not> ok) \<and>
       rl_bucket (snd (allow_run rl' c (replicate n now))) c = Some b' \<and>
       rb_blockedUntil b' = now + rl_blockFor rl'"
      by (rule Suc.IH[OF Suc.prems(1) rl'(2)]) (use Suc.prems r rl' False in auto)
    then show ?thesis using rl' by (auto split: prod.splits)
  qed
qed simp

section \<open>Properties\<close>

text \<open>Every limiter the server can reach keeps each shard's table within
  \<^verbatim>\<open>rlMaxPerShard\<close> = 4096 clients with distinct non-empty keys, whatever addresses an attacker sends
  from, and every bucket's token count between zero and the configured burst.\<close>

theorem rate_limiter_bounded:
  assumes "rl_reach rl t"
  shows "\<forall>i. length (rl_shards rl i) \<le> 4096 \<and> gm_wf (rl_shards rl i) \<and> [] \<notin> fst ` set (rl_shards rl i) \<and>
     (\<forall>(c, b) \<in> set (rl_shards rl i). 0 \<le> rb_tokens b \<and> rb_tokens b \<le> rl_burst rl)"
  using rl_reach_inv[OF assms] unfolding rl_inv_def rlt.tbl_ok_def bucket_ok_def
  by (simp add: rlMaxPerShard_def case_prod_beta)

theorem rate_limiter_bounded_witness:
  "\<forall>i. length (rl_shards (rl_apply (NewRateLimiter 5 10) (EvAllow ''10.0.0.1'') 7) i) \<le> 4096 \<and>
     gm_wf (rl_shards (rl_apply (NewRateLimiter 5 10) (EvAllow ''10.0.0.1'') 7) i) \<and>
     [] \<notin> fst ` set (rl_shards (rl_apply (NewRateLimiter 5 10) (EvAllow ''10.0.0.1'') 7) i) \<and>
     (\<forall>(c, b) \<in> set (rl_shards (rl_apply (NewRateLimiter 5 10) (EvAllow ''10.0.0.1'') 7) i).
        0 \<le> rb_tokens b \<and> rb_tokens b \<le> rl_burst (rl_apply (NewRateLimiter 5 10) (EvAllow ''10.0.0.1'') 7))"
  by (rule rate_limiter_bounded[where t = 7]) (rule rl_step[OF rl_new[of 0]], simp_all)



text \<open>A forced block (honeypot hit over UDP, repeat-query flood) refuses every query of the
  client until its window has elapsed, however many tokens the client has, and is reported by
  \<^verbatim>\<open>Blocked\<close> with its expiry.\<close>

theorem force_block_refuses:
  assumes "c \<noteq> []" "0 < d" "0 \<le> now" "\<forall>u \<in> set ts. u < now + d"
  shows "(\<forall>ok \<in> set (fst (allow_run (RateLimiter_ForceBlock rl c d now) c ts)). \<not> ok) \<and>
     (\<forall>u < now + d. Blocked (RateLimiter_ForceBlock rl c d now) c u = (True, now + d))"
proof -
  let ?rl = "RateLimiter_ForceBlock rl c d now"
  have "\<exists>b. rl_bucket ?rl c = Some b \<and> rb_blockedUntil b = now + d"
    using assms(1,2)
    by (cases "map_of (rl_shards rl (rl_shard c)) c") (simp_all add: RateLimiter_ForceBlock_def rl_bucket_put)
  then obtain b where b: "rl_bucket ?rl c = Some b" "rb_blockedUntil b = now + d" by blast
  then have "\<forall>ok \<in> set (fst (allow_run ?rl c ts)). \<not> ok"
    using Allow_blocked_run[OF assms(1) b(1)] assms by simp
  moreover have "\<forall>u < now + d. Blocked ?rl c u = (True, now + d)"
    using b assms by (auto simp: Blocked_def rl_bucket_def)
  ultimately show ?thesis by blast
qed

theorem force_block_refuses_witness:
  "True \<notin> set (fst (allow_run (RateLimiter_ForceBlock (NewRateLimiter 1 2) ''a'' 10 5) ''a'' [6, 14])) \<and>
   Blocked (RateLimiter_ForceBlock (NewRateLimiter 1 2) ''a'' 10 5) ''a'' 14 = (True, 15)"
  using force_block_refuses[of "''a''" 10 5 "[6, 14]" "NewRateLimiter 1 2"] by auto

text \<open>With auto-block on, a client out of tokens that sends \<^verbatim>\<open>blockAfter\<close> more queries is refused
  on every one of them and is then under a block for the configured cooldown: no more and no fewer
  violations are needed.\<close>

theorem auto_block_trips:
  assumes "c \<noteq> []" "rl_bucket rl c = Some b" "rb_blockedUntil b = 0" "rb_lastSeen b = now"
    "rb_tokens b < 1" "1 \<le> rl_burst rl" "rl_autoBlock rl" "0 < now" "0 \<le> rl_blockFor rl"
    "rb_firstViol b = 0" "rb_violations b = 0" "int n = rl_blockAfter rl" "0 < n"
  shows "\<exists>b'. (\<forall>ok \<in> set (fst (allow_run rl c (replicate n now))). \<not> ok) \<and>
     rl_bucket (snd (allow_run rl c (replicate n now))) c = Some b' \<and>
     rb_blockedUntil b' = now + rl_blockFor rl"
  by (rule violations_accumulate[OF assms(1-5)]) (use assms in auto)

definition rl_drained :: RateLimiter where
  "rl_drained = rl_put (SetAutoBlock (NewRateLimiter 1 1) 2 Minute) ''a''
     [(''a'', zero_rlBucket\<lparr>rb_lastSeen := 9\<rparr>)]"

theorem auto_block_trips_witness:
  "\<exists>b'. (\<forall>ok \<in> set (fst (allow_run rl_drained ''a'' (replicate 2 9))). \<not> ok) \<and>
     rl_bucket (snd (allow_run rl_drained ''a'' (replicate 2 9))) ''a'' = Some b' \<and>
     rb_blockedUntil b' = 9 + rl_blockFor rl_drained"
  by (rule auto_block_trips[where b = "zero_rlBucket\<lparr>rb_lastSeen := 9\<rparr>"])
     (simp_all add: rl_drained_def rl_bucket_def rl_put_shards SetAutoBlock_def NewRateLimiter_def
       Let_def zero_rlBucket_def)

text \<open>A block always ends: the first query at or after the expiry is admitted with a full
  bucket, and a dashboard unblock admits the client at once, on any reachable limiter.\<close>

theorem block_ends_with_clean_slate:
  assumes "rl_reach rl t" "t \<le> now" "c \<noteq> []" "rl_bucket rl c = Some b"
  shows "(rb_blockedUntil b \<noteq> 0 \<longrightarrow> rb_blockedUntil b \<le> now \<longrightarrow> fst (RateLimiter_Allow rl c now)) \<and>
     fst (RateLimiter_Allow (Unblock rl c now) c now)"
proof -
  have inv: "rl_inv rl t" using assms(1) by (rule rl_reach_inv)
  have ok: "bucket_ok rl t b" using inv assms(4) by (simp add: rl_bucket_def rl_inv_lookup)
  have "fst (RateLimiter_Allow rl c now)" if "rb_blockedUntil b \<noteq> 0" "rb_blockedUntil b \<le> now"
    using allowBucket_after_block(1)[of b now rl] that ok inv assms
    by (auto simp: RateLimiter_Allow_def rl_bucket_def rl_inv_def bucket_ok_def Let_def split: prod.splits)
  moreover have "fst (RateLimiter_Allow (Unblock rl c now) c now)"
    using assms inv
    by (auto simp: RateLimiter_Allow_def Unblock_def rl_bucket_def rl_put_shards allowBucket_def Seconds_def
        rl_inv_def Let_def split: prod.splits)
  ultimately show ?thesis by blast
qed

theorem block_ends_with_clean_slate_witness:
  "fst (RateLimiter_Allow (rl_apply (NewRateLimiter 1 2) (EvForceBlock ''a'' 10) 5) ''a'' 20) \<and>
   fst (RateLimiter_Allow (Unblock (rl_apply (NewRateLimiter 1 2) (EvForceBlock ''a'' 10) 5) ''a'' 20) ''a'' 20)"
proof -
  let ?rl = "rl_apply (NewRateLimiter 1 2) (EvForceBlock ''a'' 10) 5"
  let ?b = "zero_rlBucket\<lparr>rb_lastSeen := 5, rb_firstSeen := 5, rb_blockedUntil := 15, rb_blocks := 1\<rparr>"
  have "rl_reach ?rl 5" by (rule rl_step[OF rl_new[of 0]]) simp_all
  moreover have "rl_bucket ?rl ''a'' = Some ?b"
    by (simp add: rl_bucket_def RateLimiter_ForceBlock_def NewRateLimiter_def Let_def rl_put_shards zero_rlBucket_def)
  ultimately show ?thesis using block_ends_with_clean_slate[of ?rl 5 20 "''a''" ?b] by simp
qed

text \<open>Clients do not disturb each other: a query of one client leaves every other client's
  bucket as it was, except that a full shard may drop it, and then only a bucket that was seen no
  later than every bucket the shard keeps.\<close>

theorem rate_limiter_isolation:
  assumes "rl_reach rl t" "c' \<noteq> c" "rl_bucket rl c' = Some b'" "rl' = snd (RateLimiter_Allow rl c now)"
  shows "rl_bucket rl' c' = Some b' \<or>
     (rl_bucket rl' c' = None \<and> rl_shard c' = rl_shard c \<and> 4096 \<le> length (rl_shards rl (rl_shard c)) \<and>
      (\<forall>(k, b) \<in> set (rl_shards rl' (rl_shard c)). k \<noteq> c \<longrightarrow> rb_lastSeen b' \<le> rb_lastSeen b))"
proof -
  let ?s = "rl_shards rl (rl_shard c)"
  have tbl: "rlt.tbl_ok ?s" using rl_reach_inv[OF assms(1)] by (simp add: rl_inv_def)
  show ?thesis
  proof (cases "c \<noteq> [] \<and> map_of ?s c = None \<and> rl_shard c' = rl_shard c \<and> map_of (evictLocked ?s now) c' \<noteq> Some b'")
    case False
    then show ?thesis using assms
      by (auto simp: RateLimiter_Allow_def rl_bucket_def rl_put_shards Let_def split: option.splits prod.splits)
  next
    case True
    let ?b = "zero_rlBucket\<lparr>rb_tokens := rl_burst rl - 1, rb_lastSeen := now, rb_queries := 1, rb_firstSeen := now\<rparr>"
    have rl': "rl_shards rl' (rl_shard c) = gm_put c ?b (evictLocked ?s now)"
      using True assms(4) by (simp add: RateLimiter_Allow_def Let_def rl_put_shards)
    have c': "(c', b') \<in> set ?s" using assms(3) True by (simp add: rl_bucket_def map_of_SomeD)
    have full: "4096 \<le> length ?s"
      using True assms(3) rlt.evict_id[of ?s now] by (force simp: rl_bucket_def rlMaxPerShard_def)
    have gone: "map_of (evictLocked ?s now) c' = None"
      using True assms(3) tbl rlt.evict_lookup[of ?s now c']
      by (cases "map_of (evictLocked ?s now) c'") (auto simp: rl_bucket_def rlt.tbl_ok_def)
    then have out: "(c', b') \<in> set ?s - set (evictLocked ?s now)"
      using c' by (auto simp: map_of_eq_None_iff image_iff)
    have "rb_lastSeen b' \<le> rb_lastSeen b" if "(k, b) \<in> set (evictLocked ?s now)" for k b
      using rlt.evict_lru[OF _ _ out that] tbl by (simp add: rlt.tbl_ok_def)
    then have "\<forall>(k, b) \<in> set (gm_put c ?b (evictLocked ?s now)). k \<noteq> c \<longrightarrow> rb_lastSeen b' \<le> rb_lastSeen b"
      using set_put_sub[of c ?b "evictLocked ?s now"] by auto
    moreover have "rl_bucket rl' c' = None"
      using rl' gone True assms(2) by (simp add: rl_bucket_def)
    ultimately show ?thesis using True rl' full by simp
  qed
qed

theorem rate_limiter_isolation_witness:
  "rl_bucket (snd (RateLimiter_Allow (rl_apply (NewRateLimiter 1 2) (EvAllow ''a'') 5) ''b'' 6)) ''a'' =
     Some (zero_rlBucket\<lparr>rb_tokens := 1, rb_lastSeen := 5, rb_queries := 1, rb_firstSeen := 5\<rparr>) \<or>
   (rl_bucket (snd (RateLimiter_Allow (rl_apply (NewRateLimiter 1 2) (EvAllow ''a'') 5) ''b'' 6)) ''a'' = None \<and>
    rl_shard ''a'' = rl_shard ''b'' \<and>
    4096 \<le> length (rl_shards (rl_apply (NewRateLimiter 1 2) (EvAllow ''a'') 5) (rl_shard ''b'')) \<and>
    (\<forall>(k, b) \<in> set (rl_shards (snd (RateLimiter_Allow (rl_apply (NewRateLimiter 1 2) (EvAllow ''a'') 5) ''b'' 6)) (rl_shard ''b'')).
       k \<noteq> ''b'' \<longrightarrow> rb_lastSeen (zero_rlBucket\<lparr>rb_tokens := 1, rb_lastSeen := 5, rb_queries := 1, rb_firstSeen := 5\<rparr>) \<le> rb_lastSeen b))"
  by (rule rate_limiter_isolation[where t = 5])
     (rule rl_step[OF rl_new[of 0]], simp_all add: rl_bucket_def RateLimiter_Allow_def
       NewRateLimiter_def Let_def rl_put_shards)

end
