(* ===== verification/GoStrings.thy ===== *)
theory GoStrings
  imports Prelude
begin

text \<open>
  The part of Go's \<^verbatim>\<open>strings\<close> package the sources use, on byte strings. White space, case folding and
  trimming are those of ASCII: on a string of ASCII bytes each function computes what Go's does;
  the Unicode tables Go consults for other bytes are not modelled. \<^verbatim>\<open>internal/dnsname\<close> is here too.
\<close>

definition is_space :: "char \<Rightarrow> bool" where
  "is_space c \<longleftrightarrow> c = CHR '' '' \<or> (9 \<le> (of_char c :: nat) \<and> (of_char c :: nat) \<le> 13)"

definition is_upper :: "char \<Rightarrow> bool" where
  "is_upper c \<longleftrightarrow> 65 \<le> (of_char c :: nat) \<and> (of_char c :: nat) \<le> 90"

definition is_digit :: "char \<Rightarrow> bool" where
  "is_digit c \<longleftrightarrow> 48 \<le> (of_char c :: nat) \<and> (of_char c :: nat) \<le> 57"

definition lower_char :: "char \<Rightarrow> char" where
  "lower_char c = (if is_upper c then char_of ((of_char c :: nat) + 32) else c)"

definition upper_char :: "char \<Rightarrow> char" where
  "upper_char c = (if 97 \<le> (of_char c :: nat) \<and> (of_char c :: nat) \<le> 122
                   then char_of ((of_char c :: nat) - 32) else c)"

definition ToLower :: "string \<Rightarrow> string" where "ToLower s = map lower_char s"
definition ToUpper :: "string \<Rightarrow> string" where "ToUpper s = map upper_char s"

definition EqualFold :: "string \<Rightarrow> string \<Rightarrow> bool" where
  "EqualFold a b \<longleftrightarrow> ToLower a = ToLower b"

definition TrimSpace :: "string \<Rightarrow> string" where
  "TrimSpace s = rev (dropWhile is_space (rev (dropWhile is_space s)))"

definition HasPrefix :: "string \<Rightarrow> string \<Rightarrow> bool" where
  "HasPrefix s p \<longleftrightarrow> take (length p) s = p"

definition HasSuffix :: "string \<Rightarrow> string \<Rightarrow> bool" where
  "HasSuffix s p \<longleftrightarrow> length p \<le> length s \<and> drop (length s - length p) s = p"

definition TrimPrefix :: "string \<Rightarrow> string \<Rightarrow> string" where
  "TrimPrefix s p = (if HasPrefix s p then drop (length p) s else s)"

definition TrimSuffix :: "string \<Rightarrow> string \<Rightarrow> string" where
  "TrimSuffix s p = (if HasSuffix s p then take (length s - length p) s else s)"

definition CutPrefix :: "string \<Rightarrow> string \<Rightarrow> string option" where
  "CutPrefix s p = (if HasPrefix s p then Some (drop (length p) s) else None)"

text \<open>Index functions return \<open>None\<close> where Go returns -1.\<close>

fun index_by :: "(char \<Rightarrow> bool) \<Rightarrow> string \<Rightarrow> nat option" where
  "index_by P [] = None"
| "index_by P (c # s) = (if P c then Some 0 else map_option Suc (index_by P s))"

definition IndexByte :: "string \<Rightarrow> char \<Rightarrow> nat option" where
  "IndexByte s c = index_by (\<lambda>x. x = c) s"

definition IndexAny :: "string \<Rightarrow> string \<Rightarrow> nat option" where
  "IndexAny s cs = index_by (\<lambda>x. x \<in> set cs) s"

definition LastIndexByte :: "string \<Rightarrow> char \<Rightarrow> nat option" where
  "LastIndexByte s c = map_option (\<lambda>i. length s - 1 - i) (index_by (\<lambda>x. x = c) (rev s))"

text \<open>\<^verbatim>\<open>strings.Cut\<close> and \<^verbatim>\<open>strings.CutLast\<close> around a one-byte separator.\<close>

definition Cut :: "string \<Rightarrow> char \<Rightarrow> (string \<times> string) option" where
  "Cut s c = map_option (\<lambda>i. (take i s, drop (i + 1) s)) (IndexByte s c)"

definition CutLast :: "string \<Rightarrow> char \<Rightarrow> (string \<times> string) option" where
  "CutLast s c = map_option (\<lambda>i. (take i s, drop (i + 1) s)) (LastIndexByte s c)"

definition ContainsAny :: "string \<Rightarrow> string \<Rightarrow> bool" where
  "ContainsAny s cs \<longleftrightarrow> (\<exists>c \<in> set s. c \<in> set cs)"

text \<open>\<^verbatim>\<open>strings.Split\<close> by a one-byte separator, and its inverse \<^verbatim>\<open>strings.Join\<close>.\<close>

fun split_on :: "char \<Rightarrow> string \<Rightarrow> string list" where
  "split_on sep [] = [[]]"
| "split_on sep (c # s) =
     (if c = sep then [] # split_on sep s
      else (case split_on sep s of w # ws \<Rightarrow> (c # w) # ws | [] \<Rightarrow> [[c]]))"

fun join_with :: "string \<Rightarrow> string list \<Rightarrow> string" where
  "join_with sep [] = []"
| "join_with sep [w] = w"
| "join_with sep (w # v # ws) = w @ sep @ join_with sep (v # ws)"

text \<open>\<^verbatim>\<open>strings.Fields\<close>: the maximal runs of non-space bytes.\<close>

fun fields_acc :: "string \<Rightarrow> string \<Rightarrow> string list" where
  "fields_acc acc [] = (if acc = [] then [] else [rev acc])"
| "fields_acc acc (c # s) =
     (if is_space c then (if acc = [] then fields_acc [] s else rev acc # fields_acc [] s)
      else fields_acc (c # acc) s)"

definition Fields :: "string \<Rightarrow> string list" where
  "Fields s = fields_acc [] s"

section \<open>internal/dnsname\<close>

definition CanonicalDomain :: "string \<Rightarrow> string" where
  "CanonicalDomain s = ToLower (TrimSuffix (TrimSpace s) ''.'')"

section \<open>Laws\<close>

lemma split_on_ne [simp]: "split_on sep s \<noteq> []"
  by (induction s) (auto split: list.splits)

lemma join_split [simp]: "join_with [sep] (split_on sep s) = s"
proof (induction s)
  case (Cons c s)
  then show ?case
    by (cases "split_on sep s"; cases "tl (split_on sep s)") auto
qed simp

lemma split_on_no_sep: "w \<in> set (split_on sep s) \<Longrightarrow> sep \<notin> set w"
  by (induction s arbitrary: w) (auto split: if_splits list.splits)

lemma split_on_single: "sep \<notin> set s \<Longrightarrow> split_on sep s = [s]"
  by (induction s) auto

lemma split_on_append: "sep \<notin> set w \<Longrightarrow> split_on sep (w @ sep # s) = w # split_on sep s"
  by (induction w) auto

lemma split_join:
  "ws \<noteq> [] \<Longrightarrow> \<forall>w \<in> set ws. sep \<notin> set w \<Longrightarrow> split_on sep (join_with [sep] ws) = ws"
  by (induction "[sep]" ws rule: join_with.induct) (auto simp: split_on_single split_on_append)

lemma length_TrimSpace: "length (TrimSpace s) \<le> length s"
  using length_dropWhile_le[of is_space "rev (dropWhile is_space s)"] length_dropWhile_le[of is_space s]
  by (simp add: TrimSpace_def)

lemma dropWhile_hd: "dropWhile P s = c # r \<Longrightarrow> \<not> P c"
  by (metis hd_dropWhile list.discI list.sel(1))

lemma TrimSpace_idem [simp]: "TrimSpace (TrimSpace s) = TrimSpace s"
proof -
  define a where "a = dropWhile is_space s"
  define b where "b = dropWhile is_space (rev a)"
  have "\<not> is_space (hd (rev b))" if "b \<noteq> []"
  proof -
    obtain p where "rev a = p @ b" using takeWhile_dropWhile_id[of is_space "rev a"] b_def by metis
    then have "a = rev b @ rev p" by (metis rev_append rev_rev_ident)
    then have "hd a = hd (rev b)" using that by simp
    moreover have "a \<noteq> []" using that b_def by auto
    ultimately show ?thesis using hd_dropWhile[of is_space s] a_def by simp
  qed
  then have "dropWhile is_space (rev b) = rev b"
    by (cases "rev b") auto
  moreover have "dropWhile is_space b = b"
    unfolding b_def by (metis dropWhile_idem)
  ultimately show ?thesis by (simp add: TrimSpace_def a_def[symmetric] b_def[symmetric])
qed

lemma lower_char_idem [simp]: "lower_char (lower_char c) = lower_char c"
proof (cases "is_upper c")
  case True
  then have "(of_char (char_of ((of_char c :: nat) + 32)) :: nat) = of_char c + 32"
    by (simp add: is_upper_def)
  then show ?thesis using True by (simp add: lower_char_def is_upper_def)
qed (simp add: lower_char_def)

lemma ToLower_idem [simp]: "ToLower (ToLower s) = ToLower s"
  by (simp add: ToLower_def)

lemma ToLower_append: "ToLower (a @ b) = ToLower a @ ToLower b"
  by (simp add: ToLower_def)

lemma length_ToLower [simp]: "length (ToLower s) = length s"
  by (simp add: ToLower_def)

lemma lower_char_eq_iff:
  assumes "\<not> is_upper c" "\<not> (97 \<le> (of_char c :: nat) \<and> (of_char c :: nat) \<le> 122)"
  shows "lower_char x = c \<longleftrightarrow> x = c"
proof
  assume l: "lower_char x = c"
  show "x = c"
  proof (cases "is_upper x")
    case True
    then have "(of_char (char_of ((of_char x :: nat) + 32)) :: nat) = of_char x + 32"
      by (simp add: is_upper_def)
    then show ?thesis using True l assms by (auto simp: lower_char_def is_upper_def)
  qed (use l in \<open>simp add: lower_char_def\<close>)
qed (use assms in \<open>simp add: lower_char_def\<close>)

lemma lower_char_dot [simp]: "lower_char x = CHR ''.'' \<longleftrightarrow> x = CHR ''.''"
  by (rule lower_char_eq_iff) (simp_all add: is_upper_def)

lemma TrimSuffix_append [simp]: "TrimSuffix (a @ p) p = a"
  by (simp add: TrimSuffix_def HasSuffix_def)

lemma CanonicalDomain_lower: "ToLower (CanonicalDomain s) = CanonicalDomain s"
  by (simp add: CanonicalDomain_def)

lemma index_by_Some:
  "index_by P s = Some i \<longleftrightarrow> i < length s \<and> P (s ! i) \<and> (\<forall>j < i. \<not> P (s ! j))"
proof (induction s arbitrary: i)
  case (Cons c s)
  then show ?case by (cases i) (auto simp: less_Suc_eq_0_disj)
qed simp

lemma index_by_None: "index_by P s = None \<longleftrightarrow> (\<forall>c \<in> set s. \<not> P c)"
  by (induction s) auto

lemma LastIndexByte_None: "LastIndexByte s c = None \<longleftrightarrow> c \<notin> set s"
  by (simp add: LastIndexByte_def index_by_None) metis

lemma LastIndexByte_Some:
  assumes "LastIndexByte s c = Some i"
  shows "i < length s" "s ! i = c" "\<forall>j. i < j \<and> j < length s \<longrightarrow> s ! j \<noteq> c"
proof -
  obtain k where k: "index_by (\<lambda>x. x = c) (rev s) = Some k" "i = length s - 1 - k"
    using assms by (auto simp: LastIndexByte_def)
  have kl: "k < length s" "rev s ! k = c" "\<forall>j < k. rev s ! j \<noteq> c"
    using k(1) by (auto simp: index_by_Some)
  show "i < length s" using k(2) kl(1) by simp
  show "s ! i = c" using k(2) kl by (simp add: rev_nth)
  show "\<forall>j. i < j \<and> j < length s \<longrightarrow> s ! j \<noteq> c"
  proof (intro allI impI)
    fix j assume j: "i < j \<and> j < length s"
    then have "length s - 1 - j < k" using k(2) kl(1) by auto
    then have "rev s ! (length s - 1 - j) \<noteq> c" using kl(3) by blast
    moreover have "rev s ! (length s - 1 - j) = s ! j"
    proof -
      have "length s - 1 - j < length s" "length s - Suc (length s - 1 - j) = j" using j by auto
      then show ?thesis by (simp only: rev_nth)
    qed
    ultimately show "s ! j \<noteq> c" by simp
  qed
qed

lemma index_by_append: "\<forall>x \<in> set a. \<not> P x \<Longrightarrow> P c \<Longrightarrow> index_by P (a @ c # b) = Some (length a)"
  by (induction a) auto

lemma Cut_append:
  assumes "c \<notin> set a" shows "Cut (a @ c # b) c = Some (a, b)"
proof -
  have "\<forall>x \<in> set a. x \<noteq> c" using assms by blast
  then have "index_by (\<lambda>x. x = c) (a @ c # b) = Some (length a)" by (simp add: index_by_append)
  then show ?thesis by (simp add: Cut_def IndexByte_def)
qed

lemma CutLast_append:
  assumes "c \<notin> set b" shows "CutLast (a @ c # b) c = Some (a, b)"
proof -
  have "\<forall>x \<in> set (rev b). x \<noteq> c" using assms by auto
  then have "index_by (\<lambda>x. x = c) (rev b @ c # rev a) = Some (length (rev b))"
    by (rule index_by_append) simp
  then show ?thesis by (simp add: CutLast_def LastIndexByte_def)
qed

lemma Cut_Some: "Cut s c = Some (a, b) \<Longrightarrow> s = a @ c # b"
  by (auto simp: Cut_def IndexByte_def index_by_Some id_take_nth_drop)

end
