(* ===== verification/NetIP.thy ===== *)
theory NetIP
  imports GoStrings
begin

text \<open>
  The part of Go's \<^verbatim>\<open>net\<close> package the sources use: addresses as byte slices (\<open>[]\<close> is the nil
  address), parsing and printing, masks and networks. An address is 4 or 16 bytes long, and an
  IPv4 address also has the 16-byte form with the \<^verbatim>\<open>::ffff:\<close> prefix, as \<^verbatim>\<open>net.ParseIP\<close> returns it.
\<close>

type_synonym byte = "8 word"
type_synonym IP = "byte list"

section \<open>Forms of an address\<close>

definition v4InV6Prefix :: "byte list" where
  "v4InV6Prefix = replicate 10 0 @ [255, 255]"

definition To4 :: "IP \<Rightarrow> IP" where
  "To4 ip = (if length ip = 4 then ip
             else if length ip = 16 \<and> take 12 ip = v4InV6Prefix then drop 12 ip
             else [])"

definition To16 :: "IP \<Rightarrow> IP" where
  "To16 ip = (if length ip = 4 then v4InV6Prefix @ ip
              else if length ip = 16 then ip else [])"

text \<open>\<^verbatim>\<open>IP.Equal\<close>: an IPv4 address equals its 16-byte form.\<close>

definition IP_Equal :: "IP \<Rightarrow> IP \<Rightarrow> bool" where
  "IP_Equal a b \<longleftrightarrow>
     (if length a = length b then a = b
      else if length a = 4 \<and> length b = 16 then take 12 b = v4InV6Prefix \<and> a = drop 12 b
      else if length a = 16 \<and> length b = 4 then take 12 a = v4InV6Prefix \<and> drop 12 a = b
      else False)"

definition IsLoopback :: "IP \<Rightarrow> bool" where
  "IsLoopback ip \<longleftrightarrow>
     (if To4 ip \<noteq> [] then hd (To4 ip) = 127 else IP_Equal ip (replicate 15 0 @ [1]))"

section \<open>Parsing\<close>

text \<open>The dotted-quad scanner: \<open>val\<close>, \<open>digs\<close> and \<open>fs\<close> are the loop's value, digit count and fields.\<close>

fun v4_fields :: "nat \<Rightarrow> nat \<Rightarrow> nat list \<Rightarrow> string \<Rightarrow> nat list option" where
  "v4_fields val digs fs [] = (if length fs < 3 \<or> digs = 0 then None else Some (fs @ [val]))"
| "v4_fields val digs fs (c # s) =
     (if is_digit c then
        (if digs = 1 \<and> val = 0 then None
         else let v = val * 10 + (of_char c - 48) in
              if v > 255 then None else v4_fields v (digs + 1) fs s)
      else if c = CHR ''.'' then
        (if digs = 0 \<or> length fs = 3 then None else v4_fields 0 0 (fs @ [val]) s)
      else None)"

definition parse_v4 :: "string \<Rightarrow> IP option" where
  "parse_v4 s = map_option (map of_nat) (v4_fields 0 0 [] s)"

definition hex_val :: "char \<Rightarrow> nat option" where
  "hex_val c = (let n = of_char c in
     if 48 \<le> n \<and> n \<le> 57 then Some (n - 48)
     else if 97 \<le> n \<and> n \<le> 102 then Some (n - 87)
     else if 65 \<le> n \<and> n \<le> 70 then Some (n - 55) else None)"

text \<open>One group of at most four hexadecimal digits: its value, its length and the rest.\<close>

fun hex_group :: "nat \<Rightarrow> nat \<Rightarrow> string \<Rightarrow> (nat \<times> nat \<times> string) option" where
  "hex_group acc off [] = Some (acc, off, [])"
| "hex_group acc off (c # s) =
     (case hex_val c of
        None \<Rightarrow> Some (acc, off, c # s)
      | Some d \<Rightarrow> if off > 3 then None else hex_group (acc * 16 + d) (off + 1) s)"

lemma hex_group_len: "hex_group acc off s = Some (v, k, r) \<Longrightarrow> length r + k = length s + off \<and> off \<le> k"
  by (induction acc off s rule: hex_group.induct) (auto split: option.splits if_splits)

text \<open>The group loop: bytes so far, position of the ellipsis, the string that is left. The result
  is the bytes, the ellipsis and the unread rest.\<close>

function v6_groups :: "byte list \<Rightarrow> nat option \<Rightarrow> string \<Rightarrow> (byte list \<times> nat option \<times> string) option" where
  "v6_groups bs ell s =
     (if length bs \<ge> 16 then Some (bs, ell, s)
      else case hex_group 0 0 s of
        None \<Rightarrow> None
      | Some (acc, off, r) \<Rightarrow>
          if off = 0 then None
          else if r \<noteq> [] \<and> hd r = CHR ''.'' then
            (if (ell = None \<and> length bs \<noteq> 12) \<or> length bs + 4 > 16 then None
             else case parse_v4 s of None \<Rightarrow> None | Some f \<Rightarrow> Some (bs @ f, ell, []))
          else
            let bs' = bs @ [of_nat (acc div 256), of_nat (acc mod 256)] in
            if r = [] then Some (bs', ell, [])
            else if hd r \<noteq> CHR '':'' \<or> length r = 1 then None
            else if hd (tl r) = CHR '':'' then
              (if ell \<noteq> None then None
               else if tl (tl r) = [] then Some (bs', Some (length bs'), [])
               else v6_groups bs' (Some (length bs')) (tl (tl r)))
            else v6_groups bs' ell (tl r))"
  by pat_completeness auto
termination
  by (relation "measure (\<lambda>(bs, ell, s). 16 - length bs)") auto

declare v6_groups.simps [simp del]

definition parse_v6 :: "string \<Rightarrow> IP option" where
  "parse_v6 s =
     (let lead = HasPrefix s ''::'';
          s1 = (if lead then drop 2 s else s)
      in if lead \<and> s1 = [] then Some (replicate 16 0)
         else case v6_groups [] (if lead then Some 0 else None) s1 of
           None \<Rightarrow> None
         | Some (bs, ell, r) \<Rightarrow>
             if r \<noteq> [] then None
             else if length bs < 16 then
               (case ell of None \<Rightarrow> None
                | Some e \<Rightarrow> Some (take e bs @ replicate (16 - length bs) 0 @ drop e bs))
             else if ell \<noteq> None then None
             else Some bs)"

text \<open>\<^verbatim>\<open>netip.ParseAddr\<close> decides the family on the first \<^verbatim>\<open>.\<close>, \<^verbatim>\<open>:\<close> or \<^verbatim>\<open>%\<close>. A zone makes
  \<^verbatim>\<open>net.ParseIP\<close> fail, so every string with a \<^verbatim>\<open>%\<close> is rejected.\<close>

definition parse_addr :: "string \<Rightarrow> IP option" where
  "parse_addr s =
     (case IndexAny s ''.:%'' of
        None \<Rightarrow> None
      | Some i \<Rightarrow> if s ! i = CHR ''.'' then parse_v4 s
                  else if s ! i = CHR '':'' \<and> CHR ''%'' \<notin> set s then parse_v6 s
                  else None)"

definition ParseIP :: "string \<Rightarrow> IP" where
  "ParseIP s = (case parse_addr s of None \<Rightarrow> [] | Some a \<Rightarrow> To16 a)"

section \<open>Printing\<close>

fun dec_digits :: "nat \<Rightarrow> string" where
  "dec_digits n = (if n < 10 then [char_of (48 + n)] else dec_digits (n div 10) @ [char_of (48 + n mod 10)])"

declare dec_digits.simps [simp del]

fun hex_digits :: "nat \<Rightarrow> string" where
  "hex_digits n = (let d = (\<lambda>k. char_of (if k < 10 then 48 + k else 87 + k)) in
     if n < 16 then [d n] else hex_digits (n div 16) @ [d (n mod 16)])"

declare hex_digits.simps [simp del]

fun groups16 :: "byte list \<Rightarrow> nat list" where
  "groups16 (a # b # r) = (unat a * 256 + unat b) # groups16 r"
| "groups16 _ = []"

text \<open>The longest run of at least two zero groups, the first one on ties.\<close>

definition zero_run :: "nat list \<Rightarrow> nat \<Rightarrow> nat" where
  "zero_run g i = length (takeWhile (\<lambda>x. x = 0) (drop i g))"

definition best_run :: "nat list \<Rightarrow> (nat \<times> nat) option" where
  "best_run g = foldl (\<lambda>best i. let l = zero_run g i in
       if l \<ge> 2 \<and> (case best of None \<Rightarrow> True | Some (a, b) \<Rightarrow> l > b - a) then Some (i, i + l) else best)
     None [0..<8]"

definition v6_string :: "IP \<Rightarrow> string" where
  "v6_string ip =
     (let g = groups16 ip; sep = join_with '':'' in
      case best_run g of
        None \<Rightarrow> sep (map hex_digits g)
      | Some (a, b) \<Rightarrow> sep (map hex_digits (take a g)) @ ''::'' @ sep (map hex_digits (drop b g)))"

definition IP_String :: "IP \<Rightarrow> string" where
  "IP_String ip =
     (if ip = [] then ''<nil>''
      else if To4 ip \<noteq> [] then join_with ''.'' (map (\<lambda>b. dec_digits (unat b)) (To4 ip))
      else v6_string ip)"

section \<open>Networks\<close>

record IPNet =
  net_IP :: IP
  net_Mask :: "byte list"

text \<open>\<^verbatim>\<open>CIDRMask(ones, bits)\<close>: \<open>bits\<close> is 32 or 128, the result nil outside the range.\<close>

definition mask_byte :: "nat \<Rightarrow> byte" where
  "mask_byte n = (if n \<ge> 8 then 255 else NOT (drop_bit n 255))"

definition CIDRMask :: "int \<Rightarrow> nat \<Rightarrow> byte list" where
  "CIDRMask ones bits =
     (if (bits \<noteq> 32 \<and> bits \<noteq> 128) \<or> ones < 0 \<or> ones > int bits then []
      else map (\<lambda>i. mask_byte (nat ones - 8 * i)) [0..<bits div 8])"

definition IP_Mask :: "IP \<Rightarrow> byte list \<Rightarrow> IP" where
  "IP_Mask ip msk =
     (let msk1 = (if length msk = 16 \<and> length ip = 4 \<and> take 12 msk = replicate 12 255 then drop 12 msk else msk);
          ip1 = (if length msk1 = 4 \<and> length ip = 16 \<and> take 12 ip = v4InV6Prefix then drop 12 ip else ip)
      in if length ip1 \<noteq> length msk1 then [] else map2 (AND) ip1 msk1)"

definition IPNet_Contains :: "IPNet \<Rightarrow> IP \<Rightarrow> bool" where
  "IPNet_Contains n ip =
     (let nn = (if To4 (net_IP n) \<noteq> [] then To4 (net_IP n) else net_IP n);
          m = (if length (net_Mask n) = 4 then (if length nn = 4 then Some (net_Mask n) else None)
               else if length (net_Mask n) = 16
                    then Some (if length nn = 4 then drop 12 (net_Mask n) else net_Mask n)
                    else None);
          x = (if To4 ip \<noteq> [] then To4 ip else ip)
      in case m of
           None \<Rightarrow> x = []
         | Some m \<Rightarrow> (if length nn = 4 \<or> length nn = 16
                      then length x = length nn \<and> map2 (AND) nn m = map2 (AND) x m
                      else x = []))"

text \<open>\<^verbatim>\<open>dtoi\<close> of a prefix length: decimal digits only, below 16777215.\<close>

fun dtoi_acc :: "nat \<Rightarrow> string \<Rightarrow> nat option" where
  "dtoi_acc n [] = Some n"
| "dtoi_acc n (c # s) =
     (if is_digit c then (let m = n * 10 + (of_char c - 48) in if int m \<ge> 16777215 then None else dtoi_acc m s)
      else None)"

definition ParseCIDR :: "string \<Rightarrow> (IP \<times> IPNet) option" where
  "ParseCIDR s =
     (case IndexByte s CHR ''/'' of
        None \<Rightarrow> None
      | Some i \<Rightarrow>
          (case (parse_addr (take i s), drop (i + 1) s) of
             (Some a, m) \<Rightarrow>
               (if m = [] then None
                else case dtoi_acc 0 m of
                  None \<Rightarrow> None
                | Some n \<Rightarrow>
                    let bits = 8 * length a; msk = CIDRMask (int n) bits in
                    if n > bits then None
                    else Some (To16 a, \<lparr>net_IP = IP_Mask (To16 a) msk, net_Mask = msk\<rparr>))
           | (None, _) \<Rightarrow> None))"

text \<open>\<^verbatim>\<open>net.SplitHostPort\<close>: host and port, or nothing where Go returns an error.\<close>

definition SplitHostPort :: "string \<Rightarrow> (string \<times> string) option" where
  "SplitHostPort hp =
     (case LastIndexByte hp CHR '':'' of
        None \<Rightarrow> None
      | Some i \<Rightarrow>
          let checked = (\<lambda>host j k. if CHR ''['' \<in> set (drop j hp) \<or> CHR '']'' \<in> set (drop k hp) then None
                                    else Some (host, drop (i + 1) hp)) in
          if hd hp = CHR ''['' then
            (case IndexByte hp CHR '']'' of
               None \<Rightarrow> None
             | Some e \<Rightarrow> if e + 1 = i then checked (drop 1 (take e hp)) 1 (e + 1) else None)
          else if CHR '':'' \<in> set (take i hp) then None
          else checked (take i hp) 0 0)"

section \<open>Laws\<close>

lemma To4_length: "To4 ip \<noteq> [] \<Longrightarrow> length (To4 ip) = 4"
  by (auto simp: To4_def split: if_splits)

lemma To4_To16 [simp]: "length ip = 4 \<Longrightarrow> To4 (To16 ip) = ip"
  by (simp add: To4_def To16_def v4InV6Prefix_def)

lemma To16_length: "To16 ip \<noteq> [] \<Longrightarrow> length (To16 ip) = 16"
  by (auto simp: To16_def v4InV6Prefix_def split: if_splits)

lemma To4_idem [simp]: "To4 (To4 ip) = To4 ip"
  by (auto simp: To4_def)

lemma v4_fields_length: "v4_fields val digs fs s = Some r \<Longrightarrow> length fs \<le> 3 \<Longrightarrow> length r = 4"
  by (induction val digs fs s rule: v4_fields.induct) (auto split: if_splits simp: Let_def)

lemma parse_v4_length: "parse_v4 s = Some a \<Longrightarrow> length a = 4"
  by (auto simp: parse_v4_def dest: v4_fields_length)

lemma IP_Mask_length: "IP_Mask ip m \<noteq> [] \<Longrightarrow> length (IP_Mask ip m) = 4 \<or> length (IP_Mask ip m) = 16 \<or> length (IP_Mask ip m) = length ip"
  by (auto simp: IP_Mask_def Let_def)

lemma dec_digits_small: "n < 10 \<Longrightarrow> dec_digits n = [char_of (48 + n)]"
  by (subst dec_digits.simps) simp

lemma dec_digits_big: "\<not> n < 10 \<Longrightarrow> dec_digits n = dec_digits (n div 10) @ [char_of (48 + n mod 10)]"
  by (subst dec_digits.simps) simp

lemma dec_digits_ne: "dec_digits n \<noteq> []"
  by (cases "n < 10") (simp_all add: dec_digits_small dec_digits_big)

lemma dec_digits_digits: "c \<in> set (dec_digits n) \<Longrightarrow> is_digit c"
proof (induction n rule: dec_digits.induct)
  case (1 n)
  have "is_digit (char_of (48 + k))" if "k < 10" for k :: nat
    using that by (simp add: is_digit_def)
  then show ?case using 1 by (cases "n < 10") (auto simp: dec_digits_small dec_digits_big)
qed

lemma digit_char_inj: "a < 10 \<Longrightarrow> b < 10 \<Longrightarrow> char_of (48 + a) = (char_of (48 + b) :: char) \<Longrightarrow> a = (b :: nat)"
  using arg_cong[of "char_of (48 + a)" "char_of (48 + b)" "of_char :: char \<Rightarrow> nat"] by simp

lemma dec_digits_inj: "dec_digits m = dec_digits n \<Longrightarrow> m = n"
proof (induction m arbitrary: n rule: dec_digits.induct)
  case (1 m)
  show ?case
  proof (cases "m < 10")
    case True
    then have "n < 10" using 1(2) dec_digits_ne[of "n div 10"]
      by (cases "n < 10") (simp_all add: dec_digits_small dec_digits_big)
    then show ?thesis using 1(2) True digit_char_inj[of m n] by (simp add: dec_digits_small)
  next
    case False
    have "\<not> n < 10"
    proof
      assume "n < 10"
      then show False using 1(2) False dec_digits_ne[of "m div 10"] by (simp add: dec_digits_small dec_digits_big)
    qed
    then have "dec_digits (m div 10) @ [char_of (48 + m mod 10)] = dec_digits (n div 10) @ [char_of (48 + n mod 10)]"
      using 1(2) False dec_digits_big[of m] dec_digits_big[of n] by simp
    then have d: "dec_digits (m div 10) = dec_digits (n div 10)"
      "char_of (48 + m mod 10) = (char_of (48 + n mod 10) :: char)" by (simp_all del: char_of_eq_iff)
    have "m div 10 = n div 10" by (rule 1(1)[OF False d(1)])
    moreover have "m mod 10 = n mod 10" by (rule digit_char_inj[OF _ _ d(2)]) simp_all
    ultimately show ?thesis by (metis div_mult_mod_eq)
  qed
qed

text \<open>Printing loses nothing of an IPv4 address.\<close>

lemma v4_string_inj:
  assumes "length a = 4" "length b = 4" "IP_String a = IP_String b"
  shows "a = b"
proof -
  have dot: "CHR ''.'' \<notin> set (dec_digits n)" for n
    using dec_digits_digits[of "CHR ''.''" n] by (auto simp: is_digit_def)
  have split: "split_on CHR ''.'' (IP_String x) = map (\<lambda>b. dec_digits (unat b)) x" if "length x = 4" for x
  proof -
    have "x \<noteq> []" "To4 x = x" using that by (auto simp: To4_def)
    then show ?thesis using dot by (auto simp: IP_String_def intro!: split_join)
  qed
  have "map (\<lambda>b. dec_digits (unat b)) a = map (\<lambda>b. dec_digits (unat b)) b"
    using split[OF assms(1)] split[OF assms(2)] assms(3) by simp
  then show ?thesis
    by (rule map_injective) (auto intro!: injI dest!: dec_digits_inj simp: word_unat_eq_iff)
qed

lemma v6_groups_length:
  "v6_groups bs ell s = Some (bs', ell', r) \<Longrightarrow> even (length bs) \<Longrightarrow> length bs \<le> 16 \<Longrightarrow> even (length bs') \<and> length bs' \<le> 16"
proof (induction bs ell s rule: v6_groups.induct)
  case (1 bs ell s)
  show ?case
  proof (cases "length bs \<ge> 16")
    case True
    then show ?thesis using "1.prems" by (simp add: v6_groups.simps[of bs ell s])
  next
    case False
    then have l: "length bs + 2 \<le> 16" using "1.prems"(2) by presburger
    obtain acc off t where hg: "hex_group 0 0 s = Some (acc, off, t)" and off: "off \<noteq> 0"
      using "1.prems"(1) False by (auto simp: v6_groups.simps[of bs ell s] split: option.splits if_splits)
    let ?b = "bs @ [of_nat (acc div 256), of_nat (acc mod 256)]"
    note simp = v6_groups.simps[of bs ell s] hg
    show ?thesis
    proof (cases "t \<noteq> [] \<and> hd t = CHR ''.''")
      case True
      then show ?thesis using "1.prems" False off parse_v4_length[of s]
        by (auto simp: simp split: if_splits option.splits)
    next
      case nodot: False
      show ?thesis
      proof (cases "t = []")
        case True
        then show ?thesis using "1.prems" False off l by (auto simp: simp Let_def)
      next
        case ne: False
        have colon: "\<not> (hd t \<noteq> CHR '':'' \<or> length t = 1)"
          using "1.prems"(1) False off nodot ne by (auto simp: simp Let_def split: if_splits)
        show ?thesis
        proof (cases "hd (tl t) = CHR '':''")
          case True
          show ?thesis
          proof (cases "tl (tl t) = []")
            case True
            then show ?thesis using "1.prems" False off nodot ne colon \<open>hd (tl t) = CHR '':''\<close> l
              by (auto simp: simp Let_def split: if_splits)
          next
            case more: False
            have "ell = None" "v6_groups ?b (Some (length ?b)) (tl (tl t)) = Some (bs', ell', r)"
              using "1.prems"(1) False off nodot ne colon True more by (auto simp: simp Let_def split: if_splits)
            then show ?thesis
              using "1.IH"(1)[OF False hg refl refl off nodot refl ne colon True _ more] "1.prems"(2) l by simp
          qed
        next
          case nc: False
          have "v6_groups ?b ell (tl t) = Some (bs', ell', r)"
            using "1.prems"(1) False off nodot ne colon nc by (auto simp: simp Let_def split: if_splits)
          then show ?thesis
            using "1.IH"(2)[OF False hg refl refl off nodot refl ne colon nc] "1.prems"(2) l by simp
        qed
      qed
    qed
  qed
qed

lemma parse_addr_length: "parse_addr s = Some a \<Longrightarrow> length a = 4 \<or> length a = 16"
  by (auto simp: parse_addr_def parse_v6_def Let_def dest!: parse_v4_length v6_groups_length
      split: if_splits option.splits)
section \<open>IPv4 addresses print and parse back\<close>

lemma v4_fields_digits: "n < 256 \<Longrightarrow> v4_fields 0 0 fs (dec_digits n @ rest) = v4_fields n (length (dec_digits n)) fs rest"
proof (induction n arbitrary: rest rule: dec_digits.induct)
  case (1 n)
  have d: "is_digit (char_of (48 + k)) \<and> (of_char (char_of (48 + k) :: char) :: nat) - 48 = k" if "k < 10" for k :: nat
    using that by (simp add: is_digit_def)
  show ?case
  proof (cases "n < 10")
    case True
    then show ?thesis using d[of n] by (simp add: dec_digits_small)
  next
    case False
    have "n div 10 \<noteq> 0" using False by simp
    then show ?thesis using 1 False d[of "n mod 10"] by (simp add: dec_digits_big)
  qed
qed

lemma v4_fields_dot: "is_digit c \<Longrightarrow> c \<noteq> CHR ''.''"
  by (auto simp: is_digit_def)

lemma not_digit_dot [simp]: "\<not> is_digit CHR ''.''" "\<not> is_digit CHR ''/''" "\<not> is_digit CHR '':''" "\<not> is_digit CHR ''%''"
  by (simp_all add: is_digit_def)

lemma byte_lt: "unat (b :: byte) < 256"
  using unsigned_less[of b] by simp

lemma v4_String: "length a = 4 \<Longrightarrow> IP_String a = dec_digits (unat (a ! 0)) @ CHR ''.'' # dec_digits (unat (a ! 1)) @ CHR ''.'' #
    dec_digits (unat (a ! 2)) @ CHR ''.'' # dec_digits (unat (a ! 3))"
proof -
  assume "length a = 4"
  then obtain w x y z where "a = [w, x, y, z]" by (auto simp: numeral_eq_Suc length_Suc_conv)
  then show ?thesis by (simp add: IP_String_def To4_def numeral_eq_Suc)
qed

lemma parse_v4_String:
  assumes "length a = 4" shows "parse_v4 (IP_String a) = Some a"
proof -
  obtain w x y z where a: "a = [w, x, y, z]" using assms by (auto simp: numeral_eq_Suc length_Suc_conv)
  have "v4_fields 0 0 fs (dec_digits (unat b) @ CHR ''.'' # r) = v4_fields 0 0 (fs @ [unat b]) r" if "length fs < 3" for fs r and b :: byte
    using v4_fields_digits[OF byte_lt, of fs b "CHR ''.'' # r"] that dec_digits_ne[of "unat b"] by simp
  moreover have "v4_fields 0 0 fs (dec_digits (unat b)) = Some (fs @ [unat b])" if "length fs = 3" for fs and b :: byte
    using v4_fields_digits[OF byte_lt, of fs b "[]"] that dec_digits_ne[of "unat b"] by simp
  ultimately have "v4_fields 0 0 [] (IP_String a) = Some (map unat a)"
    unfolding v4_String[OF assms] by (simp add: a numeral_eq_Suc)
  then show ?thesis by (simp add: parse_v4_def comp_def)
qed

lemma v4_String_chars: "length a = 4 \<Longrightarrow> c \<in> set (IP_String a) \<Longrightarrow> is_digit c \<or> c = CHR ''.''"
  by (auto simp: v4_String dest: dec_digits_digits)

lemma v4_String_ne: "length a = 4 \<Longrightarrow> IP_String a \<noteq> []"
  by (simp add: v4_String dec_digits_ne)

lemma parse_addr_v4_String: "length a = 4 \<Longrightarrow> parse_addr (IP_String a) = Some a"
proof -
  assume a: "length a = 4"
  have "CHR ''.'' \<in> set (IP_String a)" by (simp add: v4_String[OF a])
  then obtain i where i: "IndexAny (IP_String a) ''.:%'' = Some i"
    by (cases "IndexAny (IP_String a) ''.:%''") (auto simp: IndexAny_def index_by_None)
  then have il: "i < length (IP_String a)" "IP_String a ! i \<in> set ''.:%''" by (auto simp: IndexAny_def index_by_Some)
  then have "is_digit (IP_String a ! i) \<or> IP_String a ! i = CHR ''.''" using v4_String_chars[OF a] by (metis nth_mem)
  then have "IP_String a ! i = CHR ''.''" using il(2) by auto
  then show ?thesis using i parse_v4_String[OF a] by (simp add: parse_addr_def)
qed

lemma ParseIP_v4_String: "length a = 4 \<Longrightarrow> ParseIP (IP_String a) = To16 a"
  by (simp add: ParseIP_def parse_addr_v4_String)

lemma IP_String_To4: "To4 ip \<noteq> [] \<Longrightarrow> IP_String (To4 ip) = IP_String ip"
  by (auto simp: IP_String_def To4_def)

lemma ParseCIDR_no_slash: "CHR ''/'' \<notin> set s \<Longrightarrow> ParseCIDR s = None"
proof -
  assume "CHR ''/'' \<notin> set s"
  then have "IndexByte s CHR ''/'' = None" by (auto simp: IndexByte_def index_by_None)
  then show ?thesis by (simp add: ParseCIDR_def)
qed

end
