(* ===== verification/FloodGuards.thy ===== *)
theory FloodGuards
  imports NetIP
begin

text \<open>
  The two flood guards of \<^verbatim>\<open>internal/dnsserver\<close>: \<^verbatim>\<open>NXGuard\<close> (\<^verbatim>\<open>nxguard.go\<close>), which counts NXDOMAIN
  responses per client prefix and refuses a prefix that produces too many of them, and
  \<^verbatim>\<open>RepeatGuard\<close> (\<^verbatim>\<open>repeatguard.go\<close>), which detects a client asking for one name over and over. Both
  keep their entries in 64 shards of bounded tables; the shard lock makes every operation atomic.
\<close>

section \<open>NXGuard\<close>

record nxEntry =
  nx_count :: int
  nx_firstSeen :: gotime
  nx_blockedUntil :: gotime

definition nxShards :: nat where "nxShards = 64"
definition nxMaxPerShard :: nat where "nxMaxPerShard = 4096"
definition nxIdleEvict :: duration where "nxIdleEvict = 10 * Minute"

record NXGuard =
  nx_shards :: "nat \<Rightarrow> (string, nxEntry) gomap"
  nx_threshold :: int
  nx_window :: duration
  nx_blockFor :: duration

definition NewNXGuard :: "int \<Rightarrow> duration \<Rightarrow> duration \<Rightarrow> NXGuard" where
  "NewNXGuard threshold window blockFor =
     \<lparr>nx_shards = (\<lambda>_. []),
      nx_threshold = (if threshold < 1 then 1 else threshold),
      nx_window = (if window \<le> 0 then 30 * Second else window),
      nx_blockFor = (if blockFor \<le> 0 then Minute else blockFor)\<rparr>"

definition nx_shard :: "string \<Rightarrow> nat" where
  "nx_shard prefix = shard_ix nxShards prefix"

definition NXGuard_Allow :: "NXGuard \<Rightarrow> string \<Rightarrow> gotime \<Rightarrow> bool" where
  "NXGuard_Allow g prefix now =
     (if prefix = [] then True
      else case map_of (nx_shards g (nx_shard prefix)) prefix of
             None \<Rightarrow> True
           | Some e \<Rightarrow> if IsZero (nx_blockedUntil e) then True else now > nx_blockedUntil e)"

definition evictNXLocked :: "(string, nxEntry) gomap \<Rightarrow> gotime \<Rightarrow> (string, nxEntry) gomap" where
  "evictNXLocked = evict_table nx_firstSeen nxMaxPerShard nxIdleEvict"

definition NoteNX :: "NXGuard \<Rightarrow> string \<Rightarrow> gotime \<Rightarrow> NXGuard" where
  "NoteNX g prefix now =
     (if prefix = [] then g
      else
        let s = nx_shards g (nx_shard prefix);
            (e, s') = (case map_of s prefix of
                None \<Rightarrow> (\<lparr>nx_count = 1, nx_firstSeen = now, nx_blockedUntil = 0\<rparr>, evictNXLocked s now)
              | Some e \<Rightarrow>
                  (let e1 = (if tsub now (nx_firstSeen e) > nx_window g
                             then e\<lparr>nx_count := 0, nx_firstSeen := now, nx_blockedUntil := 0\<rparr> else e)
                   in (e1\<lparr>nx_count := nx_count e1 + 1\<rparr>, s)));
            e' = (if nx_count e \<ge> nx_threshold g \<and> IsZero (nx_blockedUntil e)
                  then e\<lparr>nx_blockedUntil := now + nx_blockFor g, nx_count := 0, nx_firstSeen := now\<rparr>
                  else e)
        in g\<lparr>nx_shards := (nx_shards g)(nx_shard prefix := gm_put prefix e' s')\<rparr>)"

definition clientPrefix :: "string \<Rightarrow> string" where
  "clientPrefix ip =
     (let parsed = ParseIP ip in
      if parsed = [] then ip
      else let v4 = To4 parsed in
        if v4 \<noteq> [] then IP_String (IP_Mask v4 (CIDRMask 24 32))
        else IP_String (IP_Mask parsed (CIDRMask 64 128)))"

section \<open>RepeatGuard\<close>

record rqEntry =
  rq_qname :: string
  rq_count :: int
  rq_firstSeen :: gotime
  rq_blockedUntil :: gotime

definition rqShards :: nat where "rqShards = 64"
definition rqMaxPerShard :: nat where "rqMaxPerShard = 4096"
definition rqIdleEvict :: duration where "rqIdleEvict = 10 * Minute"

record RepeatGuard =
  rq_shards :: "nat \<Rightarrow> (string, rqEntry) gomap"
  rq_threshold :: int
  rq_window :: duration

definition NewRepeatGuard :: "int \<Rightarrow> duration \<Rightarrow> RepeatGuard" where
  "NewRepeatGuard threshold window =
     \<lparr>rq_shards = (\<lambda>_. []),
      rq_threshold = (if threshold < 2 then 2 else threshold),
      rq_window = (if window \<le> 0 then 10 * Second else window)\<rparr>"

definition rq_shard :: "string \<Rightarrow> nat" where
  "rq_shard client = shard_ix rqShards client"

definition RepeatGuard_Allow :: "RepeatGuard \<Rightarrow> string \<Rightarrow> gotime \<Rightarrow> bool" where
  "RepeatGuard_Allow g client now =
     (if client = [] then True
      else case map_of (rq_shards g (rq_shard client)) client of
             None \<Rightarrow> True
           | Some e \<Rightarrow> if IsZero (rq_blockedUntil e) then True else now > rq_blockedUntil e)"

definition evictRQLocked :: "(string, rqEntry) gomap \<Rightarrow> gotime \<Rightarrow> (string, rqEntry) gomap" where
  "evictRQLocked = evict_table rq_firstSeen rqMaxPerShard rqIdleEvict"

definition rq_put :: "RepeatGuard \<Rightarrow> string \<Rightarrow> (string, rqEntry) gomap \<Rightarrow> RepeatGuard" where
  "rq_put g client s = g\<lparr>rq_shards := (rq_shards g)(rq_shard client := s)\<rparr>"

definition NoteQuery :: "RepeatGuard \<Rightarrow> string \<Rightarrow> string \<Rightarrow> gotime \<Rightarrow> bool \<times> RepeatGuard" where
  "NoteQuery g client qname now =
     (if client = [] \<or> qname = [] then (False, g)
      else
        let s = rq_shards g (rq_shard client) in
        case map_of s client of
          None \<Rightarrow> (False, rq_put g client
            (gm_put client \<lparr>rq_qname = qname, rq_count = 1, rq_firstSeen = now, rq_blockedUntil = 0\<rparr>
              (evictRQLocked s now)))
        | Some e \<Rightarrow>
            if rq_qname e \<noteq> qname \<or> tsub now (rq_firstSeen e) > rq_window g then
              (False, rq_put g client
                (gm_put client (e\<lparr>rq_qname := qname, rq_count := 1, rq_firstSeen := now, rq_blockedUntil := 0\<rparr>) s))
            else
              let e1 = e\<lparr>rq_count := rq_count e + 1\<rparr> in
              (rq_count e1 \<ge> rq_threshold g, rq_put g client (gm_put client e1 s)))"

definition RepeatGuard_ForceBlock :: "RepeatGuard \<Rightarrow> string \<Rightarrow> duration \<Rightarrow> gotime \<Rightarrow> RepeatGuard" where
  "RepeatGuard_ForceBlock g client d now =
     (if client = [] \<or> d \<le> 0 then g
      else
        let s = rq_shards g (rq_shard client);
            (e, s') = (case map_of s client of
                None \<Rightarrow> (\<lparr>rq_qname = [], rq_count = 0, rq_firstSeen = now, rq_blockedUntil = 0\<rparr>, evictRQLocked s now)
              | Some e \<Rightarrow> (e, s))
        in rq_put g client
             (gm_put client (e\<lparr>rq_blockedUntil := now + d, rq_qname := [], rq_count := 0, rq_firstSeen := now\<rparr>) s'))"

section \<open>The tables behind the shards\<close>

interpretation nxt: bounded_table evictNXLocked nx_firstSeen nxMaxPerShard
  unfolding evictNXLocked_def by (rule evict_table_bounded) (simp add: nxMaxPerShard_def)

interpretation rqt: bounded_table evictRQLocked rq_firstSeen rqMaxPerShard
  unfolding evictRQLocked_def by (rule evict_table_bounded) (simp add: rqMaxPerShard_def)

text \<open>Guard states: a fresh guard driven by any sequence of its operations. \<^verbatim>\<open>Allow\<close> only reads.\<close>

datatype rq_event = EvNoteQuery string string | EvRqBlock string duration

fun rq_apply :: "RepeatGuard \<Rightarrow> rq_event \<Rightarrow> gotime \<Rightarrow> RepeatGuard" where
  "rq_apply g (EvNoteQuery c q) now = snd (NoteQuery g c q now)"
| "rq_apply g (EvRqBlock c d) now = RepeatGuard_ForceBlock g c d now"

inductive nx_reach :: "NXGuard \<Rightarrow> bool" where
  nx_new: "nx_reach (NewNXGuard n w d)"
| nx_note: "nx_reach g \<Longrightarrow> nx_reach (NoteNX g p now)"

inductive rq_reach :: "RepeatGuard \<Rightarrow> bool" where
  rq_new: "rq_reach (NewRepeatGuard n w)"
| rq_ev: "rq_reach g \<Longrightarrow> rq_reach (rq_apply g ev now)"

definition nx_entry :: "NXGuard \<Rightarrow> string \<Rightarrow> nxEntry option" where
  "nx_entry g p = map_of (nx_shards g (nx_shard p)) p"

definition rq_entry :: "RepeatGuard \<Rightarrow> string \<Rightarrow> rqEntry option" where
  "rq_entry g c = map_of (rq_shards g (rq_shard c)) c"

lemma NoteNX_ok: "\<forall>i. nxt.tbl_ok (nx_shards g i) \<Longrightarrow> nxt.tbl_ok (nx_shards (NoteNX g p now) i)"
  by (auto simp: NoteNX_def Let_def nxt.tbl_ok_insert split: option.splits intro: nxt.tbl_ok_update)

lemma rq_put_ok:
  assumes "\<forall>i. rqt.tbl_ok (rq_shards g i)" "rqt.tbl_ok s"
  shows "rqt.tbl_ok (rq_shards (rq_put g c s) i)"
  using assms by (simp add: rq_put_def)

lemma rq_apply_ok: "\<forall>i. rqt.tbl_ok (rq_shards g i) \<Longrightarrow> rqt.tbl_ok (rq_shards (rq_apply g ev now) i)"
  by (cases ev)
     (auto simp: NoteQuery_def RepeatGuard_ForceBlock_def Let_def rqt.tbl_ok_insert
       split: option.splits intro!: rq_put_ok intro: rqt.tbl_ok_update)

lemma nx_reach_ok: "nx_reach g \<Longrightarrow> nxt.tbl_ok (nx_shards g i)"
  by (induction arbitrary: i rule: nx_reach.induct)
     (simp_all add: NewNXGuard_def nxt.tbl_ok_empty NoteNX_ok)

lemma rq_reach_ok: "rq_reach g \<Longrightarrow> rqt.tbl_ok (rq_shards g i)"
  by (induction arbitrary: i rule: rq_reach.induct)
     (simp_all add: NewRepeatGuard_def rqt.tbl_ok_empty rq_apply_ok)

section \<open>One prefix over a run of NXDOMAIN responses\<close>

text \<open>What one \<^verbatim>\<open>NoteNX\<close> does to the entry of its prefix.\<close>

definition nx_step :: "NXGuard \<Rightarrow> nxEntry option \<Rightarrow> gotime \<Rightarrow> nxEntry" where
  "nx_step g eo now =
     (let e = (case eo of None \<Rightarrow> \<lparr>nx_count = 1, nx_firstSeen = now, nx_blockedUntil = 0\<rparr>
               | Some e \<Rightarrow> if tsub now (nx_firstSeen e) > nx_window g
                           then \<lparr>nx_count = 1, nx_firstSeen = now, nx_blockedUntil = 0\<rparr>
                           else e\<lparr>nx_count := nx_count e + 1\<rparr>)
      in if nx_count e \<ge> nx_threshold g \<and> nx_blockedUntil e = 0
         then \<lparr>nx_count = 0, nx_firstSeen = now, nx_blockedUntil = now + nx_blockFor g\<rparr> else e)"

lemma NoteNX_entry: "p \<noteq> [] \<Longrightarrow> nx_entry (NoteNX g p now) p = Some (nx_step g (nx_entry g p) now)"
  by (cases "map_of (nx_shards g (nx_shard p)) p")
     (auto simp: NoteNX_def nx_entry_def nx_step_def Let_def)

lemma NoteNX_config [simp]:
  "nx_threshold (NoteNX g p now) = nx_threshold g" "nx_window (NoteNX g p now) = nx_window g"
  "nx_blockFor (NoteNX g p now) = nx_blockFor g"
  by (auto simp: NoteNX_def Let_def split: prod.splits)

lemma nx_step_config:
  "nx_threshold g' = nx_threshold g \<Longrightarrow> nx_window g' = nx_window g \<Longrightarrow> nx_blockFor g' = nx_blockFor g \<Longrightarrow>
   nx_step g' eo now = nx_step g eo now"
  by (auto simp: nx_step_def split: option.splits)

definition nx_run :: "NXGuard \<Rightarrow> string \<Rightarrow> gotime list \<Rightarrow> NXGuard" where
  "nx_run g p ts = foldl (\<lambda>g t. NoteNX g p t) g ts"

lemma nx_run_snoc [simp]: "nx_run g p (ts @ [t]) = NoteNX (nx_run g p ts) p t"
  by (simp add: nx_run_def)

lemma nx_run_config [simp]:
  "nx_threshold (nx_run g p ts) = nx_threshold g" "nx_window (nx_run g p ts) = nx_window g"
  "nx_blockFor (nx_run g p ts) = nx_blockFor g"
  by (induction ts rule: rev_induct) (simp_all add: nx_run_def)

lemma nx_run_entry_snoc:
  "p \<noteq> [] \<Longrightarrow> nx_entry (nx_run g p (ts @ [t])) p = Some (nx_step g (nx_entry (nx_run g p ts) p) t)"
  using nx_step_config[of "nx_run g p ts" g] by (simp add: NoteNX_entry)

lemma NXGuard_Allow_entry:
  "NXGuard_Allow g p u \<longleftrightarrow> p = [] \<or> (\<forall>e. nx_entry g p = Some e \<longrightarrow> nx_blockedUntil e = 0 \<or> nx_blockedUntil e < u)"
  by (auto simp: NXGuard_Allow_def nx_entry_def split: option.splits)

lemma nx_run_counting:
  assumes "p \<noteq> []" "nx_entry g p = None" "sorted (t0 # ts)" "tsub (last (t0 # ts)) t0 \<le> nx_window g"
    "int (length (t0 # ts)) < nx_threshold g"
  shows "nx_entry (nx_run g p (t0 # ts)) p =
     Some \<lparr>nx_count = int (length (t0 # ts)), nx_firstSeen = t0, nx_blockedUntil = 0\<rparr>"
  using assms(3-)
proof (induction ts rule: rev_induct)
  case Nil
  then show ?case using assms(1,2) nx_run_entry_snoc[of p g "[]" t0]
    by (simp add: nx_step_def nx_run_def)
next
  case (snoc t ts)
  have srt: "sorted (t0 # ts)" "last (t0 # ts) \<le> t"
    using snoc.prems(1) by (auto simp: sorted_append)
  have "tsub (last (t0 # ts)) t0 \<le> tsub t t0"
    using srt(2) by (rule tsub_mono_left)
  then have "nx_entry (nx_run g p (t0 # ts)) p =
      Some \<lparr>nx_count = int (length (t0 # ts)), nx_firstSeen = t0, nx_blockedUntil = 0\<rparr>"
    using snoc srt by auto
  then show ?case
    using nx_run_entry_snoc[OF assms(1), of g "t0 # ts" t] snoc.prems by (simp add: nx_step_def)
qed

text \<open>While every response falls in an entry's current window, a block already recorded is neither
  lifted nor renewed.\<close>

lemma nx_run_blocked:
  assumes "p \<noteq> []" "nx_entry g p = Some e" "nx_blockedUntil e \<noteq> 0"
    "\<forall>t \<in> set ts. tsub t (nx_firstSeen e) \<le> nx_window g"
  shows "\<exists>e'. nx_entry (nx_run g p ts) p = Some e' \<and> nx_blockedUntil e' = nx_blockedUntil e \<and>
     nx_firstSeen e' = nx_firstSeen e"
  using assms(4)
proof (induction ts rule: rev_induct)
  case Nil
  then show ?case using assms(2) by (simp add: nx_run_def)
next
  case (snoc t ts)
  then obtain e' where "nx_entry (nx_run g p ts) p = Some e'" "nx_blockedUntil e' = nx_blockedUntil e"
    "nx_firstSeen e' = nx_firstSeen e" by auto
  then show ?case
    using snoc.prems assms(3) nx_run_entry_snoc[OF assms(1), of g ts t] by (auto simp: nx_step_def)
qed

text \<open>An entry that is not blocked counts the responses of its current window: \<open>nx_count\<close> of them,
  the first one at \<open>nx_firstSeen\<close>.\<close>

definition nx_counts :: "NXGuard \<Rightarrow> gotime list \<Rightarrow> nxEntry \<Rightarrow> bool" where
  "nx_counts g ts e \<longleftrightarrow> nx_blockedUntil e = 0 \<and> 1 \<le> nx_count e \<and> nat (nx_count e) \<le> length ts \<and>
     nx_firstSeen e = ts ! (length ts - nat (nx_count e)) \<and>
     tsub (last ts) (nx_firstSeen e) \<le> nx_window g"

lemma snoc_le_last: "sorted (ts @ [t]) \<Longrightarrow> i < Suc (length ts) \<Longrightarrow> (ts @ [t]) ! i \<le> (t :: gotime)"
  by (cases "i = length ts") (auto simp: sorted_append nth_append)

lemma nx_trickle:
  assumes "p \<noteq> []" "nx_entry g p = None" "0 \<le> nx_window g" "0 < nx_threshold g" "sorted ts"
    "\<forall>i. i + nat (nx_threshold g) \<le> length ts \<longrightarrow>
         nx_window g < tsub (ts ! (i + nat (nx_threshold g) - 1)) (ts ! i)"
  shows "(ts = [] \<and> nx_entry (nx_run g p ts) p = None) \<or>
     (\<exists>e. nx_entry (nx_run g p ts) p = Some e \<and> nx_counts g ts e)"
  using assms(5,6)
proof (induction ts rule: rev_induct)
  case Nil
  then show ?case using assms(2) by (simp add: nx_run_def)
next
  case (snoc t ts)
  let ?n = "nat (nx_threshold g)"
  have n1: "nx_threshold g \<noteq> 1"
  proof
    assume "nx_threshold g = 1"
    then have "nx_window g < tsub t t"
      using snoc.prems(2)[rule_format, of "length ts"] by (simp add: nth_append)
    then show False using assms(3) by simp
  qed
  then have big: "\<not> nx_threshold g \<le> 1" using assms(4) by linarith
  have gap: "nx_window g < tsub (ts ! (i + ?n - 1)) (ts ! i)" if "i + ?n \<le> length ts" for i
  proof -
    have "i + ?n - 1 < length ts" "i < length ts" using that assms(4) by auto
    then show ?thesis using snoc.prems(2)[rule_format, of i] that by (simp only: nth_append length_append) auto
  qed
  have fresh: "nx_counts g (ts @ [t]) \<lparr>nx_count = 1, nx_firstSeen = t, nx_blockedUntil = 0\<rparr>"
    using assms(3) by (simp add: nx_counts_def)
  have IH: "(ts = [] \<and> nx_entry (nx_run g p ts) p = None) \<or>
     (\<exists>e. nx_entry (nx_run g p ts) p = Some e \<and> nx_counts g ts e)"
    by (rule snoc.IH) (use snoc.prems gap in \<open>auto simp: sorted_append\<close>)
  show ?case
  proof (cases "nx_entry (nx_run g p ts) p")
    case None
    then show ?thesis using fresh big nx_run_entry_snoc[OF assms(1), of g ts t]
      by (auto simp: nx_step_def)
  next
    case (Some e)
    then have e: "nx_counts g ts e" using IH by auto
    show ?thesis
    proof (cases "tsub t (nx_firstSeen e) > nx_window g")
      case True
      then show ?thesis using fresh big Some nx_run_entry_snoc[OF assms(1), of g ts t]
        by (auto simp: nx_step_def)
    next
      case False
      define k where "k = nat (nx_count e)"
      have k: "nx_count e = int k" "1 \<le> k" "k \<le> length ts" using e by (auto simp: k_def nx_counts_def)
      have first: "nx_firstSeen e = (ts @ [t]) ! (length ts - k)"
      proof -
        have "length ts - k < length ts" using k(2,3) by simp
        then show ?thesis using e unfolding nx_counts_def k_def[symmetric] by (simp add: nth_append)
      qed
      have "\<not> nx_threshold g \<le> nx_count e + 1"
      proof
        assume "nx_threshold g \<le> nx_count e + 1"
        then have kn: "?n \<le> k + 1" using k by linarith
        let ?i = "length ts - k"
        have "(ts @ [t]) ! (?i + ?n - 1) \<le> t"
          by (rule snoc_le_last[OF snoc.prems(1)]) (use kn k assms(4) in linarith)
        then have "tsub ((ts @ [t]) ! (?i + ?n - 1)) (nx_firstSeen e) \<le> tsub t (nx_firstSeen e)"
          by (rule tsub_mono_left)
        moreover have "nx_window g < tsub ((ts @ [t]) ! (?i + ?n - 1)) ((ts @ [t]) ! ?i)"
          by (rule snoc.prems(2)[rule_format]) (use kn k in simp)
        ultimately show False using False first by simp
      qed
      then have "nx_entry (nx_run g p (ts @ [t])) p = Some (e\<lparr>nx_count := nx_count e + 1\<rparr>)"
        using Some False nx_run_entry_snoc[OF assms(1), of g ts t] by (simp add: nx_step_def)
      moreover have "nx_counts g (ts @ [t]) (e\<lparr>nx_count := nx_count e + 1\<rparr>)"
        using e k False first by (simp add: nx_counts_def nat_add_distrib)
      ultimately show ?thesis by blast
    qed
  qed
qed

section \<open>One client over a run of queries\<close>

lemma rq_put_config [simp]:
  "rq_threshold (rq_put g c s) = rq_threshold g" "rq_window (rq_put g c s) = rq_window g"
  by (simp_all add: rq_put_def)

lemma rq_entry_put [simp]: "rq_entry (rq_put g c (gm_put c e s)) c = Some e"
  by (simp add: rq_entry_def rq_put_def)

lemma NoteQuery_config [simp]:
  "rq_threshold (snd (NoteQuery g c q now)) = rq_threshold g"
  "rq_window (snd (NoteQuery g c q now)) = rq_window g"
  by (auto simp: NoteQuery_def Let_def split: option.splits)

lemma NoteQuery_fresh:
  assumes "c \<noteq> []" "q \<noteq> []"
    "\<forall>e. rq_entry g c = Some e \<longrightarrow> rq_qname e \<noteq> q \<or> tsub now (rq_firstSeen e) > rq_window g"
  shows "\<not> fst (NoteQuery g c q now)"
    "rq_entry (snd (NoteQuery g c q now)) c =
       Some \<lparr>rq_qname = q, rq_count = 1, rq_firstSeen = now, rq_blockedUntil = 0\<rparr>"
  using assms by (auto simp: NoteQuery_def Let_def rq_entry_def[of g] split: option.splits)

lemma NoteQuery_again:
  assumes "c \<noteq> []" "q \<noteq> []" "rq_entry g c = Some e" "rq_qname e = q" "tsub now (rq_firstSeen e) \<le> rq_window g"
  shows "fst (NoteQuery g c q now) \<longleftrightarrow> rq_threshold g \<le> rq_count e + 1"
    "rq_entry (snd (NoteQuery g c q now)) c = Some (e\<lparr>rq_count := rq_count e + 1\<rparr>)"
  using assms by (auto simp: NoteQuery_def Let_def rq_entry_def[of g])

fun rq_run :: "RepeatGuard \<Rightarrow> string \<Rightarrow> (string \<times> gotime) list \<Rightarrow> bool list \<times> RepeatGuard" where
  "rq_run g c [] = ([], g)"
| "rq_run g c ((q, t) # qs) =
     (let (hit, g1) = NoteQuery g c q t; (hits, g2) = rq_run g1 c qs in (hit # hits, g2))"

lemma rq_run_Cons: "fst (rq_run g c ((q, t) # qs)) =
    fst (NoteQuery g c q t) # fst (rq_run (snd (NoteQuery g c q t)) c qs)"
  by (simp split: prod.splits)

lemma rq_streak:
  assumes "c \<noteq> []" "q \<noteq> []" "rq_entry g c = Some e" "rq_qname e = q"
    "\<forall>t \<in> set ts. tsub t (rq_firstSeen e) \<le> rq_window g"
  shows "fst (rq_run g c (map (Pair q) ts)) =
     map (\<lambda>i. rq_threshold g \<le> rq_count e + 1 + int i) [0..<length ts]"
  using assms(3-)
proof (induction ts arbitrary: g e)
  case (Cons t ts)
  let ?e = "e\<lparr>rq_count := rq_count e + 1\<rparr>"
  let ?g = "snd (NoteQuery g c q t)"
  have t: "tsub t (rq_firstSeen e) \<le> rq_window g" using Cons.prems by simp
  note n = NoteQuery_again[OF assms(1,2) Cons.prems(1,2) t]
  have "fst (rq_run ?g c (map (Pair q) ts)) =
      map (\<lambda>i. rq_threshold ?g \<le> rq_count ?e + 1 + int i) [0..<length ts]"
    by (rule Cons.IH[OF n(2)]) (use Cons.prems in simp_all)
  then show ?case using n(1)
    by (simp add: rq_run_Cons upt_conv_Cons map_Suc_upt[symmetric] ac_simps del: rq_run.simps upt_Suc)
qed simp

lemma rq_browse:
  assumes "c \<noteq> []" "[] \<notin> fst ` set qs" "successively (\<lambda>a b. fst a \<noteq> fst b) qs"
    "\<forall>e. rq_entry g c = Some e \<longrightarrow> qs = [] \<or> rq_qname e \<noteq> fst (hd qs)"
  shows "True \<notin> set (fst (rq_run g c qs))"
  using assms(2-)
proof (induction qs arbitrary: g)
  case (Cons a qs)
  obtain q t where a: "a = (q, t)" by (cases a)
  let ?g = "snd (NoteQuery g c q t)"
  note f = NoteQuery_fresh[OF assms(1), of q g t]
  have "True \<notin> set (fst (rq_run ?g c qs))"
    by (rule Cons.IH) (use Cons.prems a f in \<open>cases qs; auto\<close>)+
  then show ?case using Cons.prems a f by (auto simp: rq_run_Cons simp del: rq_run.simps)
qed simp

section \<open>Prefix keys\<close>

lemma mask24: "length ip = 4 \<Longrightarrow> IP_Mask ip (CIDRMask 24 32) = take 3 ip @ [0]"
proof -
  assume "length ip = 4"
  then obtain a b c d where ip: "ip = [a, b, c, d]"
    by (auto simp: numeral_eq_Suc length_Suc_conv)
  have m: "CIDRMask 24 32 = [-1, -1, -1, 0]"
    by (simp add: CIDRMask_def mask_byte_def upt_conv_Cons)
  show ?thesis unfolding m ip by (simp add: IP_Mask_def)
qed

lemma clientPrefix_v4: "To4 (ParseIP s) \<noteq> [] \<Longrightarrow> clientPrefix s = IP_String (take 3 (To4 (ParseIP s)) @ [0])"
  using mask24[OF To4_length[of "ParseIP s"]]
  by (auto simp: clientPrefix_def Let_def To4_def)

section \<open>Properties\<close>

text \<open>Whatever sources a flood comes from, every reachable NXDOMAIN guard and every reachable
  repeat-query guard holds at most 4096 entries per shard, with distinct non-empty keys.\<close>

theorem flood_guards_bounded:
  assumes "nx_reach g" "rq_reach h"
  shows "length (nx_shards g i) \<le> 4096 \<and> gm_wf (nx_shards g i) \<and> [] \<notin> fst ` set (nx_shards g i) \<and>
         length (rq_shards h i) \<le> 4096 \<and> gm_wf (rq_shards h i) \<and> [] \<notin> fst ` set (rq_shards h i)"
  using nx_reach_ok[OF assms(1), of i] rq_reach_ok[OF assms(2), of i]
  unfolding nxt.tbl_ok_def rqt.tbl_ok_def by (simp add: nxMaxPerShard_def rqMaxPerShard_def)

theorem flood_guards_bounded_witness:
  "length (nx_shards (NoteNX (NewNXGuard 3 10 20) ''10.0.0.0'' 5) 3) \<le> 4096 \<and>
   length (rq_shards (rq_apply (NewRepeatGuard 3 10) (EvNoteQuery ''10.0.0.1'' ''a.com'') 5) 3) \<le> 4096"
  using flood_guards_bounded[OF nx_note[OF nx_new] rq_ev[OF rq_new]] by blast

text \<open>A prefix that is served exactly \<^verbatim>\<open>threshold\<close> NXDOMAIN responses within the window is
  refused from the last of them until the block time is over, and admitted up to then.\<close>

theorem nx_flood_blocked:
  assumes "p \<noteq> []" "nx_entry g p = None" "sorted (t0 # ts @ [t])" "0 < t0" "0 < nx_blockFor g"
    "tsub t t0 \<le> nx_window g" "int (length (t0 # ts @ [t])) = nx_threshold g"
  shows "(\<forall>u. NXGuard_Allow (nx_run g p (t0 # ts)) p u) \<and>
     (\<forall>u. NXGuard_Allow (nx_run g p (t0 # ts @ [t])) p u \<longleftrightarrow> t + nx_blockFor g < u)"
proof -
  have t: "last (t0 # ts) \<le> t" "0 < t" using assms(3,4) by (auto simp: sorted_append)
  then have "tsub (last (t0 # ts)) t0 \<le> nx_window g"
    using assms(6) tsub_mono_left[OF t(1), of t0] by simp
  then have e: "nx_entry (nx_run g p (t0 # ts)) p =
      Some \<lparr>nx_count = int (length (t0 # ts)), nx_firstSeen = t0, nx_blockedUntil = 0\<rparr>"
    using nx_run_counting[OF assms(1,2), of t0 ts] assms(3,7) by (simp add: sorted_append)
  have "nx_entry (nx_run g p ((t0 # ts) @ [t])) p =
      Some \<lparr>nx_count = 0, nx_firstSeen = t, nx_blockedUntil = t + nx_blockFor g\<rparr>"
    unfolding nx_run_entry_snoc[OF assms(1)] e using assms(6,7) by (simp add: nx_step_def)
  then show ?thesis using e assms(1,5) t(2) by (simp add: NXGuard_Allow_entry)
qed

theorem nx_flood_blocked_witness:
  "NXGuard_Allow (nx_run (NewNXGuard 3 10 20) ''10.0.0.0'' [5, 6]) ''10.0.0.0'' 7 \<and>
   \<not> NXGuard_Allow (nx_run (NewNXGuard 3 10 20) ''10.0.0.0'' [5, 6, 7]) ''10.0.0.0'' 27 \<and>
   NXGuard_Allow (nx_run (NewNXGuard 3 10 20) ''10.0.0.0'' [5, 6, 7]) ''10.0.0.0'' 28"
  using nx_flood_blocked[of "''10.0.0.0''" "NewNXGuard 3 10 20" 5 "[6]" 7]
  by (simp add: NewNXGuard_def nx_entry_def tsub_def minDuration_def maxDuration_def)

text \<open>A slow trickle of missing names never accumulates into a block: if no window-long
  interval holds \<^verbatim>\<open>threshold\<close> of a prefix's NXDOMAIN responses, the prefix is admitted at all
  times.\<close>

theorem nx_trickle_never_blocked:
  assumes "p \<noteq> []" "nx_entry g p = None" "0 \<le> nx_window g" "0 < nx_threshold g" "sorted ts"
    "\<forall>i. i + nat (nx_threshold g) \<le> length ts \<longrightarrow>
         nx_window g < tsub (ts ! (i + nat (nx_threshold g) - 1)) (ts ! i)"
  shows "NXGuard_Allow (nx_run g p ts) p u"
  using nx_trickle[OF assms] by (auto simp: NXGuard_Allow_entry nx_counts_def)

theorem nx_trickle_never_blocked_witness:
  "NXGuard_Allow (nx_run (NewNXGuard 2 10 20) ''10.0.0.0'' [5, 16, 27]) ''10.0.0.0'' 28"
proof (rule nx_trickle_never_blocked)
  have "i = 0 \<or> i = 1" if "i + nat (nx_threshold (NewNXGuard 2 10 20)) \<le> length [5, 16, 27 :: int]" for i
    using that by (simp add: NewNXGuard_def) linarith
  then show "\<forall>i. i + nat (nx_threshold (NewNXGuard 2 10 20)) \<le> length [5, 16, 27 :: int] \<longrightarrow>
      nx_window (NewNXGuard 2 10 20) < tsub ([5, 16, 27] ! (i + nat (nx_threshold (NewNXGuard 2 10 20)) - 1)) ([5, 16, 27] ! i)"
    by (fastforce simp: NewNXGuard_def tsub_def minDuration_def maxDuration_def)
qed (simp_all add: NewNXGuard_def nx_entry_def)

text \<open>Once a prefix has been blocked, no number of further NXDOMAIN responses blocks it again
  before its window is over, even after the block itself has ended: with a block time shorter than
  the window a flood passes freely for the difference, although the source promises that a fresh
  burst after the cooldown re-trips the guard.\<close>

theorem nx_reblock_gap:
  assumes "p \<noteq> []" "nx_entry g p = Some e" "nx_blockedUntil e \<noteq> 0" "nx_blockedUntil e < u"
    "\<forall>t \<in> set ts. tsub t (nx_firstSeen e) \<le> nx_window g"
  shows "NXGuard_Allow (nx_run g p ts) p u"
  using nx_run_blocked[OF assms(1,2,3,5)] assms(4) by (auto simp: NXGuard_Allow_entry)

theorem nx_reblock_gap_witness:
  "NXGuard_Allow (nx_run (nx_run (NewNXGuard 1 100 10) ''10.0.0.0'' [5]) ''10.0.0.0'' (replicate 1000 16)) ''10.0.0.0'' 17"
proof (rule nx_reblock_gap)
  show "nx_entry (nx_run (NewNXGuard 1 100 10) ''10.0.0.0'' [5]) ''10.0.0.0'' =
      Some \<lparr>nx_count = 0, nx_firstSeen = 5, nx_blockedUntil = 15\<rparr>"
    by (simp add: nx_run_def NewNXGuard_def NoteNX_entry nx_step_def) (simp add: nx_entry_def)
qed (simp_all add: NewNXGuard_def tsub_def minDuration_def maxDuration_def)

text \<open>The NXDOMAIN guard keys IPv4 clients by their /24: two addresses share a key exactly when
  their first three bytes agree, so a flood spread over one /24 is counted together and no other
  /24 is charged for it.\<close>

theorem clientPrefix_24:
  assumes "To4 (ParseIP a) \<noteq> []" "To4 (ParseIP b) \<noteq> []"
  shows "clientPrefix a = clientPrefix b \<longleftrightarrow> take 3 (To4 (ParseIP a)) = take 3 (To4 (ParseIP b))"
  using clientPrefix_v4[OF assms(1)] clientPrefix_v4[OF assms(2)] To4_length[OF assms(1)] To4_length[OF assms(2)]
    v4_string_inj[of "take 3 (To4 (ParseIP a)) @ [0]" "take 3 (To4 (ParseIP b)) @ [0]"] by auto

theorem clientPrefix_24_witness:
  "clientPrefix ''10.1.2.3'' = clientPrefix ''10.1.2.77''"
proof -
  have a: "ParseIP ''10.1.2.3'' = replicate 10 0 @ [255, 255, 10, 1, 2, 3]"
    "ParseIP ''10.1.2.77'' = replicate 10 0 @ [255, 255, 10, 1, 2, 77]" by code_simp+
  then show ?thesis using clientPrefix_24[of "''10.1.2.3''" "''10.1.2.77''"]
    by (simp add: To4_def v4InV6Prefix_def)
qed

text \<open>The repeat-query guard reports a client's run of queries for one name exactly from the
  \<^verbatim>\<open>threshold\<close>-th query of the window on.\<close>

theorem repeat_flood_detected:
  assumes "c \<noteq> []" "q \<noteq> []" "rq_entry g c = None" "\<forall>t \<in> set ts. tsub t t0 \<le> rq_window g" "1 < rq_threshold g"
  shows "fst (rq_run g c (map (Pair q) (t0 # ts))) =
     map (\<lambda>i. rq_threshold g \<le> int i + 1) [0..<length (t0 # ts)]"
proof -
  let ?g = "snd (NoteQuery g c q t0)"
  note f = NoteQuery_fresh[OF assms(1,2), of g t0]
  have "fst (rq_run ?g c (map (Pair q) ts)) = map (\<lambda>i. rq_threshold ?g \<le> 1 + 1 + int i) [0..<length ts]"
    using rq_streak[OF assms(1,2), of ?g _ ts] f(2) assms(3,4) by simp
  then show ?thesis using f(1) assms(3,5)
    by (simp add: rq_run_Cons upt_conv_Cons map_Suc_upt[symmetric] ac_simps del: rq_run.simps upt_Suc)
qed

theorem repeat_flood_detected_witness:
  "fst (rq_run (NewRepeatGuard 3 10) ''10.0.0.1'' (map (Pair ''a.com'') [5, 6, 7, 8])) = [False, False, True, True]"
  using repeat_flood_detected[of "''10.0.0.1''" "''a.com''" "NewRepeatGuard 3 10" "[6, 7, 8]" 5]
  by (simp add: NewRepeatGuard_def rq_entry_def tsub_def minDuration_def maxDuration_def)

text \<open>Ordinary browsing never trips the repeat-query guard: a client whose consecutive queries
  are for different names is never reported, at any rate and for any threshold.\<close>

theorem repeat_browsing_never_trips:
  assumes "c \<noteq> []" "[] \<notin> fst ` set qs" "successively (\<lambda>a b. fst a \<noteq> fst b) qs" "rq_entry g c = None"
  shows "True \<notin> set (fst (rq_run g c qs))"
  by (rule rq_browse[OF assms(1-3)]) (use assms(4) in simp)

theorem repeat_browsing_never_trips_witness:
  "True \<notin> set (fst (rq_run (NewRepeatGuard 2 10) ''10.0.0.1'' [(''a.com'', 5), (''b.com'', 5), (''a.com'', 6)]))"
  by (rule repeat_browsing_never_trips) (simp_all add: NewRepeatGuard_def rq_entry_def)

text \<open>A repeat-query block refuses the client until its expiry, but \<^verbatim>\<open>NoteQuery\<close> lifts it: a query
  of the same client that passed \<^verbatim>\<open>Allow\<close> before the block was set and is counted after it (two
  queries in flight at once) clears the block at once.\<close>

theorem repeat_block_and_late_note:
  assumes "c \<noteq> []" "0 < d" "0 \<le> now" "q \<noteq> []"
  shows "(\<forall>u. RepeatGuard_Allow (RepeatGuard_ForceBlock g c d now) c u \<longleftrightarrow> now + d < u) \<and>
     RepeatGuard_Allow (snd (NoteQuery (RepeatGuard_ForceBlock g c d now) c q t)) c u"
proof -
  let ?g = "RepeatGuard_ForceBlock g c d now"
  have e: "rq_entry ?g c = Some \<lparr>rq_qname = [], rq_count = 0, rq_firstSeen = now, rq_blockedUntil = now + d\<rparr>"
    using assms by (auto simp: RepeatGuard_ForceBlock_def Let_def split: option.splits)
  then have "rq_entry (snd (NoteQuery ?g c q t)) c =
      Some \<lparr>rq_qname = q, rq_count = 1, rq_firstSeen = t, rq_blockedUntil = 0\<rparr>"
    using NoteQuery_fresh(2)[OF assms(1,4), of ?g t] assms(4) by simp
  then show ?thesis using e assms by (simp add: RepeatGuard_Allow_def rq_entry_def)
qed

theorem repeat_block_and_late_note_witness:
  "\<not> RepeatGuard_Allow (RepeatGuard_ForceBlock (NewRepeatGuard 2 10) ''10.0.0.1'' 100 5) ''10.0.0.1'' 6 \<and>
   RepeatGuard_Allow (snd (NoteQuery (RepeatGuard_ForceBlock (NewRepeatGuard 2 10) ''10.0.0.1'' 100 5) ''10.0.0.1'' ''a.com'' 6)) ''10.0.0.1'' 6"
  using repeat_block_and_late_note[of "''10.0.0.1''" 100 5 "''a.com''" "NewRepeatGuard 2 10" 6 6] by simp

end
