(* ===== verification/ConnLimit.thy ===== *)
theory ConnLimit
  imports NetIP "HOL-Library.Multiset"
begin

text \<open>
  The per-address connection cap of \<^verbatim>\<open>internal/dnsserver/connlimit.go\<close>: the sharded counter
  (\<^verbatim>\<open>connLimiter\<close>), and the listener that takes a slot on \<^verbatim>\<open>Accept\<close> and gives it back when the
  connection is closed. The system a server runs is the step relation \<open>conn_step\<close> over the counter
  and the multiset of connections that are open. \<^verbatim>\<open>clientIPOf\<close> of \<^verbatim>\<open>handler.go\<close> is here too.
\<close>

section \<open>Addresses\<close>

text \<open>A \<^verbatim>\<open>net.Addr\<close>: the two concrete socket addresses, any other implementation by its printed form,
  and nil.\<close>

datatype Addr = NilAddr | UDPAddr IP | TCPAddr IP | OtherAddr string

fun clientIPOf :: "Addr \<Rightarrow> string" where
  "clientIPOf NilAddr = []"
| "clientIPOf (UDPAddr ip) = IP_String ip"
| "clientIPOf (TCPAddr ip) = IP_String ip"
| "clientIPOf (OtherAddr s) = (case SplitHostPort s of None \<Rightarrow> s | Some (host, port) \<Rightarrow> host)"

section \<open>The counter\<close>

definition connLimitShards :: nat where "connLimitShards = 64"

record connLimiter =
  cl_shards :: "nat \<Rightarrow> (string, int) gomap"
  cl_max :: int

definition newConnLimiter :: "int \<Rightarrow> connLimiter" where
  "newConnLimiter mx = \<lparr>cl_shards = (\<lambda>_. []), cl_max = mx\<rparr>"

definition cl_shard :: "string \<Rightarrow> nat" where
  "cl_shard ip = shard_ix connLimitShards ip"

text \<open>\<^verbatim>\<open>s.conns[ip]\<close>: an absent key reads as zero.\<close>

definition conns_of :: "connLimiter \<Rightarrow> string \<Rightarrow> int" where
  "conns_of cl ip = (case map_of (cl_shards cl (cl_shard ip)) ip of None \<Rightarrow> 0 | Some n \<Rightarrow> n)"

definition cl_update :: "connLimiter \<Rightarrow> string \<Rightarrow> ((string, int) gomap \<Rightarrow> (string, int) gomap) \<Rightarrow> connLimiter" where
  "cl_update cl ip f = cl\<lparr>cl_shards := (cl_shards cl)(cl_shard ip := f (cl_shards cl (cl_shard ip)))\<rparr>"

definition acquire :: "connLimiter \<Rightarrow> string \<Rightarrow> bool \<times> connLimiter" where
  "acquire cl ip =
     (if ip = [] \<or> cl_max cl \<le> 0 then (True, cl)
      else if conns_of cl ip \<ge> cl_max cl then (False, cl)
      else (True, cl_update cl ip (gm_put ip (conns_of cl ip + 1))))"

definition release :: "connLimiter \<Rightarrow> string \<Rightarrow> connLimiter" where
  "release cl ip =
     (if ip = [] \<or> cl_max cl \<le> 0 then cl
      else if conns_of cl ip > 1 then cl_update cl ip (gm_put ip (conns_of cl ip - 1))
      else cl_update cl ip (gm_del ip))"

section \<open>The listener\<close>

datatype conn = TrackedConn string | RejectedConn

text \<open>\<^verbatim>\<open>limitListener.Accept\<close> on what the wrapped listener returned: its error, or a connection from
  \<open>addr\<close>. The limiter is an argument and a result, as the listener shares it.\<close>

definition limitListener_Accept ::
  "connLimiter \<Rightarrow> ('err + Addr) \<Rightarrow> ('err + conn) \<times> connLimiter" where
  "limitListener_Accept lim r =
     (case r of
        Inl err \<Rightarrow> (Inl err, lim)
      | Inr addr \<Rightarrow>
          let ip = clientIPOf addr; (ok, lim') = acquire lim ip in
          if ok then (Inr (TrackedConn ip), lim') else (Inr RejectedConn, lim'))"

fun conn_Close :: "connLimiter \<Rightarrow> conn \<Rightarrow> connLimiter" where
  "conn_Close lim (TrackedConn ip) = release lim ip"
| "conn_Close lim RejectedConn = lim"

text \<open>\<^verbatim>\<open>Read\<close> and \<^verbatim>\<open>Write\<close> of a rejected connection fail at once; those of a tracked one are the
  socket's own, \<open>io\<close>.\<close>

fun conn_io :: "(string \<Rightarrow> 'r) \<Rightarrow> 'r \<Rightarrow> conn \<Rightarrow> 'r" where
  "conn_io io errClosed (TrackedConn ip) = io ip"
| "conn_io io errClosed RejectedConn = errClosed"

text \<open>One step of a listener with its open tracked connections: accept from an address, fail to
  accept, or close a connection that is open (each connection is closed once).\<close>

inductive conn_step :: "connLimiter \<times> string multiset \<Rightarrow> connLimiter \<times> string multiset \<Rightarrow> bool" where
  step_accept: "limitListener_Accept lim (Inr addr :: unit + Addr) = (Inr (TrackedConn ip), lim') \<Longrightarrow>
     conn_step (lim, opn) (lim', add_mset ip opn)"
| step_reject: "limitListener_Accept lim (Inr addr :: unit + Addr) = (Inr RejectedConn, lim') \<Longrightarrow>
     conn_step (lim, opn) (lim', opn)"
| step_error: "limitListener_Accept lim (Inl e :: unit + Addr) = (r, lim') \<Longrightarrow> conn_step (lim, opn) (lim', opn)"
| step_close: "ip \<in># opn \<Longrightarrow> conn_step (lim, opn) (conn_Close lim (TrackedConn ip), opn - {#ip#})"

definition conn_reach :: "int \<Rightarrow> connLimiter \<times> string multiset \<Rightarrow> bool" where
  "conn_reach mx st \<longleftrightarrow> conn_step\<^sup>*\<^sup>* (newConnLimiter mx, {#}) st"

inductive_cases conn_stepE: "conn_step (lim, opn) st"

section \<open>The counter counts the open connections\<close>

lemma cl_update_max [simp]: "cl_max (cl_update cl ip f) = cl_max cl"
  by (simp add: cl_update_def)

lemma conns_of_put: "conns_of (cl_update cl ip (gm_put ip n)) x = (if x = ip then n else conns_of cl x)"
  by (simp add: conns_of_def cl_update_def)

lemma conns_of_del: "conns_of (cl_update cl ip (gm_del ip)) x = (if x = ip then 0 else conns_of cl x)"
  by (simp add: conns_of_def cl_update_def)

lemma lookup_put: "map_of (cl_shards (cl_update cl ip (gm_put ip n)) (cl_shard x)) x =
    (if x = ip then Some n else map_of (cl_shards cl (cl_shard x)) x)"
  by (simp add: cl_update_def)

lemma lookup_del: "map_of (cl_shards (cl_update cl ip (gm_del ip)) (cl_shard x)) x =
    (if x = ip then None else map_of (cl_shards cl (cl_shard x)) x)"
  by (simp add: cl_update_def)

definition conn_inv :: "int \<Rightarrow> connLimiter \<times> string multiset \<Rightarrow> bool" where
  "conn_inv mx st \<longleftrightarrow> cl_max (fst st) = mx \<and>
     (\<forall>ip. ip \<noteq> [] \<longrightarrow>
        conns_of (fst st) ip = int (count (snd st) ip) \<and> conns_of (fst st) ip \<le> mx \<and>
        (map_of (cl_shards (fst st) (cl_shard ip)) ip = None \<longleftrightarrow> count (snd st) ip = 0))"

lemma acquire_inv:
  assumes "conn_inv mx (cl, opn)" "0 < mx" "acquire cl ip = (True, cl')"
  shows "conn_inv mx (cl', add_mset ip opn)"
proof (cases "ip = []")
  case False
  then have "cl' = cl_update cl ip (gm_put ip (conns_of cl ip + 1))" "conns_of cl ip < mx"
    using assms by (auto simp: acquire_def conn_inv_def split: if_splits)
  then show ?thesis using assms(1) False unfolding conn_inv_def
    by (auto simp: conns_of_put lookup_put)
next
  case True
  then have "cl' = cl" using assms(3) by (simp add: acquire_def)
  then show ?thesis using assms(1) True unfolding conn_inv_def by auto
qed

lemma release_inv:
  assumes "conn_inv mx (cl, opn)" "0 < mx" "ip \<in># opn"
  shows "conn_inv mx (release cl ip, opn - {#ip#})"
proof (cases "ip = []")
  case False
  have c: "0 < count opn ip" using assms(3) by simp
  then have "conns_of cl ip = int (count opn ip)" using assms(1) False by (simp add: conn_inv_def)
  then show ?thesis using assms False c unfolding conn_inv_def release_def
    by (auto simp: conns_of_put conns_of_del lookup_put lookup_del of_nat_diff)
qed (use assms in \<open>auto simp: release_def conn_inv_def\<close>)

lemma acquire_refused: "acquire cl ip = (False, cl') \<Longrightarrow> cl' = cl \<and> ip \<noteq> [] \<and> 0 < cl_max cl \<and> cl_max cl \<le> conns_of cl ip"
  by (auto simp: acquire_def split: if_splits)

lemma conn_step_inv: "conn_step st st' \<Longrightarrow> 0 < mx \<Longrightarrow> conn_inv mx st \<Longrightarrow> conn_inv mx st'"
proof (induction rule: conn_step.induct)
  case (step_accept lim addr ip lim' opn)
  then have "acquire lim ip = (True, lim')"
    by (auto simp: limitListener_Accept_def Let_def split: prod.splits if_splits)
  then show ?case using step_accept.prems acquire_inv by blast
next
  case (step_reject lim addr lim' opn)
  then have "lim' = lim"
    by (auto simp: limitListener_Accept_def Let_def dest: acquire_refused split: prod.splits if_splits)
  then show ?case using step_reject.prems by simp
next
  case (step_error lim e r lim' opn)
  then show ?case by (simp add: limitListener_Accept_def)
next
  case (step_close ip opn lim)
  then show ?case by (simp add: release_inv)
qed

lemma conn_reach_inv: "conn_reach mx st \<Longrightarrow> 0 < mx \<Longrightarrow> conn_inv mx st"
  unfolding conn_reach_def
proof (induction rule: rtranclp_induct)
  case base
  then show ?case by (simp add: conn_inv_def newConnLimiter_def conns_of_def)
qed (blast intro: conn_step_inv)

section \<open>Properties\<close>

text \<open>On every reachable state of a capped listener the counter of each client address is the
  number of its open connections and at most the cap, an address without open connections has no
  entry left, and a connection is turned away exactly when its address already holds the cap.\<close>

theorem connection_cap:
  assumes "conn_reach mx (lim, opn)" "0 < mx" "ip \<noteq> []"
  shows "int (count opn ip) \<le> mx \<and> conns_of lim ip = int (count opn ip) \<and>
     (count opn ip = 0 \<longleftrightarrow> map_of (cl_shards lim (cl_shard ip)) ip = None) \<and>
     (fst (acquire lim ip) \<longleftrightarrow> int (count opn ip) < mx)"
  using conn_reach_inv[OF assms(1,2)] assms(2,3) by (auto simp: conn_inv_def acquire_def)

theorem connection_cap_witness:
  "int (count {#''10.0.0.1''#} ''10.0.0.1'') \<le> 1 \<and>
   \<not> fst (acquire (snd (acquire (newConnLimiter 1) ''10.0.0.1'')) ''10.0.0.1'')"
proof -
  have ip: "clientIPOf (UDPAddr [10, 0, 0, 1]) = ''10.0.0.1''" by code_simp
  have "conn_step (newConnLimiter 1, {#}) (snd (acquire (newConnLimiter 1) ''10.0.0.1''), add_mset ''10.0.0.1'' {#})"
    by (rule step_accept[where addr = "UDPAddr [10, 0, 0, 1]"])
       (simp add: limitListener_Accept_def Let_def ip[simplified] acquire_def newConnLimiter_def conns_of_def)
  then have "conn_reach 1 (snd (acquire (newConnLimiter 1) ''10.0.0.1''), {#''10.0.0.1''#})"
    unfolding conn_reach_def by (rule r_into_rtranclp)
  from connection_cap[OF this, of "''10.0.0.1''"] show ?thesis by simp
qed

end
