(* ===== verification/GoEncoding.thy ===== *)
theory GoEncoding
  imports NetIP
begin

text \<open>
  The encodings of Go's standard library the sources use: \<^verbatim>\<open>base64.RawURLEncoding\<close> and the decimal
  conversions of \<^verbatim>\<open>strconv\<close>, with their round trips.
\<close>

section \<open>base64.RawURLEncoding\<close>

definition b64_char :: "nat \<Rightarrow> char" where
  "b64_char n = (if n < 26 then char_of (65 + n) else if n < 52 then char_of (71 + n)
                 else if n < 62 then char_of (n - 4) else if n = 62 then CHR ''-'' else CHR ''_'')"

definition b64_val :: "char \<Rightarrow> nat option" where
  "b64_val c = (let n = of_char c in
     if 65 \<le> n \<and> n \<le> 90 then Some (n - 65) else if 97 \<le> n \<and> n \<le> 122 then Some (n - 71)
     else if 48 \<le> n \<and> n \<le> 57 then Some (n + 4) else if n = 45 then Some 62
     else if n = 95 then Some 63 else None)"

fun b64_pack :: "nat list \<Rightarrow> nat list" where
  "b64_pack (a # b # c # r) =
     a div 4 # (a mod 4 * 16 + b div 16) # (b mod 16 * 4 + c div 64) # c mod 64 # b64_pack r"
| "b64_pack [a, b] = [a div 4, a mod 4 * 16 + b div 16, b mod 16 * 4]"
| "b64_pack [a] = [a div 4, a mod 4 * 16]"
| "b64_pack [] = []"

fun b64_unpack :: "nat list \<Rightarrow> nat list option" where
  "b64_unpack (s # t # u # v # r) =
     map_option (\<lambda>bs. (s * 4 + t div 16) # (t mod 16 * 16 + u div 4) # (u mod 4 * 64 + v) # bs) (b64_unpack r)"
| "b64_unpack [s, t, u] = Some [s * 4 + t div 16, t mod 16 * 16 + u div 4]"
| "b64_unpack [s, t] = Some [s * 4 + t div 16]"
| "b64_unpack [s] = None"
| "b64_unpack [] = Some []"

definition b64_EncodeToString :: "string \<Rightarrow> string" where
  "b64_EncodeToString s = map b64_char (b64_pack (map of_char s))"

text \<open>The decoder skips carriage returns and line feeds.\<close>

definition b64_DecodeString :: "string \<Rightarrow> string option" where
  "b64_DecodeString s =
     (let vs = map b64_val (filter (\<lambda>c. c \<noteq> CHR 0x0A \<and> c \<noteq> CHR 0x0D) s) in
      if None \<in> set vs then None
      else map_option (map char_of) (b64_unpack (map the vs)))"

text \<open>\<^verbatim>\<open>base64.StdEncoding\<close>, with its padding, as \<^verbatim>\<open>Request.BasicAuth\<close> decodes it.\<close>

definition b64std_val :: "char \<Rightarrow> nat option" where
  "b64std_val c = (if c = CHR ''+'' then Some 62 else if c = CHR ''/'' then Some 63
                   else if c = CHR ''-'' \<or> c = CHR ''_'' then None else b64_val c)"

definition b64std_DecodeString :: "string \<Rightarrow> string option" where
  "b64std_DecodeString s =
     (let t = filter (\<lambda>c. c \<noteq> CHR 0x0A \<and> c \<noteq> CHR 0x0D) s;
          vs = map b64std_val (TrimSuffix (TrimSuffix t ''='') ''='') in
      if length t mod 4 \<noteq> 0 \<or> None \<in> set vs then None
      else map_option (map char_of) (b64_unpack (map the vs)))"

lemma b64_val_char: "n < 64 \<Longrightarrow> b64_val (b64_char n) = Some n"
proof -
  assume n: "n < 64"
  consider "n < 26" | "26 \<le> n \<and> n < 52" | "52 \<le> n \<and> n < 62" | "n = 62" | "n = 63" using n by linarith
  then show ?thesis by cases (auto simp: b64_val_def b64_char_def Let_def)
qed

lemma b64_pack_bound: "\<forall>x \<in> set bs. x < 256 \<Longrightarrow> v \<in> set (b64_pack bs) \<Longrightarrow> v < 64"
  by (induction bs rule: b64_pack.induct) auto

lemma b64_unpack_pack: "\<forall>x \<in> set bs. x < 256 \<Longrightarrow> b64_unpack (b64_pack bs) = Some bs"
proof (induction bs rule: b64_pack.induct)
  case (1 a b c r)
  have lt: "b div 16 < 16" "c div 64 < 4" using "1.prems" by auto
  have "a div 4 * 4 + (a mod 4 * 16 + b div 16) div 16 = a" using lt by simp
  moreover have "(a mod 4 * 16 + b div 16) mod 16 * 16 + (b mod 16 * 4 + c div 64) div 4 = b" using lt by simp
  moreover have "(b mod 16 * 4 + c div 64) mod 4 * 64 + c mod 64 = c"
  proof -
    have "(b mod 16 * 4 + c div 64) mod 4 = c div 64" using lt by simp
    then show ?thesis by simp
  qed
  ultimately show ?case using 1 by simp
next
  case (2 a b)
  then have "b div 16 < 16" by auto
  then show ?case by simp
qed simp_all

lemma b64_char_special: "n < 64 \<Longrightarrow> b64_char n \<noteq> CHR 0x0A \<and> b64_char n \<noteq> CHR 0x0D \<and> b64_char n \<noteq> CHR ''.''"
proof -
  assume n: "n < 64"
  have "b64_val (CHR 0x0A) = None" "b64_val (CHR 0x0D) = None" "b64_val CHR ''.'' = None"
    by (simp_all add: b64_val_def)
  then show ?thesis using b64_val_char[OF n] by auto
qed

lemma b64_roundtrip: "b64_DecodeString (b64_EncodeToString s) = Some s"
proof -
  let ?bs = "map of_char s :: nat list"
  have b: "\<forall>x \<in> set ?bs. x < 256" by auto
  have "filter (\<lambda>c. c \<noteq> CHR 0x0A \<and> c \<noteq> CHR 0x0D) (b64_EncodeToString s) = b64_EncodeToString s"
    using b64_pack_bound[OF b] b64_char_special by (auto simp: b64_EncodeToString_def filter_id_conv)
  moreover have "map b64_val (b64_EncodeToString s) = map Some (b64_pack ?bs)"
    using b64_pack_bound[OF b] b64_val_char by (simp add: b64_EncodeToString_def)
  ultimately show ?thesis
    using b64_unpack_pack[OF b] by (simp add: b64_DecodeString_def Let_def comp_def map_idI)
qed

lemma b64_no_dot: "CHR ''.'' \<notin> set (b64_EncodeToString s)"
proof -
  have b: "\<forall>x \<in> set (map of_char s :: nat list). x < 256" by auto
  show ?thesis using b64_pack_bound[OF b] b64_char_special by (force simp: b64_EncodeToString_def)
qed

section \<open>Decimal integers\<close>

fun dec_val :: "nat \<Rightarrow> string \<Rightarrow> nat option" where
  "dec_val acc [] = Some acc"
| "dec_val acc (c # s) = (if is_digit c then dec_val (acc * 10 + (of_char c - 48)) s else None)"

text \<open>\<^verbatim>\<open>strconv.ParseInt(s, 10, 64)\<close>: an optional sign, digits, and the range check.\<close>

definition ParseInt10 :: "string \<Rightarrow> int option" where
  "ParseInt10 s =
     (let neg = HasPrefix s ''-''; ds = (if neg \<or> HasPrefix s ''+'' then drop 1 s else s) in
      if ds = [] then None
      else case dec_val 0 ds of
        None \<Rightarrow> None
      | Some n \<Rightarrow> if neg then (if n \<le> 2 ^ 63 then Some (- int n) else None)
                  else (if n < 2 ^ 63 then Some (int n) else None))"

definition Itoa :: "int \<Rightarrow> string" where
  "Itoa n = (if n < 0 then CHR ''-'' # dec_digits (nat (- n)) else dec_digits (nat n))"

lemma dec_val_append: "dec_val acc (s @ [c]) =
    (case dec_val acc s of None \<Rightarrow> None | Some n \<Rightarrow> if is_digit c then Some (n * 10 + (of_char c - 48)) else None)"
  by (induction acc s rule: dec_val.induct) auto

lemma dec_val_digits: "dec_val 0 (dec_digits n) = Some n"
proof (induction n rule: dec_digits.induct)
  case (1 n)
  have d: "is_digit (char_of (48 + k)) \<and> (of_char (char_of (48 + k) :: char) :: nat) - 48 = k" if "k < 10" for k :: nat
    using that by (simp add: is_digit_def)
  show ?case
  proof (cases "n < 10")
    case True
    then show ?thesis using d[of n] by (simp add: dec_digits_small)
  next
    case False
    then show ?thesis using 1 d[of "n mod 10"] by (simp add: dec_digits_big dec_val_append)
  qed
qed

lemma ParseInt_Itoa:
  assumes "- (2 ^ 63) \<le> n" "n < 2 ^ 63"
  shows "ParseInt10 (Itoa n) = Some n"
proof (cases "n < 0")
  case True
  have "nat (- n) \<le> 2 ^ 63" using assms by simp
  then show ?thesis using True dec_digits_ne[of "nat (- n)"]
    by (simp add: ParseInt10_def Itoa_def Let_def HasPrefix_def dec_val_digits)
next
  case False
  have sign: "hd (dec_digits (nat n)) \<noteq> CHR ''-''" "hd (dec_digits (nat n)) \<noteq> CHR ''+''"
    using dec_digits_digits[of "hd (dec_digits (nat n))" "nat n"] dec_digits_ne[of "nat n"]
    by (auto simp: is_digit_def)
  have "nat n < 2 ^ 63" using assms False by (simp add: nat_less_iff)
  moreover have "\<not> HasPrefix (dec_digits (nat n)) ''-''" "\<not> HasPrefix (dec_digits (nat n)) ''+''"
    using sign dec_digits_ne[of "nat n"] by (cases "dec_digits (nat n)"; auto simp: HasPrefix_def)+
  ultimately show ?thesis using False dec_digits_ne[of "nat n"]
    by (simp add: ParseInt10_def Itoa_def Let_def dec_val_digits)
qed

end
