(* ===== verification/WebAuth.thy ===== *)
theory WebAuth
  imports GoEncoding TokenBucket
begin

text \<open>
  Access to the dashboard's REST API: the login lockout (\<^verbatim>\<open>internal/api/loginguard.go\<close>), the API
  rate limiter (\<^verbatim>\<open>apiratelimit.go\<close>), and session cookies, API tokens, Basic logins and the request
  gate of \<^verbatim>\<open>server.go\<close>. HMAC-SHA256 and SHA-256 (as hexadecimal digests) and bcrypt are the
  functions of \<open>webCrypto\<close>; nothing is assumed of them. HTTP bodies are left out: each reply is a
  value of \<open>authReply\<close>.
\<close>

section \<open>LoginGuard\<close>

definition loginGuardShards :: nat where "loginGuardShards = 64"
definition loginMaxFailures :: int where "loginMaxFailures = 5"
definition loginFailureWindow :: duration where "loginFailureWindow = 5 * Minute"
definition loginLockoutFor :: duration where "loginLockoutFor = 10 * Minute"
definition loginGuardMaxPerShard :: nat where "loginGuardMaxPerShard = 4096"
definition loginGuardIdleEvict :: duration where "loginGuardIdleEvict = 30 * Minute"

record loginEntry =
  le_failures :: int
  le_firstFailure :: gotime
  le_lockedUntil :: gotime
  le_lastSeen :: gotime

type_synonym LoginGuard = "nat \<Rightarrow> (string, loginEntry) gomap"

definition NewLoginGuard :: LoginGuard where
  "NewLoginGuard = (\<lambda>_. [])"

definition lg_shard :: "string \<Rightarrow> nat" where
  "lg_shard key = shard_ix loginGuardShards key"

definition Locked :: "LoginGuard \<Rightarrow> string \<Rightarrow> gotime \<Rightarrow> bool \<times> duration" where
  "Locked g client now =
     (if client = [] then (False, 0)
      else case map_of (g (lg_shard client)) client of
             None \<Rightarrow> (False, 0)
           | Some e \<Rightarrow> if now < le_lockedUntil e then (True, tsub (le_lockedUntil e) now) else (False, 0))"

definition RecordFailure :: "LoginGuard \<Rightarrow> string \<Rightarrow> gotime \<Rightarrow> LoginGuard" where
  "RecordFailure g client now =
     (if client = [] then g
      else
        let s0 = g (lg_shard client);
            s = (if length s0 \<ge> loginGuardMaxPerShard
                 then filter (\<lambda>(k, e). \<not> tsub now (le_lastSeen e) > loginGuardIdleEvict) s0 else s0);
            fresh = \<lparr>le_failures = 0, le_firstFailure = now, le_lockedUntil = 0, le_lastSeen = 0\<rparr>;
            e = (case map_of s client of
                   None \<Rightarrow> fresh
                 | Some e \<Rightarrow> if tsub now (le_firstFailure e) > loginFailureWindow then fresh else e);
            e1 = e\<lparr>le_failures := le_failures e + 1, le_lastSeen := now\<rparr>;
            e2 = (if le_failures e1 \<ge> loginMaxFailures then e1\<lparr>le_lockedUntil := now + loginLockoutFor\<rparr> else e1)
        in g(lg_shard client := gm_put client e2 s))"

definition RecordSuccess :: "LoginGuard \<Rightarrow> string \<Rightarrow> LoginGuard" where
  "RecordSuccess g client =
     (if client = [] then g else g(lg_shard client := gm_del client (g (lg_shard client))))"

section \<open>APIRateLimiter\<close>

definition apiRateShards :: nat where "apiRateShards = 64"
definition apiRateMaxPerShard :: nat where "apiRateMaxPerShard = 4096"
definition apiRateIdleEvict :: duration where "apiRateIdleEvict = 10 * Minute"
definition apiRateQPS :: rat where "apiRateQPS = 25"
definition apiRateBurst :: rat where "apiRateBurst = 60"

record apiRateBucket =
  ab_tokens :: rat
  ab_lastSeen :: gotime

type_synonym APIRateLimiter = "nat \<Rightarrow> (string, apiRateBucket) gomap"

definition NewAPIRateLimiter :: APIRateLimiter where
  "NewAPIRateLimiter = (\<lambda>_. [])"

definition api_shard :: "string \<Rightarrow> nat" where
  "api_shard key = shard_ix apiRateShards key"

definition evictIdleLocked :: "(string, apiRateBucket) gomap \<Rightarrow> gotime \<Rightarrow> (string, apiRateBucket) gomap" where
  "evictIdleLocked s now = filter (\<lambda>(k, e). \<not> tsub now (ab_lastSeen e) > apiRateIdleEvict) s"

definition APIRateLimiter_Allow :: "APIRateLimiter \<Rightarrow> string \<Rightarrow> gotime \<Rightarrow> bool \<times> APIRateLimiter" where
  "APIRateLimiter_Allow l client now =
     (if client = [] then (True, l)
      else
        let s = l (api_shard client) in
        case map_of s client of
          None \<Rightarrow>
            (let s' = (if length s \<ge> apiRateMaxPerShard then evictIdleLocked s now else s)
             in (True, l(api_shard client :=
                   gm_put client \<lparr>ab_tokens = apiRateBurst - 1, ab_lastSeen = now\<rparr> s')))
        | Some b \<Rightarrow>
            (let elapsed = Seconds (tsub now (ab_lastSeen b));
                 t = ab_tokens b + elapsed * apiRateQPS;
                 t' = (if t > apiRateBurst then apiRateBurst else t)
             in if t' < 1
                then (False, l(api_shard client := gm_put client \<lparr>ab_tokens = t', ab_lastSeen = now\<rparr> s))
                else (True, l(api_shard client := gm_put client \<lparr>ab_tokens = t' - 1, ab_lastSeen = now\<rparr> s))))"

section \<open>Requests and configuration\<close>

record WebUser =
  wu_ID :: string
  wu_Username :: string
  wu_Password :: string
  wu_Role :: string

record APIToken =
  tk_Name :: string
  tk_Token :: string
  tk_ReadOnly :: bool

record webCrypto =
  hmac_hex :: "string \<Rightarrow> string \<Rightarrow> string"
  sha256_hex :: "string \<Rightarrow> string"
  bcrypt_ok :: "string \<Rightarrow> string \<Rightarrow> bool"

record Request =
  r_Method :: string
  r_RemoteAddr :: string
  r_XForwardedFor :: string
  r_Authorization :: string
  r_SessionCookie :: "string option"

record WebApp =
  wa_Users :: "WebUser list"
  wa_SessionSecret :: string
  wa_WebTLS :: bool
  wa_Tokens :: "APIToken list"
  wa_loginGuard :: LoginGuard
  wa_apiRateLimiter :: APIRateLimiter

definition clientIPFromRequest :: "Request \<Rightarrow> string" where
  "clientIPFromRequest r =
     (let host = (case SplitHostPort (r_RemoteAddr r) of None \<Rightarrow> r_RemoteAddr r | Some (h, p) \<Rightarrow> h);
          ip = ParseIP host;
          first = TrimSpace (hd (split_on CHR '','' (r_XForwardedFor r)))
      in if ip \<noteq> [] \<and> IsLoopback ip \<and> r_XForwardedFor r \<noteq> [] \<and> ParseIP first \<noteq> [] then first else host)"

text \<open>\<^verbatim>\<open>Request.BasicAuth\<close> of \<^verbatim>\<open>net/http\<close>.\<close>

definition BasicAuth :: "Request \<Rightarrow> (string \<times> string) option" where
  "BasicAuth r =
     (if EqualFold (take 6 (r_Authorization r)) ''Basic '' then
        (case b64std_DecodeString (drop 6 (r_Authorization r)) of
           None \<Rightarrow> None
         | Some cs \<Rightarrow> Cut cs CHR '':'')
      else None)"

section \<open>Sessions, passwords and tokens\<close>

text \<open>\<^verbatim>\<open>sessionLifetime\<close> in seconds, and \<^verbatim>\<open>Time.Unix\<close>.\<close>

definition sessionLifetime :: int where "sessionLifetime = 30 * 24 * 3600"

definition Unix :: "gotime \<Rightarrow> int" where
  "Unix t = t div Second - 62135596800"

fun userByUsername :: "WebUser list \<Rightarrow> string \<Rightarrow> WebUser option" where
  "userByUsername [] username = None"
| "userByUsername (u # us) username = (if wu_Username u = username then Some u else userByUsername us username)"

definition issueSessionWith :: "webCrypto \<Rightarrow> string \<Rightarrow> string \<Rightarrow> gotime \<Rightarrow> string option" where
  "issueSessionWith k user secret now =
     (if secret = [] then None
      else
        let expiry = Unix now + sessionLifetime;
            payload = b64_EncodeToString (user @ ''.'' @ Itoa expiry)
        in Some (payload @ ''.'' @ hmac_hex k secret payload))"

definition validSession :: "webCrypto \<Rightarrow> Request \<Rightarrow> WebUser list \<Rightarrow> string \<Rightarrow> gotime \<Rightarrow> WebUser option" where
  "validSession k r users secret now =
     (case r_SessionCookie r of
        None \<Rightarrow> None
      | Some v \<Rightarrow>
          if secret = [] then None
          else case Cut v CHR ''.'' of
            None \<Rightarrow> None
          | Some (payload, sig) \<Rightarrow>
              (case b64_DecodeString payload of
                 None \<Rightarrow> None
               | Some raw \<Rightarrow>
                   (case CutLast raw CHR ''.'' of
                      None \<Rightarrow> None
                    | Some (user, expStr) \<Rightarrow>
                        (case ParseInt10 expStr of
                           None \<Rightarrow> None
                         | Some expiry \<Rightarrow>
                             if Unix now > expiry then None
                             else if sig \<noteq> hmac_hex k secret payload then None
                             else userByUsername users user))))"

definition passwordMatches :: "webCrypto \<Rightarrow> string \<Rightarrow> string \<Rightarrow> bool" where
  "passwordMatches k plain stored =
     (if stored = [] then False
      else if HasPrefix stored ''$2a$'' \<or> HasPrefix stored ''$2b$'' \<or> HasPrefix stored ''$2y$''
      then bcrypt_ok k stored plain
      else plain = stored)"

definition tokenMatches :: "webCrypto \<Rightarrow> string \<Rightarrow> string \<Rightarrow> bool" where
  "tokenMatches k presented stored =
     (if stored = [] \<or> presented = [] then False
      else if length stored = 64 then sha256_hex k presented = stored
      else presented = stored)"

text \<open>\<^verbatim>\<open>validToken\<close>: the first configured token that matches, by its read-only flag.\<close>

definition validToken :: "webCrypto \<Rightarrow> Request \<Rightarrow> APIToken list \<Rightarrow> bool option" where
  "validToken k r tokens =
     (let authz = r_Authorization r in
      if \<not> HasPrefix authz ''Bearer '' then None
      else
        let presented = TrimSpace (drop 7 authz) in
        if presented = [] then None
        else map_option tk_ReadOnly (find (\<lambda>t. tokenMatches k presented (tk_Token t)) tokens))"

section \<open>The request gate\<close>

datatype authReply =
  Authorized
| ViewerForbidden
| TokenReadOnly
| LockedOut int int
| Unauthorized

definition readMethod :: "string \<Rightarrow> bool" where
  "readMethod m \<longleftrightarrow> m = ''GET'' \<or> m = ''HEAD''"

text \<open>\<^verbatim>\<open>authorize\<close>: the reply, the session cookie it sets, and the application. The handler lets the
  request through on \<open>Authorized\<close> only.\<close>

definition authorize ::
  "webCrypto \<Rightarrow> WebApp \<Rightarrow> Request \<Rightarrow> gotime \<Rightarrow> authReply \<times> string option \<times> WebApp" where
  "authorize k a r now =
     (case validSession k r (wa_Users a) (wa_SessionSecret a) now of
        Some u \<Rightarrow>
          (if wu_Role u = ''viewer'' \<and> \<not> readMethod (r_Method r) then (ViewerForbidden, None, a)
           else (Authorized, None, a))
      | None \<Rightarrow>
          (case validToken k r (wa_Tokens a) of
             Some readOnly \<Rightarrow>
               (if readOnly \<and> \<not> readMethod (r_Method r) then (TokenReadOnly, None, a)
                else (Authorized, None, a))
           | None \<Rightarrow>
               let client = clientIPFromRequest r;
                   (locked, remaining) = Locked (wa_loginGuard a) client now
               in if locked then (LockedOut (remaining div Second + 1) (remaining div Minute + 1), None, a)
                  else
                    (case BasicAuth r of
                       None \<Rightarrow> (Unauthorized, None, a)
                     | Some (user, pass) \<Rightarrow>
                         (case userByUsername (wa_Users a) user of
                            Some u \<Rightarrow>
                              (if passwordMatches k pass (wu_Password u) then
                                 let a1 = a\<lparr>wa_loginGuard := RecordSuccess (wa_loginGuard a) client\<rparr>;
                                     c = issueSessionWith k user (wa_SessionSecret a) now
                                 in if wu_Role u = ''viewer'' \<and> \<not> readMethod (r_Method r)
                                    then (ViewerForbidden, c, a1) else (Authorized, c, a1)
                               else (Unauthorized, None,
                                     a\<lparr>wa_loginGuard := RecordFailure (wa_loginGuard a) client now\<rparr>))
                          | None \<Rightarrow> (Unauthorized, None,
                                     a\<lparr>wa_loginGuard := RecordFailure (wa_loginGuard a) client now\<rparr>)))))"

definition allowAPIRequest :: "WebApp \<Rightarrow> Request \<Rightarrow> gotime \<Rightarrow> bool \<times> WebApp" where
  "allowAPIRequest a r now =
     (let (ok, l) = APIRateLimiter_Allow (wa_apiRateLimiter a) (clientIPFromRequest r) now
      in (ok, a\<lparr>wa_apiRateLimiter := l\<rparr>))"

text \<open>The \<^verbatim>\<open>/api/\<close> route of \<^verbatim>\<open>NewRouter\<close>: whether the request reaches the API handler.\<close>

definition apiRoute :: "webCrypto \<Rightarrow> WebApp \<Rightarrow> Request \<Rightarrow> gotime \<Rightarrow> bool \<times> WebApp" where
  "apiRoute k a r now =
     (let (reply, c, a1) = authorize k a r now in
      if reply \<noteq> Authorized then (False, a1) else allowAPIRequest a1 r now)"

section \<open>The lockout invariant\<close>

definition lg_entry :: "LoginGuard \<Rightarrow> string \<Rightarrow> loginEntry option" where
  "lg_entry g c = map_of (g (lg_shard c)) c"

definition entry_ok :: "gotime \<Rightarrow> loginEntry \<Rightarrow> bool" where
  "entry_ok t e \<longleftrightarrow> 1 \<le> le_failures e \<and> le_failures e \<le> 5 \<and> le_firstFailure e \<le> le_lastSeen e \<and> le_lastSeen e \<le> t \<and>
     le_lockedUntil e = (if le_failures e = 5 then le_lastSeen e + loginLockoutFor else 0)"

definition lg_inv :: "LoginGuard \<Rightarrow> gotime \<Rightarrow> bool" where
  "lg_inv g t \<longleftrightarrow> 0 \<le> t \<and> (\<forall>i. gm_wf (g i) \<and> (\<forall>x \<in> set (g i). entry_ok t (snd x)))"

text \<open>The entry a failure leaves, from the one it found.\<close>

definition lg_note :: "loginEntry option \<Rightarrow> gotime \<Rightarrow> loginEntry" where
  "lg_note eo now =
     (let e = (case eo of None \<Rightarrow> \<lparr>le_failures = 0, le_firstFailure = now, le_lockedUntil = 0, le_lastSeen = 0\<rparr>
               | Some e \<Rightarrow> if le_firstFailure e + loginFailureWindow < now
                           then \<lparr>le_failures = 0, le_firstFailure = now, le_lockedUntil = 0, le_lastSeen = 0\<rparr> else e)
      in e\<lparr>le_failures := le_failures e + 1, le_lastSeen := now,
           le_lockedUntil := (if le_failures e + 1 \<ge> 5 then now + loginLockoutFor else le_lockedUntil e)\<rparr>)"

lemmas login_consts = loginMaxFailures_def loginFailureWindow_def loginLockoutFor_def loginGuardIdleEvict_def

lemma window_iff: "tsub now u > loginFailureWindow \<longleftrightarrow> u + loginFailureWindow < now"
  by (rule tsub_gt_iff) (simp_all add: login_consts maxDuration_def)

lemma idle_iff: "tsub now u > loginGuardIdleEvict \<longleftrightarrow> u + loginGuardIdleEvict < now"
  by (rule tsub_gt_iff) (simp_all add: login_consts maxDuration_def)

definition lg_swept :: "LoginGuard \<Rightarrow> string \<Rightarrow> gotime \<Rightarrow> (string, loginEntry) gomap" where
  "lg_swept g c now =
     (if length (g (lg_shard c)) \<ge> loginGuardMaxPerShard
      then filter (\<lambda>(k, e). \<not> le_lastSeen e + loginGuardIdleEvict < now) (g (lg_shard c)) else g (lg_shard c))"

lemma RecordFailure_eq:
  "c \<noteq> [] \<Longrightarrow> RecordFailure g c now =
     g(lg_shard c := gm_put c (lg_note (map_of (lg_swept g c now) c) now) (lg_swept g c now))"
  by (simp add: RecordFailure_def lg_note_def lg_swept_def Let_def window_iff idle_iff loginMaxFailures_def
      split: option.split)

lemma lg_swept_sub: "set (lg_swept g c now) \<subseteq> set (g (lg_shard c))"
  by (auto simp: lg_swept_def)

lemma lg_swept_wf: "gm_wf (g (lg_shard c)) \<Longrightarrow> gm_wf (lg_swept g c now)"
  by (simp add: lg_swept_def wf_filter)

lemma lg_swept_lookup:
  assumes "gm_wf (g (lg_shard c))" "map_of (lg_swept g c now) x \<noteq> map_of (g (lg_shard c)) x"
  obtains e where "map_of (g (lg_shard c)) x = Some e" "map_of (lg_swept g c now) x = None"
    "le_lastSeen e + loginGuardIdleEvict < now"
proof (cases "map_of (lg_swept g c now) x")
  case (Some e)
  then have "(x, e) \<in> set (g (lg_shard c))" using lg_swept_sub[of g c now] by (auto dest: map_of_SomeD)
  then show thesis using assms Some by simp
next
  case None
  then obtain e where e: "map_of (g (lg_shard c)) x = Some e" using assms(2) by fastforce
  have "(x, e) \<notin> set (lg_swept g c now)" using None by (force simp: map_of_eq_None_iff)
  moreover have "(x, e) \<in> set (g (lg_shard c))" using e by (rule map_of_SomeD)
  ultimately have "le_lastSeen e + loginGuardIdleEvict < now" by (auto simp: lg_swept_def split: if_splits)
  then show thesis using that e None by blast
qed

lemma lg_note_ok:
  assumes "\<forall>e. eo = Some e \<longrightarrow> entry_ok t e \<and> \<not> now < le_lockedUntil e" "0 \<le> t" "t \<le> now"
  shows "entry_ok now (lg_note eo now)"
  using assms by (cases eo) (auto simp: lg_note_def entry_ok_def login_consts split: if_splits)

lemma lg_inv_lookup: "lg_inv g t \<Longrightarrow> map_of (g i) c = Some e \<Longrightarrow> entry_ok t e"
  unfolding lg_inv_def using map_of_SomeD[of "g i" c e] by fastforce

lemma entry_ok_time: "entry_ok t e \<Longrightarrow> t \<le> t' \<Longrightarrow> entry_ok t' e"
  by (simp add: entry_ok_def)

lemma lg_inv_time: "lg_inv g t \<Longrightarrow> t \<le> t' \<Longrightarrow> lg_inv g t'"
  by (auto simp: lg_inv_def intro: entry_ok_time)

lemma swept_entry:
  assumes "lg_inv g t" "map_of (lg_swept g c now) x = Some e"
  shows "map_of (g (lg_shard c)) x = Some e"
proof -
  have "(x, e) \<in> set (g (lg_shard c))" using assms(2) lg_swept_sub[of g c now] by (auto dest: map_of_SomeD)
  then show ?thesis using assms(1) by (simp add: lg_inv_def)
qed

lemma RecordFailure_inv:
  assumes inv: "lg_inv g t" and t: "t \<le> now" and free: "\<not> fst (Locked g c now)"
  shows "lg_inv (RecordFailure g c now) now"
proof (cases "c = []")
  case False
  let ?s = "lg_swept g c now"
  have "entry_ok t e \<and> \<not> now < le_lockedUntil e" if "map_of ?s c = Some e" for e
    using swept_entry[OF inv that] lg_inv_lookup[OF inv] free False by (auto simp: Locked_def split: if_splits)
  then have "entry_ok now (lg_note (map_of ?s c) now)"
    using inv t by (intro lg_note_ok[of _ t]) (auto simp: lg_inv_def)
  moreover have "\<forall>x \<in> set ?s. entry_ok now (snd x)"
    using lg_inv_time[OF inv t] lg_swept_sub[of g c now] by (auto simp: lg_inv_def)
  ultimately have "\<forall>x \<in> set (gm_put c (lg_note (map_of ?s c) now) ?s). entry_ok now (snd x)"
    by (intro gm_put_ball) simp_all
  moreover have "gm_wf ?s" using inv by (simp add: lg_inv_def lg_swept_wf)
  ultimately show ?thesis using False lg_inv_time[OF inv t] by (simp add: RecordFailure_eq lg_inv_def)
qed (use lg_inv_time[OF inv t] in \<open>simp add: RecordFailure_def\<close>)

lemma RecordSuccess_inv: "lg_inv g t \<Longrightarrow> lg_inv (RecordSuccess g c) t"
  by (fastforce simp: RecordSuccess_def lg_inv_def)

section \<open>What a request does to the lockout\<close>

definition credentials_ok :: "webCrypto \<Rightarrow> WebApp \<Rightarrow> Request \<Rightarrow> bool" where
  "credentials_ok k a r =
     (case BasicAuth r of None \<Rightarrow> False
      | Some (user, pass) \<Rightarrow>
          (case userByUsername (wa_Users a) user of None \<Rightarrow> False | Some u \<Rightarrow> passwordMatches k pass (wu_Password u)))"

lemma authorize_config:
  assumes "authorize k a r now = (reply, ck, a')"
  shows "wa_Users a' = wa_Users a" "wa_SessionSecret a' = wa_SessionSecret a" "wa_Tokens a' = wa_Tokens a"
  using assms by (auto simp: authorize_def Let_def split: option.splits prod.splits if_splits)

text \<open>A guess is a request whose password was looked at and found wrong.\<close>

definition is_guess :: "Request \<Rightarrow> authReply \<Rightarrow> bool" where
  "is_guess r reply \<longleftrightarrow> reply = Unauthorized \<and> BasicAuth r \<noteq> None"

lemma authorize_guard:
  assumes "authorize k a r now = (reply, ck, a')"
  shows "(if is_guess r reply then \<not> fst (Locked (wa_loginGuard a) (clientIPFromRequest r) now) \<and>
            wa_loginGuard a' = RecordFailure (wa_loginGuard a) (clientIPFromRequest r) now
          else wa_loginGuard a' = wa_loginGuard a \<or>
            credentials_ok k a r \<and> wa_loginGuard a' = RecordSuccess (wa_loginGuard a) (clientIPFromRequest r))"
  using assms
  by (auto simp: authorize_def is_guess_def credentials_ok_def Let_def split: option.splits prod.splits if_splits)

lemma authorize_inv:
  assumes "lg_inv (wa_loginGuard a) t" "t \<le> now" "authorize k a r now = (reply, ck, a')"
  shows "lg_inv (wa_loginGuard a') now"
  using authorize_guard[OF assms(3)] RecordFailure_inv[OF assms(1,2)] lg_inv_time[OF assms(1,2)] RecordSuccess_inv
  by (auto split: if_splits)

text \<open>Applications a server can reach, with the time of the last request.\<close>

inductive web_reach :: "webCrypto \<Rightarrow> WebApp \<Rightarrow> gotime \<Rightarrow> bool" for k where
  web_new: "wa_loginGuard a = NewLoginGuard \<Longrightarrow> 0 \<le> t \<Longrightarrow> web_reach k a t"
| web_request: "web_reach k a t \<Longrightarrow> t \<le> now \<Longrightarrow> web_reach k (snd (snd (authorize k a r now))) now"

lemma web_reach_inv: "web_reach k a t \<Longrightarrow> lg_inv (wa_loginGuard a) t"
proof (induction rule: web_reach.induct)
  case (web_request a t now r)
  then show ?case using authorize_inv[of a t now k r] by (metis prod.collapse)
qed (simp add: NewLoginGuard_def lg_inv_def)

section \<open>How many passwords an address can try\<close>

text \<open>After \<open>n\<close> guesses since \<open>t0\<close>, \<open>w\<close> full windows have passed, each with at most five guesses, and
  the entry counts those of the current one.\<close>

definition guess_budget :: "gotime \<Rightarrow> int \<Rightarrow> gotime \<Rightarrow> loginEntry option \<Rightarrow> bool" where
  "guess_budget t0 n now eo \<longleftrightarrow> (\<exists>w \<ge> 0. t0 + w * loginFailureWindow \<le> now \<and>
     (case eo of None \<Rightarrow> n \<le> 5 * w
      | Some e \<Rightarrow> n \<le> 5 * w + le_failures e \<and> t0 + w * loginFailureWindow \<le> le_firstFailure e))"

lemma guess_budget_time: "guess_budget t0 n t eo \<Longrightarrow> t \<le> now \<Longrightarrow> guess_budget t0 n now eo"
  by (fastforce simp: guess_budget_def split: option.splits)

lemma window_pos: "0 < loginFailureWindow"
  by (simp add: login_consts)

lemma guess_budget_drop:
  assumes "guess_budget t0 n t (Some e)" "entry_ok t e" "le_lastSeen e + loginGuardIdleEvict < now"
  shows "guess_budget t0 n now None"
proof -
  obtain w where w: "0 \<le> w" "n \<le> 5 * w + le_failures e" "t0 + w * loginFailureWindow \<le> le_firstFailure e"
    using assms(1) by (auto simp: guess_budget_def)
  have "t0 + (w + 1) * loginFailureWindow \<le> now" "n \<le> 5 * (w + 1)"
    using w assms(2,3) by (auto simp: entry_ok_def login_consts)
  then show ?thesis using w(1) unfolding guess_budget_def by (intro exI[of _ "w + 1"]) simp
qed

lemma guess_budget_note:
  assumes "guess_budget t0 n t eo" "t \<le> now" "\<forall>e. eo = Some e \<longrightarrow> entry_ok t e"
  shows "guess_budget t0 (n + 1) now (Some (lg_note eo now))"
proof (cases eo)
  case None
  then obtain w where "0 \<le> w" "n \<le> 5 * w" "t0 + w * loginFailureWindow \<le> now"
    using assms(1,2) by (fastforce simp: guess_budget_def)
  then show ?thesis using None by (auto simp: guess_budget_def lg_note_def)
next
  case (Some e)
  then obtain w where w: "0 \<le> w" "n \<le> 5 * w + le_failures e" "t0 + w * loginFailureWindow \<le> le_firstFailure e"
    using assms(1) by (auto simp: guess_budget_def)
  have e: "le_failures e \<le> 5" "le_firstFailure e \<le> now" using assms(2,3) Some by (auto simp: entry_ok_def)
  show ?thesis
  proof (cases "le_firstFailure e + loginFailureWindow < now")
    case True
    then have "t0 + (w + 1) * loginFailureWindow \<le> now" "n + 1 \<le> 5 * (w + 1) + 1"
      using w e by (auto simp: algebra_simps)
    then show ?thesis using Some True w(1) unfolding guess_budget_def
      by (intro exI[of _ "w + 1"]) (simp add: lg_note_def)
  next
    case False
    then show ?thesis using Some w e unfolding guess_budget_def
      by (intro exI[of _ w]) (simp add: lg_note_def)
  qed
qed

lemma RecordFailure_budget:
  assumes inv: "lg_inv g t" and t: "t \<le> now" and b: "guess_budget t0 n t (lg_entry g c)" and c: "c' \<noteq> []"
  shows "guess_budget t0 (if c' = c then n + 1 else n) now (lg_entry (RecordFailure g c' now) c)"
proof (cases "lg_shard c' = lg_shard c")
  case same: True
  let ?s = "lg_swept g c' now"
  have swept: "guess_budget t0 n now (map_of ?s c)"
  proof (cases "map_of ?s c = lg_entry g c")
    case True
    then show ?thesis using guess_budget_time[OF b t] by simp
  next
    case False
    then obtain e where "lg_entry g c = Some e" "map_of ?s c = None" "le_lastSeen e + loginGuardIdleEvict < now"
      using lg_swept_lookup[of g c' now c] inv same by (auto simp: lg_entry_def lg_inv_def)
    then show ?thesis using guess_budget_drop[of t0 n t e now] b lg_inv_lookup[OF inv, of "lg_shard c" c e]
      by (simp add: lg_entry_def)
  qed
  have ok: "\<forall>e. map_of ?s c = Some e \<longrightarrow> entry_ok now e"
    using swept_entry[OF inv] lg_inv_lookup[OF lg_inv_time[OF inv t]] by blast
  show ?thesis
  proof (cases "c' = c")
    case True
    then show ?thesis using guess_budget_note[OF swept _ ok] c by (simp add: RecordFailure_eq lg_entry_def)
  next
    case False
    then show ?thesis using swept same c by (simp add: RecordFailure_eq lg_entry_def)
  qed
next
  case False
  then have "c' \<noteq> c" "lg_entry (RecordFailure g c' now) c = lg_entry g c"
    using c by (auto simp: RecordFailure_eq lg_entry_def)
  then show ?thesis using guess_budget_time[OF b t] by simp
qed

text \<open>A run of requests from any addresses, and the guesses one address made in it.\<close>

fun web_run :: "webCrypto \<Rightarrow> WebApp \<Rightarrow> (Request \<times> gotime) list \<Rightarrow> authReply list \<times> WebApp" where
  "web_run k a [] = ([], a)"
| "web_run k a ((r, now) # rs) =
     (let (reply, ck, a1) = authorize k a r now; (replies, a2) = web_run k a1 rs in (reply # replies, a2))"

definition guesses :: "string \<Rightarrow> (Request \<times> gotime) list \<Rightarrow> authReply list \<Rightarrow> nat" where
  "guesses c rs replies =
     length (filter (\<lambda>((r, now), reply). clientIPFromRequest r = c \<and> is_guess r reply) (zip rs replies))"

lemma credentials_ok_cong: "wa_Users a' = wa_Users a \<Longrightarrow> credentials_ok k a' r = credentials_ok k a r"
  by (simp add: credentials_ok_def split: option.splits)

lemma authorize_budget:
  assumes "lg_inv (wa_loginGuard a) t" "t \<le> now" "guess_budget t0 n t (lg_entry (wa_loginGuard a) c)" "c \<noteq> []"
    "clientIPFromRequest r = c \<longrightarrow> \<not> credentials_ok k a r" "authorize k a r now = (reply, ck, a')"
  shows "guess_budget t0 (if clientIPFromRequest r = c \<and> is_guess r reply then n + 1 else n) now
     (lg_entry (wa_loginGuard a') c)"
proof (cases "is_guess r reply")
  case True
  then have g: "wa_loginGuard a' = RecordFailure (wa_loginGuard a) (clientIPFromRequest r) now"
    using authorize_guard[OF assms(6)] by simp
  show ?thesis
  proof (cases "clientIPFromRequest r = []")
    case True
    then show ?thesis using g assms(4) guess_budget_time[OF assms(3,2)] by (simp add: RecordFailure_def)
  next
    case False
    then show ?thesis using g True RecordFailure_budget[OF assms(1-3) False] by simp
  qed
next
  case False
  then have "lg_entry (wa_loginGuard a') c = lg_entry (wa_loginGuard a) c"
    using authorize_guard[OF assms(6)] assms(5) by (auto simp: RecordSuccess_def lg_entry_def)
  then show ?thesis using False guess_budget_time[OF assms(3,2)] by simp
qed

lemma web_run_budget:
  assumes "lg_inv (wa_loginGuard a) t" "sorted (t # map snd rs)" "c \<noteq> []"
    "guess_budget t0 n t (lg_entry (wa_loginGuard a) c)"
    "\<forall>(r, u) \<in> set rs. clientIPFromRequest r = c \<longrightarrow> \<not> credentials_ok k a r"
  shows "\<exists>eo. guess_budget t0 (n + int (guesses c rs (fst (web_run k a rs)))) (last (t # map snd rs)) eo \<and>
     (\<forall>e. eo = Some e \<longrightarrow> le_failures e \<le> 5)"
  using assms
proof (induction rs arbitrary: a t n)
  case Nil
  then show ?case using lg_inv_lookup[OF Nil.prems(1)]
    by (intro exI[of _ "lg_entry (wa_loginGuard a) c"]) (auto simp: guesses_def lg_entry_def entry_ok_def)
next
  case (Cons x rs)
  obtain r now where x: "x = (r, now)" by (cases x)
  obtain reply ck a' where a': "authorize k a r now = (reply, ck, a')" by (metis prod_cases3)
  have t: "t \<le> now" using Cons.prems(2) x by simp
  let ?n = "if clientIPFromRequest r = c \<and> is_guess r reply then n + 1 else n"
  have b: "guess_budget t0 ?n now (lg_entry (wa_loginGuard a') c)"
    by (rule authorize_budget[OF Cons.prems(1) t Cons.prems(4,3) _ a']) (use Cons.prems(5) x in auto)
  have wrong: "\<forall>(r, u) \<in> set rs. clientIPFromRequest r = c \<longrightarrow> \<not> credentials_ok k a' r"
    using Cons.prems(5) authorize_config[OF a'] credentials_ok_cong[of a' a k] by auto
  have srt: "sorted (now # map snd rs)" using Cons.prems(2) x by simp
  note IH = Cons.IH[OF authorize_inv[OF Cons.prems(1) t a'] srt Cons.prems(3) b wrong]
  have "n + int (guesses c (x # rs) (fst (web_run k a (x # rs)))) =
      ?n + int (guesses c rs (fst (web_run k a' rs)))"
    using a' x by (simp add: guesses_def split: prod.splits)
  then show ?case using IH x by simp
qed

section \<open>The API limiter is a token bucket\<close>

definition api_bucket :: "string \<Rightarrow> APIRateLimiter \<Rightarrow> apiRateBucket option" where
  "api_bucket c l = map_of (l (api_shard c)) c"

definition api_scope :: "string \<Rightarrow> APIRateLimiter \<Rightarrow> bool" where
  "api_scope c l \<longleftrightarrow> c \<noteq> [] \<and> (\<exists>b. api_bucket c l = Some b \<and> 0 \<le> ab_tokens b)"

definition api_level :: "string \<Rightarrow> APIRateLimiter \<Rightarrow> rat" where
  "api_level c l = ab_tokens (the (api_bucket c l))"

definition api_seen :: "string \<Rightarrow> APIRateLimiter \<Rightarrow> gotime" where
  "api_seen c l = ab_lastSeen (the (api_bucket c l))"

lemma api_allow:
  assumes "api_scope c l" "api_seen c l \<le> now" "APIRateLimiter_Allow l c now = (ok, l')"
  shows "api_scope c l' \<and> api_seen c l' = now"
    and "(if ok then 1 else 0) + api_level c l' \<le> api_level c l + apiRateQPS * Seconds (now - api_seen c l)"
proof -
  obtain b where b: "c \<noteq> []" "map_of (l (api_shard c)) c = Some b" "0 \<le> ab_tokens b" "ab_lastSeen b \<le> now"
    using assms(1,2) by (auto simp: api_scope_def api_bucket_def api_seen_def)
  have q: "0 \<le> apiRateQPS" by (simp add: apiRateQPS_def)
  note r = refill_nonneg[OF b(4) q] refill_le[OF b(4) q]
  show "api_scope c l' \<and> api_seen c l' = now"
    using assms(3) b r(1)
    by (auto simp: APIRateLimiter_Allow_def api_scope_def api_bucket_def api_seen_def Let_def apiRateBurst_def
        split: if_splits)
  show "(if ok then 1 else 0) + api_level c l' \<le> api_level c l + apiRateQPS * Seconds (now - api_seen c l)"
    using assms(3) b r
    by (auto simp: APIRateLimiter_Allow_def api_level_def api_bucket_def api_seen_def Let_def split: if_splits)
qed

interpretation apib: token_bucket "\<lambda>l. APIRateLimiter_Allow l c" "api_level c" "api_seen c" apiRateQPS "api_scope c" for c
proof
  show "api_scope c l \<Longrightarrow> 0 \<le> api_level c l" for l by (auto simp: api_scope_def api_level_def)
qed (rule api_allow; assumption)+

section \<open>Properties\<close>


definition sample_request :: "string \<Rightarrow> Request" where
  "sample_request auth = \<lparr>r_Method = ''GET'', r_RemoteAddr = ''9.9.9.9:50000'', r_XForwardedFor = [],
     r_Authorization = auth, r_SessionCookie = None\<rparr>"

definition sample_app :: WebApp where
  "sample_app = \<lparr>wa_Users = [\<lparr>wu_ID = ''1'', wu_Username = ''admin'', wu_Password = ''pw'', wu_Role = ''admin''\<rparr>],
     wa_SessionSecret = ''s3'', wa_WebTLS = False, wa_Tokens = [], wa_loginGuard = NewLoginGuard,
     wa_apiRateLimiter = NewAPIRateLimiter\<rparr>"

definition sample_crypto :: webCrypto where
  "sample_crypto = \<lparr>hmac_hex = (\<lambda>s p. s @ p), sha256_hex = (\<lambda>s. s), bcrypt_ok = (\<lambda>s p. False)\<rparr>"


text \<open>While an address is locked out, every request of it that carries neither a valid session nor
  a valid token is refused and changes nothing, the right password included.\<close>

theorem lockout_is_total:
  assumes "fst (Locked (wa_loginGuard a) (clientIPFromRequest r) now)"
    "validSession k r (wa_Users a) (wa_SessionSecret a) now = None" "validToken k r (wa_Tokens a) = None"
  shows "\<exists>s m. authorize k a r now = (LockedOut s m, None, a) \<and> \<not> fst (apiRoute k a r now)"
  using assms by (auto simp: authorize_def apiRoute_def Let_def split: prod.splits)

theorem lockout_is_total_witness:
  "\<exists>s m. authorize sample_crypto
        (sample_app\<lparr>wa_loginGuard := (\<lambda>_. [(''9.9.9.9'', \<lparr>le_failures = 5, le_firstFailure = 1, le_lockedUntil = 99, le_lastSeen = 2\<rparr>)])\<rparr>)
        (sample_request ''Basic YWRtaW46cHc='') 50 = (LockedOut s m, None,
        sample_app\<lparr>wa_loginGuard := (\<lambda>_. [(''9.9.9.9'', \<lparr>le_failures = 5, le_firstFailure = 1, le_lockedUntil = 99, le_lastSeen = 2\<rparr>)])\<rparr>) \<and>
      \<not> fst (apiRoute sample_crypto
        (sample_app\<lparr>wa_loginGuard := (\<lambda>_. [(''9.9.9.9'', \<lparr>le_failures = 5, le_firstFailure = 1, le_lockedUntil = 99, le_lastSeen = 2\<rparr>)])\<rparr>)
        (sample_request ''Basic YWRtaW46cHc='') 50)"
proof -
  have c: "clientIPFromRequest (sample_request ''Basic YWRtaW46cHc='') = ''9.9.9.9''" by code_simp
  show ?thesis
  proof (rule lockout_is_total)
    show "validSession k (sample_request s) us sec now = None" for k s us sec now
      by (simp add: validSession_def sample_request_def)
    show "validToken k (sample_request ''Basic YWRtaW46cHc='') ts = None" for k ts
      by (simp add: validToken_def sample_request_def HasPrefix_def)
  qed (simp add: c[simplified] Locked_def)
qed

text \<open>C23: a request passes the gate only on a session cookie of a configured user, a matching API
  token, or the right password of a user whose address is not locked out; and a viewer account or
  a read-only token passes it only with a reading method.\<close>

theorem authorize_sound:
  assumes "authorize k a r now = (Authorized, ck, a')"
  shows "(\<exists>u. validSession k r (wa_Users a) (wa_SessionSecret a) now = Some u \<and> (wu_Role u = ''viewer'' \<longrightarrow> readMethod (r_Method r))) \<or>
     (\<exists>ro. validToken k r (wa_Tokens a) = Some ro \<and> (ro \<longrightarrow> readMethod (r_Method r))) \<or>
     (\<not> fst (Locked (wa_loginGuard a) (clientIPFromRequest r) now) \<and>
      (\<exists>user pass u. BasicAuth r = Some (user, pass) \<and> userByUsername (wa_Users a) user = Some u \<and>
         passwordMatches k pass (wu_Password u) \<and> (wu_Role u = ''viewer'' \<longrightarrow> readMethod (r_Method r))))"
  using assms by (auto simp: authorize_def Let_def split: option.splits prod.splits if_splits)

theorem authorize_sound_witness:
  "\<exists>user pass u. BasicAuth (sample_request ''Basic YWRtaW46cHc='') = Some (user, pass) \<and>
     userByUsername (wa_Users sample_app) user = Some u \<and> passwordMatches sample_crypto pass (wu_Password u)"
proof -
  let ?r = "sample_request ''Basic YWRtaW46cHc=''"
  have none: "validSession sample_crypto ?r us sec 7 = None" "validToken sample_crypto ?r ts = None" for us sec ts
    by (simp_all add: validSession_def validToken_def sample_request_def HasPrefix_def)
  have basic: "BasicAuth ?r = Some (''admin'', ''pw'')" by code_simp
  have free: "Locked (wa_loginGuard sample_app) c 7 = (False, 0)" for c
    by (simp add: Locked_def sample_app_def NewLoginGuard_def)
  have "fst (authorize sample_crypto sample_app ?r 7) = Authorized"
    unfolding authorize_def none option.case Let_def free basic prod.case
    by (simp add: sample_app_def passwordMatches_def HasPrefix_def)
  then obtain ck a' where "authorize sample_crypto sample_app ?r 7 = (Authorized, ck, a')" by (metis fst_conv prod_cases3)
  from authorize_sound[OF this] none show ?thesis by auto
qed

lemma dec_digits_no_dot: "CHR ''.'' \<notin> set (dec_digits n)"
  using dec_digits_digits[of "CHR ''.''" n] by (auto simp: is_digit_def)

lemma issued_session_valid:
  assumes "secret \<noteq> []" "issueSessionWith k user secret t0 = Some v" "r_SessionCookie r = Some v"
    "- (2 ^ 63) \<le> Unix t0 + sessionLifetime" "Unix t0 + sessionLifetime < 2 ^ 63"
  shows "validSession k r users secret now =
     (if Unix now \<le> Unix t0 + 30 * 24 * 3600 then userByUsername users user else None)"
proof -
  let ?e = "Unix t0 + sessionLifetime"
  let ?p = "b64_EncodeToString (user @ ''.'' @ Itoa ?e)"
  have v: "v = ?p @ CHR ''.'' # hmac_hex k secret ?p"
    using assms(1,2) by (simp add: issueSessionWith_def Let_def)
  have "Cut v CHR ''.'' = Some (?p, hmac_hex k secret ?p)"
    unfolding v by (rule Cut_append[OF b64_no_dot])
  moreover have "CutLast (user @ ''.'' @ Itoa ?e) CHR ''.'' = Some (user, Itoa ?e)"
    using CutLast_append[of "CHR ''.''" "Itoa ?e" user] dec_digits_no_dot by (auto simp: Itoa_def)
  ultimately show ?thesis
    using assms(1,3) ParseInt_Itoa[OF assms(4,5)] b64_roundtrip[of "user @ ''.'' @ Itoa ?e"]
    by (simp add: validSession_def sessionLifetime_def)
qed

text \<open>A session cookie the server issues is accepted for its user until it is thirty days old and
  not after, whatever the user name contains.\<close>

theorem session_roundtrip:
  assumes "secret \<noteq> []" "issueSessionWith k user secret t0 = Some v" "r_SessionCookie r = Some v"
    "- (2 ^ 63) \<le> Unix t0 + sessionLifetime" "Unix t0 + sessionLifetime < 2 ^ 63"
  shows "validSession k r users secret now =
     (if Unix now \<le> Unix t0 + 30 * 24 * 3600 then userByUsername users user else None)"
  by (rule issued_session_valid[OF assms])

theorem session_roundtrip_witness:
  "validSession sample_crypto (sample_request [] \<lparr>r_SessionCookie := issueSessionWith sample_crypto ''admin'' ''s3'' 0\<rparr>)
     (wa_Users sample_app) ''s3'' 5 = userByUsername (wa_Users sample_app) ''admin''"
proof -
  obtain v where v: "issueSessionWith sample_crypto ''admin'' ''s3'' 0 = Some v"
    by (simp add: issueSessionWith_def Let_def)
  show ?thesis
    using session_roundtrip[of "''s3''" sample_crypto "''admin''" 0 v "sample_request [] \<lparr>r_SessionCookie := Some v\<rparr>"
        "wa_Users sample_app" 5] v
    by (simp add: Unix_def sessionLifetime_def)
qed

text \<open>An accepted session cookie carries the keyed digest of its own payload under a non-empty
  secret, names a configured user, and has not expired.\<close>

theorem session_accepts_only_signed:
  assumes "validSession k r users secret now = Some u"
  shows "\<exists>payload user expiry. r_SessionCookie r = Some (payload @ ''.'' @ hmac_hex k secret payload) \<and> secret \<noteq> [] \<and>
     b64_DecodeString payload \<noteq> None \<and> Unix now \<le> expiry \<and> userByUsername users user = Some u"
proof -
  obtain v payload sig raw user expStr expiry where
    v: "r_SessionCookie r = Some v" "secret \<noteq> []" "Cut v CHR ''.'' = Some (payload, sig)"
    "b64_DecodeString payload = Some raw" "CutLast raw CHR ''.'' = Some (user, expStr)"
    "ParseInt10 expStr = Some expiry" "Unix now \<le> expiry" "sig = hmac_hex k secret payload"
    "userByUsername users user = Some u"
    using assms by (auto simp: validSession_def split: option.splits if_splits)
  have "v = payload @ ''.'' @ hmac_hex k secret payload" using Cut_Some[OF v(3)] v(8) by simp
  then show ?thesis using v by blast
qed

theorem session_accepts_only_signed_witness:
  "\<exists>v payload user expiry. issueSessionWith sample_crypto ''admin'' ''s3'' 0 = Some v \<and>
     v = payload @ ''.'' @ hmac_hex sample_crypto ''s3'' payload \<and>
     Unix 5 \<le> expiry \<and> userByUsername (wa_Users sample_app) user = Some (hd (wa_Users sample_app))"
proof -
  obtain v where v: "issueSessionWith sample_crypto ''admin'' ''s3'' 0 = Some v"
    by (simp add: issueSessionWith_def Let_def)
  have "validSession sample_crypto (sample_request [] \<lparr>r_SessionCookie := Some v\<rparr>) (wa_Users sample_app) ''s3'' 5 =
      Some (hd (wa_Users sample_app))"
    using issued_session_valid[OF _ v, of "sample_request [] \<lparr>r_SessionCookie := Some v\<rparr>" "wa_Users sample_app" 5]
    by (simp add: Unix_def sessionLifetime_def sample_app_def)
  from session_accepts_only_signed[OF this] v show ?thesis by auto
qed

text \<open>An authenticated client gets at most sixty API requests plus twenty-five per second of the
  run through the API limiter.\<close>

theorem api_rate_bound:
  assumes "c \<noteq> []" "api_bucket c l = Some b" "0 \<le> ab_tokens b" "ab_tokens b \<le> 60" "sorted (ab_lastSeen b # ts)"
  shows "admitted (fst (query_run (\<lambda>l. APIRateLimiter_Allow l c) l ts))
     \<le> 60 + 25 * Seconds (last (ab_lastSeen b # ts) - ab_lastSeen b)"
  using apib.admission_bound[of c l ts] assms
  by (simp add: api_scope_def api_level_def api_seen_def apiRateQPS_def)

theorem api_rate_bound_witness:
  "admitted (fst (query_run (\<lambda>l. APIRateLimiter_Allow l ''a'') (\<lambda>_. [(''a'', \<lparr>ab_tokens = 1, ab_lastSeen = 5\<rparr>)]) [5, 5]))
     \<le> 60 + 25 * Seconds (5 - 5)"
  using api_rate_bound[of "''a''" "\<lambda>_. [(''a'', \<lparr>ab_tokens = 1, ab_lastSeen = 5\<rparr>)]" "\<lparr>ab_tokens = 1, ab_lastSeen = 5\<rparr>" "[5, 5]"]
  by (simp add: api_bucket_def)

section \<open>Behaviour the comments do not promise\<close>

text \<open>The API limiter's tables have no hard cap: idle buckets are all that eviction removes, so a
  flood of fresh addresses grows a shard past \<^verbatim>\<open>apiRateMaxPerShard\<close>.\<close>

lemma api_table_unbounded:
  assumes "c \<noteq> []" "map_of (l (api_shard c)) c = None"
    "\<forall>(k, b) \<in> set (l (api_shard c)). tsub now (ab_lastSeen b) \<le> apiRateIdleEvict"
  shows "length (snd (APIRateLimiter_Allow l c now) (api_shard c)) = length (l (api_shard c)) + 1"
proof -
  have "filter (\<lambda>(k, e). \<not> tsub now (ab_lastSeen e) > apiRateIdleEvict) (l (api_shard c)) = l (api_shard c)"
    using assms(3) by (auto simp: filter_id_conv)
  moreover have "c \<notin> fst ` set (l (api_shard c))" using assms(2) by (simp add: map_of_eq_None_iff)
  ultimately show ?thesis using assms(1,2)
    by (simp add: APIRateLimiter_Allow_def evictIdleLocked_def length_put_new Let_def)
qed

text \<open>A plaintext token of exactly 64 bytes is taken for a digest, so its owner cannot use it until
  the configuration is saved and the token hashed.\<close>

lemma plaintext_token_of_64_rejected:
  "length tok = 64 \<Longrightarrow> sha256_hex k tok \<noteq> tok \<Longrightarrow> \<not> tokenMatches k tok tok"
  by (simp add: tokenMatches_def)

end
