(* ===== verification/FilterRules.thy ===== *)
theory FilterRules
  imports NetIP
begin

text \<open>
  Blocklist syntax: \<^verbatim>\<open>internal/filter/rules.go\<close> and \<^verbatim>\<open>parse.go\<close>. Two things of the sources are
  parameters, collected in the record \<open>filterEnv\<close>: IDNA's \<^verbatim>\<open>Lookup.ToASCII\<close> of
  \<^verbatim>\<open>golang.org/x/net/idna\<close> (nothing on an error), and Go's regular expressions (compilation, which
  may fail, and matching), whose values have the type variable \<open>'re\<close>. A Go \<^verbatim>\<open>map[string]struct{}\<close> is a
  set of strings. Case folding and white space are those of ASCII.
\<close>

record 're filterEnv =
  fe_ToASCII :: "string \<Rightarrow> string option"
  fe_Compile :: "string \<Rightarrow> 're option"
  fe_MatchString :: "'re \<Rightarrow> string \<Rightarrow> bool"

section \<open>Rules\<close>

definition isASCII :: "string \<Rightarrow> bool" where
  "isASCII s \<longleftrightarrow> (\<forall>c \<in> set s. (of_char c :: nat) \<le> 127)"

definition normalizeDomain :: "'re filterEnv \<Rightarrow> string \<Rightarrow> string" where
  "normalizeDomain env d0 =
     (let d = ToLower (TrimSuffix (TrimSpace d0) ''.'') in
      if \<not> isASCII d then (case fe_ToASCII env d of None \<Rightarrow> d | Some a \<Rightarrow> a) else d)"

definition hasDomainModifier :: "string \<Rightarrow> bool" where
  "hasDomainModifier modifiers \<longleftrightarrow>
     (\<exists>part \<in> set (split_on CHR ''$'' modifiers). \<exists>opt \<in> set (split_on CHR '','' part).
        HasPrefix (TrimPrefix opt ''~'') ''domain='')"

text \<open>A rule that is not \<^verbatim>\<open>ok\<close> is \<open>None\<close>; otherwise its domain, whether it is exact-only, and whether
  it is an exception.\<close>

definition splitRule :: "'re filterEnv \<Rightarrow> string \<Rightarrow> (string \<times> bool \<times> bool) option" where
  "splitRule env raw =
     (let line0 = TrimSpace raw in
      if line0 = [] then None
      else
        let (line1, isException) = (case CutPrefix line0 ''@@'' of Some after \<Rightarrow> (after, True) | None \<Rightarrow> (line0, False));
            line2 = (case CutPrefix line1 ''||'' of
                Some after \<Rightarrow>
                  (case IndexAny after ''^$'' of
                     Some i \<Rightarrow> if hasDomainModifier (drop i after) then None else Some (take i after)
                   | None \<Rightarrow> Some after)
              | None \<Rightarrow> if HasPrefix line1 ''|'' then None else Some line1)
        in case line2 of
             None \<Rightarrow> None
           | Some l \<Rightarrow>
               let (l1, exactOnly) = (case CutPrefix l ''='' of Some after \<Rightarrow> (after, True) | None \<Rightarrow> (l, False));
                   l2 = TrimPrefix (TrimPrefix (TrimSuffix l1 ''^'') ''*.'') ''.'';
                   domain = normalizeDomain env l2
               in if domain = [] \<or> ContainsAny domain ('' /#*[]!@|$^='' @ [CHR 0x22, CHR 0x09]) then None
                  else if CHR ''.'' \<notin> set domain then None
                  else Some (domain, exactOnly, isException))"

record 're RegexRule =
  rr_Re :: 're
  rr_List :: string

text \<open>The flag letters after the closing slash, or nothing when one is not supported.\<close>

fun regex_flags :: "string \<Rightarrow> string option" where
  "regex_flags [] = Some []"
| "regex_flags (f # fs) =
     (if f = CHR ''i'' \<or> f = CHR ''s'' \<or> f = CHR ''m'' then map_option ((#) f) (regex_flags fs) else None)"

definition parseRegexRule :: "'re filterEnv \<Rightarrow> string \<Rightarrow> string \<Rightarrow> 're RegexRule option" where
  "parseRegexRule env raw listID =
     (let line = TrimSpace raw in
      if length line < 3 \<or> hd line \<noteq> CHR ''/'' \<or> HasPrefix line ''/*'' then None
      else case LastIndexByte line CHR ''/'' of
        None \<Rightarrow> None
      | Some lst \<Rightarrow>
          if lst \<le> 1 then None
          else
            let pattern = drop 1 (take lst line) in
            if pattern = [] then None
            else case regex_flags (drop (lst + 1) line) of
              None \<Rightarrow> None
            | Some inline \<Rightarrow>
                let pattern' = (if inline \<noteq> [] then ''(?'' @ inline @ '')'' @ pattern else pattern)
                in map_option (\<lambda>re. \<lparr>rr_Re = re, rr_List = listID\<rparr>) (fe_Compile env pattern'))"

section \<open>List content\<close>

record ParseResult =
  pr_Domains :: int
  pr_ExactDomains :: int
  pr_IPs :: int
  pr_Exceptions :: int
  pr_Regexes :: int

definition zero_ParseResult :: ParseResult where
  "zero_ParseResult = \<lparr>pr_Domains = 0, pr_ExactDomains = 0, pr_IPs = 0, pr_Exceptions = 0, pr_Regexes = 0\<rparr>"

text \<open>The targets of \<^verbatim>\<open>parseContent\<close> and its result so far.\<close>

record 're parseState =
  ps_block :: "string set"
  ps_blockExact :: "string set"
  ps_IPs :: "string set"
  ps_allow :: "string set"
  ps_allowExact :: "string set"
  ps_listOf :: "(string, string) gomap"
  ps_blockRegex :: "'re RegexRule list"
  ps_allowRegex :: "'re RegexRule list"
  ps_res :: ParseResult

definition firstField :: "string \<Rightarrow> string" where
  "firstField s = (case IndexAny s ('' '' @ [CHR 0x09]) of Some i \<Rightarrow> take i s | None \<Rightarrow> s)"

definition addIP :: "IP \<Rightarrow> 're parseState \<Rightarrow> 're parseState" where
  "addIP ip st = st\<lparr>ps_IPs := insert (IP_String ip) (ps_IPs st),
     ps_res := (ps_res st)\<lparr>pr_IPs := pr_IPs (ps_res st) + 1\<rparr>\<rparr>"

definition addBlock :: "string \<Rightarrow> string \<Rightarrow> bool \<Rightarrow> 're parseState \<Rightarrow> 're parseState" where
  "addBlock listID domain exact st =
     (if exact then
        st\<lparr>ps_blockExact := insert domain (ps_blockExact st), ps_listOf := gm_put domain listID (ps_listOf st),
           ps_res := (ps_res st)\<lparr>pr_ExactDomains := pr_ExactDomains (ps_res st) + 1\<rparr>\<rparr>
      else
        st\<lparr>ps_block := insert domain (ps_block st), ps_listOf := gm_put domain listID (ps_listOf st),
           ps_res := (ps_res st)\<lparr>pr_Domains := pr_Domains (ps_res st) + 1\<rparr>\<rparr>)"

definition addException :: "string \<Rightarrow> bool \<Rightarrow> 're parseState \<Rightarrow> 're parseState" where
  "addException domain exact st =
     (let st1 = (if exact then st\<lparr>ps_allowExact := insert domain (ps_allowExact st)\<rparr>
                 else st\<lparr>ps_allow := insert domain (ps_allow st)\<rparr>)
      in st1\<lparr>ps_res := (ps_res st1)\<lparr>pr_Exceptions := pr_Exceptions (ps_res st1) + 1\<rparr>\<rparr>)"

text \<open>The names of a hosts-file line, each of them a rule of its own.\<close>

fun hostsFields :: "'re filterEnv \<Rightarrow> string \<Rightarrow> string list \<Rightarrow> 're parseState \<Rightarrow> 're parseState" where
  "hostsFields env listID [] st = st"
| "hostsFields env listID (f # fs) st =
     hostsFields env listID fs
       (case splitRule env f of None \<Rightarrow> st | Some (domain, exact, exc) \<Rightarrow> addBlock listID domain exact st)"

text \<open>The body of the scan loop on one line.\<close>

definition parseLine :: "'re filterEnv \<Rightarrow> string \<Rightarrow> string \<Rightarrow> 're parseState \<Rightarrow> 're parseState" where
  "parseLine env listID raw st =
     (let line = TrimSpace raw in
      if line = [] \<or> HasPrefix line ''#'' \<or> HasPrefix line ''!'' then st
      else if ParseIP (firstField line) \<noteq> [] then
        (let fields = Fields line in
         if length fields = 1 then addIP (ParseIP (firstField line)) st
         else hostsFields env listID (tl fields) st)
      else if ParseIP line \<noteq> [] then addIP (ParseIP line) st
      else if HasPrefix line ''@@/'' then
        (case parseRegexRule env (TrimPrefix line ''@@'') listID of
           None \<Rightarrow> st
         | Some rr \<Rightarrow> st\<lparr>ps_allowRegex := ps_allowRegex st @ [rr],
                          ps_res := (ps_res st)\<lparr>pr_Exceptions := pr_Exceptions (ps_res st) + 1\<rparr>\<rparr>)
      else if hd line = CHR ''/'' then
        (case parseRegexRule env line listID of
           None \<Rightarrow> st
         | Some rr \<Rightarrow> st\<lparr>ps_blockRegex := ps_blockRegex st @ [rr],
                          ps_res := (ps_res st)\<lparr>pr_Regexes := pr_Regexes (ps_res st) + 1\<rparr>\<rparr>)
      else
        (case splitRule env line of
           None \<Rightarrow> st
         | Some (domain, exactOnly, isException) \<Rightarrow>
             if isException then addException domain exactOnly st
             else addBlock listID domain exactOnly st))"

text \<open>
  The lines a \<^verbatim>\<open>bufio.Scanner\<close> with a one-megabyte buffer delivers: the scan ends for good at the
  first line that does not fit, and the source does not look at the error.
\<close>

definition maxLine :: nat where "maxLine = 1024 * 1024"

definition scanLines :: "string \<Rightarrow> string list" where
  "scanLines content =
     map (\<lambda>l. TrimSuffix l [CHR 0x0D]) (takeWhile (\<lambda>l. length l < maxLine) (split_on (CHR 0x0A) content))"

definition parseContent :: "'re filterEnv \<Rightarrow> string \<Rightarrow> string \<Rightarrow> 're parseState \<Rightarrow> 're parseState" where
  "parseContent env content listID st =
     fold (parseLine env listID) (scanLines content) (st\<lparr>ps_res := zero_ParseResult\<rparr>)"

section \<open>Laws\<close>

lemma normalizeDomain_ascii:
  "isASCII d \<Longrightarrow> normalizeDomain env d = CanonicalDomain d"
proof -
  assume a: "isASCII d"
  have sub: "set (TrimSuffix (TrimSpace d) ''.'') \<subseteq> set d"
    by (auto simp: TrimSuffix_def TrimSpace_def dest!: in_set_takeD set_dropWhileD)
  have low: "(of_char (lower_char c) :: nat) \<le> 127" if "(of_char c :: nat) \<le> 127" for c
    using that by (auto simp: lower_char_def is_upper_def)
  have "isASCII (ToLower (TrimSuffix (TrimSpace d) ''.''))"
    using a sub low by (auto simp: isASCII_def ToLower_def)
  then show ?thesis by (simp add: normalizeDomain_def CanonicalDomain_def Let_def)
qed

lemma splitRule_dot: "splitRule env raw = Some (d, ex, exc) \<Longrightarrow> d \<noteq> [] \<and> CHR ''.'' \<in> set d"
  by (auto simp: splitRule_def Let_def split: if_splits option.splits prod.splits)

text \<open>Parsing only adds rules.\<close>

lemma addBlock_mono:
  "ps_block st \<subseteq> ps_block (addBlock l d e st)" "ps_blockExact st \<subseteq> ps_blockExact (addBlock l d e st)"
  "ps_IPs (addBlock l d e st) = ps_IPs st" "ps_allow (addBlock l d e st) = ps_allow st"
  "ps_allowExact (addBlock l d e st) = ps_allowExact st" "ps_blockRegex (addBlock l d e st) = ps_blockRegex st"
  "ps_allowRegex (addBlock l d e st) = ps_allowRegex st"
  by (auto simp: addBlock_def)

lemma hostsFields_mono:
  "ps_block st \<subseteq> ps_block (hostsFields env l fs st) \<and> ps_blockExact st \<subseteq> ps_blockExact (hostsFields env l fs st) \<and>
   ps_IPs (hostsFields env l fs st) = ps_IPs st \<and> ps_allow (hostsFields env l fs st) = ps_allow st \<and>
   ps_allowExact (hostsFields env l fs st) = ps_allowExact st"
proof (induction env l fs st rule: hostsFields.induct)
  case (2 env l f fs st)
  then show ?case
    by (cases "splitRule env f") (auto simp: addBlock_mono split: prod.splits dest: subsetD[OF addBlock_mono(1)] subsetD[OF addBlock_mono(2)])
qed simp

lemma parseLine_mono:
  "ps_block st \<subseteq> ps_block (parseLine env l raw st) \<and> ps_blockExact st \<subseteq> ps_blockExact (parseLine env l raw st) \<and>
   ps_IPs st \<subseteq> ps_IPs (parseLine env l raw st) \<and> ps_allow st \<subseteq> ps_allow (parseLine env l raw st) \<and>
   ps_allowExact st \<subseteq> ps_allowExact (parseLine env l raw st)"
  using hostsFields_mono[of st env l "tl (Fields (TrimSpace raw))"]
  by (auto simp: parseLine_def Let_def addIP_def addException_def addBlock_def split: option.splits prod.splits)

lemma fold_parseLine_mono:
  "ps_block st \<subseteq> ps_block (fold (parseLine env l) ls st) \<and> ps_blockExact st \<subseteq> ps_blockExact (fold (parseLine env l) ls st) \<and>
   ps_IPs st \<subseteq> ps_IPs (fold (parseLine env l) ls st) \<and> ps_allow st \<subseteq> ps_allow (fold (parseLine env l) ls st) \<and>
   ps_allowExact st \<subseteq> ps_allowExact (fold (parseLine env l) ls st)"
proof (induction ls arbitrary: st)
  case (Cons a ls)
  show ?case using parseLine_mono[of st env l a] Cons.IH[of "parseLine env l a st"] by auto
qed simp

text \<open>A line that is a plain domain rule (neither comment, address nor regular expression).\<close>

definition domain_line :: "string \<Rightarrow> bool" where
  "domain_line raw \<longleftrightarrow> (let line = TrimSpace raw in
     line \<noteq> [] \<and> \<not> HasPrefix line ''#'' \<and> \<not> HasPrefix line ''!'' \<and> ParseIP (firstField line) = [] \<and>
     ParseIP line = [] \<and> \<not> HasPrefix line ''@@/'' \<and> hd line \<noteq> CHR ''/'')"

lemma splitRule_trim: "splitRule env (TrimSpace raw) = splitRule env raw"
  by (simp add: splitRule_def)

lemma parseLine_domain:
  "domain_line raw \<Longrightarrow> splitRule env raw = Some (d, ex, False) \<Longrightarrow> parseLine env l raw st = addBlock l d ex st"
  by (simp add: parseLine_def domain_line_def Let_def splitRule_trim)

lemma parseLine_exception:
  "domain_line raw \<Longrightarrow> splitRule env raw = Some (d, ex, True) \<Longrightarrow> parseLine env l raw st = addException d ex st"
  by (simp add: parseLine_def domain_line_def Let_def splitRule_trim)

lemma parseContent_blocks:
  assumes "raw \<in> set (scanLines content)" "domain_line raw" "splitRule env raw = Some (d, ex, False)"
  shows "if ex then d \<in> ps_blockExact (parseContent env content l st) else d \<in> ps_block (parseContent env content l st)"
proof -
  obtain xs ys where s: "scanLines content = xs @ raw # ys" using assms(1) by (metis split_list)
  let ?st = "fold (parseLine env l) xs (st\<lparr>ps_res := zero_ParseResult\<rparr>)"
  have "parseContent env content l st = fold (parseLine env l) ys (addBlock l d ex ?st)"
    by (simp add: parseContent_def s parseLine_domain[OF assms(2,3)])
  moreover have "if ex then d \<in> ps_blockExact (addBlock l d ex ?st) else d \<in> ps_block (addBlock l d ex ?st)"
    by (simp add: addBlock_def)
  ultimately show ?thesis using fold_parseLine_mono[of "addBlock l d ex ?st" env l ys] by (auto split: if_splits)
qed

lemma parseContent_mono:
  "ps_block st \<subseteq> ps_block (parseContent env c l st)" "ps_blockExact st \<subseteq> ps_blockExact (parseContent env c l st)"
  "ps_IPs st \<subseteq> ps_IPs (parseContent env c l st)" "ps_allow st \<subseteq> ps_allow (parseContent env c l st)"
  "ps_allowExact st \<subseteq> ps_allowExact (parseContent env c l st)"
  using fold_parseLine_mono[of "st\<lparr>ps_res := zero_ParseResult\<rparr>" env l "scanLines c"]
  by (simp_all add: parseContent_def)

end
