(* ===== verification/FilterEngine.thy ===== *)
theory FilterEngine
  imports FilterRules "HOL-Library.List_Lexorder" "HOL-Library.Char_ord"
begin

text \<open>
  The blocking engine of \<^verbatim>\<open>internal/filter/engine.go\<close>: the working rule sets, the snapshot that
  \<^verbatim>\<open>publishLocked\<close> stores for the readers, and the decision on a query name. Writers hold the engine's
  mutex and readers see the last published snapshot, so an operation is one state transition.
\<close>

section \<open>State\<close>

datatype Action = Allow | Block

record Decision =
  d_Action :: Action
  d_Reason :: string
  d_ListName :: string

record 're ruleSet =
  rs_blockDomains :: "string set"
  rs_blockExact :: "string set"
  rs_blockIPs :: "string set"
  rs_allowDomains :: "string set"
  rs_allowExact :: "string set"
  rs_allowIPs :: "string set"
  rs_blockRegex :: "'re RegexRule list"
  rs_allowRegex :: "'re RegexRule list"
  rs_domainList :: "(string, string) gomap"
  rs_listNames :: "(string, string) gomap"
  rs_userBlockExact :: "string set"
  rs_userBlockDomains :: "string set"
  rs_totalBlockedDomains :: int
  rs_totalIPRules :: int
  rs_userWhitelistLen :: nat
  rs_userBlacklistLen :: nat

definition emptyRuleSet :: "'re ruleSet" where
  "emptyRuleSet = \<lparr>rs_blockDomains = {}, rs_blockExact = {}, rs_blockIPs = {}, rs_allowDomains = {},
     rs_allowExact = {}, rs_allowIPs = {}, rs_blockRegex = [], rs_allowRegex = [], rs_domainList = [],
     rs_listNames = [], rs_userBlockExact = {}, rs_userBlockDomains = {}, rs_totalBlockedDomains = 0,
     rs_totalIPRules = 0, rs_userWhitelistLen = 0, rs_userBlacklistLen = 0\<rparr>"

record 're Engine =
  e_blockDomains :: "string set"
  e_blockExact :: "string set"
  e_blockIPs :: "string set"
  e_allowDomains :: "string set"
  e_allowExact :: "string set"
  e_allowIPs :: "string set"
  e_blockRegex :: "'re RegexRule list"
  e_allowRegex :: "'re RegexRule list"
  e_listBlockRegex :: "'re RegexRule list"
  e_listAllowRegex :: "'re RegexRule list"
  e_userBlockRegex :: "'re RegexRule list"
  e_userAllowRegex :: "'re RegexRule list"
  e_domainList :: "(string, string) gomap"
  e_listNames :: "(string, string) gomap"
  e_userBlacklist :: "string list"
  e_userWhitelist :: "string list"
  e_userBlockExact :: "string set"
  e_userBlockDomains :: "string set"
  e_totalBlockedDomains :: int
  e_totalIPRules :: int
  e_hasIPRules :: bool
  e_rs :: "'re ruleSet"

section \<open>Writers\<close>

definition NewEngine :: "'re Engine" where
  "NewEngine = \<lparr>e_blockDomains = {}, e_blockExact = {}, e_blockIPs = {}, e_allowDomains = {}, e_allowExact = {},
     e_allowIPs = {}, e_blockRegex = [], e_allowRegex = [], e_listBlockRegex = [], e_listAllowRegex = [],
     e_userBlockRegex = [], e_userAllowRegex = [], e_domainList = [], e_listNames = [], e_userBlacklist = [],
     e_userWhitelist = [], e_userBlockExact = {}, e_userBlockDomains = {}, e_totalBlockedDomains = 0,
     e_totalIPRules = 0, e_hasIPRules = False, e_rs = emptyRuleSet\<rparr>"

definition Reset :: "'re Engine \<Rightarrow> 're Engine" where
  "Reset e = e\<lparr>e_blockDomains := {}, e_blockExact := {}, e_blockIPs := {}, e_allowDomains := {}, e_allowExact := {},
     e_allowIPs := {}, e_blockRegex := [], e_allowRegex := [], e_listBlockRegex := [], e_listAllowRegex := [],
     e_userBlockRegex := [], e_userAllowRegex := [], e_domainList := [], e_listNames := [],
     e_userBlockExact := {}, e_userBlockDomains := {}, e_totalBlockedDomains := 0, e_totalIPRules := 0,
     e_hasIPRules := False, e_rs := emptyRuleSet\<rparr>"

definition publishLocked :: "'re Engine \<Rightarrow> 're Engine" where
  "publishLocked e = e\<lparr>e_rs := \<lparr>
     rs_blockDomains = e_blockDomains e, rs_blockExact = e_blockExact e, rs_blockIPs = e_blockIPs e,
     rs_allowDomains = e_allowDomains e, rs_allowExact = e_allowExact e, rs_allowIPs = e_allowIPs e,
     rs_blockRegex = e_blockRegex e, rs_allowRegex = e_allowRegex e, rs_domainList = e_domainList e,
     rs_listNames = e_listNames e, rs_userBlockExact = e_userBlockExact e,
     rs_userBlockDomains = e_userBlockDomains e, rs_totalBlockedDomains = e_totalBlockedDomains e,
     rs_totalIPRules = e_totalIPRules e, rs_userWhitelistLen = length (e_userWhitelist e),
     rs_userBlacklistLen = length (e_userBlacklist e)\<rparr>\<rparr>"

definition syncIPFlag :: "'re Engine \<Rightarrow> 're Engine" where
  "syncIPFlag e = e\<lparr>e_hasIPRules := (e_blockIPs e \<noteq> {} \<or> e_allowIPs e \<noteq> {})\<rparr>"

definition parseUserRegexes :: "'re filterEnv \<Rightarrow> string list \<Rightarrow> 're RegexRule list" where
  "parseUserRegexes env xs = List.map_filter (\<lambda>s. parseRegexRule env s []) xs"

definition normalizeList :: "'re filterEnv \<Rightarrow> string list \<Rightarrow> string list" where
  "normalizeList env xs = List.map_filter (\<lambda>s.
     if parseRegexRule env s [] \<noteq> None then Some s
     else case splitRule env s of
            Some (d, exact, exc) \<Rightarrow> if exc then None else Some (if exact then ''='' @ d else d)
          | None \<Rightarrow> None) xs"

definition SetUserLists :: "'re filterEnv \<Rightarrow> string list \<Rightarrow> string list \<Rightarrow> 're Engine \<Rightarrow> 're Engine" where
  "SetUserLists env blacklist whitelist e =
     e\<lparr>e_userBlacklist := normalizeList env blacklist, e_userWhitelist := normalizeList env whitelist,
       e_userBlockRegex := parseUserRegexes env blacklist, e_userAllowRegex := parseUserRegexes env whitelist\<rparr>"

text \<open>\<^verbatim>\<open>LoadList\<close>: an empty list id is the only error.\<close>

definition LoadList ::
  "'re filterEnv \<Rightarrow> string \<Rightarrow> string \<Rightarrow> string \<Rightarrow> 're Engine \<Rightarrow> (unit + ParseResult) \<times> 're Engine" where
  "LoadList env lid nam content e =
     (if lid = [] then (Inl (), e)
      else
        let st = parseContent env content lid
              \<lparr>ps_block = e_blockDomains e, ps_blockExact = e_blockExact e, ps_IPs = e_blockIPs e,
               ps_allow = e_allowDomains e, ps_allowExact = e_allowExact e, ps_listOf = e_domainList e,
               ps_blockRegex = e_listBlockRegex e, ps_allowRegex = e_listAllowRegex e, ps_res = zero_ParseResult\<rparr>;
            res = ps_res st
        in (Inr res, syncIPFlag (e\<lparr>e_listNames := gm_put lid nam (e_listNames e),
              e_blockDomains := ps_block st, e_blockExact := ps_blockExact st, e_blockIPs := ps_IPs st,
              e_allowDomains := ps_allow st, e_allowExact := ps_allowExact st, e_domainList := ps_listOf st,
              e_listBlockRegex := ps_blockRegex st, e_listAllowRegex := ps_allowRegex st,
              e_totalBlockedDomains := e_totalBlockedDomains e + (pr_Domains res + pr_ExactDomains res + pr_Regexes res),
              e_totalIPRules := e_totalIPRules e + pr_IPs res\<rparr>)))"

text \<open>\<^verbatim>\<open>Compile\<close> takes domain and exact flag from \<^verbatim>\<open>splitRule\<close> without looking at its \<^verbatim>\<open>ok\<close>: an entry
  that is not a domain rule counts as the empty domain.\<close>

definition ruleOf :: "'re filterEnv \<Rightarrow> string \<Rightarrow> string \<times> bool" where
  "ruleOf env d = (case splitRule env d of None \<Rightarrow> ([], False) | Some (domain, exact, exc) \<Rightarrow> (domain, exact))"

fun compileWhitelist :: "'re filterEnv \<Rightarrow> string list \<Rightarrow> 're Engine \<Rightarrow> 're Engine" where
  "compileWhitelist env [] e = e"
| "compileWhitelist env (d # ds) e =
     (let (domain, exact) = ruleOf env d in
      compileWhitelist env ds
        (if exact then e\<lparr>e_allowExact := insert domain (e_allowExact e), e_blockExact := e_blockExact e - {domain}\<rparr>
         else e\<lparr>e_allowDomains := insert domain (e_allowDomains e), e_blockDomains := e_blockDomains e - {domain},
                e_blockExact := e_blockExact e - {domain}\<rparr>))"

fun compileBlacklist :: "'re filterEnv \<Rightarrow> string list \<Rightarrow> 're Engine \<Rightarrow> 're Engine" where
  "compileBlacklist env [] e = e"
| "compileBlacklist env (d # ds) e =
     (let (domain, exact) = ruleOf env d in
      compileBlacklist env ds
        (if exact then e\<lparr>e_userBlockExact := insert domain (e_userBlockExact e)\<rparr>
         else e\<lparr>e_userBlockDomains := insert domain (e_userBlockDomains e)\<rparr>))"

definition Compile :: "'re filterEnv \<Rightarrow> 're Engine \<Rightarrow> 're Engine" where
  "Compile env e =
     (let e1 = e\<lparr>e_blockRegex := e_listBlockRegex e @ e_userBlockRegex e,
                 e_allowRegex := e_listAllowRegex e @ e_userAllowRegex e\<rparr>;
          e2 = compileWhitelist env (e_userWhitelist e1) e1;
          e3 = compileBlacklist env (e_userBlacklist e2) (e2\<lparr>e_userBlockExact := {}, e_userBlockDomains := {}\<rparr>)
      in publishLocked (syncIPFlag e3))"

definition AddIPBlock :: "string \<Rightarrow> 're Engine \<Rightarrow> 're Engine" where
  "AddIPBlock ip e =
     (let parsed = ParseIP ip in
      if parsed \<noteq> [] then publishLocked (syncIPFlag (e\<lparr>e_blockIPs := insert (IP_String parsed) (e_blockIPs e)\<rparr>))
      else e)"

definition RemoveIPBlock :: "string \<Rightarrow> 're Engine \<Rightarrow> 're Engine" where
  "RemoveIPBlock ip e =
     (let parsed = ParseIP ip in
      if parsed \<noteq> [] then publishLocked (syncIPFlag (e\<lparr>e_blockIPs := e_blockIPs e - {IP_String parsed}\<rparr>))
      else e)"

section \<open>Readers\<close>

text \<open>The ancestor walk: the first \<open>i\<close> below the last dot at which the name has a dot and the rest of
  the name is a rule. The result is that rest.\<close>

definition parentHit :: "string set \<Rightarrow> string \<Rightarrow> string option" where
  "parentHit rules qname =
     (case LastIndexByte qname CHR ''.'' of
        None \<Rightarrow> None
      | Some lastDot \<Rightarrow>
          map_option (\<lambda>i. drop (i + 1) qname)
            (List.find (\<lambda>i. qname ! i = CHR ''.'' \<and> drop (i + 1) qname \<in> rules) [0..<lastDot]))"

definition listName :: "'re ruleSet \<Rightarrow> string \<Rightarrow> string" where
  "listName rs domain =
     (let lid = (case map_of (rs_domainList rs) domain of None \<Rightarrow> [] | Some i \<Rightarrow> i)
      in case map_of (rs_listNames rs) lid of None \<Rightarrow> [] | Some n \<Rightarrow> n)"

definition allowed :: "string \<Rightarrow> Decision" where
  "allowed reason = \<lparr>d_Action = Allow, d_Reason = reason, d_ListName = []\<rparr>"

definition blocked :: "string \<Rightarrow> string \<Rightarrow> Decision" where
  "blocked reason nam = \<lparr>d_Action = Block, d_Reason = reason, d_ListName = nam\<rparr>"

definition decide :: "'re filterEnv \<Rightarrow> 're ruleSet \<Rightarrow> string \<Rightarrow> Decision" where
  "decide env rs qname =
     (if qname \<in> rs_userBlockExact rs then blocked (''blacklist:'' @ qname) []
      else if qname \<in> rs_userBlockDomains rs then blocked (''blacklist:'' @ qname) []
      else case parentHit (rs_userBlockDomains rs) qname of
        Some parent \<Rightarrow> blocked (''blacklist:'' @ parent) []
      | None \<Rightarrow>
          if qname \<in> rs_allowExact rs then allowed (''whitelist:'' @ qname)
          else if qname \<in> rs_allowDomains rs then allowed (''whitelist:'' @ qname)
          else case parentHit (rs_allowDomains rs) qname of
            Some parent \<Rightarrow> allowed (''whitelist:'' @ parent)
          | None \<Rightarrow>
              if \<exists>rr \<in> set (rs_allowRegex rs). fe_MatchString env (rr_Re rr) qname then allowed ''whitelist:regex''
              else if qname \<in> rs_blockExact rs then blocked ''blocklist:exact'' (listName rs qname)
              else if qname \<in> rs_blockDomains rs then blocked (''blocklist:'' @ qname) (listName rs qname)
              else case parentHit (rs_blockDomains rs) qname of
                Some parent \<Rightarrow> blocked (''blocklist:'' @ parent) (listName rs parent)
              | None \<Rightarrow>
                  (case List.find (\<lambda>rr. fe_MatchString env (rr_Re rr) qname) (rs_blockRegex rs) of
                     Some rr \<Rightarrow> blocked ''blocklist:regex''
                       (case map_of (rs_listNames rs) (rr_List rr) of None \<Rightarrow> [] | Some n \<Rightarrow> n)
                   | None \<Rightarrow> allowed []))"

definition DecideDomain :: "'re filterEnv \<Rightarrow> 're Engine \<Rightarrow> string \<Rightarrow> Decision" where
  "DecideDomain env e qname0 =
     (let qname = normalizeDomain env qname0 in
      if qname = [] then allowed [] else decide env (e_rs e) qname)"

definition HasIPRules :: "'re Engine \<Rightarrow> bool" where
  "HasIPRules e = e_hasIPRules e"

definition CheckIPs :: "'re Engine \<Rightarrow> IP list \<Rightarrow> string option" where
  "CheckIPs e ips =
     map_option (\<lambda>ip. ''ip-blocklist:'' @ IP_String ip)
       (List.find (\<lambda>ip. IP_String ip \<notin> rs_allowIPs (e_rs e) \<and> IP_String ip \<in> rs_blockIPs (e_rs e)) ips)"

definition Stats :: "'re Engine \<Rightarrow> (string, int) gomap" where
  "Stats e = (let rs = e_rs e in
     [(''blocked_domains'', rs_totalBlockedDomains rs), (''blocked_exact'', int (card (rs_blockExact rs))),
      (''ip_rules'', rs_totalIPRules rs), (''regex_rules'', int (length (rs_blockRegex rs))),
      (''whitelist'', int (rs_userWhitelistLen rs)), (''blacklist'', int (rs_userBlacklistLen rs)),
      (''lists'', int (length (rs_listNames rs)))])"

definition Lists :: "'re Engine \<Rightarrow> (string, string) gomap" where
  "Lists e = rs_listNames (e_rs e)"

definition SortedLists :: "'re Engine \<Rightarrow> string list" where
  "SortedLists e = sort (map fst (rs_listNames (e_rs e)))"

section \<open>What a decision means\<close>

text \<open>The specification: a set of domain rules covers a name when it holds the name itself or a
  domain of at least two labels the name lies under.\<close>

definition covers :: "string set \<Rightarrow> string \<Rightarrow> bool" where
  "covers rules q \<longleftrightarrow> q \<in> rules \<or> (\<exists>d \<in> rules. CHR ''.'' \<in> set d \<and> (\<exists>p. q = p @ ''.'' @ d))"

definition userBlocked :: "'re ruleSet \<Rightarrow> string \<Rightarrow> bool" where
  "userBlocked rs q \<longleftrightarrow> q \<in> rs_userBlockExact rs \<or> covers (rs_userBlockDomains rs) q"

definition whitelisted :: "'re filterEnv \<Rightarrow> 're ruleSet \<Rightarrow> string \<Rightarrow> bool" where
  "whitelisted env rs q \<longleftrightarrow> q \<in> rs_allowExact rs \<or> covers (rs_allowDomains rs) q \<or>
     (\<exists>rr \<in> set (rs_allowRegex rs). fe_MatchString env (rr_Re rr) q)"

definition listBlocked :: "'re filterEnv \<Rightarrow> 're ruleSet \<Rightarrow> string \<Rightarrow> bool" where
  "listBlocked env rs q \<longleftrightarrow> q \<in> rs_blockExact rs \<or> covers (rs_blockDomains rs) q \<or>
     (\<exists>rr \<in> set (rs_blockRegex rs). fe_MatchString env (rr_Re rr) q)"

lemma parentHit_sound:
  assumes "parentHit S q = Some d"
  shows "d \<in> S \<and> CHR ''.'' \<in> set d \<and> (\<exists>p. q = p @ ''.'' @ d)"
proof -
  obtain ld i where ld: "LastIndexByte q CHR ''.'' = Some ld" and i: "i < ld" "q ! i = CHR ''.''"
    "drop (i + 1) q \<in> S" "d = drop (i + 1) q"
    using assms by (auto simp: parentHit_def find_Some_iff split: option.splits)
  have l: "ld < length q" "q ! ld = CHR ''.''" using LastIndexByte_Some[OF ld] by auto
  then have "d ! (ld - (i + 1)) = CHR ''.''" "ld - (i + 1) < length d" using i by auto
  then have "CHR ''.'' \<in> set d" by (metis nth_mem)
  moreover have "q = take i q @ CHR ''.'' # d" using i l id_take_nth_drop[of i q] by simp
  then have "\<exists>p. q = p @ ''.'' @ d" by auto
  ultimately show ?thesis using i by simp
qed

lemma parentHit_complete:
  assumes "d \<in> S" "CHR ''.'' \<in> set d" "q = p @ ''.'' @ d"
  shows "parentHit S q \<noteq> None"
proof -
  have "CHR ''.'' \<in> set q" using assms(3) by simp
  then obtain ld where ld: "LastIndexByte q CHR ''.'' = Some ld" using LastIndexByte_None[of q "CHR ''.''"] by auto
  obtain k where k: "k < length d" "d ! k = CHR ''.''" using assms(2) by (metis in_set_conv_nth)
  have "q ! (length p + 1 + k) = CHR ''.''" "length p + 1 + k < length q"
    using assms(3) k by (simp_all add: nth_append)
  then have "length p + 1 + k \<le> ld" using LastIndexByte_Some(3)[OF ld] by (meson not_le)
  then have "length p < ld" by simp
  moreover have "q ! length p = CHR ''.''" "drop (length p + 1) q = d" using assms(3) by (simp_all add: nth_append)
  ultimately show ?thesis using assms(1) ld by (auto simp: parentHit_def find_None_iff)
qed

lemma covers_iff: "covers S q \<longleftrightarrow> q \<in> S \<or> parentHit S q \<noteq> None"
  unfolding covers_def using parentHit_sound[of S q] parentHit_complete[of _ S q] by fastforce

lemma decide_blocks:
  fixes rs :: "'re ruleSet"
  shows "d_Action (decide env rs q) = Block \<longleftrightarrow> userBlocked rs q \<or> (\<not> whitelisted env rs q \<and> listBlocked env rs q)"
proof (cases "List.find (\<lambda>rr. fe_MatchString env (rr_Re rr) q) (rs_blockRegex rs)")
  case None
  then have "\<not> (\<exists>rr \<in> set (rs_blockRegex rs). fe_MatchString env (rr_Re rr) q)"
    by (auto simp: find_None_iff)
  then show ?thesis using None
    by (auto simp: decide_def userBlocked_def whitelisted_def listBlocked_def covers_iff allowed_def blocked_def
        split: option.splits)
next
  case (Some rr)
  then have "\<exists>rr \<in> set (rs_blockRegex rs). fe_MatchString env (rr_Re rr) q"
    by (auto simp: find_Some_iff)
  then show ?thesis using Some
    by (auto simp: decide_def userBlocked_def whitelisted_def listBlocked_def covers_iff allowed_def blocked_def
        split: option.splits)
qed

lemma covers_mono: "S \<subseteq> T \<Longrightarrow> covers S q \<Longrightarrow> covers T q"
  by (auto simp: covers_def)

lemma covers_under: "d \<in> S \<Longrightarrow> CHR ''.'' \<in> set d \<Longrightarrow> q = d \<or> (\<exists>p. q = p @ ''.'' @ d) \<Longrightarrow> covers S q"
  by (auto simp: covers_def)

section \<open>What Compile publishes\<close>

lemma publish_rs [simp]:
  "rs_blockDomains (e_rs (publishLocked e)) = e_blockDomains e" "rs_blockExact (e_rs (publishLocked e)) = e_blockExact e"
  "rs_blockIPs (e_rs (publishLocked e)) = e_blockIPs e" "rs_allowDomains (e_rs (publishLocked e)) = e_allowDomains e"
  "rs_allowExact (e_rs (publishLocked e)) = e_allowExact e" "rs_allowIPs (e_rs (publishLocked e)) = e_allowIPs e"
  "rs_blockRegex (e_rs (publishLocked e)) = e_blockRegex e" "rs_allowRegex (e_rs (publishLocked e)) = e_allowRegex e"
  "rs_userBlockExact (e_rs (publishLocked e)) = e_userBlockExact e"
  "rs_userBlockDomains (e_rs (publishLocked e)) = e_userBlockDomains e"
  by (simp_all add: publishLocked_def)

lemma publish_keep [simp]:
  "e_blockIPs (publishLocked e) = e_blockIPs e" "e_allowIPs (publishLocked e) = e_allowIPs e"
  "e_hasIPRules (publishLocked e) = e_hasIPRules e" "e_blockIPs (syncIPFlag e) = e_blockIPs e"
  "e_allowIPs (syncIPFlag e) = e_allowIPs e"
  "e_hasIPRules (syncIPFlag e) \<longleftrightarrow> e_blockIPs e \<noteq> {} \<or> e_allowIPs e \<noteq> {}" "e_rs (syncIPFlag e) = e_rs e"
  "e_blockDomains (syncIPFlag e) = e_blockDomains e" "e_blockExact (syncIPFlag e) = e_blockExact e"
  "e_allowDomains (syncIPFlag e) = e_allowDomains e" "e_allowExact (syncIPFlag e) = e_allowExact e"
  "e_blockRegex (syncIPFlag e) = e_blockRegex e" "e_allowRegex (syncIPFlag e) = e_allowRegex e"
  "e_userBlockExact (syncIPFlag e) = e_userBlockExact e" "e_userBlockDomains (syncIPFlag e) = e_userBlockDomains e"
  by (auto simp: publishLocked_def syncIPFlag_def)

definition exactRules :: "'re filterEnv \<Rightarrow> string list \<Rightarrow> string set" where
  "exactRules env ds = {fst (ruleOf env d) | d. d \<in> set ds \<and> snd (ruleOf env d)}"

definition subtreeRules :: "'re filterEnv \<Rightarrow> string list \<Rightarrow> string set" where
  "subtreeRules env ds = {fst (ruleOf env d) | d. d \<in> set ds \<and> \<not> snd (ruleOf env d)}"

lemma rules_Nil [simp]: "exactRules env [] = {}" "subtreeRules env [] = {}"
  by (simp_all add: exactRules_def subtreeRules_def)

lemma rules_Cons:
  "exactRules env (d # ds) = (if snd (ruleOf env d) then insert (fst (ruleOf env d)) (exactRules env ds) else exactRules env ds)"
  "subtreeRules env (d # ds) = (if snd (ruleOf env d) then subtreeRules env ds else insert (fst (ruleOf env d)) (subtreeRules env ds))"
  by (auto simp: exactRules_def subtreeRules_def)

lemma compileWhitelist_sets:
  "e_allowExact (compileWhitelist env ds e) = e_allowExact e \<union> exactRules env ds \<and>
   e_allowDomains (compileWhitelist env ds e) = e_allowDomains e \<union> subtreeRules env ds \<and>
   e_blockDomains (compileWhitelist env ds e) = e_blockDomains e - subtreeRules env ds \<and>
   e_blockExact (compileWhitelist env ds e) = e_blockExact e - exactRules env ds - subtreeRules env ds \<and>
   e_blockIPs (compileWhitelist env ds e) = e_blockIPs e \<and> e_allowIPs (compileWhitelist env ds e) = e_allowIPs e \<and>
   e_blockRegex (compileWhitelist env ds e) = e_blockRegex e \<and> e_allowRegex (compileWhitelist env ds e) = e_allowRegex e \<and>
   e_userBlacklist (compileWhitelist env ds e) = e_userBlacklist e"
  by (induction env ds e rule: compileWhitelist.induct) (auto simp: rules_Cons Let_def split: prod.splits)

lemma compileBlacklist_sets:
  "e_userBlockExact (compileBlacklist env ds e) = e_userBlockExact e \<union> exactRules env ds \<and>
   e_userBlockDomains (compileBlacklist env ds e) = e_userBlockDomains e \<union> subtreeRules env ds \<and>
   e_allowExact (compileBlacklist env ds e) = e_allowExact e \<and> e_allowDomains (compileBlacklist env ds e) = e_allowDomains e \<and>
   e_blockDomains (compileBlacklist env ds e) = e_blockDomains e \<and> e_blockExact (compileBlacklist env ds e) = e_blockExact e \<and>
   e_blockIPs (compileBlacklist env ds e) = e_blockIPs e \<and> e_allowIPs (compileBlacklist env ds e) = e_allowIPs e \<and>
   e_blockRegex (compileBlacklist env ds e) = e_blockRegex e \<and> e_allowRegex (compileBlacklist env ds e) = e_allowRegex e"
  by (induction env ds e rule: compileBlacklist.induct) (auto simp: rules_Cons Let_def split: prod.splits)

lemma Compile_published:
  shows "rs_userBlockExact (e_rs (Compile env e)) = exactRules env (e_userBlacklist e)"
    and "rs_userBlockDomains (e_rs (Compile env e)) = subtreeRules env (e_userBlacklist e)"
    and "rs_allowExact (e_rs (Compile env e)) = e_allowExact e \<union> exactRules env (e_userWhitelist e)"
    and "rs_allowDomains (e_rs (Compile env e)) = e_allowDomains e \<union> subtreeRules env (e_userWhitelist e)"
    and "rs_blockDomains (e_rs (Compile env e)) = e_blockDomains e - subtreeRules env (e_userWhitelist e)"
    and "rs_blockExact (e_rs (Compile env e)) =
      e_blockExact e - exactRules env (e_userWhitelist e) - subtreeRules env (e_userWhitelist e)"
    and "rs_blockRegex (e_rs (Compile env e)) = e_listBlockRegex e @ e_userBlockRegex e"
    and "rs_allowRegex (e_rs (Compile env e)) = e_listAllowRegex e @ e_userAllowRegex e"
    and "rs_blockIPs (e_rs (Compile env e)) = e_blockIPs e" and "rs_allowIPs (e_rs (Compile env e)) = e_allowIPs e"
    and "e_blockIPs (Compile env e) = e_blockIPs e" and "e_allowIPs (Compile env e) = e_allowIPs e"
    and "e_hasIPRules (Compile env e) \<longleftrightarrow> e_blockIPs e \<noteq> {} \<or> e_allowIPs e \<noteq> {}"
  by (simp_all add: Compile_def Let_def compileWhitelist_sets compileBlacklist_sets)

section \<open>Reachable engines\<close>

datatype engine_op =
  OpReset
| OpSetUserLists "string list" "string list"
| OpLoadList string string string
| OpCompile
| OpAddIP string
| OpRemoveIP string

fun engine_apply :: "'re filterEnv \<Rightarrow> engine_op \<Rightarrow> 're Engine \<Rightarrow> 're Engine" where
  "engine_apply env OpReset e = Reset e"
| "engine_apply env (OpSetUserLists b w) e = SetUserLists env b w e"
| "engine_apply env (OpLoadList i n c) e = snd (LoadList env i n c e)"
| "engine_apply env OpCompile e = Compile env e"
| "engine_apply env (OpAddIP ip) e = AddIPBlock ip e"
| "engine_apply env (OpRemoveIP ip) e = RemoveIPBlock ip e"

definition engine_run :: "'re filterEnv \<Rightarrow> engine_op list \<Rightarrow> 're Engine" where
  "engine_run env ops = fold (engine_apply env) ops NewEngine"

text \<open>The published address rules never exceed the working ones, no address is ever whitelisted, and
  the flag tells whether there is a working rule.\<close>

definition ip_inv :: "'re Engine \<Rightarrow> bool" where
  "ip_inv e \<longleftrightarrow> rs_blockIPs (e_rs e) \<subseteq> e_blockIPs e \<and> e_allowIPs e = {} \<and> rs_allowIPs (e_rs e) = {} \<and>
     (e_hasIPRules e \<longleftrightarrow> e_blockIPs e \<noteq> {})"

lemma LoadList_fields:
  assumes "lid \<noteq> []"
  shows "e_rs (snd (LoadList env lid n c e)) = e_rs e"
    and "e_allowIPs (snd (LoadList env lid n c e)) = e_allowIPs e"
    and "e_blockIPs e \<subseteq> e_blockIPs (snd (LoadList env lid n c e))"
    and "e_blockDomains e \<subseteq> e_blockDomains (snd (LoadList env lid n c e))"
    and "e_blockExact e \<subseteq> e_blockExact (snd (LoadList env lid n c e))"
    and "e_userBlacklist (snd (LoadList env lid n c e)) = e_userBlacklist e"
    and "e_userWhitelist (snd (LoadList env lid n c e)) = e_userWhitelist e"
    and "e_userBlockRegex (snd (LoadList env lid n c e)) = e_userBlockRegex e"
    and "e_userAllowRegex (snd (LoadList env lid n c e)) = e_userAllowRegex e"
    and "e_hasIPRules (snd (LoadList env lid n c e)) \<longleftrightarrow>
      e_blockIPs (snd (LoadList env lid n c e)) \<noteq> {} \<or> e_allowIPs e \<noteq> {}"
  using assms parseContent_mono[of _ env c lid] by (force simp: LoadList_def Let_def syncIPFlag_def)+

lemma LoadList_ip_inv:
  assumes "ip_inv e" shows "ip_inv (snd (LoadList env lid n c e))"
proof (cases "lid = []")
  case True
  then show ?thesis using assms by (simp add: LoadList_def)
next
  case False
  note f = LoadList_fields(1-3,10)[OF False, where env = env and n = n and c = c and e = e]
  show ?thesis using assms f unfolding ip_inv_def by (metis subset_trans)
qed

lemma ip_inv_apply: "ip_inv e \<Longrightarrow> ip_inv (engine_apply env op e)"
  by (cases op) (auto simp: LoadList_ip_inv, auto simp: ip_inv_def Reset_def SetUserLists_def AddIPBlock_def
      RemoveIPBlock_def Let_def emptyRuleSet_def Compile_published)

lemma ip_inv_run: "ip_inv (engine_run env ops)"
proof -
  have "ip_inv e \<Longrightarrow> ip_inv (fold (engine_apply env) ops e)" for e
    by (induction ops arbitrary: e) (simp_all add: ip_inv_apply)
  moreover have "ip_inv NewEngine" by (simp add: ip_inv_def NewEngine_def emptyRuleSet_def)
  ultimately show ?thesis by (simp add: engine_run_def)
qed

section \<open>Properties\<close>

text \<open>C19: the decision on a name is the one the rule sets mean: a name is blocked exactly when a manual
  blacklist entry covers it, or no whitelist entry or exception does and a blocklist rule does; a
  domain rule covers the domain and every name under it at a label boundary, and nothing else.\<close>

theorem decide_domain_spec:
  "d_Action (DecideDomain env e qname) = Block \<longleftrightarrow>
     (let q = normalizeDomain env qname; rs = e_rs e in
      q \<noteq> [] \<and> (userBlocked rs q \<or> (\<not> whitelisted env rs q \<and> listBlocked env rs q)))"
  by (simp add: DecideDomain_def Let_def decide_blocks allowed_def)

text \<open>The manual blacklist wins: once the user lists are set and compiled, every name covered by
  a blacklist entry is blocked, whatever the lists, the whitelist, the exceptions and the
  engine's history are.\<close>

theorem manual_blacklist_wins:
  assumes "d \<in> set (normalizeList env blacklist)" "splitRule env d = Some (dm, ex, exc)"
    "normalizeDomain env qname = dm \<or> (\<not> ex \<and> (\<exists>p. normalizeDomain env qname = p @ ''.'' @ dm))"
  shows "d_Action (DecideDomain env (Compile env (SetUserLists env blacklist whitelist e)) qname) = Block"
proof -
  let ?e = "SetUserLists env blacklist whitelist e"
  let ?q = "normalizeDomain env qname"
  have dm: "dm \<noteq> []" "CHR ''.'' \<in> set dm" using splitRule_dot[OF assms(2)] by auto
  have r: "ruleOf env d = (dm, ex)" by (simp add: ruleOf_def assms(2))
  have mem: "if ex then dm \<in> exactRules env (e_userBlacklist ?e) else dm \<in> subtreeRules env (e_userBlacklist ?e)"
    using assms(1) r by (auto simp: exactRules_def subtreeRules_def SetUserLists_def intro!: exI[of _ d])
  have "?q \<noteq> []" using assms(3) dm by auto
  moreover have "userBlocked (e_rs (Compile env ?e)) ?q"
    using mem assms(3) dm covers_under[of dm _ ?q] by (auto simp: userBlocked_def Compile_published split: if_splits)
  ultimately show ?thesis by (simp add: DecideDomain_def Let_def decide_blocks)
qed

definition plain_env :: "string filterEnv" where
  "plain_env = \<lparr>fe_ToASCII = (\<lambda>s. None), fe_Compile = Some, fe_MatchString = (\<lambda>r s. r = s)\<rparr>"

theorem manual_blacklist_wins_witness:
  "d_Action (DecideDomain plain_env (Compile plain_env (SetUserLists plain_env [''ads.example.com''] [''ads.example.com''] NewEngine))
     ''x.ADS.example.com.'') = Block"
proof (rule manual_blacklist_wins)
  show "''ads.example.com'' \<in> set (normalizeList plain_env [''ads.example.com''])" by code_simp
  show "splitRule plain_env ''ads.example.com'' = Some (''ads.example.com'', False, False)" by code_simp
  have "normalizeDomain plain_env ''x.ADS.example.com.'' = ''x'' @ ''.'' @ ''ads.example.com''" by code_simp
  then show "normalizeDomain plain_env ''x.ADS.example.com.'' = ''ads.example.com'' \<or>
     (\<not> False \<and> (\<exists>p. normalizeDomain plain_env ''x.ADS.example.com.'' = p @ ''.'' @ ''ads.example.com''))" by blast
qed

text \<open>A list does what it says: loading a list that has a line with a domain rule and compiling
  blocks the domain, and the whole subtree unless the rule is exact, for every name that no
  whitelist entry or exception covers.\<close>

theorem list_rule_blocks:
  assumes "lid \<noteq> []" "raw \<in> set (scanLines content)" "domain_line raw" "splitRule env raw = Some (dm, ex, False)"
    "normalizeDomain env qname = dm \<or> (\<not> ex \<and> (\<exists>p. normalizeDomain env qname = p @ ''.'' @ dm))"
    "e' = Compile env (snd (LoadList env lid n content e))" "\<not> whitelisted env (e_rs e') (normalizeDomain env qname)"
  shows "d_Action (DecideDomain env e' qname) = Block"
proof -
  let ?l = "snd (LoadList env lid n content e)" and ?q = "normalizeDomain env qname"
  have dm: "dm \<noteq> []" "CHR ''.'' \<in> set dm" using splitRule_dot[OF assms(4)] by auto
  have ld: "if ex then dm \<in> e_blockExact ?l else dm \<in> e_blockDomains ?l"
    using parseContent_blocks[OF assms(2,3,4), of lid] assms(1) by (simp add: LoadList_def Let_def syncIPFlag_def)
  have q: "?q = dm \<or> (\<exists>p. ?q = p @ ''.'' @ dm)" using assms(5) by blast
  have nw: "dm \<notin> subtreeRules env (e_userWhitelist ?l)"
    using assms(7) covers_under[OF _ dm(2) q] by (auto simp: assms(6) whitelisted_def Compile_published)
  have "listBlocked env (e_rs e') ?q"
  proof (cases ex)
    case True
    then have qd: "?q = dm" using assms(5) by simp
    have "dm \<notin> exactRules env (e_userWhitelist ?l)"
      using assms(7) qd by (auto simp: assms(6) whitelisted_def Compile_published)
    then show ?thesis using True ld nw qd by (simp add: listBlocked_def assms(6) Compile_published)
  next
    case False
    then have "dm \<in> rs_blockDomains (e_rs e')" using ld nw by (simp add: assms(6) Compile_published)
    then show ?thesis using covers_under[OF _ dm(2) q] by (auto simp: listBlocked_def)
  qed
  moreover have "?q \<noteq> []" using q dm by auto
  ultimately show ?thesis using assms(7) by (simp add: DecideDomain_def Let_def decide_blocks)
qed

theorem list_rule_blocks_witness:
  "d_Action (DecideDomain plain_env (Compile plain_env (snd (LoadList plain_env ''l1'' ''Ads'' ''||ads.example.com^'' NewEngine)))
     ''x.ads.example.com'') = Block"
proof (rule list_rule_blocks[where raw = "''||ads.example.com^''" and dm = "''ads.example.com''" and ex = False])
  show "''||ads.example.com^'' \<in> set (scanLines ''||ads.example.com^'')"
    by (simp add: scanLines_def maxLine_def TrimSuffix_def HasSuffix_def)
  show "domain_line ''||ads.example.com^''" by code_simp
  show "splitRule plain_env ''||ads.example.com^'' = Some (''ads.example.com'', False, False)" by code_simp
  have q: "normalizeDomain plain_env ''x.ads.example.com'' = ''x'' @ ''.'' @ ''ads.example.com''" by code_simp
  then show "normalizeDomain plain_env ''x.ads.example.com'' = ''ads.example.com'' \<or>
     (\<not> False \<and> (\<exists>p. normalizeDomain plain_env ''x.ads.example.com'' = p @ ''.'' @ ''ads.example.com''))" by blast
  let ?e = "snd (LoadList plain_env ''l1'' ''Ads'' ''||ads.example.com^'' NewEngine)"
  have l: "scanLines ''||ads.example.com^'' = [''||ads.example.com^'']"
    by (simp add: scanLines_def maxLine_def TrimSuffix_def HasSuffix_def)
  have p: "parseLine plain_env ''l1'' ''||ads.example.com^'' st = addBlock ''l1'' ''ads.example.com'' False st" for st
    by (rule parseLine_domain) code_simp+
  have "e_allowExact ?e = {}" "e_allowDomains ?e = {}" "e_listAllowRegex ?e = []" "e_userWhitelist ?e = []" "e_userAllowRegex ?e = []"
    by (simp_all add: LoadList_def parseContent_def l p addBlock_def syncIPFlag_def NewEngine_def Let_def)
  then show "\<not> whitelisted plain_env (e_rs (Compile plain_env ?e)) (normalizeDomain plain_env ''x.ads.example.com'')"
    by (simp add: whitelisted_def Compile_published covers_def)
qed simp_all

text \<open>Readers only ever see what was published: after any sequence of operations the gate that
  lets the query path skip the answer check is sound (no rule is published while it is off), and
  loading a list or setting the user lists changes no decision before the next compile.\<close>

theorem snapshot_and_ip_gate:
  "(\<not> HasIPRules (engine_run env ops) \<longrightarrow> CheckIPs (engine_run env ops) ips = None) \<and>
   DecideDomain env (snd (LoadList env lid n c (engine_run env ops))) q = DecideDomain env (engine_run env ops) q \<and>
   DecideDomain env (SetUserLists env b w (engine_run env ops)) q = DecideDomain env (engine_run env ops) q"
proof -
  let ?e = "engine_run env ops"
  have "CheckIPs ?e ips = None" if "\<not> HasIPRules ?e"
    using ip_inv_run[of env ops] that by (auto simp: ip_inv_def HasIPRules_def CheckIPs_def find_None_iff)
  moreover have "e_rs (snd (LoadList env lid n c ?e)) = e_rs ?e"
    using LoadList_fields(1)[of lid] by (cases "lid = []") (simp_all add: LoadList_def)
  ultimately show ?thesis by (simp add: DecideDomain_def SetUserLists_def Let_def)
qed

theorem snapshot_and_ip_gate_witness:
  "CheckIPs (engine_run plain_env [OpSetUserLists [''ads.example.com''] [], OpCompile]) [[1, 2, 3, 4]] = None"
proof -
  have "\<not> HasIPRules (engine_run plain_env [OpSetUserLists [''ads.example.com''] [], OpCompile])"
    by (simp add: engine_run_def HasIPRules_def Compile_published SetUserLists_def NewEngine_def)
  then show ?thesis using snapshot_and_ip_gate by blast
qed

text \<open>A manual address rule takes effect at once and is undone exactly: after adding it an answer
  holding the address is blocked, and after removing it again no answer is blocked because of that
  address.\<close>

theorem ip_block_add_remove:
  assumes "ParseIP s \<noteq> []"
  shows "CheckIPs (AddIPBlock s (engine_run env ops)) [ParseIP s] = Some (''ip-blocklist:'' @ IP_String (ParseIP s)) \<and>
     HasIPRules (AddIPBlock s (engine_run env ops)) \<and>
     CheckIPs (RemoveIPBlock s (engine_run env ops)) [ParseIP s] = None"
  using ip_inv_run[of env ops] assms
  by (simp add: ip_inv_def CheckIPs_def AddIPBlock_def RemoveIPBlock_def HasIPRules_def Let_def)

theorem ip_block_add_remove_witness:
  "CheckIPs (AddIPBlock ''10.0.0.1'' (engine_run plain_env [])) [ParseIP ''10.0.0.1''] = Some (''ip-blocklist:'' @ IP_String (ParseIP ''10.0.0.1''))"
proof -
  have "ParseIP ''10.0.0.1'' \<noteq> []" by code_simp
  from ip_block_add_remove[OF this] show ?thesis by blast
qed

end
