(* ===== verification/DnsMsg.thy ===== *)
theory DnsMsg
  imports GoStrings NetIP
begin

text \<open>
  The messages of the DNS library (\<^verbatim>\<open>github.com/miekg/dns\<close>) as data: the fields of \<^verbatim>\<open>Msg\<close>, \<^verbatim>\<open>Question\<close> and \<^verbatim>\<open>RR_Header\<close> the
  program reads and writes, and the record types it tells apart. The library's functions are not part of the
  program: they are the fields of \<open>dnsLib\<close>, an argument of the definitions that call them, and what the
  program relies on is stated by the \<open>_doc\<close> predicates.
\<close>

record Question =
  q_Name :: string
  q_Qtype :: "16 word"
  q_Qclass :: "16 word"

record RR_Header =
  h_Name :: string
  h_Rrtype :: "16 word"
  h_Class :: "16 word"
  h_Ttl :: "32 word"

datatype EDNS0 =
  EDNS0_COOKIE string
| EDNS0_PADDING "byte list"
| EDNS0_EDE "16 word" string
| EDNS0_Other "16 word" "byte list"

text \<open>The fields of the DNSSEC records that the program reads; what only the library looks at is in the last field of each.\<close>

record dnskeyData =
  ky_Algorithm :: byte
  ky_Rest :: "byte list"

record dsData =
  dz_KeyTag :: "16 word"
  dz_Algorithm :: byte
  dz_DigestType :: byte
  dz_Digest :: string

record rrsigData =
  sg_TypeCovered :: "16 word"
  sg_Algorithm :: byte
  sg_KeyTag :: "16 word"
  sg_SignerName :: string
  sg_Rest :: "byte list"

record nsecData =
  ns_NextDomain :: string
  ns_TypeBitMap :: "16 word list"

record nsec3Data =
  n3_TypeBitMap :: "16 word list"
  n3_Rest :: "byte list"

text \<open>Record data. \<^verbatim>\<open>OPT\<close> carries the advertised UDP size and the options.\<close>

datatype RData =
  A IP
| AAAA IP
| CNAME string
| HINFO string string
| PTR string
| OPT "16 word" "EDNS0 list"
| NS string
| DNSKEY dnskeyData
| DS dsData
| RRSIG rrsigData
| NSEC nsecData
| NSEC3 nsec3Data
| OtherRR "byte list"

record RR =
  rr_Hdr :: RR_Header
  rr_Data :: RData

record Msg =
  m_Id :: "16 word"
  m_Response :: bool
  m_Authoritative :: bool
  m_Truncated :: bool
  m_RecursionDesired :: bool
  m_RecursionAvailable :: bool
  m_AuthenticatedData :: bool
  m_CheckingDisabled :: bool
  m_Rcode :: nat
  m_Compress :: bool
  m_Question :: "Question list"
  m_Answer :: "RR list"
  m_Ns :: "RR list"
  m_Extra :: "RR list"

definition TypeA :: "16 word" where "TypeA = 1"
definition TypeNS :: "16 word" where "TypeNS = 2"
definition TypeCNAME :: "16 word" where "TypeCNAME = 5"
definition TypePTR :: "16 word" where "TypePTR = 12"
definition TypeHINFO :: "16 word" where "TypeHINFO = 13"
definition TypeAAAA :: "16 word" where "TypeAAAA = 28"
definition TypeOPT :: "16 word" where "TypeOPT = 41"
definition TypeDS :: "16 word" where "TypeDS = 43"
definition TypeNSEC :: "16 word" where "TypeNSEC = 47"
definition TypeDNSKEY :: "16 word" where "TypeDNSKEY = 48"
definition TypeNSEC3 :: "16 word" where "TypeNSEC3 = 50"
definition TypeTSIG :: "16 word" where "TypeTSIG = 250"
definition TypeIXFR :: "16 word" where "TypeIXFR = 251"
definition TypeAXFR :: "16 word" where "TypeAXFR = 252"
definition TypeANY :: "16 word" where "TypeANY = 255"
definition ClassINET :: "16 word" where "ClassINET = 1"

definition RcodeSuccess :: nat where "RcodeSuccess = 0"
definition RcodeFormatError :: nat where "RcodeFormatError = 1"
definition RcodeServerFailure :: nat where "RcodeServerFailure = 2"
definition RcodeNameError :: nat where "RcodeNameError = 3"
definition RcodeRefused :: nat where "RcodeRefused = 5"
definition RcodeBadVers :: nat where "RcodeBadVers = 16"
definition RcodeBadCookie :: nat where "RcodeBadCookie = 23"

definition MinMsgSize :: nat where "MinMsgSize = 512"

text \<open>The library: \<^verbatim>\<open>SetReply\<close> on a zero message, the index of the record \<^verbatim>\<open>IsEdns0\<close> points at, \<^verbatim>\<open>Fqdn\<close>, \<^verbatim>\<open>SplitDomainName\<close>, \<^verbatim>\<open>Pack\<close>,
  \<^verbatim>\<open>Unpack\<close>, \<^verbatim>\<open>Len\<close>, \<^verbatim>\<open>Truncate\<close>, \<^verbatim>\<open>SetEdns0\<close>, \<^verbatim>\<open>SetQuestion\<close> on a zero message (with the id it draws), \<^verbatim>\<open>SetRcode\<close> on a zero
  message and the EDNS version of an OPT record.\<close>

record dnsLib =
  SetReply :: "Msg \<Rightarrow> Msg"
  IsEdns0 :: "Msg \<Rightarrow> nat option"
  Fqdn :: "string \<Rightarrow> string"
  SplitDomainName :: "string \<Rightarrow> string list"
  Pack :: "Msg \<Rightarrow> byte list option"
  Unpack :: "byte list \<Rightarrow> Msg option"
  Len :: "Msg \<Rightarrow> nat"
  Truncate :: "Msg \<Rightarrow> nat \<Rightarrow> Msg"
  SetEdns0 :: "Msg \<Rightarrow> 16 word \<Rightarrow> bool \<Rightarrow> Msg"
  SetQuestion :: "string \<Rightarrow> 16 word \<Rightarrow> 16 word \<Rightarrow> Msg"
  SetRcode :: "Msg \<Rightarrow> nat \<Rightarrow> Msg"
  OPT_Version :: "RR \<Rightarrow> nat"

definition is_OPT :: "RR \<Rightarrow> bool" where
  "is_OPT rr = (case rr_Data rr of OPT sz opts \<Rightarrow> True | _ \<Rightarrow> False)"

text \<open>\<^verbatim>\<open>SetReply\<close> makes an empty answer to the first question, with the request's id.\<close>

definition SetReply_doc :: "dnsLib \<Rightarrow> bool" where
  "SetReply_doc lib \<longleftrightarrow> (\<forall>r. m_Id (SetReply lib r) = m_Id r \<and> m_Response (SetReply lib r) \<and> m_Rcode (SetReply lib r) = RcodeSuccess \<and>
     m_Question (SetReply lib r) = take 1 (m_Question r) \<and> m_Answer (SetReply lib r) = [] \<and> m_Ns (SetReply lib r) = [] \<and> m_Extra (SetReply lib r) = [])"

text \<open>\<^verbatim>\<open>IsEdns0\<close> points at an OPT record of the additional section, and finds one if there is one.\<close>

definition IsEdns0_doc :: "dnsLib \<Rightarrow> bool" where
  "IsEdns0_doc lib \<longleftrightarrow> (\<forall>m. case IsEdns0 lib m of
       None \<Rightarrow> \<not> list_ex is_OPT (m_Extra m)
     | Some i \<Rightarrow> i < length (m_Extra m) \<and> is_OPT (m_Extra m ! i))"

text \<open>A library that meets both, for examples: messages as the documentation describes them, and packing that
  keeps the id only.\<close>

definition emptyMsg :: Msg where
  "emptyMsg = \<lparr>m_Id = 0, m_Response = False, m_Authoritative = False, m_Truncated = False, m_RecursionDesired = False,
     m_RecursionAvailable = False, m_AuthenticatedData = False, m_CheckingDisabled = False, m_Rcode = 0, m_Compress = False,
     m_Question = [], m_Answer = [], m_Ns = [], m_Extra = []\<rparr>"

definition simpleReply :: "Msg \<Rightarrow> Msg" where
  "simpleReply r = emptyMsg\<lparr>m_Id := m_Id r, m_Response := True, m_RecursionDesired := m_RecursionDesired r,
     m_CheckingDisabled := m_CheckingDisabled r, m_Question := take 1 (m_Question r)\<rparr>"

fun first_OPT :: "RR list \<Rightarrow> nat option" where
  "first_OPT [] = None"
| "first_OPT (rr # rrs) = (if is_OPT rr then Some 0 else map_option Suc (first_OPT rrs))"

definition simpleLib :: dnsLib where
  "simpleLib = \<lparr>SetReply = simpleReply, IsEdns0 = \<lambda>m. first_OPT (m_Extra m), Fqdn = \<lambda>s. if HasSuffix s ''.'' then s else s @ ''.'',
     SplitDomainName = \<lambda>s. if s = ''.'' \<or> s = [] then [] else split_on CHR ''.'' (if HasSuffix s ''.'' then butlast s else s),
     Pack = \<lambda>m. Some (replicate 12 0), Unpack = \<lambda>b. Some emptyMsg, Len = \<lambda>m. 12, Truncate = \<lambda>m n. m\<lparr>m_Truncated := True, m_Answer := []\<rparr>,
     SetEdns0 = \<lambda>m sz d. m\<lparr>m_Extra := m_Extra m @ [\<lparr>rr_Hdr = \<lparr>h_Name = ''.'', h_Rrtype = TypeOPT, h_Class = sz, h_Ttl = (if d then 0x8000 else 0)\<rparr>, rr_Data = OPT sz []\<rparr>]\<rparr>,
     SetQuestion = \<lambda>n t i. emptyMsg\<lparr>m_Id := i, m_RecursionDesired := True, m_Question := [\<lparr>q_Name = n, q_Qtype = t, q_Qclass = ClassINET\<rparr>]\<rparr>,
     SetRcode = \<lambda>r rc. (simpleReply r)\<lparr>m_Rcode := rc\<rparr>,
     OPT_Version = \<lambda>rr. unat (drop_bit 16 (h_Ttl (rr_Hdr rr))) mod 256\<rparr>"

lemma first_OPT_doc: "case first_OPT rrs of None \<Rightarrow> \<not> list_ex is_OPT rrs | Some i \<Rightarrow> i < length rrs \<and> is_OPT (rrs ! i)"
  by (induction rrs) (auto split: option.splits)

lemma simpleLib_doc: "SetReply_doc simpleLib" "IsEdns0_doc simpleLib"
  using first_OPT_doc by (simp_all add: SetReply_doc_def IsEdns0_doc_def simpleLib_def simpleReply_def emptyMsg_def RcodeSuccess_def)

end
