(* ===== verification/FilterLists.thy ===== *)
theory FilterLists
  imports FilterEngine DnsMsg
begin

text \<open>
  The list manager of \<^verbatim>\<open>internal/filter/lists.go\<close> (which lists there are, their cached content, the
  rebuild of the engine) and the local records of \<^verbatim>\<open>rewrite.go\<close>. What the network or the disk
  returns is an argument of the operation that asks for it; the order in which a Go map is walked is
  the order of its association list.
\<close>

section \<open>ListManager\<close>

record ListSpec =
  ls_ID :: string
  ls_Name :: string
  ls_URL :: string
  ls_Enabled :: bool

record StoredList =
  sl_Spec :: ListSpec
  sl_Content :: "string option"
  sl_LastFetched :: "gotime option"
  sl_LastError :: string
  sl_RuleCount :: int

record 're ListManager =
  lm_store :: "(string, StoredList) gomap"
  lm_engine :: "'re Engine"
  lm_dir :: string
  lm_autoUpdate :: duration

definition NewListManager :: "'re Engine \<Rightarrow> string \<Rightarrow> 're ListManager" where
  "NewListManager engine dir = \<lparr>lm_store = [], lm_engine = engine, lm_dir = dir, lm_autoUpdate = 0\<rparr>"

definition SetAutoUpdate :: "duration \<Rightarrow> 're ListManager \<Rightarrow> 're ListManager" where
  "SetAutoUpdate d m = m\<lparr>lm_autoUpdate := d\<rparr>"

definition setSpec :: "ListSpec \<Rightarrow> (string, StoredList) gomap \<Rightarrow> (string, StoredList) gomap" where
  "setSpec s store =
     (case map_of store (ls_ID s) of
        None \<Rightarrow> gm_put (ls_ID s) \<lparr>sl_Spec = s, sl_Content = None, sl_LastFetched = None, sl_LastError = [], sl_RuleCount = 0\<rparr> store
      | Some st \<Rightarrow> gm_put (ls_ID s) (st\<lparr>sl_Spec := s\<rparr>) store)"

definition SetSpecs :: "ListSpec list \<Rightarrow> 're ListManager \<Rightarrow> 're ListManager" where
  "SetSpecs specs m =
     m\<lparr>lm_store := filter (\<lambda>(i, st). i \<in> set (map ls_ID specs)) (fold setSpec specs (lm_store m))\<rparr>"

text \<open>One round of the loop of \<^verbatim>\<open>ReloadAll\<close>: load an enabled list and note its rule count.\<close>

definition reloadOne :: "'re filterEnv \<Rightarrow> ListSpec \<Rightarrow> 're ListManager \<Rightarrow> 're ListManager" where
  "reloadOne env s m =
     (if \<not> ls_Enabled s then m
      else case map_of (lm_store m) (ls_ID s) of
        None \<Rightarrow> m
      | Some stored \<Rightarrow>
          let (r, e) = LoadList env (ls_ID s) (ls_Name s) (case sl_Content stored of None \<Rightarrow> [] | Some c \<Rightarrow> c) (lm_engine m) in
          (case r of
             Inl err \<Rightarrow> m\<lparr>lm_engine := e\<rparr>
           | Inr res \<Rightarrow> m\<lparr>lm_engine := e,
               lm_store := gm_put (ls_ID s) (stored\<lparr>sl_RuleCount := pr_Domains res + pr_ExactDomains res + pr_IPs res\<rparr>) (lm_store m)\<rparr>))"

definition ReloadAll :: "'re filterEnv \<Rightarrow> 're ListManager \<Rightarrow> 're ListManager" where
  "ReloadAll env m =
     (let specs = map (sl_Spec \<circ> snd) (lm_store m);
          m1 = m\<lparr>lm_engine := Reset (lm_engine m)\<rparr>;
          m2 = fold (reloadOne env) specs m1
      in m2\<lparr>lm_engine := Compile env (lm_engine m2)\<rparr>)"

text \<open>\<^verbatim>\<open>FetchOne\<close>: \<open>fetch\<close> stands for reading the file or downloading the URL (an error text or the
  content), \<open>persist\<close> for writing the cache file.\<close>

datatype fetch_error = UnknownList | FetchFailed string | PersistFailed

definition persistOK :: "string \<Rightarrow> bool" where
  "persistOK i \<longleftrightarrow> \<not> (i = [] \<or> ContainsAny i [CHR ''/'', CHR 0x5C] \<or> i = ''.'' \<or> i = ''..'')"

definition FetchOne ::
  "(string \<Rightarrow> string + string) \<Rightarrow> (string \<Rightarrow> bool) \<Rightarrow> string \<Rightarrow> gotime \<Rightarrow> 're ListManager \<Rightarrow> fetch_error option \<times> 're ListManager" where
  "FetchOne fetch persist i now m =
     (case map_of (lm_store m) i of
        None \<Rightarrow> (Some UnknownList, m)
      | Some stored \<Rightarrow>
          let url = ls_URL (sl_Spec stored) in
          if url = [] then (None, m)
          else case fetch url of
            Inl err \<Rightarrow> (Some (FetchFailed err), m\<lparr>lm_store := gm_put i (stored\<lparr>sl_LastError := err\<rparr>) (lm_store m)\<rparr>)
          | Inr content \<Rightarrow>
              (let m' = m\<lparr>lm_store := gm_put i (stored\<lparr>sl_Content := Some content, sl_LastFetched := Some now, sl_LastError := []\<rparr>) (lm_store m)\<rparr>
               in if lm_dir m = [] then (None, m')
                  else if \<not> persistOK i \<or> \<not> persist i then (Some PersistFailed, m')
                  else (None, m')))"

text \<open>\<^verbatim>\<open>LoadCached\<close>, with \<open>disk\<close> the cache files that can be read.\<close>

definition LoadCached :: "(string \<Rightarrow> string option) \<Rightarrow> gotime \<Rightarrow> 're ListManager \<Rightarrow> 're ListManager" where
  "LoadCached disk now m =
     (if lm_dir m = [] then m
      else m\<lparr>lm_store := map (\<lambda>(i, st). (i,
        case disk i of
          Some content \<Rightarrow> if sl_Content st = None then st\<lparr>sl_Content := Some content, sl_LastFetched := Some now\<rparr> else st
        | None \<Rightarrow> st)) (lm_store m)\<rparr>)"

text \<open>The lists one tick of \<^verbatim>\<open>StartRefresh\<close> fetches.\<close>

definition dueLists :: "gotime \<Rightarrow> 're ListManager \<Rightarrow> string list" where
  "dueLists now m =
     (if lm_autoUpdate m > 0 then
        map fst (filter (\<lambda>(i, st). ls_Enabled (sl_Spec st) \<and>
          (case sl_LastFetched st of None \<Rightarrow> True | Some t \<Rightarrow> tsub now t \<ge> lm_autoUpdate m)) (lm_store m))
      else [])"

fun fetchDue ::
  "(string \<Rightarrow> string + string) \<Rightarrow> (string \<Rightarrow> bool) \<Rightarrow> gotime \<Rightarrow> string list \<Rightarrow> 're ListManager \<Rightarrow> bool \<times> 're ListManager" where
  "fetchDue fetch persist now [] m = (False, m)"
| "fetchDue fetch persist now (i # is) m =
     (let (err, m1) = FetchOne fetch persist i now m; (changed, m2) = fetchDue fetch persist now is m1
      in (err = None \<or> changed, m2))"

definition refreshTick ::
  "'re filterEnv \<Rightarrow> (string \<Rightarrow> string + string) \<Rightarrow> (string \<Rightarrow> bool) \<Rightarrow> gotime \<Rightarrow> 're ListManager \<Rightarrow> 're ListManager" where
  "refreshTick env fetch persist now m =
     (let (changed, m1) = fetchDue fetch persist now (dueLists now m) m
      in if changed then ReloadAll env m1 else m1)"

definition Snapshot :: "'re ListManager \<Rightarrow> StoredList list" where
  "Snapshot m = map snd (lm_store m)"

definition GetContent :: "string \<Rightarrow> 're ListManager \<Rightarrow> string option" where
  "GetContent i m = (case map_of (lm_store m) i of Some s \<Rightarrow> sl_Content s | None \<Rightarrow> None)"

text \<open>\<^verbatim>\<open>applyUserLists\<close> of \<^verbatim>\<open>internal/api/handlers_lists.go\<close>: what the dashboard does after an edit.\<close>

definition applyUserLists :: "'re filterEnv \<Rightarrow> string list \<Rightarrow> string list \<Rightarrow> 're Engine \<Rightarrow> 're Engine" where
  "applyUserLists env blacklist whitelist e = Compile env (SetUserLists env blacklist whitelist e)"

section \<open>Rewriter\<close>

record RewriteSpec =
  rw_Domain :: string
  rw_Type :: string
  rw_Value :: string
  rw_TTL :: "32 word"

record RewriteRule =
  ru_Type :: "16 word"
  ru_Value :: string
  ru_TTL :: "32 word"

record Rewriter =
  rw_exact :: "(string, RewriteRule list) gomap"
  rw_wildcard :: "(string, RewriteRule list) gomap"

definition NewRewriter :: Rewriter where
  "NewRewriter = \<lparr>rw_exact = [], rw_wildcard = []\<rparr>"

definition rewriteType :: "string \<Rightarrow> 16 word option" where
  "rewriteType t =
     (if ToUpper t = ''A'' then Some TypeA else if ToUpper t = ''AAAA'' then Some TypeAAAA
      else if ToUpper t = ''CNAME'' then Some TypeCNAME else None)"

definition addRule :: "string \<Rightarrow> RewriteRule \<Rightarrow> (string, RewriteRule list) gomap \<Rightarrow> (string, RewriteRule list) gomap" where
  "addRule k r m = gm_put k ((case map_of m k of None \<Rightarrow> [] | Some rs \<Rightarrow> rs) @ [r]) m"

definition setOne :: "'re filterEnv \<Rightarrow> RewriteSpec \<Rightarrow> Rewriter \<Rightarrow> Rewriter" where
  "setOne env s rw =
     (let domain = normalizeDomain env (rw_Domain s) in
      if domain = [] \<or> rw_Value s = [] then rw
      else case rewriteType (rw_Type s) of
        None \<Rightarrow> rw
      | Some qtype \<Rightarrow>
          let ttl = (if rw_TTL s = 0 then 300 else rw_TTL s);
              rule = \<lparr>ru_Type = qtype, ru_Value = rw_Value s, ru_TTL = ttl\<rparr>
          in case CutPrefix domain ''*.'' of
               Some suffix \<Rightarrow> rw\<lparr>rw_wildcard := addRule suffix rule (rw_wildcard rw)\<rparr>
             | None \<Rightarrow> rw\<lparr>rw_exact := addRule domain rule (rw_exact rw)\<rparr>)"

definition Rewriter_Set :: "'re filterEnv \<Rightarrow> RewriteSpec list \<Rightarrow> Rewriter \<Rightarrow> Rewriter" where
  "Rewriter_Set env specs rw = fold (setOne env) specs NewRewriter"

text \<open>The proper suffixes of the label list, longest first.\<close>

fun wildcardHit :: "(string, RewriteRule list) gomap \<Rightarrow> string list \<Rightarrow> RewriteRule list option" where
  "wildcardHit w [] = None"
| "wildcardHit w (l # ls) =
     (if ls = [] then None
      else case map_of w (join_with ''.'' ls) of Some rules \<Rightarrow> Some rules | None \<Rightarrow> wildcardHit w ls)"

definition Rewriter_Lookup :: "'re filterEnv \<Rightarrow> Rewriter \<Rightarrow> string \<Rightarrow> RewriteRule list option" where
  "Rewriter_Lookup env rw qname0 =
     (let qname = normalizeDomain env qname0 in
      if qname = [] then None
      else if rw_exact rw = [] \<and> rw_wildcard rw = [] then None
      else case map_of (rw_exact rw) qname of
        Some rules \<Rightarrow> Some rules
      | None \<Rightarrow> wildcardHit (rw_wildcard rw) (split_on CHR ''.'' qname))"

section \<open>What a reload publishes\<close>

text \<open>Every regular-expression rule a list contributes carries the id of that list.\<close>

definition regex_from_lists :: "'re parseState \<Rightarrow> bool" where
  "regex_from_lists st \<longleftrightarrow> (\<forall>rr \<in> set (ps_blockRegex st) \<union> set (ps_allowRegex st). rr_List rr \<noteq> [])"

lemma parseRegexRule_list: "parseRegexRule env s l = Some rr \<Longrightarrow> rr_List rr = l"
  by (auto simp: parseRegexRule_def Let_def split: if_splits option.splits)

lemma hostsFields_regex [simp]:
  "ps_blockRegex (hostsFields env l fs st) = ps_blockRegex st" "ps_allowRegex (hostsFields env l fs st) = ps_allowRegex st"
  by (induction env l fs st rule: hostsFields.induct) (auto simp: addBlock_mono split: option.splits)

lemma parseLine_regex:
  "l \<noteq> [] \<Longrightarrow> regex_from_lists st \<Longrightarrow> regex_from_lists (parseLine env l raw st)"
  by (auto simp: parseLine_def regex_from_lists_def Let_def addIP_def addBlock_def addException_def
      dest: parseRegexRule_list split: option.splits)

lemma parseContent_regex:
  assumes "l \<noteq> []" "regex_from_lists st" shows "regex_from_lists (parseContent env c l st)"
proof -
  have "regex_from_lists st \<Longrightarrow> regex_from_lists (fold (parseLine env l) ls st)" for ls st
    using assms(1) by (induction ls arbitrary: st) (auto intro: parseLine_regex)
  from this[of "st\<lparr>ps_res := zero_ParseResult\<rparr>" "scanLines c"]
  show ?thesis using assms(2) unfolding parseContent_def by (simp add: regex_from_lists_def)
qed

definition list_regexes_only :: "'re Engine \<Rightarrow> bool" where
  "list_regexes_only e \<longleftrightarrow> (\<forall>rr \<in> set (e_listBlockRegex e) \<union> set (e_listAllowRegex e). rr_List rr \<noteq> []) \<and>
     e_userBlockRegex e = [] \<and> e_userAllowRegex e = []"

lemma LoadList_regex: "list_regexes_only e \<Longrightarrow> list_regexes_only (snd (LoadList env lid n c e))"
proof (cases "lid = []")
  case False
  assume e: "list_regexes_only e"
  let ?st = "\<lparr>ps_block = e_blockDomains e, ps_blockExact = e_blockExact e, ps_IPs = e_blockIPs e,
     ps_allow = e_allowDomains e, ps_allowExact = e_allowExact e, ps_listOf = e_domainList e,
     ps_blockRegex = e_listBlockRegex e, ps_allowRegex = e_listAllowRegex e, ps_res = zero_ParseResult\<rparr>"
  have "regex_from_lists (parseContent env c lid ?st)"
    by (rule parseContent_regex[OF False]) (use e in \<open>simp add: regex_from_lists_def list_regexes_only_def\<close>)
  then show ?thesis using e False
    by (simp add: LoadList_def Let_def syncIPFlag_def list_regexes_only_def regex_from_lists_def)
qed (simp add: LoadList_def)

lemma reloadOne_engine:
  "lm_engine (reloadOne env s m) = lm_engine m \<or>
   (\<exists>c. lm_engine (reloadOne env s m) = snd (LoadList env (ls_ID s) (ls_Name s) c (lm_engine m)))"
  by (auto simp: reloadOne_def Let_def split: option.splits sum.splits prod.splits) (metis snd_conv)+

lemma reload_regex: "list_regexes_only (lm_engine m) \<Longrightarrow> list_regexes_only (lm_engine (fold (reloadOne env) specs m))"
proof (induction specs arbitrary: m)
  case (Cons s specs)
  have "list_regexes_only (lm_engine (reloadOne env s m))"
    using reloadOne_engine[of env s m] LoadList_regex Cons.prems by metis
  then show ?case using Cons.IH by simp
qed simp

section \<open>What the rewriter holds\<close>

definition specRule :: "RewriteSpec \<Rightarrow> RewriteRule" where
  "specRule s = \<lparr>ru_Type = the (rewriteType (rw_Type s)), ru_Value = rw_Value s,
     ru_TTL = (if rw_TTL s = 0 then 300 else rw_TTL s)\<rparr>"

text \<open>The records of the configuration for a key, in order: exact ones for a name, or the wildcard
  ones for the suffix behind \<^verbatim>\<open>*.\<close>.\<close>

definition specOK :: "'re filterEnv \<Rightarrow> RewriteSpec \<Rightarrow> bool" where
  "specOK env s \<longleftrightarrow> normalizeDomain env (rw_Domain s) \<noteq> [] \<and> rw_Value s \<noteq> [] \<and> rewriteType (rw_Type s) \<noteq> None"

definition specsFor :: "'re filterEnv \<Rightarrow> RewriteSpec list \<Rightarrow> string \<Rightarrow> RewriteRule list" where
  "specsFor env specs d = map specRule (filter (\<lambda>s. specOK env s \<and> normalizeDomain env (rw_Domain s) = d) specs)"

definition exactSpecs :: "'re filterEnv \<Rightarrow> RewriteSpec list \<Rightarrow> string \<Rightarrow> RewriteRule list" where
  "exactSpecs env specs q = (if HasPrefix q ''*.'' then [] else specsFor env specs q)"

definition nonempty :: "'a list \<Rightarrow> 'a list option" where
  "nonempty xs = (if xs = [] then None else Some xs)"

lemma addRule_lookup:
  "map_of (addRule k r m) x = (if x = k then Some ((case map_of m k of None \<Rightarrow> [] | Some rs \<Rightarrow> rs) @ [r]) else map_of m x)"
  by (simp add: addRule_def)

lemma CutPrefix_iff: "CutPrefix d p = Some r \<longleftrightarrow> d = p @ r"
  by (auto simp: CutPrefix_def HasPrefix_def) (metis append_take_drop_id)

lemma HasPrefix_append: "HasPrefix (p @ r) p"
  by (simp add: HasPrefix_def)

lemma setOne_cases:
  "\<not> specOK env s \<Longrightarrow> setOne env s rw = rw"
  "specOK env s \<Longrightarrow> \<not> HasPrefix (normalizeDomain env (rw_Domain s)) ''*.'' \<Longrightarrow>
     setOne env s rw = rw\<lparr>rw_exact := addRule (normalizeDomain env (rw_Domain s)) (specRule s) (rw_exact rw)\<rparr>"
  "specOK env s \<Longrightarrow> normalizeDomain env (rw_Domain s) = ''*.'' @ sfx \<Longrightarrow>
     setOne env s rw = rw\<lparr>rw_wildcard := addRule sfx (specRule s) (rw_wildcard rw)\<rparr>"
  by (auto simp: setOne_def specOK_def specRule_def Let_def CutPrefix_def HasPrefix_def split: option.splits)

lemma specsFor_snoc:
  "specsFor env (specs @ [s]) d =
     specsFor env specs d @ (if specOK env s \<and> normalizeDomain env (rw_Domain s) = d then [specRule s] else [])"
  by (simp add: specsFor_def)

lemma addRule_nonempty:
  "map_of m x = nonempty rs \<Longrightarrow> map_of (addRule k r m) x = nonempty (rs @ (if k = x then [r] else []))"
  by (auto simp: addRule_lookup nonempty_def)

lemma HasPrefix_ex: "HasPrefix d p \<Longrightarrow> \<exists>r. d = p @ r"
  unfolding HasPrefix_def by (metis append_take_drop_id)

lemma rewriter_holds:
  "map_of (rw_exact (fold (setOne env) specs NewRewriter)) q = nonempty (exactSpecs env specs q) \<and>
   map_of (rw_wildcard (fold (setOne env) specs NewRewriter)) q = nonempty (specsFor env specs (''*.'' @ q))"
proof (induction specs rule: rev_induct)
  case Nil
  then show ?case by (simp add: NewRewriter_def nonempty_def exactSpecs_def specsFor_def)
next
  case (snoc s specs)
  let ?rw = "fold (setOne env) specs NewRewriter"
  let ?d = "normalizeDomain env (rw_Domain s)"
  note IH = snoc.IH[THEN conjunct1] snoc.IH[THEN conjunct2]
  consider "\<not> specOK env s" | "specOK env s" "\<not> HasPrefix ?d ''*.''" | sfx where "specOK env s" "?d = ''*.'' @ sfx"
    using HasPrefix_ex[of ?d "''*.''"] by blast
  then show ?case
  proof cases
    case 1
    then show ?thesis using IH by (simp add: setOne_cases(1) exactSpecs_def specsFor_snoc)
  next
    case 2
    have "?d \<noteq> ''*.'' @ q" using 2(2) HasPrefix_append[of "''*.''" q] by metis
    moreover have "map_of (addRule ?d (specRule s) (rw_exact ?rw)) q =
        nonempty (exactSpecs env specs q @ (if ?d = q then [specRule s] else []))"
      by (rule addRule_nonempty[OF IH(1)])
    ultimately show ?thesis using 2 IH(2) by (auto simp: setOne_cases(2)[OF 2] exactSpecs_def specsFor_snoc)
  next
    case 3
    have "map_of (addRule sfx (specRule s) (rw_wildcard ?rw)) q =
        nonempty (specsFor env specs (''*.'' @ q) @ (if sfx = q then [specRule s] else []))"
      by (rule addRule_nonempty[OF IH(2)])
    moreover have "\<not> HasPrefix q ''*.'' \<Longrightarrow> ?d \<noteq> q" using 3(2) HasPrefix_append[of "''*.''" sfx] by metis
    moreover have "?d = ''*.'' @ q \<longleftrightarrow> sfx = q" using 3(2) by simp
    ultimately show ?thesis using 3(1) IH(1) by (simp add: setOne_cases(3)[OF 3] exactSpecs_def specsFor_snoc)
  qed
qed

text \<open>The first wildcard that answers, over the proper suffixes of a label list.\<close>

fun wildcardSpec :: "'re filterEnv \<Rightarrow> RewriteSpec list \<Rightarrow> string list \<Rightarrow> RewriteRule list option" where
  "wildcardSpec env specs [] = None"
| "wildcardSpec env specs (l # ls) =
     (if ls = [] then None
      else if specsFor env specs (''*.'' @ join_with ''.'' ls) \<noteq> []
      then Some (specsFor env specs (''*.'' @ join_with ''.'' ls))
      else wildcardSpec env specs ls)"

lemma wildcardHit_spec:
  "wildcardHit (rw_wildcard (fold (setOne env) specs NewRewriter)) ls = wildcardSpec env specs ls"
  by (induction ls) (auto simp: rewriter_holds nonempty_def)

section \<open>Properties\<close>

text \<open>A reload replaces: what it publishes depends on the stored lists and the manual entries
  only, never on the rules the engine held before, so a list that was removed or disabled stops
  contributing.\<close>

theorem reload_replaces:
  assumes "lm_store m = lm_store m'" "e_userBlacklist (lm_engine m) = e_userBlacklist (lm_engine m')"
    "e_userWhitelist (lm_engine m) = e_userWhitelist (lm_engine m')" "lm_dir m = lm_dir m'"
    "lm_autoUpdate m = lm_autoUpdate m'"
  shows "ReloadAll env m = ReloadAll env m'"
proof -
  have r: "Reset (lm_engine m) = Reset (lm_engine m')"
    using assms(2,3) by (cases "lm_engine m"; cases "lm_engine m'") (simp add: Reset_def)
  have "m\<lparr>lm_engine := Reset (lm_engine m)\<rparr> = m'\<lparr>lm_engine := Reset (lm_engine m')\<rparr>"
    using assms(1,4,5) r by (cases m; cases m') simp
  then show ?thesis using assms(1) by (simp only: ReloadAll_def)
qed

theorem reload_replaces_witness:
  "ReloadAll plain_env (NewListManager (AddIPBlock ''10.0.0.1'' NewEngine) []) = ReloadAll plain_env (NewListManager NewEngine [])"
  by (rule reload_replaces)
     (simp_all add: NewListManager_def AddIPBlock_def Let_def publishLocked_def syncIPFlag_def)

text \<open>A reload loses the manual regular expressions: after \<^verbatim>\<open>ReloadAll\<close> every published
  regular-expression rule comes from a list, whatever the user lists hold, although its comment says
  that the user lists are untouched; at start-up and after every list refresh a manual
  \<^verbatim>\<open>/pattern/\<close> entry has no effect.\<close>

theorem reload_drops_manual_regexes:
  "filter (\<lambda>rr. rr_List rr = []) (rs_blockRegex (e_rs (lm_engine (ReloadAll env m))) @ rs_allowRegex (e_rs (lm_engine (ReloadAll env m)))) = []"
proof -
  have "list_regexes_only (Reset (lm_engine m))" by (simp add: list_regexes_only_def Reset_def)
  then have "list_regexes_only (lm_engine (fold (reloadOne env) (map (sl_Spec \<circ> snd) (lm_store m)) (m\<lparr>lm_engine := Reset (lm_engine m)\<rparr>)))"
    by (intro reload_regex) simp
  then show ?thesis by (auto simp: ReloadAll_def Let_def Compile_published list_regexes_only_def)
qed

text \<open>Taking an entry off the manual whitelist from the dashboard does not end it: the names it
  covered stay whitelisted, and so unblocked by any list, until the next full reload.\<close>

theorem whitelist_removal_lingers:
  assumes "d \<in> set (normalizeList env w)" "splitRule env d = Some (dm, False, exc)"
    "q = normalizeDomain env qname" "q = dm \<or> (\<exists>p. q = p @ ''.'' @ dm)"
    "e' = applyUserLists env b' w' (applyUserLists env b w e)" "\<not> userBlocked (e_rs e') q"
  shows "d_Action (DecideDomain env e' qname) = Allow"
proof -
  have dot: "CHR ''.'' \<in> set dm" using splitRule_dot[OF assms(2)] by simp
  let ?e = "SetUserLists env b w e"
  have "ruleOf env d = (dm, False)" by (simp add: ruleOf_def assms(2))
  then have "dm \<in> subtreeRules env (e_userWhitelist ?e)"
    using assms(1) by (auto simp: subtreeRules_def SetUserLists_def intro!: exI[of _ d])
  moreover have "e_allowDomains (Compile env ?e) = e_allowDomains ?e \<union> subtreeRules env (e_userWhitelist ?e)"
    by (simp add: Compile_def Let_def publishLocked_def syncIPFlag_def compileWhitelist_sets compileBlacklist_sets)
  ultimately have "dm \<in> rs_allowDomains (e_rs e')"
    by (simp add: assms(5) applyUserLists_def Compile_published SetUserLists_def)
  then have "whitelisted env (e_rs e') q" using covers_under[OF _ dot assms(4)] by (simp add: whitelisted_def)
  then have "d_Action (decide env (e_rs e') q) \<noteq> Block" using assms(6) by (simp add: decide_blocks)
  then show ?thesis using assms(3) Action.exhaust by (auto simp: DecideDomain_def Let_def allowed_def)
qed

theorem whitelist_removal_lingers_witness:
  "d_Action (DecideDomain plain_env (applyUserLists plain_env [] [] (applyUserLists plain_env [] [''example.com''] NewEngine)) ''x.example.com'') = Allow"
proof (rule whitelist_removal_lingers)
  show "''example.com'' \<in> set (normalizeList plain_env [''example.com''])" by code_simp
  show "splitRule plain_env ''example.com'' = Some (''example.com'', False, False)" by code_simp
  have "normalizeDomain plain_env ''x.example.com'' = ''x'' @ ''.'' @ ''example.com''" by code_simp
  then show "normalizeDomain plain_env ''x.example.com'' = ''example.com'' \<or>
     (\<exists>p. normalizeDomain plain_env ''x.example.com'' = p @ ''.'' @ ''example.com'')" by blast
  show "\<not> userBlocked (e_rs (applyUserLists plain_env [] [] (applyUserLists plain_env [] [''example.com''] NewEngine)))
      (normalizeDomain plain_env ''x.example.com'')"
    by (simp add: userBlocked_def applyUserLists_def Compile_published SetUserLists_def normalizeList_def covers_def
        List.map_filter_def)
qed (rule refl)+

text \<open>Local records answer as configured: a name gets exactly the valid records the
  configuration has for it, in order, or else those of the closest enclosing wildcard; records set
  earlier are gone.\<close>

theorem rewriter_answers_config:
  "Rewriter_Lookup env (Rewriter_Set env specs old) qname =
     (let q = normalizeDomain env qname in
      if q = [] then None
      else if exactSpecs env specs q \<noteq> [] then Some (exactSpecs env specs q)
      else wildcardSpec env specs (split_on CHR ''.'' q))"
proof -
  let ?rw = "fold (setOne env) specs NewRewriter"
  have none: "wildcardHit [] ls = None" for ls by (induction ls) auto
  have "wildcardSpec env specs ls = None" if "rw_wildcard ?rw = []" for ls
    using wildcardHit_spec[of env specs ls] none[of ls] that by simp
  then show ?thesis
    using rewriter_holds[of env specs "normalizeDomain env qname"]
    by (auto simp: Rewriter_Lookup_def Rewriter_Set_def Let_def wildcardHit_spec nonempty_def split: option.splits if_splits)
qed

end
