(* ===== verification/RangeTable.thy ===== *)
theory RangeTable
  imports NetIP
begin

text \<open>
  Sorted tables of address ranges, as \<^verbatim>\<open>internal/geoip\<close> keeps them for both address families: the
  merge of a sorted list of ranges, \<^verbatim>\<open>sort.Search\<close>, and the lookup by binary search. The functions
  take the order and the successor of the addresses as arguments; \<^verbatim>\<open>GeoTable\<close> applies them to
  \<^verbatim>\<open>uint32\<close> and to \<^verbatim>\<open>[16]byte\<close>. The locale says what the two must satisfy.
\<close>

section \<open>Functions\<close>

text \<open>The merge loop. The output slice is kept in reverse, so that its last element is the head.\<close>

fun merge_loop :: "('a \<Rightarrow> 'a \<Rightarrow> bool) \<Rightarrow> ('a \<Rightarrow> 'a) \<Rightarrow> ('a \<times> 'a) list \<Rightarrow> ('a \<times> 'a) list \<Rightarrow> ('a \<times> 'a) list" where
  "merge_loop le inc out [] = out"
| "merge_loop le inc out (r # rs) =
     (case out of
        (s, e) # out' \<Rightarrow>
          if le (fst r) (inc e)
          then merge_loop le inc ((s, if \<not> le (snd r) e then snd r else e) # out') rs
          else merge_loop le inc (r # out) rs
      | [] \<Rightarrow> merge_loop le inc [r] rs)"

definition mergeRanges :: "('a \<Rightarrow> 'a \<Rightarrow> bool) \<Rightarrow> ('a \<Rightarrow> 'a) \<Rightarrow> ('a \<times> 'a) list \<Rightarrow> ('a \<times> 'a) list" where
  "mergeRanges le inc rs = rev (merge_loop le inc [] rs)"

text \<open>\<^verbatim>\<open>sort.Search\<close>.\<close>

function search_from :: "(nat \<Rightarrow> bool) \<Rightarrow> nat \<Rightarrow> nat \<Rightarrow> nat" where
  "search_from f i j =
     (if i < j then (let h = (i + j) div 2 in if \<not> f h then search_from f (h + 1) j else search_from f i h) else i)"
  by pat_completeness auto
termination
  by (relation "measure (\<lambda>(f, i, j). j - i)") auto

declare search_from.simps [simp del]

definition Search :: "nat \<Rightarrow> (nat \<Rightarrow> bool) \<Rightarrow> nat" where
  "Search n f = search_from f 0 n"

text \<open>The lookup: the first range that ends at or after the address, if it also starts at or before it.\<close>

definition findRange :: "('a \<Rightarrow> 'a \<Rightarrow> bool) \<Rightarrow> ('a \<times> 'a) list \<Rightarrow> 'a \<Rightarrow> nat option" where
  "findRange le rs x =
     (let i = Search (length rs) (\<lambda>i. le x (snd (rs ! i)))
      in if i < length rs \<and> le (fst (rs ! i)) x then Some i else None)"

section \<open>Binary search\<close>

lemma search_steps:
  "\<not> i < j \<Longrightarrow> search_from f i j = i"
  "i < j \<Longrightarrow> f ((i + j) div 2) \<Longrightarrow> search_from f i j = search_from f i ((i + j) div 2)"
  "i < j \<Longrightarrow> \<not> f ((i + j) div 2) \<Longrightarrow> search_from f i j = search_from f ((i + j) div 2 + 1) j"
  by (simp_all only: search_from.simps[of f i j] Let_def if_True if_False not_True_eq_False not_False_eq_True)

lemma search_from_bounds: "i \<le> j \<Longrightarrow> i \<le> search_from f i j \<and> search_from f i j \<le> j"
proof (induction f i j rule: search_from.induct)
  case (1 f i j)
  consider "\<not> i < j" | "i < j" "f ((i + j) div 2)" | "i < j" "\<not> f ((i + j) div 2)" by blast
  then show ?case
  proof cases
    case 1
    then show ?thesis using "1.prems" by (simp add: search_steps(1))
  next
    case 2
    then have "i \<le> search_from f i ((i + j) div 2) \<and> search_from f i ((i + j) div 2) \<le> (i + j) div 2"
      using "1.IH"(2)[OF 2(1) refl] by simp
    then show ?thesis using search_steps(2)[of i j f, OF 2] 2(1) by linarith
  next
    case 3
    then have "(i + j) div 2 + 1 \<le> search_from f ((i + j) div 2 + 1) j \<and> search_from f ((i + j) div 2 + 1) j \<le> j"
      using "1.IH"(1)[OF 3(1) refl] by simp
    then show ?thesis using search_steps(3)[of i j f, OF 3] 3(1) by linarith
  qed
qed

lemma search_from_least:
  assumes "i \<le> j" "\<And>a b. a \<le> b \<Longrightarrow> b < n \<Longrightarrow> f a \<Longrightarrow> f b" "j \<le> n" "\<And>k. k < i \<Longrightarrow> \<not> f k" "\<And>k. j \<le> k \<Longrightarrow> k < n \<Longrightarrow> f k"
  shows "(\<forall>k < search_from f i j. \<not> f k) \<and> (search_from f i j < n \<longrightarrow> f (search_from f i j))"
  using assms
proof (induction f i j rule: search_from.induct)
  case (1 f i j)
  let ?h = "(i + j) div 2"
  consider "\<not> i < j" | "i < j" "f ?h" | "i < j" "\<not> f ?h" by blast
  then show ?case
  proof cases
    case 1
    then have "i = j" using "1.prems"(1) by simp
    then show ?thesis using "1.prems"(4,5) search_steps(1)[of i j f, OF 1] by simp
  next
    case 2
    have "(\<forall>k < search_from f i ?h. \<not> f k) \<and> (search_from f i ?h < n \<longrightarrow> f (search_from f i ?h))"
    proof (rule "1.IH"(2)[OF 2(1) refl])
      show "\<not> \<not> f ?h" using 2 by simp
      show "f k" if "?h \<le> k" "k < n" for k using "1.prems"(2)[OF that] 2(2) by simp
    qed (use "1.prems" 2 in auto)
    then show ?thesis using search_steps(2)[of i j f, OF 2] by simp
  next
    case 3
    have "(\<forall>k < search_from f (?h + 1) j. \<not> f k) \<and> (search_from f (?h + 1) j < n \<longrightarrow> f (search_from f (?h + 1) j))"
    proof (rule "1.IH"(1)[OF 3(1) refl 3(2)])
      show "\<not> f k" if "k < ?h + 1" for k
      proof -
        have "k \<le> ?h" "?h < n" using that 3(1) "1.prems"(3) by auto
        then show ?thesis using "1.prems"(2)[of k ?h] 3(2) by blast
      qed
    qed (use "1.prems" 3 in auto)
    then show ?thesis using search_steps(3)[of i j f, OF 3] by simp
  qed
qed

lemma Search_least:
  assumes "\<And>a b. a \<le> b \<Longrightarrow> b < n \<Longrightarrow> f a \<Longrightarrow> f b"
  shows "Search n f \<le> n" "k < Search n f \<Longrightarrow> \<not> f k" "Search n f < n \<Longrightarrow> f (Search n f)"
proof -
  have "(\<forall>k < search_from f 0 n. \<not> f k) \<and> (search_from f 0 n < n \<longrightarrow> f (search_from f 0 n))"
    by (rule search_from_least) (use assms in auto)
  then show "Search n f \<le> n" "k < Search n f \<Longrightarrow> \<not> f k" "Search n f < n \<Longrightarrow> f (Search n f)"
    using search_from_bounds[of 0 n f] by (auto simp: Search_def)
qed

section \<open>The contract of an address space\<close>

text \<open>
  Addresses in scope have a value below \<open>N\<close> that the order compares, and the successor adds one and
  wraps to zero at the top.
\<close>

locale addr_space =
  fixes val :: "'a \<Rightarrow> nat" and le :: "'a \<Rightarrow> 'a \<Rightarrow> bool" and inc :: "'a \<Rightarrow> 'a" and scope :: "'a \<Rightarrow> bool" and N :: nat
  assumes val_less: "scope a \<Longrightarrow> val a < N"
    and le_val: "scope a \<Longrightarrow> scope b \<Longrightarrow> le a b \<longleftrightarrow> val a \<le> val b"
    and inc_val: "scope a \<Longrightarrow> val (inc a) = (val a + 1) mod N"
    and inc_scope: "scope a \<Longrightarrow> scope (inc a)"
begin

definition range_ok :: "'a \<times> 'a \<Rightarrow> bool" where
  "range_ok r \<longleftrightarrow> scope (fst r) \<and> scope (snd r) \<and> val (fst r) \<le> val (snd r)"

definition inRange :: "'a \<Rightarrow> 'a \<times> 'a \<Rightarrow> bool" where
  "inRange x r \<longleftrightarrow> val (fst r) \<le> val x \<and> val x \<le> val (snd r)"

text \<open>Ranges in ascending order with nothing shared, as a lookup needs them.\<close>

definition disjoint_sorted :: "('a \<times> 'a) list \<Rightarrow> bool" where
  "disjoint_sorted rs \<longleftrightarrow> (\<forall>r \<in> set rs. range_ok r) \<and> sorted_wrt (\<lambda>a b. val (snd a) < val (fst b)) rs"

lemma disjoint_sorted_ends:
  assumes "disjoint_sorted rs" "i < j" "j < length rs"
  shows "val (snd (rs ! i)) < val (fst (rs ! j))" "val (snd (rs ! i)) < val (snd (rs ! j))"
proof -
  show s: "val (snd (rs ! i)) < val (fst (rs ! j))"
    using assms unfolding disjoint_sorted_def sorted_wrt_iff_nth_less by blast
  have "range_ok (rs ! j)" using assms by (simp add: disjoint_sorted_def)
  then show "val (snd (rs ! i)) < val (snd (rs ! j))" using s by (simp add: range_ok_def)
qed

lemma findRange_correct:
  assumes ds: "disjoint_sorted rs" and x: "scope x"
  shows "findRange le rs x = Some i \<Longrightarrow> i < length rs \<and> inRange x (rs ! i)"
    and "i < length rs \<Longrightarrow> inRange x (rs ! i) \<Longrightarrow> findRange le rs x = Some i"
proof -
  let ?f = "\<lambda>i. le x (snd (rs ! i))"
  let ?k = "Search (length rs) ?f"
  have f: "?f i \<longleftrightarrow> val x \<le> val (snd (rs ! i))" "le (fst (rs ! i)) x \<longleftrightarrow> val (fst (rs ! i)) \<le> val x"
    if "i < length rs" for i
    using ds x that le_val by (auto simp: disjoint_sorted_def range_ok_def)
  have mono: "?f b" if ab: "a \<le> b" "b < length rs" "?f a" for a b
  proof (cases "a = b")
    case False
    then have "val (snd (rs ! a)) < val (snd (rs ! b))" using disjoint_sorted_ends(2)[OF ds, of a b] ab by simp
    then show ?thesis using ab f(1)[of a] f(1)[of b] by simp
  qed (use ab in simp)
  have S: "\<And>k. k < ?k \<Longrightarrow> \<not> ?f k" "?k < length rs \<Longrightarrow> ?f ?k"
    using Search_least(2,3)[of "length rs" ?f] mono by blast+
  show "i < length rs \<and> inRange x (rs ! i)" if "findRange le rs x = Some i"
    using that f[of i] S(2) by (auto simp: findRange_def Let_def inRange_def split: if_splits)
  show "findRange le rs x = Some i" if i: "i < length rs" "inRange x (rs ! i)"
  proof -
    have "?f i" using f(1)[OF i(1)] i(2) by (simp add: inRange_def)
    then have "?k \<le> i" using S(1)[of i] by (meson not_le)
    moreover have "\<not> ?k < i"
    proof
      assume ki: "?k < i"
      then have "val x \<le> val (snd (rs ! ?k))" using S(2) f(1)[of ?k] i(1) by simp
      then show False using disjoint_sorted_ends(1)[OF ds ki i(1)] i(2) by (simp add: inRange_def)
    qed
    ultimately have "?k = i" by simp
    then show ?thesis using i f(2)[OF i(1)] by (simp add: findRange_def Let_def inRange_def)
  qed
qed

text \<open>The merge: from ranges sorted by their start, none of which ends at the top of the space.\<close>

definition gaps :: "('a \<times> 'a) list \<Rightarrow> bool" where
  "gaps out \<longleftrightarrow> (\<forall>r \<in> set out. range_ok r) \<and> sorted_wrt (\<lambda>a b. val (snd b) < val (fst a)) out"

lemma merge_loop_correct:
  assumes "gaps out" "\<forall>r \<in> set rs. range_ok r" "sorted_wrt (\<lambda>a b. val (fst a) \<le> val (fst b)) rs"
    "\<forall>r \<in> set (out @ rs). val (snd r) \<noteq> N - 1" "out \<noteq> [] \<longrightarrow> (\<forall>r \<in> set rs. val (fst (hd out)) \<le> val (fst r))"
  shows "gaps (merge_loop le inc out rs) \<and>
    (\<forall>x. (\<exists>r \<in> set (merge_loop le inc out rs). inRange x r) \<longleftrightarrow> (\<exists>r \<in> set (out @ rs). inRange x r))"
  using assms
proof (induction rs arbitrary: out)
  case Nil
  then show ?case by simp
next
  case (Cons r rs)
  have r: "range_ok r" using Cons.prems(2) by simp
  show ?case
  proof (cases out)
    case Nil
    have "gaps (merge_loop le inc [r] rs) \<and>
      (\<forall>x. (\<exists>r \<in> set (merge_loop le inc [r] rs). inRange x r) \<longleftrightarrow> (\<exists>r \<in> set ([r] @ rs). inRange x r))"
      by (rule Cons.IH) (use Cons.prems r Nil in \<open>auto simp: gaps_def\<close>)
    then show ?thesis using Nil by simp
  next
    case out: (Cons h out')
    obtain s e where h: "h = (s, e)" by (cases h)
    have hok: "scope s" "scope e" "val s \<le> val e" "val e \<noteq> N - 1" "val s \<le> val (fst r)"
      using Cons.prems out h by (auto simp: gaps_def range_ok_def)
    have ve: "val e < N - 1" using val_less[OF hok(2)] hok(4) by linarith
    have touch: "le (fst r) (inc e) \<longleftrightarrow> val (fst r) \<le> val e + 1"
      using le_val[of "fst r" "inc e"] inc_val[OF hok(2)] inc_scope[OF hok(2)] r ve by (simp add: range_ok_def)
    have longer: "le (snd r) e \<longleftrightarrow> val (snd r) \<le> val e" using le_val[of "snd r" e] r hok by (simp add: range_ok_def)
    show ?thesis
    proof (cases "le (fst r) (inc e)")
      case True
      let ?h = "(s, if \<not> le (snd r) e then snd r else e)"
      have hin: "inRange x ?h \<longleftrightarrow> inRange x h \<or> inRange x r" for x
        using True touch longer hok r h by (auto simp: inRange_def range_ok_def)
      have "gaps (merge_loop le inc (?h # out') rs) \<and>
        (\<forall>x. (\<exists>r \<in> set (merge_loop le inc (?h # out') rs). inRange x r) \<longleftrightarrow> (\<exists>r \<in> set ((?h # out') @ rs). inRange x r))"
        by (rule Cons.IH) (use Cons.prems out h hok r longer in \<open>auto simp: gaps_def range_ok_def\<close>)
      then show ?thesis using True out h hin by simp
    next
      case False
      have "gaps (merge_loop le inc (r # out) rs) \<and>
        (\<forall>x. (\<exists>r \<in> set (merge_loop le inc (r # out) rs). inRange x r) \<longleftrightarrow> (\<exists>r \<in> set ((r # out) @ rs). inRange x r))"
      proof (rule Cons.IH)
        have "val e < val (fst r)" using False touch by simp
        moreover have "\<forall>b \<in> set out'. val (snd b) < val s" using Cons.prems(1) out h by (auto simp: gaps_def)
        ultimately show "gaps (r # out)"
          using Cons.prems(1) out h r hok by (auto simp: gaps_def range_ok_def)
      qed (use Cons.prems in auto)
      then show ?thesis using False out h by auto
    qed
  qed
qed

lemma mergeRanges_correct:
  assumes "\<forall>r \<in> set rs. range_ok r \<and> val (snd r) \<noteq> N - 1" "sorted_wrt (\<lambda>a b. val (fst a) \<le> val (fst b)) rs"
  shows "disjoint_sorted (mergeRanges le inc rs)"
    and "(\<exists>r \<in> set (mergeRanges le inc rs). inRange x r) \<longleftrightarrow> (\<exists>r \<in> set rs. inRange x r)"
  using merge_loop_correct[of "[]" rs] assms
  by (auto simp: mergeRanges_def disjoint_sorted_def gaps_def sorted_wrt_rev)

text \<open>The whole table: merge, then look up.\<close>

lemma lookup_merged:
  assumes "\<forall>r \<in> set rs. range_ok r \<and> val (snd r) \<noteq> N - 1" "sorted_wrt (\<lambda>a b. val (fst a) \<le> val (fst b)) rs" "scope x"
  shows "findRange le (mergeRanges le inc rs) x \<noteq> None \<longleftrightarrow> (\<exists>r \<in> set rs. inRange x r)"
proof -
  note m = mergeRanges_correct[OF assms(1,2)]
  let ?m = "mergeRanges le inc rs"
  have "findRange le ?m x \<noteq> None \<longleftrightarrow> (\<exists>i < length ?m. inRange x (?m ! i))"
    using findRange_correct[OF m(1) assms(3)] by blast
  also have "\<dots> \<longleftrightarrow> (\<exists>r \<in> set ?m. inRange x r)" by (metis in_set_conv_nth)
  finally show ?thesis using m(2)[of x] by simp
qed

end

end
