(* ===== verification/GeoTable.thy ===== *)
theory GeoTable
  imports RangeTable GoEncoding
begin

text \<open>
  The address tables of \<^verbatim>\<open>internal/geoip\<close>: \<^verbatim>\<open>table.go\<close> (country and block-list ranges) and \<^verbatim>\<open>asn.go\<close>
  (ranges tagged with their network). IPv4 addresses are \<^verbatim>\<open>uint32\<close>, IPv6 addresses the 16 bytes of the
  source, compared byte by byte. \<^verbatim>\<open>slices.SortFunc\<close> is a sort by the start address; ranges with equal
  starts may come in any order.
\<close>

section \<open>Prefixes\<close>

text \<open>A \<^verbatim>\<open>netip.Prefix\<close>: address bytes (4 or 16) and prefix length.\<close>

type_synonym prefix = "IP \<times> nat"

definition Is4 :: "IP \<Rightarrow> bool" where "Is4 a \<longleftrightarrow> length a = 4"
definition Is4In6 :: "IP \<Rightarrow> bool" where "Is4In6 a \<longleftrightarrow> length a = 16 \<and> take 12 a = v4InV6Prefix"

definition Masked :: "prefix \<Rightarrow> prefix" where
  "Masked p = (map2 (AND) (fst p) (CIDRMask (int (snd p)) (8 * length (fst p))), snd p)"

text \<open>\<^verbatim>\<open>netip.ParsePrefix\<close>: the prefix length has no sign and no leading zero.\<close>

definition ParsePrefix :: "string \<Rightarrow> prefix option" where
  "ParsePrefix s =
     (case LastIndexByte s CHR ''/'' of
        None \<Rightarrow> None
      | Some i \<Rightarrow>
          (case parse_addr (take i s) of
             None \<Rightarrow> None
           | Some a \<Rightarrow>
               let b = drop (i + 1) s in
               if b = [] \<or> (length b > 1 \<and> hd b = CHR ''0'') then None
               else case dec_val 0 b of
                 None \<Rightarrow> None
               | Some n \<Rightarrow> if n > 8 * length a then None else Some (a, n)))"

definition parsePrefixLine :: "string \<Rightarrow> prefix option" where
  "parsePrefixLine line0 =
     (let line = TrimSpace line0 in
      if line = [] \<or> HasPrefix line ''#'' \<or> HasPrefix line '';'' then None
      else
        let line' = (case IndexByte line CHR ''#'' of Some i \<Rightarrow> TrimSpace (take i line) | None \<Rightarrow> line)
        in map_option Masked (ParsePrefix line'))"

section \<open>Ranges\<close>

type_synonym range4 = "32 word \<times> 32 word"
type_synonym range6 = "byte list \<times> byte list"

definition be32 :: "byte list \<Rightarrow> 32 word" where
  "be32 a = push_bit 24 (ucast (a ! 0)) OR push_bit 16 (ucast (a ! 1)) OR push_bit 8 (ucast (a ! 2)) OR ucast (a ! 3)"

definition v4Range :: "prefix \<Rightarrow> range4" where
  "v4Range p = (let start = be32 (fst p); m = push_bit (32 - snd p) (- 1) in (start AND m, start OR NOT m))"

text \<open>The byte loop of \<^verbatim>\<open>v6Range\<close>, with \<open>rem\<close> the prefix bits that are left at the byte.\<close>

fun v6_bounds :: "int \<Rightarrow> byte list \<Rightarrow> byte list \<times> byte list" where
  "v6_bounds rem [] = ([], [])"
| "v6_bounds rem (a # as) =
     (let (s, e) = v6_bounds (rem - 8) as in
      if rem \<ge> 8 then (a # s, a # e)
      else if rem > 0 then (let m = push_bit (8 - nat rem) (255 :: byte) in ((a AND m) # s, (a OR NOT m) # e))
      else (0 # s, 255 # e))"

definition v6Range :: "prefix \<Rightarrow> range6" where
  "v6Range p = v6_bounds (int (snd p)) (fst p)"

text \<open>\<^verbatim>\<open>bytes.Compare(a, b) <= 0\<close> on slices of one length.\<close>

fun bytes_le :: "byte list \<Rightarrow> byte list \<Rightarrow> bool" where
  "bytes_le [] _ = True"
| "bytes_le (a # as) [] = False"
| "bytes_le (a # as) (b # bs) = (a < b \<or> (a = b \<and> bytes_le as bs))"

text \<open>\<^verbatim>\<open>addOne128\<close>: the carry runs from the last byte up to the first that does not wrap.\<close>

fun addOne_rev :: "byte list \<Rightarrow> byte list" where
  "addOne_rev [] = []"
| "addOne_rev (a # as) = (if a + 1 \<noteq> 0 then (a + 1) # as else (a + 1) # addOne_rev as)"

definition addOne128 :: "byte list \<Rightarrow> byte list" where
  "addOne128 a = rev (addOne_rev (rev a))"

definition mergeRanges4 :: "range4 list \<Rightarrow> range4 list" where
  "mergeRanges4 rs = mergeRanges (\<le>) (\<lambda>e. e + 1) rs"

definition mergeRanges6 :: "range6 list \<Rightarrow> range6 list" where
  "mergeRanges6 rs = mergeRanges bytes_le addOne128 rs"

text \<open>Sorting by \<^verbatim>\<open>bytes.Compare\<close> on the starts: by their big-endian value.\<close>

definition be_val :: "byte list \<Rightarrow> nat" where
  "be_val bs = foldl (\<lambda>n b. n * 256 + unat b) 0 bs"

section \<open>Table\<close>

record Table =
  t_v4 :: "range4 list"
  t_v6 :: "range6 list"

definition sortMerge :: "Table \<Rightarrow> Table" where
  "sortMerge t = \<lparr>t_v4 = mergeRanges4 (sort_key fst (t_v4 t)), t_v6 = mergeRanges6 (sort_key (be_val \<circ> fst) (t_v6 t))\<rparr>"

definition LoadTable :: "string \<Rightarrow> string \<Rightarrow> Table" where
  "LoadTable ipv4 ipv6 =
     (let lines = (\<lambda>s. List.map_filter parsePrefixLine (split_on (CHR 0x0A) s)) in
      sortMerge \<lparr>t_v4 = map v4Range (filter (\<lambda>p. Is4 (fst p)) (lines ipv4)),
                 t_v6 = map v6Range (filter (\<lambda>p. \<not> Is4 (fst p) \<and> \<not> Is4In6 (fst p)) (lines ipv6))\<rparr>)"

text \<open>\<^verbatim>\<open>IPMask.Size\<close>: the leading ones and the total bits, or 0, 0 for a mask that is not canonical.\<close>

definition Mask_Size :: "byte list \<Rightarrow> nat \<times> nat" where
  "Mask_Size m =
     (let bits = 8 * length m in
      case List.find (\<lambda>n. CIDRMask (int n) bits = m) [0..<bits + 1] of
        Some n \<Rightarrow> if m = [] then (0, 0) else (n, bits)
      | None \<Rightarrow> (0, 0))"

definition NewTableFromIPNets :: "IPNet list \<Rightarrow> Table" where
  "NewTableFromIPNets nets =
     sortMerge \<lparr>
       t_v4 = List.map_filter (\<lambda>n. let (ones, bits) = Mask_Size (net_Mask n); a = To4 (net_IP n) in
                 if bits = 32 \<and> a \<noteq> [] then Some (v4Range (Masked (a, ones))) else None) nets,
       t_v6 = List.map_filter (\<lambda>n. let (ones, bits) = Mask_Size (net_Mask n); a = To16 (net_IP n) in
                 if bits = 128 \<and> a \<noteq> [] then Some (v6Range (Masked (a, ones))) else None) nets\<rparr>"

text \<open>A nil or malformed address is copied into a zeroed array.\<close>

definition as16 :: "IP \<Rightarrow> byte list" where
  "as16 ip = (if To16 ip = [] then replicate 16 0 else To16 ip)"

definition Table_Contains :: "Table \<Rightarrow> IP \<Rightarrow> bool" where
  "Table_Contains t ip =
     (if To4 ip \<noteq> [] then findRange (\<le>) (t_v4 t) (be32 (To4 ip)) \<noteq> None
      else findRange bytes_le (t_v6 t) (as16 ip) \<noteq> None)"

section \<open>ASNTable\<close>

record ASNTable =
  a_v4 :: "(range4 \<times> 32 word) list"
  a_v6 :: "(range6 \<times> 32 word) list"

text \<open>\<^verbatim>\<open>strconv.ParseUint(s, 10, 32)\<close>.\<close>

definition ParseUint32 :: "string \<Rightarrow> 32 word option" where
  "ParseUint32 s = (if s = [] then None else case dec_val 0 s of None \<Rightarrow> None | Some n \<Rightarrow> if n < 2 ^ 32 then Some (of_nat n) else None)"

definition parseIP2ASNLine :: "string \<Rightarrow> (IP \<times> IP \<times> 32 word) option" where
  "parseIP2ASNLine line =
     (let f = Fields line in
      if length f < 3 then None
      else case (parse_addr (f ! 0), parse_addr (f ! 1)) of
        (Some s, Some e) \<Rightarrow>
          (if Is4 s \<noteq> Is4 e then None
           else case ParseUint32 (f ! 2) of
             None \<Rightarrow> None
           | Some n \<Rightarrow> if n = 0 then None else Some (s, e, n))
      | _ \<Rightarrow> None)"

definition addr4 :: "IP \<Rightarrow> 32 word" where "addr4 a = be32 a"

text \<open>Which of the two tables a line goes to: the allow side first.\<close>

datatype asn_side = AllowSide | BlockSide | NoSide

definition asnSide :: "(32 word \<Rightarrow> bool) \<Rightarrow> (32 word \<Rightarrow> bool) \<Rightarrow> 32 word \<Rightarrow> asn_side" where
  "asnSide allow block asn = (if allow asn then AllowSide else if block asn then BlockSide else NoSide)"

definition asnLines :: "string \<Rightarrow> (IP \<times> IP \<times> 32 word) list" where
  "asnLines content = List.map_filter parseIP2ASNLine (split_on (CHR 0x0A) content)"

definition asnTableOf :: "(32 word \<Rightarrow> bool) \<Rightarrow> string \<Rightarrow> string \<Rightarrow> ASNTable" where
  "asnTableOf keep ipv4 ipv6 =
     \<lparr>a_v4 = sort_key (fst \<circ> fst) (List.map_filter (\<lambda>(s, e, n). if keep n \<and> Is4 s then Some ((addr4 s, addr4 e), n) else None) (asnLines ipv4)),
      a_v6 = sort_key (be_val \<circ> fst \<circ> fst) (List.map_filter (\<lambda>(s, e, n). if keep n \<and> \<not> Is4 s \<and> \<not> Is4In6 s then Some ((s, e), n) else None) (asnLines ipv6))\<rparr>"

definition LoadASNTables :: "string \<Rightarrow> string \<Rightarrow> (32 word \<Rightarrow> bool) \<Rightarrow> (32 word \<Rightarrow> bool) \<Rightarrow> ASNTable \<times> ASNTable" where
  "LoadASNTables ipv4 ipv6 allow block =
     (asnTableOf (\<lambda>n. asnSide allow block n = AllowSide) ipv4 ipv6,
      asnTableOf (\<lambda>n. asnSide allow block n = BlockSide) ipv4 ipv6)"

definition ASNTable_Lookup :: "ASNTable \<Rightarrow> IP \<Rightarrow> 32 word option" where
  "ASNTable_Lookup t ip =
     (if To4 ip \<noteq> [] then map_option (\<lambda>i. snd (a_v4 t ! i)) (findRange (\<le>) (map fst (a_v4 t)) (be32 (To4 ip)))
      else map_option (\<lambda>i. snd (a_v6 t ! i)) (findRange bytes_le (map fst (a_v6 t)) (as16 ip)))"

definition ASNTable_Contains :: "ASNTable \<Rightarrow> IP \<Rightarrow> bool" where
  "ASNTable_Contains t ip = (ASNTable_Lookup t ip \<noteq> None)"

definition ParseASN :: "string \<Rightarrow> 32 word option" where
  "ParseASN s0 =
     (let s = TrimPrefix (ToUpper (TrimSpace s0)) ''AS'' in
      case ParseUint32 s of None \<Rightarrow> None | Some n \<Rightarrow> if n = 0 then None else Some n)"

section \<open>Expansion into prefixes\<close>

text \<open>The inner loop of \<^verbatim>\<open>cidrs4\<close> halves the block until it fits.\<close>

partial_function (option) shrink4 :: "32 word \<Rightarrow> 32 word \<Rightarrow> 32 word \<Rightarrow> 32 word option" where
  "shrink4 start hi blk = (if start + blk - 1 > hi then shrink4 start hi (drop_bit 1 blk) else Some blk)"

definition TrailingZeros32 :: "32 word \<Rightarrow> nat" where
  "TrailingZeros32 x = length (takeWhile (\<lambda>i. \<not> bit x i) [0..<32])"

text \<open>\<^verbatim>\<open>cidrs4\<close>: the prefixes as address and length; a loop that does not end has no value.\<close>

partial_function (option) cidrs4 :: "32 word \<Rightarrow> 32 word \<Rightarrow> (32 word \<times> nat) list option" where
  "cidrs4 start hi =
     (if start \<le> hi then
        (let blk = start AND - start; blk0 = (if blk = 0 then push_bit 31 1 else blk) in
         Option.bind (shrink4 start hi blk0) (\<lambda>sz.
           Option.bind (cidrs4 (start + sz) hi) (\<lambda>ps. Some ((start, 32 - TrailingZeros32 sz) # ps))))
      else Some [])"

section \<open>Membership in one prefix\<close>

lemma drop_bit_mono: "a \<le> b \<Longrightarrow> drop_bit k a \<le> drop_bit k (b :: 'a::len word)"
  using div_le_mono[of "unat a" "unat b" "2 ^ k"]
  by (simp only: word_le_nat_alt unat_drop_bit_eq drop_bit_eq_div[of k "unat a"] drop_bit_eq_div[of k "unat b"])

lemma byte_255: "(255 :: byte) = - 1"
  by simp

lemma block_bounds:
  fixes a x :: "'a::len word"
  shows "a AND NOT (mask k) \<le> x \<and> x \<le> a OR mask k \<longleftrightarrow> drop_bit k x = drop_bit k a"
proof
  assume le: "a AND NOT (mask k) \<le> x \<and> x \<le> a OR mask k"
  have "drop_bit k (a AND NOT (mask k)) = drop_bit k a" "drop_bit k (a OR mask k) = drop_bit k a"
    by (rule bit_word_eqI; auto simp: bit_simps dest: bit_imp_le_length)+
  then show "drop_bit k x = drop_bit k a"
    using drop_bit_mono[of "a AND NOT (mask k)" x k] drop_bit_mono[of x "a OR mask k" k] le by simp
next
  assume eq: "drop_bit k x = drop_bit k a"
  have bits: "bit x n = bit a n" if "k \<le> n" for n
    using arg_cong[OF eq, of "\<lambda>w. bit w (n - k)"] that by (simp add: bit_simps)
  have "a AND NOT (mask k) = x AND NOT (mask k)" "a OR mask k = x OR mask k"
    by (rule bit_word_eqI; use bits in \<open>auto simp: bit_simps\<close>)+
  then show "a AND NOT (mask k) \<le> x \<and> x \<le> a OR mask k"
    by (simp add: word_and_le2 le_word_or2)
qed

definition in4 :: "32 word \<Rightarrow> prefix \<Rightarrow> bool" where
  "in4 x p \<longleftrightarrow> drop_bit (32 - snd p) x = drop_bit (32 - snd p) (be32 (fst p))"

lemma push_bit_minus_one_word: "push_bit k (- 1) = NOT (mask k :: 'a::len word)"
  by (rule bit_word_eqI) (auto simp: bit_simps)

lemma v4Range_in: "fst (v4Range p) \<le> x \<and> x \<le> snd (v4Range p) \<longleftrightarrow> in4 x p"
  using block_bounds[of "be32 (fst p)" "32 - snd p" x] by (simp add: v4Range_def in4_def Let_def push_bit_minus_one_word)

fun in6 :: "int \<Rightarrow> byte list \<Rightarrow> byte list \<Rightarrow> bool" where
  "in6 rem (x # xs) (a # as) =
     (if rem \<ge> 8 then x = a \<and> in6 (rem - 8) xs as
      else if rem > 0 then drop_bit (8 - nat rem) x = drop_bit (8 - nat rem) a
      else True)"
| "in6 rem _ _ = True"

lemma v6_bounds_length: "length (fst (v6_bounds rem as)) = length as \<and> length (snd (v6_bounds rem as)) = length as"
  by (induction rem as rule: v6_bounds.induct) (auto simp: Let_def split: prod.splits)

lemma v6_bounds_all: "rem \<le> 0 \<Longrightarrow> v6_bounds rem as = (replicate (length as) 0, replicate (length as) 255)"
  by (induction as arbitrary: rem) auto

lemma bytes_le_zero: "length xs = n \<Longrightarrow> bytes_le (replicate n 0) xs"
  by (induction xs arbitrary: n) (auto simp: word_neq_0_conv)

lemma bytes_le_max: "length xs = n \<Longrightarrow> bytes_le xs (replicate n 255)"
proof (induction xs arbitrary: n)
  case (Cons x xs)
  have "x \<le> 255" unfolding byte_255 by (rule word_n1_ge)
  then show ?case using Cons by (auto simp: order.order_iff_strict)
qed simp

lemma byte_block: "0 < r \<Longrightarrow> r < 8 \<Longrightarrow>
    a AND push_bit (8 - r) 255 \<le> x \<and> x \<le> a OR NOT (push_bit (8 - r) 255) \<longleftrightarrow> drop_bit (8 - r) x = drop_bit (8 - r) (a :: byte)"
  using block_bounds[of a "8 - r" x] unfolding byte_255 push_bit_minus_one_word by simp

lemma v6_bounds_in:
  "length xs = length as \<Longrightarrow>
   bytes_le (fst (v6_bounds rem as)) xs \<and> bytes_le xs (snd (v6_bounds rem as)) \<longleftrightarrow> in6 rem xs as"
proof (induction rem as arbitrary: xs rule: v6_bounds.induct)
  case (2 rem a as)
  obtain x xs' where xs: "xs = x # xs'" "length xs' = length as" using "2.prems" by (cases xs) auto
  obtain s e where se: "v6_bounds (rem - 8) as = (s, e)" by fastforce
  have IH: "bytes_le s xs' \<and> bytes_le xs' e \<longleftrightarrow> in6 (rem - 8) xs' as" using "2.IH"[of xs'] xs se by simp
  consider "rem \<ge> 8" | "0 < rem" "rem < 8" | "rem \<le> 0" by linarith
  then show ?case
  proof cases
    case 1
    then show ?thesis using IH xs se by auto
  next
    case 2
    then have "s = replicate (length as) 0" "e = replicate (length as) 255" using se v6_bounds_all[of "rem - 8" as] by auto
    then have r: "bytes_le s xs'" "bytes_le xs' e" using xs by (simp_all add: bytes_le_zero bytes_le_max)
    have "0 < nat rem" "nat rem < 8" using 2 by auto
    note blk = byte_block[OF this, of a x]
    have "v6_bounds rem (a # as) =
        ((a AND push_bit (8 - nat rem) 255) # s, (a OR NOT (push_bit (8 - nat rem) 255)) # e)"
      using 2 se by (simp add: Let_def)
    then show ?thesis using 2 xs r blk by (simp only: bytes_le.simps fst_conv snd_conv in6.simps order.order_iff_strict) auto
  next
    case 3
    then have "v6_bounds rem (a # as) = (replicate (length (a # as)) 0, replicate (length (a # as)) 255)"
      by (rule v6_bounds_all)
    then show ?thesis using 3 xs bytes_le_zero[of xs] bytes_le_max[of xs] by simp
  qed
qed simp

section \<open>The two address spaces\<close>

lemma foldl_be: "foldl (\<lambda>n b. n * 256 + unat (b :: byte)) m bs = m * 256 ^ length bs + be_val bs"
proof (induction bs arbitrary: m)
  case (Cons b bs)
  show ?case using Cons[of "m * 256 + unat b"] Cons[of "unat b"] by (simp add: be_val_def algebra_simps)
qed (simp add: be_val_def)

lemma be_val_Cons: "be_val (b # bs) = unat b * 256 ^ length bs + be_val bs"
  using foldl_be[of "unat b" bs] by (simp add: be_val_def)

lemma be_val_snoc: "be_val (bs @ [b]) = be_val bs * 256 + unat b"
  by (simp add: be_val_def)

lemma byte_less: "unat (b :: byte) < 256"
  using unsigned_less[of b] by simp

lemma be_val_less: "be_val bs < 256 ^ length bs"
proof (induction bs)
  case (Cons b bs)
  have "unat b * 256 ^ length bs + be_val bs < (unat b + 1) * 256 ^ length bs" using Cons by (simp add: algebra_simps)
  also have "\<dots> \<le> 256 * 256 ^ length bs" using byte_less[of b] by (intro mult_right_mono) auto
  finally show ?case by (simp add: be_val_Cons)
qed (simp add: be_val_def)

lemma bytes_le_val: "length as = length bs \<Longrightarrow> bytes_le as bs \<longleftrightarrow> be_val as \<le> be_val bs"
proof (induction as bs rule: bytes_le.induct)
  case (3 a as b bs)
  have len: "length as = length bs" using 3 by simp
  let ?w = "256 ^ length bs"
  have lt: "be_val as < ?w" "be_val bs < ?w" using be_val_less[of as] be_val_less[of bs] len by auto
  have less: "u * ?w + p < v * ?w + q" if "u < v" "p < ?w" for u v p q :: nat
  proof -
    have "u * ?w + p < (u + 1) * ?w" using that by simp
    also have "\<dots> \<le> v * ?w" using that by (intro mult_right_mono) auto
    finally show ?thesis by simp
  qed
  consider "unat a < unat b" | "unat a = unat b" | "unat b < unat a" by linarith
  then show ?case
  proof cases
    case 1
    then show ?thesis using less[OF 1 lt(1), of "be_val bs"] len by (simp add: be_val_Cons word_less_nat_alt)
  next
    case 2
    then have "a = b" by (simp add: word_unat_eq_iff)
    then show ?thesis using 3 len by (simp add: be_val_Cons)
  next
    case 3
    then show ?thesis using less[OF 3 lt(2), of "be_val as"] len by (auto simp: be_val_Cons word_less_nat_alt)
  qed
qed (auto simp: be_val_def)

lemma byte_inc: "unat (b + 1 :: byte) = (if b + 1 = 0 then 0 else unat b + 1)" "b + 1 = 0 \<longleftrightarrow> unat b = 255"
proof -
  have "unat (b + 1) = (unat b + 1) mod 256" by (simp add: unat_word_ariths)
  then show "unat (b + 1 :: byte) = (if b + 1 = 0 then 0 else unat b + 1)" "b + 1 = 0 \<longleftrightarrow> unat b = 255"
    using byte_less[of b] by (auto simp: unat_eq_zero mod_Suc split: if_splits)
qed

lemma addOne_rev_length [simp]: "length (addOne_rev as) = length as"
  by (induction as) auto

lemma addOne_rev_val: "be_val (rev (addOne_rev as)) = (be_val (rev as) + 1) mod 256 ^ length as"
proof (induction as)
  case (Cons a as)
  let ?n = "256 ^ length as :: nat" and ?v = "be_val (rev as)"
  have v: "?v < ?n" using be_val_less[of "rev as"] by simp
  show ?case
  proof (cases "a + 1 = 0")
    case True
    then have a: "unat a = 255" by (simp add: byte_inc)
    have "(?v * 256 + 255 + 1) mod (256 * ?n) = ((?v + 1) mod ?n) * 256"
      using mod_mult_mult2[of "?v + 1" 256 ?n] by (simp add: algebra_simps)
    then show ?thesis using True Cons a by (simp add: be_val_snoc)
  next
    case False
    then have "?v * 256 + unat a + 1 < 256 * ?n"
    proof -
      have "unat a + 1 < 256" using False byte_less[of a] byte_inc(2)[of a] by linarith
      moreover have "(?v + 1) * 256 \<le> ?n * 256" using v by (intro mult_right_mono) auto
      ultimately show ?thesis by simp
    qed
    then show ?thesis using False by (simp add: be_val_snoc byte_inc(1))
  qed
qed (simp add: be_val_def)

interpretation v4s: addr_space "unat :: 32 word \<Rightarrow> nat" "(\<le>)" "\<lambda>e. e + 1" "\<lambda>_. True" "2 ^ 32"
proof
  fix a b :: "32 word"
  show "unat a < 2 ^ 32" using unsigned_less[of a] by simp
  show "(a \<le> b) = (unat a \<le> unat b)" by (rule word_le_nat_alt)
  show "unat (a + 1) = (unat a + 1) mod 2 ^ 32" by (simp add: unat_word_ariths)
qed simp

interpretation v6s: addr_space be_val bytes_le addOne128 "\<lambda>a. length a = 16" "2 ^ 128"
proof
  fix a b :: "byte list"
  show "length a = 16 \<Longrightarrow> be_val a < 2 ^ 128" using be_val_less[of a] by simp
  show "length a = 16 \<Longrightarrow> length b = 16 \<Longrightarrow> bytes_le a b = (be_val a \<le> be_val b)" by (simp add: bytes_le_val)
  show "length a = 16 \<Longrightarrow> be_val (addOne128 a) = (be_val a + 1) mod 2 ^ 128"
    using addOne_rev_val[of "rev a"] by (simp add: addOne128_def)
  show "length a = 16 \<Longrightarrow> length (addOne128 a) = 16" by (simp add: addOne128_def)
qed

section \<open>Tables answer for their prefixes\<close>

lemma v4Range_ok: "v4s.range_ok (v4Range p)"
proof -
  have "in4 (be32 (fst p)) p" by (simp add: in4_def)
  then have "fst (v4Range p) \<le> be32 (fst p) \<and> be32 (fst p) \<le> snd (v4Range p)" by (simp only: v4Range_in)
  then show ?thesis using order_trans[of "fst (v4Range p)" "be32 (fst p)" "snd (v4Range p)"]
    by (simp add: v4s.range_ok_def word_le_nat_alt)
qed

lemma in6_self: "in6 rem as as"
  by (induction rem as rule: v6_bounds.induct) auto

lemma v6Range_ok:
  assumes "length (fst p) = 16" shows "v6s.range_ok (v6Range p)"
proof -
  have "bytes_le (fst (v6Range p)) (fst p) \<and> bytes_le (fst p) (snd (v6Range p))"
    using v6_bounds_in[of "fst p" "fst p" "int (snd p)"] in6_self by (simp add: v6Range_def)
  then show ?thesis
    using assms v6_bounds_length[of "int (snd p)" "fst p"]
    by (auto simp: v6s.range_ok_def v6Range_def bytes_le_val)
qed

lemma sort_key_sorted_wrt: "sorted_wrt (\<lambda>a b. f a \<le> f b) (sort_key f xs)"
  using sorted_sort_key[of f xs] by (simp add: sorted_map)

lemma table4_contains:
  assumes "\<forall>p \<in> set ps. snd (v4Range p) \<noteq> - 1"
  shows "findRange (\<le>) (mergeRanges4 (sort_key fst (map v4Range ps))) x \<noteq> None \<longleftrightarrow> (\<exists>p \<in> set ps. in4 x p)"
proof -
  let ?rs = "sort_key fst (map v4Range ps)"
  have top: "unat w \<noteq> 2 ^ 32 - 1" if "w \<noteq> - 1" for w :: "32 word"
  proof
    assume "unat w = 2 ^ 32 - 1"
    then have "unat w = unat (- 1 :: 32 word)" by (simp add: unsigned_minus_1_eq_mask mask_eq_exp_minus_1)
    then show False using that by (metis word_unat_eq_iff)
  qed
  have "\<forall>r \<in> set ?rs. v4s.range_ok r \<and> unat (snd r) \<noteq> 2 ^ 32 - 1"
    using assms v4Range_ok top by auto
  moreover have "sorted_wrt (\<lambda>a b. unat (fst a) \<le> unat (fst b)) ?rs"
    using sort_key_sorted_wrt[of fst "map v4Range ps"] by (simp add: word_le_nat_alt)
  ultimately have "findRange (\<le>) (mergeRanges4 ?rs) x \<noteq> None \<longleftrightarrow> (\<exists>r \<in> set ?rs. v4s.inRange x r)"
    unfolding mergeRanges4_def by (intro v4s.lookup_merged) auto
  also have "\<dots> \<longleftrightarrow> (\<exists>p \<in> set ps. in4 x p)"
    using v4Range_in[of _ x] by (auto simp: v4s.inRange_def word_le_nat_alt)
  finally show ?thesis .
qed

lemma bytes_le_antisym: "length as = length bs \<Longrightarrow> bytes_le as bs \<Longrightarrow> bytes_le bs as \<Longrightarrow> as = bs"
  by (induction as bs rule: bytes_le.induct) (auto dest: order.asym)

lemma be_val_max: "length bs = 16 \<Longrightarrow> be_val bs = 2 ^ 128 - 1 \<Longrightarrow> bs = replicate 16 255"
proof -
  assume bs: "length bs = 16" "be_val bs = 2 ^ 128 - 1"
  have le: "length as = 16 \<Longrightarrow> be_val as \<le> be_val bs" for as using be_val_less[of as] bs by simp
  show ?thesis
  proof (rule bytes_le_antisym)
    show "length bs = length (replicate 16 (255 :: byte))" using bs by simp
    show "bytes_le bs (replicate 16 255)" using bytes_le_max[OF bs(1)] .
    show "bytes_le (replicate 16 255) bs" using bytes_le_val[of "replicate 16 255" bs] le[of "replicate 16 255"] bs(1) by simp
  qed
qed

lemma table6_contains:
  assumes "\<forall>p \<in> set ps. length (fst p) = 16 \<and> snd (v6Range p) \<noteq> replicate 16 255" "length x = 16"
  shows "findRange bytes_le (mergeRanges6 (sort_key (be_val \<circ> fst) (map v6Range ps))) x \<noteq> None \<longleftrightarrow>
    (\<exists>p \<in> set ps. in6 (int (snd p)) x (fst p))"
proof -
  let ?rs = "sort_key (be_val \<circ> fst) (map v6Range ps)"
  have "\<forall>r \<in> set ?rs. v6s.range_ok r \<and> be_val (snd r) \<noteq> 2 ^ 128 - 1"
  proof
    fix r assume "r \<in> set ?rs"
    then obtain p where p: "p \<in> set ps" "r = v6Range p" by auto
    then have "v6s.range_ok r" using v6Range_ok assms(1) by blast
    moreover have "length (snd r) = 16" using calculation by (simp add: v6s.range_ok_def)
    ultimately show "v6s.range_ok r \<and> be_val (snd r) \<noteq> 2 ^ 128 - 1"
      using be_val_max[of "snd r"] p assms(1) by blast
  qed
  moreover have "sorted_wrt (\<lambda>a b. be_val (fst a) \<le> be_val (fst b)) ?rs"
    using sort_key_sorted_wrt[of "be_val \<circ> fst" "map v6Range ps"] by simp
  ultimately have "findRange bytes_le (mergeRanges6 ?rs) x \<noteq> None \<longleftrightarrow> (\<exists>r \<in> set ?rs. v6s.inRange x r)"
    unfolding mergeRanges6_def using assms(2) by (intro v6s.lookup_merged) auto
  also have "\<dots> \<longleftrightarrow> (\<exists>p \<in> set ps. v6s.inRange x (v6Range p))" by auto
  also have "\<dots> \<longleftrightarrow> (\<exists>p \<in> set ps. in6 (int (snd p)) x (fst p))"
  proof (rule bex_cong[OF refl])
    fix p assume "p \<in> set ps"
    then have len: "length (fst p) = 16" using assms(1) by simp
    then show "v6s.inRange x (v6Range p) = in6 (int (snd p)) x (fst p)"
      using v6_bounds_in[of x "fst p" "int (snd p)"] v6_bounds_length[of "int (snd p)" "fst p"] assms(2)
      by (simp add: v6s.inRange_def v6Range_def bytes_le_val)
  qed
  finally show ?thesis .
qed

section \<open>The prefixes of a range\<close>

text \<open>The lowest set bit of a non-zero word.\<close>

lemma lowest_bit:
  fixes x :: "32 word"
  assumes "x \<noteq> 0"
  obtains k where "k < 32" "x AND - x = 2 ^ k" "2 ^ k dvd unat x"
proof -
  define k where "k = (LEAST n. bit x n)"
  have "\<exists>n. bit x n" using assms by (metis bit_eq_iff bit_0_eq bot_apply bot_bool_def)
  then have bk: "bit x k" unfolding k_def by (rule LeastI_ex)
  have low: "\<not> bit x n" if "n < k" for n using that unfolding k_def by (rule not_less_Least)
  have k: "k < 32" using bit_imp_le_length[OF bk] by simp
  define y where "y = drop_bit k x"
  have x: "x = push_bit k y"
  proof (rule bit_word_eqI)
    fix n assume "n < LENGTH(32)"
    then show "bit x n = bit (push_bit k y) n" using low[of n] by (cases "n < k") (auto simp: y_def bit_simps)
  qed
  have odd: "odd y" using bk by (simp add: y_def even_drop_bit_iff_not_bit)
  have "- y = NOT (y - 1)" by (simp add: minus_eq_not_minus_1)
  also have "y - 1 = y XOR 1" using odd by (simp add: xor_one_eq)
  finally have "y AND - y = 1"
    by (intro bit_word_eqI) (use odd in \<open>auto simp: bit_simps bit_0\<close>)
  then have "x AND - x = push_bit k 1"
    unfolding x by (simp flip: push_bit_minus push_bit_and)
  then have "x AND - x = 2 ^ k" by (simp add: push_bit_eq_mult)
  moreover have "unat x mod 2 ^ k = 0"
  proof -
    have "take_bit k x = 0" by (rule bit_word_eqI) (use low in \<open>auto simp: bit_simps\<close>)
    then have "take_bit k (unat x) = 0" by (metis unsigned_take_bit_eq unsigned_0)
    then show ?thesis by (simp add: take_bit_eq_mod)
  qed
  ultimately show thesis using that[OF k] by auto
qed

lemma unat_of_nat32: "n < 2 ^ 32 \<Longrightarrow> unat (of_nat n :: 32 word) = n"
  by (simp add: unat_of_nat)

lemma unat_2p32: "k < 32 \<Longrightarrow> unat (2 ^ k :: 32 word) = 2 ^ k"
  using unat_of_nat32[of "2 ^ k"] power_strict_increasing[of k 32 "2 :: nat"] by simp

lemma unat_block:
  assumes "k < 32" "unat s + 2 ^ k \<le> 2 ^ 32"
  shows "unat (s + 2 ^ k - 1 :: 32 word) = unat s + 2 ^ k - 1"
    and "unat s + 2 ^ k < 2 ^ 32 \<Longrightarrow> unat (s + 2 ^ k :: 32 word) = unat s + 2 ^ k"
proof -
  have "s + 2 ^ k - 1 = of_nat (unat s + 2 ^ k - 1)" by (simp add: of_nat_diff Suc_leI)
  then show "unat (s + 2 ^ k - 1 :: 32 word) = unat s + 2 ^ k - 1"
    using unat_of_nat32[of "unat s + 2 ^ k - 1"] assms by (simp del: of_nat_diff of_nat_add)
  have "s + 2 ^ k = of_nat (unat s + 2 ^ k)" by simp
  then show "unat (s + 2 ^ k :: 32 word) = unat s + 2 ^ k" if "unat s + 2 ^ k < 2 ^ 32"
    using unat_of_nat32[OF that] by (simp del: of_nat_add)
qed

lemma aligned_fits: "2 ^ k dvd n \<Longrightarrow> n < 2 ^ 32 \<Longrightarrow> k \<le> 32 \<Longrightarrow> n + 2 ^ k \<le> (2 ^ 32 :: nat)"
proof -
  assume a: "2 ^ k dvd n" "n < 2 ^ 32" "k \<le> 32"
  have "(2::nat) ^ k dvd 2 ^ 32" using a(3) by (rule le_imp_power_dvd)
  then have "2 ^ k dvd (2 ^ 32 - n)" using a(1) by (rule dvd_diff_nat)
  then have "2 ^ k \<le> 2 ^ 32 - n" by (rule dvd_imp_le) (use a(2) in simp)
  then show ?thesis using a(2) by linarith
qed

lemma shrink4_correct:
  assumes "k < 32" "2 ^ k dvd unat s" "s \<le> h"
  shows "\<exists>j \<le> k. shrink4 s h (2 ^ k) = Some (2 ^ j) \<and> unat s + 2 ^ j - 1 \<le> unat h"
  using assms
proof (induction k)
  case 0
  then have "\<not> s > h" by simp
  then show ?case using 0 by (subst shrink4.simps) (simp add: word_le_nat_alt)
next
  case (Suc k)
  have fit: "unat s + 2 ^ Suc k \<le> 2 ^ 32" by (rule aligned_fits) (use Suc.prems unsigned_less[of s] in auto)
  show ?case
  proof (cases "s + 2 ^ Suc k - 1 > h")
    case True
    have half: "drop_bit 1 (2 ^ Suc k :: 32 word) = 2 ^ k"
      by (rule bit_word_eqI) (use Suc.prems in \<open>auto simp: bit_simps\<close>)
    have "2 ^ k dvd unat s" using Suc.prems(2) by (rule dvd_trans[rotated]) (simp add: le_imp_power_dvd)
    then obtain j where "j \<le> k" "shrink4 s h (2 ^ k) = Some (2 ^ j)" "unat s + 2 ^ j - 1 \<le> unat h"
      using Suc by auto
    then show ?thesis using True half by (subst shrink4.simps) (auto intro!: exI[of _ j])
  next
    case False
    then have "unat s + 2 ^ Suc k - 1 \<le> unat h"
      using unat_block(1)[OF Suc.prems(1) fit] by (simp add: word_le_nat_alt not_less)
    then show ?thesis using False by (subst shrink4.simps) auto
  qed
qed

lemma TrailingZeros_2p: "k < 32 \<Longrightarrow> TrailingZeros32 (2 ^ k) = k"
proof -
  assume k: "k < 32"
  have "[0..<32] = [0..<k] @ [k..<32]" using k upt_add_eq_append[of 0 k "32 - k"] by simp
  moreover have "[k..<32] = k # [Suc k..<32]" using k by (rule upt_conv_Cons)
  moreover have "\<forall>i \<in> set [0..<k]. \<not> bit (2 ^ k :: 32 word) i" by (auto simp: bit_simps)
  moreover have "bit (2 ^ k :: 32 word) k" using k by (simp add: bit_simps)
  ultimately have "takeWhile (\<lambda>i. \<not> bit (2 ^ k :: 32 word) i) [0..<32] = [0..<k]"
    using takeWhile_append2[of "[0..<k]" "\<lambda>i. \<not> bit (2 ^ k :: 32 word) i" "k # [Suc k..<32]"] by auto
  then show ?thesis by (simp add: TrailingZeros32_def)
qed

lemma aligned_block:
  fixes x s :: "32 word"
  assumes "j < 32" "2 ^ j dvd unat s"
  shows "drop_bit j x = drop_bit j s \<longleftrightarrow> unat s \<le> unat x \<and> unat x < unat s + 2 ^ j"
proof -
  obtain q where q: "unat s = 2 ^ j * q" using assms(2) by blast
  have "drop_bit j x = drop_bit j s \<longleftrightarrow> unat x div 2 ^ j = unat s div 2 ^ j"
    by (simp only: word_unat_eq_iff unat_drop_bit_eq drop_bit_eq_div[of j "unat x"] drop_bit_eq_div[of j "unat s"])
  also have "\<dots> \<longleftrightarrow> unat x div 2 ^ j = q" using q by simp
  also have "\<dots> \<longleftrightarrow> 2 ^ j * q \<le> unat x \<and> unat x < 2 ^ j * q + 2 ^ j"
  proof
    assume "unat x div 2 ^ j = q"
    then have "unat x = 2 ^ j * q + unat x mod 2 ^ j" by (metis mult_div_mod_eq)
    then show "2 ^ j * q \<le> unat x \<and> unat x < 2 ^ j * q + 2 ^ j"
      by (metis add_less_cancel_left le_add1 mod_less_divisor zero_less_numeral zero_less_power)
  qed (auto intro!: div_nat_eqI simp: mult.commute)
  finally show ?thesis using q by simp
qed

text \<open>The addresses a list of prefixes covers, and how many they are.\<close>

definition covered4 :: "(32 word \<times> nat) list \<Rightarrow> 32 word \<Rightarrow> bool" where
  "covered4 ps x \<longleftrightarrow> (\<exists>(a, n) \<in> set ps. drop_bit (32 - n) x = drop_bit (32 - n) a)"

definition total4 :: "(32 word \<times> nat) list \<Rightarrow> nat" where
  "total4 ps = (\<Sum>(a, n) \<leftarrow> ps. 2 ^ (32 - n))"

lemma first_block:
  assumes "s \<le> h"
  obtains j where "j < 32" "2 ^ j dvd unat s" "unat s + 2 ^ j - 1 \<le> unat h"
    "shrink4 s h (if s AND - s = 0 then push_bit 31 1 else s AND - s) = Some (2 ^ j)"
proof -
  obtain k where k: "k < 32" "2 ^ k dvd unat s" "(if s AND - s = 0 then push_bit 31 1 else s AND - s) = 2 ^ k"
  proof (cases "s = 0")
    case True
    then show thesis using that[of 31] by (simp add: push_bit_eq_mult)
  next
    case False
    then obtain k where k: "k < 32" "s AND - s = 2 ^ k" "2 ^ k dvd unat s" by (rule lowest_bit)
    then have "unat (s AND - s) \<noteq> 0" using unat_2p32[OF k(1)] by simp
    then show thesis using that[of k] k by (simp add: unat_eq_zero)
  qed
  then obtain j where j: "j \<le> k" "shrink4 s h (2 ^ k) = Some (2 ^ j)" "unat s + 2 ^ j - 1 \<le> unat h"
    using shrink4_correct[OF k(1,2) assms] by blast
  have "2 ^ j dvd unat s" using k(2) j(1) by (meson dvd_trans le_imp_power_dvd)
  then show thesis using that[of j] j k by simp
qed

lemma cidrs4_total:
  "h \<noteq> - 1 \<Longrightarrow> \<exists>ps. cidrs4 s h = Some ps \<and> (\<forall>x. covered4 ps x \<longleftrightarrow> s \<le> x \<and> x \<le> h) \<and>
     total4 ps = unat h + 1 - unat s"
proof (induction "unat h + 1 - unat s" arbitrary: s rule: less_induct)
  case less
  show ?case
  proof (cases "s \<le> h")
    case False
    have "cidrs4 s h = Some []" using False by (subst cidrs4.simps) simp
    moreover have "unat h + 1 - unat s = 0" using False by (simp add: word_le_nat_alt)
    ultimately show ?thesis using False by (auto simp: covered4_def total4_def)
  next
    case True
    obtain j where j: "j < 32" "2 ^ j dvd unat s" "unat s + 2 ^ j - 1 \<le> unat h"
      "shrink4 s h (if s AND - s = 0 then push_bit 31 1 else s AND - s) = Some (2 ^ j)"
      by (rule first_block[OF True])
    have p: "(1::nat) \<le> 2 ^ j" by simp
    have "unat h \<noteq> unat (- 1 :: 32 word)" using less.prems by (metis word_unat_eq_iff)
    moreover have "unat h < 2 ^ 32" using unsigned_less[of h] by simp
    ultimately have top: "unat h < 2 ^ 32 - 1"
      by (simp add: unsigned_minus_1_eq_mask mask_eq_exp_minus_1)
    then have next_s: "unat (s + 2 ^ j) = unat s + 2 ^ j" using unat_block(2)[OF j(1)] j(3) p by simp
    have sh: "unat s \<le> unat h" using True by (simp add: word_le_nat_alt)
    then have "unat h + 1 - unat (s + 2 ^ j) < unat h + 1 - unat s" using next_s p by linarith
    then obtain ps where ps: "cidrs4 (s + 2 ^ j) h = Some ps" "\<forall>x. covered4 ps x \<longleftrightarrow> s + 2 ^ j \<le> x \<and> x \<le> h"
      "total4 ps = unat h + 1 - unat (s + 2 ^ j)"
      using less.hyps less.prems by blast
    have "cidrs4 s h = Some ((s, 32 - j) # ps)"
      using True j(1,4) ps(1) by (subst cidrs4.simps) (simp add: Let_def TrailingZeros_2p)
    moreover have "covered4 ((s, 32 - j) # ps) x \<longleftrightarrow> s \<le> x \<and> x \<le> h" for x
    proof -
      have "covered4 ((s, 32 - j) # ps) x \<longleftrightarrow> (unat s \<le> unat x \<and> unat x < unat s + 2 ^ j) \<or> covered4 ps x"
        using aligned_block[OF j(1,2), of x] j(1) by (simp add: covered4_def)
      also have "\<dots> \<longleftrightarrow> (unat s \<le> unat x \<and> unat x < unat s + 2 ^ j) \<or> (unat s + 2 ^ j \<le> unat x \<and> unat x \<le> unat h)"
        using ps(2) by (simp only: word_le_nat_alt next_s)
      also have "\<dots> \<longleftrightarrow> unat s \<le> unat x \<and> unat x \<le> unat h"
        using j(3) p by linarith
      finally show ?thesis by (simp only: word_le_nat_alt)
    qed
    moreover have "total4 ((s, 32 - j) # ps) = unat h + 1 - unat s"
      using ps(3) next_s j(1,3) p sh by (simp add: total4_def)
    ultimately show ?thesis by blast
  qed
qed

lemma cidrs4_top: "cidrs4 s h = Some ps \<Longrightarrow> h \<noteq> - 1"
proof (induction rule: cidrs4.raw_induct[rotated, consumes 1])
  case (1 cidrs4 s h ps)
  show ?case
  proof (cases "s \<le> h")
    case True
    then show ?thesis using 1 by (auto simp: Let_def bind_eq_Some_conv)
  next
    case False
    then show ?thesis using word_n1_ge[of s] by auto
  qed
qed

section \<open>What LoadTable keeps\<close>

text \<open>The prefixes of the two texts that go into a table.\<close>

definition prefixes4 :: "string \<Rightarrow> prefix list" where
  "prefixes4 s = filter (\<lambda>p. Is4 (fst p)) (List.map_filter parsePrefixLine (split_on (CHR 0x0A) s))"

definition prefixes6 :: "string \<Rightarrow> prefix list" where
  "prefixes6 s = filter (\<lambda>p. \<not> Is4 (fst p) \<and> \<not> Is4In6 (fst p)) (List.map_filter parsePrefixLine (split_on (CHR 0x0A) s))"

lemma Masked_length: "snd p \<le> 8 * length (fst p) \<Longrightarrow> length (fst p) = 4 \<or> length (fst p) = 16 \<Longrightarrow>
    length (fst (Masked p)) = length (fst p)"
  by (auto simp: Masked_def CIDRMask_def)

lemma parsePrefixLine_length:
  assumes "parsePrefixLine l = Some p" shows "length (fst p) = 4 \<or> length (fst p) = 16"
proof -
  obtain x a n where x: "ParsePrefix x = Some (a, n)" "p = Masked (a, n)"
    using assms by (auto simp: parsePrefixLine_def Let_def split: if_splits)
  have "length a = 4 \<or> length a = 16" "n \<le> 8 * length a"
    using x(1) parse_addr_length by (auto simp: ParsePrefix_def Let_def split: option.splits if_splits)
  then show ?thesis using Masked_length[of "(a, n)"] x(2) by simp
qed

lemma prefixes6_length: "p \<in> set (prefixes6 s) \<Longrightarrow> length (fst p) = 16"
proof -
  assume p: "p \<in> set (prefixes6 s)"
  then obtain l where "parsePrefixLine l = Some p" by (auto simp: prefixes6_def List.map_filter_def)
  then have "length (fst p) = 4 \<or> length (fst p) = 16" by (rule parsePrefixLine_length)
  then show ?thesis using p by (auto simp: prefixes6_def Is4_def)
qed

lemma as16_length: "length (as16 ip) = 16"
  using To16_length[of ip] by (auto simp: as16_def)

section \<open>Properties\<close>

text \<open>A loaded country table answers for exactly the addresses of its prefixes: the merged, sorted
  ranges and the binary search find an address if and only if it agrees with one of the listed
  prefixes on the prefix bits, provided no prefix reaches the last address of its family.\<close>

theorem geo_table_contains:
  assumes "\<forall>p \<in> set (prefixes4 ipv4). snd (v4Range p) \<noteq> - 1"
    "\<forall>p \<in> set (prefixes6 ipv6). snd (v6Range p) \<noteq> replicate 16 255"
  shows "Table_Contains (LoadTable ipv4 ipv6) ip \<longleftrightarrow>
     (if To4 ip \<noteq> [] then \<exists>p \<in> set (prefixes4 ipv4). in4 (be32 (To4 ip)) p
      else \<exists>p \<in> set (prefixes6 ipv6). in6 (int (snd p)) (as16 ip) (fst p))"
proof -
  have "LoadTable ipv4 ipv6 = sortMerge \<lparr>t_v4 = map v4Range (prefixes4 ipv4), t_v6 = map v6Range (prefixes6 ipv6)\<rparr>"
    by (simp add: LoadTable_def prefixes4_def prefixes6_def Let_def)
  then show ?thesis
    using table4_contains[OF assms(1)] table6_contains[of "prefixes6 ipv6" "as16 ip"] assms(2) prefixes6_length as16_length
    by (simp add: Table_Contains_def sortMerge_def)
qed

theorem geo_table_contains_witness:
  "Table_Contains (LoadTable ''10.0.0.0/8'' []) [10, 1, 2, 3]"
proof -
  have p4: "prefixes4 ''10.0.0.0/8'' = [([10, 0, 0, 0], 8)]" and p6: "prefixes6 [] = []" by code_simp+
  have "\<forall>p \<in> set (prefixes4 ''10.0.0.0/8''). snd (v4Range p) \<noteq> - 1" unfolding p4 by code_simp
  moreover have "in4 (be32 (To4 [10, 1, 2, 3])) ([10, 0, 0, 0], 8)" by code_simp
  moreover have "To4 [10, 1, 2, 3] \<noteq> []" by (simp add: To4_def)
  ultimately show ?thesis using geo_table_contains[of "''10.0.0.0/8''" "[]" "[10, 1, 2, 3]"] by (simp add: p4 p6)
qed

text \<open>A prefix that reaches the last address breaks the table: with \<^verbatim>\<open>0.0.0.0/0\<close> and \<^verbatim>\<open>10.0.0.0/8\<close>
  listed, \<^verbatim>\<open>200.0.0.1\<close> is not found although the first prefix covers every address, because
  \<^verbatim>\<open>end+1\<close> wraps to zero in the merge and leaves the ends out of order for the binary search.\<close>

theorem geo_table_top_prefix_lost:
  "prefixes4 (''0.0.0.0/0'' @ [CHR 0x0A] @ ''10.0.0.0/8'') = [([0, 0, 0, 0], 0), ([10, 0, 0, 0], 8)] \<and>
   in4 (be32 [200, 0, 0, 1]) ([0, 0, 0, 0], 0) \<and>
   \<not> Table_Contains (LoadTable (''0.0.0.0/0'' @ [CHR 0x0A] @ ''10.0.0.0/8'') []) [200, 0, 0, 1]"
proof (intro conjI)
  show "prefixes4 (''0.0.0.0/0'' @ [CHR 0x0A] @ ''10.0.0.0/8'') = [([0, 0, 0, 0], 0), ([10, 0, 0, 0], 8)]" by code_simp
  show "in4 (be32 [200, 0, 0, 1]) ([0, 0, 0, 0], 0)" by code_simp
  show "\<not> Table_Contains (LoadTable (''0.0.0.0/0'' @ [CHR 0x0A] @ ''10.0.0.0/8'') []) [200, 0, 0, 1]" by code_simp
qed

text \<open>The expansion of an IPv4 range for the host firewall ends and is exact: the prefixes cover
  the addresses of the range, no other, and none twice (their sizes add up to the size of the
  range), for every range below the last address.\<close>

theorem cidrs4_exact:
  assumes "h \<noteq> - 1"
  shows "\<exists>ps. cidrs4 s h = Some ps \<and> (\<forall>x. covered4 ps x \<longleftrightarrow> s \<le> x \<and> x \<le> h) \<and> total4 ps = unat h + 1 - unat s"
  by (rule cidrs4_total[OF assms])

theorem cidrs4_exact_witness:
  "\<exists>ps. cidrs4 3 9 = Some ps \<and> covered4 ps 7 \<and> \<not> covered4 ps 10"
proof -
  obtain ps where "cidrs4 3 9 = Some ps" "\<forall>x. covered4 ps x \<longleftrightarrow> 3 \<le> x \<and> x \<le> 9"
    using cidrs4_exact[of 9 3] by auto
  then show ?thesis by auto
qed

text \<open>The expansion of a range that ends at \<^verbatim>\<open>255.255.255.255\<close> never returns: after the last block
  the start wraps to zero, which is below the end again.\<close>

theorem cidrs4_diverges_at_top:
  "cidrs4 s (- 1) = None"
  using cidrs4_top[of s "- 1"] by (cases "cidrs4 s (- 1)") auto

end
