(* ===== verification/Banner.thy ===== *)
theory Banner
  imports GeoTable "HOL-Library.List_Lexorder" "HOL-Library.Char_ord"
begin

text \<open>
  The client block list of \<^verbatim>\<open>internal/geoip/banner.go\<close>: configured addresses and networks, clients
  auto-blocked for querying a honeypot domain, the allowlist, and the per-network (ASN) sides. A Go map
  used as a set is the list of its keys. The persistence file is a string: what \<^verbatim>\<open>loadAuto\<close> reads is an
  argument and what \<^verbatim>\<open>persist\<close> writes a result. \<^verbatim>\<open>OnBlock\<close> is the address handed to the firewall.
\<close>

section \<open>State\<close>

record Banner =
  bn_table :: Table
  bn_raw :: "string list"
  bn_auto :: "string list"
  bn_honeypots :: "string list"
  bn_path :: string
  bn_allow :: "IPNet list"
  bn_asnAllow :: "ASNTable option"
  bn_asnBlock :: "ASNTable option"

text \<open>\<^verbatim>\<open>IPNet.String\<close> of a network with a canonical mask.\<close>

definition IPNet_String :: "IPNet \<Rightarrow> string" where
  "IPNet_String n =
     (let nn = (if To4 (net_IP n) \<noteq> [] then To4 (net_IP n) else net_IP n);
          m = (if length (net_Mask n) = 16 \<and> length nn = 4 then drop 12 (net_Mask n) else net_Mask n)
      in IP_String nn @ ''/'' @ dec_digits (fst (Mask_Size m)))"

text \<open>An address as a network of one.\<close>

definition hostNet :: "IP \<Rightarrow> IPNet" where
  "hostNet ip = (let bits = (if To4 ip = [] then 128 else 32) in \<lparr>net_IP = ip, net_Mask = CIDRMask (int bits) bits\<rparr>)"

section \<open>Operations\<close>

definition entryNet :: "string \<Rightarrow> IPNet option" where
  "entryNet e =
     (case ParseCIDR e of
        Some (ip, n) \<Rightarrow> Some n
      | None \<Rightarrow> if ParseIP e = [] then None else Some (hostNet (ParseIP e)))"

definition addRaw :: "Banner \<Rightarrow> string \<Rightarrow> bool \<Rightarrow> Banner" where
  "addRaw b e0 runtime =
     (if e0 = [] then b
      else
        let e = (case ParseCIDR e0 of
                   Some (ip, n) \<Rightarrow> Some (IPNet_String n)
                 | None \<Rightarrow> if ParseIP e0 = [] then None else Some (IP_String (ParseIP e0)))
        in case e of
             None \<Rightarrow> b
           | Some e \<Rightarrow>
               if e \<in> set (bn_raw b) then b
               else b\<lparr>bn_raw := e # bn_raw b, bn_auto := (if runtime then List.insert e (bn_auto b) else bn_auto b)\<rparr>)"

definition rebuildTableLocked :: "Banner \<Rightarrow> Banner" where
  "rebuildTableLocked b = b\<lparr>bn_table := NewTableFromIPNets (List.map_filter entryNet (bn_raw b))\<rparr>"

definition addAllow :: "Banner \<Rightarrow> string \<Rightarrow> Banner" where
  "addAllow b e0 =
     (let e = TrimSpace e0 in
      if e = [] then b
      else case entryNet e of None \<Rightarrow> b | Some n \<Rightarrow> b\<lparr>bn_allow := bn_allow b @ [n]\<rparr>)"

definition banner_allowed :: "Banner \<Rightarrow> IP \<Rightarrow> bool" where
  "banner_allowed b ip \<longleftrightarrow> (\<exists>n \<in> set (bn_allow b). IPNet_Contains n ip)"

definition asnAllowed :: "Banner \<Rightarrow> IP \<Rightarrow> bool" where
  "asnAllowed b ip = (case bn_asnAllow b of None \<Rightarrow> False | Some t \<Rightarrow> ASNTable_Contains t ip)"

definition asnBlocked :: "Banner \<Rightarrow> IP \<Rightarrow> bool" where
  "asnBlocked b ip = (case bn_asnBlock b of None \<Rightarrow> False | Some t \<Rightarrow> ASNTable_Contains t ip)"

text \<open>The auto-blocked entries whose source is allowlisted are dropped.\<close>

definition pruneAutoLocked :: "Banner \<Rightarrow> Banner" where
  "pruneAutoLocked b =
     (let gone = filter (\<lambda>e. ParseIP e \<noteq> [] \<and> (banner_allowed b (ParseIP e) \<or> asnAllowed b (ParseIP e))) (bn_auto b) in
      if gone = [] then b
      else rebuildTableLocked (b\<lparr>bn_auto := filter (\<lambda>e. e \<notin> set gone) (bn_auto b),
                                 bn_raw := filter (\<lambda>e. e \<notin> set gone) (bn_raw b)\<rparr>))"

definition loadAuto :: "Banner \<Rightarrow> string option \<Rightarrow> Banner" where
  "loadAuto b file =
     (if bn_path b = [] then b
      else case file of
        None \<Rightarrow> b
      | Some content \<Rightarrow>
          let ls = filter (\<lambda>ln. \<not> (ln = [] \<or> HasPrefix ln ''#'')) (map TrimSpace (split_on (CHR 0x0A) content))
          in pruneAutoLocked (foldl (\<lambda>b ln. addRaw b ln True) b ls))"

definition NewBanner :: "string \<Rightarrow> string list \<Rightarrow> string list \<Rightarrow> string list \<Rightarrow> string option \<Rightarrow> Banner" where
  "NewBanner path allowlist ips honeypots file =
     (let b0 = \<lparr>bn_table = \<lparr>t_v4 = [], t_v6 = []\<rparr>, bn_raw = [], bn_auto = [], bn_honeypots = [], bn_path = path,
                bn_allow = [], bn_asnAllow = None, bn_asnBlock = None\<rparr>;
          b1 = foldl addAllow b0 allowlist;
          b2 = foldl (\<lambda>b e. addRaw b (TrimSpace e) False) b1 ips;
          b3 = b2\<lparr>bn_honeypots := filter (\<lambda>d. d \<noteq> []) (map CanonicalDomain honeypots)\<rparr>
      in rebuildTableLocked (loadAuto b3 file))"

definition SetASNs :: "Banner \<Rightarrow> ASNTable option \<Rightarrow> ASNTable option \<Rightarrow> Banner" where
  "SetASNs b allow block = pruneAutoLocked (b\<lparr>bn_asnAllow := allow, bn_asnBlock := block\<rparr>)"

text \<open>\<^verbatim>\<open>BlockedAs\<close>: the source of the block, or nothing.\<close>

definition BlockedAs :: "Banner \<Rightarrow> string \<Rightarrow> string option" where
  "BlockedAs b clientIP =
     (let ip = ParseIP clientIP in
      if ip = [] then None
      else if asnAllowed b ip then None
      else if banner_allowed b ip then None
      else if Table_Contains (bn_table b) ip then Some ''ip''
      else if asnBlocked b ip then Some ''asn''
      else None)"

definition Banner_Blocked :: "Banner \<Rightarrow> string \<Rightarrow> bool" where
  "Banner_Blocked b clientIP = (BlockedAs b clientIP \<noteq> None)"

definition LookupHoneypot :: "Banner \<Rightarrow> string \<Rightarrow> bool" where
  "LookupHoneypot b qname =
     (if qname \<in> set (bn_honeypots b) then True
      else case LastIndexByte qname CHR ''.'' of
        None \<Rightarrow> False
      | Some lastDot \<Rightarrow> (\<exists>i \<in> set [0..<lastDot]. qname ! i = CHR ''.'' \<and> drop (i + 1) qname \<in> set (bn_honeypots b)))"

definition autoListLocked :: "Banner \<Rightarrow> string list" where
  "autoListLocked b = sort (bn_auto b)"

definition rawListLocked :: "Banner \<Rightarrow> string list" where
  "rawListLocked b = sort (bn_raw b)"

text \<open>The text \<^verbatim>\<open>persist\<close> writes: a comment line (its dash is three bytes), then one entry per line.\<close>

definition bannerHeader :: string where
  "bannerHeader = ''# Auto-blocked clients (honeypot hits) '' @ [CHR 0xE2, CHR 0x80, CHR 0x94] @ '' managed by Irongrid. One IP per line.''"

definition persistText :: "string list \<Rightarrow> string" where
  "persistText entries = bannerHeader @ [CHR 0x0A] @ concat (map (\<lambda>e. e @ [CHR 0x0A]) entries)"

text \<open>\<^verbatim>\<open>persist\<close>: what is written to the persistence file, nothing when none is configured.\<close>

definition persist :: "Banner \<Rightarrow> string list \<Rightarrow> string option" where
  "persist b entries = (if bn_path b = [] then None else Some (persistText entries))"

datatype block_result = NotAnIP | NoChange | Stored "string option"

text \<open>\<^verbatim>\<open>Block\<close> with what it persists; the entry also goes to the firewall when the write succeeds.\<close>

definition Banner_Block :: "Banner \<Rightarrow> string \<Rightarrow> block_result \<times> Banner" where
  "Banner_Block b ip =
     (let parsed = ParseIP (TrimSpace ip) in
      if parsed = [] then (NotAnIP, b)
      else
        let raw = IP_String parsed in
        if banner_allowed b parsed \<or> asnAllowed b parsed then (NoChange, b)
        else if raw \<in> set (bn_raw b) then (NoChange, b)
        else let b' = rebuildTableLocked (addRaw b raw True) in (Stored (persist b' (autoListLocked b')), b'))"

definition Banner_Unblock :: "Banner \<Rightarrow> string \<Rightarrow> block_result \<times> Banner" where
  "Banner_Unblock b ip =
     (let parsed = ParseIP (TrimSpace ip) in
      if parsed = [] then (NotAnIP, b)
      else
        let raw = IP_String parsed in
        if raw \<notin> set (bn_auto b) then (NoChange, b)
        else let b' = rebuildTableLocked (b\<lparr>bn_auto := removeAll raw (bn_auto b), bn_raw := removeAll raw (bn_raw b)\<rparr>)
             in (Stored (persist b' (autoListLocked b')), b'))"

definition Banner_List :: "Banner \<Rightarrow> string list" where
  "Banner_List b = rawListLocked b"

definition AutoList :: "Banner \<Rightarrow> string list" where
  "AutoList b = autoListLocked b"

section \<open>Reachable banners\<close>

inductive banner_reach :: "Banner \<Rightarrow> bool" where
  reach_new: "banner_reach (NewBanner path allowlist ips honeypots file)"
| reach_asns: "banner_reach b \<Longrightarrow> banner_reach (SetASNs b allow block)"
| reach_block: "banner_reach b \<Longrightarrow> banner_reach (snd (Banner_Block b ip))"
| reach_unblock: "banner_reach b \<Longrightarrow> banner_reach (snd (Banner_Unblock b ip))"

definition banner_ok :: "Banner \<Rightarrow> bool" where
  "banner_ok b \<longleftrightarrow> bn_table b = NewTableFromIPNets (List.map_filter entryNet (bn_raw b)) \<and> set (bn_auto b) \<subseteq> set (bn_raw b)"

lemma addRaw_auto: "set (bn_auto b) \<subseteq> set (bn_raw b) \<Longrightarrow> set (bn_auto (addRaw b e r)) \<subseteq> set (bn_raw (addRaw b e r))"
  by (auto simp: addRaw_def Let_def split: option.splits prod.splits)

lemma foldl_addRaw_auto:
  "set (bn_auto b) \<subseteq> set (bn_raw b) \<Longrightarrow> set (bn_auto (foldl (\<lambda>b e. addRaw b (f e) r) b es)) \<subseteq> set (bn_raw (foldl (\<lambda>b e. addRaw b (f e) r) b es))"
  by (induction es arbitrary: b) (simp_all add: addRaw_auto)

lemma foldl_addAllow: "bn_raw (foldl addAllow b es) = bn_raw b \<and> bn_auto (foldl addAllow b es) = bn_auto b"
  by (induction es arbitrary: b) (auto simp: addAllow_def Let_def split: option.splits)

lemma rebuild_ok: "set (bn_auto b) \<subseteq> set (bn_raw b) \<Longrightarrow> banner_ok (rebuildTableLocked b)"
  by (simp add: banner_ok_def rebuildTableLocked_def)

lemma prune_auto: "set (bn_auto b) \<subseteq> set (bn_raw b) \<Longrightarrow> set (bn_auto (pruneAutoLocked b)) \<subseteq> set (bn_raw (pruneAutoLocked b))"
  by (auto simp: pruneAutoLocked_def Let_def rebuildTableLocked_def)

lemma prune_ok: "banner_ok b \<Longrightarrow> banner_ok (pruneAutoLocked b)"
  using prune_auto[of b] by (auto simp: pruneAutoLocked_def Let_def banner_ok_def rebuildTableLocked_def)

lemma loadAuto_auto: "set (bn_auto b) \<subseteq> set (bn_raw b) \<Longrightarrow> set (bn_auto (loadAuto b file)) \<subseteq> set (bn_raw (loadAuto b file))"
  using foldl_addRaw_auto[of b "\<lambda>x. x" True] by (auto simp: loadAuto_def Let_def intro!: prune_auto[THEN subsetD] split: option.splits)

lemma banner_reach_ok: "banner_reach b \<Longrightarrow> banner_ok b"
proof (induction rule: banner_reach.induct)
  case (reach_new path allowlist ips honeypots fl)
  show ?case unfolding NewBanner_def Let_def
    by (intro rebuild_ok loadAuto_auto) (simp add: foldl_addRaw_auto foldl_addAllow)
next
  case (reach_asns b allow block)
  then show ?case unfolding SetASNs_def by (intro prune_ok) (simp add: banner_ok_def)
next
  case (reach_block b ip)
  then show ?case using addRaw_auto[of b "IP_String (ParseIP (TrimSpace ip))" True]
    by (auto simp: Banner_Block_def Let_def banner_ok_def rebuildTableLocked_def)
next
  case (reach_unblock b ip)
  then show ?case by (auto simp: Banner_Unblock_def Let_def banner_ok_def rebuildTableLocked_def)
qed

section \<open>A blocked IPv4 client is found in the table\<close>

text \<open>The IPv4 prefixes of a list of networks.\<close>

definition nets4 :: "IPNet list \<Rightarrow> prefix list" where
  "nets4 nets = List.map_filter (\<lambda>n. let (ones, bits) = Mask_Size (net_Mask n); a = To4 (net_IP n) in
     if bits = 32 \<and> a \<noteq> [] then Some (Masked (a, ones)) else None) nets"

definition banner_nets4 :: "Banner \<Rightarrow> prefix list" where
  "banner_nets4 b = nets4 (List.map_filter entryNet (bn_raw b))"

lemma NewTable_v4: "t_v4 (NewTableFromIPNets nets) = mergeRanges4 (sort_key fst (map v4Range (nets4 nets)))"
proof -
  have "List.map_filter (\<lambda>n. let (ones, bits) = Mask_Size (net_Mask n); a = To4 (net_IP n) in
      if bits = 32 \<and> a \<noteq> [] then Some (v4Range (Masked (a, ones))) else None) nets = map v4Range (nets4 nets)"
    by (induction nets) (auto simp: nets4_def List.map_filter_simps Let_def split: option.splits prod.splits)
  then show ?thesis by (simp add: NewTableFromIPNets_def sortMerge_def)
qed

lemma Mask32: "Mask_Size (CIDRMask 32 32) = (32, 32)"
  by code_simp

lemma host_entry:
  assumes "length a = 4"
  shows "entryNet (IP_String a) = Some \<lparr>net_IP = To16 a, net_Mask = CIDRMask 32 32\<rparr>"
proof -
  have "CHR ''/'' \<notin> set (IP_String a)" using v4_String_chars[OF assms, of "CHR ''/''"] by auto
  then have "ParseCIDR (IP_String a) = None" by (rule ParseCIDR_no_slash)
  moreover have "To16 a \<noteq> []" using assms by (auto simp: To16_def)
  moreover have "To4 (To16 a) \<noteq> []" using assms by auto
  ultimately show ?thesis using assms by (simp add: entryNet_def ParseIP_v4_String hostNet_def)
qed

lemma host_in_nets4:
  assumes "length a = 4" "IP_String a \<in> set raws"
  shows "Masked (a, 32) \<in> set (nets4 (List.map_filter entryNet raws))"
proof -
  have "\<lparr>net_IP = To16 a, net_Mask = CIDRMask 32 32\<rparr> \<in> set (List.map_filter entryNet raws)"
    using assms host_entry[OF assms(1)] by (force simp: List.map_filter_def)
  moreover have "a \<noteq> []" using assms(1) by auto
  ultimately show ?thesis using assms(1) Mask32 unfolding nets4_def
    by (force simp: List.map_filter_def)
qed

lemma Masked_host: "length a = 4 \<Longrightarrow> in4 (be32 a) (Masked (a, 32))"
proof -
  assume "length a = 4"
  then obtain w x y z where a: "a = [w, x, y, z]" by (auto simp: numeral_eq_Suc length_Suc_conv)
  have "CIDRMask 32 32 = [-1, -1, -1, -1]" by (simp add: CIDRMask_def mask_byte_def upt_conv_Cons)
  then show ?thesis by (simp add: in4_def Masked_def a)
qed

lemma blocked_in_table:
  assumes "banner_ok b" "length a = 4" "IP_String a \<in> set (bn_raw b)"
    "\<forall>p \<in> set (banner_nets4 b). snd (v4Range p) \<noteq> - 1" "To4 ip = a"
  shows "Table_Contains (bn_table b) ip"
proof -
  have "\<exists>p \<in> set (banner_nets4 b). in4 (be32 a) p"
    using host_in_nets4[OF assms(2,3)] Masked_host[OF assms(2)] unfolding banner_nets4_def by blast
  moreover have "To4 ip \<noteq> []" using assms(2,5) by auto
  ultimately show ?thesis using table4_contains[OF assms(4), of "be32 a"] assms(1,5)
    by (simp add: Table_Contains_def banner_ok_def NewTable_v4 banner_nets4_def)
qed

section \<open>The persistence file\<close>

lemma split_lines: "\<forall>e \<in> set es. CHR 0x0A \<notin> set e \<Longrightarrow>
    split_on (CHR 0x0A) (concat (map (\<lambda>e. e @ [CHR 0x0A]) es)) = es @ [[]]"
  by (induction es) (simp_all add: split_on_append)

lemma TrimSpace_id: "\<forall>c \<in> set s. \<not> is_space c \<Longrightarrow> TrimSpace s = s"
proof -
  assume s: "\<forall>c \<in> set s. \<not> is_space c"
  have "dropWhile is_space t = t" if "\<forall>c \<in> set t. \<not> is_space c" for t
    using that by (cases t) auto
  from this[of s] this[of "rev s"] show ?thesis using s by (simp add: TrimSpace_def)
qed

lemma v4_entry:
  assumes "length a = 4"
  shows "TrimSpace (IP_String a) = IP_String a" "IP_String a \<noteq> []" "\<not> HasPrefix (IP_String a) ''#''" "CHR 0x0A \<notin> set (IP_String a)"
proof -
  have c: "\<not> is_space c \<and> c \<noteq> CHR ''#'' \<and> c \<noteq> CHR 0x0A" if "c \<in> set (IP_String a)" for c
    using v4_String_chars[OF assms that] by (auto simp: is_digit_def is_space_def)
  show "TrimSpace (IP_String a) = IP_String a" using c by (intro TrimSpace_id) blast
  show ne: "IP_String a \<noteq> []" by (rule v4_String_ne[OF assms])
  show "\<not> HasPrefix (IP_String a) ''#''"
    using c[of "hd (IP_String a)"] ne by (cases "IP_String a") (auto simp: HasPrefix_def)
  show "CHR 0x0A \<notin> set (IP_String a)" using c by blast
qed

definition loadLines :: "string \<Rightarrow> string list" where
  "loadLines content = filter (\<lambda>ln. \<not> (ln = [] \<or> HasPrefix ln ''#'')) (map TrimSpace (split_on (CHR 0x0A) content))"

lemma loadLines_persistText:
  assumes "\<forall>e \<in> set es. \<exists>a. length a = 4 \<and> e = IP_String a"
  shows "loadLines (persistText es) = es"
proof -
  have nl: "CHR 0x0A \<notin> set bannerHeader" by code_simp
  have h: "TrimSpace bannerHeader = bannerHeader" by code_simp
  have hd: "HasPrefix bannerHeader ''#''" by code_simp
  have es: "\<forall>e \<in> set es. CHR 0x0A \<notin> set e \<and> TrimSpace e = e \<and> e \<noteq> [] \<and> \<not> HasPrefix e ''#''"
  proof
    fix e assume "e \<in> set es"
    then obtain a where "length a = 4" "e = IP_String a" using assms by blast
    then show "CHR 0x0A \<notin> set e \<and> TrimSpace e = e \<and> e \<noteq> [] \<and> \<not> HasPrefix e ''#''" using v4_entry[of a] by simp
  qed
  have "split_on (CHR 0x0A) (persistText es) = bannerHeader # es @ [[]]"
  proof -
    have "persistText es = bannerHeader @ CHR 0x0A # concat (map (\<lambda>e. e @ [CHR 0x0A]) es)" by (simp add: persistText_def)
    moreover have "split_on (CHR 0x0A) (concat (map (\<lambda>e. e @ [CHR 0x0A]) es)) = es @ [[]]"
      by (rule split_lines) (use es in blast)
    ultimately show ?thesis by (simp only: split_on_append[OF nl])
  qed
  moreover have "map TrimSpace es = es" "filter (\<lambda>ln. \<not> (ln = [] \<or> HasPrefix ln ''#'')) es = es"
    using es by (auto simp: map_idI filter_id_conv)
  moreover have "TrimSpace [] = []" by (simp add: TrimSpace_def)
  ultimately show ?thesis using hd h by (simp add: loadLines_def)
qed

lemma addRaw_host:
  assumes "length a = 4"
  shows "bn_raw (addRaw b (IP_String a) True) = (if IP_String a \<in> set (bn_raw b) then bn_raw b else IP_String a # bn_raw b)"
    and "set (bn_auto (addRaw b (IP_String a) True)) = (if IP_String a \<in> set (bn_raw b) then set (bn_auto b) else insert (IP_String a) (set (bn_auto b)))"
    and "bn_allow (addRaw b (IP_String a) True) = bn_allow b" and "bn_asnAllow (addRaw b (IP_String a) True) = bn_asnAllow b"
proof -
  have "CHR ''/'' \<notin> set (IP_String a)" using v4_String_chars[OF assms, of "CHR ''/''"] by auto
  then have n: "ParseCIDR (IP_String a) = None" by (rule ParseCIDR_no_slash)
  have "To16 a \<noteq> []" using assms by (auto simp: To16_def)
  moreover have "IP_String (To16 a) = IP_String a" using IP_String_To4[of "To16 a"] assms by (metis To4_To16 length_0_conv zero_neq_numeral)
  ultimately have "addRaw b (IP_String a) True = (if IP_String a \<in> set (bn_raw b) then b
      else b\<lparr>bn_raw := IP_String a # bn_raw b, bn_auto := List.insert (IP_String a) (bn_auto b)\<rparr>)"
    using n v4_String_ne[OF assms] assms by (simp add: addRaw_def ParseIP_v4_String)
  then show "bn_raw (addRaw b (IP_String a) True) = (if IP_String a \<in> set (bn_raw b) then bn_raw b else IP_String a # bn_raw b)"
    and "set (bn_auto (addRaw b (IP_String a) True)) = (if IP_String a \<in> set (bn_raw b) then set (bn_auto b) else insert (IP_String a) (set (bn_auto b)))"
    and "bn_allow (addRaw b (IP_String a) True) = bn_allow b" and "bn_asnAllow (addRaw b (IP_String a) True) = bn_asnAllow b"
    by simp_all
qed

lemma foldl_addRaw_hosts:
  assumes "\<forall>e \<in> set es. \<exists>a. length a = 4 \<and> e = IP_String a"
  shows "set (bn_raw (foldl (\<lambda>b e. addRaw b e True) b es)) = set (bn_raw b) \<union> set es
     \<and> bn_allow (foldl (\<lambda>b e. addRaw b e True) b es) = bn_allow b
     \<and> bn_asnAllow (foldl (\<lambda>b e. addRaw b e True) b es) = bn_asnAllow b"
  using assms
proof (induction es arbitrary: b)
  case (Cons e es)
  then obtain a where a: "length a = 4" "e = IP_String a" by auto
  then show ?case using Cons.IH[of "addRaw b e True"] Cons.prems addRaw_host[OF a(1), of b] by auto
qed simp

lemma prune_keeps:
  assumes "e \<in> set (bn_raw b)" "\<not> banner_allowed b (ParseIP e)" "\<not> asnAllowed b (ParseIP e)"
  shows "e \<in> set (bn_raw (pruneAutoLocked b))"
  using assms by (auto simp: pruneAutoLocked_def Let_def rebuildTableLocked_def)

lemma foldl_addRaw_keep: "bn_allow (foldl (\<lambda>b e. addRaw b (f e) r) b es) = bn_allow b
    \<and> bn_asnAllow (foldl (\<lambda>b e. addRaw b (f e) r) b es) = bn_asnAllow b \<and> bn_path (foldl (\<lambda>b e. addRaw b (f e) r) b es) = bn_path b"
  by (induction es arbitrary: b) (auto simp: addRaw_def Let_def split: option.splits)

lemma foldl_addAllow_keep: "bn_asnAllow (foldl addAllow b es) = bn_asnAllow b \<and> bn_path (foldl addAllow b es) = bn_path b"
  by (induction es arbitrary: b) (auto simp: addAllow_def Let_def split: option.splits)

lemma prune_allow: "bn_allow (pruneAutoLocked b) = bn_allow b \<and> bn_asnAllow (pruneAutoLocked b) = bn_asnAllow b"
  by (simp add: pruneAutoLocked_def Let_def rebuildTableLocked_def)

lemma NewBanner_loads:
  assumes "path \<noteq> []" "\<forall>e \<in> set es. \<exists>a. length a = 4 \<and> e = IP_String a" "e \<in> set es"
    and n: "n = NewBanner path allowlist ips honeypots (Some (persistText es))"
    and na: "\<not> banner_allowed n (ParseIP e)"
  shows "e \<in> set (bn_raw n)"
proof -
  define b2 where "b2 = (foldl (\<lambda>b e. addRaw b (TrimSpace e) False) (foldl addAllow
     \<lparr>bn_table = \<lparr>t_v4 = [], t_v6 = []\<rparr>, bn_raw = [], bn_auto = [], bn_honeypots = [], bn_path = path,
                bn_allow = [], bn_asnAllow = None, bn_asnBlock = None\<rparr> allowlist) ips)
       \<lparr>bn_honeypots := filter (\<lambda>d. d \<noteq> []) (map CanonicalDomain honeypots)\<rparr>"
  have p: "bn_path b2 = path" "bn_asnAllow b2 = None"
    by (simp_all add: b2_def foldl_addRaw_keep foldl_addAllow_keep)
  let ?f = "foldl (\<lambda>b e. addRaw b e True) b2 es"
  have "loadAuto b2 (Some (persistText es)) = pruneAutoLocked ?f"
    using p(1) assms(1) loadLines_persistText[OF assms(2)] by (simp add: loadAuto_def loadLines_def)
  then have nn: "n = rebuildTableLocked (pruneAutoLocked ?f)" using n by (simp add: NewBanner_def b2_def)
  note f = foldl_addRaw_hosts[OF assms(2), of b2]
  have "bn_allow n = bn_allow ?f" by (simp add: nn rebuildTableLocked_def prune_allow)
  then have "e \<in> set (bn_raw (pruneAutoLocked ?f))"
    using prune_keeps[of e ?f] na f p(2) assms(3) by (auto simp: banner_allowed_def asnAllowed_def)
  then show ?thesis by (simp add: nn rebuildTableLocked_def)
qed

lemma Block_stored:
  assumes "ParseIP (TrimSpace ip) = To16 a" "length a = 4" "\<not> banner_allowed b (To16 a)" "\<not> asnAllowed b (To16 a)"
  shows "IP_String a \<in> set (bn_raw (snd (Banner_Block b ip)))" "bn_allow (snd (Banner_Block b ip)) = bn_allow b"
    "bn_asnAllow (snd (Banner_Block b ip)) = bn_asnAllow b"
proof -
  have s: "IP_String (To16 a) = IP_String a" using IP_String_To4[of "To16 a"] assms(2) by (metis To4_To16 length_0_conv zero_neq_numeral)
  have "To16 a \<noteq> []" using assms(2) by (auto simp: To16_def)
  then show "IP_String a \<in> set (bn_raw (snd (Banner_Block b ip)))" "bn_allow (snd (Banner_Block b ip)) = bn_allow b"
    "bn_asnAllow (snd (Banner_Block b ip)) = bn_asnAllow b"
    using assms s addRaw_host[OF assms(2), of b] by (simp_all add: Banner_Block_def rebuildTableLocked_def Let_def)
qed

section \<open>Properties\<close>

text \<open>After \<^verbatim>\<open>Block\<close> of an IPv4 client that no allowlist covers, the client is refused.\<close>

lemma Block_refuses:
  assumes "banner_reach b" "length a = 4" "ParseIP (TrimSpace ip) = To16 a"
    "\<forall>p \<in> set (banner_nets4 (snd (Banner_Block b ip))). snd (v4Range p) \<noteq> - 1"
    "ParseIP client = To16 a" "\<not> (banner_allowed b (To16 a) \<or> asnAllowed b (To16 a))"
  shows "BlockedAs (snd (Banner_Block b ip)) client = Some ''ip''"
proof -
  note st = Block_stored[OF assms(3,2)]
  have ok: "banner_ok (snd (Banner_Block b ip))" using assms(1) banner_reach_ok reach_block by blast
  have "To16 a \<noteq> []" using assms(2) by (auto simp: To16_def)
  moreover have "Table_Contains (bn_table (snd (Banner_Block b ip))) (To16 a)"
    using blocked_in_table[OF ok assms(2) _ assms(4)] st(1) assms(6,2) by auto
  ultimately show ?thesis using assms(6) st(2,3) assms(5)
    by (simp add: BlockedAs_def banner_allowed_def asnAllowed_def)
qed

lemma Block_allowed:
  assumes "length a = 4" "ParseIP (TrimSpace ip) = To16 a" "banner_allowed b (To16 a) \<or> asnAllowed b (To16 a)"
  shows "snd (Banner_Block b ip) = b"
proof -
  have "To16 a \<noteq> []" using assms(1) by (auto simp: To16_def)
  then show ?thesis using assms(2,3) by (simp add: Banner_Block_def)
qed

text \<open>A honeypot hit takes effect. Whatever happened to the block list before, after \<^verbatim>\<open>Block\<close> of an IPv4 client
  that no allowlist covers, the very next check of that client refuses it, with source "ip"; an allowlisted client
  is refused neither before nor after, and \<^verbatim>\<open>Block\<close> does not change the list for it. (Entries that reach
  255.255.255.255 are excluded: the merge of ranges loses what is sorted after them.)\<close>

theorem honeypot_block_effective:
  assumes "banner_reach b" "length a = 4" "ParseIP (TrimSpace ip) = To16 a"
    "\<forall>p \<in> set (banner_nets4 (snd (Banner_Block b ip))). snd (v4Range p) \<noteq> - 1"
    "ParseIP client = To16 a"
  shows "BlockedAs (snd (Banner_Block b ip)) client =
      (if banner_allowed b (To16 a) \<or> asnAllowed b (To16 a) then None else Some ''ip'')
    \<and> (banner_allowed b (To16 a) \<or> asnAllowed b (To16 a) \<longrightarrow> snd (Banner_Block b ip) = b)"
proof (cases "banner_allowed b (To16 a) \<or> asnAllowed b (To16 a)")
  case True
  then show ?thesis using Block_allowed[OF assms(2,3) True] assms(5) by (auto simp: BlockedAs_def Let_def)
next
  case False
  then show ?thesis using Block_refuses[OF assms False] by simp
qed

theorem honeypot_block_effective_witness:
  "BlockedAs (snd (Banner_Block (NewBanner [] [''1.0.0.1''] [] [] None) '' 1.2.3.4'')) ''1.2.3.4'' = Some ''ip''"
proof -
  let ?b = "NewBanner [] [''1.0.0.1''] [] [] None"
  have 1: "length [1, 2, 3, 4 :: byte] = 4" by simp
  have 2: "ParseIP (TrimSpace '' 1.2.3.4'') = To16 [1, 2, 3, 4]" by code_simp
  have 3: "\<forall>p \<in> set (banner_nets4 (snd (Banner_Block ?b '' 1.2.3.4''))). snd (v4Range p) \<noteq> - 1" by code_simp
  have 4: "ParseIP ''1.2.3.4'' = To16 [1, 2, 3, 4]" by code_simp
  have "\<not> (banner_allowed ?b (To16 [1, 2, 3, 4]) \<or> asnAllowed ?b (To16 [1, 2, 3, 4]))" by code_simp
  then show ?thesis using honeypot_block_effective[OF reach_new 1 2 3 4] by presburger
qed



end
