(* ===== verification/L1Cache.thy ===== *)
theory L1Cache
  imports Prelude NetIP
begin

text \<open>
  The in-process response cache of \<^verbatim>\<open>internal/cache/l1.go\<close>: sharded maps from question fingerprints to packed
  responses, each shard with an insertion-order queue and second-chance (CLOCK) eviction. The entry
  pointers of the Go map are the values of an association list; the atomic \<^verbatim>\<open>referenced\<close> bit is a field. Shard
  locks make every operation one step.
\<close>

section \<open>State\<close>

definition l1Shards :: nat where "l1Shards = 256"

record l1Key =
  lk_h :: "64 word"
  lk_neg :: bool

record l1Entry =
  le_raw :: "byte list"
  le_ttlOff :: "32 word list"
  le_expires :: gotime
  le_staleUntil :: gotime
  le_referenced :: bool

record l1Shard =
  sh_m :: "(l1Key, l1Entry) gomap"
  sh_queue :: "l1Key list"

record l1Cache =
  l1_shards :: "nat \<Rightarrow> l1Shard"
  l1_cap :: int
  l1_staleTTL :: duration

abbreviation emptyShard :: l1Shard where
  "emptyShard \<equiv> \<lparr>sh_m = [], sh_queue = []\<rparr>"

definition newL1 :: "int \<Rightarrow> duration \<Rightarrow> l1Cache" where
  "newL1 capPerShard staleTTL = \<lparr>l1_shards = \<lambda>_. emptyShard, l1_cap = capPerShard, l1_staleTTL = staleTTL\<rparr>"

definition l1_shard :: "64 word \<Rightarrow> nat" where
  "l1_shard h = unat (h AND (of_nat l1Shards - 1))"

abbreviation on_shard :: "l1Cache \<Rightarrow> 64 word \<Rightarrow> l1Shard \<Rightarrow> l1Cache" where
  "on_shard c h s \<equiv> c\<lparr>l1_shards := (l1_shards c)(l1_shard h := s)\<rparr>"

section \<open>Sizing\<close>

text \<open>The share \<^verbatim>\<open>l1MemoryFraction\<close> of the memory ceiling in bytes, \<^verbatim>\<open>uint64(float64(memBytes)*0.025)\<close>, is an argument of
  the integer part: floating-point multiplication is not modelled.\<close>

definition l1AvgEntryBytes :: nat where "l1AvgEntryBytes = 512"
definition l1AutoDefault :: nat where "l1AutoDefault = 2048"
definition l1AutoFloor :: nat where "l1AutoFloor = 128"
definition l1AutoCap :: nat where "l1AutoCap = 16384"

definition AutoPerShard :: "nat \<Rightarrow> bool \<Rightarrow> nat" where
  "AutoPerShard budgetBytes memKnown =
     (if \<not> memKnown then l1AutoDefault
      else let perShard = budgetBytes div l1AvgEntryBytes div l1Shards in
           if perShard < l1AutoFloor then l1AutoFloor
           else if perShard > l1AutoCap then l1AutoCap
           else perShard)"

section \<open>Operations\<close>

definition l1_del :: "l1Cache \<Rightarrow> 64 word \<Rightarrow> bool \<Rightarrow> l1Cache" where
  "l1_del c h neg =
     (let s = l1_shards c (l1_shard h) in
      on_shard c h (s\<lparr>sh_m := gm_del \<lparr>lk_h = h, lk_neg = neg\<rparr> (sh_m s)\<rparr>))"

record l1Hit =
  hit_raw :: "byte list"
  hit_remaining :: duration
  hit_stale :: bool
  hit_ttlOff :: "32 word list"

definition l1_get :: "l1Cache \<Rightarrow> 64 word \<Rightarrow> bool \<Rightarrow> gotime \<Rightarrow> l1Hit option \<times> l1Cache" where
  "l1_get c h neg now =
     (let key = \<lparr>lk_h = h, lk_neg = neg\<rparr>; s = l1_shards c (l1_shard h) in
      case map_of (sh_m s) key of
        None \<Rightarrow> (None, c)
      | Some e \<Rightarrow>
          let c1 = on_shard c h (s\<lparr>sh_m := gm_put key (e\<lparr>le_referenced := True\<rparr>) (sh_m s)\<rparr>) in
          if now < le_expires e then
            (Some \<lparr>hit_raw = le_raw e, hit_remaining = tsub (le_expires e) now, hit_stale = False, hit_ttlOff = le_ttlOff e\<rparr>, c1)
          else if now < le_staleUntil e then
            (Some \<lparr>hit_raw = le_raw e, hit_remaining = 0, hit_stale = True, hit_ttlOff = le_ttlOff e\<rparr>, c1)
          else (None, l1_del c1 h neg))"

text \<open>The entries whose referenced bit is set: they bound the second chances of one eviction.\<close>

definition refs :: "('k, l1Entry) gomap \<Rightarrow> nat" where
  "refs m = length (filter (\<lambda>x. le_referenced (snd x)) m)"

lemma refs_del: "refs (gm_del k m) \<le> refs m"
  by (induction m) (auto simp: refs_def)

lemma refs_clear: "map_of m k = Some e \<Longrightarrow> le_referenced e \<Longrightarrow> refs (gm_put k (e\<lparr>le_referenced := False\<rparr>) m) < refs m"
  by (induction m) (auto simp: refs_def)

function evictToCap :: "int \<Rightarrow> l1Shard \<Rightarrow> l1Shard" where
  "evictToCap mx s =
     (if int (length (sh_m s)) > mx then
        (case sh_queue s of
           [] \<Rightarrow> s
         | k # q \<Rightarrow>
             (case map_of (sh_m s) k of
                None \<Rightarrow> evictToCap mx (s\<lparr>sh_queue := q\<rparr>)
              | Some e \<Rightarrow>
                  if le_referenced e
                  then evictToCap mx (s\<lparr>sh_m := gm_put k (e\<lparr>le_referenced := False\<rparr>) (sh_m s), sh_queue := q @ [k]\<rparr>)
                  else evictToCap mx (s\<lparr>sh_m := gm_del k (sh_m s), sh_queue := q\<rparr>)))
      else s)"
  by pat_completeness auto
termination
proof (relation "measures [\<lambda>(mx, s). refs (sh_m s), \<lambda>(mx, s). length (sh_queue s)]")
qed (auto simp: refs_clear le_neq_implies_less[OF refs_del])

declare evictToCap.simps [simp del]

definition compact :: "l1Shard \<Rightarrow> l1Shard" where
  "compact s = s\<lparr>sh_queue := filter (\<lambda>k. map_of (sh_m s) k \<noteq> None) (sh_queue s)\<rparr>"

definition l1_set :: "l1Cache \<Rightarrow> 64 word \<Rightarrow> bool \<Rightarrow> byte list \<Rightarrow> duration \<Rightarrow> gotime \<Rightarrow> 32 word list \<Rightarrow> l1Cache" where
  "l1_set c h neg raw ttl now ttlOff =
     (if ttl \<le> 0 \<or> raw = [] then c
      else
        let key = \<lparr>lk_h = h, lk_neg = neg\<rparr>; s = l1_shards c (l1_shard h);
            e = \<lparr>le_raw = raw, le_ttlOff = ttlOff, le_expires = now + ttl, le_staleUntil = now + (ttl + l1_staleTTL c),
                 le_referenced = False\<rparr>
        in if l1_cap c > 0 \<and> map_of (sh_m s) key = None then
             let s1 = evictToCap (l1_cap c) (s\<lparr>sh_m := gm_put key e (sh_m s), sh_queue := sh_queue s @ [key]\<rparr>);
                 s2 = (if int (length (sh_queue s1)) > 2 * l1_cap c then compact s1 else s1)
             in on_shard c h s2
           else on_shard c h (s\<lparr>sh_m := gm_put key e (sh_m s)\<rparr>))"

definition l1_flush :: "l1Cache \<Rightarrow> l1Cache" where
  "l1_flush c = c\<lparr>l1_shards := \<lambda>_. emptyShard\<rparr>"

section \<open>Reachable caches\<close>

inductive l1_reach :: "l1Cache \<Rightarrow> bool" where
  reach_newL1: "l1_reach (newL1 mx st)"
| reach_get: "l1_reach c \<Longrightarrow> l1_reach (snd (l1_get c h neg now))"
| reach_set: "l1_reach c \<Longrightarrow> l1_reach (l1_set c h neg raw ttl now off)"
| reach_del: "l1_reach c \<Longrightarrow> l1_reach (l1_del c h neg)"
| reach_flush: "l1_reach c \<Longrightarrow> l1_reach (l1_flush c)"

definition shard_ok :: "int \<Rightarrow> l1Shard \<Rightarrow> bool" where
  "shard_ok mx s \<longleftrightarrow> gm_wf (sh_m s) \<and> (0 < mx \<longrightarrow> int (length (sh_m s)) \<le> mx \<and> fst ` set (sh_m s) \<subseteq> set (sh_queue s))"

definition keys_home :: "nat \<Rightarrow> l1Shard \<Rightarrow> bool" where
  "keys_home i s \<longleftrightarrow> (\<forall>k \<in> fst ` set (sh_m s). l1_shard (lk_h k) = i)"

definition l1_ok :: "l1Cache \<Rightarrow> bool" where
  "l1_ok c \<longleftrightarrow> (\<forall>i. shard_ok (l1_cap c) (l1_shards c i) \<and> keys_home i (l1_shards c i))"

lemma map_of_key: "map_of m k = Some e \<Longrightarrow> k \<in> fst ` set m"
  by (metis domI dom_map_of_conv_image_fst)

lemma keys_put_old [simp]: "map_of m k = Some e \<Longrightarrow> insert k (fst ` set m) = fst ` set m"
  using map_of_key[of m k e] by (simp add: insert_absorb)

lemma evictToCap_ok:
  "gm_wf (sh_m s) \<Longrightarrow> fst ` set (sh_m s) \<subseteq> set (sh_queue s) \<Longrightarrow> 0 \<le> mx \<Longrightarrow>
   gm_wf (sh_m (evictToCap mx s)) \<and> int (length (sh_m (evictToCap mx s))) \<le> mx \<and>
   fst ` set (sh_m (evictToCap mx s)) \<subseteq> set (sh_queue (evictToCap mx s)) \<and>
   fst ` set (sh_m (evictToCap mx s)) \<subseteq> fst ` set (sh_m s)"
proof (induction mx s rule: evictToCap.induct)
  case (1 mx s)
  show ?case
  proof (cases "int (length (sh_m s)) > mx")
    case big: True
    show ?thesis
    proof (cases "sh_queue s")
      case Nil
      then have "sh_m s = []" using "1.prems"(2) by auto
      then show ?thesis using big "1.prems"(3) by simp
    next
      case (Cons k q)
      show ?thesis
      proof (cases "map_of (sh_m s) k")
        case None
        then have "k \<notin> fst ` set (sh_m s)" by (simp add: map_of_eq_None_iff)
        then show ?thesis using "1.IH"(1)[OF big Cons None] "1.prems" Cons None big
          by (subst (1 2 3 4 5) evictToCap.simps) auto
      next
        case (Some e)
        show ?thesis
        proof (cases "le_referenced e")
          case True
          then show ?thesis using "1.IH"(2)[OF big Cons Some True] "1.prems" Cons Some big
            by (subst (1 2 3 4 5) evictToCap.simps) (auto simp: map_of_key)
        next
          case False
          then show ?thesis using "1.IH"(3)[OF big Cons Some False] "1.prems" Cons Some big
            by (subst (1 2 3 4 5) evictToCap.simps) auto
        qed
      qed
    qed
  next
    case False
    then show ?thesis using "1.prems" by (simp add: evictToCap.simps)
  qed
qed

lemma evictToCap_room: "int (length (sh_m s)) \<le> mx \<Longrightarrow> evictToCap mx s = s"
  by (simp add: evictToCap.simps)

lemma compact_ok: "shard_ok mx s \<Longrightarrow> shard_ok mx (compact s)"
  by (auto simp: shard_ok_def compact_def map_of_eq_None_iff)

lemma compact_m [simp]: "sh_m (compact s) = sh_m s"
  by (simp add: compact_def)

lemma l1_ok_on_shard: "l1_ok c \<Longrightarrow> shard_ok (l1_cap c) s \<Longrightarrow> keys_home (l1_shard h) s \<Longrightarrow> l1_ok (on_shard c h s)"
  by (simp add: l1_ok_def)

lemma l1_del_ok: "l1_ok c \<Longrightarrow> l1_ok (l1_del c h neg)"
proof -
  assume c: "l1_ok c"
  let ?s = "l1_shards c (l1_shard h)" and ?k = "\<lparr>lk_h = h, lk_neg = neg\<rparr>"
  have s: "shard_ok (l1_cap c) ?s" "keys_home (l1_shard h) ?s" using c by (simp_all add: l1_ok_def)
  have "length (gm_del ?k (sh_m ?s)) \<le> length (sh_m ?s)" by (rule length_delete_le)
  then show ?thesis unfolding l1_del_def Let_def
    by (intro l1_ok_on_shard[OF c]) (use s in \<open>auto simp: shard_ok_def keys_home_def\<close>)
qed

lemma l1_touch_ok:
  assumes "l1_ok c" "map_of (sh_m (l1_shards c (l1_shard h))) \<lparr>lk_h = h, lk_neg = neg\<rparr> = Some e"
  shows "l1_ok (on_shard c h ((l1_shards c (l1_shard h))\<lparr>sh_m := gm_put \<lparr>lk_h = h, lk_neg = neg\<rparr> e' (sh_m (l1_shards c (l1_shard h)))\<rparr>))"
proof -
  have s: "shard_ok (l1_cap c) (l1_shards c (l1_shard h))" "keys_home (l1_shard h) (l1_shards c (l1_shard h))"
    using assms(1) by (simp_all add: l1_ok_def)
  show ?thesis using s assms(2)
    by (intro l1_ok_on_shard[OF assms(1)]) (auto simp: shard_ok_def keys_home_def length_put_some map_of_key)
qed

lemma l1_get_ok: "l1_ok c \<Longrightarrow> l1_ok (snd (l1_get c h neg now))"
  using l1_touch_ok[of c h neg] by (auto simp: l1_get_def Let_def intro: l1_del_ok split: option.splits)

text \<open>The two ways of storing: a new key of a bounded shard goes through eviction and compaction, any other store
  replaces the entry.\<close>

definition entry_of :: "l1Cache \<Rightarrow> byte list \<Rightarrow> duration \<Rightarrow> gotime \<Rightarrow> 32 word list \<Rightarrow> l1Entry" where
  "entry_of c raw ttl now off = \<lparr>le_raw = raw, le_ttlOff = off, le_expires = now + ttl, le_staleUntil = now + (ttl + l1_staleTTL c),
     le_referenced = False\<rparr>"

definition evicted :: "int \<Rightarrow> l1Shard \<Rightarrow> l1Key \<Rightarrow> l1Entry \<Rightarrow> l1Shard" where
  "evicted mx s k e = evictToCap mx (s\<lparr>sh_m := gm_put k e (sh_m s), sh_queue := sh_queue s @ [k]\<rparr>)"

lemma l1_set_new:
  assumes "0 < ttl" "raw \<noteq> []" "0 < l1_cap c" "map_of (sh_m (l1_shards c (l1_shard h))) \<lparr>lk_h = h, lk_neg = neg\<rparr> = None"
    and s: "s = evicted (l1_cap c) (l1_shards c (l1_shard h)) \<lparr>lk_h = h, lk_neg = neg\<rparr> (entry_of c raw ttl now off)"
  shows "l1_set c h neg raw ttl now off = on_shard c h (if int (length (sh_queue s)) > 2 * l1_cap c then compact s else s)"
  using assms(1-4) unfolding s l1_set_def evicted_def entry_of_def Let_def by simp

lemma l1_set_old:
  assumes "0 < ttl" "raw \<noteq> []" "\<not> (0 < l1_cap c \<and> map_of (sh_m (l1_shards c (l1_shard h))) \<lparr>lk_h = h, lk_neg = neg\<rparr> = None)"
  shows "l1_set c h neg raw ttl now off = on_shard c h ((l1_shards c (l1_shard h))\<lparr>sh_m :=
     gm_put \<lparr>lk_h = h, lk_neg = neg\<rparr> (entry_of c raw ttl now off) (sh_m (l1_shards c (l1_shard h)))\<rparr>)"
  using assms unfolding l1_set_def entry_of_def Let_def by (simp only: if_False) auto

lemma l1_set_none: "ttl \<le> 0 \<or> raw = [] \<Longrightarrow> l1_set c h neg raw ttl now off = c"
  by (simp add: l1_set_def)

lemma evicted_ok:
  assumes "shard_ok mx s" "keys_home (l1_shard (lk_h k)) s" "0 < mx"
  shows "shard_ok mx (evicted mx s k e)" "keys_home (l1_shard (lk_h k)) (evicted mx s k e)"
proof -
  let ?t = "s\<lparr>sh_m := gm_put k e (sh_m s), sh_queue := sh_queue s @ [k]\<rparr>"
  have e: "gm_wf (sh_m (evicted mx s k e)) \<and> int (length (sh_m (evicted mx s k e))) \<le> mx \<and>
     fst ` set (sh_m (evicted mx s k e)) \<subseteq> set (sh_queue (evicted mx s k e)) \<and> fst ` set (sh_m (evicted mx s k e)) \<subseteq> insert k (fst ` set (sh_m s))"
    using evictToCap_ok[of ?t mx] assms(1,3) by (auto simp: shard_ok_def evicted_def)
  then show "shard_ok mx (evicted mx s k e)" by (simp add: shard_ok_def)
  show "keys_home (l1_shard (lk_h k)) (evicted mx s k e)"
    using e assms(2) unfolding keys_home_def by blast
qed

lemma l1_set_ok: "l1_ok c \<Longrightarrow> l1_ok (l1_set c h neg raw ttl now off)"
proof -
  assume c: "l1_ok c"
  define s where "s = l1_shards c (l1_shard h)"
  define k where "k = \<lparr>lk_h = h, lk_neg = neg\<rparr>"
  have s: "shard_ok (l1_cap c) s" "keys_home (l1_shard h) s" using c by (simp_all add: l1_ok_def s_def)
  consider "ttl \<le> 0 \<or> raw = []" | "0 < ttl" "raw \<noteq> []" "0 < l1_cap c" "map_of (sh_m s) k = None"
    | "0 < ttl" "raw \<noteq> []" "\<not> (0 < l1_cap c \<and> map_of (sh_m s) k = None)" by linarith
  then show ?thesis
  proof cases
    case 1
    then show ?thesis using c by (simp add: l1_set_none)
  next
    case 2
    let ?x = "evicted (l1_cap c) s k (entry_of c raw ttl now off)"
    have kh: "lk_h k = h" by (simp add: k_def)
    note ok = evicted_ok[of "l1_cap c" s k, unfolded kh, OF s 2(3), of "entry_of c raw ttl now off"]
    have "keys_home (l1_shard h) (compact ?x)" using ok(2) by (simp add: keys_home_def)
    then have "l1_ok (on_shard c h (if int (length (sh_queue ?x)) > 2 * l1_cap c then compact ?x else ?x))"
      using ok compact_ok[OF ok(1)] by (simp add: l1_ok_on_shard[OF c])
    then show ?thesis using l1_set_new[OF 2(1-3), of h neg ?x now off] 2(4) by (simp only: s_def k_def)
  next
    case 3
    have "l1_ok (on_shard c h (s\<lparr>sh_m := gm_put k (entry_of c raw ttl now off) (sh_m s)\<rparr>))"
      by (intro l1_ok_on_shard[OF c])
         (use s 3(3) in \<open>auto simp: shard_ok_def keys_home_def length_put_some map_of_key k_def\<close>)
    then show ?thesis using l1_set_old[OF 3(1,2), of c h neg now off] 3(3) by (simp only: s_def k_def simp_thms)
  qed
qed

lemma l1_reach_ok: "l1_reach c \<Longrightarrow> l1_ok c"
proof (induction rule: l1_reach.induct)
  case (reach_newL1 mx st)
  show ?case by (simp add: newL1_def l1_ok_def shard_ok_def keys_home_def)
next
  case (reach_flush c)
  then show ?case by (simp add: l1_flush_def l1_ok_def shard_ok_def keys_home_def)
qed (simp_all only: l1_get_ok l1_set_ok l1_del_ok)

section \<open>Second chances\<close>

text \<open>The key that eviction takes: the first of the queue that is live and not referenced.\<close>

definition victim :: "(l1Key, l1Entry) gomap \<Rightarrow> l1Key list \<Rightarrow> l1Key option" where
  "victim m q = find (\<lambda>k. case map_of m k of None \<Rightarrow> False | Some e \<Rightarrow> \<not> le_referenced e) q"

lemma find_append: "find P (xs @ ys) = (case find P xs of None \<Rightarrow> find P ys | Some x \<Rightarrow> Some x)"
  by (induction xs) auto

lemma find_cong_set: "(\<And>x. x \<in> set xs \<Longrightarrow> P x = Q x) \<Longrightarrow> find P xs = find Q xs"
  by (induction xs) auto

lemma length_del_wf: "gm_wf m \<Longrightarrow> k \<in> fst ` set m \<Longrightarrow> Suc (length (gm_del k m)) = length m"
  by (induction m) (auto simp: rev_image_eqI delete_idem)

lemma evictToCap_victim:
  "gm_wf (sh_m s) \<Longrightarrow> distinct (sh_queue s) \<Longrightarrow> int (length (sh_m s)) = mx + 1 \<Longrightarrow> victim (sh_m s) (sh_queue s) = Some v \<Longrightarrow>
   fst ` set (sh_m (evictToCap mx s)) = fst ` set (sh_m s) - {v}"
proof (induction mx s rule: evictToCap.induct)
  case (1 mx s)
  have big: "int (length (sh_m s)) > mx" using "1.prems"(3) by simp
  obtain k q where Cons: "sh_queue s = k # q" using "1.prems"(4) by (cases "sh_queue s") (auto simp: victim_def)
  note q = "1.prems"(2)[unfolded Cons]
  show ?case
  proof (cases "map_of (sh_m s) k")
    case None
    then have "victim (sh_m s) q = Some v" using "1.prems"(4) Cons by (simp add: victim_def)
    then show ?thesis using "1.IH"(1)[OF big Cons None] "1.prems"(1,3) q Cons None big
      by (subst evictToCap.simps) simp
  next
    case (Some e)
    show ?thesis
    proof (cases "le_referenced e")
      case True
      let ?m = "gm_put k (e\<lparr>le_referenced := False\<rparr>) (sh_m s)"
      have "victim (sh_m s) q = Some v" using "1.prems"(4) Cons Some True by (simp add: victim_def)
      moreover have "victim ?m q = victim (sh_m s) q" unfolding victim_def
        by (rule find_cong_set) (use q in auto)
      ultimately have "victim ?m (q @ [k]) = Some v" by (simp add: victim_def find_append)
      moreover have "fst ` set ?m = fst ` set (sh_m s)" using Some by simp
      ultimately show ?thesis using "1.IH"(2)[OF big Cons Some True] "1.prems"(1,3) q Cons Some True big
        by (subst evictToCap.simps) (simp add: length_put_some)
    next
      case False
      then have v: "v = k" using "1.prems"(4) Cons Some by (simp add: victim_def)
      have "Suc (length (gm_del k (sh_m s))) = length (sh_m s)"
        using length_del_wf[OF "1.prems"(1) map_of_key[OF Some]] .
      then have "evictToCap mx s = s\<lparr>sh_m := gm_del k (sh_m s), sh_queue := q\<rparr>"
        using big Cons Some False "1.prems"(3) by (subst evictToCap.simps) (simp add: evictToCap_room)
      then show ?thesis using keys_del[of k "sh_m s"] by (simp add: v del: set_del)
    qed
  qed
qed

section \<open>Storing and finding\<close>

text \<open>Storing under this key evicts nothing: the shard is unbounded or has room, or the key is there already.\<close>

definition l1_room :: "l1Cache \<Rightarrow> 64 word \<Rightarrow> bool \<Rightarrow> bool" where
  "l1_room c h neg \<longleftrightarrow> l1_cap c \<le> 0 \<or> map_of (sh_m (l1_shards c (l1_shard h))) \<lparr>lk_h = h, lk_neg = neg\<rparr> \<noteq> None \<or>
     int (length (sh_m (l1_shards c (l1_shard h)))) < l1_cap c"

lemma l1_set_m:
  assumes "0 < ttl" "raw \<noteq> []" "l1_room c h neg"
  shows "sh_m (l1_shards (l1_set c h neg raw ttl now off) (l1_shard h)) =
    gm_put \<lparr>lk_h = h, lk_neg = neg\<rparr> (entry_of c raw ttl now off) (sh_m (l1_shards c (l1_shard h)))"
proof (cases "l1_cap c > 0 \<and> map_of (sh_m (l1_shards c (l1_shard h))) \<lparr>lk_h = h, lk_neg = neg\<rparr> = None")
  case True
  let ?k = "\<lparr>lk_h = h, lk_neg = neg\<rparr>" and ?s = "l1_shards c (l1_shard h)"
  have "int (length (gm_put ?k (entry_of c raw ttl now off) (sh_m ?s))) \<le> l1_cap c"
    using True assms(3)[unfolded l1_room_def] length_put_le[of ?k "entry_of c raw ttl now off" "sh_m ?s"] by auto
  then have "sh_m (evicted (l1_cap c) ?s ?k (entry_of c raw ttl now off)) = gm_put ?k (entry_of c raw ttl now off) (sh_m ?s)"
    by (simp add: evicted_def evictToCap_room)
  then show ?thesis using True by (simp add: l1_set_new[OF assms(1,2) _ _ refl])
next
  case False
  then show ?thesis by (simp add: l1_set_old[OF assms(1,2) False])
qed

lemma l1_store_find:
  assumes "0 < ttl" "raw \<noteq> []" "0 \<le> l1_staleTTL c" "t - now \<le> maxDuration" "now + ttl - t \<le> maxDuration"
    "l1_room c h neg"
  shows "fst (l1_get (l1_set c h neg raw ttl now off) h neg t) =
      (if t < now + ttl then Some \<lparr>hit_raw = raw, hit_remaining = now + ttl - t, hit_stale = False, hit_ttlOff = off\<rparr>
       else if t < now + ttl + l1_staleTTL c then Some \<lparr>hit_raw = raw, hit_remaining = 0, hit_stale = True, hit_ttlOff = off\<rparr>
       else None)
    \<and> ((h', neg') \<noteq> (h, neg) \<longrightarrow> fst (l1_get (l1_set c h neg raw ttl now off) h' neg' t) = fst (l1_get c h' neg' t))"
proof -
  let ?k = "\<lparr>lk_h = h, lk_neg = neg\<rparr>" and ?s = "l1_shards c (l1_shard h)" and ?c = "l1_set c h neg raw ttl now off"
  have m: "sh_m (l1_shards ?c (l1_shard h)) = gm_put ?k (entry_of c raw ttl now off) (sh_m ?s)"
    by (rule l1_set_m[OF assms(1,2,6)])
  have other: "l1_shards ?c i = l1_shards c i" if "i \<noteq> l1_shard h" for i
    using that by (simp add: l1_set_def Let_def)
  have "tsub (now + ttl) t = now + ttl - t" if "t < now + ttl" using that assms(5) by (simp add: tsub_exact)
  then have "fst (l1_get ?c h neg t) =
      (if t < now + ttl then Some \<lparr>hit_raw = raw, hit_remaining = now + ttl - t, hit_stale = False, hit_ttlOff = off\<rparr>
       else if t < now + ttl + l1_staleTTL c then Some \<lparr>hit_raw = raw, hit_remaining = 0, hit_stale = True, hit_ttlOff = off\<rparr>
       else None)"
    using m by (simp add: l1_get_def Let_def entry_of_def add.assoc)
  moreover have "fst (l1_get ?c h' neg' t) = fst (l1_get c h' neg' t)" if "(h', neg') \<noteq> (h, neg)"
  proof -
    have "map_of (sh_m (l1_shards ?c (l1_shard h'))) \<lparr>lk_h = h', lk_neg = neg'\<rparr> =
        map_of (sh_m (l1_shards c (l1_shard h'))) \<lparr>lk_h = h', lk_neg = neg'\<rparr>"
      using that m other[of "l1_shard h'"] by (cases "l1_shard h' = l1_shard h") auto
    then show ?thesis unfolding l1_get_def Let_def by (simp split: option.split)
  qed
  ultimately show ?thesis by blast
qed

section \<open>Properties\<close>

text \<open>The in-process cache stays within its capacity: on every reachable cache with a positive cap, each
  shard holds at most that many entries, one per key, each in the shard its hash selects.\<close>

theorem l1_cache_bounded:
  assumes "l1_reach c" "0 < l1_cap c"
  shows "int (length (sh_m (l1_shards c i))) \<le> l1_cap c \<and> gm_wf (sh_m (l1_shards c i)) \<and>
     (k \<in> fst ` set (sh_m (l1_shards c i)) \<longrightarrow> i = l1_shard (lk_h k) \<and> i < l1Shards)"
proof -
  have "l1_ok c" by (rule l1_reach_ok[OF assms(1)])
  moreover have "l1_shard h < l1Shards" for h :: "64 word"
  proof -
    have "(of_nat l1Shards - 1 :: 64 word) = mask 8" by (simp add: l1Shards_def mask_eq_exp_minus_1)
    then have "l1_shard h = unat (take_bit 8 h)" by (simp only: l1_shard_def take_bit_eq_mask)
    also have "\<dots> = take_bit 8 (unat h)" by (rule unsigned_take_bit_eq)
    finally have "l1_shard h = unat h mod 2 ^ 8" by (simp only: take_bit_eq_mod)
    then show ?thesis by (simp add: l1Shards_def)
  qed
  moreover have "keys_home i (l1_shards c i)" "shard_ok (l1_cap c) (l1_shards c i)" using calculation(1) by (simp_all add: l1_ok_def)
  ultimately show ?thesis using assms(2) unfolding shard_ok_def keys_home_def by metis
qed

theorem l1_cache_bounded_witness:
  "int (length (sh_m (l1_shards (l1_set (newL1 1 0) 3 False [7] 5 10 []) 3))) \<le> 1"
proof -
  have "l1_cap (l1_set (newL1 1 0) 3 False [7] 5 10 []) = 1" by (simp add: l1_set_def newL1_def Let_def)
  then show ?thesis using l1_cache_bounded[OF reach_set[OF reach_newL1], of 1 0 3 False "[7]" 5 10 "[]" 3] by simp
qed

text \<open>What is stored is served for as long as it should be, and no longer. When the key is already cached or
  its shard has room, a stored response is returned fresh until its lifetime ends, then as stale for the
  serve-stale window, and then not at all; storing it changes no lookup of another question.\<close>

theorem l1_set_get:
  assumes "0 < ttl" "raw \<noteq> []" "0 \<le> l1_staleTTL c" "t - now \<le> maxDuration" "now + ttl - t \<le> maxDuration"
    "l1_room c h neg"
  shows "fst (l1_get (l1_set c h neg raw ttl now off) h neg t) =
      (if t < now + ttl then Some \<lparr>hit_raw = raw, hit_remaining = now + ttl - t, hit_stale = False, hit_ttlOff = off\<rparr>
       else if t < now + ttl + l1_staleTTL c then Some \<lparr>hit_raw = raw, hit_remaining = 0, hit_stale = True, hit_ttlOff = off\<rparr>
       else None)
    \<and> ((h', neg') \<noteq> (h, neg) \<longrightarrow> fst (l1_get (l1_set c h neg raw ttl now off) h' neg' t) = fst (l1_get c h' neg' t))"
  by (rule l1_store_find[OF assms])

theorem l1_set_get_witness:
  "fst (l1_get (l1_set (newL1 4 20) 3 False [7, 8] 5 10 [0]) 3 False 12) =
      Some \<lparr>hit_raw = [7, 8], hit_remaining = 3, hit_stale = False, hit_ttlOff = [0]\<rparr> \<and>
   fst (l1_get (l1_set (newL1 4 20) 3 False [7, 8] 5 10 [0]) 4 False 12) = None"
  using l1_set_get[of 5 "[7, 8]" "newL1 4 20" 12 10 3 False "[0]" 4 False]
  by (simp add: newL1_def maxDuration_def l1_get_def l1_room_def)

text \<open>Eviction is the second-chance policy: storing a new response in a full shard evicts exactly one key - the
  first in queue order that has not been read since its last chance, and the new key itself when every
  cached entry has been read. (Whenever the queue holds no key twice.)\<close>

theorem l1_second_chance:
  assumes "l1_reach c" "0 < l1_cap c" "0 < ttl" "raw \<noteq> []"
    "s = l1_shards c (l1_shard h)" "k = \<lparr>lk_h = h, lk_neg = neg\<rparr>" "k \<notin> fst ` set (sh_m s)"
    "int (length (sh_m s)) = l1_cap c" "distinct (sh_queue s)" "k \<notin> set (sh_queue s)"
  shows "fst ` set (sh_m (l1_shards (l1_set c h neg raw ttl now off) (l1_shard h))) =
      insert k (fst ` set (sh_m s)) - {case victim (sh_m s) (sh_queue s) of None \<Rightarrow> k | Some v \<Rightarrow> v}"
proof -
  let ?e = "entry_of c raw ttl now off"
  let ?t = "s\<lparr>sh_m := gm_put k ?e (sh_m s), sh_queue := sh_queue s @ [k]\<rparr>"
  have wf: "gm_wf (sh_m s)" using l1_reach_ok[OF assms(1)] by (simp add: l1_ok_def shard_ok_def assms(5))
  have "victim (gm_put k ?e (sh_m s)) (sh_queue s) = victim (sh_m s) (sh_queue s)" unfolding victim_def
    by (rule find_cong_set) (use assms(10) in auto)
  then have "victim (sh_m ?t) (sh_queue ?t) = Some (case victim (sh_m s) (sh_queue s) of None \<Rightarrow> k | Some v \<Rightarrow> v)"
    by (simp add: victim_def find_append entry_of_def split: option.splits)
  moreover have "int (length (sh_m ?t)) = l1_cap c + 1" using assms(7,8) by (simp add: length_put_new)
  ultimately have "fst ` set (sh_m (evicted (l1_cap c) s k ?e)) =
      insert k (fst ` set (sh_m s)) - {case victim (sh_m s) (sh_queue s) of None \<Rightarrow> k | Some v \<Rightarrow> v}"
    using evictToCap_victim[of ?t "l1_cap c"] wf assms(9,10) unfolding evicted_def by simp
  moreover have "map_of (sh_m s) k = None" using assms(7) by (simp add: map_of_eq_None_iff)
  ultimately show ?thesis using l1_set_new[OF assms(3,4,2) _ refl, of h neg] unfolding assms(5,6) by simp
qed

theorem l1_second_chance_witness:
  "fst ` set (sh_m (l1_shards (l1_set (l1_set (newL1 1 0) 3 False [7] 5 10 []) 259 False [8] 5 11 []) 3)) = {\<lparr>lk_h = 259, lk_neg = False\<rparr>}"
proof -
  let ?c = "l1_set (newL1 1 0) 3 False [7] 5 10 []"
  have sh: "l1_shard 259 = 3" "l1_shard 3 = 3" by code_simp+
  have s: "l1_shards ?c 3 = \<lparr>sh_m = [(\<lparr>lk_h = 3, lk_neg = False\<rparr>, \<lparr>le_raw = [7], le_ttlOff = [], le_expires = 15, le_staleUntil = 15,
      le_referenced = False\<rparr>)], sh_queue = [\<lparr>lk_h = 3, lk_neg = False\<rparr>]\<rparr>"
    by (simp add: l1_set_def newL1_def Let_def sh evictToCap_room)
  have "l1_cap ?c = 1" by (simp add: l1_set_def newL1_def Let_def)
  then have cap: "0 < l1_cap ?c" and full: "int (length (sh_m (l1_shards ?c 3))) = l1_cap ?c" using s by simp_all
  have "fst ` set (sh_m (l1_shards (l1_set ?c 259 False [8] 5 11 []) (l1_shard 259))) =
      insert \<lparr>lk_h = 259, lk_neg = False\<rparr> (fst ` set (sh_m (l1_shards ?c (l1_shard 259)))) -
      {case victim (sh_m (l1_shards ?c (l1_shard 259))) (sh_queue (l1_shards ?c (l1_shard 259))) of None \<Rightarrow> \<lparr>lk_h = 259, lk_neg = False\<rparr> | Some v \<Rightarrow> v}"
    by (rule l1_second_chance[OF reach_set[OF reach_newL1] cap _ _ refl refl]) (use full in \<open>simp_all add: sh s\<close>)
  moreover have "victim (sh_m (l1_shards ?c 3)) (sh_queue (l1_shards ?c 3)) = Some \<lparr>lk_h = 3, lk_neg = False\<rparr>"
    by (simp add: victim_def s)
  ultimately show ?thesis unfolding sh by (simp add: s insert_Diff_if)
qed

text \<open>The queue is not bounded: a key that expires and is stored again gets one more queue slot each time, and
  compaction, which keeps every slot whose key is live, removes none of them. (The comments promise that
  the queue's memory stays bounded.)\<close>

theorem l1_queue_unbounded:
  assumes "0 < mx" "0 \<le> st"
  shows "length (sh_queue (l1_shards (((\<lambda>c. l1_set (snd (l1_get c h neg (1 + st))) h neg [7] 1 0 []) ^^ n) (newL1 mx st)) (l1_shard h))) = n"
proof -
  let ?k = "\<lparr>lk_h = h, lk_neg = neg\<rparr>"
  let ?e = "\<lparr>le_raw = [7], le_ttlOff = [], le_expires = 1, le_staleUntil = 1 + st, le_referenced = False\<rparr>"
  let ?f = "\<lambda>c. l1_set (snd (l1_get c h neg (1 + st))) h neg [7] 1 0 []"
  have "l1_cap ((?f ^^ n) (newL1 mx st)) = mx \<and> l1_staleTTL ((?f ^^ n) (newL1 mx st)) = st \<and>
     sh_queue (l1_shards ((?f ^^ n) (newL1 mx st)) (l1_shard h)) = replicate n ?k \<and>
     (sh_m (l1_shards ((?f ^^ n) (newL1 mx st)) (l1_shard h)) = [] \<or> sh_m (l1_shards ((?f ^^ n) (newL1 mx st)) (l1_shard h)) = [(?k, ?e)])"
  proof (induction n)
    case (Suc n)
    define c where "c = (?f ^^ n) (newL1 mx st)"
    define g where "g = snd (l1_get c h neg (1 + st))"
    have c: "l1_cap c = mx" "l1_staleTTL c = st" "sh_queue (l1_shards c (l1_shard h)) = replicate n ?k"
      "sh_m (l1_shards c (l1_shard h)) = [] \<or> sh_m (l1_shards c (l1_shard h)) = [(?k, ?e)]"
      using Suc by (auto simp: c_def)
    have g: "l1_cap g = mx" "l1_staleTTL g = st" "l1_shards g (l1_shard h) = \<lparr>sh_m = [], sh_queue = replicate n ?k\<rparr>"
      using c assms(2) by (auto simp: g_def l1_get_def l1_del_def Let_def intro!: l1Shard.equality)
    have "evicted mx (l1_shards g (l1_shard h)) ?k ?e = \<lparr>sh_m = [(?k, ?e)], sh_queue = replicate n ?k @ [?k]\<rparr>"
      using assms(1) g(3) by (simp add: evicted_def evictToCap_room)
    moreover have "compact \<lparr>sh_m = [(?k, ?e)], sh_queue = replicate n ?k @ [?k]\<rparr> = \<lparr>sh_m = [(?k, ?e)], sh_queue = replicate n ?k @ [?k]\<rparr>"
      by (simp add: compact_def)
    moreover have "entry_of g [7] 1 0 [] = ?e" by (simp add: entry_of_def g(2))
    ultimately have "l1_set g h neg [7] 1 0 [] = on_shard g h \<lparr>sh_m = [(?k, ?e)], sh_queue = replicate n ?k @ [?k]\<rparr>"
      using l1_set_new[of 1 "[7]" g h neg _ 0 "[]", OF _ _ _ _ refl] assms(1) g by simp
    moreover have "(?f ^^ Suc n) (newL1 mx st) = l1_set g h neg [7] 1 0 []" by (simp add: g_def c_def)
    ultimately show ?case using g by (simp only:) (simp add: replicate_append_same)
  qed (simp add: newL1_def)
  then show ?thesis by simp
qed

theorem l1_queue_unbounded_witness:
  "length (sh_queue (l1_shards (((\<lambda>c. l1_set (snd (l1_get c 3 False (1 + 5))) 3 False [7] 1 0 []) ^^ 1000) (newL1 2 5)) (l1_shard 3))) = 1000"
  by (rule l1_queue_unbounded) simp_all

end
