(* ===== verification/DnsWire.thy ===== *)
theory DnsWire
  imports Prelude NetIP
begin

text \<open>
  Packed DNS messages as the cache handles them: the walk that finds the TTL field of every answer record
  (\<^verbatim>\<open>ttlOffsets\<close>, \<^verbatim>\<open>skipPackedName\<close> of \<^verbatim>\<open>internal/cache/cache.go\<close>) and the in-place rewrite of a stored message for one client
  (the byte part of \<^verbatim>\<open>writeRaw\<close> of \<^verbatim>\<open>internal/dnsserver/handler.go\<close>). A message is its list of bytes.
\<close>

section \<open>Big-endian fields\<close>

definition rd16 :: "byte list \<Rightarrow> nat \<Rightarrow> nat" where
  "rd16 msg i = 256 * unat (msg ! i) + unat (msg ! (i + 1))"

definition get32 :: "byte list \<Rightarrow> nat \<Rightarrow> 32 word" where
  "get32 msg i = word_of_int (uint (msg ! i) * 16777216 + uint (msg ! (i + 1)) * 65536 + uint (msg ! (i + 2)) * 256 + uint (msg ! (i + 3)))"

definition put32 :: "32 word \<Rightarrow> byte list" where
  "put32 v = [word_of_int (uint v div 16777216), word_of_int (uint v div 65536), word_of_int (uint v div 256), word_of_int (uint v)]"

lemma length_put32 [simp]: "length (put32 v) = 4"
  by (simp add: put32_def)

section \<open>Finding the TTL fields\<close>

function skipPackedName :: "byte list \<Rightarrow> nat \<Rightarrow> nat option" where
  "skipPackedName msg off =
     (if off \<ge> length msg then None
      else
        let b = msg ! off in
        if b AND 0xC0 = 0xC0 then (if off + 2 > length msg then None else Some (off + 2))
        else if b = 0 then Some (off + 1)
        else
          let off' = off + 1 + unat b in
          if off' > length msg then None else skipPackedName msg off')"
  by pat_completeness auto
termination
  by (relation "measure (\<lambda>(msg, off). length msg - off)") auto

declare skipPackedName.simps [simp del]

fun skipQuestions :: "byte list \<Rightarrow> nat \<Rightarrow> nat \<Rightarrow> nat option" where
  "skipQuestions msg 0 off = Some off"
| "skipQuestions msg (Suc qd) off =
     (case skipPackedName msg off of
        None \<Rightarrow> None
      | Some n \<Rightarrow> if n + 4 > length msg then None else skipQuestions msg qd (n + 4))"

text \<open>The answer loop; \<^verbatim>\<open>nil\<close> (no offsets) is the value \<^term>\<open>None\<close>.\<close>

fun answerOffsets :: "byte list \<Rightarrow> nat \<Rightarrow> nat \<Rightarrow> 32 word list option" where
  "answerOffsets msg 0 off = Some []"
| "answerOffsets msg (Suc an) off =
     (case skipPackedName msg off of
        None \<Rightarrow> None
      | Some n \<Rightarrow>
          if n + 10 > length msg then None
          else
            let rdlen = rd16 msg (n + 8); off' = n + 10 + rdlen in
            if off' > length msg then None
            else case answerOffsets msg an off' of None \<Rightarrow> None | Some os \<Rightarrow> Some (of_nat (n + 4) # os))"

definition ttlOffsets :: "byte list \<Rightarrow> 32 word list" where
  "ttlOffsets msg =
     (if length msg < 12 then []
      else
        let qd = rd16 msg 4; an = rd16 msg 6 in
        if an = 0 then []
        else case skipQuestions msg qd 12 of
               None \<Rightarrow> []
             | Some off \<Rightarrow> (case answerOffsets msg an off of None \<Rightarrow> [] | Some os \<Rightarrow> os))"

text \<open>\<^verbatim>\<open>rcodeOf\<close>: the header's response code, SERVFAIL (2) when there is none.\<close>

definition rcodeOf :: "byte list \<Rightarrow> nat" where
  "rcodeOf raw = (if length raw < 4 then 2 else unat (raw ! 3 AND 0x0F))"

section \<open>Serving a stored message\<close>

text \<open>A TTL after \<open>elapsed\<close> seconds in the cache, as \<^verbatim>\<open>writeRaw\<close> and \<^verbatim>\<open>unpackEntry\<close> compute it; the conversion to
  \<^verbatim>\<open>uint32\<close> wraps.\<close>

definition rebaseTTL :: "int \<Rightarrow> 32 word \<Rightarrow> 32 word" where
  "rebaseTTL elapsed ttl = (if elapsed > 0 \<and> ttl > word_of_int elapsed then ttl - word_of_int elapsed else 1)"

definition overwrite :: "byte list \<Rightarrow> nat \<Rightarrow> byte list \<Rightarrow> byte list" where
  "overwrite buf i new = take i buf @ new @ drop (i + length new) buf"

fun patchTTLs :: "int \<Rightarrow> 32 word list \<Rightarrow> byte list \<Rightarrow> byte list" where
  "patchTTLs elapsed [] buf = buf"
| "patchTTLs elapsed (off # offs) buf =
     (if unat off + 4 > length buf then buf
      else patchTTLs elapsed offs (overwrite buf (unat off) (put32 (rebaseTTL elapsed (get32 buf (unat off))))))"

text \<open>The bytes \<^verbatim>\<open>writeRaw\<close> sends: the stored message with the request's id in its first two bytes and, for a
  positive entry, its answer TTLs rebased. A message shorter than two bytes does not occur: the
  writes \<^verbatim>\<open>buf[0], buf[1]\<close> go to a pooled buffer that is never smaller.\<close>

definition patchRaw :: "16 word \<Rightarrow> bool \<Rightarrow> int \<Rightarrow> 32 word list \<Rightarrow> byte list \<Rightarrow> byte list" where
  "patchRaw rid negative elapsed offs raw =
     (let buf = take (length raw) (overwrite raw 0 [ucast (drop_bit 8 rid), ucast rid])
      in if negative then buf else patchTTLs elapsed offs buf)"

section \<open>The wire format\<close>

text \<open>A name on the wire: labels of 1 to 63 bytes, ended by the root label or by a compression pointer.\<close>

datatype wname = WName "byte list list" "byte list"

fun enc_name :: "wname \<Rightarrow> byte list" where
  "enc_name (WName ls e) = concat (map (\<lambda>l. of_nat (length l) # l) ls) @ e"

fun ok_name :: "wname \<Rightarrow> bool" where
  "ok_name (WName ls e) \<longleftrightarrow> (\<forall>l \<in> set ls. 1 \<le> length l \<and> length l \<le> 63) \<and> (e = [0] \<or> length e = 2 \<and> e ! 0 AND 0xC0 = 0xC0)"

definition put16 :: "nat \<Rightarrow> byte list" where
  "put16 n = [of_nat (n div 256), of_nat (n mod 256)]"

record wrr =
  wr_name :: wname
  wr_fixed :: "byte list"
  wr_ttl :: "32 word"
  wr_data :: "byte list"

definition enc_rr :: "wrr \<Rightarrow> byte list" where
  "enc_rr r = enc_name (wr_name r) @ wr_fixed r @ put32 (wr_ttl r) @ put16 (length (wr_data r)) @ wr_data r"

definition ok_rr :: "wrr \<Rightarrow> bool" where
  "ok_rr r \<longleftrightarrow> ok_name (wr_name r) \<and> length (wr_fixed r) = 4 \<and> length (wr_data r) < 65536"

record wmsg =
  wm_id :: "16 word"
  wm_flags :: "byte list"
  wm_counts :: "byte list"
  wm_questions :: "(wname \<times> byte list) list"
  wm_answers :: "wrr list"
  wm_rest :: "byte list"

definition enc_msg :: "wmsg \<Rightarrow> byte list" where
  "enc_msg m = [ucast (drop_bit 8 (wm_id m)), ucast (wm_id m)] @ wm_flags m @ put16 (length (wm_questions m)) @ put16 (length (wm_answers m)) @
     wm_counts m @ concat (map (\<lambda>(n, f). enc_name n @ f) (wm_questions m)) @ concat (map enc_rr (wm_answers m)) @ wm_rest m"

definition ok_msg :: "wmsg \<Rightarrow> bool" where
  "ok_msg m \<longleftrightarrow> length (wm_flags m) = 2 \<and> length (wm_counts m) = 4 \<and> length (wm_questions m) < 65536 \<and> length (wm_answers m) < 65536 \<and>
     list_all (\<lambda>(n, f). ok_name n \<and> length f = 4) (wm_questions m) \<and> list_all ok_rr (wm_answers m) \<and> length (enc_msg m) < 65536"

text \<open>The positions of the TTL fields of records that start at \<open>off\<close>.\<close>

fun rr_offs :: "nat \<Rightarrow> wrr list \<Rightarrow> nat list" where
  "rr_offs off [] = []"
| "rr_offs off (r # rs) = (off + length (enc_name (wr_name r)) + 4) # rr_offs (off + length (enc_rr r)) rs"

section \<open>The walk follows the format\<close>

lemma label_byte:
  assumes "1 \<le> n" "n \<le> 63"
  shows "(of_nat n :: byte) AND 0xC0 \<noteq> 0xC0" "(of_nat n :: byte) \<noteq> 0" "unat (of_nat n :: byte) = n"
proof -
  show u: "unat (of_nat n :: byte) = n" using assms by (simp add: unat_of_nat)
  show "(of_nat n :: byte) \<noteq> 0" using u assms by auto
  have "(of_nat n :: byte) AND 0xC0 \<le> of_nat n" by (rule word_and_le2)
  moreover have "(of_nat n :: byte) < 0xC0" using u assms by (simp add: word_less_nat_alt)
  ultimately show "(of_nat n :: byte) AND 0xC0 \<noteq> 0xC0" by auto
qed

lemma nth_mid: "(pre @ x # post) ! length pre = x"
  by simp

lemma skip_name:
  "ok_name w \<Longrightarrow> skipPackedName (pre @ enc_name w @ post) (length pre) = Some (length pre + length (enc_name w))"
proof (cases w)
  case (WName ls e)
  assume "ok_name w"
  then have ls: "\<forall>l \<in> set ls. 1 \<le> length l \<and> length l \<le> 63" and e: "e = [0] \<or> length e = 2 \<and> e ! 0 AND 0xC0 = 0xC0"
    by (simp_all add: WName)
  have "skipPackedName (pre @ enc_name (WName ls e) @ post) (length pre) = Some (length pre + length (enc_name (WName ls e)))"
    using ls
  proof (induction ls arbitrary: pre)
    case Nil
    obtain b r where "e = b # r" using e by (cases e) auto
    then show ?case using e by (subst skipPackedName.simps) (auto simp: Let_def)
  next
    case (Cons l ls)
    note lb = label_byte[of "length l"]
    have l: "1 \<le> length l" "length l \<le> 63" using Cons.prems by auto
    have "skipPackedName (pre @ enc_name (WName (l # ls) e) @ post) (length pre) =
        skipPackedName ((pre @ of_nat (length l) # l) @ enc_name (WName ls e) @ post) (length (pre @ of_nat (length l) # l))"
      using lb[OF l] l by (subst skipPackedName.simps) (simp add: Let_def nth_mid)
    also have "\<dots> = Some (length (pre @ of_nat (length l) # l) + length (enc_name (WName ls e)))"
      by (rule Cons.IH) (use Cons.prems in simp)
    finally show ?case by simp
  qed
  then show ?thesis by (simp add: WName)
qed

lemma rd16_put16: "n < 65536 \<Longrightarrow> rd16 (pre @ put16 n @ post) (length pre) = n"
  by (simp add: rd16_def put16_def nth_append unat_of_nat)

lemma skip_questions:
  "list_all (\<lambda>(n, f). ok_name n \<and> length f = 4) qs \<Longrightarrow>
   skipQuestions (pre @ concat (map (\<lambda>(n, f). enc_name n @ f) qs) @ post) (length qs) (length pre) =
     Some (length pre + length (concat (map (\<lambda>(n, f). enc_name n @ f) qs)))"
proof (induction qs arbitrary: pre)
  case (Cons q qs)
  obtain n f where q: "q = (n, f)" by (cases q)
  have ok: "ok_name n" "length f = 4" using Cons.prems q by auto
  have "skipPackedName (pre @ concat (map (\<lambda>(n, f). enc_name n @ f) (q # qs)) @ post) (length pre) = Some (length pre + length (enc_name n))"
    using skip_name[OF ok(1), of pre "f @ concat (map (\<lambda>(n, f). enc_name n @ f) qs) @ post"] by (simp add: q)
  then show ?case using Cons.IH[of "pre @ enc_name n @ f"] Cons.prems ok by (simp add: q add.assoc)
qed simp

lemma answer_offsets:
  "list_all ok_rr rs \<Longrightarrow> answerOffsets (pre @ concat (map enc_rr rs) @ post) (length rs) (length pre) = Some (map of_nat (rr_offs (length pre) rs))"
proof (induction rs arbitrary: pre)
  case (Cons r rs)
  let ?n = "enc_name (wr_name r)" and ?tl = "concat (map enc_rr rs) @ post"
  have ok: "ok_name (wr_name r)" "length (wr_fixed r) = 4" "length (wr_data r) < 65536" using Cons.prems by (auto simp: ok_rr_def)
  have m: "pre @ concat (map enc_rr (r # rs)) @ post = pre @ ?n @ wr_fixed r @ put32 (wr_ttl r) @ put16 (length (wr_data r)) @ wr_data r @ ?tl"
    by (simp add: enc_rr_def)
  have 1: "skipPackedName (pre @ concat (map enc_rr (r # rs)) @ post) (length pre) = Some (length pre + length ?n)"
    unfolding m by (rule skip_name[OF ok(1)])
  have 2: "rd16 (pre @ concat (map enc_rr (r # rs)) @ post) (length pre + length ?n + 8) = length (wr_data r)"
    using rd16_put16[OF ok(3), of "pre @ ?n @ wr_fixed r @ put32 (wr_ttl r)" "wr_data r @ ?tl"] ok(2) unfolding m by (simp add: add.assoc)
  have l: "length (enc_rr r) = length ?n + 10 + length (wr_data r)" using ok(2) by (simp add: enc_rr_def put16_def)
  show ?case using Cons.IH[of "pre @ enc_rr r"] Cons.prems 1 2 l
    by (simp add: Let_def add.assoc)
qed simp

text \<open>The header of a message, before its questions.\<close>

definition enc_hdr :: "wmsg \<Rightarrow> byte list" where
  "enc_hdr m = [ucast (drop_bit 8 (wm_id m)), ucast (wm_id m)] @ wm_flags m @ put16 (length (wm_questions m)) @ put16 (length (wm_answers m)) @ wm_counts m"

abbreviation enc_questions :: "wmsg \<Rightarrow> byte list" where
  "enc_questions m \<equiv> concat (map (\<lambda>(n, f). enc_name n @ f) (wm_questions m))"

lemma enc_msg_parts: "enc_msg m = enc_hdr m @ enc_questions m @ concat (map enc_rr (wm_answers m)) @ wm_rest m"
  by (simp add: enc_msg_def enc_hdr_def)

lemma length_hdr: "ok_msg m \<Longrightarrow> length (enc_hdr m) = 12"
  by (simp add: enc_hdr_def ok_msg_def put16_def)

lemma hdr_counts:
  assumes "ok_msg m"
  shows "rd16 (enc_msg m) 4 = length (wm_questions m)" "rd16 (enc_msg m) 6 = length (wm_answers m)"
proof -
  let ?i = "[ucast (drop_bit 8 (wm_id m)), ucast (wm_id m)] :: byte list" and ?q = "put16 (length (wm_questions m))" and ?a = "put16 (length (wm_answers m))"
  have m: "enc_msg m = (?i @ wm_flags m) @ ?q @ ?a @ wm_counts m @ enc_questions m @ concat (map enc_rr (wm_answers m)) @ wm_rest m"
    and m': "enc_msg m = (?i @ wm_flags m @ ?q) @ ?a @ wm_counts m @ enc_questions m @ concat (map enc_rr (wm_answers m)) @ wm_rest m"
    by (simp_all add: enc_msg_def)
  have l: "length (?i @ wm_flags m) = 4" "length (?i @ wm_flags m @ ?q) = 6" using assms by (simp_all add: ok_msg_def put16_def)
  have "rd16 ((?i @ wm_flags m) @ ?q @ ?a @ wm_counts m @ enc_questions m @ concat (map enc_rr (wm_answers m)) @ wm_rest m)
      (length (?i @ wm_flags m)) = length (wm_questions m)" by (rule rd16_put16) (use assms in \<open>simp add: ok_msg_def\<close>)
  then show "rd16 (enc_msg m) 4 = length (wm_questions m)" by (simp only: l(1) m)
  have "rd16 ((?i @ wm_flags m @ ?q) @ ?a @ wm_counts m @ enc_questions m @ concat (map enc_rr (wm_answers m)) @ wm_rest m)
      (length (?i @ wm_flags m @ ?q)) = length (wm_answers m)" by (rule rd16_put16) (use assms in \<open>simp add: ok_msg_def\<close>)
  then show "rd16 (enc_msg m) 6 = length (wm_answers m)" by (simp only: l(2) m')
qed

definition ttl_positions :: "wmsg \<Rightarrow> nat list" where
  "ttl_positions m = rr_offs (12 + length (enc_questions m)) (wm_answers m)"

lemma ttlOffsets_enc:
  assumes "ok_msg m"
  shows "ttlOffsets (enc_msg m) = map of_nat (ttl_positions m)"
proof (cases "wm_answers m = []")
  case False
  let ?pre = "enc_hdr m @ enc_questions m"
  have q: "skipQuestions (enc_msg m) (length (wm_questions m)) 12 = Some (12 + length (enc_questions m))"
    using skip_questions[of "wm_questions m" "enc_hdr m"] assms length_hdr[OF assms] unfolding enc_msg_parts by (simp add: ok_msg_def)
  have "answerOffsets (enc_msg m) (length (wm_answers m)) (length ?pre) = Some (map of_nat (rr_offs (length ?pre) (wm_answers m)))"
    using answer_offsets[of "wm_answers m" ?pre] assms unfolding enc_msg_parts by (simp add: ok_msg_def)
  moreover have "length ?pre = 12 + length (enc_questions m)" using length_hdr[OF assms] by simp
  moreover have "\<not> length (enc_msg m) < 12" using length_hdr[OF assms] by (simp add: enc_msg_parts)
  ultimately show ?thesis using q hdr_counts[OF assms] False by (simp add: ttlOffsets_def ttl_positions_def)
qed (use hdr_counts[OF assms] in \<open>simp add: ttlOffsets_def ttl_positions_def\<close>)

section \<open>The rewrite changes the TTLs only\<close>

lemma bytes4_lin: "x = y * 256 + a \<Longrightarrow> y = z * 256 + b \<Longrightarrow> z = w * 256 + c \<Longrightarrow> w * 16777216 + c * 65536 + b * 256 + a = (x :: int)"
  by simp

lemma get32_put32: "get32 (pre @ put32 v @ post) (length pre) = v"
proof -
  have b: "uint (word_of_int x :: byte) = x mod 256" for x by (simp add: uint_word_of_int)
  have "uint v < 4294967296" using uint_lt2p[of v] by simp
  then have "uint v div 16777216 < 256" "0 \<le> uint v div 16777216" using uint_ge_0[of v] by (simp_all add: pos_imp_zdiv_nonneg_iff)
  then have t: "(uint v div 16777216) mod 256 = uint v div 16777216" by (rule mod_pos_pos_trivial[rotated])
  have d: "uint v div 65536 = uint v div 256 div 256" "uint v div 16777216 = uint v div 256 div 256 div 256"
    by (simp_all add: zdiv_zmult2_eq[symmetric])
  have "(uint v div 16777216) mod 256 * 16777216 + (uint v div 65536) mod 256 * 65536 + (uint v div 256) mod 256 * 256 + uint v mod 256 = uint v"
    unfolding t unfolding d by (rule bytes4_lin) (rule div_mult_mod_eq[symmetric])+
  moreover have "(pre @ put32 v @ post) ! length pre = word_of_int (uint v div 16777216)"
    "(pre @ put32 v @ post) ! (length pre + 1) = word_of_int (uint v div 65536)"
    "(pre @ put32 v @ post) ! (length pre + 2) = word_of_int (uint v div 256)"
    "(pre @ put32 v @ post) ! (length pre + 3) = word_of_int (uint v)" by (simp_all add: put32_def nth_append)
  ultimately show ?thesis by (simp only: get32_def b word_of_int_uint)
qed

lemma overwrite_mid: "length new = length old \<Longrightarrow> overwrite (pre @ old @ post) (length pre) new = pre @ new @ post"
  by (simp add: overwrite_def)

lemma unat_small: "n < 65536 \<Longrightarrow> unat (of_nat n :: 32 word) = n"
  by (simp add: unat_of_nat)

definition rebase_rr :: "int \<Rightarrow> wrr \<Rightarrow> wrr" where
  "rebase_rr elapsed r = r\<lparr>wr_ttl := rebaseTTL elapsed (wr_ttl r)\<rparr>"

lemma length_enc_rebase [simp]: "length (enc_rr (rebase_rr elapsed r)) = length (enc_rr r)"
  by (simp add: enc_rr_def rebase_rr_def)

lemma patch_answers:
  "list_all ok_rr rs \<Longrightarrow> length (pre @ concat (map enc_rr rs) @ post) < 65536 \<Longrightarrow>
   patchTTLs elapsed (map of_nat (rr_offs (length pre) rs)) (pre @ concat (map enc_rr rs) @ post) =
     pre @ concat (map (enc_rr \<circ> rebase_rr elapsed) rs) @ post"
proof (induction rs arbitrary: pre)
  case (Cons r rs)
  let ?n = "enc_name (wr_name r)" and ?tl = "put16 (length (wr_data r)) @ wr_data r @ concat (map enc_rr rs) @ post"
  let ?buf = "pre @ concat (map enc_rr (r # rs)) @ post" and ?o = "length pre + length ?n + 4"
  have f: "length (wr_fixed r) = 4" using Cons.prems(1) by (simp add: ok_rr_def)
  have m: "?buf = (pre @ ?n @ wr_fixed r) @ put32 (wr_ttl r) @ ?tl" by (simp add: enc_rr_def)
  have o: "length (pre @ ?n @ wr_fixed r) = ?o" using f by simp
  have lt: "?o + 4 \<le> length ?buf" unfolding m using o by simp
  then have u: "unat (of_nat ?o :: 32 word) = ?o" using Cons.prems(2) by (intro unat_small) linarith
  have g: "get32 ?buf ?o = wr_ttl r" unfolding m using get32_put32[of "pre @ ?n @ wr_fixed r"] o by metis
  have sp: "overwrite ?buf ?o (put32 (rebaseTTL elapsed (wr_ttl r))) = (pre @ enc_rr (rebase_rr elapsed r)) @ concat (map enc_rr rs) @ post"
    unfolding m using overwrite_mid[of "put32 (rebaseTTL elapsed (wr_ttl r))" "put32 (wr_ttl r)" "pre @ ?n @ wr_fixed r" ?tl] o
    by (simp add: enc_rr_def rebase_rr_def add.assoc)
  have "patchTTLs elapsed (map of_nat (rr_offs (length pre) (r # rs))) ?buf =
      patchTTLs elapsed (map of_nat (rr_offs (length (pre @ enc_rr (rebase_rr elapsed r))) rs)) ((pre @ enc_rr (rebase_rr elapsed r)) @ concat (map enc_rr rs) @ post)"
  proof -
    have "\<not> ?o + 4 > length ?buf" using lt by linarith
    then have "patchTTLs elapsed (of_nat ?o # os) ?buf =
        patchTTLs elapsed os ((pre @ enc_rr (rebase_rr elapsed r)) @ concat (map enc_rr rs) @ post)" for os
      by (simp only: patchTTLs.simps u g sp if_False)
    moreover have "length (pre @ enc_rr (rebase_rr elapsed r)) = length pre + length (enc_rr r)" by simp
    ultimately show ?thesis by (simp only: rr_offs.simps list.map)
  qed
  also have "\<dots> = (pre @ enc_rr (rebase_rr elapsed r)) @ concat (map (enc_rr \<circ> rebase_rr elapsed) rs) @ post"
    by (rule Cons.IH) (use Cons.prems in auto)
  finally show ?case by (simp only: append_assoc list.map concat.simps comp_def)
qed simp

lemma patchRaw_enc:
  assumes "ok_msg m"
  shows "patchRaw rid False elapsed (ttlOffsets (enc_msg m)) (enc_msg m) =
     enc_msg (m\<lparr>wm_id := rid, wm_answers := map (rebase_rr elapsed) (wm_answers m)\<rparr>)"
proof -
  have sp: "overwrite (enc_msg m) 0 [ucast (drop_bit 8 rid), ucast rid] = enc_msg (m\<lparr>wm_id := rid\<rparr>)"
    by (simp add: overwrite_def enc_msg_def)
  have len: "length (enc_msg (m\<lparr>wm_id := rid\<rparr>)) = length (enc_msg m)" by (simp add: enc_msg_def)
  then have ok: "ok_msg (m\<lparr>wm_id := rid\<rparr>)" using assms by (simp add: ok_msg_def)
  let ?m = "m\<lparr>wm_id := rid\<rparr>" and ?pre = "enc_hdr (m\<lparr>wm_id := rid\<rparr>) @ enc_questions m"
  have "patchTTLs elapsed (map of_nat (ttl_positions m)) (enc_msg ?m) = ?pre @ concat (map (enc_rr \<circ> rebase_rr elapsed) (wm_answers m)) @ wm_rest m"
    using patch_answers[of "wm_answers m" ?pre "wm_rest m" elapsed] ok length_hdr[OF ok]
    unfolding enc_msg_parts ttl_positions_def by (simp add: ok_msg_def enc_msg_parts)
  moreover have "enc_msg (?m\<lparr>wm_answers := map (rebase_rr elapsed) (wm_answers m)\<rparr>) =
      ?pre @ concat (map (enc_rr \<circ> rebase_rr elapsed) (wm_answers m)) @ wm_rest m" by (simp add: enc_msg_parts enc_hdr_def)
  ultimately show ?thesis using sp len by (simp add: patchRaw_def ttlOffsets_enc[OF assms])
qed

section \<open>Properties\<close>

text \<open>C13: the walk over a packed message finds exactly the TTL fields: on every well-formed message, with compressed or
  uncompressed names, the offsets are the positions of the answer records' TTL fields, in order.\<close>

theorem ttlOffsets_exact:
  assumes "ok_msg m"
  shows "ttlOffsets (enc_msg m) = map of_nat (ttl_positions m)"
  by (rule ttlOffsets_enc[OF assms])

text \<open>What is left of a TTL, in whole numbers: at least one second, and one second while the clock has not advanced.\<close>

definition aged :: "int \<Rightarrow> 32 word \<Rightarrow> nat" where
  "aged elapsed ttl = (if elapsed \<le> 0 then 1 else nat (max 1 (uint ttl - elapsed)))"

lemma rebaseTTL_aged: "elapsed < 2 ^ 32 \<Longrightarrow> rebaseTTL elapsed ttl = of_nat (aged elapsed ttl)"
  by (cases "0 < elapsed") (auto simp: rebaseTTL_def aged_def word_less_def uint_word_of_int take_bit_int_eq_self max_def wi_hom_syms
      simp flip: word_of_int_uint)

text \<open>C12: serving a stored response from its bytes is serving the message: the patched bytes are the encoding of the
  stored message with the request's id and every answer TTL reduced by the seconds elapsed (one second at least, and one second
  while none has elapsed), and nothing else changed.\<close>

theorem raw_serve_exact:
  assumes "ok_msg m" "elapsed < 2 ^ 32"
  shows "patchRaw rid False elapsed (ttlOffsets (enc_msg m)) (enc_msg m) =
     enc_msg (m\<lparr>wm_id := rid, wm_answers := map (\<lambda>r. r\<lparr>wr_ttl := of_nat (aged elapsed (wr_ttl r))\<rparr>) (wm_answers m)\<rparr>)"
  using patchRaw_enc[OF assms(1)] by (simp add: rebase_rr_def[abs_def] rebaseTTL_aged[OF assms(2)])

text \<open>A one-question, one-answer message: \<^verbatim>\<open>a.\<close> with a compressed answer name and a TTL of 300.\<close>

definition sample_msg :: wmsg where
  "sample_msg = \<lparr>wm_id = 0x1234, wm_flags = [0x81, 0x80], wm_counts = [0, 0, 0, 0],
     wm_questions = [(WName [[97]] [0], [0, 1, 0, 1])],
     wm_answers = [\<lparr>wr_name = WName [] [0xC0, 12], wr_fixed = [0, 1, 0, 1], wr_ttl = 300, wr_data = [192, 0, 2, 1]\<rparr>], wm_rest = []\<rparr>"

lemma sample_msg_ok: "ok_msg sample_msg"
  by (simp add: sample_msg_def ok_msg_def ok_rr_def enc_msg_def enc_rr_def put16_def)

theorem ttlOffsets_exact_witness: "ttlOffsets (enc_msg sample_msg) = [25]"
  using ttlOffsets_exact[OF sample_msg_ok] by (simp add: ttl_positions_def sample_msg_def)

theorem raw_serve_exact_witness:
  "patchRaw 7 False 100 (ttlOffsets (enc_msg sample_msg)) (enc_msg sample_msg) =
     enc_msg (sample_msg\<lparr>wm_id := 7, wm_answers := [\<lparr>wr_name = WName [] [0xC0, 12], wr_fixed = [0, 1, 0, 1], wr_ttl = 200, wr_data = [192, 0, 2, 1]\<rparr>]\<rparr>)"
  using raw_serve_exact[OF sample_msg_ok, of 100 7] by (simp add: sample_msg_def aged_def)

end
