(* ===== verification/RespCache.thy ===== *)
theory RespCache
  imports L1Cache DnsWire DnsMsg
begin

text \<open>
  The two-layer response cache of \<^verbatim>\<open>internal/cache/cache.go\<close>: the in-process layer of \<^verbatim>\<open>l1.go\<close> in front of a
  Redis-compatible server. The server is not part of the program: each call takes what the server answers
  (\<^verbatim>\<open>MGET\<close>, \<^verbatim>\<open>GET\<close> with \<^verbatim>\<open>PTTL\<close>) as an argument and returns what is sent to it (\<open>l2Write\<close>). Clock readings are arguments
  in nanoseconds; \<^verbatim>\<open>time.Unix\<close> seconds are derived from them. The hit counters and the set of refreshes in
  flight are fields of the state.
\<close>

section \<open>Keys\<close>

definition lower_byte :: "char \<Rightarrow> 64 word" where
  "lower_byte c = of_char (lower_char c)"

definition keyHash :: "Question \<Rightarrow> 64 word" where
  "keyHash q =
     (let h = foldl (\<lambda>h c. (h XOR lower_byte c) * 1099511628211) 14695981039346656037 (q_Name q);
          h = (h XOR ucast (q_Qtype q)) * 1099511628211
      in (h XOR ucast (q_Qclass q)) * 1099511628211)"

section \<open>Store timestamps\<close>

definition cacheEntryPrefixLen :: nat where "cacheEntryPrefixLen = 8"

text \<open>\<^verbatim>\<open>PutUint64\<close> of a Unix time and \<^verbatim>\<open>int64(Uint64)\<close> of the first eight bytes.\<close>

definition put64 :: "int \<Rightarrow> byte list" where
  "put64 v = map (\<lambda>k. word_of_int (v div 256 ^ k)) [7, 6, 5, 4, 3, 2, 1, 0]"

definition get64 :: "byte list \<Rightarrow> int" where
  "get64 bs = sint (word_of_int (foldl (\<lambda>a b. a * 256 + uint b) 0 (take 8 bs)) :: 64 word)"

definition unixOf :: "gotime \<Rightarrow> int" where
  "unixOf t = t div Second"

section \<open>State\<close>

record l2Write =
  w_key :: string
  w_val :: "byte list"
  w_ttl :: duration

record Cache =
  c_hasL2 :: bool
  c_l1 :: "l1Cache option"
  c_prefix :: string
  c_ttl :: duration
  c_negativeTTL :: duration
  c_lookupTimeout :: duration
  c_prefetch :: bool
  c_prefetching :: "64 word list"
  c_l1Hits :: int
  c_l1Misses :: int

definition cacheOf :: "bool \<Rightarrow> l1Cache option \<Rightarrow> duration \<Rightarrow> duration \<Rightarrow> Cache" where
  "cacheOf l2 l1 ttl negativeTTL = \<lparr>c_hasL2 = l2, c_l1 = l1, c_prefix = ''irongrid:dns:'', c_ttl = ttl, c_negativeTTL = negativeTTL,
     c_lookupTimeout = 0, c_prefetch = False, c_prefetching = [], c_l1Hits = 0, c_l1Misses = 0\<rparr>"

definition NewLocalOnly :: "duration \<Rightarrow> duration \<Rightarrow> int \<Rightarrow> duration \<Rightarrow> Cache" where
  "NewLocalOnly ttl negativeTTL l1Entries serveStale = cacheOf False (Some (newL1 l1Entries serveStale)) ttl negativeTTL"

text \<open>\<^verbatim>\<open>New\<close> once the server has answered.\<close>

definition NewCache :: "duration \<Rightarrow> duration \<Rightarrow> duration \<Rightarrow> int \<Rightarrow> Cache" where
  "NewCache ttl negativeTTL serveStale l1Entries =
     cacheOf True (if l1Entries > 0 then Some (newL1 l1Entries serveStale) else None) ttl negativeTTL"

definition SetLookupTimeout :: "Cache \<Rightarrow> duration \<Rightarrow> Cache" where
  "SetLookupTimeout c d = c\<lparr>c_lookupTimeout := d\<rparr>"

definition defaultLookupTimeout :: duration where "defaultLookupTimeout = 150000000"

definition budget :: "Cache \<Rightarrow> duration" where
  "budget c = (if c_lookupTimeout c > 0 then c_lookupTimeout c else defaultLookupTimeout)"

definition L1Counters :: "Cache \<Rightarrow> int \<times> int" where
  "L1Counters c = (c_l1Hits c, c_l1Misses c)"

definition EnablePrefetch :: "Cache \<Rightarrow> bool \<Rightarrow> Cache" where
  "EnablePrefetch c fn = c\<lparr>c_prefetch := fn\<rparr>"

definition msgKey :: "Cache \<Rightarrow> 64 word \<Rightarrow> string" where
  "msgKey c h = c_prefix c @ ''ans:'' @ hex_digits (unat h)"

definition negKey :: "Cache \<Rightarrow> 64 word \<Rightarrow> string" where
  "negKey c h = c_prefix c @ ''neg:'' @ hex_digits (unat h)"

section \<open>Prefetching\<close>

definition prefetchLead :: "Cache \<Rightarrow> duration" where
  "prefetchLead c = max (min (c_ttl c div 5) (2 * Minute)) Second"

definition negPrefetchLead :: "Cache \<Rightarrow> duration" where
  "negPrefetchLead c = max (c_negativeTTL c div 5) Second"

text \<open>Whether a refresh is started, and the state with the question marked as being refreshed; the mark is removed
  when the refresh ends.\<close>

definition maybePrefetch :: "Cache \<Rightarrow> 64 word \<Rightarrow> duration \<Rightarrow> bool \<Rightarrow> bool \<times> Cache" where
  "maybePrefetch c h remaining neg =
     (if \<not> c_prefetch c \<or> remaining \<le> 0 then (False, c)
      else
        let lead = (if neg then negPrefetchLead c else prefetchLead c) in
        if remaining > lead then (False, c)
        else if h \<in> set (c_prefetching c) then (False, c)
        else (True, c\<lparr>c_prefetching := h # c_prefetching c\<rparr>))"

definition prefetchDone :: "Cache \<Rightarrow> 64 word \<Rightarrow> Cache" where
  "prefetchDone c h = c\<lparr>c_prefetching := removeAll h (c_prefetching c)\<rparr>"

section \<open>Lookup\<close>

record LookupResult =
  lr_Raw :: "byte list"
  lr_Negative :: bool
  lr_Stale :: bool
  lr_StoredAt :: int
  lr_TTLOffsets :: "32 word list"

definition missResult :: LookupResult where
  "missResult = \<lparr>lr_Raw = [], lr_Negative = False, lr_Stale = False, lr_StoredAt = 0, lr_TTLOffsets = []\<rparr>"

definition positiveResult :: "byte list \<Rightarrow> 32 word list \<Rightarrow> LookupResult" where
  "positiveResult posRaw off =
     (if length posRaw \<le> cacheEntryPrefixLen then missResult
      else missResult\<lparr>lr_Raw := drop cacheEntryPrefixLen posRaw, lr_StoredAt := get64 (take cacheEntryPrefixLen posRaw), lr_TTLOffsets := off\<rparr>)"

definition negativeResult :: "byte list \<Rightarrow> LookupResult" where
  "negativeResult negRaw = missResult\<lparr>lr_Raw := negRaw, lr_Negative := True\<rparr>"

text \<open>The server's reply to an \<^verbatim>\<open>MGET\<close> of the two keys: \<^term>\<open>None\<close> for an error, and per key its value if it is present.\<close>

definition decodeMGetResult :: "byte list option list \<Rightarrow> (byte list option \<times> byte list option) option" where
  "decodeMGetResult vals =
     (case vals of
        [Some p, n] \<Rightarrow> Some (Some p, None)
      | [None, Some n] \<Rightarrow> Some (None, Some n)
      | _ \<Rightarrow> None)"

abbreviation with_l1 :: "Cache \<Rightarrow> (l1Cache \<Rightarrow> l1Cache) \<Rightarrow> Cache" where
  "with_l1 c f \<equiv> c\<lparr>c_l1 := map_option f (c_l1 c)\<rparr>"

text \<open>The part of \<^verbatim>\<open>Lookup\<close> after the first layer missed: \<open>stale\<close> is what it found that is past its lifetime.\<close>

definition lookupL2 :: "Cache \<Rightarrow> 64 word \<Rightarrow> gotime \<Rightarrow> byte list option list option \<Rightarrow> LookupResult \<Rightarrow> LookupResult \<times> Cache" where
  "lookupL2 c h now reply stale =
     (if \<not> c_hasL2 c then (stale, c)
      else case reply of
        None \<Rightarrow> (stale, c)
      | Some vals \<Rightarrow>
          (case decodeMGetResult vals of
             None \<Rightarrow> (stale, c)
           | Some (Some posRaw, _) \<Rightarrow>
               if length posRaw \<le> cacheEntryPrefixLen then (stale, c)
               else
                 let off = ttlOffsets (drop cacheEntryPrefixLen posRaw)
                 in (positiveResult posRaw off, with_l1 c (\<lambda>l1. l1_set l1 h False posRaw (c_ttl c) now off))
           | Some (None, Some negRaw) \<Rightarrow>
               (negativeResult negRaw, with_l1 c (\<lambda>l1. l1_set (l1_del l1 h False) h True negRaw (c_negativeTTL c) now []))
           | Some (None, None) \<Rightarrow> (stale, c)))"

text \<open>The part of \<^verbatim>\<open>Lookup\<close> after the positive probe found nothing fresh.\<close>

definition lookupNeg :: "Cache \<Rightarrow> 64 word \<Rightarrow> l1Cache \<Rightarrow> gotime \<Rightarrow> byte list option list option \<Rightarrow> l1Hit option \<Rightarrow> LookupResult \<times> bool \<times> Cache" where
  "lookupNeg c h l1a now reply pos =
     (let (neg, l1b) = l1_get l1a h True now;
          stale = (case (pos, neg) of
                     (Some p, _) \<Rightarrow> (positiveResult (hit_raw p) (hit_ttlOff p))\<lparr>lr_Stale := True\<rparr>
                   | (None, Some n) \<Rightarrow> (negativeResult (hit_raw n))\<lparr>lr_Stale := True\<rparr>
                   | (None, None) \<Rightarrow> missResult);
          miss = (case lookupL2 (c\<lparr>c_l1 := Some l1b, c_l1Misses := c_l1Misses c + 1\<rparr>) h now reply stale of (r, c') \<Rightarrow> (r, False, c'))
      in case neg of
           Some n \<Rightarrow>
             if \<not> hit_stale n then
               let c1 = c\<lparr>c_l1 := Some l1b, c_l1Hits := c_l1Hits c + 1\<rparr>;
                   (started, c2) = (if rcodeOf (hit_raw n) \<noteq> RcodeServerFailure then maybePrefetch c1 h (hit_remaining n) True else (False, c1))
               in (negativeResult (hit_raw n), started, c2)
             else miss
         | None \<Rightarrow> miss)"

text \<open>\<^verbatim>\<open>Lookup\<close>: the result, whether a background refresh was started, and the cache. \<open>reply\<close> is what the server answers
  if it is asked.\<close>

definition Lookup :: "Cache \<Rightarrow> Question \<Rightarrow> gotime \<Rightarrow> byte list option list option \<Rightarrow> LookupResult \<times> bool \<times> Cache" where
  "Lookup c q now reply =
     (let h = keyHash q in
      case c_l1 c of
        None \<Rightarrow> (case lookupL2 c h now reply missResult of (r, c') \<Rightarrow> (r, False, c'))
      | Some l1 \<Rightarrow>
          let (pos, l1a) = l1_get l1 h False now in
          (case pos of
             Some p \<Rightarrow>
               if \<not> hit_stale p then
                 (case maybePrefetch (c\<lparr>c_l1 := Some l1a, c_l1Hits := c_l1Hits c + 1\<rparr>) h (hit_remaining p) False of
                    (started, c') \<Rightarrow> (positiveResult (hit_raw p) (hit_ttlOff p), started, c'))
               else lookupNeg c h l1a now reply (Some p)
           | None \<Rightarrow> lookupNeg c h l1a now reply None))"

text \<open>\<^verbatim>\<open>Fresh\<close>, the warmer's probe: no counters, no prefetch; like every probe it marks what it reads.\<close>

definition Fresh :: "Cache \<Rightarrow> Question \<Rightarrow> gotime \<Rightarrow> byte list option list option \<Rightarrow> bool \<times> Cache" where
  "Fresh c q now reply =
     (let h = keyHash q;
          fresh = (\<lambda>hit. case hit of None \<Rightarrow> False | Some p \<Rightarrow> \<not> hit_stale p \<and> hit_raw p \<noteq> []);
          l2 = (\<lambda>c. (c_hasL2 c \<and> (case reply of None \<Rightarrow> False | Some vals \<Rightarrow> list_ex (\<lambda>v. v \<noteq> None) vals), c))
      in case c_l1 c of
           None \<Rightarrow> l2 c
         | Some l1 \<Rightarrow>
             let (pos, l1a) = l1_get l1 h False now in
             if fresh pos then (True, c\<lparr>c_l1 := Some l1a\<rparr>)
             else
               let (neg, l1b) = l1_get l1a h True now in
               if fresh neg then (True, c\<lparr>c_l1 := Some l1b\<rparr>) else l2 (c\<lparr>c_l1 := Some l1b\<rparr>))"

section \<open>Decoded reads\<close>

definition rebaseAnswers :: "int \<Rightarrow> Msg \<Rightarrow> Msg" where
  "rebaseAnswers elapsed m = m\<lparr>m_Answer := map (\<lambda>rr. rr\<lparr>rr_Hdr := (rr_Hdr rr)\<lparr>h_Ttl := rebaseTTL elapsed (h_Ttl (rr_Hdr rr))\<rparr>\<rparr>) (m_Answer m)\<rparr>"

definition unpackEntry :: "dnsLib \<Rightarrow> byte list \<Rightarrow> gotime \<Rightarrow> Msg option" where
  "unpackEntry lib raw now =
     (if length raw \<le> cacheEntryPrefixLen then None
      else
        let stored = get64 (take cacheEntryPrefixLen raw) in
        case Unpack lib (drop cacheEntryPrefixLen raw) of
          None \<Rightarrow> None
        | Some m \<Rightarrow> Some (rebaseAnswers (unixOf now - stored) m))"

definition unpackNegative :: "dnsLib \<Rightarrow> byte list \<Rightarrow> Msg option" where
  "unpackNegative lib raw = Unpack lib raw"

text \<open>\<^verbatim>\<open>LookupResult.Msg\<close>.\<close>

definition resultMsg :: "dnsLib \<Rightarrow> LookupResult \<Rightarrow> gotime \<Rightarrow> Msg option" where
  "resultMsg lib res now =
     (if lr_Raw res = [] then None
      else if lr_Negative res then unpackNegative lib (lr_Raw res)
      else unpackEntry lib (put64 (lr_StoredAt res) @ lr_Raw res) now)"

text \<open>\<^verbatim>\<open>getPositive\<close> and \<^verbatim>\<open>getNegative\<close>; \<open>reply\<close> is the server's value with its remaining lifetime, already floored at 0
  as \<^verbatim>\<open>l2Get\<close> does.\<close>

definition l2Get :: "Cache \<Rightarrow> (byte list \<times> duration) option \<Rightarrow> (byte list \<times> duration) option" where
  "l2Get c reply = (if \<not> c_hasL2 c then None else map_option (\<lambda>(raw, pttl). (raw, max pttl 0)) reply)"

text \<open>Re-warming the first layer from the server slices the value past its timestamp, which panics (\<^term>\<open>None\<close>) on a
  value that is shorter.\<close>

definition getPositive :: "dnsLib \<Rightarrow> Cache \<Rightarrow> 64 word \<Rightarrow> gotime \<Rightarrow> (byte list \<times> duration) option \<Rightarrow> (Msg option \<times> Cache) option" where
  "getPositive lib c h now reply =
     (case c_l1 c of
        None \<Rightarrow> Some (case l2Get c reply of None \<Rightarrow> (None, c) | Some (raw, ttl) \<Rightarrow> (unpackEntry lib raw now, c))
      | Some l1 \<Rightarrow>
          let (hit, l1a) = l1_get l1 h False now;
              c1 = c\<lparr>c_l1 := Some l1a, c_l1Misses := c_l1Misses c + 1\<rparr>;
              miss = (case l2Get c reply of
                        None \<Rightarrow> Some (None, c1)
                      | Some (raw, ttl) \<Rightarrow>
                          if ttl > 0 then
                            (if length raw < cacheEntryPrefixLen then None
                             else Some (unpackEntry lib raw now,
                                    with_l1 c1 (\<lambda>l1. l1_set l1 h False raw ttl now (ttlOffsets (drop cacheEntryPrefixLen raw)))))
                          else Some (unpackEntry lib raw now, c1))
          in case hit of
               Some p \<Rightarrow> if \<not> hit_stale p then Some (unpackEntry lib (hit_raw p) now, c\<lparr>c_l1 := Some l1a, c_l1Hits := c_l1Hits c + 1\<rparr>) else miss
             | None \<Rightarrow> miss)"

definition Get :: "dnsLib \<Rightarrow> Cache \<Rightarrow> Question \<Rightarrow> gotime \<Rightarrow> (byte list \<times> duration) option \<Rightarrow> (Msg option \<times> Cache) option" where
  "Get lib c q now reply = getPositive lib c (keyHash q) now reply"

definition getNegative :: "dnsLib \<Rightarrow> Cache \<Rightarrow> 64 word \<Rightarrow> gotime \<Rightarrow> (byte list \<times> duration) option \<Rightarrow> Msg option \<times> Cache" where
  "getNegative lib c h now reply =
     (case c_l1 c of
        None \<Rightarrow> (case l2Get c reply of None \<Rightarrow> (None, c) | Some (raw, ttl) \<Rightarrow> (unpackNegative lib raw, c))
      | Some l1 \<Rightarrow>
          let (hit, l1a) = l1_get l1 h True now;
              c1 = c\<lparr>c_l1 := Some l1a, c_l1Misses := c_l1Misses c + 1\<rparr>;
              miss = (case l2Get c reply of
                        None \<Rightarrow> (None, c1)
                      | Some (raw, ttl) \<Rightarrow>
                          (unpackNegative lib raw, if ttl > 0 then with_l1 c1 (\<lambda>l1. l1_set l1 h True raw ttl now []) else c1))
          in case hit of
               Some p \<Rightarrow> if \<not> hit_stale p then (unpackNegative lib (hit_raw p), c\<lparr>c_l1 := Some l1a, c_l1Hits := c_l1Hits c + 1\<rparr>) else miss
             | None \<Rightarrow> miss)"

definition GetNegative :: "dnsLib \<Rightarrow> Cache \<Rightarrow> Question \<Rightarrow> gotime \<Rightarrow> (byte list \<times> duration) option \<Rightarrow> Msg option \<times> Cache" where
  "GetNegative lib c q now reply = getNegative lib c (keyHash q) now reply"

section \<open>Stores\<close>

text \<open>A write for the server, when there is one.\<close>

definition toL2 :: "Cache \<Rightarrow> string \<Rightarrow> byte list \<Rightarrow> duration \<Rightarrow> l2Write option" where
  "toL2 c key val ttl = (if c_hasL2 c then Some \<lparr>w_key = key, w_val = val, w_ttl = ttl\<rparr> else None)"

definition minTTL :: "RR list \<Rightarrow> 32 word" where
  "minTTL rrs = foldl (\<lambda>mn rr. if h_Ttl (rr_Hdr rr) < mn then h_Ttl (rr_Hdr rr) else mn) (- 1) rrs"

definition storeTTL :: "Cache \<Rightarrow> RR list \<Rightarrow> duration \<Rightarrow> duration" where
  "storeTTL c rrs capTTL =
     (let ttl = uint (minTTL rrs) * Second; cap = (if capTTL \<le> 0 then c_ttl c else capTTL)
      in if cap > 0 \<and> ttl > cap then cap else ttl)"

definition Cache_Set :: "dnsLib \<Rightarrow> Cache \<Rightarrow> Question \<Rightarrow> Msg \<Rightarrow> duration \<Rightarrow> gotime \<Rightarrow> Cache \<times> l2Write option" where
  "Cache_Set lib c q m capTTL now =
     (if m_Answer m = [] then (c, None)
      else
        let ttl = storeTTL c (m_Answer m) capTTL in
        if ttl \<le> 0 then (c, None)
        else case Pack lib (m\<lparr>m_Compress := True\<rparr>) of
          None \<Rightarrow> (c, None)
        | Some packed \<Rightarrow>
            let buf = put64 (unixOf now) @ packed; h = keyHash q
            in (with_l1 c (\<lambda>l1. l1_set l1 h False buf ttl now (ttlOffsets packed)), toL2 c (msgKey c h) buf ttl))"

definition SetNegative :: "dnsLib \<Rightarrow> Cache \<Rightarrow> Question \<Rightarrow> Msg \<Rightarrow> duration \<Rightarrow> gotime \<Rightarrow> Cache \<times> l2Write option" where
  "SetNegative lib c q m ttl0 now =
     (if m_Answer m \<noteq> [] then (c, None)
      else if m_Rcode m \<noteq> RcodeSuccess \<and> m_Rcode m \<noteq> RcodeNameError \<and> m_Rcode m \<noteq> RcodeServerFailure then (c, None)
      else
        let ttl = (if ttl0 \<le> 0 then c_negativeTTL c else ttl0) in
        if ttl \<le> 0 then (c, None)
        else case Pack lib m of
          None \<Rightarrow> (c, None)
        | Some raw \<Rightarrow>
            let h = keyHash q
            in (with_l1 c (\<lambda>l1. l1_set l1 h True raw ttl now []), toL2 c (negKey c h) raw ttl))"

definition FlushAll :: "Cache \<Rightarrow> Cache" where
  "FlushAll c = with_l1 c l1_flush"

section \<open>Timestamps and keys\<close>

lemma foldl_bytes: "foldl (\<lambda>a b. a * 256 + uint (b :: byte)) x bs = x * 256 ^ length bs + foldl (\<lambda>a b. a * 256 + uint b) 0 bs"
proof (induction bs arbitrary: x)
  case (Cons b bs)
  show ?case using Cons.IH[of "x * 256 + uint b"] Cons.IH[of "uint b"] by (simp add: algebra_simps)
qed simp

lemma bytes_val:
  "foldl (\<lambda>a b. a * 256 + uint b) 0 (map (\<lambda>k. word_of_int (v div 256 ^ k) :: byte) (rev [0..<n])) = v mod 256 ^ n"
proof (induction n)
  case (Suc n)
  have b: "uint (word_of_int x :: byte) = x mod 256" for x by (simp add: uint_word_of_int)
  have "(v div 256 ^ n) mod 256 * 256 ^ n + v mod 256 ^ n = v mod (256 ^ n * 256)"
    using mod_mult2_eq'[of v "256 ^ n" 256] by (simp add: mult.commute add.commute zmod_zmult2_eq)
  then show ?case
    using Suc foldl_bytes[of "(v div 256 ^ n) mod 256" "map (\<lambda>k. word_of_int (v div 256 ^ k)) (rev [0..<n])"]
    by (simp add: b mult.commute)
qed simp

lemma get64_put64: "- (2 ^ 63) \<le> v \<Longrightarrow> v < 2 ^ 63 \<Longrightarrow> get64 (put64 v @ r) = v"
proof -
  assume v: "- (2 ^ 63) \<le> v" "v < 2 ^ 63"
  have "[7, 6, 5, 4, 3, 2, 1, 0] = rev [0..<8::nat]" by (simp add: upt_rec)
  then have "foldl (\<lambda>a b. a * 256 + uint b) 0 (put64 v) = v mod 256 ^ 8" using bytes_val[of v 8] by (simp only: put64_def)
  moreover have "take 8 (put64 v @ r) = put64 v" by (simp add: put64_def)
  ultimately have "get64 (put64 v @ r) = sint (word_of_int (v mod 256 ^ 8) :: 64 word)" by (simp only: get64_def)
  also have "word_of_int (v mod 256 ^ 8) = (word_of_int v :: 64 word)" by (simp add: word_of_int_eq_iff take_bit_eq_mod)
  also have "sint (word_of_int v :: 64 word) = signed_take_bit 63 v" by (simp add: sint_sbintrunc')
  also have "\<dots> = v" using v by (simp add: signed_take_bit_int_eq_self)
  finally show ?thesis .
qed

lemma length_put64 [simp]: "length (put64 v) = 8"
  by (simp add: put64_def)

lemma keyHash_case:
  assumes "map lower_char (q_Name q) = map lower_char (q_Name q')" "q_Qtype q = q_Qtype q'" "q_Qclass q = q_Qclass q'"
  shows "keyHash q = keyHash q'"
proof -
  have "foldl (\<lambda>h c. (h XOR lower_byte c) * 1099511628211) x n = foldl (\<lambda>h c. (h XOR of_char c) * 1099511628211) x (map lower_char n)"
    for x :: "64 word" and n by (induction n arbitrary: x) (simp_all add: lower_byte_def)
  then show ?thesis using assms by (simp add: keyHash_def)
qed

section \<open>Properties\<close>

lemma positiveResult_stored:
  assumes "packed \<noteq> []" "- (2 ^ 63) \<le> v" "v < 2 ^ 63"
  shows "positiveResult (put64 v @ packed) off = missResult\<lparr>lr_Raw := packed, lr_StoredAt := v, lr_TTLOffsets := off\<rparr>"
proof -
  have "length packed \<noteq> 0" using assms(1) by simp
  then show ?thesis using get64_put64[OF assms(2,3), of "[]"] by (simp add: positiveResult_def cacheEntryPrefixLen_def)
qed

lemma Lookup_fresh:
  assumes "c_l1 c = Some l1" "fst (l1_get l1 (keyHash q) False t) = Some p" "\<not> hit_stale p"
  shows "fst (Lookup c q t reply) = positiveResult (hit_raw p) (hit_ttlOff p)"
  using assms by (auto simp: Lookup_def Let_def split: prod.splits)

lemma Lookup_stale:
  assumes "c_l1 c = Some l1" "fst (l1_get l1 (keyHash q) False t) = Some p" "hit_stale p"
    "fst (l1_get (snd (l1_get l1 (keyHash q) False t)) (keyHash q) True t) = None"
  shows "fst (Lookup c q t None) = (positiveResult (hit_raw p) (hit_ttlOff p))\<lparr>lr_Stale := True\<rparr>"
  using assms by (auto simp: Lookup_def lookupNeg_def lookupL2_def Let_def split: prod.splits)

lemma l1_get_other:
  assumes "map_of (sh_m (l1_shards l1 (l1_shard h))) \<lparr>lk_h = h, lk_neg = True\<rparr> = None"
  shows "fst (l1_get (snd (l1_get l1 h False t)) h True t) = None"
  using assms by (auto simp: l1_get_def l1_del_def Let_def split: option.splits)

text \<open>C11: an answer that is cached is served. After \<^verbatim>\<open>Set\<close> of a response in a layer with room, a lookup of the same
  question - in any letter case - within the stored lifetime returns exactly the packed response, the second it was
  stored at and the positions of its TTLs; past the lifetime, when the server does not answer and nothing
  negative is cached, it returns the same response marked stale for the serve-stale window.\<close>

theorem cache_set_lookup:
  assumes "c_l1 c = Some l1" "m_Answer m \<noteq> []" "Pack lib (m\<lparr>m_Compress := True\<rparr>) = Some packed" "packed \<noteq> []"
    "ttl = storeTTL c (m_Answer m) capTTL" "0 < ttl" "l1_room l1 (keyHash q) False" "0 \<le> l1_staleTTL l1"
    "map lower_char (q_Name q') = map lower_char (q_Name q)" "q_Qtype q' = q_Qtype q" "q_Qclass q' = q_Qclass q"
    "now \<le> t" "t - now \<le> maxDuration" "ttl \<le> maxDuration" "0 \<le> unixOf now" "unixOf now < 2 ^ 63"
    "r = missResult\<lparr>lr_Raw := packed, lr_StoredAt := unixOf now, lr_TTLOffsets := ttlOffsets packed\<rparr>"
  shows "(t < now + ttl \<longrightarrow> fst (Lookup (fst (Cache_Set lib c q m capTTL now)) q' t reply) = r)
    \<and> (now + ttl \<le> t \<and> t < now + ttl + l1_staleTTL l1 \<and>
        map_of (sh_m (l1_shards l1 (l1_shard (keyHash q)))) \<lparr>lk_h = keyHash q, lk_neg = True\<rparr> = None \<longrightarrow>
        fst (Lookup (fst (Cache_Set lib c q m capTTL now)) q' t None) = r\<lparr>lr_Stale := True\<rparr>)"
proof -
  let ?h = "keyHash q" and ?buf = "put64 (unixOf now) @ packed"
  define l1' where "l1' = l1_set l1 ?h False ?buf ttl now (ttlOffsets packed)"
  have q': "keyHash q' = ?h" by (rule keyHash_case[OF assms(9-11)])
  have c': "c_l1 (fst (Cache_Set lib c q m capTTL now)) = Some l1'"
    using assms(1-6) by (simp add: Cache_Set_def Let_def l1'_def)
  have pr: "positiveResult ?buf (ttlOffsets packed) = r"
    using positiveResult_stored[OF assms(4)] assms(15-17) by simp
  have ne: "?buf \<noteq> []" using assms(4) by simp
  have d: "now + ttl - t \<le> maxDuration" using assms(12,14) by simp
  note sf = l1_store_find[OF assms(6) ne assms(8,13) d assms(7), of "ttlOffsets packed" ?h True, folded l1'_def]
  have "fst (Lookup (fst (Cache_Set lib c q m capTTL now)) q' t reply) = r" if "t < now + ttl"
    using Lookup_fresh[OF c', of q' t] sf that pr by (simp add: q')
  moreover have "fst (Lookup (fst (Cache_Set lib c q m capTTL now)) q' t None) = r\<lparr>lr_Stale := True\<rparr>"
    if "now + ttl \<le> t" "t < now + ttl + l1_staleTTL l1" and n: "map_of (sh_m (l1_shards l1 (l1_shard ?h))) \<lparr>lk_h = ?h, lk_neg = True\<rparr> = None"
  proof -
    have "map_of (sh_m (l1_shards l1' (l1_shard ?h))) \<lparr>lk_h = ?h, lk_neg = True\<rparr> = None"
      using n l1_set_m[OF assms(6) ne assms(7)] by (simp add: l1'_def)
    then show ?thesis using Lookup_stale[OF c', of q' t] l1_get_other[of l1' ?h t] sf that pr by (simp add: q')
  qed
  ultimately show ?thesis by blast
qed

theorem cache_set_lookup_witness:
  "fst (Lookup (fst (Cache_Set (simpleLib\<lparr>Pack := \<lambda>m. Some (enc_msg sample_msg)\<rparr>) (NewLocalOnly (60 * Second) (30 * Second) 16 0)
      \<lparr>q_Name = ''a.'', q_Qtype = 1, q_Qclass = 1\<rparr>
      (emptyMsg\<lparr>m_Answer := [\<lparr>rr_Hdr = \<lparr>h_Name = ''a.'', h_Rrtype = 1, h_Class = 1, h_Ttl = 300\<rparr>, rr_Data = A [192, 0, 2, 1]\<rparr>]\<rparr>) 0 (1000 * Second)))
      \<lparr>q_Name = ''A.'', q_Qtype = 1, q_Qclass = 1\<rparr> (1050 * Second) None) =
   missResult\<lparr>lr_Raw := enc_msg sample_msg, lr_StoredAt := 1000, lr_TTLOffsets := ttlOffsets (enc_msg sample_msg)\<rparr>"
proof -
  let ?rr = "\<lparr>rr_Hdr = \<lparr>h_Name = ''a.'', h_Rrtype = 1, h_Class = 1, h_Ttl = 300\<rparr>, rr_Data = A [192, 0, 2, 1]\<rparr>"
  have ttl: "storeTTL (NewLocalOnly (60 * Second) (30 * Second) 16 0) [?rr] 0 = 60 * Second"
    by (simp add: storeTTL_def minTTL_def NewLocalOnly_def cacheOf_def Let_def)
  have u: "unixOf (1000 * Second) = 1000" by (simp add: unixOf_def)
  have ne: "enc_msg sample_msg \<noteq> []" by (simp add: enc_msg_def)
  have lc: "map lower_char ''A.'' = map lower_char ''a.''" by code_simp
  let ?c = "NewLocalOnly (60 * Second) (30 * Second) 16 0"
  let ?m = "emptyMsg\<lparr>m_Answer := [?rr]\<rparr>"
  have "storeTTL ?c (m_Answer ?m) 0 = 60 * Second" using ttl by simp
  then show ?thesis
    using cache_set_lookup[of ?c "newL1 16 0" ?m "simpleLib\<lparr>Pack := \<lambda>m. Some (enc_msg sample_msg)\<rparr>" "enc_msg sample_msg" "60 * Second" 0
        "\<lparr>q_Name = ''a.'', q_Qtype = 1, q_Qclass = 1\<rparr>" "\<lparr>q_Name = ''A.'', q_Qtype = 1, q_Qclass = 1\<rparr>" "1000 * Second" "1050 * Second" _ None, OF _ _ _ _ _ _ _ _ _ _ _ _ _ _ _ _ refl]
      ne lc u
    by (simp add: NewLocalOnly_def cacheOf_def newL1_def l1_room_def simpleLib_def maxDuration_def)
qed

text \<open>A lookup that is answered by the server overstays: the response is put in the first layer for the full
  configured cache lifetime, whatever is left of its own, so it is served as fresh for that long after the server
  has dropped it. (\<^verbatim>\<open>Get\<close> and \<^verbatim>\<open>GetNegative\<close> use the remaining lifetime, and their comments say why.)\<close>

theorem rewarm_overstays:
  assumes "c_hasL2 c" "c_l1 c = Some l1" "0 < c_ttl c" "0 \<le> l1_staleTTL l1" "8 < length posRaw" "h = keyHash q"
    "map_of (sh_m (l1_shards l1 (l1_shard h))) \<lparr>lk_h = h, lk_neg = False\<rparr> = None"
    "map_of (sh_m (l1_shards l1 (l1_shard h))) \<lparr>lk_h = h, lk_neg = True\<rparr> = None"
    "l1_room l1 h False" "now \<le> t" "t < now + c_ttl c" "c_ttl c \<le> maxDuration"
  shows "fst (Lookup (snd (snd (Lookup c q now (Some [Some posRaw, n])))) q t reply) = positiveResult posRaw (ttlOffsets (drop 8 posRaw))
    \<and> \<not> lr_Stale (fst (Lookup (snd (snd (Lookup c q now (Some [Some posRaw, n])))) q t reply))"
proof -
  let ?off = "ttlOffsets (drop 8 posRaw)"
  have "l1_get l1 h False now = (None, l1)" "l1_get l1 h True now = (None, l1)" using assms(7,8) by (simp_all add: l1_get_def)
  then have c': "c_l1 (snd (snd (Lookup c q now (Some [Some posRaw, n])))) = Some (l1_set l1 h False posRaw (c_ttl c) now ?off)"
    using assms(1,2,5,6) by (simp add: Lookup_def lookupNeg_def lookupL2_def decodeMGetResult_def cacheEntryPrefixLen_def Let_def)
  have ne: "posRaw \<noteq> []" and d: "t - now \<le> maxDuration" "now + c_ttl c - t \<le> maxDuration" using assms(5,10-12) by auto
  have "fst (Lookup (snd (snd (Lookup c q now (Some [Some posRaw, n])))) q t reply) = positiveResult posRaw ?off"
    using Lookup_fresh[OF c', of q t] l1_store_find[OF assms(3) ne assms(4) d assms(9), of ?off] assms(6,11) by simp
  then show ?thesis by (simp add: positiveResult_def missResult_def)
qed

theorem rewarm_overstays_witness:
  "\<not> lr_Stale (fst (Lookup (snd (snd (Lookup (NewCache (60 * Second) (30 * Second) 0 16) \<lparr>q_Name = ''a.'', q_Qtype = 1, q_Qclass = 1\<rparr> 5
      (Some [Some (replicate 30 7), None])))) \<lparr>q_Name = ''a.'', q_Qtype = 1, q_Qclass = 1\<rparr> (59 * Second) (Some [None, None])))"
  by (rule rewarm_overstays[of "NewCache (60 * Second) (30 * Second) 0 16" "newL1 16 0" "replicate 30 7" _ "\<lparr>q_Name = ''a.'', q_Qtype = 1, q_Qclass = 1\<rparr>" 5
      "59 * Second" None "Some [None, None]", OF _ _ _ _ _ refl, THEN conjunct2])
     (simp_all add: NewCache_def cacheOf_def newL1_def l1_room_def maxDuration_def)

lemma Lookup_fresh_neg:
  assumes "c_l1 c = Some l1" "map_of (sh_m (l1_shards l1 (l1_shard (keyHash q)))) \<lparr>lk_h = keyHash q, lk_neg = False\<rparr> = None"
    "fst (l1_get l1 (keyHash q) True t) = Some p" "\<not> hit_stale p"
  shows "fst (Lookup c q t reply) = negativeResult (hit_raw p)"
proof -
  have "l1_get l1 (keyHash q) False t = (None, l1)" using assms(2) by (simp add: l1_get_def)
  then show ?thesis using assms(1,3,4) by (auto simp: Lookup_def lookupNeg_def Let_def split: prod.splits)
qed

text \<open>Only statements about the name are cached as negative. A response with answers, or with a code other than
  NOERROR, NXDOMAIN and SERVFAIL - REFUSED, say - changes neither layer; one of the three is returned, marked
  negative, to every lookup of the question within its lifetime as long as nothing positive is cached.\<close>

theorem negative_cache_policy:
  assumes "c_l1 c = Some l1" "h = keyHash q"
  shows "(m_Answer m \<noteq> [] \<or> m_Rcode m \<notin> {RcodeSuccess, RcodeNameError, RcodeServerFailure} \<longrightarrow> SetNegative lib c q m ttl now = (c, None))
    \<and> (m_Answer m = [] \<and> m_Rcode m \<in> {RcodeSuccess, RcodeNameError, RcodeServerFailure} \<and> Pack lib m = Some raw \<and> raw \<noteq> [] \<and>
       0 < ttl \<and> ttl \<le> maxDuration \<and> 0 \<le> l1_staleTTL l1 \<and> l1_room l1 h True \<and> now \<le> t \<and> t < now + ttl \<and>
       map_of (sh_m (l1_shards l1 (l1_shard h))) \<lparr>lk_h = h, lk_neg = False\<rparr> = None \<longrightarrow>
       fst (Lookup (fst (SetNegative lib c q m ttl now)) q t reply) = negativeResult raw)"
proof (intro conjI impI)
  assume "m_Answer m \<noteq> [] \<or> m_Rcode m \<notin> {RcodeSuccess, RcodeNameError, RcodeServerFailure}"
  then show "SetNegative lib c q m ttl now = (c, None)" by (auto simp: SetNegative_def)
next
  assume a: "m_Answer m = [] \<and> m_Rcode m \<in> {RcodeSuccess, RcodeNameError, RcodeServerFailure} \<and> Pack lib m = Some raw \<and> raw \<noteq> [] \<and>
       0 < ttl \<and> ttl \<le> maxDuration \<and> 0 \<le> l1_staleTTL l1 \<and> l1_room l1 h True \<and> now \<le> t \<and> t < now + ttl \<and>
       map_of (sh_m (l1_shards l1 (l1_shard h))) \<lparr>lk_h = h, lk_neg = False\<rparr> = None"
  define l1' where "l1' = l1_set l1 h True raw ttl now []"
  have c': "c_l1 (fst (SetNegative lib c q m ttl now)) = Some l1'"
    using a assms by (auto simp: SetNegative_def Let_def l1'_def)
  have "map_of (sh_m (l1_shards l1' (l1_shard h))) \<lparr>lk_h = h, lk_neg = False\<rparr> = None"
    using a l1_set_m[of ttl raw l1 h True now "[]"] by (simp add: l1'_def)
  moreover have "fst (l1_get l1' h True t) = Some \<lparr>hit_raw = raw, hit_remaining = now + ttl - t, hit_stale = False, hit_ttlOff = []\<rparr>"
    using a l1_store_find[of ttl raw l1 t now h True "[]" h True] by (simp add: l1'_def)
  ultimately show "fst (Lookup (fst (SetNegative lib c q m ttl now)) q t reply) = negativeResult raw"
    using Lookup_fresh_neg[OF c', of q t] assms(2) by simp
qed

theorem negative_cache_policy_witness:
  "SetNegative simpleLib (NewLocalOnly 60 30 16 0) \<lparr>q_Name = ''a.'', q_Qtype = 1, q_Qclass = 1\<rparr> (emptyMsg\<lparr>m_Rcode := RcodeRefused\<rparr>) 5 7 =
     (NewLocalOnly 60 30 16 0, None) \<and>
   fst (Lookup (fst (SetNegative simpleLib (NewLocalOnly 60 30 16 0) \<lparr>q_Name = ''a.'', q_Qtype = 1, q_Qclass = 1\<rparr>
      (emptyMsg\<lparr>m_Rcode := RcodeNameError\<rparr>) 5 7)) \<lparr>q_Name = ''a.'', q_Qtype = 1, q_Qclass = 1\<rparr> 9 None) = negativeResult (replicate 12 0)"
proof
  let ?q = "\<lparr>q_Name = ''a.'', q_Qtype = 1, q_Qclass = 1\<rparr>"
  have l1: "c_l1 (NewLocalOnly 60 30 16 0) = Some (newL1 16 0)" by (simp add: NewLocalOnly_def cacheOf_def)
  show "SetNegative simpleLib (NewLocalOnly 60 30 16 0) ?q (emptyMsg\<lparr>m_Rcode := RcodeRefused\<rparr>) 5 7 = (NewLocalOnly 60 30 16 0, None)"
    by (rule negative_cache_policy[OF l1 refl, THEN conjunct1, rule_format])
       (simp add: RcodeRefused_def RcodeSuccess_def RcodeNameError_def RcodeServerFailure_def)
  show "fst (Lookup (fst (SetNegative simpleLib (NewLocalOnly 60 30 16 0) ?q (emptyMsg\<lparr>m_Rcode := RcodeNameError\<rparr>) 5 7)) ?q 9 None) =
      negativeResult (replicate 12 0)"
    by (rule negative_cache_policy[OF l1 refl, THEN conjunct2, rule_format])
       (simp add: emptyMsg_def simpleLib_def newL1_def l1_room_def maxDuration_def)
qed

end
