(* ===== verification/L2Writer.thy ===== *)
theory L2Writer
  imports RespCache "HOL-Library.Multiset"
begin

text \<open>
  The write-behind pool of \<^verbatim>\<open>internal/cache/cache.go\<close> (\<^verbatim>\<open>enqueueL2\<close>, \<^verbatim>\<open>runWriter\<close>, \<^verbatim>\<open>writeBatchL2\<close>, \<^verbatim>\<open>Close\<close>), one shard of it as a
  transition system: the shards are independent. A caller first reads \<^verbatim>\<open>wclosed\<close> and then sends; between the
  two other steps may run. \<open>ws_log\<close> is what the server has been sent, in order, \<open>ws_in\<close> what callers
  submitted; flushes that fail are left out.
\<close>

section \<open>State and operations\<close>

definition writeBatchSize :: nat where "writeBatchSize = 256"

record writerState =
  ws_in :: "l2Write multiset"
  ws_pending :: "l2Write multiset"
  ws_chan :: "l2Write list"
  ws_batch :: "l2Write list"
  ws_log :: "l2Write list"
  ws_closed :: bool
  ws_exited :: bool

definition startWriter :: writerState where
  "startWriter = \<lparr>ws_in = {#}, ws_pending = {#}, ws_chan = [], ws_batch = [], ws_log = [], ws_closed = False, ws_exited = False\<rparr>"

text \<open>The first half of \<^verbatim>\<open>enqueueL2\<close>: a closed writer is bypassed.\<close>

definition enqueueCheck :: "l2Write \<Rightarrow> writerState \<Rightarrow> writerState" where
  "enqueueCheck w st =
     (let st1 = st\<lparr>ws_in := ws_in st + {#w#}\<rparr> in
      if ws_closed st then st1\<lparr>ws_log := ws_log st @ [w]\<rparr> else st1\<lparr>ws_pending := ws_pending st + {#w#}\<rparr>)"

text \<open>The second half: the \<^verbatim>\<open>select\<close> sends when the queue has room and falls back to a direct write when it is full.\<close>

definition enqueueSend :: "nat \<Rightarrow> l2Write \<Rightarrow> writerState \<Rightarrow> writerState" where
  "enqueueSend queueCap w st =
     (let st1 = st\<lparr>ws_pending := ws_pending st - {#w#}\<rparr> in
      if length (ws_chan st) < queueCap then st1\<lparr>ws_chan := ws_chan st @ [w]\<rparr> else st1\<lparr>ws_log := ws_log st @ [w]\<rparr>)"

definition flushBatch :: "writerState \<Rightarrow> writerState" where
  "flushBatch st = st\<lparr>ws_log := ws_log st @ ws_batch st, ws_batch := []\<rparr>"

definition writerRecv :: "writerState \<Rightarrow> writerState" where
  "writerRecv st =
     (case ws_chan st of
        [] \<Rightarrow> st
      | w # r \<Rightarrow>
          let st1 = st\<lparr>ws_chan := r, ws_batch := ws_batch st @ [w]\<rparr> in
          if length (ws_batch st1) \<ge> writeBatchSize then flushBatch st1 else st1)"

definition closeWriter :: "writerState \<Rightarrow> writerState" where
  "closeWriter st = st\<lparr>ws_closed := True\<rparr>"

inductive w_step :: "nat \<Rightarrow> writerState \<Rightarrow> writerState \<Rightarrow> bool" for queueCap where
  w_check: "w_step queueCap st (enqueueCheck w st)"
| w_send: "w \<in># ws_pending st \<Longrightarrow> w_step queueCap st (enqueueSend queueCap w st)"
| w_recv: "\<not> ws_exited st \<Longrightarrow> w_step queueCap st (writerRecv st)"
| w_tick: "\<not> ws_exited st \<Longrightarrow> w_step queueCap st (flushBatch st)"
| w_close: "w_step queueCap st (closeWriter st)"
| w_exit: "ws_closed st \<Longrightarrow> \<not> ws_exited st \<Longrightarrow> ws_chan st = [] \<Longrightarrow> w_step queueCap st ((flushBatch st)\<lparr>ws_exited := True\<rparr>)"

definition w_reach :: "nat \<Rightarrow> writerState \<Rightarrow> bool" where
  "w_reach queueCap st \<longleftrightarrow> (w_step queueCap)\<^sup>*\<^sup>* startWriter st"

inductive_cases w_stepE: "w_step queueCap st st'"

section \<open>Nothing is lost or duplicated\<close>

definition w_inv :: "nat \<Rightarrow> writerState \<Rightarrow> bool" where
  "w_inv queueCap st \<longleftrightarrow>
     ws_in st = ws_pending st + mset (ws_chan st) + mset (ws_batch st) + mset (ws_log st) \<and>
     length (ws_chan st) \<le> queueCap \<and> length (ws_batch st) < writeBatchSize \<and> (ws_exited st \<longrightarrow> ws_closed st \<and> ws_batch st = [])"

lemma w_inv_flush: "w_inv n st \<Longrightarrow> w_inv n (flushBatch st)"
  by (simp add: w_inv_def flushBatch_def writeBatchSize_def)

lemma w_inv_recv: "w_inv n st \<Longrightarrow> \<not> ws_exited st \<Longrightarrow> w_inv n (writerRecv st)"
  by (cases "ws_chan st") (auto simp: w_inv_def writerRecv_def flushBatch_def writeBatchSize_def Let_def)

lemma w_inv_check: "w_inv n st \<Longrightarrow> w_inv n (enqueueCheck w st)"
  by (auto simp: w_inv_def enqueueCheck_def Let_def)

lemma w_inv_send: "w_inv n st \<Longrightarrow> w \<in># ws_pending st \<Longrightarrow> w_inv n (enqueueSend n w st)"
  by (auto simp: w_inv_def enqueueSend_def Let_def dest!: multi_member_split)

lemma w_step_inv: "w_step n st st' \<Longrightarrow> w_inv n st \<Longrightarrow> w_inv n st'"
proof (induction rule: w_step.induct)
  case (w_exit st)
  then show ?case by (simp add: w_inv_def flushBatch_def writeBatchSize_def)
qed (simp_all add: w_inv_flush w_inv_recv w_inv_check w_inv_send, simp add: w_inv_def closeWriter_def)

lemma w_reach_inv: "w_reach n st \<Longrightarrow> w_inv n st"
proof -
  assume "w_reach n st"
  then have "(w_step n)\<^sup>*\<^sup>* startWriter st" by (simp add: w_reach_def)
  then show ?thesis
  proof (induction rule: rtranclp_induct)
    case base
    show ?case by (simp add: w_inv_def startWriter_def writeBatchSize_def)
  qed (simp add: w_step_inv)
qed

lemma w_stepsI: "(w_step n)\<^sup>*\<^sup>* a b \<Longrightarrow> w_step n b c \<Longrightarrow> (w_step n)\<^sup>*\<^sup>* a c"
  by (rule rtranclp.rtrancl_into_rtrancl)

section \<open>After the writer has exited\<close>

lemma exited_step: "w_step n st st' \<Longrightarrow> ws_exited st \<Longrightarrow> ws_exited st' \<and> (\<exists>r. ws_chan st' = ws_chan st @ r)"
  by (induction rule: w_step.induct) (auto simp: enqueueCheck_def enqueueSend_def closeWriter_def Let_def)

lemma exited_steps: "(w_step n)\<^sup>*\<^sup>* st st' \<Longrightarrow> ws_exited st \<Longrightarrow> ws_exited st' \<and> (\<exists>r. ws_chan st' = ws_chan st @ r)"
  by (induction rule: rtranclp_induct) (auto dest!: exited_step)

section \<open>Properties\<close>

text \<open>The write-behind pool accounts for every write: in every interleaving of callers, writer and shutdown, what
  callers submitted is exactly what is still on its way, queued, batched or sent to the server; the queue and
  the batch stay within their sizes; and once callers and queue are empty and the writer has exited, the
  server has been sent every write exactly once.\<close>

theorem l2_writes_accounted:
  assumes "w_reach queueCap st"
  shows "ws_in st = ws_pending st + mset (ws_chan st) + mset (ws_batch st) + mset (ws_log st) \<and>
     length (ws_chan st) \<le> queueCap \<and> length (ws_batch st) < 256 \<and>
     (ws_exited st \<and> ws_pending st = {#} \<and> ws_chan st = [] \<longrightarrow> mset (ws_log st) = ws_in st)"
  using w_reach_inv[OF assms] by (auto simp: w_inv_def writeBatchSize_def)

text \<open>Two writes of one key, for the examples.\<close>

definition older :: l2Write where "older = \<lparr>w_key = ''k'', w_val = [1], w_ttl = 1\<rparr>"
definition newer :: l2Write where "newer = \<lparr>w_key = ''k'', w_val = [2], w_ttl = 1\<rparr>"

definition sampleExit :: writerState where
  "sampleExit = (flushBatch (closeWriter (writerRecv (enqueueSend 1 older (enqueueCheck older startWriter)))))\<lparr>ws_exited := True\<rparr>"

lemma sample_run: "w_reach 1 sampleExit"
proof -
  let ?e = "enqueueSend 1 older (enqueueCheck older startWriter)"
  let ?f = "(flushBatch (closeWriter (writerRecv ?e)))\<lparr>ws_exited := True\<rparr>"
  have "(w_step 1)\<^sup>*\<^sup>* startWriter (enqueueCheck older startWriter)" by (rule w_stepsI[OF rtranclp.rtrancl_refl w_check])
  from w_stepsI[OF this w_send[of older]] have "(w_step 1)\<^sup>*\<^sup>* startWriter ?e" by (simp add: enqueueCheck_def startWriter_def)
  from w_stepsI[OF this w_recv] have "(w_step 1)\<^sup>*\<^sup>* startWriter (writerRecv ?e)" by (simp add: enqueueSend_def enqueueCheck_def startWriter_def)
  from w_stepsI[OF w_stepsI[OF this w_close] w_exit] have "(w_step 1)\<^sup>*\<^sup>* startWriter ?f"
    by (simp add: enqueueSend_def enqueueCheck_def startWriter_def closeWriter_def writerRecv_def writeBatchSize_def)
  then show ?thesis by (simp add: w_reach_def sampleExit_def)
qed

theorem l2_writes_accounted_witness: "mset (ws_log sampleExit) = ws_in sampleExit \<and> length (ws_batch sampleExit) < 256"
  using l2_writes_accounted[OF sample_run]
  by (simp add: sampleExit_def enqueueSend_def enqueueCheck_def startWriter_def closeWriter_def writerRecv_def writeBatchSize_def flushBatch_def)

text \<open>Two of the pool's promises do not hold in every interleaving. A full queue lets a newer write of a key
  overtake an older one that is still queued, so the server keeps the older value; and a caller that has read
  \<^verbatim>\<open>wclosed\<close> before \<^verbatim>\<open>Close\<close> sends to a queue nobody reads again: that write is never sent to the server.\<close>

theorem l2_reorder_and_late_write:
  "(\<exists>st. w_reach 1 st \<and> ws_log st = [newer, older] \<and> ws_in st = {#older, newer#} \<and> ws_closed st = False) \<and>
   (\<exists>st. w_reach 1 st \<and> ws_exited st \<and> ws_log st = [] \<and>
      (\<nexists>st'. (w_step 1)\<^sup>*\<^sup>* st st' \<and> older \<notin> set (ws_chan st')))"
proof
  let ?a = "enqueueSend 1 older (enqueueCheck older startWriter)"
  let ?b = "enqueueSend 1 newer (enqueueCheck newer ?a)"
  let ?c = "flushBatch (writerRecv ?b)"
  have "(w_step 1)\<^sup>*\<^sup>* startWriter (enqueueCheck older startWriter)" by (rule w_stepsI[OF rtranclp.rtrancl_refl w_check])
  from w_stepsI[OF this w_send[of older]] have a: "(w_step 1)\<^sup>*\<^sup>* startWriter ?a" by (simp add: enqueueCheck_def startWriter_def)
  from w_stepsI[OF w_stepsI[OF a w_check] w_send[of newer]] have "(w_step 1)\<^sup>*\<^sup>* startWriter ?b"
    by (simp add: enqueueCheck_def enqueueSend_def startWriter_def)
  from w_stepsI[OF w_stepsI[OF this w_recv] w_tick] have "(w_step 1)\<^sup>*\<^sup>* startWriter ?c"
    by (simp add: enqueueCheck_def enqueueSend_def startWriter_def writerRecv_def writeBatchSize_def)
  then have "w_reach 1 ?c" by (simp add: w_reach_def)
  moreover have "ws_log ?c = [newer, older] \<and> ws_in ?c = {#older, newer#} \<and> ws_closed ?c = False"
    by (simp add: enqueueSend_def enqueueCheck_def startWriter_def writerRecv_def writeBatchSize_def flushBatch_def)
  ultimately show "\<exists>st. w_reach 1 st \<and> ws_log st = [newer, older] \<and> ws_in st = {#older, newer#} \<and> ws_closed st = False" by blast
next
  let ?p = "enqueueCheck older startWriter"
  let ?x = "(flushBatch (closeWriter ?p))\<lparr>ws_exited := True\<rparr>"
  let ?s = "enqueueSend 1 older ?x"
  have "(w_step 1)\<^sup>*\<^sup>* startWriter ?p" by (rule w_stepsI[OF rtranclp.rtrancl_refl w_check])
  from w_stepsI[OF w_stepsI[OF this w_close] w_exit] have "(w_step 1)\<^sup>*\<^sup>* startWriter ?x"
    by (simp add: enqueueCheck_def startWriter_def closeWriter_def)
  from w_stepsI[OF this w_send[of older]] have "w_reach 1 ?s"
    by (simp add: w_reach_def enqueueCheck_def startWriter_def closeWriter_def flushBatch_def)
  moreover have s: "ws_exited ?s" "ws_log ?s = []" "ws_chan ?s = [older]"
    by (simp_all add: enqueueSend_def enqueueCheck_def startWriter_def closeWriter_def flushBatch_def)
  moreover have "\<nexists>st'. (w_step 1)\<^sup>*\<^sup>* ?s st' \<and> older \<notin> set (ws_chan st')" using exited_steps[OF _ s(1)] s(3) by fastforce
  ultimately show "\<exists>st. w_reach 1 st \<and> ws_exited st \<and> ws_log st = [] \<and> (\<nexists>st'. (w_step 1)\<^sup>*\<^sup>* st st' \<and> older \<notin> set (ws_chan st'))" by blast
qed

end
