(* ===== verification/Responses.thy ===== *)
theory Responses
  imports FilterLists DnsWire GoEncoding
begin

text \<open>
  The replies the server builds itself: block responses (\<^verbatim>\<open>internal/filter/response.go\<close>), local records (\<^verbatim>\<open>BuildAnswer\<close> of
  \<^verbatim>\<open>rewrite.go\<close>) and the message helpers of \<^verbatim>\<open>internal/dnsserver/handler.go\<close>: EDNS options, cookies, padding, TTL caps, the
  write path that fits a reply to its client and transport, and reverse names.
\<close>

section \<open>Block responses and local records\<close>

definition IPv4zero :: IP where "IPv4zero = [0, 0, 0, 0]"
definition IPv6zero :: IP where "IPv6zero = replicate 16 0"

definition blockAnswerRR :: "Question \<Rightarrow> IP \<Rightarrow> 32 word \<Rightarrow> RR option" where
  "blockAnswerRR q ip ttl =
     (let hdr = \<lparr>h_Name = q_Name q, h_Rrtype = q_Qtype q, h_Class = q_Qclass q, h_Ttl = ttl\<rparr>; v4 = (To4 ip \<noteq> []) in
      if q_Qtype q = TypeA \<and> v4 then Some \<lparr>rr_Hdr = hdr, rr_Data = A (To4 ip)\<rparr>
      else if q_Qtype q = TypeA \<and> \<not> v4 then Some \<lparr>rr_Hdr = hdr, rr_Data = A IPv4zero\<rparr>
      else if q_Qtype q = TypeAAAA \<and> \<not> v4 then Some \<lparr>rr_Hdr = hdr, rr_Data = AAAA ip\<rparr>
      else if q_Qtype q = TypeAAAA \<and> v4 then Some \<lparr>rr_Hdr = hdr, rr_Data = AAAA IPv6zero\<rparr>
      else None)"

definition BuildBlockResponse :: "dnsLib \<Rightarrow> Msg \<Rightarrow> string \<Rightarrow> 32 word \<Rightarrow> Msg option" where
  "BuildBlockResponse lib req mode ttl =
     (case m_Question req of
        [] \<Rightarrow> None
      | q # _ \<Rightarrow>
          let m = (SetReply lib req)\<lparr>m_RecursionAvailable := True\<rparr> in
          Some (if mode = ''refused'' then m\<lparr>m_Rcode := RcodeRefused\<rparr>
                else if mode = ''nxdomain'' \<or> mode = [] then m\<lparr>m_Rcode := RcodeNameError\<rparr>
                else
                  let ip = ParseIP mode in
                  if ip = [] then m\<lparr>m_Rcode := RcodeRefused\<rparr>
                  else
                    let m1 = m\<lparr>m_Rcode := RcodeSuccess\<rparr> in
                    case blockAnswerRR q ip ttl of None \<Rightarrow> m1 | Some rr \<Rightarrow> m1\<lparr>m_Answer := m_Answer m1 @ [rr]\<rparr>))"

text \<open>The record one rule of \<^verbatim>\<open>BuildAnswer\<close>'s loop contributes.\<close>

definition ruleRR :: "dnsLib \<Rightarrow> string \<Rightarrow> 16 word \<Rightarrow> RewriteRule \<Rightarrow> RR option" where
  "ruleRR lib qname qtype ru =
     (let hdr = (\<lambda>t. \<lparr>h_Name = Fqdn lib qname, h_Rrtype = t, h_Class = ClassINET, h_Ttl = ru_TTL ru\<rparr>) in
      if ru_Type ru = TypeCNAME then Some \<lparr>rr_Hdr = hdr TypeCNAME, rr_Data = CNAME (Fqdn lib (ru_Value ru))\<rparr>
      else if ru_Type ru = TypeA \<and> qtype = TypeA then
        (let ip = To4 (ParseIP (ru_Value ru)) in if ip \<noteq> [] then Some \<lparr>rr_Hdr = hdr TypeA, rr_Data = A ip\<rparr> else None)
      else if ru_Type ru = TypeAAAA \<and> qtype = TypeAAAA then
        (let ip = ParseIP (ru_Value ru) in if ip \<noteq> [] then Some \<lparr>rr_Hdr = hdr TypeAAAA, rr_Data = AAAA ip\<rparr> else None)
      else None)"

definition BuildAnswer :: "dnsLib \<Rightarrow> Msg \<Rightarrow> RewriteRule list \<Rightarrow> string \<Rightarrow> 16 word \<Rightarrow> Msg option" where
  "BuildAnswer lib r rules qname qtype =
     (let m = (SetReply lib r)\<lparr>m_Authoritative := True\<rparr>; rrs = List.map_filter (ruleRR lib qname qtype) rules
      in if rrs = [] then None else Some (m\<lparr>m_Answer := m_Answer m @ rrs\<rparr>))"

section \<open>Reply helpers\<close>

definition newReply :: "dnsLib \<Rightarrow> Msg \<Rightarrow> Msg" where
  "newReply lib r = (SetReply lib r)\<lparr>m_RecursionAvailable := True\<rparr>"

definition refusedReply :: "dnsLib \<Rightarrow> Msg \<Rightarrow> Msg" where
  "refusedReply lib r = (SetReply lib r)\<lparr>m_Rcode := RcodeRefused\<rparr>"

definition answerIPs :: "Msg \<Rightarrow> IP list" where
  "answerIPs m = List.map_filter (\<lambda>rr. case rr_Data rr of A ip \<Rightarrow> Some ip | AAAA ip \<Rightarrow> Some ip | _ \<Rightarrow> None) (m_Answer m)"

fun cnameCloakScan :: "'re filterEnv \<Rightarrow> 're Engine \<Rightarrow> RR list \<Rightarrow> (string \<times> string \<times> Decision) option" where
  "cnameCloakScan env e [] = None"
| "cnameCloakScan env e (rr # rrs) =
     (case rr_Data rr of
        CNAME target \<Rightarrow>
          (let d = DecideDomain env e target in
           if d_Action d = Block then Some (h_Name (rr_Hdr rr), target, d) else cnameCloakScan env e rrs)
      | _ \<Rightarrow> cnameCloakScan env e rrs)"

definition cnameCloakCheck :: "'re filterEnv \<Rightarrow> 're Engine \<Rightarrow> Msg \<Rightarrow> (string \<times> string \<times> Decision) option" where
  "cnameCloakCheck env e m = cnameCloakScan env e (m_Answer m)"

definition capRR :: "32 word \<Rightarrow> RR \<Rightarrow> RR" where
  "capRR mx rr = (if h_Ttl (rr_Hdr rr) > mx then rr\<lparr>rr_Hdr := (rr_Hdr rr)\<lparr>h_Ttl := mx\<rparr>\<rparr> else rr)"

definition capTTL :: "Msg \<Rightarrow> 32 word \<Rightarrow> Msg" where
  "capTTL m mx = m\<lparr>m_Answer := map (capRR mx) (m_Answer m), m_Ns := map (capRR mx) (m_Ns m),
     m_Extra := map (\<lambda>rr. if is_OPT rr then rr else capRR mx rr) (m_Extra m)\<rparr>"

definition isMetaQuery :: "Question \<Rightarrow> bool" where
  "isMetaQuery q \<longleftrightarrow> q_Qtype q \<in> {TypeAXFR, TypeIXFR, TypeOPT, TypeTSIG, TypeANY}"

definition packedRcode :: "byte list \<Rightarrow> nat" where
  "packedRcode raw = (if length raw < 4 then RcodeServerFailure else unat (raw ! 3 AND 0x0F))"

definition packedAnCount :: "byte list \<Rightarrow> nat" where
  "packedAnCount raw = (if length raw < 12 then 0 else rd16 raw 6)"

section \<open>EDNS options\<close>

definition udpMaxPacketSize :: "16 word" where "udpMaxPacketSize = 4096"

definition clientUDPSize :: "dnsLib \<Rightarrow> Msg option \<Rightarrow> nat" where
  "clientUDPSize lib r =
     (case r of
        None \<Rightarrow> MinMsgSize
      | Some m \<Rightarrow>
          (case IsEdns0 lib m of
             None \<Rightarrow> MinMsgSize
           | Some i \<Rightarrow> (case rr_Data (m_Extra m ! i) of OPT sz opts \<Rightarrow> if unat sz \<ge> MinMsgSize then unat sz else MinMsgSize | _ \<Rightarrow> MinMsgSize)))"

definition optCode :: "EDNS0 \<Rightarrow> 16 word" where
  "optCode e = (case e of EDNS0_COOKIE _ \<Rightarrow> 10 | EDNS0_PADDING _ \<Rightarrow> 12 | EDNS0_EDE _ _ \<Rightarrow> 15 | EDNS0_Other c _ \<Rightarrow> c)"

text \<open>The options of the message's OPT record.\<close>

definition optionsOf :: "dnsLib \<Rightarrow> Msg \<Rightarrow> EDNS0 list" where
  "optionsOf lib m =
     (case IsEdns0 lib m of
        None \<Rightarrow> []
      | Some i \<Rightarrow> (case rr_Data (m_Extra m ! i) of OPT sz opts \<Rightarrow> opts | _ \<Rightarrow> []))"

fun firstCookie :: "EDNS0 list \<Rightarrow> string" where
  "firstCookie [] = []"
| "firstCookie (EDNS0_COOKIE c # os) = c"
| "firstCookie (_ # os) = firstCookie os"

definition clientCookieHexLen :: nat where "clientCookieHexLen = 16"

definition requestCookieValue :: "dnsLib \<Rightarrow> Msg \<Rightarrow> string" where
  "requestCookieValue lib r = firstCookie (optionsOf lib r)"

definition requestClientCookie :: "dnsLib \<Rightarrow> Msg \<Rightarrow> string" where
  "requestClientCookie lib r =
     (let c = requestCookieValue lib r in if length c \<ge> clientCookieHexLen then take clientCookieHexLen c else [])"

text \<open>\<open>hmacHex\<close> is the hex form of HMAC-SHA256.\<close>

definition serverCookie :: "(string \<Rightarrow> string \<Rightarrow> string) \<Rightarrow> string \<Rightarrow> string \<Rightarrow> string \<Rightarrow> string" where
  "serverCookie hmacHex secret clientIP clientCookie = take clientCookieHexLen (hmacHex secret (clientIP @ clientCookie))"

text \<open>A message with the options of its OPT record rewritten; an OPT record is added when there is none.\<close>

definition newOPT :: RR where
  "newOPT = \<lparr>rr_Hdr = \<lparr>h_Name = ''.'', h_Rrtype = TypeOPT, h_Class = 0, h_Ttl = 0\<rparr>, rr_Data = OPT udpMaxPacketSize []\<rparr>"

definition mapOptions :: "(EDNS0 list \<Rightarrow> EDNS0 list) \<Rightarrow> RR \<Rightarrow> RR" where
  "mapOptions f rr = (case rr_Data rr of OPT sz opts \<Rightarrow> rr\<lparr>rr_Data := OPT sz (f opts)\<rparr> | _ \<Rightarrow> rr)"

definition withOptions :: "dnsLib \<Rightarrow> (EDNS0 list \<Rightarrow> EDNS0 list) \<Rightarrow> Msg \<Rightarrow> Msg" where
  "withOptions lib f m =
     (case IsEdns0 lib m of
        None \<Rightarrow> m\<lparr>m_Extra := m_Extra m @ [mapOptions f newOPT]\<rparr>
      | Some i \<Rightarrow> m\<lparr>m_Extra := (m_Extra m)[i := mapOptions f (m_Extra m ! i)]\<rparr>)"

definition attachCookie :: "dnsLib \<Rightarrow> Msg \<Rightarrow> string \<Rightarrow> Msg" where
  "attachCookie lib m cookie = withOptions lib (\<lambda>os. filter (\<lambda>e. optCode e \<noteq> 10) os @ [EDNS0_COOKIE cookie]) m"

definition attachEDE :: "dnsLib \<Rightarrow> Msg \<Rightarrow> 16 word \<Rightarrow> string \<Rightarrow> Msg" where
  "attachEDE lib m code extra = withOptions lib (\<lambda>os. filter (\<lambda>e. optCode e \<noteq> 15) os @ [EDNS0_EDE code extra]) m"

definition unpadded :: "dnsLib \<Rightarrow> Msg \<Rightarrow> Msg" where
  "unpadded lib m = withOptions lib (filter (\<lambda>e. optCode e \<noteq> 12)) (m\<lparr>m_Compress := True\<rparr>)"

definition padMessage :: "dnsLib \<Rightarrow> Msg \<Rightarrow> nat \<Rightarrow> Msg" where
  "padMessage lib m block =
     (let c = unpadded lib m; base = Len lib c + 4; need = block - base mod block in
      if need \<noteq> block then withOptions lib (\<lambda>os. os @ [EDNS0_PADDING (replicate need 0)]) c else c)"

section \<open>Writing a reply\<close>

record writeCfg =
  wc_Padding :: bool
  wc_Cookies :: bool
  wc_secret :: string

datatype sent = SentBytes "byte list" | SentMsg Msg | SendError | SentNothing

definition encrypted :: "string \<Rightarrow> bool" where
  "encrypted proto \<longleftrightarrow> proto \<in> {''dot'', ''doh'', ''doh3'', ''doq''}"

definition needsPad :: "writeCfg \<Rightarrow> string \<Rightarrow> bool" where
  "needsPad cfg proto \<longleftrightarrow> wc_Padding cfg \<and> encrypted proto"

definition needsCookie :: "dnsLib \<Rightarrow> writeCfg \<Rightarrow> Msg option \<Rightarrow> bool" where
  "needsCookie lib cfg r \<longleftrightarrow> wc_Cookies cfg \<and> (case r of None \<Rightarrow> False | Some rm \<Rightarrow> requestClientCookie lib rm \<noteq> [])"

text \<open>The slow path: truncation for a small UDP buffer, padding, cookie, in this order.\<close>

definition fitMsg :: "dnsLib \<Rightarrow> (string \<Rightarrow> string \<Rightarrow> string) \<Rightarrow> writeCfg \<Rightarrow> Msg \<Rightarrow> Msg option \<Rightarrow> string \<Rightarrow> string \<Rightarrow> Msg" where
  "fitMsg lib hmacHex cfg m r proto remote =
     (let out = (if proto = ''udp'' \<and> Len lib m > clientUDPSize lib r then Truncate lib m (clientUDPSize lib r) else m);
          out = (if needsPad cfg proto then padMessage lib out 128 else out)
      in if needsCookie lib cfg r then
           let cc = (case r of None \<Rightarrow> [] | Some rm \<Rightarrow> requestClientCookie lib rm)
           in attachCookie lib out (cc @ serverCookie hmacHex (wc_secret cfg) remote cc)
         else out)"

definition writeReply :: "dnsLib \<Rightarrow> (string \<Rightarrow> string \<Rightarrow> string) \<Rightarrow> writeCfg \<Rightarrow> Msg \<Rightarrow> Msg option \<Rightarrow> string \<Rightarrow> string \<Rightarrow> sent" where
  "writeReply lib hmacHex cfg m0 r proto remote =
     (let m = m0\<lparr>m_Compress := True\<rparr> in
      if \<not> needsPad cfg proto \<and> \<not> needsCookie lib cfg r then
        (case Pack lib m of
           None \<Rightarrow> SendError
         | Some packed \<Rightarrow>
             if proto \<noteq> ''udp'' \<or> length packed \<le> clientUDPSize lib r then SentBytes packed
             else SentMsg (fitMsg lib hmacHex cfg m r proto remote))
      else SentMsg (fitMsg lib hmacHex cfg m r proto remote))"

section \<open>Questions\<close>

definition coalesceEligible :: "Msg \<Rightarrow> bool" where
  "coalesceEligible r \<longleftrightarrow> m_RecursionDesired r \<and> \<not> m_CheckingDisabled r \<and>
     (case m_Question r of [q] \<Rightarrow> \<not> isMetaQuery q | _ \<Rightarrow> False) \<and> list_all (\<lambda>rr. h_Rrtype (rr_Hdr rr) = TypeOPT) (m_Extra r)"

text \<open>The key of the in-flight pool; the name is taken byte by byte (the runes of a name are its bytes: names in
  presentation form are ASCII).\<close>

definition flightKey :: "Question \<Rightarrow> string" where
  "flightKey q = map lower_char (q_Name q) @ ''|'' @ dec_digits (unat (q_Qtype q)) @ ''|'' @ dec_digits (unat (q_Qclass q))"

text \<open>\<^verbatim>\<open>strconv.ParseUint(s, 16, 4)\<close>.\<close>

fun hex_acc :: "nat \<Rightarrow> string \<Rightarrow> nat option" where
  "hex_acc acc [] = Some acc"
| "hex_acc acc (c # s) = (case hex_val c of None \<Rightarrow> None | Some d \<Rightarrow> if acc * 16 + d > 15 then None else hex_acc (acc * 16 + d) s)"

definition ParseNibble :: "string \<Rightarrow> nat option" where
  "ParseNibble s = (if s = [] then None else hex_acc 0 s)"

definition CutSuffix :: "string \<Rightarrow> string \<Rightarrow> string option" where
  "CutSuffix s suf = (if HasSuffix s suf then Some (take (length s - length suf) s) else None)"

definition octet :: "string \<Rightarrow> byte option" where
  "octet s = (case ParseInt10 s of None \<Rightarrow> None | Some v \<Rightarrow> if v < 0 \<or> v > 255 then None else Some (of_int v))"

fun all_some :: "'a option list \<Rightarrow> 'a list option" where
  "all_some [] = Some []"
| "all_some (None # xs) = None"
| "all_some (Some x # xs) = map_option (Cons x) (all_some xs)"

fun pair_nibbles :: "nat list \<Rightarrow> byte list" where
  "pair_nibbles (a # b # r) = of_nat (a * 16 + b) # pair_nibbles r"
| "pair_nibbles _ = []"

definition reverseNameIP :: "string \<Rightarrow> IP" where
  "reverseNameIP nm =
     (let n = CanonicalDomain nm in
      case CutSuffix n ''.in-addr.arpa'' of
        Some before \<Rightarrow>
          let octets = split_on CHR ''.'' before in
          if length octets \<noteq> 4 then []
          else (case all_some (map octet (rev octets)) of None \<Rightarrow> [] | Some b \<Rightarrow> v4InV6Prefix @ b)
      | None \<Rightarrow>
          (case CutSuffix n ''.ip6.arpa'' of
             Some before \<Rightarrow>
               let nibbles = split_on CHR ''.'' before in
               if length nibbles \<noteq> 32 then []
               else (case all_some (map ParseNibble (rev nibbles)) of None \<Rightarrow> [] | Some b \<Rightarrow> pair_nibbles b)
           | None \<Rightarrow> []))"

section \<open>Cookies are bound to the client\<close>

lemma cookie_input_inj:
  assumes "length cc = 16" "length cc' = 16" "ip @ cc = ip' @ cc'"
  shows "ip = ip' \<and> cc = cc'"
  using assms by (simp add: append_eq_append_conv)

section \<open>Options\<close>

lemma is_OPT_map [simp]: "is_OPT (mapOptions f rr) = is_OPT rr"
  by (simp add: is_OPT_def mapOptions_def split: RData.split)

lemma mapOptions_comp: "mapOptions g (mapOptions f rr) = mapOptions (g \<circ> f) rr"
  by (simp add: mapOptions_def split: RData.split)

lemma newOPT_is [simp]: "is_OPT newOPT"
  by (simp add: newOPT_def is_OPT_def)

text \<open>What \<^verbatim>\<open>Len\<close> documents for an option: its code and length fields and its data.\<close>

definition Len_padding_doc :: "dnsLib \<Rightarrow> bool" where
  "Len_padding_doc lib \<longleftrightarrow> (\<forall>m n. IsEdns0 lib m \<noteq> None \<longrightarrow>
     Len lib (withOptions lib (\<lambda>os. os @ [EDNS0_PADDING (replicate n 0)]) m) = Len lib m + 4 + n)"

lemma IsEdns0_SomeD: "IsEdns0_doc lib \<Longrightarrow> IsEdns0 lib m = Some i \<Longrightarrow> i < length (m_Extra m) \<and> is_OPT (m_Extra m ! i)"
  unfolding IsEdns0_doc_def by (drule spec[of _ m]) simp

lemma IsEdns0_NoneD: "IsEdns0_doc lib \<Longrightarrow> IsEdns0 lib m = None \<Longrightarrow> \<not> list_ex is_OPT (m_Extra m)"
  unfolding IsEdns0_doc_def by (drule spec[of _ m]) simp

lemma withOptions_edns:
  assumes "IsEdns0_doc lib" shows "IsEdns0 lib (withOptions lib f m) \<noteq> None"
proof -
  have "list_ex is_OPT (m_Extra (withOptions lib f m))"
  proof (cases "IsEdns0 lib m")
    case None
    then show ?thesis by (simp add: withOptions_def)
  next
    case (Some i)
    then have i: "i < length (m_Extra m)" "is_OPT (mapOptions f (m_Extra m ! i))" using IsEdns0_SomeD[OF assms Some] by simp_all
    have "mapOptions f (m_Extra m ! i) \<in> set (m_Extra (withOptions lib f m))"
      using i(1) Some by (simp add: withOptions_def set_update_memI)
    then show ?thesis using i(2) unfolding list_ex_iff by blast
  qed
  then show ?thesis using IsEdns0_NoneD[OF assms] by blast
qed

lemma BuildBlockResponse_cases:
  assumes "m_Question req = q # qs" "BuildBlockResponse lib req mode ttl = Some m"
  shows "m = (let m = (SetReply lib req)\<lparr>m_RecursionAvailable := True\<rparr> in
     if mode = ''nxdomain'' \<or> mode = [] then m\<lparr>m_Rcode := RcodeNameError\<rparr>
     else if mode = ''refused'' \<or> ParseIP mode = [] then m\<lparr>m_Rcode := RcodeRefused\<rparr>
     else m\<lparr>m_Rcode := RcodeSuccess, m_Answer := m_Answer m @ (case blockAnswerRR q (ParseIP mode) ttl of None \<Rightarrow> [] | Some rr \<Rightarrow> [rr])\<rparr>)"
proof -
  have ne: "''refused'' \<noteq> ''nxdomain''" by simp
  show ?thesis
  proof (cases "mode = ''refused''")
    case True
    then show ?thesis using assms ne by (simp add: BuildBlockResponse_def Let_def)
  next
    case False
    then show ?thesis using assms
      by (cases "blockAnswerRR q (ParseIP mode) ttl") (auto simp: BuildBlockResponse_def Let_def)
  qed
qed

section \<open>Properties\<close>

text \<open>A blocked query gets the configured kind of answer, on every branch: REFUSED or NXDOMAIN without records, or
  - for a blackhole address - exactly one record of the queried address family, the configured address when the
  families agree and the zero address otherwise, and an empty NOERROR for every other record type. The reply
  always has the request's id and its first question.\<close>

theorem block_response_spec:
  assumes "SetReply_doc lib" "m_Question req = q # qs" "BuildBlockResponse lib req mode ttl = Some m"
  shows "m_Id m = m_Id req \<and> m_Response m \<and> m_Question m = [q] \<and>
    (m_Rcode m, map rr_Data (m_Answer m)) =
      (if mode = ''nxdomain'' \<or> mode = [] then (RcodeNameError, [])
       else if mode = ''refused'' \<or> ParseIP mode = [] then (RcodeRefused, [])
       else (RcodeSuccess,
         if q_Qtype q = TypeA then [A (if To4 (ParseIP mode) \<noteq> [] then To4 (ParseIP mode) else IPv4zero)]
         else if q_Qtype q = TypeAAAA then [AAAA (if To4 (ParseIP mode) \<noteq> [] then IPv6zero else ParseIP mode)]
         else []))"
proof -
  have s: "m_Id (SetReply lib req) = m_Id req" "m_Response (SetReply lib req)" "m_Question (SetReply lib req) = [q]" "m_Answer (SetReply lib req) = []"
    using assms(1,2) by (simp_all add: SetReply_doc_def)
  have t: "TypeA \<noteq> TypeAAAA" by (simp add: TypeA_def TypeAAAA_def)
  let ?ip = "ParseIP mode"
  have rr: "map rr_Data (case blockAnswerRR q ?ip ttl of None \<Rightarrow> [] | Some rr \<Rightarrow> [rr]) =
      (if q_Qtype q = TypeA then [A (if To4 ?ip \<noteq> [] then To4 ?ip else IPv4zero)]
       else if q_Qtype q = TypeAAAA then [AAAA (if To4 ?ip \<noteq> [] then IPv6zero else ?ip)] else [])"
    using t by (simp add: blockAnswerRR_def Let_def)
  show ?thesis using s rr BuildBlockResponse_cases[OF assms(2,3)] by (simp add: Let_def)
qed

theorem block_response_spec_witness:
  "map_option (\<lambda>m. map rr_Data (m_Answer m)) (BuildBlockResponse simpleLib (emptyMsg\<lparr>m_Question := [\<lparr>q_Name = ''x.'', q_Qtype = TypeA, q_Qclass = 1\<rparr>]\<rparr>) ''0.0.0.0'' 60) =
     Some [A [0, 0, 0, 0]]"
proof -
  let ?q = "\<lparr>q_Name = ''x.'', q_Qtype = TypeA, q_Qclass = 1\<rparr>"
  let ?r = "emptyMsg\<lparr>m_Question := [?q]\<rparr>"
  have "\<exists>m. BuildBlockResponse simpleLib ?r ''0.0.0.0'' 60 = Some m" by (simp add: BuildBlockResponse_def Let_def)
  then obtain m where m: "BuildBlockResponse simpleLib ?r ''0.0.0.0'' 60 = Some m" ..
  have p: "ParseIP ''0.0.0.0'' = To16 [0, 0, 0, 0]" by code_simp
  have "To16 [0, 0, 0, 0 :: byte] \<noteq> []" by code_simp
  then have "map rr_Data (m_Answer m) = [A [0, 0, 0, 0]]"
    using block_response_spec[OF simpleLib_doc(1) _ m, of ?q "[]"] p by simp
  then show ?thesis using m by simp
qed

text \<open>Padding puts an encrypted reply on a block boundary, except when the reply with an empty padding option
  would be there already: then no option is added and the length is four bytes short of a boundary.\<close>

theorem padding_alignment:
  assumes "IsEdns0_doc lib" "Len_padding_doc lib" "4 < block"
  shows "((Len lib (unpadded lib m) + 4) mod block \<noteq> 0 \<longrightarrow> Len lib (padMessage lib m block) mod block = 0)
    \<and> ((Len lib (unpadded lib m) + 4) mod block = 0 \<longrightarrow> padMessage lib m block = unpadded lib m \<and> Len lib (padMessage lib m block) mod block = block - 4)"
proof (intro conjI impI)
  let ?c = "unpadded lib m" and ?b = "Len lib (unpadded lib m) + 4"
  have e: "IsEdns0 lib ?c \<noteq> None" unfolding unpadded_def by (rule withOptions_edns[OF assms(1)])
  {
    assume "?b mod block \<noteq> 0"
    then have lt: "?b mod block < block" "block - ?b mod block \<noteq> block" using assms(3) by (auto simp: mod_less_divisor)
    then have "padMessage lib m block = withOptions lib (\<lambda>os. os @ [EDNS0_PADDING (replicate (block - ?b mod block) 0)]) ?c"
      by (simp add: padMessage_def Let_def)
    then have "Len lib (padMessage lib m block) = ?b + (block - ?b mod block)"
      using assms(2) e unfolding Len_padding_doc_def by simp
    also have "\<dots> = (?b div block) * block + block" using lt(1) div_mult_mod_eq[of ?b block] by linarith
    finally show "Len lib (padMessage lib m block) mod block = 0" by simp
  }
  assume z: "?b mod block = 0"
  then show p: "padMessage lib m block = ?c" by (simp add: padMessage_def)
  obtain k where k: "?b = block * k" using z by auto
  then have "0 < k" by (cases k) auto
  then obtain j where "k = Suc j" by (cases k) auto
  then have "Len lib ?c = (block - 4) + j * block" using k assms(3) by (simp add: mult.commute)
  then show "Len lib (padMessage lib m block) mod block = block - 4" using assms(3) by (simp only: p mod_mult_self3 mod_mult_self1 mod_less)
qed

text \<open>A library that counts the bytes of EDNS options: 12 for the header, 11 for an OPT record, 4 and its data for an
  option.\<close>

definition optLen :: "EDNS0 \<Rightarrow> nat" where
  "optLen e = 4 + (case e of EDNS0_COOKIE c \<Rightarrow> length c div 2 | EDNS0_PADDING p \<Rightarrow> length p | EDNS0_EDE c t \<Rightarrow> 2 + length t | EDNS0_Other c d \<Rightarrow> length d)"

definition rrLen :: "RR \<Rightarrow> nat" where
  "rrLen rr = (case rr_Data rr of OPT sz opts \<Rightarrow> 11 + sum_list (map optLen opts) | _ \<Rightarrow> 0)"

definition countingLib :: dnsLib where
  "countingLib = simpleLib\<lparr>Len := \<lambda>m. 12 + sum_list (map rrLen (m_Extra m)), Truncate := \<lambda>m n. m\<lparr>m_Truncated := True, m_Answer := [], m_Extra := []\<rparr>\<rparr>"

lemma countingLib_doc: "SetReply_doc countingLib" "IsEdns0_doc countingLib"
  using simpleLib_doc by (simp_all add: SetReply_doc_def IsEdns0_doc_def countingLib_def)

lemma countingLib_padding: "Len_padding_doc countingLib"
  unfolding Len_padding_doc_def
proof (intro allI impI)
  fix m n assume "IsEdns0 countingLib m \<noteq> None"
  then obtain i where i: "IsEdns0 countingLib m = Some i" by auto
  note b = IsEdns0_SomeD[OF countingLib_doc(2) i]
  obtain h sz opts where rr: "m_Extra m ! i = \<lparr>rr_Hdr = h, rr_Data = OPT sz opts\<rparr>"
    using b by (cases "m_Extra m ! i") (auto simp: is_OPT_def split: RData.splits)
  let ?x = "mapOptions (\<lambda>os. os @ [EDNS0_PADDING (replicate n 0)]) (m_Extra m ! i)"
  have A: "rrLen ?x = rrLen (m_Extra m ! i) + 4 + n"
    by (simp add: rr mapOptions_def rrLen_def optLen_def)
  have B: "sum_list (map rrLen ((m_Extra m)[i := x])) + rrLen (m_Extra m ! i) = sum_list (map rrLen (m_Extra m)) + rrLen x" for x
    using b sum_list_update[of i "map rrLen (m_Extra m)" "rrLen x"] elem_le_sum_list[of i "map rrLen (m_Extra m)"] by (simp add: map_update)
  have "sum_list (map rrLen ((m_Extra m)[i := ?x])) = sum_list (map rrLen (m_Extra m)) + 4 + n" using A B[of ?x] by linarith
  then show "Len countingLib (withOptions countingLib (\<lambda>os. os @ [EDNS0_PADDING (replicate n 0)]) m) = Len countingLib m + 4 + n"
    using i by (simp add: withOptions_def countingLib_def)
qed

theorem padding_alignment_witness:
  "Len countingLib (padMessage countingLib emptyMsg 128) mod 128 = 0 \<and>
   Len countingLib (padMessage countingLib emptyMsg 27) mod 27 = 23"
proof -
  have l: "Len countingLib (unpadded countingLib emptyMsg) = 23" by code_simp
  show ?thesis
    using padding_alignment[OF countingLib_doc(2) countingLib_padding, of 128 emptyMsg]
      padding_alignment[OF countingLib_doc(2) countingLib_padding, of 27 emptyMsg] l by simp
qed

section \<open>Reverse names\<close>

lemma ToLower_id: "\<forall>c \<in> set s. \<not> is_upper c \<Longrightarrow> ToLower s = s"
  by (induction s) (auto simp: ToLower_def lower_char_def)

lemma CanonicalDomain_dot:
  assumes "\<forall>c \<in> set s. \<not> is_space c \<and> \<not> is_upper c"
  shows "CanonicalDomain (s @ ''.'') = s"
proof -
  have sp: "\<not> is_space CHR ''.''" by (simp add: is_space_def)
  have tr: "TrimSpace (s @ ''.'') = s @ ''.''"
  proof -
    have "dropWhile is_space t = t" if "\<forall>c \<in> set t. \<not> is_space c" for t using that by (cases t) auto
    from this[of "s @ ''.''"] this[of "rev (s @ ''.'')"] show ?thesis using assms sp by (simp add: TrimSpace_def)
  qed
  have "TrimSuffix (s @ ''.'') ''.'' = s" by (simp add: TrimSuffix_def HasSuffix_def)
  moreover have "ToLower s = s" using assms by (intro ToLower_id) blast
  ultimately show ?thesis using tr by (simp add: CanonicalDomain_def)
qed

lemma ParseInt_digits: "n < 256 \<Longrightarrow> ParseInt10 (dec_digits n) = Some (int n)"
  using ParseInt_Itoa[of "int n"] by (simp add: Itoa_def)

lemma octet_digits: "octet (dec_digits (unat (b :: byte))) = Some b"
proof -
  have "octet (dec_digits n) = Some (of_nat n)" if "n < 256" for n
    using ParseInt_digits[OF that] that by (simp add: octet_def)
  from this[OF byte_lt] show ?thesis by simp
qed

text \<open>The reverse name of an IPv4 address is recognised: the PTR name of an address parses back to that address.\<close>

theorem reverse_name_roundtrip:
  assumes "length a = 4"
  shows "reverseNameIP (join_with ''.'' (map (\<lambda>b. dec_digits (unat b)) (rev a)) @ ''.in-addr.arpa.'') = v4InV6Prefix @ a"
proof -
  let ?ds = "map (\<lambda>b. dec_digits (unat b)) (rev a)" and ?suf = "''.in-addr.arpa''"
  have dot: "CHR ''.'' \<notin> set (dec_digits n)" for n using dec_digits_digits[of "CHR ''.''" n] by (auto simp: is_digit_def)
  have ne: "?ds \<noteq> []" using assms by auto
  have jc: "c \<in> set (join_with ''.'' ws) \<Longrightarrow> c = CHR ''.'' \<or> (\<exists>w \<in> set ws. c \<in> set w)" for c ws
    by (induction "''.''" ws rule: join_with.induct) auto
  have ch: "\<forall>c \<in> set (join_with ''.'' ?ds). is_digit c \<or> c = CHR ''.''"
    using jc dec_digits_digits by fastforce
  have "\<forall>c \<in> set (join_with ''.'' ?ds @ ?suf). \<not> is_space c \<and> \<not> is_upper c"
    using ch by (auto simp: is_digit_def is_space_def is_upper_def)
  then have cd: "CanonicalDomain (join_with ''.'' ?ds @ ''.in-addr.arpa.'') = join_with ''.'' ?ds @ ?suf"
    using CanonicalDomain_dot[of "join_with ''.'' ?ds @ ?suf"] by simp
  have cut: "CutSuffix (join_with ''.'' ?ds @ ?suf) ?suf = Some (join_with ''.'' ?ds)"
    by (simp add: CutSuffix_def HasSuffix_def)
  have sp: "split_on CHR ''.'' (join_with ''.'' ?ds) = ?ds" using ne dot by (intro split_join) auto
  have "rev ?ds = map (\<lambda>b. dec_digits (unat b)) a" by (simp add: rev_map)
  moreover have "all_some (map octet (map (\<lambda>b. dec_digits (unat b)) bs)) = Some bs" for bs :: "byte list"
    by (induction bs) (simp_all add: octet_digits)
  ultimately show ?thesis unfolding reverseNameIP_def cd Let_def cut using sp assms by simp
qed

theorem reverse_name_roundtrip_witness: "reverseNameIP ''4.3.2.1.in-addr.arpa.'' = v4InV6Prefix @ [1, 2, 3, 4]"
proof -
  have "join_with ''.'' (map (\<lambda>b. dec_digits (unat b)) (rev [1, 2, 3, 4 :: byte])) @ ''.in-addr.arpa.'' = ''4.3.2.1.in-addr.arpa.''" by code_simp
  then show ?thesis using reverse_name_roundtrip[of "[1, 2, 3, 4]"] by simp
qed

end
