(* ===== verification/Memo.thy ===== *)
theory Memo
  imports Prelude
begin

text \<open>
  The bounded memo two components keep in front of a pure computation on client addresses (the policy cache of the client
  router, the network memo of the handler): a map with a counter, emptied when the counter passes its cap.
\<close>

text \<open>Every remembered value is the computed one, and the map is no larger than its counter allows.\<close>

definition memo_ok :: "(string \<Rightarrow> 'v) \<Rightarrow> int \<Rightarrow> (string, 'v) gomap \<Rightarrow> int \<Rightarrow> bool" where
  "memo_ok f cap m n \<longleftrightarrow> (\<forall>k v. map_of m k = Some v \<longrightarrow> v = f k) \<and> int (length m) \<le> n + 1 \<and> 0 \<le> n \<and> n \<le> max cap 0"

lemma memo_ok_empty [simp]: "memo_ok f cap [] 0"
  by (simp add: memo_ok_def)

lemma memo_ok_bound: "memo_ok f cap m n \<Longrightarrow> int (length m) \<le> max cap 0 + 1"
  by (auto simp: memo_ok_def)

lemma memo_ok_hit: "memo_ok f cap m n \<Longrightarrow> map_of m k = Some v \<Longrightarrow> v = f k"
  by (simp add: memo_ok_def)

text \<open>The contract: what storing a value does to the map and the counter.\<close>

locale bounded_memo =
  fixes cap :: int
    and entries :: "'s \<Rightarrow> (string, 'v) gomap"
    and count :: "'s \<Rightarrow> int"
    and store :: "'s \<Rightarrow> string \<Rightarrow> 'v \<Rightarrow> 's"
  assumes entries_store: "entries (store s k v) = gm_put k v (if count s + 1 > cap then [] else entries s)"
    and count_store: "count (store s k v) = (if count s + 1 > cap then 0 else count s + 1)"
begin

lemma store_ok:
  assumes "memo_ok f cap (entries s) (count s)"
  shows "memo_ok f cap (entries (store s k (f k))) (count (store s k (f k)))"
proof -
  have l: "int (length (gm_put k (f k) m)) \<le> int (length m) + 1" for m using length_put_le[of k "f k" m] by linarith
  show ?thesis
  proof (cases "count s + 1 > cap")
    case True
    then show ?thesis using l[of "[]"] unfolding memo_ok_def entries_store count_store by auto
  next
    case False
    then show ?thesis using assms l[of "entries s"] unfolding memo_ok_def entries_store count_store by auto
  qed
qed

end

end
