(* ===== verification/Policy.thy ===== *)
theory Policy
  imports Banner FilterLists FloodGuards RateLimit Memo
begin

text \<open>
  Who may ask and under which rules: the query ACL (\<^verbatim>\<open>internal/dnsserver/acl.go\<close>), the country and network blocker
  (\<^verbatim>\<open>internal/geoip/geoip.go\<close>, \<^verbatim>\<open>Blocker\<close>), per-client policies (\<^verbatim>\<open>clients.go\<close>, \<^verbatim>\<open>policy.go\<close>) and per-domain upstream routes
  (\<^verbatim>\<open>handler.go\<close>). A forwarder is a reference (a string) here.
\<close>

section \<open>Query ACL\<close>

datatype acl_error = BadEntry string

definition aclSpec :: "string \<Rightarrow> string option" where
  "aclSpec raw =
     (let spec = TrimSpace raw in
      if spec = [] then None
      else if CHR ''/'' \<in> set spec then Some spec
      else Some (spec @ (if To4 (ParseIP spec) = [] then ''/128'' else ''/32'')))"

definition aclNet :: "string \<Rightarrow> acl_error + IPNet option" where
  "aclNet raw =
     (let spec = TrimSpace raw in
      if spec = [] then Inr None
      else if CHR ''/'' \<notin> set spec \<and> ParseIP spec = [] then Inl (BadEntry raw)
      else case ParseCIDR (the (aclSpec raw)) of None \<Rightarrow> Inl (BadEntry raw) | Some (ip, n) \<Rightarrow> Inr (Some n))"

fun aclNets :: "string list \<Rightarrow> acl_error + IPNet list" where
  "aclNets [] = Inr []"
| "aclNets (raw # specs) =
     (case aclNet raw of
        Inl e \<Rightarrow> Inl e
      | Inr n \<Rightarrow> (case aclNets specs of Inl e \<Rightarrow> Inl e | Inr ns \<Rightarrow> Inr ((case n of None \<Rightarrow> [] | Some x \<Rightarrow> [x]) @ ns)))"

text \<open>\<^verbatim>\<open>BuildACL\<close>: the error of the first bad entry, no ACL when no entry is given, or the networks.\<close>

definition BuildACL :: "string list \<Rightarrow> acl_error + IPNet list option" where
  "BuildACL specs = (case aclNets specs of Inl e \<Rightarrow> Inl e | Inr [] \<Rightarrow> Inr None | Inr nets \<Rightarrow> Inr (Some nets))"

definition ACL_Allowed :: "IPNet list option \<Rightarrow> string \<Rightarrow> bool" where
  "ACL_Allowed acl clientIP =
     (case acl of
        None \<Rightarrow> True
      | Some nets \<Rightarrow>
          if nets = [] then True
          else let ip = ParseIP clientIP in ip \<noteq> [] \<and> list_ex (\<lambda>n. IPNet_Contains n ip) nets)"

section \<open>Country blocker\<close>

record Blocker =
  gb_blocked :: "string list"
  gb_allowlist :: "IPNet list"
  gb_tables :: "(string, Table) gomap"
  gb_combined :: Table
  gb_asnAllow :: "ASNTable option"
  gb_asnBlock :: "ASNTable option"

definition NewBlocker :: Blocker where
  "NewBlocker = \<lparr>gb_blocked = [], gb_allowlist = [], gb_tables = [], gb_combined = \<lparr>t_v4 = [], t_v6 = []\<rparr>, gb_asnAllow = None, gb_asnBlock = None\<rparr>"

definition rebuildCombinedLocked :: "Blocker \<Rightarrow> Blocker" where
  "rebuildCombinedLocked b =
     (let ts = List.map_filter (map_of (gb_tables b)) (gb_blocked b)
      in b\<lparr>gb_combined := sortMerge \<lparr>t_v4 = concat (map t_v4 ts), t_v6 = concat (map t_v6 ts)\<rparr>\<rparr>)"

definition allowEntry :: "string \<Rightarrow> IPNet option" where
  "allowEntry e = (if ParseIP e \<noteq> [] then Some (hostNet (ParseIP e)) else map_option snd (ParseCIDR e))"

fun allowNets :: "string list \<Rightarrow> string + IPNet list" where
  "allowNets [] = Inr []"
| "allowNets (raw # es) =
     (let e = TrimSpace raw in
      if e = [] then allowNets es
      else case allowEntry e of
        None \<Rightarrow> Inl e
      | Some n \<Rightarrow> (case allowNets es of Inl x \<Rightarrow> Inl x | Inr ns \<Rightarrow> Inr (n # ns)))"

definition SetConfig :: "Blocker \<Rightarrow> string list \<Rightarrow> string list \<Rightarrow> string + Blocker" where
  "SetConfig b countries allowlist =
     (case allowNets allowlist of
        Inl e \<Rightarrow> Inl e
      | Inr nets \<Rightarrow>
          Inr (rebuildCombinedLocked (b\<lparr>gb_blocked := remdups (filter (\<lambda>c. c \<noteq> []) (map (ToUpper \<circ> TrimSpace) countries)), gb_allowlist := nets\<rparr>)))"

definition AddTable :: "Blocker \<Rightarrow> string \<Rightarrow> Table \<Rightarrow> Blocker" where
  "AddTable b cc t =
     (let cc = ToUpper cc; b1 = b\<lparr>gb_tables := gm_put cc t (gb_tables b)\<rparr>
      in if cc \<in> set (gb_blocked b) then rebuildCombinedLocked b1 else b1)"

definition RemoveTable :: "Blocker \<Rightarrow> string \<Rightarrow> Blocker" where
  "RemoveTable b cc =
     (let cc = ToUpper cc in
      if map_of (gb_tables b) cc = None then b
      else let b1 = b\<lparr>gb_tables := gm_del cc (gb_tables b)\<rparr>
           in if cc \<in> set (gb_blocked b) then rebuildCombinedLocked b1 else b1)"

definition Blocker_SetASNs :: "Blocker \<Rightarrow> ASNTable option \<Rightarrow> ASNTable option \<Rightarrow> Blocker" where
  "Blocker_SetASNs b allow block = b\<lparr>gb_asnAllow := allow, gb_asnBlock := block\<rparr>"

definition Blocker_ASNOf :: "Blocker \<Rightarrow> IP \<Rightarrow> 32 word option" where
  "Blocker_ASNOf b ip =
     (case (case gb_asnAllow b of None \<Rightarrow> None | Some t \<Rightarrow> ASNTable_Lookup t ip) of
        Some a \<Rightarrow> Some a
      | None \<Rightarrow> (case gb_asnBlock b of None \<Rightarrow> None | Some t \<Rightarrow> ASNTable_Lookup t ip))"

definition Blocker_BlockedAs :: "Blocker \<Rightarrow> string \<Rightarrow> string option" where
  "Blocker_BlockedAs b clientIP =
     (let ip = ParseIP clientIP in
      if ip = [] then None
      else if (case gb_asnAllow b of None \<Rightarrow> False | Some t \<Rightarrow> ASNTable_Contains t ip) then None
      else if list_ex (\<lambda>n. IPNet_Contains n ip) (gb_allowlist b) then None
      else if (case gb_asnBlock b of None \<Rightarrow> False | Some t \<Rightarrow> ASNTable_Contains t ip) then Some ''asn''
      else if Table_Contains (gb_combined b) ip then Some ''country''
      else None)"

definition Blocker_Blocked :: "Blocker \<Rightarrow> string \<Rightarrow> bool" where
  "Blocker_Blocked b clientIP = (Blocker_BlockedAs b clientIP \<noteq> None)"

definition Countries :: "Blocker \<Rightarrow> string list" where
  "Countries b = sort (gb_blocked b)"

section \<open>Client groups\<close>

record 're ClientPolicy =
  cp_GroupID :: string
  cp_GroupName :: string
  cp_Engine :: "'re Engine"
  cp_Upstreams :: "string list"

record 're GroupCIDRs =
  gc_CIDRs :: "string list"
  gc_ASNs :: "32 word list"
  gc_Policy :: "'re ClientPolicy option"

record 're clientEntry =
  ce_nets :: "IPNet list"
  ce_asns :: "32 word list"
  ce_policy :: "'re ClientPolicy"

record 're clientEntries =
  cs_groups :: "'re clientEntry list"
  cs_asnTable :: "ASNTable option"

definition maxPolicyCache :: int where "maxPolicyCache = 4096"

record 're ClientRouter =
  cr_entries :: "'re clientEntries"
  cr_cache :: "(string, 're ClientPolicy option) gomap"
  cr_cacheSize :: int

definition NewClientRouter :: "'re ClientRouter" where
  "NewClientRouter = \<lparr>cr_entries = \<lparr>cs_groups = [], cs_asnTable = None\<rparr>, cr_cache = [], cr_cacheSize = 0\<rparr>"

definition groupEntry :: "'re GroupCIDRs \<Rightarrow> 're clientEntry option" where
  "groupEntry g =
     (case gc_Policy g of
        None \<Rightarrow> None
      | Some p \<Rightarrow>
          let nets = List.map_filter entryNet (gc_CIDRs g) in
          if nets = [] \<and> gc_ASNs g = [] then None else Some \<lparr>ce_nets = nets, ce_asns = gc_ASNs g, ce_policy = p\<rparr>)"

definition SetPolicies :: "'re ClientRouter \<Rightarrow> 're GroupCIDRs list \<Rightarrow> ASNTable option \<Rightarrow> 're ClientRouter" where
  "SetPolicies cr groups asnTable =
     cr\<lparr>cr_entries := \<lparr>cs_groups = List.map_filter groupEntry groups, cs_asnTable = asnTable\<rparr>, cr_cache := [], cr_cacheSize := 0\<rparr>"

definition entryMatches :: "ASNTable option \<Rightarrow> IP \<Rightarrow> 're clientEntry \<Rightarrow> bool" where
  "entryMatches t ip e \<longleftrightarrow> list_ex (\<lambda>n. IPNet_Contains n ip) (ce_nets e) \<or>
     (ce_asns e \<noteq> [] \<and> (case t of None \<Rightarrow> False | Some tb \<Rightarrow> (case ASNTable_Lookup tb ip of None \<Rightarrow> False | Some a \<Rightarrow> a \<in> set (ce_asns e))))"

text \<open>The scan over the groups of a snapshot.\<close>

definition scanGroups :: "'re clientEntries \<Rightarrow> IP \<Rightarrow> 're ClientPolicy option" where
  "scanGroups es ip = map_option ce_policy (List.find (entryMatches (cs_asnTable es) ip) (cs_groups es))"

text \<open>The second half of \<^verbatim>\<open>Resolve\<close>, after the scan: the result is remembered, in an emptied cache when it is full.\<close>

definition cachePolicy :: "'re ClientRouter \<Rightarrow> string \<Rightarrow> 're ClientPolicy option \<Rightarrow> 're ClientRouter" where
  "cachePolicy cr client p =
     (let cr1 = (if cr_cacheSize cr + 1 > maxPolicyCache then cr\<lparr>cr_cache := [], cr_cacheSize := 0\<rparr> else cr\<lparr>cr_cacheSize := cr_cacheSize cr + 1\<rparr>)
      in cr1\<lparr>cr_cache := gm_put client p (cr_cache cr1)\<rparr>)"

definition Resolve :: "'re ClientRouter \<Rightarrow> string \<Rightarrow> 're ClientPolicy option \<times> 're ClientRouter" where
  "Resolve cr client =
     (case map_of (cr_cache cr) client of
        Some p \<Rightarrow> (p, cr)
      | None \<Rightarrow>
          let ip = ParseIP client in
          if ip = [] then (None, cr)
          else let p = scanGroups (cr_entries cr) ip in (p, cachePolicy cr client p))"

definition ASNOfIP :: "'re ClientRouter \<Rightarrow> IP \<Rightarrow> 32 word option" where
  "ASNOfIP cr ip = (case cs_asnTable (cr_entries cr) of None \<Rightarrow> None | Some t \<Rightarrow> ASNTable_Lookup t ip)"

definition ASNOf :: "'re ClientRouter \<Rightarrow> string \<Rightarrow> 32 word option" where
  "ASNOf cr client = (let ip = ParseIP client in if ip = [] then None else ASNOfIP cr ip)"

section \<open>Upstream routes\<close>

record UpstreamRoute =
  ur_Domain :: string
  ur_Upstreams :: "string list"

text \<open>\<^verbatim>\<open>routeMatch\<close>: the loop keeps the longest matching domain, the first one on ties.\<close>

fun routeScan :: "UpstreamRoute option \<Rightarrow> int \<Rightarrow> UpstreamRoute list \<Rightarrow> string \<Rightarrow> UpstreamRoute option" where
  "routeScan best bestLen [] nm = best"
| "routeScan best bestLen (rt # rts) nm =
     (if (nm = ur_Domain rt \<or> HasSuffix nm (CHR ''.'' # ur_Domain rt)) \<and> int (length (ur_Domain rt)) > bestLen
      then routeScan (Some rt) (int (length (ur_Domain rt))) rts nm
      else routeScan best bestLen rts nm)"

definition routeMatch :: "UpstreamRoute list \<Rightarrow> string \<Rightarrow> UpstreamRoute option" where
  "routeMatch routes nm = routeScan None (- 1) routes nm"

section \<open>Building them from the configuration\<close>

definition asnNumbers :: "string list \<Rightarrow> 32 word list" where
  "asnNumbers asns = List.map_filter ParseASN asns"

record RateLimitConfig =
  rc_Enabled :: bool
  rc_QPS :: int
  rc_Burst :: int
  rc_AutoBlock :: bool
  rc_BlockAfter :: int
  rc_BlockFor :: duration

record NXGuardConfig =
  nc_Enabled :: bool
  nc_Threshold :: int
  nc_Window :: duration
  nc_BlockFor :: duration

record RepeatQueryConfig =
  qc_Enabled :: bool
  qc_Threshold :: int
  qc_Window :: duration

definition BuildRateLimiter :: "RateLimitConfig \<Rightarrow> RateLimiter option" where
  "BuildRateLimiter rl =
     (if \<not> rc_Enabled rl then None
      else let lim = NewRateLimiter (rc_QPS rl) (rc_Burst rl)
           in Some (if rc_AutoBlock rl then SetAutoBlock lim (rc_BlockAfter rl) (rc_BlockFor rl) else lim))"

definition BuildNXGuard :: "NXGuardConfig \<Rightarrow> NXGuard option" where
  "BuildNXGuard g = (if \<not> nc_Enabled g then None else Some (NewNXGuard (nc_Threshold g) (nc_Window g) (nc_BlockFor g)))"

definition BuildRepeatGuard :: "RepeatQueryConfig \<Rightarrow> RepeatGuard option" where
  "BuildRepeatGuard g = (if \<not> qc_Enabled g then None else Some (NewRepeatGuard (qc_Threshold g) (qc_Window g)))"

definition BuildRewriter :: "'re filterEnv \<Rightarrow> RewriteSpec list \<Rightarrow> Rewriter" where
  "BuildRewriter env specs = Rewriter_Set env specs NewRewriter"

record ClientGroup =
  cg_ID :: string
  cg_Name :: string
  cg_Enabled :: bool
  cg_CIDRs :: "string list"
  cg_ASNs :: "string list"
  cg_Blocklists :: "string list"
  cg_Blacklist :: "string list"
  cg_Whitelist :: "string list"
  cg_Upstreams :: "string list"

text \<open>The engine of one group; a list without content is skipped. \<open>parse\<close> is the parser of upstream addresses: an
  address it rejects is left out.\<close>

definition groupEngine :: "'re filterEnv \<Rightarrow> (string, string) gomap \<Rightarrow> 're ListManager \<Rightarrow> ClientGroup \<Rightarrow> string list \<Rightarrow> 're Engine" where
  "groupEngine env listNames lm g ids =
     (let load = (\<lambda>lid e. case GetContent lid lm of
                    None \<Rightarrow> e
                  | Some content \<Rightarrow> snd (LoadList env lid (case map_of listNames lid of None \<Rightarrow> [] | Some n \<Rightarrow> n) content e))
      in Compile env (SetUserLists env (cg_Blacklist g) (cg_Whitelist g) (fold load ids NewEngine)))"

definition BuildClientRouter ::
  "'re filterEnv \<Rightarrow> (string \<Rightarrow> string option) \<Rightarrow> ClientGroup list \<Rightarrow> ListSpec list \<Rightarrow> 're ListManager \<Rightarrow> ASNTable option \<Rightarrow> 're ClientRouter" where
  "BuildClientRouter env parse cgs blocklists lm asnTable =
     (if cgs = [] then NewClientRouter
      else
        let listNames = map (\<lambda>s. (ls_ID s, ls_Name s)) (rev blocklists);
            allIDs = map ls_ID (filter ls_Enabled blocklists);
            groups = map (\<lambda>g. \<lparr>gc_CIDRs = cg_CIDRs g, gc_ASNs = asnNumbers (cg_ASNs g),
                        gc_Policy = Some \<lparr>cp_GroupID = cg_ID g, cp_GroupName = cg_Name g,
                          cp_Engine = groupEngine env listNames lm g (if cg_Blocklists g = [] then allIDs else cg_Blocklists g),
                          cp_Upstreams = List.map_filter parse (cg_Upstreams g)\<rparr>\<rparr>) (filter cg_Enabled cgs)
        in SetPolicies NewClientRouter groups asnTable)"

section \<open>The policy cache is invisible\<close>

inductive router_reach :: "'re ClientRouter \<Rightarrow> bool" where
  reach_router_new: "router_reach NewClientRouter"
| reach_router_set: "router_reach cr \<Longrightarrow> router_reach (SetPolicies cr groups asnTable)"
| reach_router_resolve: "router_reach cr \<Longrightarrow> router_reach (snd (Resolve cr client))"

text \<open>The policy a client has by the routing table alone.\<close>

definition policyOf :: "'re clientEntries \<Rightarrow> string \<Rightarrow> 're ClientPolicy option" where
  "policyOf es client = (if ParseIP client = [] then None else scanGroups es (ParseIP client))"

definition router_ok :: "'re ClientRouter \<Rightarrow> bool" where
  "router_ok cr \<longleftrightarrow> memo_ok (policyOf (cr_entries cr)) maxPolicyCache (cr_cache cr) (cr_cacheSize cr)"

interpretation pol: bounded_memo maxPolicyCache cr_cache cr_cacheSize cachePolicy
  by unfold_locales (simp_all add: cachePolicy_def Let_def)

lemma cr_entries_cachePolicy [simp]: "cr_entries (cachePolicy cr client p) = cr_entries cr"
  by (simp add: cachePolicy_def Let_def)

lemma Resolve_ok: "router_ok cr \<Longrightarrow> router_ok (snd (Resolve cr client))"
  using pol.store_ok[of "policyOf (cr_entries cr)" cr client]
  by (auto simp: Resolve_def router_ok_def policyOf_def Let_def split: option.splits if_splits)

lemma Resolve_policy: "router_ok cr \<Longrightarrow> fst (Resolve cr client) = policyOf (cr_entries cr) client"
  unfolding router_ok_def using memo_ok_hit[of "policyOf (cr_entries cr)"]
  by (cases "map_of (cr_cache cr) client") (auto simp: Resolve_def policyOf_def Let_def)

lemma cr_entries_Resolve [simp]: "cr_entries (snd (Resolve cr client)) = cr_entries cr"
  by (auto simp: Resolve_def cachePolicy_def Let_def split: option.splits)

lemma router_reach_ok: "router_reach cr \<Longrightarrow> router_ok cr"
proof (induction rule: router_reach.induct)
  case (reach_router_resolve cr client)
  then show ?case by (simp add: Resolve_ok)
qed (simp_all add: router_ok_def NewClientRouter_def SetPolicies_def maxPolicyCache_def)

section \<open>The longest route\<close>

definition routeCovers :: "UpstreamRoute \<Rightarrow> string \<Rightarrow> bool" where
  "routeCovers rt nm \<longleftrightarrow> nm = ur_Domain rt \<or> (\<exists>p. nm = p @ ''.'' @ ur_Domain rt)"

lemma HasSuffix_iff: "HasSuffix s t \<longleftrightarrow> (\<exists>p. s = p @ t)"
  by (auto simp: HasSuffix_def) (metis append_take_drop_id)

definition routeBest :: "UpstreamRoute option \<Rightarrow> int \<Rightarrow> UpstreamRoute list \<Rightarrow> string \<Rightarrow> UpstreamRoute option \<Rightarrow> bool" where
  "routeBest best bl rts nm r =
     (case r of
        None \<Rightarrow> best = None \<and> (\<forall>rt \<in> set rts. \<not> routeCovers rt nm)
      | Some x \<Rightarrow> routeCovers x nm \<and> (best = Some x \<or> x \<in> set rts) \<and> bl \<le> int (length (ur_Domain x)) \<and>
          (\<forall>rt \<in> set rts. routeCovers rt nm \<longrightarrow> length (ur_Domain rt) \<le> length (ur_Domain x)))"

definition routeAcc :: "UpstreamRoute option \<Rightarrow> int \<Rightarrow> string \<Rightarrow> bool" where
  "routeAcc best bl nm = (case best of None \<Rightarrow> bl = - 1 | Some b \<Rightarrow> bl = int (length (ur_Domain b)) \<and> routeCovers b nm)"

lemma routeScan_best: "routeAcc best bl nm \<Longrightarrow> routeBest best bl rts nm (routeScan best bl rts nm)"
proof (induction best bl rts nm rule: routeScan.induct)
  case (1 best bl nm)
  then show ?case by (auto simp: routeBest_def routeAcc_def split: option.splits)
next
  case (2 best bl rt rts nm)
  have m: "(nm = ur_Domain rt \<or> HasSuffix nm (CHR ''.'' # ur_Domain rt)) \<longleftrightarrow> routeCovers rt nm"
    by (simp add: routeCovers_def HasSuffix_iff)
  show ?case
  proof (cases "routeCovers rt nm \<and> int (length (ur_Domain rt)) > bl")
    case True
    then have "routeAcc (Some rt) (int (length (ur_Domain rt))) nm" by (simp add: routeAcc_def)
    then have "routeBest (Some rt) (int (length (ur_Domain rt))) rts nm (routeScan (Some rt) (int (length (ur_Domain rt))) rts nm)"
      using "2.IH"(1) True m by simp
    then show ?thesis using True m
      by (cases "routeScan (Some rt) (int (length (ur_Domain rt))) rts nm") (auto simp: routeBest_def)
  next
    case False
    then have "routeBest best bl rts nm (routeScan best bl rts nm)" using "2.IH"(2) "2.prems" m by simp
    moreover have "best = None \<Longrightarrow> \<not> routeCovers rt nm" using False "2.prems" by (auto simp: routeAcc_def)
    ultimately show ?thesis using False m
      by (cases "routeScan best bl rts nm") (auto simp: routeBest_def)
  qed
qed

section \<open>Properties\<close>

text \<open>C20: the per-client policy cache refines the routing table: whatever sequence of reloads and lookups led to a
  router, the policy \<^verbatim>\<open>Resolve\<close> returns is the one of the first group that matches the client in the current table, and
  the cache never holds more than 4097 clients.\<close>

theorem client_router_refines:
  assumes "router_reach cr"
  shows "fst (Resolve cr client) = policyOf (cr_entries cr) client \<and> cr_entries (snd (Resolve cr client)) = cr_entries cr \<and>
     length (cr_cache (snd (Resolve cr client))) \<le> 4097"
proof -
  note ok = router_reach_ok[OF assms]
  have "router_ok (snd (Resolve cr client))" by (rule Resolve_ok[OF ok])
  then have "length (cr_cache (snd (Resolve cr client))) \<le> 4097"
    unfolding router_ok_def by (auto dest!: memo_ok_bound simp: maxPolicyCache_def)
  then show ?thesis using Resolve_policy[OF ok] by simp
qed

definition sample_router :: "unit ClientRouter" where
  "sample_router = SetPolicies NewClientRouter
     [\<lparr>gc_CIDRs = [''1.2.3.4''], gc_ASNs = [], gc_Policy = Some \<lparr>cp_GroupID = ''kids'', cp_GroupName = ''Kids'', cp_Engine = NewEngine, cp_Upstreams = []\<rparr>\<rparr>] None"

theorem client_router_refines_witness:
  "fst (Resolve (snd (Resolve sample_router ''1.2.3.4'')) ''1.2.3.4'') =
     policyOf (cr_entries (snd (Resolve sample_router ''1.2.3.4''))) ''1.2.3.4'' \<and>
   map_option cp_GroupID (policyOf (cr_entries sample_router) ''1.2.3.4'') = Some ''kids'' \<and>
   policyOf (cr_entries sample_router) ''1.2.3.5'' = None"
proof -
  have "router_reach (snd (Resolve sample_router ''1.2.3.4''))"
    unfolding sample_router_def by (intro router_reach.intros)
  from client_router_refines[OF this, of "''1.2.3.4''"]
  have "fst (Resolve (snd (Resolve sample_router ''1.2.3.4'')) ''1.2.3.4'') =
     policyOf (cr_entries (snd (Resolve sample_router ''1.2.3.4''))) ''1.2.3.4''" by blast
  moreover have "map_option cp_GroupID (policyOf (cr_entries sample_router) ''1.2.3.4'') = Some ''kids''" by code_simp
  moreover have "policyOf (cr_entries sample_router) ''1.2.3.5'' = None" by code_simp
  ultimately show ?thesis by blast
qed

text \<open>Conditional routing picks the most specific route: a name is routed exactly when some route's domain is the
  name or an ancestor of it at a label boundary, and then by one with the longest such domain.\<close>

theorem route_match_longest:
  "case routeMatch routes nm of
     None \<Rightarrow> list_all (\<lambda>rt. \<not> routeCovers rt nm) routes
   | Some x \<Rightarrow> x \<in> set routes \<and> routeCovers x nm \<and> list_all (\<lambda>rt. length (ur_Domain rt) \<le> length (ur_Domain x)) (filter (\<lambda>rt. routeCovers rt nm) routes)"
  using routeScan_best[of None "- 1" nm routes] unfolding routeMatch_def
  by (cases "routeScan None (- 1) routes nm") (auto simp: routeBest_def routeAcc_def list_all_iff)

end
