(* ===== verification/Forwarding.thy ===== *)
theory Forwarding
  imports Responses
begin

text \<open>
  Upstream forwarders: the circuit breaker, connection pools and transports of \<^verbatim>\<open>internal/upstream\<close>, and the strategies that
  query a set of them (\<^verbatim>\<open>queryUpstreams\<close>, \<^verbatim>\<open>sequentialUpstreams\<close>, \<^verbatim>\<open>raceUpstreams\<close>, \<^verbatim>\<open>resolveUpstreams\<close> of
  \<^verbatim>\<open>internal/dnsserver/handler.go\<close>). What the network answers is an argument; connections are numbers.
\<close>

section \<open>Errors\<close>

datatype uerr =
  Canceled
| NetErr string
| StaleConn string
| HTTPStatus nat
| BadMessage
| UdpThenTcp uerr uerr
| DoqDial uerr
| InCooldown string
| AllInCooldown
| NoResponseFrom string
| AnsweredServfail string
| NoUpstreamResponse
| DeadlineExceeded

text \<open>\<^verbatim>\<open>errors.Is(err, context.Canceled)\<close>: through the wrapped errors.\<close>

fun isCanceled :: "uerr \<Rightarrow> bool" where
  "isCanceled Canceled = True"
| "isCanceled (UdpThenTcp e t) = isCanceled t"
| "isCanceled (DoqDial e) = isCanceled e"
| "isCanceled _ = False"

definition isStaleConnError :: "uerr \<Rightarrow> bool" where
  "isStaleConnError e = (case e of StaleConn _ \<Rightarrow> True | _ \<Rightarrow> False)"

section \<open>The forwarder\<close>

datatype Transport = UDP | TCP | TLS | HTTPS | QUIC | Recursive

type_synonym pool = "(nat \<times> gotime) list"

record Upstream =
  up_Transport :: Transport
  up_Addr :: string
  up_Host :: string
  up_Name :: string
  up_fails :: int
  up_cooldownUntil :: int
  up_poolHits :: int
  up_poolMisses :: int
  up_connPool :: "pool option"
  up_udpPool :: "pool option"
  up_quicConn :: "nat option"

definition circuitOpenFails :: int where "circuitOpenFails = 3"
definition circuitCooldown :: duration where "circuitCooldown = 20 * Second"
definition circuitCooldownJitter :: duration where "circuitCooldownJitter = 8 * Second"
definition poolMaxIdle :: duration where "poolMaxIdle = 20 * Second"

definition upstreamOf :: "Transport \<Rightarrow> string \<Rightarrow> string \<Rightarrow> string \<Rightarrow> Upstream" where
  "upstreamOf t addr host nm = \<lparr>up_Transport = t, up_Addr = addr, up_Host = host, up_Name = nm, up_fails = 0, up_cooldownUntil = 0,
     up_poolHits = 0, up_poolMisses = 0, up_connPool = (if t \<in> {TCP, TLS} then Some [] else None),
     up_udpPool = (if t = UDP then Some [] else None), up_quicConn = None\<rparr>"

text \<open>A URL as \<^verbatim>\<open>net/url\<close> parses it: scheme, host with its port, host name, port, path and its text.\<close>

record URL =
  u_Scheme :: string
  u_Host :: string
  u_Hostname :: string
  u_Port :: string
  u_Path :: string
  u_String :: string

definition JoinHostPort :: "string \<Rightarrow> string \<Rightarrow> string" where
  "JoinHostPort h p = (if CHR '':'' \<in> set h then ''['' @ h @ '']:'' @ p else h @ '':'' @ p)"

datatype parse_error = EmptyUpstream | BadURL | UnsupportedScheme string

text \<open>\<^verbatim>\<open>strings.Index(s, "://")\<close>.\<close>

definition schemeEnd :: "string \<Rightarrow> nat option" where
  "schemeEnd s = List.find (\<lambda>i. take 3 (drop i s) = ''://'') [0..<length s]"

definition specText :: "string \<Rightarrow> string" where
  "specText spec = (let s = TrimSpace spec in if schemeEnd s \<noteq> None then s else ''udp://'' @ s)"

definition defaultPort :: "Transport \<Rightarrow> string" where
  "defaultPort t = (if t \<in> {TLS, QUIC} then ''853'' else ''53'')"

definition classicTransport :: "string \<Rightarrow> Transport option" where
  "classicTransport sch = (if sch = ''udp'' then Some UDP else if sch = ''tcp'' then Some TCP else if sch = ''tls'' then Some TLS
     else if sch = ''quic'' then Some QUIC else None)"

text \<open>\<^verbatim>\<open>Parse\<close>, given the URL parser. The name of an HTTPS upstream is its URL with the default path filled in, which
  \<open>withPath\<close> renders.\<close>

definition Parse :: "(string \<Rightarrow> URL option) \<Rightarrow> (URL \<Rightarrow> string \<Rightarrow> string) \<Rightarrow> string \<Rightarrow> parse_error + Upstream" where
  "Parse urlParse withPath spec =
     (if TrimSpace spec = [] then Inl EmptyUpstream
      else case urlParse (specText spec) of
        None \<Rightarrow> Inl BadURL
      | Some p \<Rightarrow>
          if u_Scheme p = ''recursive'' then Inr (upstreamOf Recursive [] [] (u_String p))
          else if u_Scheme p = ''https'' then
            Inr (upstreamOf HTTPS (u_Host p) (u_Hostname p) (withPath p (if u_Path p = [] then ''/dns-query'' else u_Path p)))
          else (case classicTransport (u_Scheme p) of
                  None \<Rightarrow> Inl (UnsupportedScheme (u_Scheme p))
                | Some t \<Rightarrow>
                    Inr (upstreamOf t (if u_Port p = [] then JoinHostPort (u_Hostname p) (defaultPort t) else u_Host p) (u_Hostname p) (u_String p))))"

definition IsRecursiveSpec :: "string \<Rightarrow> bool" where
  "IsRecursiveSpec spec =
     (let s = TrimSpace spec in
      case schemeEnd s of
        None \<Rightarrow> False
      | Some i \<Rightarrow> i > 0 \<and> EqualFold (take i s) ''recursive'')"

section \<open>Circuit breaker\<close>

text \<open>\<open>jitter\<close> is the random draw, between \<open>-8s\<close> and \<open>8s\<close>.\<close>

definition markResult :: "Upstream \<Rightarrow> uerr option \<Rightarrow> gotime \<Rightarrow> duration \<Rightarrow> Upstream" where
  "markResult u err now jitter =
     (case err of
        None \<Rightarrow> u\<lparr>up_fails := 0, up_cooldownUntil := 0\<rparr>
      | Some e \<Rightarrow>
          if isCanceled e then u
          else
            let u1 = u\<lparr>up_fails := up_fails u + 1\<rparr>
            in if up_fails u1 \<ge> circuitOpenFails then u1\<lparr>up_cooldownUntil := now + (circuitCooldown + jitter)\<rparr> else u1)"

definition Available :: "Upstream \<Rightarrow> gotime \<Rightarrow> bool" where
  "Available u now \<longleftrightarrow> up_fails u < circuitOpenFails \<or> now \<ge> up_cooldownUntil u"

definition CooldownUntil :: "Upstream \<Rightarrow> gotime option" where
  "CooldownUntil u = (if up_cooldownUntil u = 0 then None else Some (up_cooldownUntil u))"

definition PoolStats :: "Upstream \<Rightarrow> int \<times> int" where
  "PoolStats u = (up_poolHits u, up_poolMisses u)"

section \<open>Connection pools\<close>

text \<open>The loop of \<^verbatim>\<open>getConn\<close> and \<^verbatim>\<open>udpGetConn\<close>: connections that sat idle too long are closed and skipped.\<close>

fun takeConn :: "gotime \<Rightarrow> pool \<Rightarrow> nat option \<times> pool" where
  "takeConn now [] = (None, [])"
| "takeConn now ((c, at) # pool) = (if tsub now at > poolMaxIdle then takeConn now pool else (Some c, pool))"

definition countConn :: "nat option \<Rightarrow> Upstream \<Rightarrow> Upstream" where
  "countConn c u = (if c = None then u\<lparr>up_poolMisses := up_poolMisses u + 1\<rparr> else u\<lparr>up_poolHits := up_poolHits u + 1\<rparr>)"

definition getConn :: "Upstream \<Rightarrow> gotime \<Rightarrow> nat option \<times> Upstream" where
  "getConn u now =
     (case up_connPool u of
        None \<Rightarrow> (None, countConn None u)
      | Some p \<Rightarrow> let (c, p') = takeConn now p in (c, countConn c (u\<lparr>up_connPool := Some p'\<rparr>)))"

definition udpGetConn :: "Upstream \<Rightarrow> gotime \<Rightarrow> nat option \<times> Upstream" where
  "udpGetConn u now =
     (case up_udpPool u of
        None \<Rightarrow> (None, countConn None u)
      | Some p \<Rightarrow> let (c, p') = takeConn now p in (c, countConn c (u\<lparr>up_udpPool := Some p'\<rparr>)))"

text \<open>A full pool, or none, closes the connection instead; \<open>cap\<close> is the tuned capacity of the channel.\<close>

definition poolAdd :: "nat \<Rightarrow> pool option \<Rightarrow> nat \<Rightarrow> gotime \<Rightarrow> pool option" where
  "poolAdd cap p c now = map_option (\<lambda>q. if length q < cap then q @ [(c, now)] else q) p"

definition putConn :: "nat \<Rightarrow> Upstream \<Rightarrow> nat \<Rightarrow> gotime \<Rightarrow> Upstream" where
  "putConn cap u c now = u\<lparr>up_connPool := poolAdd cap (up_connPool u) c now\<rparr>"

definition udpPutConn :: "nat \<Rightarrow> Upstream \<Rightarrow> nat \<Rightarrow> gotime \<Rightarrow> Upstream" where
  "udpPutConn cap u c now = u\<lparr>up_udpPool := poolAdd cap (up_udpPool u) c now\<rparr>"

definition Upstream_Close :: "Upstream \<Rightarrow> Upstream" where
  "Upstream_Close u = u\<lparr>up_connPool := map_option (\<lambda>_. []) (up_connPool u), up_udpPool := map_option (\<lambda>_. []) (up_udpPool u), up_quicConn := None\<rparr>"

section \<open>Exchanges\<close>

text \<open>What the network does during one pooled exchange: the reply on a warm connection, the outcome of a fresh dial
  and the reply on it; the instants at which the pool is read, the warm exchange ended, and the fresh one ended.\<close>

record exchNet =
  en_Warm :: "uerr + Msg"
  en_Dial :: "uerr + nat"
  en_Fresh :: "uerr + Msg"
  en_t0 :: gotime
  en_t1 :: gotime
  en_t2 :: gotime
  en_jitter1 :: duration
  en_jitter2 :: duration

type_synonym qresult = "uerr + Msg option"

text \<open>The dial and exchange at the end of \<^verbatim>\<open>pooledExchange\<close>.\<close>

definition freshExchange :: "nat \<Rightarrow> Upstream \<Rightarrow> exchNet \<Rightarrow> qresult \<times> Upstream" where
  "freshExchange cap u n =
     (case en_Dial n of
        Inl e \<Rightarrow> (Inl e, markResult u (Some e) (en_t2 n) (en_jitter2 n))
      | Inr c \<Rightarrow>
          (case en_Fresh n of
             Inl e \<Rightarrow> (Inl e, markResult u (Some e) (en_t2 n) (en_jitter2 n))
           | Inr r \<Rightarrow> (Inr (Some r), putConn cap (markResult u None (en_t2 n) 0) c (en_t2 n))))"

definition pooledExchange :: "nat \<Rightarrow> Upstream \<Rightarrow> exchNet \<Rightarrow> qresult \<times> Upstream" where
  "pooledExchange cap u n =
     (case getConn u (en_t0 n) of
        (None, u1) \<Rightarrow> freshExchange cap u1 n
      | (Some c, u1) \<Rightarrow>
          (case en_Warm n of
             Inr r \<Rightarrow> (Inr (Some r), putConn cap (markResult u1 None (en_t1 n) 0) c (en_t1 n))
           | Inl e \<Rightarrow> freshExchange cap (markResult u1 (Some e) (en_t1 n) (en_jitter1 n)) n))"

text \<open>The UDP half of \<^verbatim>\<open>queryClassic\<close>: a warm socket first, then a fresh one.\<close>

definition udpFresh :: "nat \<Rightarrow> Upstream \<Rightarrow> exchNet \<Rightarrow> (uerr + Msg) \<times> Upstream" where
  "udpFresh cap u n =
     (case en_Dial n of
        Inl e \<Rightarrow> (Inl e, u)
      | Inr c \<Rightarrow> (case en_Fresh n of Inl e \<Rightarrow> (Inl e, u) | Inr r \<Rightarrow> (Inr r, udpPutConn cap u c (en_t2 n))))"

definition udpAttempt :: "nat \<Rightarrow> Upstream \<Rightarrow> exchNet \<Rightarrow> (uerr + Msg) \<times> Upstream" where
  "udpAttempt cap u n =
     (case udpGetConn u (en_t0 n) of
        (None, u1) \<Rightarrow> udpFresh cap u1 n
      | (Some c, u1) \<Rightarrow>
          (case en_Warm n of Inr r \<Rightarrow> (Inr r, udpPutConn cap u1 c (en_t1 n)) | Inl e \<Rightarrow> udpFresh cap u1 n))"

definition queryClassic :: "nat \<Rightarrow> Upstream \<Rightarrow> bool \<Rightarrow> exchNet \<Rightarrow> exchNet \<Rightarrow> qresult \<times> Upstream" where
  "queryClassic cap u tcp udpNet tcpNet =
     (if tcp then pooledExchange cap u tcpNet
      else case udpAttempt cap u udpNet of
        (res, u1) \<Rightarrow>
          let retry = (case pooledExchange cap u1 tcpNet of
                (Inr r, u2) \<Rightarrow> (Inr r, u2)
              | (Inl te, u2) \<Rightarrow> (Inl (case res of Inl e \<Rightarrow> UdpThenTcp e te | Inr _ \<Rightarrow> te), u2))
          in (case res of
                Inr r \<Rightarrow> if \<not> m_Truncated r then (Inr (Some r), markResult u1 None (en_t2 udpNet) 0) else retry
              | Inl e \<Rightarrow> retry))"

definition queryDoT :: "nat \<Rightarrow> Upstream \<Rightarrow> exchNet \<Rightarrow> qresult \<times> Upstream" where
  "queryDoT cap u n = pooledExchange cap u n"

text \<open>One HTTP attempt of \<^verbatim>\<open>queryDoH\<close>.\<close>

datatype httpOutcome = RequestErr uerr | Status nat | BodyErr uerr | Body "byte list"

definition staleAttempt :: "httpOutcome \<Rightarrow> bool" where
  "staleAttempt o1 = (case o1 of RequestErr e \<Rightarrow> isStaleConnError e | BodyErr e \<Rightarrow> isStaleConnError e | _ \<Rightarrow> False)"

definition httpResult :: "dnsLib \<Rightarrow> httpOutcome \<Rightarrow> uerr + Msg" where
  "httpResult lib o1 =
     (case o1 of
        RequestErr e \<Rightarrow> Inl e
      | BodyErr e \<Rightarrow> Inl e
      | Status s \<Rightarrow> Inl (HTTPStatus s)
      | Body b \<Rightarrow> (case Unpack lib (take 65536 b) of None \<Rightarrow> Inl BadMessage | Some r \<Rightarrow> Inr r))"

text \<open>The retry loop makes a second attempt exactly when the first one died on a stale connection.\<close>

definition queryDoH :: "dnsLib \<Rightarrow> Upstream \<Rightarrow> Msg \<Rightarrow> httpOutcome \<Rightarrow> httpOutcome \<Rightarrow> gotime \<Rightarrow> duration \<Rightarrow> qresult \<times> Upstream" where
  "queryDoH lib u m first second now jitter =
     (case Pack lib m of
        None \<Rightarrow> (Inl BadMessage, u)
      | Some packed \<Rightarrow>
          (case httpResult lib (if staleAttempt first then second else first) of
             Inl e \<Rightarrow> (Inl e, markResult u (Some e) now jitter)
           | Inr r \<Rightarrow> (Inr (Some r), markResult u None now 0)))"

section \<open>DNS over QUIC\<close>

definition doqFrame :: "byte list \<Rightarrow> byte list" where
  "doqFrame packed = put16 (length packed mod 65536) @ packed"

text \<open>Reading a framed reply off the bytes a stream delivers.\<close>

definition doqUnframe :: "byte list \<Rightarrow> uerr + byte list" where
  "doqUnframe bs =
     (if length bs < 2 then Inl (NetErr ''doq read length'')
      else
        let n = rd16 bs 0 in
        if n = 0 then Inl (NetErr ''doq invalid message length'')
        else if length (drop 2 bs) < n then Inl (NetErr ''doq read message'')
        else Inr (take n (drop 2 bs)))"

text \<open>\<^verbatim>\<open>doQStream\<close>: \<open>io\<close> is what the stream answers to the framed query, or the error of opening or writing it.\<close>

definition doQStream :: "dnsLib \<Rightarrow> Msg \<Rightarrow> (byte list \<Rightarrow> uerr + byte list) \<Rightarrow> uerr + Msg" where
  "doQStream lib m io =
     (case Pack lib m of
        None \<Rightarrow> Inl BadMessage
      | Some packed \<Rightarrow>
          (case io (doqFrame packed) of
             Inl e \<Rightarrow> Inl e
           | Inr bs \<Rightarrow> (case doqUnframe bs of Inl e \<Rightarrow> Inl e
                        | Inr b \<Rightarrow> (case Unpack lib b of None \<Rightarrow> Inl BadMessage | Some r \<Rightarrow> Inr r))))"

record quicNet =
  qn_alive :: bool
  qn_Dial1 :: "uerr + nat"
  qn_Dial2 :: "uerr + nat"
  qn_io1 :: "byte list \<Rightarrow> uerr + byte list"
  qn_io2 :: "byte list \<Rightarrow> uerr + byte list"
  qn_now :: gotime
  qn_jitter :: duration

definition getQUICConn :: "Upstream \<Rightarrow> bool \<Rightarrow> uerr + nat \<Rightarrow> (uerr + nat) \<times> Upstream" where
  "getQUICConn u alive dial =
     (case (up_quicConn u, alive) of
        (Some c, True) \<Rightarrow> (Inr c, u\<lparr>up_poolHits := up_poolHits u + 1\<rparr>)
      | _ \<Rightarrow>
          let u1 = u\<lparr>up_poolMisses := up_poolMisses u + 1\<rparr>
          in (case dial of Inl e \<Rightarrow> (Inl e, u1) | Inr c \<Rightarrow> (Inr c, u1\<lparr>up_quicConn := Some c\<rparr>)))"

definition dropQUICConn :: "Upstream \<Rightarrow> nat \<Rightarrow> Upstream" where
  "dropQUICConn u c = (if up_quicConn u = Some c then u\<lparr>up_quicConn := None\<rparr> else u)"

definition queryDoQClient :: "dnsLib \<Rightarrow> Upstream \<Rightarrow> Msg \<Rightarrow> quicNet \<Rightarrow> qresult \<times> Upstream" where
  "queryDoQClient lib u m n =
     (let fail = (\<lambda>e out u'. (Inl out, markResult u' (Some e) (qn_now n) (qn_jitter n)));
          ok = (\<lambda>r u'. (Inr (Some r), markResult u' None (qn_now n) 0))
      in case getQUICConn u (qn_alive n) (qn_Dial1 n) of
           (Inl e, u1) \<Rightarrow> fail e (DoqDial e) u1
         | (Inr c, u1) \<Rightarrow>
             (case doQStream lib m (qn_io1 n) of
                Inr r \<Rightarrow> ok r u1
              | Inl e \<Rightarrow>
                  (case getQUICConn (dropQUICConn u1 c) True (qn_Dial2 n) of
                     (Inl e2, u2) \<Rightarrow> fail e2 (DoqDial e2) u2
                   | (Inr c2, u2) \<Rightarrow>
                       (case doQStream lib m (qn_io2 n) of
                          Inr r \<Rightarrow> ok r u2
                        | Inl e3 \<Rightarrow> (case fail e3 e3 u2 of (x, u3) \<Rightarrow> (x, dropQUICConn u3 c2))))))"

section \<open>One query\<close>

text \<open>Everything the network, the clock and the recursive resolver contribute to one call of \<^verbatim>\<open>Query\<close>.\<close>

record netWorld =
  nw_udp :: exchNet
  nw_stream :: exchNet
  nw_http1 :: httpOutcome
  nw_http2 :: httpOutcome
  nw_quic :: quicNet
  nw_recursive :: "uerr + Msg option"
  nw_now :: gotime
  nw_jitter :: duration

definition Query :: "dnsLib \<Rightarrow> nat \<Rightarrow> Upstream \<Rightarrow> Msg \<Rightarrow> netWorld \<Rightarrow> qresult \<times> Upstream" where
  "Query lib cap u m n =
     (case up_Transport u of
        UDP \<Rightarrow> queryClassic cap u False (nw_udp n) (nw_stream n)
      | TCP \<Rightarrow> queryClassic cap u True (nw_udp n) (nw_stream n)
      | TLS \<Rightarrow> queryDoT cap u (nw_stream n)
      | HTTPS \<Rightarrow> queryDoH lib u m (nw_http1 n) (nw_http2 n) (nw_now n) (nw_jitter n)
      | QUIC \<Rightarrow> queryDoQClient lib u m (nw_quic n)
      | Recursive \<Rightarrow>
          (nw_recursive n, markResult u (case nw_recursive n of Inl e \<Rightarrow> Some e | Inr _ \<Rightarrow> None) (nw_now n) (nw_jitter n)))"

section \<open>A set of forwarders\<close>

text \<open>The forwarders are numbered by their place in the list; \<open>net\<close> gives each query's network, and \<open>late i\<close> says that the
  query's deadline has passed when the loop reaches forwarder \<open>i\<close>.\<close>

type_synonym upstream_result = "(uerr \<times> string) + Msg option \<times> string"

record seqState =
  ss_lastErr :: "uerr option"
  ss_lastFail :: "(Msg \<times> string) option"

definition seqEnd :: "seqState \<Rightarrow> upstream_result" where
  "seqEnd s = (case ss_lastFail s of
       Some (m, up) \<Rightarrow> Inr (Some m, up)
     | None \<Rightarrow> Inl (case ss_lastErr s of None \<Rightarrow> NoUpstreamResponse | Some e \<Rightarrow> e, []))"

fun sequentialUpstreams :: "dnsLib \<Rightarrow> nat \<Rightarrow> Msg \<Rightarrow> (nat \<Rightarrow> netWorld) \<Rightarrow> (nat \<Rightarrow> bool) \<Rightarrow> seqState \<Rightarrow> nat list \<Rightarrow> Upstream list \<Rightarrow> upstream_result \<times> Upstream list" where
  "sequentialUpstreams lib cap r net late s [] ups = (seqEnd s, ups)"
| "sequentialUpstreams lib cap r net late s (i # ixs) ups =
     (if late i then (seqEnd s, ups)
      else
        let (res, u') = Query lib cap (ups ! i) r (net i); ups' = ups[i := u']; nm = up_Name (ups ! i)
        in case res of
             Inl e \<Rightarrow> sequentialUpstreams lib cap r net late (s\<lparr>ss_lastErr := Some e\<rparr>) ixs ups'
           | Inr None \<Rightarrow> sequentialUpstreams lib cap r net late (s\<lparr>ss_lastErr := Some (NoResponseFrom nm)\<rparr>) ixs ups'
           | Inr (Some m) \<Rightarrow>
               if m_Rcode m = RcodeServerFailure
               then sequentialUpstreams lib cap r net late \<lparr>ss_lastErr = Some (AnsweredServfail nm), ss_lastFail = Some (m, nm)\<rparr> ixs ups'
               else (Inr (Some m, nm), ups'))"

text \<open>\<^verbatim>\<open>raceUpstreams\<close>: every forwarder is queried; \<open>arrival\<close> is the order in which their results reach the collector,
  which stops at the first response. The losers' results still reach their breakers.\<close>

fun collectRace :: "uerr option \<Rightarrow> (qresult \<times> string) list \<Rightarrow> upstream_result" where
  "collectRace lastErr [] = Inl (case lastErr of None \<Rightarrow> NoUpstreamResponse | Some e \<Rightarrow> e, [])"
| "collectRace lastErr ((res, nm) # rs) =
     (case res of
        Inr (Some m) \<Rightarrow> Inr (Some m, nm)
      | Inr None \<Rightarrow> collectRace lastErr rs
      | Inl e \<Rightarrow> collectRace (Some e) rs)"

definition raceUpstreams :: "dnsLib \<Rightarrow> nat \<Rightarrow> Msg \<Rightarrow> (nat \<Rightarrow> netWorld) \<Rightarrow> nat list \<Rightarrow> Upstream list \<Rightarrow> upstream_result \<times> Upstream list" where
  "raceUpstreams lib cap r net arrival ups =
     (let run = (\<lambda>i. Query lib cap (ups ! i) r (net i))
      in (collectRace None (map (\<lambda>i. (fst (run i), up_Name (ups ! i))) arrival),
          fold (\<lambda>i us. us[i := snd (run i)]) arrival ups))"

definition UpstreamModeRace :: string where "UpstreamModeRace = ''race''"
definition UpstreamModeSequential :: string where "UpstreamModeSequential = ''sequential''"

text \<open>\<open>order\<close> is the arrival order of a race over the available forwarders.\<close>

definition queryUpstreams :: "dnsLib \<Rightarrow> nat \<Rightarrow> string \<Rightarrow> Msg \<Rightarrow> gotime \<Rightarrow> (nat \<Rightarrow> netWorld) \<Rightarrow> (nat \<Rightarrow> bool) \<Rightarrow> (nat list \<Rightarrow> nat list) \<Rightarrow> Upstream list \<Rightarrow>
    upstream_result \<times> Upstream list" where
  "queryUpstreams lib cap mode r now net late order ups =
     (case ups of
        [u] \<Rightarrow>
          if \<not> Available u now then (Inl (InCooldown (up_Name u), up_Name u), ups)
          else (case Query lib cap u r (net 0) of
                  (Inl e, u') \<Rightarrow> (Inl (e, []), [u'])
                | (Inr m, u') \<Rightarrow> (Inr (m, up_Name u), [u']))
      | _ \<Rightarrow>
          let avail = filter (\<lambda>i. Available (ups ! i) now) [0..<length ups] in
          if avail = [] then (Inl (AllInCooldown, []), ups)
          else if mode = UpstreamModeSequential
            then sequentialUpstreams lib cap r net late \<lparr>ss_lastErr = None, ss_lastFail = None\<rparr> avail ups
          else raceUpstreams lib cap r net (order avail) ups)"

section \<open>Coalescing\<close>

text \<open>How a caller meets the in-flight pool: it leads a flight (which others may share), joins one and gets its result, or
  its deadline passes first (the flight it may have started goes on).\<close>

datatype flight = Lead bool | Join upstream_result | Deadline bool

definition flightReturn :: "Msg \<Rightarrow> upstream_result \<Rightarrow> upstream_result" where
  "flightReturn r res =
     (case res of
        Inl e \<Rightarrow> Inl e
      | Inr (None, up) \<Rightarrow> Inr (None, up)
      | Inr (Some m, up) \<Rightarrow> Inr (Some (m\<lparr>m_Id := m_Id r\<rparr>), up))"

definition answered :: "upstream_result \<Rightarrow> bool" where
  "answered res = (case res of Inr (Some m, up) \<Rightarrow> True | _ \<Rightarrow> False)"

text \<open>The result, the forwarders, and what is added to the counters of flights and of merged queries.\<close>

definition resolveUpstreams :: "flight \<Rightarrow> Msg \<Rightarrow> Upstream list \<Rightarrow> (Upstream list \<Rightarrow> upstream_result \<times> Upstream list) \<Rightarrow> upstream_result \<times> Upstream list \<times> int \<times> int" where
  "resolveUpstreams fl r ups query =
     (if \<not> coalesceEligible r then (case query ups of (res, ups') \<Rightarrow> (res, ups', 0, 0))
      else case fl of
        Lead shared \<Rightarrow>
          (case query ups of (res, ups') \<Rightarrow> (flightReturn r res, ups', 1, if shared \<and> answered res then 1 else 0))
      | Join res \<Rightarrow> (flightReturn r res, ups, 0, if answered res then 1 else 0)
      | Deadline led \<Rightarrow> (Inl (DeadlineExceeded, []), if led then snd (query ups) else ups, if led then 1 else 0, 0))"

section \<open>Breaker runs\<close>

type_synonym attempt = "uerr option \<times> gotime \<times> duration"

definition breakerRun :: "Upstream \<Rightarrow> attempt list \<Rightarrow> Upstream" where
  "breakerRun u as = fold (\<lambda>(e, t, j) u. markResult u e t j) as u"

text \<open>The failures since the last success, latest first; a cancelled attempt is not one.\<close>

definition recentFailures :: "attempt list \<Rightarrow> attempt list" where
  "recentFailures as = filter (\<lambda>(e, t, j). case e of None \<Rightarrow> False | Some x \<Rightarrow> \<not> isCanceled x) (takeWhile (\<lambda>(e, t, j). e \<noteq> None) (rev as))"

lemma breakerRun_snoc: "breakerRun u (as @ [(e, t, j)]) = markResult (breakerRun u as) e t j"
  by (simp add: breakerRun_def)

lemma recentFailures_snoc:
  "recentFailures (as @ [(e, t, j)]) =
     (case e of None \<Rightarrow> [] | Some x \<Rightarrow> if isCanceled x then recentFailures as else (e, t, j) # recentFailures as)"
  by (simp add: recentFailures_def split: option.splits)

lemma breakerRun_state:
  assumes "up_fails u = 0"
  shows "up_fails (breakerRun u as) = int (length (recentFailures as)) \<and>
    (length (recentFailures as) \<ge> 3 \<longrightarrow>
       (case recentFailures as of [] \<Rightarrow> False | (e, t, j) # _ \<Rightarrow> up_cooldownUntil (breakerRun u as) = t + (circuitCooldown + j)))"
proof (induction as rule: rev_induct)
  case Nil
  then show ?case using assms by (simp add: breakerRun_def recentFailures_def)
next
  case (snoc a as)
  obtain e t j where a: "a = (e, t, j)" by (cases a)
  show ?case
  proof (cases e)
    case None
    then show ?thesis by (simp add: a breakerRun_snoc recentFailures_snoc markResult_def)
  next
    case (Some x)
    then show ?thesis using snoc
      by (auto simp: a breakerRun_snoc recentFailures_snoc markResult_def circuitOpenFails_def Let_def split: list.splits)
  qed
qed

section \<open>Failover\<close>

text \<open>What classic failover promises about the outcomes of the attempts, in order: the first real answer, else the last
  SERVFAIL, else the last error.\<close>

definition healthy :: "qresult \<times> string \<Rightarrow> bool" where
  "healthy x = (case fst x of Inr (Some m) \<Rightarrow> m_Rcode m \<noteq> RcodeServerFailure | _ \<Rightarrow> False)"

definition servfailed :: "qresult \<times> string \<Rightarrow> bool" where
  "servfailed x = (case fst x of Inr (Some m) \<Rightarrow> m_Rcode m = RcodeServerFailure | _ \<Rightarrow> False)"

definition failReason :: "qresult \<times> string \<Rightarrow> uerr" where
  "failReason x = (case fst x of Inl e \<Rightarrow> e | Inr None \<Rightarrow> NoResponseFrom (snd x) | Inr (Some m) \<Rightarrow> AnsweredServfail (snd x))"

definition answerOf :: "qresult \<times> string \<Rightarrow> upstream_result" where
  "answerOf x = (case fst x of Inl e \<Rightarrow> Inl (e, snd x) | Inr m \<Rightarrow> Inr (m, snd x))"

definition failover :: "(qresult \<times> string) list \<Rightarrow> upstream_result" where
  "failover xs =
     (case List.find healthy xs of
        Some x \<Rightarrow> answerOf x
      | None \<Rightarrow>
          (case List.find servfailed (rev xs) of
             Some x \<Rightarrow> answerOf x
           | None \<Rightarrow> Inl (if xs = [] then NoUpstreamResponse else failReason (last xs), [])))"

definition outcome :: "dnsLib \<Rightarrow> nat \<Rightarrow> Msg \<Rightarrow> (nat \<Rightarrow> netWorld) \<Rightarrow> Upstream list \<Rightarrow> nat \<Rightarrow> qresult \<times> string" where
  "outcome lib cap r net ups i = (fst (Query lib cap (ups ! i) r (net i)), up_Name (ups ! i))"

text \<open>The loop state after some attempts that did not end the loop.\<close>

definition seqAfter :: "(qresult \<times> string) list \<Rightarrow> seqState \<Rightarrow> bool" where
  "seqAfter xs s \<longleftrightarrow> \<not> list_ex healthy xs \<and>
     ss_lastErr s = (if xs = [] then None else Some (failReason (last xs))) \<and>
     ss_lastFail s = (case List.find servfailed (rev xs) of None \<Rightarrow> None
        | Some x \<Rightarrow> (case fst x of Inr (Some m) \<Rightarrow> Some (m, snd x) | _ \<Rightarrow> None))"

lemma find_app: "List.find P (xs @ ys) = (case List.find P xs of None \<Rightarrow> List.find P ys | Some x \<Rightarrow> Some x)"
  by (induction xs) auto

lemma find_None_ex: "List.find P xs = None \<longleftrightarrow> \<not> list_ex P xs"
  by (induction xs) auto

lemma find_SomeP: "List.find P xs = Some x \<Longrightarrow> P x"
  by (induction xs) (auto split: if_splits)

lemma seqEnd_failover:
  assumes "seqAfter xs s" shows "seqEnd s = failover xs"
proof -
  have n: "List.find healthy xs = None" using assms by (simp add: seqAfter_def find_None_ex)
  show ?thesis
  proof (cases "List.find servfailed (rev xs)")
    case None
    then show ?thesis using assms n by (simp add: seqAfter_def seqEnd_def failover_def)
  next
    case (Some x)
    with find_SomeP[OF Some] show ?thesis using assms n
      by (auto simp: seqAfter_def seqEnd_def failover_def answerOf_def servfailed_def split: sum.splits option.splits)
  qed
qed

lemma failover_healthy:
  assumes "\<not> list_ex healthy xs" "healthy x" shows "failover (xs @ x # ys) = answerOf x"
  using assms by (simp add: failover_def find_app find_None_ex[THEN iffD2])

lemma seqAfter_snoc:
  assumes "seqAfter xs s" "\<not> healthy x"
  shows "seqAfter (xs @ [x]) (case fst x of
      Inr (Some m) \<Rightarrow> \<lparr>ss_lastErr = Some (AnsweredServfail (snd x)), ss_lastFail = Some (m, snd x)\<rparr>
    | Inr None \<Rightarrow> s\<lparr>ss_lastErr := Some (NoResponseFrom (snd x))\<rparr>
    | Inl e \<Rightarrow> s\<lparr>ss_lastErr := Some e\<rparr>)"
  using assms by (auto simp: seqAfter_def healthy_def servfailed_def failReason_def split: sum.splits option.splits)

lemma sequential_failover_from:
  assumes "distinct ixs" "seqAfter xs s" "\<forall>i \<in> set ixs. ups ! i = ups0 ! i" "\<forall>i \<in> set ixs. i < length ups"
  shows "fst (sequentialUpstreams lib cap r net late s ixs ups) =
    failover (xs @ map (outcome lib cap r net ups0) (takeWhile (\<lambda>i. \<not> late i) ixs))"
  using assms
proof (induction ixs arbitrary: xs s ups)
  case Nil
  then show ?case by (simp add: seqEnd_failover)
next
  case (Cons i ixs)
  show ?case
  proof (cases "late i")
    case True
    then show ?thesis using Cons.prems by (simp add: seqEnd_failover)
  next
    case False
    obtain res u' where q: "Query lib cap (ups ! i) r (net i) = (res, u')" by fastforce
    have x: "outcome lib cap r net ups0 i = (res, up_Name (ups ! i))" using q Cons.prems by (simp add: outcome_def)
    have keep: "\<forall>j \<in> set ixs. ups[i := u'] ! j = ups0 ! j" "\<forall>j \<in> set ixs. j < length (ups[i := u'])"
      using Cons.prems by (auto simp: nth_list_update)
    show ?thesis
    proof (cases "healthy (res, up_Name (ups ! i))")
      case True
      have "\<not> list_ex healthy xs" using Cons.prems by (simp add: seqAfter_def)
      from failover_healthy[OF this True] show ?thesis using False True q x
        by (auto simp: healthy_def answerOf_def split: sum.splits option.splits)
    next
      case H: False
      note step = Cons.IH[OF _ seqAfter_snoc[OF Cons.prems(2) H] keep]
      show ?thesis using step False H q x Cons.prems(1)
        by (auto simp: healthy_def Let_def split: sum.splits option.splits)
    qed
  qed
qed

lemma queryUpstreams_many:
  assumes "length ups \<noteq> 1"
  shows "queryUpstreams lib cap mode r now net late order ups =
    (let avail = filter (\<lambda>i. Available (ups ! i) now) [0..<length ups] in
     if avail = [] then (Inl (AllInCooldown, []), ups)
     else if mode = UpstreamModeSequential then sequentialUpstreams lib cap r net late \<lparr>ss_lastErr = None, ss_lastFail = None\<rparr> avail ups
     else raceUpstreams lib cap r net (order avail) ups)"
  using assms by (cases ups rule: remdups_adj.cases) (hypsubst, simp add: queryUpstreams_def del: upt_Suc)+

section \<open>Framing and pools\<close>

lemma takeConn_idle: "fst (takeConn now p) = Some c \<Longrightarrow> \<exists>at. (c, at) \<in> set p \<and> tsub now at \<le> poolMaxIdle"
  by (induction now p rule: takeConn.induct) (auto split: if_splits)

lemma takeConn_shorter: "length (snd (takeConn now p)) \<le> length p"
  by (induction now p rule: takeConn.induct) auto

section \<open>Properties\<close>

text \<open>C10: the circuit breaker, over any history of attempts on a new forwarder: the failure counter is the number of
  failures since the last success, cancelled attempts aside; the forwarder is tried exactly when there are fewer than
  three, or the cooldown of 20 seconds plus jitter after the latest of them is over.\<close>

theorem circuit_breaker:
  "let u = breakerRun (upstreamOf t addr host nm) as; fs = recentFailures as
   in up_fails u = int (length fs) \<and>
      (Available u now \<longleftrightarrow> length fs < 3 \<or> now \<ge> fst (snd (hd fs)) + circuitCooldown + snd (snd (hd fs)))"
proof -
  have "up_fails (upstreamOf t addr host nm) = 0" by (simp add: upstreamOf_def)
  note b = breakerRun_state[OF this, of as]
  show ?thesis
    using b by (cases "recentFailures as") (auto simp: Available_def circuitOpenFails_def Let_def)
qed

text \<open>C9: sequential mode implements failover over the forwarders whose circuit is not open, in list order, up to the
  query's deadline: the first answer that is not SERVFAIL, else the last SERVFAIL, else the last error.\<close>

theorem sequential_refines_failover:
  assumes "length ups \<noteq> 1"
  shows "fst (queryUpstreams lib cap UpstreamModeSequential r now net late order ups) =
    (let avail = filter (\<lambda>i. Available (ups ! i) now) [0..<length ups]
     in if avail = [] then Inl (AllInCooldown, [])
        else failover (map (outcome lib cap r net ups) (takeWhile (\<lambda>i. \<not> late i) avail)))"
proof -
  let ?av = "filter (\<lambda>i. Available (ups ! i) now) [0..<length ups]"
  have "seqAfter [] \<lparr>ss_lastErr = None, ss_lastFail = None\<rparr>" by (simp add: seqAfter_def)
  then have "fst (sequentialUpstreams lib cap r net late \<lparr>ss_lastErr = None, ss_lastFail = None\<rparr> ?av ups) =
      failover ([] @ map (outcome lib cap r net ups) (takeWhile (\<lambda>i. \<not> late i) ?av))"
    by (rule sequential_failover_from[rotated]) simp_all
  then show ?thesis unfolding queryUpstreams_many[OF assms] Let_def by simp
qed

definition quietExch :: exchNet where
  "quietExch = \<lparr>en_Warm = Inl Canceled, en_Dial = Inl Canceled, en_Fresh = Inl Canceled, en_t0 = 0, en_t1 = 0, en_t2 = 0, en_jitter1 = 0, en_jitter2 = 0\<rparr>"

definition recursiveNet :: "uerr + Msg option \<Rightarrow> netWorld" where
  "recursiveNet res = \<lparr>nw_udp = quietExch, nw_stream = quietExch, nw_http1 = Status 500, nw_http2 = Status 500,
     nw_quic = \<lparr>qn_alive = False, qn_Dial1 = Inl Canceled, qn_Dial2 = Inl Canceled, qn_io1 = \<lambda>_. Inl Canceled, qn_io2 = \<lambda>_. Inl Canceled, qn_now = 0, qn_jitter = 0\<rparr>,
     nw_recursive = res, nw_now = 0, nw_jitter = 0\<rparr>"

definition twoUpstreams :: "Upstream list" where
  "twoUpstreams = [upstreamOf Recursive [] [] ''a'', upstreamOf Recursive [] [] ''b'']"

definition servfailThenOk :: "nat \<Rightarrow> netWorld" where
  "servfailThenOk i = recursiveNet (Inr (Some (if i = 0 then emptyMsg\<lparr>m_Rcode := RcodeServerFailure\<rparr> else emptyMsg)))"

theorem sequential_refines_failover_witness:
  "fst (queryUpstreams simpleLib 8 UpstreamModeSequential emptyMsg 0 servfailThenOk (\<lambda>_. False) (\<lambda>x. x) twoUpstreams) = Inr (Some emptyMsg, ''b'')"
proof -
  have l: "length twoUpstreams \<noteq> 1" by (simp add: twoUpstreams_def)
  show ?thesis unfolding sequential_refines_failover[OF l] by code_simp
qed

text \<open>Race mode does not fail over: the first response to arrive wins even when it is SERVFAIL, while sequential mode
  on the same forwarders and the same network returns the healthy answer.\<close>

theorem race_servfail_wins:
  assumes "Available a now" "Available b now"
    and "fst (Query lib cap a r (net 0)) = Inr (Some bad)" "m_Rcode bad = RcodeServerFailure"
    and "fst (Query lib cap b r (net 1)) = Inr (Some good)" "m_Rcode good \<noteq> RcodeServerFailure"
  shows "fst (queryUpstreams lib cap UpstreamModeRace r now net (\<lambda>_. False) (\<lambda>ix. ix) [a, b]) = Inr (Some bad, up_Name a) \<and>
    fst (queryUpstreams lib cap UpstreamModeSequential r now net (\<lambda>_. False) (\<lambda>ix. ix) [a, b]) = Inr (Some good, up_Name b)"
proof -
  have l: "length [a, b] \<noteq> 1" by simp
  have av: "filter (\<lambda>i. Available ([a, b] ! i) now) [0..<length [a, b]] = [0, 1]" using assms(1,2) by (simp add: upt_rec)
  obtain ua ub where q: "Query lib cap a r (net 0) = (Inr (Some bad), ua)" "Query lib cap b r (net (Suc 0)) = (Inr (Some good), ub)"
    using assms(3,5) by (metis One_nat_def prod.collapse)
  show ?thesis unfolding queryUpstreams_many[OF l] av Let_def
    using q assms(4,6) by (simp add: UpstreamModeRace_def UpstreamModeSequential_def raceUpstreams_def)
qed

theorem race_servfail_wins_witness:
  "fst (queryUpstreams simpleLib 8 UpstreamModeRace emptyMsg 0 servfailThenOk (\<lambda>_. False) (\<lambda>ix. ix) twoUpstreams) =
     Inr (Some (emptyMsg\<lparr>m_Rcode := RcodeServerFailure\<rparr>), ''a'')"
proof -
  let ?a = "upstreamOf Recursive [] [] ''a''" and ?b = "upstreamOf Recursive [] [] ''b''"
  have "Available ?a 0" "Available ?b 0"
    "fst (Query simpleLib 8 ?a emptyMsg (servfailThenOk 0)) = Inr (Some (emptyMsg\<lparr>m_Rcode := RcodeServerFailure\<rparr>))"
    "fst (Query simpleLib 8 ?b emptyMsg (servfailThenOk 1)) = Inr (Some emptyMsg)"
    "m_Rcode (emptyMsg\<lparr>m_Rcode := RcodeServerFailure\<rparr>) = RcodeServerFailure" "m_Rcode emptyMsg \<noteq> RcodeServerFailure"
    by (simp_all add: Available_def upstreamOf_def circuitOpenFails_def Query_def servfailThenOk_def recursiveNet_def emptyMsg_def RcodeServerFailure_def)
  from race_servfail_wins[OF this(1,2,3,5,4,6)] show ?thesis by (simp add: twoUpstreams_def upstreamOf_def)
qed

text \<open>What a dead warm connection costs on a stream transport: when the fresh dial that follows succeeds the failure
  counter is 0 again, and when it fails too the one query is counted as two failures.\<close>

theorem warm_hiccup_accounting:
  assumes "fst (getConn u (en_t0 n)) = Some c" "en_Warm n = Inl e" "\<not> isCanceled e" "up_fails u = 0"
  shows "case en_Dial n of
      Inr c' \<Rightarrow> (case en_Fresh n of
                   Inr r \<Rightarrow> fst (pooledExchange cap u n) = Inr (Some r) \<and> up_fails (snd (pooledExchange cap u n)) = 0
                 | Inl e' \<Rightarrow> up_fails (snd (pooledExchange cap u n)) = (if isCanceled e' then 1 else 2))
    | Inl e' \<Rightarrow> up_fails (snd (pooledExchange cap u n)) = (if isCanceled e' then 1 else 2)"
proof -
  obtain u1 where g: "getConn u (en_t0 n) = (Some c, u1)" using assms(1) by (metis prod.collapse)
  have f: "up_fails u1 = 0" using g assms(4)
    by (auto simp: getConn_def countConn_def split: option.splits prod.splits)
  show ?thesis using g f assms(2,3)
    by (auto simp: pooledExchange_def freshExchange_def markResult_def putConn_def circuitOpenFails_def Let_def split: sum.splits)
qed

definition warmUpstream :: Upstream where
  "warmUpstream = (upstreamOf TLS ''a:853'' ''a'' ''tls://a'')\<lparr>up_connPool := Some [(7, 0)]\<rparr>"

theorem warm_hiccup_accounting_witness:
  "up_fails (snd (pooledExchange 8 warmUpstream (quietExch\<lparr>en_Warm := Inl (StaleConn ''EOF''), en_Dial := Inl (NetErr ''timeout'')\<rparr>))) = 2 \<and>
   \<not> Available (snd (pooledExchange 8
        ((snd (pooledExchange 8 warmUpstream (quietExch\<lparr>en_Warm := Inl (StaleConn ''EOF''), en_Dial := Inl (NetErr ''timeout'')\<rparr>)))\<lparr>up_connPool := Some [(8, 0)]\<rparr>)
        (quietExch\<lparr>en_Warm := Inl (StaleConn ''EOF''), en_Dial := Inl (NetErr ''timeout'')\<rparr>))) 1"
proof (rule conjI)
  let ?n = "quietExch\<lparr>en_Warm := Inl (StaleConn ''EOF''), en_Dial := Inl (NetErr ''timeout'')\<rparr>"
  have "fst (getConn warmUpstream (en_t0 ?n)) = Some 7" by code_simp
  from warm_hiccup_accounting[OF this, of "StaleConn ''EOF''" 8]
  show "up_fails (snd (pooledExchange 8 warmUpstream ?n)) = 2" by (simp add: warmUpstream_def upstreamOf_def)
qed code_simp

text \<open>DNS over QUIC framing: what a query writes, read back with anything after it, is the packed message, for every
  non-empty message a two-byte length can count.\<close>

theorem doq_frame_roundtrip:
  assumes "packed \<noteq> []" "length packed < 65536"
  shows "doqUnframe (doqFrame packed @ rest) = Inr packed"
proof -
  have "rd16 (doqFrame packed @ rest) 0 = length packed"
    using assms(2) rd16_put16[of "length packed" "[]" "packed @ rest"] by (simp add: doqFrame_def)
  moreover have "drop 2 (doqFrame packed @ rest) = packed @ rest" "2 \<le> length (doqFrame packed @ rest)"
    by (simp_all add: doqFrame_def put16_def)
  ultimately show ?thesis using assms(1) by (simp add: doqUnframe_def Let_def)
qed

theorem doq_frame_roundtrip_witness: "doqUnframe (doqFrame [1, 2, 3] @ [9]) = Inr [1, 2, 3]"
  by (rule doq_frame_roundtrip) simp_all

end
