(* ===== verification/Pipeline.thy ===== *)
theory Pipeline
  imports Policy RespCache Forwarding
begin

text \<open>
  The query pipeline: \<^verbatim>\<open>serve\<close>, \<^verbatim>\<open>finishResolve\<close> and \<^verbatim>\<open>resolveAndCache\<close> of \<^verbatim>\<open>internal/dnsserver/handler.go\<close>, with the VPN hooks of
  \<^verbatim>\<open>vpnhook.go\<close>. Every component the handler holds is a field of \<open>hstate\<close>; a query goes through the steps of \<^verbatim>\<open>serve\<close> in
  their order, each of which answers, crashes or passes on. What lies outside the process (the clock, the network, the
  VPN manager, the DHCP server, the DNSSEC validator, the goroutine schedule) is the record \<open>world\<close> of one query.
\<close>

section \<open>State\<close>

record HStats =
  st_Total :: int
  st_Blocked :: int
  st_Allowed :: int
  st_Cached :: int
  st_Errors :: int
  st_Honeypot :: int
  st_Flights :: int
  st_Merged :: int
  st_ByProtocol :: "(string, int) gomap"

definition newStats :: HStats where
  "newStats = \<lparr>st_Total = 0, st_Blocked = 0, st_Allowed = 0, st_Cached = 0, st_Errors = 0, st_Honeypot = 0, st_Flights = 0, st_Merged = 0,
     st_ByProtocol = map (\<lambda>p. (p, 0)) [''udp'', ''tcp'', ''dot'', ''doh'', ''doh3'', ''doq'']\<rparr>"

text \<open>The latency histogram: twelve buckets by bit length of the milliseconds.\<close>

record latencyHist =
  lh_buckets :: "int list"
  lh_total :: int

fun bits_Len :: "nat \<Rightarrow> nat" where
  "bits_Len n = (if n = 0 then 0 else Suc (bits_Len (n div 2)))"

definition latency_record :: "latencyHist \<Rightarrow> duration \<Rightarrow> latencyHist" where
  "latency_record h d =
     (let ms = d div 1000000; i = (if ms < 0 then 11 else min (bits_Len (nat ms)) 11)
      in \<lparr>lh_buckets = (lh_buckets h)[i := lh_buckets h ! i + 1], lh_total = lh_total h + 1\<rparr>)"

record Entry =
  le_Time :: gotime
  le_Client :: string
  le_Domain :: string
  le_Type :: "16 word"
  le_Action :: string
  le_Reason :: string
  le_Upstream :: string
  le_Rcode :: nat
  le_Answers :: nat
  le_ASN :: "32 word"

text \<open>Forwarders are shared objects: \<open>hs_Ups\<close> is the store of them, and settings, routes and groups hold references.
  \<open>hs_Log\<close> is what was handed to the query log, \<open>hs_L2\<close> what was handed to the writer of the second cache layer.\<close>

record 're hstate =
  hs_Stats :: HStats
  hs_latency :: latencyHist
  hs_Log :: "Entry list option"
  hs_asnCache :: "(string, 32 word) gomap"
  hs_asnCacheSize :: int
  hs_RateLimiter :: "RateLimiter option"
  hs_NXGuard :: "NXGuard option"
  hs_RepeatGuard :: "RepeatGuard option"
  hs_IPBanner :: "Banner option"
  hs_ClientRouter :: "'re ClientRouter option"
  hs_Cache :: "Cache option"
  hs_L2 :: "l2Write list"
  hs_Ups :: "string \<Rightarrow> Upstream"

record 're Settings =
  s_Engine :: "'re Engine"
  s_Upstreams :: "string list"
  s_UpstreamMode :: string
  s_UpstreamRoutes :: "UpstreamRoute list"
  s_BlockResponse :: string
  s_BlockTTL :: "32 word"
  s_Timeout :: duration
  s_FailureTTL :: duration
  s_Rewriter :: Rewriter
  s_Geo :: "Blocker option"
  s_ACL :: "IPNet list option"
  s_TrustUDP :: bool
  s_HoneypotUDPBlock :: duration
  s_RepeatQueryBlockFor :: duration
  s_RepeatQueryUDPBlockFor :: duration
  s_DNSSECEnabled :: bool
  s_DNSSECRequireAD :: bool
  s_DNSSECValidateLocally :: bool
  s_CNAMECloakingProtection :: bool
  s_write :: writeCfg
  s_maxASNCache :: int

record dhcpHosts =
  LookupHost :: "string \<Rightarrow> IP list option"
  LookupPTR :: "string \<Rightarrow> string option"

text \<open>The world of one query: its clock before and after the resolution, the remote address, the regular expressions, the
  VPN manager's answers, the DHCP hosts, the DNSSEC validator (\<^term>\<open>None\<close> when it could not complete, else secure and
  signed), the cache server's reply, how the in-flight pool and the network treat the resolution, whether the stale timer
  wins, whether a cache-write slot is free, the fresh message id, and the text of errors.\<close>

record 're world =
  w_now :: gotime
  w_later :: gotime
  w_remote :: string
  w_lib :: dnsLib
  w_hmac :: "string \<Rightarrow> string \<Rightarrow> string"
  w_env :: "'re filterEnv"
  w_hasVPN :: bool
  w_ProxyAnswer :: "string \<Rightarrow> IP option"
  w_dhcp :: "dhcpHosts option"
  w_validator :: "(Upstream \<Rightarrow> Msg \<Rightarrow> (bool \<times> bool) option) option"
  w_mget :: "byte list option list option"
  w_flight :: flight
  w_net :: "nat \<Rightarrow> netWorld"
  w_late :: "nat \<Rightarrow> bool"
  w_order :: "nat list \<Rightarrow> nat list"
  w_poolCap :: nat
  w_staleTimer :: bool
  w_slot :: bool
  w_Id :: "16 word"
  w_errText :: "uerr \<Rightarrow> string"

text \<open>One query: its message, first question, canonical name, client and transport.\<close>

record reqCtx =
  cx_r :: Msg
  cx_q :: Question
  cx_qname :: string
  cx_client :: string
  cx_proto :: string

datatype event = Wrote sent | Observed string "IP list" duration | Prefetch Question

datatype 're stepres = Stop "event list" "'re hstate" | Crash "'re hstate" | Next "'re hstate"

fun runSteps :: "('re hstate \<Rightarrow> 're stepres) list \<Rightarrow> 're hstate \<Rightarrow> 're stepres" where
  "runSteps [] st = Next st"
| "runSteps (s # ss) st = (case s st of Next st' \<Rightarrow> runSteps ss st' | Stop ev st' \<Rightarrow> Stop ev st' | Crash st' \<Rightarrow> Crash st')"

definition withStats :: "(HStats \<Rightarrow> HStats) \<Rightarrow> 're hstate \<Rightarrow> 're hstate" where
  "withStats f st = st\<lparr>hs_Stats := f (hs_Stats st)\<rparr>"

abbreviation addErrors :: "'re hstate \<Rightarrow> 're hstate" where
  "addErrors \<equiv> withStats (\<lambda>s. s\<lparr>st_Errors := st_Errors s + 1\<rparr>)"

abbreviation addBlocked :: "'re hstate \<Rightarrow> 're hstate" where
  "addBlocked \<equiv> withStats (\<lambda>s. s\<lparr>st_Blocked := st_Blocked s + 1\<rparr>)"

abbreviation addAllowed :: "'re hstate \<Rightarrow> 're hstate" where
  "addAllowed \<equiv> withStats (\<lambda>s. s\<lparr>st_Allowed := st_Allowed s + 1\<rparr>)"

abbreviation addCached :: "'re hstate \<Rightarrow> 're hstate" where
  "addCached \<equiv> withStats (\<lambda>s. s\<lparr>st_Cached := st_Cached s + 1\<rparr>)"

abbreviation addHoneypot :: "'re hstate \<Rightarrow> 're hstate" where
  "addHoneypot \<equiv> withStats (\<lambda>s. s\<lparr>st_Honeypot := st_Honeypot s + 1\<rparr>)"

declare bits_Len.simps [simp del]

section \<open>Logging\<close>

text \<open>The network the installed tables give a client, and its memo.\<close>

definition lookupASN :: "'re Settings \<Rightarrow> 're ClientRouter option \<Rightarrow> string \<Rightarrow> 32 word option" where
  "lookupASN cfg router clientIP =
     (let ip = ParseIP clientIP in
      if ip = [] then None
      else case (case router of None \<Rightarrow> None | Some cr \<Rightarrow> ASNOfIP cr ip) of
        Some a \<Rightarrow> Some a
      | None \<Rightarrow> (case s_Geo cfg of None \<Rightarrow> None | Some g \<Rightarrow> Blocker_ASNOf g ip))"

definition storeASN :: "int \<Rightarrow> 're hstate \<Rightarrow> string \<Rightarrow> 32 word \<Rightarrow> 're hstate" where
  "storeASN cap st clientIP asn =
     (let st1 = (if hs_asnCacheSize st + 1 > cap then st\<lparr>hs_asnCache := [], hs_asnCacheSize := 0\<rparr>
                 else st\<lparr>hs_asnCacheSize := hs_asnCacheSize st + 1\<rparr>)
      in st1\<lparr>hs_asnCache := gm_put clientIP asn (hs_asnCache st1)\<rparr>)"

definition ClientASN :: "'re Settings \<Rightarrow> 're hstate \<Rightarrow> string \<Rightarrow> (32 word \<times> bool) \<times> 're hstate" where
  "ClientASN cfg st clientIP =
     (if clientIP = [] then ((0, False), st)
      else case map_of (hs_asnCache st) clientIP of
        Some a \<Rightarrow> ((a, a \<noteq> 0), st)
      | None \<Rightarrow>
          let hit = lookupASN cfg (hs_ClientRouter st) clientIP; asn = (case hit of None \<Rightarrow> 0 | Some a \<Rightarrow> a)
          in ((asn, hit \<noteq> None), storeASN (s_maxASNCache cfg) st clientIP asn))"

definition recordEntry :: "'re world \<Rightarrow> 're Settings \<Rightarrow> reqCtx \<Rightarrow> string \<Rightarrow> string \<Rightarrow> string \<Rightarrow> nat \<Rightarrow> nat \<Rightarrow> 're hstate \<Rightarrow> 're hstate" where
  "recordEntry wd cfg cx action reason up rcode answers st =
     (let st1 = st\<lparr>hs_latency := latency_record (hs_latency st) (w_later wd - w_now wd)\<rparr>
      in case hs_Log st1 of
           None \<Rightarrow> st1
         | Some entries \<Rightarrow>
             (case ClientASN cfg st1 (cx_client cx) of
                ((asn, _), st2) \<Rightarrow>
                  st2\<lparr>hs_Log := Some (entries @ [\<lparr>le_Time = w_now wd, le_Client = cx_client cx, le_Domain = cx_qname cx, le_Type = q_Qtype (cx_q cx),
                     le_Action = action, le_Reason = reason, le_Upstream = up, le_Rcode = rcode, le_Answers = answers, le_ASN = asn\<rparr>])\<rparr>))"

definition recordMsg :: "'re world \<Rightarrow> 're Settings \<Rightarrow> reqCtx \<Rightarrow> string \<Rightarrow> string \<Rightarrow> string \<Rightarrow> Msg \<Rightarrow> 're hstate \<Rightarrow> 're hstate" where
  "recordMsg wd cfg cx action reason up m st = recordEntry wd cfg cx action reason up (m_Rcode m) (length (m_Answer m)) st"

definition recordRaw :: "'re world \<Rightarrow> 're Settings \<Rightarrow> reqCtx \<Rightarrow> string \<Rightarrow> string \<Rightarrow> string \<Rightarrow> byte list \<Rightarrow> 're hstate \<Rightarrow> 're hstate" where
  "recordRaw wd cfg cx action reason up raw st = recordEntry wd cfg cx action reason up (packedRcode raw) (packedAnCount raw) st"

section \<open>Writing\<close>

definition vpnName :: "string \<Rightarrow> string" where
  "vpnName nm = ToLower (TrimSuffix nm ''.'')"

text \<open>The smallest TTL as \<^verbatim>\<open>observeVPN\<close> computes it: a zero is taken for a value not cfg yet.\<close>

definition observedTTL :: "RR list \<Rightarrow> 32 word" where
  "observedTTL rrs = foldl (\<lambda>mn rr. if mn = 0 \<or> h_Ttl (rr_Hdr rr) < mn then h_Ttl (rr_Hdr rr) else mn) 0
     (filter (\<lambda>rr. case rr_Data rr of A _ \<Rightarrow> True | AAAA _ \<Rightarrow> True | _ \<Rightarrow> False) rrs)"

definition observeVPN :: "'re world \<Rightarrow> Msg \<Rightarrow> Msg \<Rightarrow> event list" where
  "observeVPN wd r m =
     (case m_Question r of
        [] \<Rightarrow> []
      | q # _ \<Rightarrow>
          if \<not> w_hasVPN wd \<or> answerIPs m = [] then []
          else [Observed (vpnName (q_Name q)) (answerIPs m) (uint (observedTTL (m_Answer m)) * Second)])"

definition writeMsg :: "'re world \<Rightarrow> 're Settings \<Rightarrow> reqCtx \<Rightarrow> Msg \<Rightarrow> event list" where
  "writeMsg wd cfg cx m =
     observeVPN wd (cx_r cx) m @ [Wrote (writeReply (w_lib wd) (w_hmac wd) (s_write cfg) m (Some (cx_r cx)) (cx_proto cx) (w_remote wd))]"

text \<open>A cache hit: the stored bytes with id and TTLs patched, or the decoded message where it must be changed further.\<close>

definition writeRaw :: "'re world \<Rightarrow> 're Settings \<Rightarrow> reqCtx \<Rightarrow> LookupResult \<Rightarrow> event list" where
  "writeRaw wd cfg cx res =
     (let raw = lr_Raw res; r = cx_r cx; rebaseOK = (lr_Negative res \<or> lr_TTLOffsets res \<noteq> []) in
      if \<not> rebaseOK \<or> needsPad (s_write cfg) (cx_proto cx) \<or> needsCookie (w_lib wd) (s_write cfg) (Some r) \<or>
         (cx_proto cx = ''udp'' \<and> length raw > clientUDPSize (w_lib wd) (Some r))
      then (case resultMsg (w_lib wd) res (w_now wd) of
              None \<Rightarrow> []
            | Some m \<Rightarrow> writeMsg wd cfg cx (m\<lparr>m_Id := m_Id r\<rparr>))
      else [Wrote (SentBytes (patchRaw (m_Id r) (lr_Negative res) (unixOf (w_now wd) - lr_StoredAt res) (lr_TTLOffsets res) raw))])"

section \<open>Admission\<close>

definition refuse :: "'re world \<Rightarrow> 're Settings \<Rightarrow> reqCtx \<Rightarrow> 're hstate \<Rightarrow> 're stepres" where
  "refuse wd cfg cx st =
     Stop (if cx_proto cx = ''udp'' then [] else writeMsg wd cfg cx (refusedReply (w_lib wd) (cx_r cx))) (addErrors st)"

definition aclStep :: "'re world \<Rightarrow> 're Settings \<Rightarrow> reqCtx \<Rightarrow> 're hstate \<Rightarrow> 're stepres" where
  "aclStep wd cfg cx st =
     (if s_ACL cfg \<noteq> None \<and> cx_client cx \<noteq> [] \<and> \<not> ACL_Allowed (s_ACL cfg) (cx_client cx) then refuse wd cfg cx st else Next st)"

definition ednsUDPSize :: "16 word" where "ednsUDPSize = 1232"

definition versionStep :: "'re world \<Rightarrow> 're Settings \<Rightarrow> reqCtx \<Rightarrow> 're hstate \<Rightarrow> 're stepres" where
  "versionStep wd cfg cx st =
     (let lib = w_lib wd; r = cx_r cx in
      case IsEdns0 lib r of
        None \<Rightarrow> Next st
      | Some i \<Rightarrow>
          if OPT_Version lib (m_Extra r ! i) \<noteq> 0
          then Stop (writeMsg wd cfg cx (SetEdns0 lib ((newReply lib r)\<lparr>m_Rcode := RcodeBadVers\<rparr>) ednsUDPSize False)) st
          else Next st)"

text \<open>The slice \<^verbatim>\<open>reqCookie[:2*clientCookieHexLen]\<close> is out of range for a cookie longer than 16 and shorter than 32 characters.\<close>

definition cookieStep :: "'re world \<Rightarrow> 're Settings \<Rightarrow> reqCtx \<Rightarrow> 're hstate \<Rightarrow> 're stepres" where
  "cookieStep wd cfg cx st =
     (let lib = w_lib wd; r = cx_r cx; c = requestCookieValue lib r;
          cc = take clientCookieHexLen c;
          expected = cc @ serverCookie (w_hmac wd) (wc_secret (s_write cfg)) (cx_client cx) cc in
      if wc_Cookies (s_write cfg) \<and> cx_client cx \<noteq> [] \<and> length c > clientCookieHexLen then
        if length c < 2 * clientCookieHexLen then Crash st
        else if \<not> EqualFold (take (2 * clientCookieHexLen) c) expected
          then Stop (writeMsg wd cfg cx (attachCookie lib ((newReply lib r)\<lparr>m_Rcode := RcodeBadCookie\<rparr>) expected)) st
        else Next st
      else Next st)"

definition rateStep :: "'re world \<Rightarrow> 're Settings \<Rightarrow> reqCtx \<Rightarrow> 're hstate \<Rightarrow> 're stepres" where
  "rateStep wd cfg cx st =
     (case hs_RateLimiter st of
        None \<Rightarrow> Next st
      | Some rl \<Rightarrow>
          (case RateLimiter_Allow rl (cx_client cx) (w_now wd) of
             (ok, rl') \<Rightarrow> (if ok then Next (st\<lparr>hs_RateLimiter := Some rl'\<rparr>) else refuse wd cfg cx (st\<lparr>hs_RateLimiter := Some rl'\<rparr>))))"

definition nxStep :: "'re world \<Rightarrow> 're Settings \<Rightarrow> reqCtx \<Rightarrow> 're hstate \<Rightarrow> 're stepres" where
  "nxStep wd cfg cx st =
     (case hs_NXGuard st of
        None \<Rightarrow> Next st
      | Some g \<Rightarrow> if NXGuard_Allow g (clientPrefix (cx_client cx)) (w_now wd) then Next st else refuse wd cfg cx st)"

definition repeatStep :: "'re world \<Rightarrow> 're Settings \<Rightarrow> reqCtx \<Rightarrow> 're hstate \<Rightarrow> 're stepres" where
  "repeatStep wd cfg cx st =
     (case hs_RepeatGuard st of
        None \<Rightarrow> Next st
      | Some g \<Rightarrow> if RepeatGuard_Allow g (cx_client cx) (w_now wd) then Next st else refuse wd cfg cx st)"

text \<open>Transports whose handshake proves the source address.\<close>

definition trusted :: "string \<Rightarrow> bool" where
  "trusted proto \<longleftrightarrow> proto \<in> {''tcp'', ''dot'', ''doh'', ''doq''}"

definition repeatBlockDur :: "'re Settings \<Rightarrow> string \<Rightarrow> duration" where
  "repeatBlockDur cfg proto =
     (if trusted proto \<or> s_TrustUDP cfg then s_RepeatQueryBlockFor cfg
      else if s_RepeatQueryUDPBlockFor cfg > 0 then s_RepeatQueryUDPBlockFor cfg else 0)"

definition noteStep :: "'re world \<Rightarrow> 're Settings \<Rightarrow> reqCtx \<Rightarrow> 're hstate \<Rightarrow> 're stepres" where
  "noteStep wd cfg cx st =
     (case hs_RepeatGuard st of
        None \<Rightarrow> Next st
      | Some g \<Rightarrow>
          if cx_client cx = [] then Next st
          else case NoteQuery g (cx_client cx) (cx_qname cx) (w_now wd) of
            (tripped, g') \<Rightarrow>
              let d = repeatBlockDur cfg (cx_proto cx); st1 = st\<lparr>hs_RepeatGuard := Some g'\<rparr>
              in if tripped \<and> d > 0 then
                   Next (st1\<lparr>hs_RepeatGuard := Some (RepeatGuard_ForceBlock g' (cx_client cx) d (w_now wd)),
                     hs_RateLimiter := map_option (\<lambda>rl. RateLimiter_ForceBlock rl (cx_client cx) d (w_now wd)) (hs_RateLimiter st1)\<rparr>)
                 else Next st1)"

definition clientBlockStep :: "'re world \<Rightarrow> 're Settings \<Rightarrow> reqCtx \<Rightarrow> 're hstate \<Rightarrow> 're stepres" where
  "clientBlockStep wd cfg cx st =
     (let lib = w_lib wd;
          geo = (case s_Geo cfg of None \<Rightarrow> None | Some g \<Rightarrow> Blocker_BlockedAs g (cx_client cx));
          ban = (case hs_IPBanner st of None \<Rightarrow> None | Some b \<Rightarrow> BlockedAs b (cx_client cx)) in
      if cx_client cx \<noteq> [] \<and> (geo \<noteq> None \<or> ban \<noteq> None) then
        let action = (if ban \<noteq> None then ''ip-blocked'' else ''geo-blocked'');
            src = (if ban \<noteq> None then ban else geo);
            reason = (if src = Some ''asn'' then ''asn-blocked'' else if ban \<noteq> None then ''blocked-client'' else ''country-blocked'');
            refused = refusedReply lib (cx_r cx);
            out = (if IsEdns0 lib (cx_r cx) \<noteq> None then attachEDE lib refused 18 reason else refused)
        in Stop (writeMsg wd cfg cx out) (recordMsg wd cfg cx action reason [] refused (addBlocked st))
      else Next st)"

section \<open>Honeypots, ANY and local answers\<close>

text \<open>What a honeypot hit does to its client.\<close>

definition trapClient :: "'re world \<Rightarrow> 're Settings \<Rightarrow> reqCtx \<Rightarrow> Banner \<Rightarrow> 're hstate \<Rightarrow> 're hstate" where
  "trapClient wd cfg cx b st =
     (if cx_client cx = [] then st
      else if trusted (cx_proto cx) \<or> s_TrustUDP cfg then st\<lparr>hs_IPBanner := Some (snd (Banner_Block b (cx_client cx)))\<rparr>
      else if s_HoneypotUDPBlock cfg > 0 then
        st\<lparr>hs_RateLimiter := map_option (\<lambda>rl. RateLimiter_ForceBlock rl (cx_client cx) (s_HoneypotUDPBlock cfg) (w_now wd)) (hs_RateLimiter st)\<rparr>
      else st)"

definition honeypotStep :: "'re world \<Rightarrow> 're Settings \<Rightarrow> reqCtx \<Rightarrow> 're hstate \<Rightarrow> 're stepres" where
  "honeypotStep wd cfg cx st =
     (case hs_IPBanner st of
        None \<Rightarrow> Next st
      | Some b \<Rightarrow>
          if LookupHoneypot b (cx_qname cx) then
            Stop (if cx_proto cx = ''udp'' then [] else writeMsg wd cfg cx (refusedReply (w_lib wd) (cx_r cx)))
              (addHoneypot (addBlocked (trapClient wd cfg cx b st)))
          else Next st)"

definition anyMinimalTTL :: "32 word" where "anyMinimalTTL = 60"

definition inetRR :: "string \<Rightarrow> 16 word \<Rightarrow> 32 word \<Rightarrow> RData \<Rightarrow> RR" where
  "inetRR nm t ttl d = \<lparr>rr_Hdr = \<lparr>h_Name = nm, h_Rrtype = t, h_Class = ClassINET, h_Ttl = ttl\<rparr>, rr_Data = d\<rparr>"

text \<open>An answer that is counted as allowed, logged and written.\<close>

definition answerLocal :: "'re world \<Rightarrow> 're Settings \<Rightarrow> reqCtx \<Rightarrow> string \<Rightarrow> string \<Rightarrow> Msg \<Rightarrow> 're hstate \<Rightarrow> 're stepres" where
  "answerLocal wd cfg cx action reason m st = Stop (writeMsg wd cfg cx m) (recordMsg wd cfg cx action reason [] m (addAllowed st))"

definition anyStep :: "'re world \<Rightarrow> 're Settings \<Rightarrow> reqCtx \<Rightarrow> 're hstate \<Rightarrow> 're stepres" where
  "anyStep wd cfg cx st =
     (if q_Qtype (cx_q cx) = TypeANY then
        let m = newReply (w_lib wd) (cx_r cx)
        in answerLocal wd cfg cx ''minimal'' ''rfc8482-any'' (m\<lparr>m_Answer := m_Answer m @ [inetRR (q_Name (cx_q cx)) TypeHINFO anyMinimalTTL (HINFO ''RFC8482'' [])]\<rparr>) st
      else Next st)"

definition rewriteStep :: "'re world \<Rightarrow> 're Settings \<Rightarrow> reqCtx \<Rightarrow> 're hstate \<Rightarrow> 're stepres" where
  "rewriteStep wd cfg cx st =
     (case Rewriter_Lookup (w_env wd) (s_Rewriter cfg) (q_Name (cx_q cx)) of
        None \<Rightarrow> Next st
      | Some rules \<Rightarrow>
          (case BuildAnswer (w_lib wd) (cx_r cx) rules (q_Name (cx_q cx)) (q_Qtype (cx_q cx)) of
             Some ans \<Rightarrow> answerLocal wd cfg cx ''rewrite'' ''local-dns'' ans st
           | None \<Rightarrow> answerLocal wd cfg cx ''rewrite'' ''local-dns-nodata'' (newReply (w_lib wd) (cx_r cx)) st))"

definition proxyAnswerTTL :: "32 word" where "proxyAnswerTTL = 30"

definition tryProxyAnswer :: "'re world \<Rightarrow> Msg \<Rightarrow> Question \<Rightarrow> Msg option" where
  "tryProxyAnswer wd r q =
     (if \<not> w_hasVPN wd \<or> (q_Qtype q \<noteq> TypeA \<and> q_Qtype q \<noteq> TypeAAAA) then None
      else case w_ProxyAnswer wd (vpnName (q_Name q)) of
        None \<Rightarrow> None
      | Some ip \<Rightarrow>
          let m = (newReply (w_lib wd) r)\<lparr>m_Authoritative := True\<rparr>; is4 = (To4 ip \<noteq> [])
          in Some (if q_Qtype q = TypeA \<and> is4 then m\<lparr>m_Answer := m_Answer m @ [inetRR (q_Name q) TypeA proxyAnswerTTL (A (To4 ip))]\<rparr>
                   else if q_Qtype q = TypeAAAA \<and> \<not> is4 then m\<lparr>m_Answer := m_Answer m @ [inetRR (q_Name q) TypeAAAA proxyAnswerTTL (AAAA ip)]\<rparr>
                   else m))"

definition proxyStep :: "'re world \<Rightarrow> 're Settings \<Rightarrow> reqCtx \<Rightarrow> 're hstate \<Rightarrow> 're stepres" where
  "proxyStep wd cfg cx st =
     (case tryProxyAnswer wd (cx_r cx) (cx_q cx) of
        None \<Rightarrow> Next st
      | Some ans \<Rightarrow> answerLocal wd cfg cx ''rewrite'' ''vpn-proxy'' ans st)"

definition dhcpHostTTL :: "32 word" where "dhcpHostTTL = 120"

definition hostRR :: "Question \<Rightarrow> IP \<Rightarrow> RR option" where
  "hostRR q ip =
     (if q_Qtype q = TypeA \<and> To4 ip \<noteq> [] then Some (inetRR (q_Name q) TypeA dhcpHostTTL (A (To4 ip)))
      else if q_Qtype q = TypeAAAA \<and> To4 ip = [] \<and> length ip = 16 then Some (inetRR (q_Name q) TypeAAAA dhcpHostTTL (AAAA ip))
      else None)"

definition dhcpHostStep :: "'re world \<Rightarrow> 're Settings \<Rightarrow> reqCtx \<Rightarrow> 're hstate \<Rightarrow> 're stepres" where
  "dhcpHostStep wd cfg cx st =
     (case w_dhcp wd of
        None \<Rightarrow> Next st
      | Some d \<Rightarrow>
          (case LookupHost d (q_Name (cx_q cx)) of
             Some (ip # ips) \<Rightarrow>
               let m = (SetReply (w_lib wd) (cx_r cx))\<lparr>m_Authoritative := True\<rparr>;
                   rrs = List.map_filter (hostRR (cx_q cx)) (ip # ips)
               in answerLocal wd cfg cx ''rewrite'' (if rrs \<noteq> [] then ''dhcp-host'' else ''dhcp-host-nodata'') (m\<lparr>m_Answer := m_Answer m @ rrs\<rparr>) st
           | _ \<Rightarrow> Next st))"

definition dhcpPtrStep :: "'re world \<Rightarrow> 're Settings \<Rightarrow> reqCtx \<Rightarrow> 're hstate \<Rightarrow> 're stepres" where
  "dhcpPtrStep wd cfg cx st =
     (case w_dhcp wd of
        None \<Rightarrow> Next st
      | Some d \<Rightarrow>
          let ip = reverseNameIP (q_Name (cx_q cx)) in
          if q_Qtype (cx_q cx) = TypePTR \<and> ip \<noteq> [] then
            (case LookupPTR d (IP_String ip) of
               None \<Rightarrow> Next st
             | Some host \<Rightarrow>
                 let m = (SetReply (w_lib wd) (cx_r cx))\<lparr>m_Authoritative := True\<rparr>
                 in answerLocal wd cfg cx ''rewrite'' ''dhcp-host-ptr''
                      (m\<lparr>m_Answer := m_Answer m @ [inetRR (q_Name (cx_q cx)) TypePTR dhcpHostTTL (PTR (host @ ''.''))]\<rparr>) st)
          else Next st)"

text \<open>The steps before filtering, in the order of \<^verbatim>\<open>serve\<close>.\<close>

definition frontSteps :: "'re world \<Rightarrow> 're Settings \<Rightarrow> reqCtx \<Rightarrow> ('re hstate \<Rightarrow> 're stepres) list" where
  "frontSteps wd cfg cx = map (\<lambda>s. s wd cfg cx)
     [aclStep, versionStep, cookieStep, rateStep, nxStep, repeatStep, noteStep, clientBlockStep, honeypotStep, anyStep,
      rewriteStep, proxyStep, dhcpHostStep, dhcpPtrStep]"

section \<open>Policy, filtering and the cache\<close>

definition choosePolicy :: "'re Settings \<Rightarrow> string \<Rightarrow> 're hstate \<Rightarrow> ('re Engine \<times> string list) \<times> 're hstate" where
  "choosePolicy cfg client st =
     (case hs_ClientRouter st of
        None \<Rightarrow> ((s_Engine cfg, s_Upstreams cfg), st)
      | Some cr \<Rightarrow>
          (case Resolve cr client of
             (p, cr') \<Rightarrow>
               ((case p of
                   None \<Rightarrow> (s_Engine cfg, s_Upstreams cfg)
                 | Some pol \<Rightarrow> (cp_Engine pol, if cp_Upstreams pol \<noteq> [] then cp_Upstreams pol else s_Upstreams cfg)),
                st\<lparr>hs_ClientRouter := Some cr'\<rparr>)))"

definition routeUpstreams :: "'re Settings \<Rightarrow> string \<Rightarrow> string list \<Rightarrow> string list" where
  "routeUpstreams cfg qname ups =
     (case routeMatch (s_UpstreamRoutes cfg) qname of
        None \<Rightarrow> ups
      | Some rt \<Rightarrow> if ur_Upstreams rt \<noteq> [] then ur_Upstreams rt else ups)"

definition edeIfEdns :: "'re world \<Rightarrow> reqCtx \<Rightarrow> 16 word \<Rightarrow> string \<Rightarrow> Msg \<Rightarrow> Msg" where
  "edeIfEdns wd cx code extra m = (if IsEdns0 (w_lib wd) (cx_r cx) \<noteq> None then attachEDE (w_lib wd) m code extra else m)"

definition writeUnless :: "bool \<Rightarrow> 're world \<Rightarrow> 're Settings \<Rightarrow> reqCtx \<Rightarrow> Msg \<Rightarrow> event list" where
  "writeUnless skipWrite wd cfg cx m = (if skipWrite then [] else writeMsg wd cfg cx m)"

text \<open>A blocked answer: by the name (\<^verbatim>\<open>serve\<close>), by an address or by a CNAME target (\<^verbatim>\<open>finishResolve\<close>).\<close>

definition blockQuery :: "'re world \<Rightarrow> 're Settings \<Rightarrow> reqCtx \<Rightarrow> bool \<Rightarrow> string \<Rightarrow> string \<Rightarrow> 're hstate \<Rightarrow> 're stepres" where
  "blockQuery wd cfg cx skipWrite reason up st =
     (case BuildBlockResponse (w_lib wd) (cx_r cx) (s_BlockResponse cfg) (s_BlockTTL cfg) of
        None \<Rightarrow> Crash st
      | Some m \<Rightarrow> Stop (writeUnless skipWrite wd cfg cx (edeIfEdns wd cx 15 reason m)) (recordMsg wd cfg cx ''blocked'' reason up m (addBlocked st)))"

definition noteNX :: "string \<Rightarrow> gotime \<Rightarrow> 're hstate \<Rightarrow> 're hstate" where
  "noteNX client now st = st\<lparr>hs_NXGuard := map_option (\<lambda>g. NoteNX g (clientPrefix client) now) (hs_NXGuard st)\<rparr>"

text \<open>The cache lookup: a fresh hit is the answer; a stale one is kept for later.\<close>

definition cacheStage :: "'re world \<Rightarrow> 're Settings \<Rightarrow> reqCtx \<Rightarrow> 're hstate \<Rightarrow> 're stepres \<times> LookupResult" where
  "cacheStage wd cfg cx st =
     (case hs_Cache st of
        None \<Rightarrow> (Next st, missResult)
      | Some c \<Rightarrow>
          if isMetaQuery (cx_q cx) then (Next st, missResult)
          else case Lookup c (cx_q cx) (w_now wd) (w_mget wd) of
            (hit, started, c') \<Rightarrow>
              let st1 = st\<lparr>hs_Cache := Some c'\<rparr> in
              if lr_Raw hit \<noteq> [] \<and> \<not> lr_Stale hit then
                let st2 = addCached st1;
                    st3 = (if lr_Negative hit \<and> packedRcode (lr_Raw hit) = RcodeNameError then noteNX (cx_client cx) (w_now wd) st2 else st2)
                in (Stop ((if started then [Prefetch (cx_q cx)] else []) @ writeRaw wd cfg cx hit)
                      (recordRaw wd cfg cx ''cached'' (if lr_Negative hit then ''cache-negative'' else ''cache'') [] (lr_Raw hit) st3), missResult)
              else (Next st1, if lr_Raw hit \<noteq> [] then hit else missResult))"

section \<open>Resolution\<close>

text \<open>The query sent upstream: the client's OPT records replaced by the server's own, and a fresh id.\<close>

definition upstreamQuery :: "'re world \<Rightarrow> 're Settings \<Rightarrow> Msg \<Rightarrow> Msg" where
  "upstreamQuery wd cfg r =
     (SetEdns0 (w_lib wd) (r\<lparr>m_Extra := filter (\<lambda>rr. h_Rrtype (rr_Hdr rr) \<noteq> TypeOPT) (m_Extra r)\<rparr>) ednsUDPSize (s_DNSSECEnabled cfg))\<lparr>m_Id := w_Id wd\<rparr>"

definition storeUps :: "string list \<Rightarrow> Upstream list \<Rightarrow> 're hstate \<Rightarrow> 're hstate" where
  "storeUps ptrs us st = st\<lparr>hs_Ups := fold (\<lambda>(x, u) f. f(x := u)) (zip ptrs us) (hs_Ups st)\<rparr>"

definition resolveRefs :: "'re world \<Rightarrow> 're Settings \<Rightarrow> Msg \<Rightarrow> Msg \<Rightarrow> string list \<Rightarrow> 're hstate \<Rightarrow> upstream_result \<times> 're hstate" where
  "resolveRefs wd cfg r query ptrs st =
     (case resolveUpstreams (w_flight wd) r (map (hs_Ups st) ptrs)
             (queryUpstreams (w_lib wd) (w_poolCap wd) (s_UpstreamMode cfg) query (w_now wd) (w_net wd) (w_late wd) (w_order wd)) of
        (res, us, flights, merged) \<Rightarrow>
          (res, withStats (\<lambda>s. s\<lparr>st_Flights := st_Flights s + flights, st_Merged := st_Merged s + merged\<rparr>) (storeUps ptrs us st)))"

definition upstreamByName :: "(string \<Rightarrow> Upstream) \<Rightarrow> string list \<Rightarrow> string \<Rightarrow> Upstream option" where
  "upstreamByName store ptrs nm = List.find (\<lambda>u. up_Name u = nm) (map store ptrs)"

definition staleServeTTL :: "32 word" where "staleServeTTL = 30"

text \<open>An answer from the stale entry, if it can be decoded.\<close>

definition serveStale :: "'re world \<Rightarrow> 're Settings \<Rightarrow> reqCtx \<Rightarrow> bool \<Rightarrow> string \<Rightarrow> LookupResult \<Rightarrow> 're hstate \<Rightarrow> (event list \<times> 're hstate) option" where
  "serveStale wd cfg cx skipWrite up stale st =
     (case resultMsg (w_lib wd) stale (w_later wd) of
        None \<Rightarrow> None
      | Some m0 \<Rightarrow>
          let m = capTTL (m0\<lparr>m_Id := m_Id (cx_r cx)\<rparr>) staleServeTTL
          in Some (writeUnless skipWrite wd cfg cx (edeIfEdns wd cx 3 [] m), recordMsg wd cfg cx ''cached'' ''stale'' up m (addCached st)))"

definition storeCache :: "(Cache \<Rightarrow> Cache \<times> l2Write option) \<Rightarrow> 're hstate \<Rightarrow> 're hstate" where
  "storeCache f st =
     (case hs_Cache st of
        None \<Rightarrow> st
      | Some c \<Rightarrow> (case f c of (c', w) \<Rightarrow> st\<lparr>hs_Cache := Some c', hs_L2 := hs_L2 st @ (case w of None \<Rightarrow> [] | Some x \<Rightarrow> [x])\<rparr>))"

text \<open>The failure path: SERVFAIL to the client, remembered for the failure TTL unless a stale entry exists. The message
  given to the cache is the one written, except when a copy with an extended error was written instead.\<close>

definition failResolve :: "'re world \<Rightarrow> 're Settings \<Rightarrow> reqCtx \<Rightarrow> bool \<Rightarrow> LookupResult \<Rightarrow> uerr option \<Rightarrow> string \<Rightarrow> 're hstate \<Rightarrow> 're stepres" where
  "failResolve wd cfg cx skipWrite stale err up st =
     (let lib = w_lib wd;
          m = (newReply lib (cx_r cx))\<lparr>m_Rcode := RcodeServerFailure\<rparr>;
          errStr = (case err of None \<Rightarrow> ''no upstream available'' | Some e \<Rightarrow> w_errText wd e);
          st1 = recordMsg wd cfg cx ''error'' errStr up m (addErrors st);
          sent = (if skipWrite \<or> IsEdns0 lib (cx_r cx) \<noteq> None then m else m\<lparr>m_Compress := True\<rparr>);
          st2 = (if lr_Raw stale = [] \<and> \<not> isMetaQuery (cx_q cx) \<and> w_slot wd
                 then storeCache (\<lambda>c. SetNegative lib c (cx_q cx) sent (s_FailureTTL cfg) (w_later wd)) st1 else st1)
      in Stop (writeUnless skipWrite wd cfg cx (edeIfEdns wd cx 23 errStr m)) st2)"

text \<open>DNSSEC enforcement: the reason of the refusal, or the answer, marked authenticated when it was verified here.\<close>

definition dnssecCheck :: "'re world \<Rightarrow> 're Settings \<Rightarrow> (string \<Rightarrow> Upstream) \<Rightarrow> string \<Rightarrow> Msg \<Rightarrow> string + Msg" where
  "dnssecCheck wd cfg store usedUp resp =
     (if \<not> s_DNSSECEnabled cfg then Inr resp
      else
        let adTrust = (\<lambda>m. if s_DNSSECRequireAD cfg \<and> \<not> m_AuthenticatedData m then Inl ''dnssec: upstream did not authenticate the answer'' else Inr m)
        in case (if s_DNSSECValidateLocally cfg then w_validator wd else None) of
             None \<Rightarrow> adTrust resp
           | Some validate \<Rightarrow>
               (case upstreamByName store (s_Upstreams cfg) usedUp of
                  None \<Rightarrow> adTrust resp
                | Some u \<Rightarrow>
                    (case validate u resp of
                       None \<Rightarrow> adTrust resp
                     | Some (secure, isSigned) \<Rightarrow>
                         if isSigned \<and> \<not> secure then Inl ''dnssec: local chain-of-trust validation failed''
                         else if isSigned \<and> secure then adTrust (resp\<lparr>m_AuthenticatedData := True\<rparr>)
                         else adTrust resp)))"

definition rejectDNSSEC :: "'re world \<Rightarrow> 're Settings \<Rightarrow> reqCtx \<Rightarrow> bool \<Rightarrow> string \<Rightarrow> string \<Rightarrow> 're hstate \<Rightarrow> 're stepres" where
  "rejectDNSSEC wd cfg cx skipWrite reason up st =
     (let m = (newReply (w_lib wd) (cx_r cx))\<lparr>m_Rcode := RcodeServerFailure\<rparr>
      in Stop (writeUnless skipWrite wd cfg cx m) (recordMsg wd cfg cx ''error'' reason up m (addErrors st)))"

text \<open>Why the answer itself is blocked, if it is: an address on a blocklist, or a blocked CNAME target.\<close>

definition answerBlock :: "'re world \<Rightarrow> 're Settings \<Rightarrow> 're Engine \<Rightarrow> bool \<Rightarrow> Msg \<Rightarrow> string option" where
  "answerBlock wd cfg engine domainWhitelisted resp =
     (if domainWhitelisted then None
      else case (if HasIPRules engine then CheckIPs engine (answerIPs resp) else None) of
        Some reason \<Rightarrow> Some reason
      | None \<Rightarrow>
          if s_CNAMECloakingProtection cfg then
            map_option (\<lambda>(owner, target, d). ''cname-cloaking:'' @ owner @ ''->'' @ target @ '':'' @ d_Reason d) (cnameCloakCheck (w_env wd) engine resp)
          else None)"

text \<open>The success path: the answer with the client's id, then its background store.\<close>

definition allowAnswer :: "'re world \<Rightarrow> 're Settings \<Rightarrow> reqCtx \<Rightarrow> bool \<Rightarrow> string \<Rightarrow> Msg \<Rightarrow> 're hstate \<Rightarrow> 're stepres" where
  "allowAnswer wd cfg cx skipWrite up resp0 st =
     (let lib = w_lib wd; q = cx_q cx;
          resp = resp0\<lparr>m_Id := m_Id (cx_r cx)\<rparr>;
          st1 = recordMsg wd cfg cx ''allowed'' [] up resp (addAllowed st);
          sent = (if skipWrite then resp else resp\<lparr>m_Compress := True\<rparr>);
          st2 = (if \<not> isMetaQuery q \<and> w_slot wd
                 then storeCache (\<lambda>c. if m_Answer sent \<noteq> [] then Cache_Set lib c q sent 0 (w_later wd) else SetNegative lib c q sent 0 (w_later wd)) st1 else st1)
      in Stop (writeUnless skipWrite wd cfg cx resp) st2)"

definition finishResolve :: "'re world \<Rightarrow> 're Settings \<Rightarrow> reqCtx \<Rightarrow> 're Engine \<Rightarrow> bool \<Rightarrow> bool \<Rightarrow> LookupResult \<Rightarrow> upstream_result \<Rightarrow> 're hstate \<Rightarrow> 're stepres" where
  "finishResolve wd cfg cx engine domainWhitelisted skipWrite stale res st =
     (let tryStale = (\<lambda>up st' els. case (if lr_Raw stale \<noteq> [] then serveStale wd cfg cx skipWrite up stale st' else None) of
            Some (ev, st'') \<Rightarrow> Stop ev st'' | None \<Rightarrow> els)
      in case res of
           Inl (e, up) \<Rightarrow> tryStale up st (failResolve wd cfg cx skipWrite stale (Some e) up st)
         | Inr (None, up) \<Rightarrow> tryStale up st (failResolve wd cfg cx skipWrite stale None up st)
         | Inr (Some resp, up) \<Rightarrow>
             let st1 = (if m_Rcode resp = RcodeNameError then noteNX (cx_client cx) (w_later wd) st else st);
                 rest = (case dnssecCheck wd cfg (hs_Ups st1) up resp of
                     Inl reason \<Rightarrow> rejectDNSSEC wd cfg cx skipWrite reason up st1
                   | Inr resp' \<Rightarrow>
                       (case answerBlock wd cfg engine domainWhitelisted resp' of
                          Some reason \<Rightarrow> blockQuery wd cfg cx skipWrite reason up st1
                        | None \<Rightarrow> allowAnswer wd cfg cx skipWrite up resp' st1))
             in if m_Rcode resp = RcodeServerFailure then tryStale up st1 rest else rest)"

definition staleGrace :: "duration \<Rightarrow> duration" where
  "staleGrace timeout = min (timeout div 2) (2 * Second)"

section \<open>The handler\<close>

text \<open>After the cache: forward, and race a stale entry against the resolution when there is one.\<close>

definition forwardStage :: "'re world \<Rightarrow> 're Settings \<Rightarrow> reqCtx \<Rightarrow> 're Engine \<Rightarrow> string list \<Rightarrow> bool \<Rightarrow> LookupResult \<Rightarrow> 're hstate \<Rightarrow> 're stepres" where
  "forwardStage wd cfg cx engine ptrs domainWhitelisted stale st =
     (case resolveRefs wd cfg (cx_r cx) (upstreamQuery wd cfg (cx_r cx)) ptrs st of
        (res, st1) \<Rightarrow>
          if lr_Raw stale \<noteq> [] \<and> w_staleTimer wd then
            (case serveStale wd cfg cx False [] stale st1 of
               None \<Rightarrow> finishResolve wd cfg cx engine domainWhitelisted True stale res st1
             | Some (ev, st2) \<Rightarrow>
                 (case finishResolve wd cfg cx engine domainWhitelisted True stale res st2 of
                    Stop ev' st3 \<Rightarrow> Stop (ev @ ev') st3
                  | Crash st3 \<Rightarrow> Stop ev st3
                  | Next st3 \<Rightarrow> Next st3))
          else finishResolve wd cfg cx engine domainWhitelisted False stale res st1)"

definition serveQuery :: "'re world \<Rightarrow> 're Settings \<Rightarrow> reqCtx \<Rightarrow> 're hstate \<Rightarrow> 're stepres" where
  "serveQuery wd cfg cx st =
     (case runSteps (frontSteps wd cfg cx) st of
        Stop ev st1 \<Rightarrow> Stop ev st1
      | Crash st1 \<Rightarrow> Crash st1
      | Next st1 \<Rightarrow>
          (case choosePolicy cfg (cx_client cx) st1 of
             ((engine, ups), st2) \<Rightarrow>
               let ptrs = routeUpstreams cfg (cx_qname cx) ups; d = DecideDomain (w_env wd) engine (q_Name (cx_q cx))
               in if d_Action d = Block then blockQuery wd cfg cx False (d_Reason d) [] st2
                  else case cacheStage wd cfg cx st2 of
                    (Next st3, stale) \<Rightarrow> forwardStage wd cfg cx engine ptrs (HasPrefix (d_Reason d) ''whitelist'') stale st3
                  | (stop, _) \<Rightarrow> stop))"

definition countQuery :: "string \<Rightarrow> 're hstate \<Rightarrow> 're hstate" where
  "countQuery proto = withStats (\<lambda>s. s\<lparr>st_Total := st_Total s + 1,
     st_ByProtocol := map (\<lambda>(p, n). (p, if p = proto then n + 1 else n)) (st_ByProtocol s)\<rparr>)"

definition formErr :: Msg where
  "formErr = emptyMsg\<lparr>m_Response := True, m_Rcode := RcodeFormatError\<rparr>"

text \<open>\<^verbatim>\<open>serve\<close>: what is written and observed, and the state. A crash is recovered into SERVFAIL; writing a reply to no
  message at all crashes in \<^verbatim>\<open>observeVPN\<close> when a VPN router is installed.\<close>

definition serve :: "'re world \<Rightarrow> 're Settings \<Rightarrow> Msg option \<Rightarrow> string \<Rightarrow> string \<Rightarrow> 're hstate \<Rightarrow> event list \<times> 're hstate" where
  "serve wd cfg r client proto st =
     (let lib = w_lib wd; st0 = countQuery proto st;
          formerr = [Wrote (writeReply lib (w_hmac wd) (s_write cfg) formErr r proto (w_remote wd))] in
      case r of
        None \<Rightarrow> if w_hasVPN wd then ([], addErrors st0) else (formerr, st0)
      | Some rm \<Rightarrow>
          (case m_Question rm of
             [] \<Rightarrow> (formerr, st0)
           | q # _ \<Rightarrow>
               (case serveQuery wd cfg \<lparr>cx_r = rm, cx_q = q, cx_qname = CanonicalDomain (q_Name q), cx_client = client, cx_proto = proto\<rparr> st0 of
                  Stop ev st1 \<Rightarrow> (ev, st1)
                | Next st1 \<Rightarrow> ([], st1)
                | Crash st1 \<Rightarrow> ([Wrote (SentMsg (SetRcode lib rm RcodeServerFailure))], addErrors st1))))"

section \<open>Background resolution\<close>

datatype rac_error = NoUpstreams | NoCache | ResolveFailed uerr | NoAnswer

definition resolveAndCache :: "'re world \<Rightarrow> 're Settings \<Rightarrow> Question \<Rightarrow> 're hstate \<Rightarrow> rac_error option \<times> 're hstate" where
  "resolveAndCache wd cfg q st =
     (let lib = w_lib wd; ptrs = routeUpstreams cfg (CanonicalDomain (q_Name q)) (s_Upstreams cfg);
          m = (SetQuestion lib (q_Name q) (q_Qtype q) (w_Id wd))\<lparr>m_RecursionDesired := True\<rparr> in
      if ptrs = [] then (Some NoUpstreams, st)
      else if hs_Cache st = None then (Some NoCache, st)
      else case resolveRefs wd cfg m m ptrs st of
        (Inl (e, up), st1) \<Rightarrow> (Some (ResolveFailed e), st1)
      | (Inr (None, up), st1) \<Rightarrow> (Some NoAnswer, st1)
      | (Inr (Some resp, up), st1) \<Rightarrow>
          (None, storeCache (\<lambda>c. if m_Answer resp \<noteq> [] then Cache_Set lib c q resp 0 (w_later wd) else SetNegative lib c q resp 0 (w_later wd)) st1))"

text \<open>\<^verbatim>\<open>probeUpstreams\<close>: every forwarder of the global set is asked once; only its breaker and pools change.\<close>

definition probeUpstreams :: "'re world \<Rightarrow> bool \<Rightarrow> 're Settings \<Rightarrow> 're hstate \<Rightarrow> 're hstate" where
  "probeUpstreams wd enabled cfg st =
     (if \<not> enabled then st
      else
        let m = SetQuestion (w_lib wd) ''example.com.'' TypeA (w_Id wd);
            us = map (\<lambda>(i, x). snd (Query (w_lib wd) (w_poolCap wd) (hs_Ups st x) m (w_net wd i))) (enumerate 0 (s_Upstreams cfg))
        in storeUps (s_Upstreams cfg) us st)"

text \<open>Percentiles of the histogram; the product and quotient of the float computation are exact for the counts a
  process can reach, so the truncated target is an integer division.\<close>

fun pctScan :: "int \<Rightarrow> int \<Rightarrow> nat \<Rightarrow> nat option \<Rightarrow> int list \<Rightarrow> int" where
  "pctScan target seen i lst [] =
     (case lst of None \<Rightarrow> 1 | Some l \<Rightarrow> if l = 0 then 1 else if l = 11 then 2 ^ 12 else 2 ^ l)"
| "pctScan target seen i lst (n # ns) =
     (let seen' = seen + n; lst' = (if n > 0 then Some i else lst) in
      if seen' > target then (if i = 0 then 1 else if i = 11 then 2 ^ 12 else 2 ^ i)
      else pctScan target seen' (Suc i) lst' ns)"

definition latency_pct :: "latencyHist \<Rightarrow> int \<Rightarrow> int" where
  "latency_pct h p = (if lh_total h = 0 then 0 else pctScan (lh_total h * p div 100) 0 0 None (lh_buckets h))"

end
