(* ===== verification/PipelineProps.thy ===== *)
theory PipelineProps
  imports Pipeline
begin

text \<open>
  What the pipeline of \<open>Pipeline\<close> guarantees: how many replies a query gets, which state each kind of query may change, and
  how the guards, the banner, the client groups and DNSSEC enforcement compose.
\<close>

named_theorems pipe_defs \<open>the steps of the pipeline\<close>
named_theorems pipe_frame \<open>what a helper leaves alone\<close>

section \<open>Frames\<close>

fun res_state :: "'re stepres \<Rightarrow> 're hstate" where
  "res_state (Stop ev st) = st"
| "res_state (Crash st) = st"
| "res_state (Next st) = st"

fun res_events :: "'re stepres \<Rightarrow> event list" where
  "res_events (Stop ev st) = ev"
| "res_events (Crash st) = []"
| "res_events (Next st) = []"

lemma withStats_frame [simp]:
  "hs_latency (withStats f st) = hs_latency st" "hs_Log (withStats f st) = hs_Log st" "hs_RateLimiter (withStats f st) = hs_RateLimiter st"
  "hs_NXGuard (withStats f st) = hs_NXGuard st" "hs_RepeatGuard (withStats f st) = hs_RepeatGuard st" "hs_IPBanner (withStats f st) = hs_IPBanner st"
  "hs_ClientRouter (withStats f st) = hs_ClientRouter st" "hs_Cache (withStats f st) = hs_Cache st" "hs_L2 (withStats f st) = hs_L2 st"
  "hs_Ups (withStats f st) = hs_Ups st"
  by (simp_all add: withStats_def)

lemma ClientASN_frame:
  "hs_RateLimiter (snd (ClientASN cfg st c)) = hs_RateLimiter st" "hs_NXGuard (snd (ClientASN cfg st c)) = hs_NXGuard st"
  "hs_RepeatGuard (snd (ClientASN cfg st c)) = hs_RepeatGuard st" "hs_IPBanner (snd (ClientASN cfg st c)) = hs_IPBanner st"
  "hs_ClientRouter (snd (ClientASN cfg st c)) = hs_ClientRouter st" "hs_Cache (snd (ClientASN cfg st c)) = hs_Cache st"
  "hs_L2 (snd (ClientASN cfg st c)) = hs_L2 st" "hs_Ups (snd (ClientASN cfg st c)) = hs_Ups st" "hs_Stats (snd (ClientASN cfg st c)) = hs_Stats st"
  by (simp_all add: ClientASN_def storeASN_def Let_def split: option.split)

lemma recordEntry_frame [simp]:
  "hs_RateLimiter (recordEntry wd cfg cx a b u n k st) = hs_RateLimiter st" "hs_NXGuard (recordEntry wd cfg cx a b u n k st) = hs_NXGuard st"
  "hs_RepeatGuard (recordEntry wd cfg cx a b u n k st) = hs_RepeatGuard st" "hs_IPBanner (recordEntry wd cfg cx a b u n k st) = hs_IPBanner st"
  "hs_ClientRouter (recordEntry wd cfg cx a b u n k st) = hs_ClientRouter st" "hs_Cache (recordEntry wd cfg cx a b u n k st) = hs_Cache st"
  "hs_L2 (recordEntry wd cfg cx a b u n k st) = hs_L2 st" "hs_Ups (recordEntry wd cfg cx a b u n k st) = hs_Ups st"
  "hs_Stats (recordEntry wd cfg cx a b u n k st) = hs_Stats st"
  using ClientASN_frame[of cfg "st\<lparr>hs_latency := latency_record (hs_latency st) (w_later wd - w_now wd)\<rparr>" "cx_client cx"]
  by (auto simp: recordEntry_def Let_def split: option.split prod.split)

lemmas record_defs = recordMsg_def recordRaw_def

lemma runSteps_keeps:
  assumes "\<And>s st. s \<in> set ss \<Longrightarrow> f (res_state (s st)) = f st"
  shows "f (res_state (runSteps ss st)) = f st"
  using assms
proof (induction ss arbitrary: st)
  case (Cons s ss)
  have "f (res_state (s st)) = f st" by (rule Cons.prems) simp
  moreover have "f (res_state (runSteps ss st')) = f st'" for st' by (rule Cons.IH) (simp add: Cons.prems)
  ultimately show ?case by (cases "s st") auto
qed simp

lemma runSteps_Stop:
  assumes "runSteps ss st = Stop ev st'"
  shows "\<exists>s \<in> set ss. \<exists>st0. s st0 = Stop ev st'"
  using assms by (induction ss arbitrary: st) (auto split: stepres.splits)

lemma runSteps_Crash:
  assumes "runSteps ss st = Crash st'"
  shows "\<exists>s \<in> set ss. \<exists>st0. s st0 = Crash st'"
  using assms by (induction ss arbitrary: st) (auto split: stepres.splits)

lemmas front_defs = aclStep_def versionStep_def cookieStep_def rateStep_def nxStep_def repeatStep_def noteStep_def
  clientBlockStep_def honeypotStep_def trapClient_def anyStep_def rewriteStep_def proxyStep_def dhcpHostStep_def dhcpPtrStep_def
  answerLocal_def refuse_def recordMsg_def Let_def

lemma frontStep_cases:
  assumes "s \<in> set (frontSteps wd cfg cx)"
  obtains "s = aclStep wd cfg cx" | "s = versionStep wd cfg cx" | "s = cookieStep wd cfg cx" | "s = rateStep wd cfg cx"
    | "s = nxStep wd cfg cx" | "s = repeatStep wd cfg cx" | "s = noteStep wd cfg cx" | "s = clientBlockStep wd cfg cx"
    | "s = honeypotStep wd cfg cx" | "s = anyStep wd cfg cx" | "s = rewriteStep wd cfg cx" | "s = proxyStep wd cfg cx"
    | "s = dhcpHostStep wd cfg cx" | "s = dhcpPtrStep wd cfg cx"
  using assms by (auto simp: frontSteps_def)

lemma frontStep_frame:
  assumes "s \<in> set (frontSteps wd cfg cx)"
  shows "hs_Cache (res_state (s st)) = hs_Cache st \<and> hs_L2 (res_state (s st)) = hs_L2 st \<and> hs_Ups (res_state (s st)) = hs_Ups st \<and>
    hs_ClientRouter (res_state (s st)) = hs_ClientRouter st \<and> hs_NXGuard (res_state (s st)) = hs_NXGuard st"
  using assms by (cases rule: frontStep_cases)
    (auto simp: front_defs split: option.split list.split prod.split bool.split)

lemma front_frame:
  "hs_Cache (res_state (runSteps (frontSteps wd cfg cx) st)) = hs_Cache st"
  "hs_L2 (res_state (runSteps (frontSteps wd cfg cx) st)) = hs_L2 st"
  "hs_Ups (res_state (runSteps (frontSteps wd cfg cx) st)) = hs_Ups st"
  "hs_ClientRouter (res_state (runSteps (frontSteps wd cfg cx) st)) = hs_ClientRouter st"
  "hs_NXGuard (res_state (runSteps (frontSteps wd cfg cx) st)) = hs_NXGuard st"
  by (rule runSteps_keeps, simp add: frontStep_frame)+

section \<open>The network memo\<close>

interpretation asn: bounded_memo cap hs_asnCache hs_asnCacheSize "storeASN cap" for cap
  by unfold_locales (simp_all add: storeASN_def Let_def)

definition asn_ok :: "'re Settings \<Rightarrow> 're hstate \<Rightarrow> bool" where
  "asn_ok cfg st \<longleftrightarrow> memo_ok (\<lambda>c. case lookupASN cfg (hs_ClientRouter st) c of None \<Rightarrow> 0 | Some a \<Rightarrow> a) (s_maxASNCache cfg) (hs_asnCache st) (hs_asnCacheSize st)"

lemma storeASN_router [simp]: "hs_ClientRouter (storeASN cap st c a) = hs_ClientRouter st"
  by (simp add: storeASN_def Let_def)

text \<open>While the tables stay, the memo answers what the tables say and stays sound and bounded.\<close>

lemma ClientASN_sound:
  assumes "asn_ok cfg st"
  shows "asn_ok cfg (snd (ClientASN cfg st c)) \<and>
    (c \<noteq> [] \<longrightarrow> fst (fst (ClientASN cfg st c)) = (case lookupASN cfg (hs_ClientRouter st) c of None \<Rightarrow> 0 | Some a \<Rightarrow> a))"
proof (cases "map_of (hs_asnCache st) c")
  case None
  then show ?thesis
    using assms asn.store_ok[of "\<lambda>c. case lookupASN cfg (hs_ClientRouter st) c of None \<Rightarrow> 0 | Some a \<Rightarrow> a" "s_maxASNCache cfg" st c]
    by (simp add: asn_ok_def ClientASN_def Let_def)
next
  case (Some a)
  then show ?thesis using assms memo_ok_hit[OF assms[unfolded asn_ok_def] Some] by (simp add: ClientASN_def)
qed

section \<open>Replies\<close>

definition writes :: "event list \<Rightarrow> nat" where
  "writes ev = length (filter (\<lambda>e. case e of Wrote s \<Rightarrow> True | _ \<Rightarrow> False) ev)"

lemma writes_simps [simp]:
  "writes [] = 0" "writes (a @ b) = writes a + writes b" "writes (Wrote s # ev) = Suc (writes ev)"
  "writes (Observed n i d # ev) = writes ev" "writes (Prefetch q # ev) = writes ev"
  by (simp_all add: writes_def)

lemma writes_observe [simp]: "writes (observeVPN wd r m) = 0"
  by (simp add: observeVPN_def split: list.split)

lemma writes_writeMsg [simp]: "writes (writeMsg wd cfg cx m) = 1"
  by (simp add: writeMsg_def)

lemma writes_writeUnless [simp]: "writes (writeUnless skip wd cfg cx m) = (if skip then 0 else 1)"
  by (simp add: writeUnless_def)

lemma writes_writeRaw: "writes (writeRaw wd cfg cx res) \<le> 1"
  by (simp add: writeRaw_def Let_def split: option.split)

lemma resultMsg_total: "\<forall>b. Unpack lib b \<noteq> None \<Longrightarrow> lr_Raw res \<noteq> [] \<Longrightarrow> resultMsg lib res t \<noteq> None"
proof -
  assume t: "\<forall>b. Unpack lib b \<noteq> None" and ne: "lr_Raw res \<noteq> []"
  obtain m where "Unpack lib (drop cacheEntryPrefixLen (put64 (lr_StoredAt res) @ lr_Raw res)) = Some m" using t by (meson not_Some_eq)
  moreover have "cacheEntryPrefixLen < length (put64 (lr_StoredAt res) @ lr_Raw res)"
    using ne by (simp add: put64_def cacheEntryPrefixLen_def)
  ultimately have "unpackEntry lib (put64 (lr_StoredAt res) @ lr_Raw res) t \<noteq> None"
    unfolding unpackEntry_def Let_def by simp
  then show ?thesis using t ne by (simp only: resultMsg_def unpackNegative_def) simp
qed

lemma writes_writeRaw_exact:
  assumes "\<forall>b. Unpack (w_lib wd) b \<noteq> None" "lr_Raw res \<noteq> []" shows "writes (writeRaw wd cfg cx res) = 1"
proof -
  obtain m where "resultMsg (w_lib wd) res (w_now wd) = Some m" using resultMsg_total[OF assms] by blast
  then show ?thesis by (simp add: writeRaw_def Let_def)
qed

lemma frontStep_replies:
  assumes "s \<in> set (frontSteps wd cfg cx)" "s st = Stop ev st'"
  shows "writes ev = 1 \<or> writes ev = 0 \<and> cx_proto cx = ''udp''"
  using assms(1) assms(2) by (cases rule: frontStep_cases)
    (auto simp: front_defs split: option.splits list.splits prod.splits if_splits)

lemma blockQuery_Stop:
  assumes "m_Question (cx_r cx) \<noteq> []"
  shows "\<exists>st'. blockQuery wd cfg cx skip reason up st = Stop (writeUnless skip wd cfg cx
     (edeIfEdns wd cx 15 reason (the (BuildBlockResponse (w_lib wd) (cx_r cx) (s_BlockResponse cfg) (s_BlockTTL cfg))))) st'"
  using assms by (cases "m_Question (cx_r cx)") (simp_all add: blockQuery_def BuildBlockResponse_def Let_def)

definition replies :: "bool \<Rightarrow> 're stepres \<Rightarrow> bool" where
  "replies skip res = (case res of Stop ev st \<Rightarrow> writes ev = (if skip then 0 else 1) | _ \<Rightarrow> False)"

lemma blockQuery_replies: "m_Question (cx_r cx) \<noteq> [] \<Longrightarrow> replies skip (blockQuery wd cfg cx skip reason up st)"
  using blockQuery_Stop[of cx wd cfg skip reason up st] by (auto simp: replies_def)

lemma end_replies:
  "replies skip (failResolve wd cfg cx skip stale err up st)"
  "replies skip (rejectDNSSEC wd cfg cx skip reason up st)"
  "replies skip (allowAnswer wd cfg cx skip up resp st)"
  by (simp_all add: replies_def failResolve_def rejectDNSSEC_def allowAnswer_def Let_def)

lemma serveStale_writes: "serveStale wd cfg cx skip up stale st = Some (ev, st') \<Longrightarrow> writes ev = (if skip then 0 else 1)"
  by (auto simp: serveStale_def Let_def split: option.splits)

lemma tryStale_replies:
  "replies skip els \<Longrightarrow> replies skip (case (if c then serveStale wd cfg cx skip up stale st else None) of Some (ev, st'') \<Rightarrow> Stop ev st'' | None \<Rightarrow> els)"
proof (cases "if c then serveStale wd cfg cx skip up stale st else None")
  case (Some x)
  then show ?thesis using serveStale_writes[of wd cfg cx skip up stale st "fst x" "snd x"]
    by (cases x) (auto simp: replies_def split: if_splits)
qed simp

lemma finishResolve_replies:
  assumes "m_Question (cx_r cx) \<noteq> []"
  shows "replies skip (finishResolve wd cfg cx engine wl skip stale res st)"
proof -
  have r: "replies skip (case dnssecCheck wd cfg store up resp of
        Inl reason \<Rightarrow> rejectDNSSEC wd cfg cx skip reason up st1
      | Inr resp' \<Rightarrow> (case answerBlock wd cfg engine wl resp' of
            Some reason \<Rightarrow> blockQuery wd cfg cx skip reason up st1
          | None \<Rightarrow> allowAnswer wd cfg cx skip up resp' st1))" for store up resp st1
    using assms by (simp add: end_replies blockQuery_replies split: sum.split option.split)
  show ?thesis
  proof (cases res)
    case (Inl a)
    then show ?thesis by (cases a) (simp add: finishResolve_def Let_def tryStale_replies end_replies)
  next
    case (Inr b)
    obtain m up where b: "b = (m, up)" by (cases b)
    show ?thesis
    proof (cases m)
      case None
      then show ?thesis by (simp add: finishResolve_def Let_def Inr b tryStale_replies end_replies)
    next
      case (Some resp)
      show ?thesis unfolding finishResolve_def Let_def Inr b Some sum.case prod.case option.case(2)
        by (rule if_split[where P = "replies skip", THEN iffD2], intro conjI impI tryStale_replies r)
    qed
  qed
qed

lemma forwardStage_replies:
  assumes "m_Question (cx_r cx) \<noteq> []"
  obtains ev st' where "forwardStage wd cfg cx engine ptrs wl stale st = Stop ev st'" "writes ev \<le> 1"
    "(\<forall>b. Unpack (w_lib wd) b \<noteq> None) \<longrightarrow> writes ev = 1"
proof -
  obtain res st1 where r: "resolveRefs wd cfg (cx_r cx) (upstreamQuery wd cfg (cx_r cx)) ptrs st = (res, st1)" by fastforce
  note f = finishResolve_replies[OF assms, of _ wd cfg engine wl stale res]
  show thesis
  proof (cases "lr_Raw stale \<noteq> [] \<and> w_staleTimer wd")
    case False
    then show thesis using f[of False st1] that r by (auto simp: forwardStage_def replies_def split: stepres.splits)
  next
    case True
    show thesis
    proof (cases "serveStale wd cfg cx False [] stale st1")
      case None
      then have "resultMsg (w_lib wd) stale (w_later wd) = None"
        by (cases "resultMsg (w_lib wd) stale (w_later wd)") (simp_all add: serveStale_def Let_def)
      then have "\<not> (\<forall>b. Unpack (w_lib wd) b \<noteq> None)"
        using resultMsg_total[of "w_lib wd" stale "w_later wd"] True by blast
      then show thesis using f[of True st1] that r True None by (auto simp: forwardStage_def replies_def split: stepres.splits)
    next
      case (Some x)
      obtain ev st2 where x: "x = (ev, st2)" by (cases x)
      then show thesis using f[of True st2] that r True Some serveStale_writes[of wd cfg cx False "[]" stale st1 ev st2]
        by (auto simp: forwardStage_def replies_def split: stepres.splits)
    qed
  qed
qed

lemma cacheStage_replies:
  assumes "cacheStage wd cfg cx st = (Stop ev st', stale)"
  shows "writes ev \<le> 1 \<and> ((\<forall>b. Unpack (w_lib wd) b \<noteq> None) \<longrightarrow> writes ev = 1)"
  using assms writes_writeRaw[of wd cfg cx] writes_writeRaw_exact[of wd _ cfg cx]
  by (auto simp: cacheStage_def Let_def split: option.splits if_splits prod.splits)

lemma cacheStage_no_crash: "fst (cacheStage wd cfg cx st) \<noteq> Crash st'"
  by (auto simp: cacheStage_def Let_def split: option.splits prod.splits)

lemma serveQuery_replies:
  assumes "m_Question (cx_r cx) \<noteq> []"
  shows "case serveQuery wd cfg cx st of
      Stop ev st' \<Rightarrow> writes ev \<le> 1 \<and> (cx_proto cx \<noteq> ''udp'' \<and> (\<forall>b. Unpack (w_lib wd) b \<noteq> None) \<longrightarrow> writes ev = 1)
    | Crash st' \<Rightarrow> True
    | Next st' \<Rightarrow> False"
proof (cases "runSteps (frontSteps wd cfg cx) st")
  case (Stop ev st')
  obtain s st0 where "s \<in> set (frontSteps wd cfg cx)" "s st0 = Stop ev st'" using runSteps_Stop[OF Stop] by blast
  from frontStep_replies[OF this] show ?thesis using Stop by (auto simp: serveQuery_def)
next
  case (Crash st')
  then show ?thesis by (simp add: serveQuery_def)
next
  case (Next st1)
  obtain engine ups st2 where p: "choosePolicy cfg (cx_client cx) st1 = ((engine, ups), st2)" by (metis surj_pair)
  let ?d = "DecideDomain (w_env wd) engine (q_Name (cx_q cx))"
  show ?thesis
  proof (cases "d_Action ?d = Block")
    case True
    then show ?thesis using blockQuery_replies[OF assms, of False wd cfg "d_Reason ?d" "[]" st2] Next p
      by (auto simp: serveQuery_def Let_def replies_def split: stepres.splits)
  next
    case False
    obtain c stale where c: "cacheStage wd cfg cx st2 = (c, stale)" by fastforce
    show ?thesis
    proof (cases c)
      case (Stop ev st')
      then show ?thesis using cacheStage_replies[of wd cfg cx st2 ev st' stale] c Next p False by (simp add: serveQuery_def Let_def)
    next
      case (Crash st')
      then show ?thesis using cacheStage_no_crash[of wd cfg cx st2 st'] c by simp
    next
      case N: (Next st3)
      obtain ev st' where "forwardStage wd cfg cx engine (routeUpstreams cfg (cx_qname cx) ups) (HasPrefix (d_Reason ?d) ''whitelist'') stale st3 = Stop ev st'"
        "writes ev \<le> 1" "(\<forall>b. Unpack (w_lib wd) b \<noteq> None) \<longrightarrow> writes ev = 1"
        using forwardStage_replies[OF assms] by blast
      then show ?thesis using N c Next p False by (simp add: serveQuery_def Let_def)
    qed
  qed
qed

section \<open>Who may change the block list\<close>

lemma state_frame [simp]:
  "hs_IPBanner (storeCache f st) = hs_IPBanner st" "hs_IPBanner (storeUps ptrs us st) = hs_IPBanner st" "hs_IPBanner (noteNX c t st) = hs_IPBanner st"
  "hs_Cache (storeUps ptrs us st) = hs_Cache st" "hs_Cache (noteNX c t st) = hs_Cache st"
  "hs_L2 (storeUps ptrs us st) = hs_L2 st" "hs_L2 (noteNX c t st) = hs_L2 st"
  "hs_Ups (storeCache f st) = hs_Ups st" "hs_Ups (noteNX c t st) = hs_Ups st"
  by (simp_all add: storeCache_def storeUps_def noteNX_def split: option.split prod.split)

lemma serveStale_banner: "serveStale wd cfg cx skip up stale st = Some (ev, st') \<Longrightarrow> hs_IPBanner st' = hs_IPBanner st"
  by (auto simp: serveStale_def recordMsg_def Let_def split: option.splits)

lemma end_banner [simp]:
  "hs_IPBanner (res_state (failResolve wd cfg cx skip stale err up st)) = hs_IPBanner st"
  "hs_IPBanner (res_state (rejectDNSSEC wd cfg cx skip reason up st)) = hs_IPBanner st"
  "hs_IPBanner (res_state (allowAnswer wd cfg cx skip up resp st)) = hs_IPBanner st"
  "hs_IPBanner (res_state (blockQuery wd cfg cx skip reason up st)) = hs_IPBanner st"
  by (simp_all add: failResolve_def rejectDNSSEC_def allowAnswer_def blockQuery_def recordMsg_def Let_def split: option.split)

lemma finishResolve_banner: "hs_IPBanner (res_state (finishResolve wd cfg cx engine wl skip stale res st)) = hs_IPBanner st"
  by (auto simp: finishResolve_def Let_def serveStale_banner split: sum.split option.split prod.split)

lemma forwardStage_banner: "hs_IPBanner (res_state (forwardStage wd cfg cx engine ptrs wl stale st)) = hs_IPBanner st"
proof -
  obtain res st1 where r: "resolveRefs wd cfg (cx_r cx) (upstreamQuery wd cfg (cx_r cx)) ptrs st = (res, st1)" by fastforce
  then have b: "hs_IPBanner st1 = hs_IPBanner st" by (auto simp: resolveRefs_def split: prod.splits)
  show ?thesis using b finishResolve_banner[of wd cfg cx engine wl _ stale res] serveStale_banner[of wd cfg cx False "[]" stale st1]
    by (auto simp: forwardStage_def r split: option.split prod.split stepres.splits) (metis res_state.simps)+
qed

lemma cacheStage_banner: "hs_IPBanner (res_state (fst (cacheStage wd cfg cx st))) = hs_IPBanner st"
  by (auto simp: cacheStage_def recordRaw_def Let_def split: option.split prod.split)

lemma choosePolicy_frame [simp]:
  "hs_IPBanner (snd (choosePolicy cfg client st)) = hs_IPBanner st" "hs_Cache (snd (choosePolicy cfg client st)) = hs_Cache st"
  "hs_L2 (snd (choosePolicy cfg client st)) = hs_L2 st" "hs_Ups (snd (choosePolicy cfg client st)) = hs_Ups st"
  by (simp_all add: choosePolicy_def split: option.split prod.split)

lemma serveQuery_back_banner:
  assumes "runSteps (frontSteps wd cfg cx) st = Next st1"
  shows "hs_IPBanner (res_state (serveQuery wd cfg cx st)) = hs_IPBanner st1"
proof -
  obtain engine ups st2 where p: "choosePolicy cfg (cx_client cx) st1 = ((engine, ups), st2)" by (metis surj_pair)
  have b2: "hs_IPBanner st2 = hs_IPBanner st1" using choosePolicy_frame(1)[of cfg "cx_client cx" st1] p by simp
  obtain c stale where c: "cacheStage wd cfg cx st2 = (c, stale)" by fastforce
  have b3: "hs_IPBanner (res_state c) = hs_IPBanner st1" using cacheStage_banner[of wd cfg cx st2] c b2 by simp
  show ?thesis using assms p b2 b3 c by (cases c) (simp_all add: serveQuery_def Let_def forwardStage_banner)
qed

lemma frontStep_banner:
  assumes "\<not> trusted (cx_proto cx)" "\<not> s_TrustUDP cfg" "s \<in> set (frontSteps wd cfg cx)"
  shows "hs_IPBanner (res_state (s st)) = hs_IPBanner st"
  using assms(3) assms(1,2) by (cases rule: frontStep_cases)
    (auto simp: front_defs split: option.split list.split prod.split bool.split)

lemma serveQuery_banner:
  assumes "\<not> trusted (cx_proto cx)" "\<not> s_TrustUDP cfg"
  shows "hs_IPBanner (res_state (serveQuery wd cfg cx st)) = hs_IPBanner st"
proof -
  have f: "hs_IPBanner (res_state (runSteps (frontSteps wd cfg cx) st)) = hs_IPBanner st"
    by (rule runSteps_keeps) (rule frontStep_banner[OF assms])
  show ?thesis
  proof (cases "runSteps (frontSteps wd cfg cx) st")
    case (Next st1)
    then show ?thesis using f serveQuery_back_banner[OF Next] by simp
  qed (use f in \<open>simp_all add: serveQuery_def\<close>)
qed

section \<open>Blocked names stay local\<close>

text \<open>The engine the client's group table gives it.\<close>

definition clientEngine :: "'re Settings \<Rightarrow> 're hstate \<Rightarrow> string \<Rightarrow> 're Engine" where
  "clientEngine cfg st client =
     (case hs_ClientRouter st of
        None \<Rightarrow> s_Engine cfg
      | Some cr \<Rightarrow> (case policyOf (cr_entries cr) client of None \<Rightarrow> s_Engine cfg | Some p \<Rightarrow> cp_Engine p))"

lemma choosePolicy_engine:
  assumes "\<forall>cr. hs_ClientRouter st = Some cr \<longrightarrow> router_reach cr"
  shows "fst (fst (choosePolicy cfg client st)) = clientEngine cfg st client"
proof (cases "hs_ClientRouter st")
  case None
  then show ?thesis by (simp add: choosePolicy_def clientEngine_def)
next
  case (Some cr)
  then have "router_ok cr" using assms router_reach_ok by blast
  from Resolve_policy[OF this, of client] show ?thesis using Some
    by (auto simp: choosePolicy_def clientEngine_def split: prod.split option.split)
qed

lemma blockQuery_frame [simp]:
  "hs_Cache (res_state (blockQuery wd cfg cx skip reason up st)) = hs_Cache st"
  "hs_L2 (res_state (blockQuery wd cfg cx skip reason up st)) = hs_L2 st"
  "hs_Ups (res_state (blockQuery wd cfg cx skip reason up st)) = hs_Ups st"
  by (simp_all add: blockQuery_def recordMsg_def split: option.split)

text \<open>Nothing a query leaves behind outside the process: the forwarders' state and both cache layers.\<close>

definition sameBack :: "'re hstate \<Rightarrow> 're hstate \<Rightarrow> bool" where
  "sameBack st st' \<longleftrightarrow> hs_Cache st' = hs_Cache st \<and> hs_L2 st' = hs_L2 st \<and> hs_Ups st' = hs_Ups st"

lemma front_sameBack: "sameBack st (res_state (runSteps (frontSteps wd cfg cx) st))"
  by (simp add: sameBack_def front_frame)

lemma serveQuery_blocked_back:
  assumes "\<forall>cr. hs_ClientRouter st = Some cr \<longrightarrow> router_reach cr"
    "d_Action (DecideDomain (w_env wd) (clientEngine cfg st (cx_client cx)) (q_Name (cx_q cx))) = Block"
  shows "sameBack st (res_state (serveQuery wd cfg cx st))"
proof (cases "runSteps (frontSteps wd cfg cx) st")
  case (Next st1)
  have cr: "hs_ClientRouter st1 = hs_ClientRouter st" using front_frame(4)[of wd cfg cx st] Next by simp
  obtain engine ups st2 where p: "choosePolicy cfg (cx_client cx) st1 = ((engine, ups), st2)" by (metis surj_pair)
  have "engine = clientEngine cfg st (cx_client cx)"
    using choosePolicy_engine[of st1 cfg "cx_client cx"] assms(1) cr p by (simp add: clientEngine_def)
  moreover have "sameBack st st1" using front_sameBack[of st wd cfg cx] Next by simp
  moreover have "sameBack st1 st2" using choosePolicy_frame[of cfg "cx_client cx" st1] p by (simp add: sameBack_def)
  ultimately show ?thesis using Next p assms(2) by (simp add: serveQuery_def Let_def sameBack_def)
qed (use front_sameBack[of st wd cfg cx] in \<open>simp_all add: serveQuery_def\<close>)

lemma countQuery_frame [simp]:
  "hs_Cache (countQuery p st) = hs_Cache st" "hs_L2 (countQuery p st) = hs_L2 st" "hs_Ups (countQuery p st) = hs_Ups st"
  "hs_ClientRouter (countQuery p st) = hs_ClientRouter st" "hs_IPBanner (countQuery p st) = hs_IPBanner st"
  "hs_RateLimiter (countQuery p st) = hs_RateLimiter st" "hs_NXGuard (countQuery p st) = hs_NXGuard st"
  "hs_RepeatGuard (countQuery p st) = hs_RepeatGuard st"
  by (simp_all add: countQuery_def)

text \<open>The context \<^verbatim>\<open>serve\<close> builds for a message with a question.\<close>

abbreviation ctxOf :: "Msg \<Rightarrow> Question \<Rightarrow> string \<Rightarrow> string \<Rightarrow> reqCtx" where
  "ctxOf rm q client proto \<equiv> \<lparr>cx_r = rm, cx_q = q, cx_qname = CanonicalDomain (q_Name q), cx_client = client, cx_proto = proto\<rparr>"

lemma serve_state:
  assumes "m_Question rm = q # qs"
  shows "\<exists>st'. res_state (serveQuery wd cfg (ctxOf rm q client proto) (countQuery proto st)) = st' \<and>
    (snd (serve wd cfg (Some rm) client proto st) = st' \<or> snd (serve wd cfg (Some rm) client proto st) = addErrors st')"
  using assms by (cases "serveQuery wd cfg (ctxOf rm q client proto) (countQuery proto st)") (simp_all add: serve_def Let_def)

lemma serve_frame:
  assumes "m_Question rm = q # qs" "\<And>f s. field (withStats f s) = field s"
    "field (res_state (serveQuery wd cfg (ctxOf rm q client proto) (countQuery proto st))) = x"
  shows "field (snd (serve wd cfg (Some rm) client proto st)) = x"
proof -
  consider "snd (serve wd cfg (Some rm) client proto st) = res_state (serveQuery wd cfg (ctxOf rm q client proto) (countQuery proto st))"
    | "snd (serve wd cfg (Some rm) client proto st) = addErrors (res_state (serveQuery wd cfg (ctxOf rm q client proto) (countQuery proto st)))"
    using serve_state[OF assms(1), of wd cfg client proto st] by blast
  then show ?thesis by cases (simp_all add: assms(2,3))
qed

section \<open>A trapped client is shut out\<close>

lemma runSteps_append:
  "runSteps (ss @ ss') st = (case runSteps ss st of Next st' \<Rightarrow> runSteps ss' st' | Stop ev st' \<Rightarrow> Stop ev st' | Crash st' \<Rightarrow> Crash st')"
  by (induction ss arbitrary: st) (auto split: stepres.split)

text \<open>The admission steps before the block list is consulted, and those after.\<close>

definition admitSteps :: "'re world \<Rightarrow> 're Settings \<Rightarrow> reqCtx \<Rightarrow> ('re hstate \<Rightarrow> 're stepres) list" where
  "admitSteps wd cfg cx = map (\<lambda>s. s wd cfg cx) [aclStep, versionStep, cookieStep, rateStep, nxStep, repeatStep, noteStep]"

definition localSteps :: "'re world \<Rightarrow> 're Settings \<Rightarrow> reqCtx \<Rightarrow> ('re hstate \<Rightarrow> 're stepres) list" where
  "localSteps wd cfg cx = map (\<lambda>s. s wd cfg cx) [anyStep, rewriteStep, proxyStep, dhcpHostStep, dhcpPtrStep]"

lemma frontSteps_split:
  "frontSteps wd cfg cx = admitSteps wd cfg cx @ clientBlockStep wd cfg cx # honeypotStep wd cfg cx # localSteps wd cfg cx"
  by (simp add: frontSteps_def admitSteps_def localSteps_def)

lemma admit_banner: "hs_IPBanner (res_state (runSteps (admitSteps wd cfg cx) st)) = hs_IPBanner st"
  by (rule runSteps_keeps) (auto simp: admitSteps_def front_defs split: option.split prod.split)

lemma local_banner: "hs_IPBanner (res_state (runSteps (localSteps wd cfg cx) st)) = hs_IPBanner st"
  by (rule runSteps_keeps) (auto simp: localSteps_def front_defs split: option.split list.split)

lemma clientBlock_keeps: "clientBlockStep wd cfg cx st = Next st' \<Longrightarrow> st' = st"
  "hs_IPBanner (res_state (clientBlockStep wd cfg cx st)) = hs_IPBanner st"
  by (auto simp: front_defs split: if_splits)

text \<open>The only change a query can make to the block list is a honeypot block of its own client.\<close>

lemma honeypot_banner:
  "hs_IPBanner (res_state (honeypotStep wd cfg cx st)) = hs_IPBanner st \<or>
   (\<exists>b. hs_IPBanner st = Some b \<and> LookupHoneypot b (cx_qname cx) \<and>
     hs_IPBanner (res_state (honeypotStep wd cfg cx st)) = Some (snd (Banner_Block b (cx_client cx))))"
  by (auto simp: honeypotStep_def trapClient_def split: option.split)

lemma front_banner_change:
  "hs_IPBanner (res_state (runSteps (frontSteps wd cfg cx) st)) = hs_IPBanner st \<or>
   (\<exists>b. hs_IPBanner st = Some b \<and> LookupHoneypot b (cx_qname cx) \<and>
     hs_IPBanner (res_state (runSteps (frontSteps wd cfg cx) st)) = Some (snd (Banner_Block b (cx_client cx))))"
proof (cases "runSteps (admitSteps wd cfg cx) st")
  case (Next st1)
  have 1: "hs_IPBanner st1 = hs_IPBanner st" using admit_banner[of wd cfg cx st] Next by simp
  show ?thesis
  proof (cases "clientBlockStep wd cfg cx st1")
    case N: (Next st2)
    then have "st2 = st1" by (rule clientBlock_keeps)
    then show ?thesis using honeypot_banner[of wd cfg cx st1] 1 Next N local_banner[of wd cfg cx]
      by (cases "honeypotStep wd cfg cx st1") (simp_all add: frontSteps_split runSteps_append)
  qed (use clientBlock_keeps(2)[of wd cfg cx st1] 1 Next in \<open>simp_all add: frontSteps_split runSteps_append\<close>)
qed (use admit_banner[of wd cfg cx st] in \<open>simp_all add: frontSteps_split runSteps_append\<close>)

lemma serveQuery_banner_change:
  "hs_IPBanner (res_state (serveQuery wd cfg cx st)) = hs_IPBanner st \<or>
   (\<exists>b. hs_IPBanner st = Some b \<and> LookupHoneypot b (cx_qname cx) \<and>
     hs_IPBanner (res_state (serveQuery wd cfg cx st)) = Some (snd (Banner_Block b (cx_client cx))))"
proof (cases "runSteps (frontSteps wd cfg cx) st")
  case (Next st1)
  then show ?thesis using front_banner_change[of wd cfg cx st] serveQuery_back_banner[OF Next] by simp
qed (use front_banner_change[of wd cfg cx st] in \<open>simp_all add: serveQuery_def\<close>)

lemma banned_query_back:
  assumes "hs_IPBanner st = Some b" "BlockedAs b (cx_client cx) \<noteq> None" "cx_client cx \<noteq> []"
  shows "sameBack st (res_state (serveQuery wd cfg cx st))"
proof -
  have "\<nexists>st1. runSteps (frontSteps wd cfg cx) st = Next st1"
  proof (cases "runSteps (admitSteps wd cfg cx) st")
    case (Next st1)
    have "hs_IPBanner st1 = Some b" using admit_banner[of wd cfg cx st] Next assms(1) by simp
    then have "\<exists>ev st2. clientBlockStep wd cfg cx st1 = Stop ev st2" using assms(2,3) by (simp add: clientBlockStep_def Let_def)
    then show ?thesis using Next by (auto simp: frontSteps_split runSteps_append)
  qed (simp_all add: frontSteps_split runSteps_append)
  then show ?thesis using front_sameBack[of st wd cfg cx]
    by (cases "runSteps (frontSteps wd cfg cx) st") (auto simp: serveQuery_def)
qed

section \<open>A small server\<close>

text \<open>For the examples: nothing configured but what an example sets; one recursive forwarder \<open>u\<close> that answers nothing.\<close>

definition quietWorld :: "string world" where
  "quietWorld = \<lparr>w_now = 0, w_later = 0, w_remote = ''1.2.3.4'', w_lib = simpleLib, w_hmac = \<lambda>k s. replicate 64 (CHR ''0''), w_env = plain_env,
     w_hasVPN = False, w_ProxyAnswer = \<lambda>_. None, w_dhcp = None, w_validator = None, w_mget = None, w_flight = Lead False,
     w_net = \<lambda>_. recursiveNet (Inl (NetErr ''down'')), w_late = \<lambda>_. False, w_order = \<lambda>x. x, w_poolCap = 8, w_staleTimer = False, w_slot = True,
     w_Id = 77, w_errText = \<lambda>_. ''error''\<rparr>"

definition quietSettings :: "string Settings" where
  "quietSettings = \<lparr>s_Engine = NewEngine, s_Upstreams = [''u''], s_UpstreamMode = ''race'', s_UpstreamRoutes = [], s_BlockResponse = ''nxdomain'', s_BlockTTL = 60,
     s_Timeout = 5 * Second, s_FailureTTL = 0, s_Rewriter = NewRewriter, s_Geo = None, s_ACL = None, s_TrustUDP = False, s_HoneypotUDPBlock = 0,
     s_RepeatQueryBlockFor = 0, s_RepeatQueryUDPBlockFor = 0, s_DNSSECEnabled = False, s_DNSSECRequireAD = False, s_DNSSECValidateLocally = False,
     s_CNAMECloakingProtection = False, s_write = \<lparr>wc_Padding = False, wc_Cookies = False, wc_secret = ''k''\<rparr>, s_maxASNCache = 4\<rparr>"

definition quietState :: "string hstate" where
  "quietState = \<lparr>hs_Stats = newStats, hs_latency = \<lparr>lh_buckets = replicate 12 0, lh_total = 0\<rparr>, hs_Log = None, hs_asnCache = [], hs_asnCacheSize = 0,
     hs_RateLimiter = None, hs_NXGuard = None, hs_RepeatGuard = None, hs_IPBanner = None, hs_ClientRouter = None, hs_Cache = None, hs_L2 = [],
     hs_Ups = \<lambda>_. upstreamOf Recursive [] [] ''u''\<rparr>"

definition askA :: "string \<Rightarrow> Msg" where
  "askA nm = emptyMsg\<lparr>m_Id := 4660, m_RecursionDesired := True, m_Question := [\<lparr>q_Name = nm, q_Qtype = TypeA, q_Qclass = ClassINET\<rparr>]\<rparr>"

section \<open>Properties\<close>

text \<open>C1: no query is answered twice, whatever the world does: not when a stale answer races a slow resolution that then
  succeeds, not after a recovered crash.\<close>

theorem at_most_one_reply: "writes (fst (serve wd cfg r client proto st)) \<le> 1"
proof (cases r)
  case (Some rm)
  show ?thesis
  proof (cases "m_Question rm")
    case (Cons q qs)
    then show ?thesis using serveQuery_replies[of "ctxOf rm q client proto" wd cfg "countQuery proto st"] Some
      by (auto simp: serve_def Let_def split: stepres.splits)
  qed (simp add: serve_def Some)
qed (simp add: serve_def Let_def)



text \<open>C5: a plain-UDP source cannot block anyone for good: unless the operator trusts UDP, no query over a transport without
  a verified handshake changes the block list, whatever it asks and however the guards respond.\<close>

theorem untrusted_never_bans:
  assumes "\<not> trusted proto" "\<not> s_TrustUDP cfg"
  shows "hs_IPBanner (snd (serve wd cfg r client proto st)) = hs_IPBanner st"
proof (cases r)
  case (Some rm)
  show ?thesis
  proof (cases "m_Question rm")
    case (Cons q qs)
    have "hs_IPBanner (res_state (serveQuery wd cfg (ctxOf rm q client proto) (countQuery proto st))) = hs_IPBanner st"
      using serveQuery_banner[of "ctxOf rm q client proto" cfg wd "countQuery proto st"] assms by simp
    then show ?thesis unfolding Some by (rule serve_frame[OF Cons, rotated]) simp
  qed (simp add: serve_def Some)
qed (simp add: serve_def Let_def)

definition trapState :: "string hstate" where
  "trapState = quietState\<lparr>hs_IPBanner := Some (NewBanner [] [] [] [''trap.test''] None)\<rparr>"

theorem untrusted_never_bans_witness:
  "hs_IPBanner (snd (serve quietWorld quietSettings (Some (askA ''x.trap.test.'')) ''1.2.3.4'' ''udp'' trapState)) = hs_IPBanner trapState \<and>
   st_Honeypot (hs_Stats (snd (serve quietWorld quietSettings (Some (askA ''x.trap.test.'')) ''1.2.3.4'' ''udp'' trapState))) = 1"
proof (rule conjI)
  show "hs_IPBanner (snd (serve quietWorld quietSettings (Some (askA ''x.trap.test.'')) ''1.2.3.4'' ''udp'' trapState)) = hs_IPBanner trapState"
    by (rule untrusted_never_bans) (simp_all add: trusted_def quietSettings_def)
qed code_simp

text \<open>C4: a name the client's own group blocks never leaves the process: no forwarder is asked, no cache layer is read into
  or written, and this holds for the engine the routing table gives the client, whatever the policy cache holds.\<close>

theorem blocked_name_stays_local:
  assumes "\<forall>cr. hs_ClientRouter st = Some cr \<longrightarrow> router_reach cr" "m_Question rm = q # qs"
    "d_Action (DecideDomain (w_env wd) (clientEngine cfg st client) (q_Name q)) = Block"
  shows "sameBack st (snd (serve wd cfg (Some rm) client proto st))"
proof -
  have "sameBack (countQuery proto st) (res_state (serveQuery wd cfg (ctxOf rm q client proto) (countQuery proto st)))"
    by (rule serveQuery_blocked_back) (use assms in \<open>simp_all add: clientEngine_def\<close>)
  then show ?thesis using serve_state[OF assms(2), of wd cfg client proto st] by (auto simp: sameBack_def)
qed

definition blockSettings :: "string Settings" where
  "blockSettings = quietSettings\<lparr>s_Engine := Compile plain_env (SetUserLists plain_env [''ads.test''] [] NewEngine)\<rparr>"

theorem blocked_name_stays_local_witness:
  "sameBack quietState (snd (serve quietWorld blockSettings (Some (askA ''ads.test.'')) ''1.2.3.4'' ''udp'' quietState)) \<and>
   st_Blocked (hs_Stats (snd (serve quietWorld blockSettings (Some (askA ''ads.test.'')) ''1.2.3.4'' ''udp'' quietState))) = 1"
proof (rule conjI)
  have d: "d_Action (DecideDomain (w_env quietWorld) (clientEngine blockSettings quietState ''1.2.3.4'') ''ads.test.'') = Block" by code_simp
  show "sameBack quietState (snd (serve quietWorld blockSettings (Some (askA ''ads.test.'')) ''1.2.3.4'' ''udp'' quietState))"
    by (rule blocked_name_stays_local[where q = "\<lparr>q_Name = ''ads.test.'', q_Qtype = TypeA, q_Qclass = ClassINET\<rparr>" and qs = "[]"])
      (simp_all add: quietState_def[THEN arg_cong[where f = hs_ClientRouter]] askA_def d)
qed code_simp



text \<open>C26: a COOKIE option of 17 to 31 hexadecimal characters (8 bytes of client cookie and a server cookie shorter than 8
  bytes) from an admitted client crashes the cookie check; the recovered query is counted as an error and answered SERVFAIL,
  neither processed nor answered BADCOOKIE.\<close>

theorem short_server_cookie_crashes:
  assumes "wc_Cookies (s_write cfg)" "client \<noteq> []" "m_Question rm = q # qs" "s_ACL cfg = None"
    "IsEdns0 (w_lib wd) rm = Some i" "OPT_Version (w_lib wd) (m_Extra rm ! i) = 0"
    "16 < length (requestCookieValue (w_lib wd) rm)" "length (requestCookieValue (w_lib wd) rm) < 32"
  shows "serve wd cfg (Some rm) client proto st =
    ([Wrote (SentMsg (SetRcode (w_lib wd) rm RcodeServerFailure))], addErrors (countQuery proto st))"
  using assms by (simp add: serve_def serveQuery_def frontSteps_def aclStep_def versionStep_def cookieStep_def clientCookieHexLen_def Let_def)

definition cookieQuery :: Msg where
  "cookieQuery = (askA ''a.'')\<lparr>m_Extra := [\<lparr>rr_Hdr = \<lparr>h_Name = ''.'', h_Rrtype = TypeOPT, h_Class = 1232, h_Ttl = 0\<rparr>,
     rr_Data = OPT 1232 [EDNS0_COOKIE ''0123456789abcdef01'']\<rparr>]\<rparr>"

theorem short_server_cookie_crashes_witness:
  "st_Errors (hs_Stats (snd (serve quietWorld (quietSettings\<lparr>s_write := \<lparr>wc_Padding = False, wc_Cookies = True, wc_secret = ''k''\<rparr>\<rparr>)
     (Some cookieQuery) ''1.2.3.4'' ''tcp'' quietState))) = 1"
proof -
  let ?cfg = "quietSettings\<lparr>s_write := \<lparr>wc_Padding = False, wc_Cookies = True, wc_secret = ''k''\<rparr>\<rparr>"
  have o: "IsEdns0 (w_lib quietWorld) cookieQuery = Some 0" "OPT_Version (w_lib quietWorld) (m_Extra cookieQuery ! 0) = 0"
    "requestCookieValue (w_lib quietWorld) cookieQuery = ''0123456789abcdef01''" by code_simp+
  have q: "m_Question cookieQuery = [\<lparr>q_Name = ''a.'', q_Qtype = TypeA, q_Qclass = ClassINET\<rparr>]" by (simp add: cookieQuery_def askA_def)
  have "serve quietWorld ?cfg (Some cookieQuery) ''1.2.3.4'' ''tcp'' quietState =
      ([Wrote (SentMsg (SetRcode (w_lib quietWorld) cookieQuery RcodeServerFailure))], addErrors (countQuery ''tcp'' quietState))"
    by (rule short_server_cookie_crashes[OF _ _ q _ o(1,2)]) (simp_all add: quietSettings_def o(3))
  then show ?thesis by (simp add: withStats_def countQuery_def quietState_def newStats_def)
qed



end
