(* ===== verification/ReplyProps.thy ===== *)
theory ReplyProps
  imports PipelineProps
begin

text \<open>
  What a reply carries (\<open>Pipeline\<close>): the id of its request, on every path of the handler; and what DNSSEC enforcement, serve-stale
  and the raw cache path let through.
\<close>

section \<open>Message ids\<close>

definition idBytes :: "16 word \<Rightarrow> byte list" where
  "idBytes i = [ucast (drop_bit 8 i), ucast i]"

text \<open>What the DNS library documents about ids: replies, truncation and EDNS keep them, and a packed message starts with its id.\<close>

definition ids_doc :: "dnsLib \<Rightarrow> bool" where
  "ids_doc lib \<longleftrightarrow> SetReply_doc lib \<and>
     (\<forall>m b. Pack lib m = Some b \<longrightarrow> take 2 b = idBytes (m_Id m)) \<and> (\<forall>m n. m_Id (Truncate lib m n) = m_Id m) \<and>
     (\<forall>m s d. m_Id (SetEdns0 lib m s d) = m_Id m) \<and> (\<forall>r c. m_Id (SetRcode lib r c) = m_Id r)"

definition carries :: "16 word \<Rightarrow> sent \<Rightarrow> bool" where
  "carries i s = (case s of
       SentMsg m \<Rightarrow> m_Id m = i
     | SentBytes b \<Rightarrow> take 2 b = take (length b) (idBytes i)
     | _ \<Rightarrow> True)"

definition allCarry :: "16 word \<Rightarrow> event list \<Rightarrow> bool" where
  "allCarry i ev = list_all (\<lambda>e. case e of Wrote s \<Rightarrow> carries i s | _ \<Rightarrow> True) ev"

lemma allCarry_simps [simp]:
  "allCarry i []" "allCarry i (a @ b) \<longleftrightarrow> allCarry i a \<and> allCarry i b"
  "allCarry i (Wrote s # ev) \<longleftrightarrow> carries i s \<and> allCarry i ev"
  "allCarry i (Prefetch q # ev) = allCarry i ev" "allCarry i (Observed n x d # ev) = allCarry i ev"
  by (simp_all add: allCarry_def)

lemma allCarry_observe [simp]: "allCarry i (observeVPN wd r m)"
  by (simp add: observeVPN_def split: list.split)

lemma id_options [simp]:
  "m_Id (withOptions lib f m) = m_Id m" "m_Id (attachCookie lib m c) = m_Id m" "m_Id (attachEDE lib m code x) = m_Id m"
  "m_Id (unpadded lib m) = m_Id m" "m_Id (padMessage lib m n) = m_Id m" "m_Id (capTTL m t) = m_Id m"
  "m_Id (edeIfEdns wd cx code x m) = m_Id m"
  by (simp_all add: withOptions_def attachCookie_def attachEDE_def unpadded_def padMessage_def capTTL_def edeIfEdns_def Let_def split: option.split)

lemma id_replies:
  assumes "ids_doc lib"
  shows "m_Id (SetReply lib r) = m_Id r" "m_Id (newReply lib r) = m_Id r" "m_Id (refusedReply lib r) = m_Id r"
    "m_Id (SetRcode lib r c) = m_Id r" "m_Id (SetEdns0 lib m s d) = m_Id m" "m_Id (Truncate lib m n) = m_Id m"
    "BuildAnswer lib r rules qn qt = Some ans \<Longrightarrow> m_Id ans = m_Id r"
    "BuildBlockResponse lib r mode ttl = Some b \<Longrightarrow> m_Id b = m_Id r"
    "w_lib wd = lib \<Longrightarrow> tryProxyAnswer wd r q = Some p \<Longrightarrow> m_Id p = m_Id r"
  using assms by (auto simp: ids_doc_def SetReply_doc_def newReply_def refusedReply_def BuildAnswer_def BuildBlockResponse_def tryProxyAnswer_def Let_def
      split: list.splits if_splits option.splits)

lemma carries_writeReply:
  assumes "ids_doc lib" "m_Id m = i" shows "carries i (writeReply lib hm cfg m r proto remote)"
proof -
  have "m_Id (fitMsg lib hm cfg (m\<lparr>m_Compress := True\<rparr>) r proto remote) = i"
    using assms by (simp add: fitMsg_def Let_def id_replies)
  moreover have "carries i (SentBytes b)" if "Pack lib (m\<lparr>m_Compress := True\<rparr>) = Some b" for b
  proof -
    have t: "take 2 b = idBytes i" using assms that by (auto simp: ids_doc_def)
    have "length (take 2 b) = 2" unfolding t by (simp add: idBytes_def)
    then have "length (idBytes i) \<le> length b" by (simp add: idBytes_def)
    then show ?thesis using t by (simp add: carries_def)
  qed
  ultimately show ?thesis
    by (auto simp: writeReply_def Let_def carries_def split: option.splits)
qed

lemma carries_writeMsg: "ids_doc (w_lib wd) \<Longrightarrow> m_Id m = i \<Longrightarrow> allCarry i (writeMsg wd cfg cx m)"
  by (simp add: writeMsg_def carries_writeReply)

lemma carries_writeUnless: "ids_doc (w_lib wd) \<Longrightarrow> m_Id m = i \<Longrightarrow> allCarry i (writeUnless skip wd cfg cx m)"
  by (simp add: writeUnless_def carries_writeMsg)

text \<open>Patching TTLs past the header leaves the id alone.\<close>

definition pastHeader :: "LookupResult \<Rightarrow> bool" where
  "pastHeader res = list_all (\<lambda>off. 2 \<le> unat off) (lr_TTLOffsets res)"

lemma overwrite_take: "2 \<le> n \<Longrightarrow> n \<le> length b \<Longrightarrow> take 2 (overwrite b n x) = take 2 b"
  by (simp add: overwrite_def)

lemma patchTTLs_length: "length (patchTTLs elapsed offs b) = length b"
  by (induction elapsed offs b rule: patchTTLs.induct) (auto simp: overwrite_def put32_def Let_def)

lemma patchTTLs_take: "list_all (\<lambda>off. 2 \<le> unat off) offs \<Longrightarrow> take 2 (patchTTLs elapsed offs b) = take 2 b"
  by (induction elapsed offs b rule: patchTTLs.induct) (auto simp: overwrite_take Let_def)

lemma carries_patchRaw:
  assumes "pastHeader res"
  shows "carries i (SentBytes (patchRaw i (lr_Negative res) el (lr_TTLOffsets res) raw))"
proof -
  let ?b = "take (length raw) (overwrite raw 0 (idBytes i))"
  have l: "length ?b = length raw" by (simp add: overwrite_def idBytes_def)
  have t: "take 2 ?b = take (length raw) (idBytes i)"
    by (simp add: overwrite_def idBytes_def min_def take_Cons split: nat.split)
  have p: "patchRaw i (lr_Negative res) el (lr_TTLOffsets res) raw = (if lr_Negative res then ?b else patchTTLs el (lr_TTLOffsets res) ?b)"
    by (simp add: patchRaw_def idBytes_def Let_def)
  show ?thesis using l t assms unfolding p carries_def pastHeader_def
    by (simp add: patchTTLs_length patchTTLs_take)
qed

lemma carries_writeRaw:
  assumes "ids_doc (w_lib wd)" "pastHeader res" shows "allCarry (m_Id (cx_r cx)) (writeRaw wd cfg cx res)"
  using assms carries_patchRaw[OF assms(2), of "m_Id (cx_r cx)"]
  by (auto simp: writeRaw_def Let_def intro!: carries_writeMsg split: option.split)

section \<open>Every path\<close>

lemma frontStep_carries:
  assumes "ids_doc (w_lib wd)" "s \<in> set (frontSteps wd cfg cx)" "s st = Stop ev st'"
  shows "allCarry (m_Id (cx_r cx)) ev"
  using assms(2) assms(3,1) by (cases rule: frontStep_cases)
    (auto simp: front_defs id_replies intro!: carries_writeMsg split: option.splits list.splits prod.splits if_splits)

lemma serveStale_carries: "ids_doc (w_lib wd) \<Longrightarrow> serveStale wd cfg cx skip up stale st = Some (ev, st') \<Longrightarrow> allCarry (m_Id (cx_r cx)) ev"
  by (auto simp: serveStale_def Let_def intro!: carries_writeUnless split: option.splits)

lemma end_carries:
  assumes "ids_doc (w_lib wd)"
  shows "allCarry (m_Id (cx_r cx)) (res_events (failResolve wd cfg cx skip stale err up st))"
    "allCarry (m_Id (cx_r cx)) (res_events (rejectDNSSEC wd cfg cx skip reason up st))"
    "allCarry (m_Id (cx_r cx)) (res_events (allowAnswer wd cfg cx skip up resp st))"
    "allCarry (m_Id (cx_r cx)) (res_events (blockQuery wd cfg cx skip reason up st))"
  using assms by (auto simp: failResolve_def rejectDNSSEC_def allowAnswer_def blockQuery_def id_replies Let_def
      intro!: carries_writeUnless split: option.split)

lemma tryStale_carries:
  assumes "ids_doc (w_lib wd)" "allCarry (m_Id (cx_r cx)) (res_events els)"
  shows "allCarry (m_Id (cx_r cx)) (res_events (case (if c then serveStale wd cfg cx skip up stale st else None) of Some (ev, st'') \<Rightarrow> Stop ev st'' | None \<Rightarrow> els))"
proof (cases "if c then serveStale wd cfg cx skip up stale st else None")
  case (Some x)
  then show ?thesis using serveStale_carries[OF assms(1), of cfg cx skip up stale st "fst x" "snd x"] by (cases x) (auto split: if_splits)
qed (use assms(2) in simp)

lemma finishResolve_carries:
  assumes d: "ids_doc (w_lib wd)"
  shows "allCarry (m_Id (cx_r cx)) (res_events (finishResolve wd cfg cx engine wl skip stale res st))"
proof -
  note e = end_carries[OF d, of cx cfg]
  have r: "allCarry (m_Id (cx_r cx)) (res_events (case dnssecCheck wd cfg store up resp of
        Inl reason \<Rightarrow> rejectDNSSEC wd cfg cx skip reason up st1
      | Inr resp' \<Rightarrow> (case answerBlock wd cfg engine wl resp' of
            Some reason \<Rightarrow> blockQuery wd cfg cx skip reason up st1
          | None \<Rightarrow> allowAnswer wd cfg cx skip up resp' st1)))" for store up resp st1
    by (simp add: e split: sum.split option.split)
  show ?thesis
  proof (cases res)
    case (Inl a)
    then show ?thesis by (cases a) (simp add: finishResolve_def Let_def tryStale_carries[OF d] e)
  next
    case (Inr b)
    obtain m up where b: "b = (m, up)" by (cases b)
    show ?thesis
    proof (cases m)
      case None
      then show ?thesis by (simp add: finishResolve_def Let_def Inr b tryStale_carries[OF d] e)
    next
      case (Some resp)
      show ?thesis unfolding finishResolve_def Let_def Inr b Some sum.case prod.case option.case(2)
        by (rule if_split[where P = "\<lambda>x. allCarry _ (res_events x)", THEN iffD2], intro conjI impI tryStale_carries[OF d] r)
    qed
  qed
qed

lemma forwardStage_carries:
  assumes d: "ids_doc (w_lib wd)"
  shows "allCarry (m_Id (cx_r cx)) (res_events (forwardStage wd cfg cx engine ptrs wl stale st))"
proof -
  obtain res st1 where r: "resolveRefs wd cfg (cx_r cx) (upstreamQuery wd cfg (cx_r cx)) ptrs st = (res, st1)" by fastforce
  note f = finishResolve_carries[OF d, of cx cfg engine wl _ stale res]
  show ?thesis
  proof (cases "lr_Raw stale \<noteq> [] \<and> w_staleTimer wd")
    case False
    then show ?thesis using f r by (auto simp: forwardStage_def)
  next
    case True
    show ?thesis
    proof (cases "serveStale wd cfg cx False [] stale st1")
      case None
      then show ?thesis using f r True by (simp add: forwardStage_def)
    next
      case (Some x)
      obtain ev st2 where x: "x = (ev, st2)" by (cases x)
      then show ?thesis using f[of True st2] r True Some serveStale_carries[OF d, of cfg cx False "[]" stale st1 ev st2]
        by (auto simp: forwardStage_def split: stepres.split)
    qed
  qed
qed

text \<open>What a lookup of the query's question returns has its TTLs past the header.\<close>

definition cachePastHeader :: "'re world \<Rightarrow> Question \<Rightarrow> 're hstate \<Rightarrow> bool" where
  "cachePastHeader wd q st = (case hs_Cache st of None \<Rightarrow> True | Some c \<Rightarrow> pastHeader (fst (Lookup c q (w_now wd) (w_mget wd))))"

lemma cacheStage_carries:
  assumes "ids_doc (w_lib wd)" "cachePastHeader wd (cx_q cx) st"
  shows "allCarry (m_Id (cx_r cx)) (res_events (fst (cacheStage wd cfg cx st)))"
  using assms by (auto simp: cacheStage_def cachePastHeader_def Let_def carries_writeRaw split: option.splits prod.splits)

lemma serveQuery_carries:
  assumes d: "ids_doc (w_lib wd)" and c: "cachePastHeader wd (cx_q cx) st"
  shows "allCarry (m_Id (cx_r cx)) (res_events (serveQuery wd cfg cx st))"
proof (cases "runSteps (frontSteps wd cfg cx) st")
  case (Stop ev st')
  obtain s st0 where "s \<in> set (frontSteps wd cfg cx)" "s st0 = Stop ev st'" using runSteps_Stop[OF Stop] by blast
  from frontStep_carries[OF d this] show ?thesis using Stop by (simp add: serveQuery_def)
next
  case (Crash st')
  then show ?thesis by (simp add: serveQuery_def)
next
  case (Next st1)
  obtain engine ups st2 where p: "choosePolicy cfg (cx_client cx) st1 = ((engine, ups), st2)" by (metis surj_pair)
  have "hs_Cache st2 = hs_Cache st"
    using choosePolicy_frame(2)[of cfg "cx_client cx" st1] p front_frame(1)[of wd cfg cx st] Next by simp
  then have "cachePastHeader wd (cx_q cx) st2" using c by (simp add: cachePastHeader_def)
  note cs = cacheStage_carries[OF d this, of cfg]
  obtain x stale where x: "cacheStage wd cfg cx st2 = (x, stale)" by fastforce
  show ?thesis using cs x Next p end_carries(4)[OF d] forwardStage_carries[OF d]
    by (cases x) (simp_all add: serveQuery_def Let_def)
qed

section \<open>Records built here\<close>

text \<open>A record whose data fits its type: four bytes in an A record, sixteen in an AAAA record.\<close>

definition rr_typed :: "RR \<Rightarrow> bool" where
  "rr_typed rr = (case rr_Data rr of
       A ip \<Rightarrow> h_Rrtype (rr_Hdr rr) = TypeA \<and> length ip = 4
     | AAAA ip \<Rightarrow> h_Rrtype (rr_Hdr rr) = TypeAAAA \<and> length ip = 16
     | CNAME _ \<Rightarrow> h_Rrtype (rr_Hdr rr) = TypeCNAME
     | HINFO _ _ \<Rightarrow> h_Rrtype (rr_Hdr rr) = TypeHINFO
     | PTR _ \<Rightarrow> h_Rrtype (rr_Hdr rr) = TypePTR
     | _ \<Rightarrow> True)"

lemma ParseIP_length: "ParseIP s \<noteq> [] \<Longrightarrow> length (ParseIP s) = 16"
  by (auto simp: ParseIP_def To16_def v4InV6Prefix_def split: option.splits if_splits)

lemma blockAnswerRR_typed: "length ip = 16 \<Longrightarrow> blockAnswerRR q ip ttl = Some rr \<Longrightarrow> rr_typed rr"
  by (auto simp: blockAnswerRR_def rr_typed_def IPv4zero_def IPv6zero_def To4_length Let_def split: if_splits)

lemma ruleRR_typed: "ruleRR lib qn qt ru = Some rr \<Longrightarrow> rr_typed rr"
  by (auto simp: ruleRR_def rr_typed_def To4_length ParseIP_length Let_def split: if_splits)

lemma hostRR_typed: "hostRR q ip = Some rr \<Longrightarrow> rr_typed rr"
  by (auto simp: hostRR_def inetRR_def rr_typed_def To4_length split: if_splits)

lemma map_filter_typed: "(\<And>x rr. f x = Some rr \<Longrightarrow> rr_typed rr) \<Longrightarrow> list_all rr_typed (List.map_filter f xs)"
  by (auto simp: list_all_iff map_filter_def)

section \<open>Properties\<close>


definition idLib :: dnsLib where
  "idLib = simpleLib\<lparr>Pack := \<lambda>m. Some (idBytes (m_Id m) @ replicate 10 0)\<rparr>"

lemma idLib_doc: "ids_doc idLib"
  using simpleLib_doc(1) by (simp add: ids_doc_def idLib_def SetReply_doc_def simpleLib_def simpleReply_def idBytes_def)


text \<open>The exception: the FORMERR reply to a message without a question is built from scratch and carries id 0, not the
  id of the message.\<close>

theorem formerr_loses_id:
  assumes "ids_doc (w_lib wd)" "m_Question rm = []"
  shows "allCarry 0 (fst (serve wd cfg (Some rm) client proto st)) \<and> writes (fst (serve wd cfg (Some rm) client proto st)) = 1"
  using assms by (simp add: serve_def Let_def carries_writeReply formErr_def emptyMsg_def)

theorem formerr_loses_id_witness:
  "fst (serve (quietWorld\<lparr>w_lib := idLib\<rparr>) quietSettings (Some (emptyMsg\<lparr>m_Id := 0x1234\<rparr>)) ''1.2.3.4'' ''tcp'' quietState) =
     [Wrote (SentBytes (0 # 0 # replicate 10 0))] \<and>
   allCarry 0 (fst (serve (quietWorld\<lparr>w_lib := idLib\<rparr>) quietSettings (Some (emptyMsg\<lparr>m_Id := 0x1234\<rparr>)) ''1.2.3.4'' ''tcp'' quietState))"
proof (rule conjI)
  have "ids_doc (w_lib (quietWorld\<lparr>w_lib := idLib\<rparr>))" by (simp add: idLib_doc)
  then show "allCarry 0 (fst (serve (quietWorld\<lparr>w_lib := idLib\<rparr>) quietSettings (Some (emptyMsg\<lparr>m_Id := 0x1234\<rparr>)) ''1.2.3.4'' ''tcp'' quietState))"
    by (rule formerr_loses_id[THEN conjunct1]) (simp add: emptyMsg_def)
qed code_simp

text \<open>Nobody vouches for an answer: the upstream did not set AD, and local validation, where it runs, does not find it secure.\<close>

definition unvouched :: "'re world \<Rightarrow> 're Settings \<Rightarrow> Msg \<Rightarrow> bool" where
  "unvouched wd cfg resp \<longleftrightarrow> \<not> m_AuthenticatedData resp \<and>
     (case w_validator wd of None \<Rightarrow> True | Some validate \<Rightarrow> s_DNSSECValidateLocally cfg \<longrightarrow> (\<forall>u. validate u resp \<noteq> Some (True, True)))"

lemma unvouched_rejected:
  assumes "s_DNSSECEnabled cfg" "s_DNSSECRequireAD cfg" "unvouched wd cfg resp"
  shows "\<exists>reason. dnssecCheck wd cfg store up resp = Inl reason"
  using assms by (auto simp: unvouched_def dnssecCheck_def Let_def split: option.splits prod.splits)

text \<open>C8: with DNSSEC enforcement on, an answer that neither the upstream authenticated nor local validation found secure
  (validation off, impossible, incomplete, or failed) is never given to the client nor cached by the query that fetched it; but the background refresh of the same question stores it without the check, for every later
  query to be served from.\<close>

theorem require_ad_live_and_refresh:
  assumes "s_DNSSECEnabled cfg" "s_DNSSECRequireAD cfg"
    and "unvouched wd cfg resp" "m_Answer resp \<noteq> []" "lr_Raw stale = []"
    and "hs_Cache st = Some c" "routeUpstreams cfg (CanonicalDomain (q_Name q)) (s_Upstreams cfg) \<noteq> []"
    and "fst (resolveRefs wd cfg ((SetQuestion (w_lib wd) (q_Name q) (q_Qtype q) (w_Id wd))\<lparr>m_RecursionDesired := True\<rparr>)
        ((SetQuestion (w_lib wd) (q_Name q) (q_Qtype q) (w_Id wd))\<lparr>m_RecursionDesired := True\<rparr>)
        (routeUpstreams cfg (CanonicalDomain (q_Name q)) (s_Upstreams cfg)) st) = Inr (Some resp, up)"
  shows "res_events (finishResolve wd cfg cx engine wl False stale (Inr (Some resp, up)) st) =
      writeMsg wd cfg cx ((newReply (w_lib wd) (cx_r cx))\<lparr>m_Rcode := RcodeServerFailure\<rparr>)
    \<and> hs_Cache (res_state (finishResolve wd cfg cx engine wl False stale (Inr (Some resp, up)) st)) = Some c
    \<and> hs_Cache (snd (resolveAndCache wd cfg q st)) = Some (fst (Cache_Set (w_lib wd) c q resp 0 (w_later wd)))"
proof -
  let ?st1 = "if m_Rcode resp = RcodeNameError then noteNX (cx_client cx) (w_later wd) st else st"
  obtain reason where "dnssecCheck wd cfg (hs_Ups ?st1) up resp = Inl reason"
    using unvouched_rejected[OF assms(1-3)] by blast
  then have live: "finishResolve wd cfg cx engine wl False stale (Inr (Some resp, up)) st = rejectDNSSEC wd cfg cx False reason up ?st1"
    using assms(5) by (simp add: finishResolve_def Let_def)
  let ?m = "(SetQuestion (w_lib wd) (q_Name q) (q_Qtype q) (w_Id wd))\<lparr>m_RecursionDesired := True\<rparr>"
  obtain st1 where r: "resolveRefs wd cfg ?m ?m (routeUpstreams cfg (CanonicalDomain (q_Name q)) (s_Upstreams cfg)) st = (Inr (Some resp, up), st1)"
    using assms(8) by (metis prod.collapse)
  then have c: "hs_Cache st1 = Some c" using assms(6) by (auto simp: resolveRefs_def split: prod.splits)
  have "hs_Cache (snd (resolveAndCache wd cfg q st)) = Some (fst (Cache_Set (w_lib wd) c q resp 0 (w_later wd)))"
    using assms(4,6,7) r c by (simp add: resolveAndCache_def storeCache_def Let_def split: prod.split)
  then show ?thesis using assms(6) by (simp add: live rejectDNSSEC_def writeUnless_def recordMsg_def Let_def)
qed

definition forgedAnswer :: Msg where
  "forgedAnswer = emptyMsg\<lparr>m_Response := True, m_Answer := [inetRR ''a.'' TypeA 300 (A [6, 6, 6, 6])]\<rparr>"

definition adSettings :: "string Settings" where
  "adSettings = quietSettings\<lparr>s_DNSSECEnabled := True, s_DNSSECRequireAD := True\<rparr>"

theorem require_ad_live_and_refresh_witness:
  "hs_Cache (snd (resolveAndCache (quietWorld\<lparr>w_net := \<lambda>_. recursiveNet (Inr (Some forgedAnswer))\<rparr>) adSettings
      \<lparr>q_Name = ''a.'', q_Qtype = TypeA, q_Qclass = ClassINET\<rparr> (quietState\<lparr>hs_Cache := Some (NewLocalOnly (60 * Second) (30 * Second) 16 0)\<rparr>))) =
   Some (fst (Cache_Set simpleLib (NewLocalOnly (60 * Second) (30 * Second) 16 0) \<lparr>q_Name = ''a.'', q_Qtype = TypeA, q_Qclass = ClassINET\<rparr>
      (forgedAnswer\<lparr>m_Id := 77\<rparr>) 0 0))"
proof -
  let ?w = "quietWorld\<lparr>w_net := \<lambda>_. recursiveNet (Inr (Some forgedAnswer))\<rparr>" and ?c = "NewLocalOnly (60 * Second) (30 * Second) 16 0"
  let ?q = "\<lparr>q_Name = ''a.'', q_Qtype = TypeA, q_Qclass = ClassINET\<rparr>"
  let ?m = "(SetQuestion (w_lib ?w) (q_Name ?q) (q_Qtype ?q) (w_Id ?w))\<lparr>m_RecursionDesired := True\<rparr>"
  let ?s = "quietState\<lparr>hs_Cache := Some ?c\<rparr>"
  have 1: "s_DNSSECEnabled adSettings" "s_DNSSECRequireAD adSettings"
    by (simp_all add: adSettings_def quietSettings_def)
  have 2: "unvouched ?w adSettings (forgedAnswer\<lparr>m_Id := 77\<rparr>)" "m_Answer (forgedAnswer\<lparr>m_Id := 77\<rparr>) \<noteq> []" "lr_Raw missResult = []"
    by (simp_all add: unvouched_def quietWorld_def forgedAnswer_def emptyMsg_def missResult_def)
  have 3: "hs_Cache ?s = Some ?c" "routeUpstreams adSettings (CanonicalDomain (q_Name ?q)) (s_Upstreams adSettings) \<noteq> []" by (simp, code_simp)
  have 4: "fst (resolveRefs ?w adSettings ?m ?m (routeUpstreams adSettings (CanonicalDomain (q_Name ?q)) (s_Upstreams adSettings)) ?s) =
      Inr (Some (forgedAnswer\<lparr>m_Id := 77\<rparr>), ''u'')"
    by code_simp
  from require_ad_live_and_refresh[OF 1 2 3 4, THEN conjunct2, THEN conjunct2] show ?thesis by (simp add: quietWorld_def)
qed

text \<open>A stale entry that cannot be decoded costs the client its answer: when the stale timer wins, nothing is written, and
  the resolution that follows writes nothing either, even when it succeeds.\<close>

theorem undecodable_stale_silences:
  assumes "m_Question (cx_r cx) \<noteq> []" "lr_Raw stale \<noteq> []" "w_staleTimer wd" "resultMsg (w_lib wd) stale (w_later wd) = None"
  shows "writes (res_events (forwardStage wd cfg cx engine ptrs wl stale st)) = 0"
proof -
  obtain res st1 where r: "resolveRefs wd cfg (cx_r cx) (upstreamQuery wd cfg (cx_r cx)) ptrs st = (res, st1)" by fastforce
  have s: "serveStale wd cfg cx False [] stale st1 = None" using assms(4) by (simp add: serveStale_def)
  from finishResolve_replies[OF assms(1), of True wd cfg engine wl stale res st1]
  show ?thesis using assms(2,3) r s by (cases "finishResolve wd cfg cx engine wl True stale res st1") (simp_all add: forwardStage_def replies_def)
qed

theorem undecodable_stale_silences_witness:
  "writes (res_events (forwardStage (quietWorld\<lparr>w_staleTimer := True, w_lib := simpleLib\<lparr>Unpack := \<lambda>_. None\<rparr>, w_net := \<lambda>_. recursiveNet (Inr (Some forgedAnswer))\<rparr>)
     quietSettings (ctxOf (askA ''a.'') \<lparr>q_Name = ''a.'', q_Qtype = TypeA, q_Qclass = ClassINET\<rparr> ''1.2.3.4'' ''tcp'') NewEngine [''u''] False
     (missResult\<lparr>lr_Raw := [1, 2, 3], lr_Stale := True\<rparr>) quietState)) = 0"
  by (rule undecodable_stale_silences) (simp_all add: askA_def resultMsg_def missResult_def unpackEntry_def Let_def)

text \<open>The VPN router is not told of answers served from the cache: the raw path observes nothing, whatever addresses the
  stored answer holds, while the same answer written as a message is observed.\<close>

theorem raw_hits_not_observed:
  assumes "w_hasVPN wd" "m_Question (cx_r cx) \<noteq> []" "answerIPs m \<noteq> []"
    and "lr_Negative res \<or> lr_TTLOffsets res \<noteq> []" "\<not> needsPad (s_write cfg) (cx_proto cx)"
    "\<not> needsCookie (w_lib wd) (s_write cfg) (Some (cx_r cx))" "cx_proto cx \<noteq> ''udp''"
  shows "list_all (\<lambda>e. case e of Observed _ _ _ \<Rightarrow> False | _ \<Rightarrow> True) (writeRaw wd cfg cx res) \<and>
    list_ex (\<lambda>e. case e of Observed _ ips _ \<Rightarrow> ips = answerIPs m | _ \<Rightarrow> False) (writeMsg wd cfg cx m)"
  using assms by (cases "m_Question (cx_r cx)") (simp_all add: writeRaw_def writeMsg_def observeVPN_def Let_def)

theorem raw_hits_not_observed_witness:
  "list_all (\<lambda>e. case e of Observed _ _ _ \<Rightarrow> False | _ \<Rightarrow> True)
     (writeRaw (quietWorld\<lparr>w_hasVPN := True\<rparr>) quietSettings (ctxOf (askA ''a.'') \<lparr>q_Name = ''a.'', q_Qtype = TypeA, q_Qclass = ClassINET\<rparr> ''1.2.3.4'' ''tcp'')
       (missResult\<lparr>lr_Raw := replicate 20 0, lr_TTLOffsets := [14]\<rparr>))"
  by (rule raw_hits_not_observed[where m = forgedAnswer, THEN conjunct1])
    (simp_all add: askA_def quietSettings_def needsPad_def needsCookie_def forgedAnswer_def emptyMsg_def inetRR_def answerIPs_def map_filter_simps)



end
