(* ===== verification/HandlerSettings.thy ===== *)
theory HandlerSettings
  imports Policy Forwarding
begin

text \<open>
  The handler's hot-swappable settings (\<^verbatim>\<open>handlerSettings\<close>, \<^verbatim>\<open>swapSettings\<close> and the \<^verbatim>\<open>Set*\<close> methods of
  \<^verbatim>\<open>internal/dnsserver/handler.go\<close>): one immutable snapshot that a setter copies, changes in one place and publishes. The components a
  snapshot points at are references.
\<close>

type_synonym ref = nat

record handlerSettings =
  ns_Upstreams :: "string list"
  ns_UpstreamMode :: string
  ns_UpstreamRoutes :: "UpstreamRoute list"
  ns_BlockResponse :: string
  ns_BlockTTL :: "32 word"
  ns_Timeout :: duration
  ns_FailureTTL :: duration
  ns_Cache :: "ref option"
  ns_Rewriter :: ref
  ns_ClientRouter :: ref
  ns_RateLimiter :: "ref option"
  ns_NXGuard :: "ref option"
  ns_RepeatGuard :: "ref option"
  ns_Geo :: "ref option"
  ns_IPBanner :: "ref option"
  ns_ACL :: "ref option"
  ns_UpstreamHealthCheck :: bool
  ns_DNSSECValidateLocally :: bool
  ns_TrustUDP :: bool
  ns_HoneypotUDPBlock :: duration
  ns_RepeatQueryBlockFor :: duration
  ns_RepeatQueryUDPBlockFor :: duration
  ns_DNSSECEnabled :: bool
  ns_DNSSECRequireAD :: bool
  ns_CNAMECloakingProtection :: bool

text \<open>The handler: its snapshot, the two switches outside it, the memo of client networks, and the forwarders closed so far.\<close>

record Handler =
  hd_settings :: handlerSettings
  hd_Padding :: bool
  hd_Cookies :: bool
  hd_asnCache :: "(string, 32 word) gomap"
  hd_asnCacheSize :: int
  hd_closed :: "string list"

definition NewHandler :: "ref option \<Rightarrow> string list \<Rightarrow> string \<Rightarrow> 32 word \<Rightarrow> duration \<Rightarrow> ref \<Rightarrow> ref \<Rightarrow> Handler" where
  "NewHandler c ups blockResp blockTTL timeout rw cr =
     \<lparr>hd_settings = \<lparr>ns_Upstreams = ups, ns_UpstreamMode = UpstreamModeRace, ns_UpstreamRoutes = [], ns_BlockResponse = blockResp, ns_BlockTTL = blockTTL,
        ns_Timeout = timeout, ns_FailureTTL = 0, ns_Cache = c, ns_Rewriter = rw, ns_ClientRouter = cr, ns_RateLimiter = None, ns_NXGuard = None,
        ns_RepeatGuard = None, ns_Geo = None, ns_IPBanner = None, ns_ACL = None, ns_UpstreamHealthCheck = False, ns_DNSSECValidateLocally = False,
        ns_TrustUDP = False, ns_HoneypotUDPBlock = 0, ns_RepeatQueryBlockFor = 0, ns_RepeatQueryUDPBlockFor = 0, ns_DNSSECEnabled = False,
        ns_DNSSECRequireAD = False, ns_CNAMECloakingProtection = False\<rparr>,
      hd_Padding = False, hd_Cookies = False, hd_asnCache = [], hd_asnCacheSize = 0, hd_closed = []\<rparr>"

section \<open>Routes\<close>

record RouteSpec =
  rs_Domain :: string
  rs_Upstreams :: "string list"

fun parseAll :: "(string \<Rightarrow> 'e + 'u) \<Rightarrow> string list \<Rightarrow> 'e + 'u list" where
  "parseAll parse [] = Inr []"
| "parseAll parse (s # ss) =
     (case parse s of Inl e \<Rightarrow> Inl e | Inr u \<Rightarrow> (case parseAll parse ss of Inl e \<Rightarrow> Inl e | Inr us \<Rightarrow> Inr (u # us)))"

fun ParseRoutes :: "(string \<Rightarrow> 'e + string) \<Rightarrow> RouteSpec list \<Rightarrow> (string \<times> 'e) + UpstreamRoute list" where
  "ParseRoutes parse [] = Inr []"
| "ParseRoutes parse (s # ss) =
     (case parseAll parse (rs_Upstreams s) of
        Inl e \<Rightarrow> Inl (rs_Domain s, e)
      | Inr ups \<Rightarrow>
          (case ParseRoutes parse ss of
             Inl e \<Rightarrow> Inl e
           | Inr rts \<Rightarrow> Inr (\<lparr>ur_Domain = CanonicalDomain (rs_Domain s), ur_Upstreams = ups\<rparr> # rts)))"

section \<open>Publishing a snapshot\<close>

text \<open>\<^verbatim>\<open>swapSettings\<close>: \<open>cleanup\<close> gives the forwarders of the snapshot being replaced that are closed.\<close>

definition swapSettings :: "handlerSettings \<Rightarrow> (handlerSettings \<Rightarrow> string list) \<Rightarrow> Handler \<Rightarrow> Handler" where
  "swapSettings ns cleanup h =
     h\<lparr>hd_settings := ns, hd_closed := hd_closed h @ cleanup (hd_settings h), hd_asnCache := [], hd_asnCacheSize := 0\<rparr>"

definition SetUpstreamRoutes :: "UpstreamRoute list \<Rightarrow> Handler \<Rightarrow> Handler" where
  "SetUpstreamRoutes routes h =
     swapSettings ((hd_settings h)\<lparr>ns_UpstreamRoutes := routes\<rparr>) (\<lambda>old. concat (map ur_Upstreams (ns_UpstreamRoutes old))) h"

definition SetUpstreams :: "string list \<Rightarrow> Handler \<Rightarrow> Handler" where
  "SetUpstreams ups h = swapSettings ((hd_settings h)\<lparr>ns_Upstreams := ups\<rparr>) ns_Upstreams h"

definition SetBlockPolicy :: "string \<Rightarrow> 32 word \<Rightarrow> Handler \<Rightarrow> Handler" where
  "SetBlockPolicy resp ttl h = swapSettings ((hd_settings h)\<lparr>ns_BlockResponse := resp, ns_BlockTTL := ttl\<rparr>) (\<lambda>_. []) h"

definition SetTimeout :: "duration \<Rightarrow> Handler \<Rightarrow> Handler" where
  "SetTimeout d h = swapSettings ((hd_settings h)\<lparr>ns_Timeout := d\<rparr>) (\<lambda>_. []) h"

definition SetUpstreamMode :: "string \<Rightarrow> Handler \<Rightarrow> Handler" where
  "SetUpstreamMode mode h = swapSettings ((hd_settings h)\<lparr>ns_UpstreamMode := mode\<rparr>) (\<lambda>_. []) h"

definition SetFailureTTL :: "duration \<Rightarrow> Handler \<Rightarrow> Handler" where
  "SetFailureTTL d h = swapSettings ((hd_settings h)\<lparr>ns_FailureTTL := d\<rparr>) (\<lambda>_. []) h"

definition SetCache :: "ref option \<Rightarrow> Handler \<Rightarrow> Handler" where
  "SetCache c h = swapSettings ((hd_settings h)\<lparr>ns_Cache := c\<rparr>) (\<lambda>_. []) h"

definition SetRewriter :: "ref \<Rightarrow> Handler \<Rightarrow> Handler" where
  "SetRewriter rw h = swapSettings ((hd_settings h)\<lparr>ns_Rewriter := rw\<rparr>) (\<lambda>_. []) h"

definition SetClientRouter :: "ref \<Rightarrow> Handler \<Rightarrow> Handler" where
  "SetClientRouter cr h = swapSettings ((hd_settings h)\<lparr>ns_ClientRouter := cr\<rparr>) (\<lambda>_. []) h"

definition SetRateLimiter :: "ref option \<Rightarrow> Handler \<Rightarrow> Handler" where
  "SetRateLimiter rl h = swapSettings ((hd_settings h)\<lparr>ns_RateLimiter := rl\<rparr>) (\<lambda>_. []) h"

definition SetNXGuard :: "ref option \<Rightarrow> Handler \<Rightarrow> Handler" where
  "SetNXGuard g h = swapSettings ((hd_settings h)\<lparr>ns_NXGuard := g\<rparr>) (\<lambda>_. []) h"

definition SetRepeatGuard :: "ref option \<Rightarrow> Handler \<Rightarrow> Handler" where
  "SetRepeatGuard g h = swapSettings ((hd_settings h)\<lparr>ns_RepeatGuard := g\<rparr>) (\<lambda>_. []) h"

definition SetRepeatQueryBlockFor :: "duration \<Rightarrow> Handler \<Rightarrow> Handler" where
  "SetRepeatQueryBlockFor d h = swapSettings ((hd_settings h)\<lparr>ns_RepeatQueryBlockFor := d\<rparr>) (\<lambda>_. []) h"

definition SetRepeatQueryUDPBlockFor :: "duration \<Rightarrow> Handler \<Rightarrow> Handler" where
  "SetRepeatQueryUDPBlockFor d h = swapSettings ((hd_settings h)\<lparr>ns_RepeatQueryUDPBlockFor := d\<rparr>) (\<lambda>_. []) h"

definition SetGeo :: "ref option \<Rightarrow> Handler \<Rightarrow> Handler" where
  "SetGeo g h = swapSettings ((hd_settings h)\<lparr>ns_Geo := g\<rparr>) (\<lambda>_. []) h"

definition SetIPBanner :: "ref option \<Rightarrow> Handler \<Rightarrow> Handler" where
  "SetIPBanner b h = swapSettings ((hd_settings h)\<lparr>ns_IPBanner := b\<rparr>) (\<lambda>_. []) h"

definition SetACL :: "ref option \<Rightarrow> Handler \<Rightarrow> Handler" where
  "SetACL a h = swapSettings ((hd_settings h)\<lparr>ns_ACL := a\<rparr>) (\<lambda>_. []) h"

definition SetDNSSECValidateLocally :: "bool \<Rightarrow> Handler \<Rightarrow> Handler" where
  "SetDNSSECValidateLocally enabled h = swapSettings ((hd_settings h)\<lparr>ns_DNSSECValidateLocally := enabled\<rparr>) (\<lambda>_. []) h"

definition SetUpstreamHealthCheck :: "bool \<Rightarrow> Handler \<Rightarrow> Handler" where
  "SetUpstreamHealthCheck enabled h = swapSettings ((hd_settings h)\<lparr>ns_UpstreamHealthCheck := enabled\<rparr>) (\<lambda>_. []) h"

definition SetTrustUDP :: "bool \<Rightarrow> Handler \<Rightarrow> Handler" where
  "SetTrustUDP on h = swapSettings ((hd_settings h)\<lparr>ns_TrustUDP := on\<rparr>) (\<lambda>_. []) h"

definition SetHoneypotUDPBlock :: "duration \<Rightarrow> Handler \<Rightarrow> Handler" where
  "SetHoneypotUDPBlock d h = swapSettings ((hd_settings h)\<lparr>ns_HoneypotUDPBlock := d\<rparr>) (\<lambda>_. []) h"

definition SetDNSSEC :: "bool \<Rightarrow> bool \<Rightarrow> Handler \<Rightarrow> Handler" where
  "SetDNSSEC enabled requireAD h = swapSettings ((hd_settings h)\<lparr>ns_DNSSECEnabled := enabled, ns_DNSSECRequireAD := requireAD\<rparr>) (\<lambda>_. []) h"

definition SetCNAMECloakingProtection :: "bool \<Rightarrow> Handler \<Rightarrow> Handler" where
  "SetCNAMECloakingProtection enabled h = swapSettings ((hd_settings h)\<lparr>ns_CNAMECloakingProtection := enabled\<rparr>) (\<lambda>_. []) h"

definition SetPadding :: "bool \<Rightarrow> Handler \<Rightarrow> Handler" where
  "SetPadding on h = h\<lparr>hd_Padding := on\<rparr>"

definition SetCookies :: "bool \<Rightarrow> Handler \<Rightarrow> Handler" where
  "SetCookies on h = h\<lparr>hd_Cookies := on\<rparr>"

lemmas setter_defs = SetUpstreamRoutes_def SetUpstreams_def SetBlockPolicy_def SetTimeout_def SetUpstreamMode_def SetFailureTTL_def SetCache_def SetRewriter_def SetClientRouter_def SetRateLimiter_def SetNXGuard_def SetRepeatGuard_def SetRepeatQueryBlockFor_def SetRepeatQueryUDPBlockFor_def SetGeo_def SetIPBanner_def SetACL_def SetDNSSECValidateLocally_def SetUpstreamHealthCheck_def SetTrustUDP_def SetHoneypotUDPBlock_def SetDNSSEC_def SetCNAMECloakingProtection_def SetPadding_def SetCookies_def

section \<open>In sequence and interleaved\<close>

text \<open>The setters take the settings snapshot outside the lock that serialises its publication, so two of them that overlap
  lose an update: a change of the block policy that began before a change of the forwarders and is published after it brings
  back the old forwarders, every one of which the other setter has closed, and drops the new ones without closing them.\<close>

theorem overlapping_setters_lose_update:
  "let nsA = (hd_settings h)\<lparr>ns_BlockResponse := resp, ns_BlockTTL := ttl\<rparr>;
       h' = swapSettings nsA (\<lambda>_. []) (SetUpstreams ups h)
   in ns_Upstreams (hd_settings h') = ns_Upstreams (hd_settings h) \<and>
      set (ns_Upstreams (hd_settings h')) \<subseteq> set (hd_closed h') \<and>
      hd_closed h' = hd_closed h @ ns_Upstreams (hd_settings h) \<and>
      hd_settings (SetUpstreams ups (SetBlockPolicy resp ttl h)) = nsA\<lparr>ns_Upstreams := ups\<rparr>"
  by (simp add: setter_defs swapSettings_def Let_def)

end
