(* ===== verification/Dhcp.thy ===== *)
theory Dhcp
  imports GeoTable DnsMsg
begin

unbundle bit_operations_syntax

text \<open>
  The DHCP server of \<^verbatim>\<open>internal/dhcp\<close>: configuration and its validation, lease table, address pool and persistence
  (\<^verbatim>\<open>dhcp.go\<close>, \<^verbatim>\<open>pool.go\<close>, the DHCP part of \<^verbatim>\<open>Config.Validate\<close>). A lease is an object that two maps point to, and a
  renewal changes it in place, so leases live in a store and the maps hold references. Every operation holds the server's
  mutex and is one step; the clock is an argument. Go iterates its maps in any order, the model in the order of insertion.
\<close>

section \<open>Hardware addresses\<close>

definition hex_char :: "nat \<Rightarrow> char" where
  "hex_char n = (if n < 10 then char_of (48 + n) else char_of (87 + n))"

definition hex_byte :: "byte \<Rightarrow> string" where
  "hex_byte b = [hex_char (unat b div 16), hex_char (unat b mod 16)]"

text \<open>\<^verbatim>\<open>HardwareAddr.String\<close>, and \<^verbatim>\<open>hex.EncodeToString\<close>.\<close>

definition HW_String :: "byte list \<Rightarrow> string" where
  "HW_String hw = join_with '':'' (map hex_byte hw)"

definition hex_EncodeToString :: "byte list \<Rightarrow> string" where
  "hex_EncodeToString bs = concat (map hex_byte bs)"

text \<open>\<^verbatim>\<open>net.ParseMAC\<close>: pairs of hexadecimal digits separated by colons or hyphens, or groups of four separated by dots, for 6, 8 or 20 bytes.\<close>

definition xtoi2 :: "char \<Rightarrow> char \<Rightarrow> byte option" where
  "xtoi2 a b = (case (hex_val a, hex_val b) of (Some x, Some y) \<Rightarrow> Some (of_nat (x * 16 + y)) | _ \<Rightarrow> None)"

fun mac_pairs :: "char \<Rightarrow> string \<Rightarrow> byte list option" where
  "mac_pairs sep [a, b] = map_option (\<lambda>x. [x]) (xtoi2 a b)"
| "mac_pairs sep (a # b # c # r) =
     (if c \<noteq> sep then None
      else case (xtoi2 a b, mac_pairs sep r) of (Some x, Some xs) \<Rightarrow> Some (x # xs) | _ \<Rightarrow> None)"
| "mac_pairs sep _ = None"

fun mac_quads :: "string \<Rightarrow> byte list option" where
  "mac_quads [a, b, c, d] = (case (xtoi2 a b, xtoi2 c d) of (Some x, Some y) \<Rightarrow> Some [x, y] | _ \<Rightarrow> None)"
| "mac_quads (a # b # c # d # e # r) =
     (if e \<noteq> CHR ''.'' then None
      else case (xtoi2 a b, xtoi2 c d, mac_quads r) of (Some x, Some y, Some xs) \<Rightarrow> Some (x # y # xs) | _ \<Rightarrow> None)"
| "mac_quads _ = None"

definition ParseMAC :: "string \<Rightarrow> byte list option" where
  "ParseMAC s =
     (if length s < 14 then None
      else if s ! 2 = CHR '':'' \<or> s ! 2 = CHR ''-'' then
        if (length s + 1) mod 3 \<noteq> 0 \<or> (length s + 1) div 3 \<notin> {6, 8, 20} then None else mac_pairs (s ! 2) s
      else if s ! 4 = CHR ''.'' then
        if (length s + 1) mod 5 \<noteq> 0 \<or> 2 * (length s + 1) div 5 \<notin> {6, 8, 20} then None else mac_quads s
      else None)"

section \<open>Configuration\<close>

definition defaultLeaseTime :: duration where "defaultLeaseTime = 24 * Hour"
definition offeredHold :: duration where "offeredHold = 90 * Second"
definition declinedHold :: duration where "declinedHold = 30 * Minute"
definition v6PreferredFraction :: int where "v6PreferredFraction = 2"

record StaticLease =
  sl_MAC :: string
  sl_DUID :: string
  sl_IP :: IP
  sl_Hostname :: string

record HostAddresses =
  ha_IPv4 :: IP
  ha_IPv6 :: IP
  ha_MAC :: "byte list option"

record dhcpConfig =
  dc_Enabled :: bool
  dc_Interface :: string
  dc_Subnet :: "IPNet option"
  dc_RangeStart :: IP
  dc_RangeEnd :: IP
  dc_Gateway :: IP
  dc_DNS :: "IP list"
  dc_LeaseTime :: duration
  dc_Domain :: string
  dc_Static :: "StaticLease list"
  dc_IPv6 :: bool
  dc_IPv6Prefix :: "IPNet option"
  dc_IPv6Start :: IP
  dc_IPv6End :: IP
  dc_ServerIPv4 :: IP
  dc_ServerIPv6 :: IP
  dc_ServerMAC :: "byte list option"

text \<open>The section of the configuration file (\<^verbatim>\<open>config.DHCPConfig\<close>).\<close>

record DHCPStaticLease =
  cl_MAC :: string
  cl_DUID :: string
  cl_IP :: string
  cl_Hostname :: string

record DHCPConfig =
  dy_Enabled :: bool
  dy_Interface :: string
  dy_Subnet :: string
  dy_RangeStart :: string
  dy_RangeEnd :: string
  dy_Gateway :: string
  dy_DNS :: "string list"
  dy_LeaseTime :: duration
  dy_Domain :: string
  dy_StaticLeases :: "DHCPStaticLease list"
  dy_IPv6 :: bool
  dy_IPv6Prefix :: string
  dy_IPv6RangeStart :: string
  dy_IPv6RangeEnd :: string

definition validMAC :: "string \<Rightarrow> bool" where
  "validMAC s \<longleftrightarrow> ParseMAC (ToLower s) \<noteq> None"

definition host_char :: "char \<Rightarrow> bool" where
  "host_char c \<longleftrightarrow> (let n = of_char c :: nat in 97 \<le> n \<and> n \<le> 122 \<or> 65 \<le> n \<and> n \<le> 90 \<or> 48 \<le> n \<and> n \<le> 57 \<or> n = 45)"

definition validHostname :: "string \<Rightarrow> bool" where
  "validHostname s \<longleftrightarrow> s \<noteq> [] \<and> length s \<le> 63 \<and> list_all host_char s"

datatype dhcp_error = BadSubnet | RangeMissing | RangeNotV4 | RangeOutside | RangeReversed | BadGateway | BadDNS string
  | NegativeLeaseTime | BadDomain | StaticNoClient nat | StaticBadMAC nat | StaticBadIP nat | StaticOutside nat
  | StaticBadHostname nat | BadPrefix6 | Range6NotV6 | Range6Outside | Range6Reversed | Static6Outside nat

text \<open>The loop over the static leases: the first bad one, by its index.\<close>

fun staticError :: "IPNet \<Rightarrow> nat \<Rightarrow> DHCPStaticLease list \<Rightarrow> dhcp_error option" where
  "staticError ipnet i [] = None"
| "staticError ipnet i (sl # sls) =
     (let ip = ParseIP (cl_IP sl) in
      if cl_MAC sl = [] \<and> cl_DUID sl = [] then Some (StaticNoClient i)
      else if cl_MAC sl \<noteq> [] \<and> \<not> validMAC (cl_MAC sl) then Some (StaticBadMAC i)
      else if ip = [] then Some (StaticBadIP i)
      else if To4 ip \<noteq> [] \<and> \<not> IPNet_Contains ipnet ip then Some (StaticOutside i)
      else if cl_Hostname sl \<noteq> [] \<and> \<not> validHostname (cl_Hostname sl) then Some (StaticBadHostname i)
      else staticError ipnet (i + 1) sls)"

fun static6Error :: "IPNet \<Rightarrow> nat \<Rightarrow> DHCPStaticLease list \<Rightarrow> dhcp_error option" where
  "static6Error ipnet6 i [] = None"
| "static6Error ipnet6 i (sl # sls) =
     (let ip = ParseIP (cl_IP sl) in
      if ip \<noteq> [] \<and> To4 ip = [] \<and> \<not> IPNet_Contains ipnet6 ip then Some (Static6Outside i)
      else static6Error ipnet6 (i + 1) sls)"

definition validate6 :: "DHCPConfig \<Rightarrow> dhcp_error option" where
  "validate6 c =
     (case ParseCIDR (dy_IPv6Prefix c) of
        None \<Rightarrow> Some BadPrefix6
      | Some (_, ipnet6) \<Rightarrow>
          let s6 = ParseIP (dy_IPv6RangeStart c); e6 = ParseIP (dy_IPv6RangeEnd c) in
          if s6 = [] \<or> e6 = [] \<or> To4 s6 \<noteq> [] \<or> To4 e6 \<noteq> [] then Some Range6NotV6
          else if \<not> IPNet_Contains ipnet6 s6 \<or> \<not> IPNet_Contains ipnet6 e6 then Some Range6Outside
          else if \<not> bytes_le s6 e6 then Some Range6Reversed
          else static6Error ipnet6 0 (dy_StaticLeases c))"

definition validateDHCP :: "DHCPConfig \<Rightarrow> dhcp_error option" where
  "validateDHCP c =
     (if \<not> dy_Enabled c then None
      else case ParseCIDR (dy_Subnet c) of
        None \<Rightarrow> Some BadSubnet
      | Some (_, ipnet) \<Rightarrow>
          let start = ParseIP (dy_RangeStart c); end' = ParseIP (dy_RangeEnd c); g = ParseIP (dy_Gateway c) in
          if dy_RangeStart c = [] \<or> dy_RangeEnd c = [] then Some RangeMissing
          else if start = [] \<or> end' = [] \<or> To4 start = [] \<or> To4 end' = [] then Some RangeNotV4
          else if \<not> IPNet_Contains ipnet start \<or> \<not> IPNet_Contains ipnet end' then Some RangeOutside
          else if \<not> bytes_le (To4 start) (To4 end') then Some RangeReversed
          else if dy_Gateway c \<noteq> [] \<and> (g = [] \<or> To4 g = [] \<or> \<not> IPNet_Contains ipnet g) then Some BadGateway
          else case List.find (\<lambda>d. ParseIP d = []) (dy_DNS c) of
            Some d \<Rightarrow> Some (BadDNS d)
          | None \<Rightarrow>
              if dy_LeaseTime c < 0 then Some NegativeLeaseTime
              else if dy_Domain c \<noteq> [] \<and> \<not> validHostname (dy_Domain c) then Some BadDomain
              else case staticError ipnet 0 (dy_StaticLeases c) of
                Some e \<Rightarrow> Some e
              | None \<Rightarrow> if dy_IPv6 c then validate6 c else None)"

definition dhcpStatics :: "DHCPStaticLease list \<Rightarrow> StaticLease list" where
  "dhcpStatics sls = map (\<lambda>sl. \<lparr>sl_MAC = cl_MAC sl, sl_DUID = cl_DUID sl, sl_IP = ParseIP (cl_IP sl), sl_Hostname = cl_Hostname sl\<rparr>) sls"

text \<open>\<^verbatim>\<open>ConfigFrom\<close>, applied to the section as both of its callers do.\<close>

definition ConfigFrom :: "DHCPConfig \<Rightarrow> HostAddresses \<Rightarrow> dhcpConfig" where
  "ConfigFrom c addrs =
     \<lparr>dc_Enabled = dy_Enabled c, dc_Interface = dy_Interface c, dc_Subnet = map_option snd (ParseCIDR (dy_Subnet c)),
      dc_RangeStart = ParseIP (dy_RangeStart c), dc_RangeEnd = ParseIP (dy_RangeEnd c), dc_Gateway = ParseIP (dy_Gateway c),
      dc_DNS = map ParseIP (dy_DNS c), dc_LeaseTime = dy_LeaseTime c, dc_Domain = dy_Domain c, dc_Static = dhcpStatics (dy_StaticLeases c),
      dc_IPv6 = dy_IPv6 c, dc_IPv6Prefix = map_option snd (ParseCIDR (dy_IPv6Prefix c)),
      dc_IPv6Start = ParseIP (dy_IPv6RangeStart c), dc_IPv6End = ParseIP (dy_IPv6RangeEnd c),
      dc_ServerIPv4 = ha_IPv4 addrs, dc_ServerIPv6 = ha_IPv6 addrs, dc_ServerMAC = ha_MAC addrs\<rparr>"

section \<open>The server\<close>

type_synonym leaseKey = string

definition v4Key :: "byte list \<Rightarrow> leaseKey" where "v4Key mac = ''v4:'' @ ToLower (HW_String mac)"
definition v6Key :: "string \<Rightarrow> leaseKey" where "v6Key duidHex = ''v6:'' @ duidHex"

record Lease =
  ls_Key :: leaseKey
  ls_MAC :: string
  ls_DUID :: string
  ls_IP :: string
  ls_Hostname :: string
  ls_Expires :: gotime
  ls_Static :: bool

record reservation =
  rv_key :: leaseKey
  rv_until :: gotime

text \<open>A client or server DUID: the link-layer form the server uses for itself, or another.\<close>

datatype duid = DUIDLL "byte list" | DUIDOther "byte list"

text \<open>The server. \<open>ds_obj\<close> is the store of lease objects, a reference its index; \<open>ds_disk\<close> is what \<^verbatim>\<open>leases.json\<close> decodes to,
  \<^term>\<open>None\<close> when it is missing or does not decode; \<open>ds_v4srv\<close> and \<open>ds_v6srv\<close> say whether the listeners are bound.\<close>

record dhcpServer =
  ds_cfg :: dhcpConfig
  ds_obj :: "Lease list"
  ds_leases :: "(leaseKey, nat) gomap"
  ds_byIP :: "(string, nat) gomap"
  ds_hosts :: "(string, IP) gomap"
  ds_ptr :: "(string, string) gomap"
  ds_reserved :: "(string, reservation) gomap"
  ds_cursor4 :: "32 word"
  ds_cursor6 :: IP
  ds_serverDUID :: "duid option"
  ds_v4srv :: bool
  ds_v6srv :: bool
  ds_dirty :: bool
  ds_stopped :: bool
  ds_disk :: "Lease list option"

definition emptyConfig :: dhcpConfig where
  "emptyConfig = \<lparr>dc_Enabled = False, dc_Interface = [], dc_Subnet = None, dc_RangeStart = [], dc_RangeEnd = [], dc_Gateway = [],
     dc_DNS = [], dc_LeaseTime = 0, dc_Domain = [], dc_Static = [], dc_IPv6 = False, dc_IPv6Prefix = None, dc_IPv6Start = [],
     dc_IPv6End = [], dc_ServerIPv4 = [], dc_ServerIPv6 = [], dc_ServerMAC = None\<rparr>"

definition dhcpNew :: "Lease list option \<Rightarrow> dhcpServer" where
  "dhcpNew disk = \<lparr>ds_cfg = emptyConfig, ds_obj = [], ds_leases = [], ds_byIP = [], ds_hosts = [], ds_ptr = [], ds_reserved = [],
     ds_cursor4 = 0, ds_cursor6 = [], ds_serverDUID = None, ds_v4srv = False, ds_v6srv = False, ds_dirty = False, ds_stopped = False,
     ds_disk = disk\<rparr>"

text \<open>The lease a client key, or an address, points to.\<close>

definition leaseOf :: "dhcpServer \<Rightarrow> leaseKey \<Rightarrow> Lease option" where
  "leaseOf s k = map_option (\<lambda>r. ds_obj s ! r) (map_of (ds_leases s) k)"

definition leaseAt :: "dhcpServer \<Rightarrow> string \<Rightarrow> Lease option" where
  "leaseAt s ip = map_option (\<lambda>r. ds_obj s ! r) (map_of (ds_byIP s) ip)"

definition leaseTimeLocked :: "dhcpServer \<Rightarrow> duration" where
  "leaseTimeLocked s = (if dc_LeaseTime (ds_cfg s) > 0 then dc_LeaseTime (ds_cfg s) else defaultLeaseTime)"

section \<open>Names\<close>

definition hostOfStatic :: "StaticLease \<Rightarrow> (string, IP) gomap \<times> (string, string) gomap \<Rightarrow> (string, IP) gomap \<times> (string, string) gomap" where
  "hostOfStatic st hp =
     (if sl_Hostname st = [] then hp
      else (gm_put (ToLower (sl_Hostname st)) (sl_IP st) (fst hp), gm_put (IP_String (sl_IP st)) (sl_Hostname st) (snd hp)))"

definition hostOfLease :: "Lease \<Rightarrow> (string, IP) gomap \<times> (string, string) gomap \<Rightarrow> (string, IP) gomap \<times> (string, string) gomap" where
  "hostOfLease l hp =
     (let ip = ParseIP (ls_IP l) in
      if ls_Hostname l = [] \<or> ip = [] then hp
      else (gm_put (ToLower (ls_Hostname l)) ip (fst hp), gm_put (IP_String ip) (ls_Hostname l) (snd hp)))"

definition hostTables :: "dhcpServer \<Rightarrow> (string, IP) gomap \<times> (string, string) gomap" where
  "hostTables s = fold (\<lambda>(k, r). hostOfLease (ds_obj s ! r)) (ds_leases s) (fold hostOfStatic (dc_Static (ds_cfg s)) ([], []))"

definition setHosts :: "(string, IP) gomap \<times> (string, string) gomap \<Rightarrow> dhcpServer \<Rightarrow> dhcpServer" where
  "setHosts hp s = s\<lparr>ds_hosts := fst hp, ds_ptr := snd hp\<rparr>"

definition rebuildHostsLocked :: "dhcpServer \<Rightarrow> dhcpServer" where
  "rebuildHostsLocked s = setHosts (hostTables s) s"

definition markDirtyLocked :: "dhcpServer \<Rightarrow> dhcpServer" where "markDirtyLocked s = s\<lparr>ds_dirty := True\<rparr>"

definition dhcp_LookupHost :: "dhcpServer \<Rightarrow> string \<Rightarrow> IP list option" where
  "dhcp_LookupHost s name0 =
     (let name = CanonicalDomain name0; domain = CanonicalDomain (dc_Domain (ds_cfg s));
          name' = (if domain \<noteq> [] \<and> HasSuffix name (CHR ''.'' # domain) then TrimSuffix name (CHR ''.'' # domain) else name)
      in if name = [] then None else map_option (\<lambda>ip. [ip]) (map_of (ds_hosts s) name'))"

definition dhcp_LookupPTR :: "dhcpServer \<Rightarrow> string \<Rightarrow> string option" where
  "dhcp_LookupPTR s ip =
     (let parsed = ParseIP (TrimSpace ip); d = TrimSuffix (dc_Domain (ds_cfg s)) ''.'' in
      if parsed = [] then None
      else map_option (\<lambda>h. if d \<noteq> [] then h @ ''.'' @ d else h) (map_of (ds_ptr s) (IP_String parsed)))"

section \<open>The pool\<close>

definition poolOfLocked :: "dhcpServer \<Rightarrow> bool \<Rightarrow> IP \<times> IP" where
  "poolOfLocked s v6 =
     (if v6 then if \<not> dc_IPv6 (ds_cfg s) then ([], []) else (dc_IPv6Start (ds_cfg s), dc_IPv6End (ds_cfg s))
      else (dc_RangeStart (ds_cfg s), dc_RangeEnd (ds_cfg s)))"

definition bytesCompare :: "IP \<Rightarrow> IP \<Rightarrow> int" where
  "bytesCompare a b =
     (let ab = To16 a; bb = To16 b in
      if ab = [] \<or> bb = [] then 0 else if \<not> bytes_le bb ab then -1 else if \<not> bytes_le ab bb then 1 else 0)"

definition addrInPoolLocked :: "dhcpServer \<Rightarrow> IP \<Rightarrow> bool \<Rightarrow> bool" where
  "addrInPoolLocked s ip v6 =
     (case poolOfLocked s v6 of
        (start, end') \<Rightarrow>
          if ip = [] \<or> start = [] \<or> end' = [] then False
          else if v6 then bytesCompare ip start \<ge> 0 \<and> bytesCompare ip end' \<le> 0
          else
            let a = To4 ip in
            a \<noteq> [] \<and>
            (case dc_Subnet (ds_cfg s) of
               None \<Rightarrow> False
             | Some netw \<Rightarrow>
                 IPNet_Contains netw a \<and>
                 (let netAddr = To4 (net_IP netw); bcast = map2 (\<lambda>n m. n OR NOT m) netAddr (net_Mask netw)
                  in \<not> IP_Equal a netAddr \<and> \<not> IP_Equal a bcast \<and>
                     bytesCompare a (To4 start) \<ge> 0 \<and> bytesCompare a (To4 end') \<le> 0)))"

text \<open>\<^verbatim>\<open>inUseLocked\<close>: an expired dynamic lease on the address is dropped on the way, and with it whatever its client has.\<close>

definition reclaim :: "dhcpServer \<Rightarrow> string \<Rightarrow> Lease \<Rightarrow> dhcpServer" where
  "reclaim s ipStr l =
     markDirtyLocked (rebuildHostsLocked (s\<lparr>ds_leases := gm_del (ls_Key l) (ds_leases s), ds_byIP := gm_del ipStr (ds_byIP s)\<rparr>))"

definition reservedFor :: "dhcpServer \<Rightarrow> gotime \<Rightarrow> string \<Rightarrow> leaseKey \<Rightarrow> bool" where
  "reservedFor s now ipStr key = (case map_of (ds_reserved s) ipStr of None \<Rightarrow> False | Some r \<Rightarrow> rv_until r > now \<and> rv_key r \<noteq> key)"

definition inUseLocked :: "dhcpServer \<Rightarrow> gotime \<Rightarrow> IP \<Rightarrow> leaseKey \<Rightarrow> bool \<times> dhcpServer" where
  "inUseLocked s now ip key =
     (let ipStr = IP_String ip in
      case leaseAt s ipStr of
        Some l \<Rightarrow>
          if ls_Key l \<noteq> key then
            if ls_Static l \<or> ls_Expires l > now then (True, s)
            else let s' = reclaim s ipStr l in (reservedFor s' now ipStr key, s')
          else (reservedFor s now ipStr key, s)
      | None \<Rightarrow> (reservedFor s now ipStr key, s))"

definition staticForClientLocked :: "dhcpServer \<Rightarrow> byte list option \<Rightarrow> string \<Rightarrow> StaticLease option" where
  "staticForClientLocked s mac duidHex =
     List.find (\<lambda>st. (case mac of None \<Rightarrow> False | Some m \<Rightarrow> sl_MAC st \<noteq> [] \<and> EqualFold (sl_MAC st) (HW_String m)) \<or>
                     duidHex \<noteq> [] \<and> sl_DUID st \<noteq> [] \<and> EqualFold (sl_DUID st) duidHex) (dc_Static (ds_cfg s))"

text \<open>\<^verbatim>\<open>poolAt\<close>: the carry loop, from the last byte.\<close>

fun poolAt_rev :: "byte list \<Rightarrow> nat \<Rightarrow> byte list" where
  "poolAt_rev [] carry = []"
| "poolAt_rev (b # bs) carry = (if carry = 0 then b # bs else of_nat (unat b + carry) # poolAt_rev bs ((unat b + carry) div 256))"

definition poolAt :: "IP \<Rightarrow> nat \<Rightarrow> IP" where
  "poolAt base offset = rev (poolAt_rev (rev base) offset)"

text \<open>The size of the pool less one, as \<^verbatim>\<open>nextFree4\<close> computes it: the differences are taken on bytes, which wrap.\<close>

definition poolTotal :: "IP \<Rightarrow> IP \<Rightarrow> nat" where
  "poolTotal sb eb = nat (uint (eb ! 3 - sb ! 3) + 256 * uint (eb ! 2 - sb ! 2) + 65536 * uint (eb ! 1 - sb ! 1) + 16777216 * uint (eb ! 0 - sb ! 0))"

fun scan4 :: "IP \<Rightarrow> nat \<Rightarrow> gotime \<Rightarrow> leaseKey \<Rightarrow> nat list \<Rightarrow> dhcpServer \<Rightarrow> IP option \<times> dhcpServer" where
  "scan4 sb sz now key [] s = (None, s)"
| "scan4 sb sz now key (i # ixs) s =
     (let idx = (unat (ds_cursor4 s) + i) mod (sz + 1); cand = poolAt sb idx in
      case inUseLocked s now cand key of
        (used, s') \<Rightarrow>
          if \<not> used then (Some cand, s'\<lparr>ds_cursor4 := of_nat ((idx + 1) mod (sz + 1))\<rparr>)
          else scan4 sb sz now key ixs s')"

text \<open>\<^verbatim>\<open>nextFree4\<close>; the configuration's range is IPv4 (\<^verbatim>\<open>Validate\<close>), indexing another one would panic.\<close>

definition nextFree4 :: "dhcpServer \<Rightarrow> gotime \<Rightarrow> leaseKey \<Rightarrow> IP option \<times> dhcpServer" where
  "nextFree4 s now key =
     (case poolOfLocked s False of
        (start, end') \<Rightarrow>
          if start = [] then (None, s)
          else let sz = poolTotal (To4 start) (To4 end') in scan4 (To4 start) sz now key [0..<sz + 1] s)"

text \<open>\<^verbatim>\<open>nextFree6\<close>: round the pool from the cursor until a free address or the first one again.\<close>

definition incr :: "IP \<Rightarrow> IP" where "incr ip = addOne128 ip"

definition step6 :: "IP \<Rightarrow> IP \<Rightarrow> IP \<Rightarrow> IP" where
  "step6 sb eb cur = (if bytesCompare (incr cur) eb > 0 then sb else incr cur)"

partial_function (option) scan6 :: "IP \<Rightarrow> IP \<Rightarrow> gotime \<Rightarrow> leaseKey \<Rightarrow> IP \<Rightarrow> IP \<Rightarrow> dhcpServer \<Rightarrow> (IP option \<times> dhcpServer) option" where
  "scan6 sb eb now key first cur s =
     (case inUseLocked s now cur key of
        (used, s') \<Rightarrow>
          if \<not> used then Some (Some cur, s'\<lparr>ds_cursor6 := step6 sb eb cur\<rparr>)
          else if IP_Equal (step6 sb eb cur) first then Some (None, s')
          else scan6 sb eb now key first (step6 sb eb cur) s')"

declare scan6.simps [code]

definition nextFree6 :: "dhcpServer \<Rightarrow> gotime \<Rightarrow> leaseKey \<Rightarrow> (IP option \<times> dhcpServer) option" where
  "nextFree6 s now key =
     (case poolOfLocked s True of
        (start, end') \<Rightarrow>
          if start = [] then Some (None, s)
          else
            let sb = To16 start; eb = To16 end'; c = ds_cursor6 s;
                cur = (if c = [] \<or> bytesCompare c sb < 0 \<or> bytesCompare c eb > 0 then sb else c)
            in scan6 sb eb now key cur cur s)"

section \<open>Leases\<close>

text \<open>A new lease object, and its reference.\<close>

definition newLease :: "dhcpServer \<Rightarrow> Lease \<Rightarrow> nat \<times> dhcpServer" where
  "newLease s l = (length (ds_obj s), s\<lparr>ds_obj := ds_obj s @ [l]\<rparr>)"

definition installLease :: "Lease \<Rightarrow> dhcpServer \<Rightarrow> dhcpServer" where
  "installLease l s = (case newLease s l of (r, s1) \<Rightarrow> s1\<lparr>ds_leases := gm_put (ls_Key l) r (ds_leases s1), ds_byIP := gm_put (ls_IP l) r (ds_byIP s1)\<rparr>)"

definition clearOffer :: "string \<Rightarrow> dhcpServer \<Rightarrow> dhcpServer" where
  "clearOffer ip s = s\<lparr>ds_reserved := gm_del ip (ds_reserved s)\<rparr>"

definition dropOther :: "Lease \<Rightarrow> dhcpServer \<Rightarrow> dhcpServer" where
  "dropOther l s =
     (case leaseAt s (ls_IP l) of
        Some old \<Rightarrow> if ls_Key old \<noteq> ls_Key l then s\<lparr>ds_leases := gm_del (ls_Key old) (ds_leases s)\<rparr> else s
      | None \<Rightarrow> s)"

definition stampLease :: "dhcpServer \<Rightarrow> gotime \<Rightarrow> Lease \<Rightarrow> Lease" where
  "stampLease s now l = (if \<not> ls_Static l then l\<lparr>ls_Expires := now + leaseTimeLocked s\<rparr> else l)"

definition commitStamped :: "Lease \<Rightarrow> dhcpServer \<Rightarrow> dhcpServer" where
  "commitStamped l s = markDirtyLocked (rebuildHostsLocked (installLease l (dropOther l (clearOffer (ls_IP l) s))))"

text \<open>\<^verbatim>\<open>commitLocked\<close>: stamp the lease, clear the offers on its address, remove the lease another client has on it, index it.\<close>

definition commitLocked :: "dhcpServer \<Rightarrow> gotime \<Rightarrow> Lease \<Rightarrow> dhcpServer" where
  "commitLocked s now l = commitStamped (stampLease s now l) s"

text \<open>\<^verbatim>\<open>renewLocked\<close> changes the object the two maps share.\<close>

definition renewLocked :: "dhcpServer \<Rightarrow> gotime \<Rightarrow> nat \<Rightarrow> string \<Rightarrow> dhcpServer" where
  "renewLocked s now r hostname =
     (let l = ds_obj s ! r in
      if ls_Static l then s
      else
        let l' = l\<lparr>ls_Expires := now + leaseTimeLocked s, ls_Hostname := (if hostname \<noteq> [] then hostname else ls_Hostname l)\<rparr>
        in markDirtyLocked (rebuildHostsLocked (s\<lparr>ds_obj := (ds_obj s)[r := l'], ds_reserved := gm_del (ls_IP l) (ds_reserved s)\<rparr>)))"

definition releaseLease :: "dhcpServer \<Rightarrow> leaseKey \<Rightarrow> IP \<Rightarrow> bool \<times> dhcpServer" where
  "releaseLease s key ip =
     (case leaseOf s key of
        None \<Rightarrow> (False, s)
      | Some l \<Rightarrow>
          if ip \<noteq> [] \<and> \<not> IP_Equal ip (ParseIP (ls_IP l)) then (False, s)
          else (True, markDirtyLocked (rebuildHostsLocked (s\<lparr>ds_leases := gm_del key (ds_leases s), ds_byIP := gm_del (ls_IP l) (ds_byIP s)\<rparr>))))"

definition declineLease :: "dhcpServer \<Rightarrow> gotime \<Rightarrow> IP \<Rightarrow> dhcpServer" where
  "declineLease s now ip =
     (if ip = [] then s
      else
        let ipStr = IP_String ip;
            s1 = (case leaseAt s ipStr of
                    Some l \<Rightarrow> s\<lparr>ds_leases := gm_del (ls_Key l) (ds_leases s), ds_byIP := gm_del ipStr (ds_byIP s)\<rparr>
                  | None \<Rightarrow> s)
        in markDirtyLocked (rebuildHostsLocked (s1\<lparr>ds_reserved := gm_put ipStr \<lparr>rv_key = [], rv_until = now + declinedHold\<rparr> (ds_reserved s1)\<rparr>)))"

text \<open>The offer a client already holds.\<close>

definition ownOffer :: "dhcpServer \<Rightarrow> gotime \<Rightarrow> leaseKey \<Rightarrow> IP option" where
  "ownOffer s now key =
     map_option (\<lambda>(addr, r). ParseIP addr) (List.find (\<lambda>(addr, r). rv_key r = key \<and> rv_until r > now \<and> ParseIP addr \<noteq> []) (ds_reserved s))"

definition holdOffer :: "dhcpServer \<Rightarrow> gotime \<Rightarrow> leaseKey \<Rightarrow> IP \<Rightarrow> dhcpServer" where
  "holdOffer s now key ip = s\<lparr>ds_reserved := gm_put (IP_String ip) \<lparr>rv_key = key, rv_until = now + offeredHold\<rparr> (ds_reserved s)\<rparr>"

text \<open>The client's own lease, renewed, when its address parses.\<close>

definition ownLease :: "dhcpServer \<Rightarrow> gotime \<Rightarrow> leaseKey \<Rightarrow> string \<Rightarrow> (IP \<times> dhcpServer) option" where
  "ownLease s now key hostname =
     (case map_of (ds_leases s) key of
        None \<Rightarrow> None
      | Some r \<Rightarrow>
          let ip = ParseIP (ls_IP (ds_obj s ! r)) in if ip \<noteq> [] then Some (ip, renewLocked s now r hostname) else None)"

text \<open>\<^verbatim>\<open>allocV4\<close> for a client without a reservation: own lease, own offer, requested address, next free one.\<close>

definition allocV4Dynamic :: "dhcpServer \<Rightarrow> gotime \<Rightarrow> leaseKey \<Rightarrow> IP \<Rightarrow> string \<Rightarrow> (IP option \<times> bool) \<times> dhcpServer" where
  "allocV4Dynamic s now key requested hostname =
     (let pick = (\<lambda>s. case nextFree4 s now key of
                        (Some ip, s') \<Rightarrow> ((Some ip, False), holdOffer s' now key ip)
                      | (None, s') \<Rightarrow> ((None, False), s'))
      in case ownLease s now key hostname of
           Some (ip, s') \<Rightarrow> ((Some ip, False), s')
         | None \<Rightarrow>
             (case ownOffer s now key of
                Some ip \<Rightarrow> ((Some ip, False), s)
              | None \<Rightarrow>
                  let ip = To4 requested in
                  if ip \<noteq> [] \<and> addrInPoolLocked s ip False then
                    (case inUseLocked s now ip key of
                       (used, s') \<Rightarrow> if \<not> used then ((Some ip, False), holdOffer s' now key ip) else pick s')
                  else pick s))"

definition allocV4 :: "dhcpServer \<Rightarrow> gotime \<Rightarrow> byte list option \<Rightarrow> IP \<Rightarrow> string \<Rightarrow> (IP option \<times> bool) \<times> dhcpServer" where
  "allocV4 s now mac requested hostname =
     (case mac of
        None \<Rightarrow> ((None, False), s)
      | Some m \<Rightarrow>
          let key = v4Key m in
          case staticForClientLocked s mac [] of
            Some st \<Rightarrow>
              if To4 (sl_IP st) \<noteq> [] then
                let ip = To4 (sl_IP st); h = (if sl_Hostname st = [] then hostname else sl_Hostname st)
                in ((Some ip, True), commitLocked s now \<lparr>ls_Key = key, ls_MAC = HW_String m, ls_DUID = [], ls_IP = IP_String ip,
                      ls_Hostname = h, ls_Expires = 0, ls_Static = True\<rparr>)
              else allocV4Dynamic s now key requested hostname
          | None \<Rightarrow> allocV4Dynamic s now key requested hostname)"

definition pickV6 :: "dhcpServer \<Rightarrow> gotime \<Rightarrow> leaseKey \<Rightarrow> ((IP option \<times> bool) \<times> dhcpServer) option" where
  "pickV6 s now key =
     map_option (\<lambda>(ip, s'). case ip of Some a \<Rightarrow> ((Some a, False), holdOffer s' now key a) | None \<Rightarrow> ((None, False), s')) (nextFree6 s now key)"

definition allocV6Dynamic :: "dhcpServer \<Rightarrow> gotime \<Rightarrow> leaseKey \<Rightarrow> IP \<Rightarrow> string \<Rightarrow> ((IP option \<times> bool) \<times> dhcpServer) option" where
  "allocV6Dynamic s now key requested hostname =
     (case ownLease s now key hostname of
        Some (ip, s') \<Rightarrow> Some ((Some ip, False), s')
      | None \<Rightarrow>
          (case ownOffer s now key of
             Some ip \<Rightarrow> Some ((Some ip, False), s)
           | None \<Rightarrow>
               if requested \<noteq> [] \<and> To4 requested = [] \<and> addrInPoolLocked s requested True then
                 (case inUseLocked s now requested key of
                    (used, s') \<Rightarrow> if \<not> used then Some ((Some requested, False), holdOffer s' now key requested) else pickV6 s' now key)
               else pickV6 s now key))"

definition allocV6 :: "dhcpServer \<Rightarrow> gotime \<Rightarrow> string \<Rightarrow> string \<Rightarrow> IP \<Rightarrow> ((IP option \<times> bool) \<times> dhcpServer) option" where
  "allocV6 s now duidHex hostname requested =
     (let key = v6Key duidHex in
      if duidHex = [] then Some ((None, False), s)
      else case staticForClientLocked s None duidHex of
        Some st \<Rightarrow>
          if To4 (sl_IP st) = [] then
            Some ((if sl_IP st = [] then None else Some (sl_IP st), True), commitLocked s now \<lparr>ls_Key = key, ls_MAC = [], ls_DUID = duidHex,
              ls_IP = IP_String (sl_IP st), ls_Hostname = (if sl_Hostname st = [] then hostname else sl_Hostname st), ls_Expires = 0, ls_Static = True\<rparr>)
          else allocV6Dynamic s now key requested hostname
      | None \<Rightarrow> allocV6Dynamic s now key requested hostname)"

section \<open>Configuration changes and persistence\<close>

definition makeServerDUID :: "byte list option \<Rightarrow> gotime \<Rightarrow> duid" where
  "makeServerDUID mac now = DUIDLL (case mac of Some m \<Rightarrow> m | None \<Rightarrow> [2, 0, 0, 0, 0, of_int (now div Second)])"

definition mustMAC :: "string \<Rightarrow> byte list" where
  "mustMAC m = (case ParseMAC m of None \<Rightarrow> [] | Some b \<Rightarrow> b)"

definition staticForLocked :: "dhcpServer \<Rightarrow> leaseKey \<Rightarrow> string \<Rightarrow> bool" where
  "staticForLocked s key ip =
     list_ex (\<lambda>st. sl_MAC st \<noteq> [] \<and> v4Key (mustMAC (sl_MAC st)) = key \<and> IP_String (sl_IP st) = ip \<or>
                   sl_DUID st \<noteq> [] \<and> v6Key (sl_DUID st) = key \<and> IP_String (sl_IP st) = ip) (dc_Static (ds_cfg s))"

definition loadOne :: "gotime \<Rightarrow> Lease \<Rightarrow> dhcpServer \<Rightarrow> dhcpServer" where
  "loadOne now l s =
     (if (if ls_Static l then staticForLocked s (ls_Key l) (ls_IP l) else ls_Expires l > now) then installLease l s else s)"

definition loadLocked :: "dhcpServer \<Rightarrow> gotime \<Rightarrow> dhcpServer" where
  "loadLocked s now = (case ds_disk s of None \<Rightarrow> s | Some saved \<Rightarrow> fold (loadOne now) saved s)"

definition dhcp_SetConfig :: "dhcpServer \<Rightarrow> gotime \<Rightarrow> dhcpConfig \<Rightarrow> dhcpServer" where
  "dhcp_SetConfig s now cfg =
     (let s1 = s\<lparr>ds_cfg := cfg\<rparr>;
          s2 = (if ds_serverDUID s1 = None then s1\<lparr>ds_serverDUID := Some (makeServerDUID (dc_ServerMAC cfg) now)\<rparr> else s1)
      in rebuildHostsLocked (loadLocked s2 now))"

text \<open>\<^verbatim>\<open>persistNow\<close>; \<open>ok\<close> says whether the directory, the write and the rename succeeded. The flag is cleared before.\<close>

definition persistNow :: "dhcpServer \<Rightarrow> bool \<Rightarrow> dhcpServer" where
  "persistNow s ok =
     (if \<not> ds_dirty s then s
      else
        let s1 = s\<lparr>ds_dirty := False\<rparr>
        in if ok then s1\<lparr>ds_disk := Some (map (\<lambda>(k, r). ds_obj s1 ! r) (ds_leases s1))\<rparr> else s1)"

definition serves6 :: "dhcpConfig \<Rightarrow> bool" where "serves6 c \<longleftrightarrow> dc_IPv6 c \<and> dc_IPv6Prefix c \<noteq> None"

definition dhcp_Enabled :: "dhcpServer \<Rightarrow> bool" where
  "dhcp_Enabled s \<longleftrightarrow> dc_Enabled (ds_cfg s) \<and> (dc_Subnet (ds_cfg s) \<noteq> None \<or> serves6 (ds_cfg s))"

text \<open>\<^verbatim>\<open>Start\<close>: whether it returned without an error; the arguments say whether each listener could be bound.\<close>

definition dhcp_Start :: "dhcpServer \<Rightarrow> bool \<Rightarrow> bool \<Rightarrow> bool \<times> dhcpServer" where
  "dhcp_Start s bind4 bind6 =
     (if \<not> dhcp_Enabled s \<or> ds_v4srv s \<or> ds_v6srv s then (True, s)
      else
        let s1 = s\<lparr>ds_stopped := False\<rparr>; want4 = (dc_Subnet (ds_cfg s) \<noteq> None); s2 = (if want4 then s1\<lparr>ds_v4srv := True\<rparr> else s1)
        in if want4 \<and> \<not> bind4 then (False, s1)
           else if serves6 (ds_cfg s) then if bind6 then (True, s2\<lparr>ds_v6srv := True\<rparr>) else (False, s2)
           else (True, s2))"

definition dhcp_Stop :: "dhcpServer \<Rightarrow> bool \<Rightarrow> dhcpServer" where
  "dhcp_Stop s ok = persistNow (s\<lparr>ds_v4srv := False, ds_v6srv := False, ds_stopped := True\<rparr>) ok"

definition RestartListeners :: "dhcpServer \<Rightarrow> bool \<Rightarrow> bool \<Rightarrow> bool \<Rightarrow> bool \<times> dhcpServer" where
  "RestartListeners s ok bind4 bind6 = dhcp_Start (dhcp_Stop s ok) bind4 bind6"

text \<open>\<^verbatim>\<open>Leases\<close>, for the dashboard; the expiry is left as a time and is absent for a reservation.\<close>

definition Leases :: "dhcpServer \<Rightarrow> (string \<times> string \<times> string \<times> string \<times> gotime option \<times> bool) list" where
  "Leases s = map (\<lambda>(k, r). let l = ds_obj s ! r in
     (ls_IP l, ls_MAC l, ls_DUID l, ls_Hostname l, if ls_Static l then None else Some (ls_Expires l), ls_Static l)) (ds_leases s)"

end
