(* ===== verification/DhcpProto.thy ===== *)
theory DhcpProto
  imports Dhcp
begin

unbundle bit_operations_syntax

text \<open>
  The packet handlers of the DHCP server (\<^verbatim>\<open>handler_v4.go\<close>, \<^verbatim>\<open>handler_v6.go\<close>). A request is the record of what the DHCP
  library reads out of a packet; a reply is the list of modifiers the code hands to the library with the request, and
  \<open>dhcpLib\<close> says whether the library could build it. What is sent is an event.
\<close>

section \<open>Client hostnames\<close>

text \<open>\<^verbatim>\<open>parseLabelName\<close>: the labels up to the zero byte, nothing when one is too long.\<close>

function parseLabels :: "byte list \<Rightarrow> string list option" where
  "parseLabels [] = Some []"
| "parseLabels (l # r) =
     (if l = 0 then Some []
      else if unat l > 63 \<or> unat l > length r then None
      else map_option ((#) (map (char_of \<circ> unat) (take (unat l) r))) (parseLabels (drop (unat l) r)))"
  by pat_completeness auto
termination by (relation "measure length") auto

definition parseLabelName :: "byte list \<Rightarrow> string" where
  "parseLabelName b = (case parseLabels b of None \<Rightarrow> [] | Some parts \<Rightarrow> join_with ''.'' parts)"

definition label_char :: "char \<Rightarrow> bool" where
  "label_char c \<longleftrightarrow> (let n = of_char c :: nat in 97 \<le> n \<and> n \<le> 122 \<or> 48 \<le> n \<and> n \<le> 57 \<or> n = 45)"

text \<open>On ASCII input; a byte of another letter is dropped like every other character.\<close>

definition sanitizeHostname :: "string \<Rightarrow> string" where
  "sanitizeHostname h0 =
     (let h = ToLower (TrimSpace h0); h' = (case IndexByte h CHR ''.'' of None \<Rightarrow> h | Some i \<Rightarrow> take i h)
      in take 63 (filter label_char h'))"

section \<open>DHCPv4\<close>

datatype mtype4 = Discover4 | Offer4 | Request4 | Decline4 | Ack4 | Nak4 | Release4 | Inform4 | Other4 nat

record v4req =
  v4_type :: mtype4
  v4_mac :: "byte list option"
  v4_serverID :: IP
  v4_requested :: IP
  v4_ciaddr :: IP
  v4_giaddr :: IP
  v4_fqdn :: "byte list"
  v4_hostname :: string
  v4_broadcast :: bool

datatype opt4 = WithMessageType mtype4 | WithServerIP IP | WithYourIP IP | WithLeaseTime "32 word" | WithNetmask "byte list"
  | WithRouter IP | WithDNS "IP list" | WithDomainSearchList string | WithBroadcast bool

datatype mtype6 = Solicit6 | Advertise6 | Request6 | Confirm6 | Renew6 | Rebind6 | Reply6 | Release6 | Decline6 | InformationRequest6 | Other6 nat

record v6req =
  v6_type :: mtype6
  v6_clientID :: "duid option"
  v6_serverID :: "duid option"
  v6_ianas :: "(byte list \<times> IP list) list"
  v6_rapid :: bool
  v6_fqdn :: "string list option"

datatype status6 = StatusNotOnLink | StatusNoAddrsAvail

datatype opt6 = WithServerID "duid option" | WithClientID "duid option" | WithDNS6 "IP list" | WithDomainSearchList6 string
  | OptIANA "byte list" IP duration duration | OptStatusCode status6

text \<open>The library: whether \<^verbatim>\<open>NewReplyFromRequest\<close>, and \<^verbatim>\<open>NewReplyFromMessage\<close> or \<^verbatim>\<open>NewAdvertiseFromSolicit\<close> (by the type of the
  reply) succeed on a request and modifiers, and the bytes of a DUID.\<close>

record dhcpLib =
  dl_reply4 :: "v4req \<Rightarrow> opt4 list \<Rightarrow> bool"
  dl_reply6 :: "mtype6 \<Rightarrow> v6req \<Rightarrow> opt6 list \<Rightarrow> bool"
  dl_duidBytes :: "duid \<Rightarrow> byte list"

text \<open>Where a DHCPv6 reply goes: to the peer itself, or to an address on port 547.\<close>

datatype dest6 = ToPeer | ToAddr IP nat

datatype dhcp_event = Send4 IP nat "opt4 list" | Send6 dest6 mtype6 "opt6 list"

definition net_IPv4zero :: IP where "net_IPv4zero = To16 [0, 0, 0, 0]"
definition net_IPv4bcast :: IP where "net_IPv4bcast = To16 [255, 255, 255, 255]"

text \<open>A field of the packet that holds an address.\<close>

definition isSet4 :: "IP \<Rightarrow> bool" where "isSet4 ip \<longleftrightarrow> ip \<noteq> [] \<and> \<not> IP_Equal ip net_IPv4zero"

definition keyOf4 :: "v4req \<Rightarrow> leaseKey" where
  "keyOf4 m = v4Key (case v4_mac m of None \<Rightarrow> [] | Some b \<Rightarrow> b)"

definition macOf4 :: "v4req \<Rightarrow> string" where
  "macOf4 m = HW_String (case v4_mac m of None \<Rightarrow> [] | Some b \<Rightarrow> b)"

definition clientHostname4 :: "v4req \<Rightarrow> string" where
  "clientHostname4 m =
     (if length (v4_fqdn m) > 3 \<and> parseLabelName (drop 3 (v4_fqdn m)) \<noteq> [] then sanitizeHostname (parseLabelName (drop 3 (v4_fqdn m)))
      else if v4_hostname m \<noteq> [] then sanitizeHostname (v4_hostname m) else [])"

definition sendV4 :: "v4req \<Rightarrow> opt4 list \<Rightarrow> dhcp_event list" where
  "sendV4 m opts =
     (if isSet4 (v4_giaddr m) then [Send4 (v4_giaddr m) 67 opts]
      else if isSet4 (v4_ciaddr m) then [Send4 (v4_ciaddr m) 68 opts]
      else [Send4 net_IPv4bcast 68 opts])"

definition v4Options :: "dhcpServer \<Rightarrow> v4req \<Rightarrow> mtype4 \<Rightarrow> IP \<Rightarrow> opt4 list" where
  "v4Options s m msgType yiaddr =
     (let cfg = ds_cfg s; dns = (if dc_DNS cfg = [] \<and> dc_ServerIPv4 cfg \<noteq> [] then [dc_ServerIPv4 cfg] else dc_DNS cfg)
      in [WithMessageType msgType, WithServerIP (dc_ServerIPv4 cfg)]
         @ (if yiaddr \<noteq> [] then [WithYourIP yiaddr] else [])
         @ (if msgType = Offer4 \<or> msgType = Ack4 then
              [WithLeaseTime (of_int (leaseTimeLocked s div Second))]
              @ (case dc_Subnet cfg of None \<Rightarrow> [] | Some n \<Rightarrow> [WithNetmask (net_Mask n)])
              @ (if dc_Gateway cfg \<noteq> [] then [WithRouter (dc_Gateway cfg)] else [])
              @ (if dns \<noteq> [] then [WithDNS dns] else [])
              @ (if dc_Domain cfg \<noteq> [] then [WithDomainSearchList (dc_Domain cfg)] else [])
              @ (if v4_broadcast m then [WithBroadcast True] else [])
            else []))"

definition reply4 :: "dhcpLib \<Rightarrow> v4req \<Rightarrow> opt4 list \<Rightarrow> dhcp_event list" where
  "reply4 lib m opts = (if dl_reply4 lib m opts then sendV4 m opts else [])"

definition v4Reply :: "dhcpLib \<Rightarrow> dhcpServer \<Rightarrow> v4req \<Rightarrow> mtype4 \<Rightarrow> IP \<Rightarrow> dhcp_event list" where
  "v4Reply lib s m msgType yiaddr = reply4 lib m (v4Options s m msgType yiaddr)"

definition v4Nak :: "dhcpLib \<Rightarrow> dhcpServer \<Rightarrow> v4req \<Rightarrow> dhcp_event list" where
  "v4Nak lib s m = reply4 lib m [WithMessageType Nak4, WithServerIP (dc_ServerIPv4 (ds_cfg s))]"

text \<open>A packet that names another server.\<close>

definition foreign4 :: "dhcpServer \<Rightarrow> v4req \<Rightarrow> bool" where
  "foreign4 s m \<longleftrightarrow> v4_serverID m \<noteq> [] \<and> \<not> IP_Equal (v4_serverID m) (dc_ServerIPv4 (ds_cfg s))"

definition v4Discover :: "dhcpLib \<Rightarrow> gotime \<Rightarrow> v4req \<Rightarrow> dhcpServer \<Rightarrow> dhcp_event list \<times> dhcpServer" where
  "v4Discover lib now m s =
     (if foreign4 s m then ([], s)
      else case allocV4 s now (v4_mac m) (v4_requested m) (clientHostname4 m) of
        ((None, _), s') \<Rightarrow> ([], s')
      | ((Some ip, _), s') \<Rightarrow> (v4Reply lib s' m Offer4 ip, s'))"

text \<open>The address a REQUEST is about: the option, or the address a renewing client already has.\<close>

definition requested4 :: "v4req \<Rightarrow> IP" where
  "requested4 m =
     (if \<not> isSet4 (v4_requested m) \<and> isSet4 (v4_ciaddr m) then v4_ciaddr m else v4_requested m)"

definition byIPOf :: "dhcpServer \<Rightarrow> IP \<Rightarrow> leaseKey" where
  "byIPOf s ip = (case leaseAt s (IP_String ip) of None \<Rightarrow> [] | Some l \<Rightarrow> ls_Key l)"

datatype verdict = Ignore | Nak | Grant IP

text \<open>The first half of \<^verbatim>\<open>v4Request\<close>, which decides, and the second, which commits: each takes the lock for itself.\<close>

definition v4RequestCheck :: "gotime \<Rightarrow> v4req \<Rightarrow> dhcpServer \<Rightarrow> verdict \<times> dhcpServer" where
  "v4RequestCheck now m s =
     (let key = keyOf4 m; req = requested4 m in
      if foreign4 s m then (Ignore, s)
      else if v4_serverID m = [] \<and> (req = [] \<or> \<not> addrInPoolLocked s req False \<or> byIPOf s req \<noteq> [] \<and> byIPOf s req \<noteq> key) then (Nak, s)
      else if req = [] \<or> \<not> addrInPoolLocked s req False then (Nak, s)
      else case inUseLocked s now req key of (used, s') \<Rightarrow> (if used then Nak else Grant req, s'))"

definition v4RequestCommit :: "gotime \<Rightarrow> v4req \<Rightarrow> IP \<Rightarrow> dhcpServer \<Rightarrow> dhcpServer" where
  "v4RequestCommit now m req s =
     (let hostname = clientHostname4 m;
          lease = \<lparr>ls_Key = keyOf4 m, ls_MAC = macOf4 m, ls_DUID = [], ls_IP = IP_String req, ls_Hostname = hostname, ls_Expires = 0, ls_Static = False\<rparr>
      in commitLocked s now
           (case staticForClientLocked s (v4_mac m) [] of
              Some st \<Rightarrow>
                if To4 (sl_IP st) \<noteq> [] \<and> IP_Equal (sl_IP st) req
                then lease\<lparr>ls_Hostname := (if sl_Hostname st = [] then hostname else sl_Hostname st), ls_Static := True\<rparr>
                else lease
            | None \<Rightarrow> lease))"

definition ackWith :: "dhcpLib \<Rightarrow> v4req \<Rightarrow> IP \<Rightarrow> dhcpServer \<Rightarrow> dhcp_event list \<times> dhcpServer" where
  "ackWith lib m req s = (v4Reply lib s m Ack4 req, s)"

definition v4Request :: "dhcpLib \<Rightarrow> gotime \<Rightarrow> v4req \<Rightarrow> dhcpServer \<Rightarrow> dhcp_event list \<times> dhcpServer" where
  "v4Request lib now m s =
     (case v4RequestCheck now m s of
        (Ignore, s') \<Rightarrow> ([], s')
      | (Nak, s') \<Rightarrow> (v4Nak lib s' m, s')
      | (Grant req, s') \<Rightarrow> ackWith lib m req (v4RequestCommit now m req s'))"

definition v4Release :: "v4req \<Rightarrow> dhcpServer \<Rightarrow> dhcpServer" where
  "v4Release m s = (if isSet4 (v4_ciaddr m) then snd (releaseLease s (keyOf4 m) (v4_ciaddr m)) else s)"

definition v4Decline :: "gotime \<Rightarrow> v4req \<Rightarrow> dhcpServer \<Rightarrow> dhcpServer" where
  "v4Decline now m s = declineLease s now (if v4_requested m = [] then v4_ciaddr m else v4_requested m)"

definition v4Inform :: "dhcpLib \<Rightarrow> v4req \<Rightarrow> dhcpServer \<Rightarrow> dhcp_event list \<times> dhcpServer" where
  "v4Inform lib m s = (v4Reply lib s m Ack4 [], s)"

definition handleV4 :: "dhcpLib \<Rightarrow> gotime \<Rightarrow> v4req \<Rightarrow> dhcpServer \<Rightarrow> dhcp_event list \<times> dhcpServer" where
  "handleV4 lib now m s =
     (case v4_type m of
        Discover4 \<Rightarrow> v4Discover lib now m s
      | Request4 \<Rightarrow> v4Request lib now m s
      | Release4 \<Rightarrow> ([], v4Release m s)
      | Decline4 \<Rightarrow> ([], v4Decline now m s)
      | Inform4 \<Rightarrow> v4Inform lib m s
      | _ \<Rightarrow> ([], s))"

section \<open>DHCPv6\<close>

definition duidHex :: "dhcpLib \<Rightarrow> duid option \<Rightarrow> string" where
  "duidHex lib d = (case d of None \<Rightarrow> [] | Some x \<Rightarrow> hex_EncodeToString (dl_duidBytes lib x))"

definition clientHostname6 :: "v6req \<Rightarrow> string" where
  "clientHostname6 m =
     (case v6_fqdn m of
        None \<Rightarrow> []
      | Some labels \<Rightarrow>
          let name = join_with ''.'' labels
          in sanitizeHostname (case IndexByte name CHR ''.'' of None \<Rightarrow> name | Some i \<Rightarrow> take i name))"

definition iaAddrs6 :: "v6req \<Rightarrow> IP list" where "iaAddrs6 m = concat (map snd (v6_ianas m))"

definition requestedAddr6 :: "v6req \<Rightarrow> IP" where
  "requestedAddr6 m = (case iaAddrs6 m of [] \<Rightarrow> [] | a # _ \<Rightarrow> a)"

definition dns6 :: "dhcpServer \<Rightarrow> IP list" where
  "dns6 s = (if dc_DNS (ds_cfg s) \<noteq> [] then dc_DNS (ds_cfg s) else if dc_ServerIPv6 (ds_cfg s) \<noteq> [] then [dc_ServerIPv6 (ds_cfg s)] else [])"

definition v6BaseMods :: "dhcpServer \<Rightarrow> v6req \<Rightarrow> opt6 list" where
  "v6BaseMods s m =
     [WithServerID (ds_serverDUID s), WithClientID (v6_clientID m)]
     @ (if dns6 s \<noteq> [] then [WithDNS6 (dns6 s)] else [])
     @ (if dc_Domain (ds_cfg s) \<noteq> [] then [WithDomainSearchList6 (dc_Domain (ds_cfg s))] else [])"

definition v6IANA :: "dhcpServer \<Rightarrow> v6req \<Rightarrow> IP \<Rightarrow> bool \<Rightarrow> opt6" where
  "v6IANA s m ip static =
     (let iaid = (case v6_ianas m of [] \<Rightarrow> [0, 0, 0, 0] | (i, _) # _ \<Rightarrow> i);
          valid = (if static then 0xffffffff * Second else leaseTimeLocked s)
      in OptIANA iaid ip (valid div v6PreferredFraction) valid)"

definition IsMulticast :: "IP \<Rightarrow> bool" where
  "IsMulticast ip \<longleftrightarrow> (if To4 ip \<noteq> [] then hd (To4 ip) AND 0xf0 = 0xe0 else length ip = 16 \<and> hd ip = 0xff)"

text \<open>The peer of a packet: absent, an address, or of a kind without one.\<close>

definition sendV6 :: "IP option option \<Rightarrow> mtype6 \<Rightarrow> opt6 list \<Rightarrow> dhcp_event list" where
  "sendV6 peer typ opts =
     (case peer of
        None \<Rightarrow> [Send6 (ToAddr (ParseIP ''ff02::1:2'') 547) typ opts]
      | Some None \<Rightarrow> [Send6 ToPeer typ opts]
      | Some (Some ip) \<Rightarrow> if ip \<noteq> [] \<and> IsMulticast ip then [Send6 (ToAddr ip 547) typ opts] else [Send6 ToPeer typ opts])"

definition reply6 :: "dhcpLib \<Rightarrow> IP option option \<Rightarrow> mtype6 \<Rightarrow> v6req \<Rightarrow> opt6 list \<Rightarrow> dhcp_event list" where
  "reply6 lib peer typ m opts = (if dl_reply6 lib typ m opts then sendV6 peer typ opts else [])"

definition v6NoAddrs :: "dhcpLib \<Rightarrow> IP option option \<Rightarrow> v6req \<Rightarrow> dhcpServer \<Rightarrow> dhcp_event list" where
  "v6NoAddrs lib peer m s = reply6 lib peer Reply6 m (v6BaseMods s m @ [OptStatusCode StatusNoAddrsAvail])"

definition lease6 :: "string \<Rightarrow> string \<Rightarrow> IP \<Rightarrow> bool \<Rightarrow> Lease" where
  "lease6 clientHex hostname ip static =
     \<lparr>ls_Key = v6Key clientHex, ls_MAC = [], ls_DUID = clientHex, ls_IP = IP_String ip, ls_Hostname = hostname, ls_Expires = 0, ls_Static = static\<rparr>"

definition v6Solicit :: "dhcpLib \<Rightarrow> gotime \<Rightarrow> IP option option \<Rightarrow> v6req \<Rightarrow> string \<Rightarrow> dhcpServer \<Rightarrow> (dhcp_event list \<times> dhcpServer) option" where
  "v6Solicit lib now peer m clientHex s =
     (case allocV6 s now clientHex (clientHostname6 m) (requestedAddr6 m) of
        None \<Rightarrow> None
      | Some ((ip, static), s1) \<Rightarrow>
          let mods = v6BaseMods s1 m @ (case ip of None \<Rightarrow> [] | Some a \<Rightarrow> [v6IANA s1 m a static]);
              typ = (if v6_rapid m then Reply6 else Advertise6)
          in Some (if \<not> dl_reply6 lib typ m mods then ([], s1)
                   else (sendV6 peer typ mods,
                     case ip of Some a \<Rightarrow> if v6_rapid m then commitLocked s1 now (lease6 clientHex (clientHostname6 m) a static) else s1
                              | None \<Rightarrow> s1)))"

definition v6Request :: "dhcpLib \<Rightarrow> gotime \<Rightarrow> IP option option \<Rightarrow> v6req \<Rightarrow> string \<Rightarrow> dhcpServer \<Rightarrow> dhcp_event list \<times> dhcpServer" where
  "v6Request lib now peer m clientHex s =
     (let key = v6Key clientHex; r0 = requestedAddr6 m;
          req = (if r0 = [] then (case leaseOf s key of None \<Rightarrow> [] | Some l \<Rightarrow> ParseIP (ls_IP l)) else r0) in
      if req = [] \<or> \<not> addrInPoolLocked s req True then (v6NoAddrs lib peer m s, s)
      else case inUseLocked s now req key of
        (used, s1) \<Rightarrow>
          if used then (v6NoAddrs lib peer m s1, s1)
          else
            let static = (case staticForClientLocked s1 None clientHex of None \<Rightarrow> False | Some st \<Rightarrow> IP_Equal (sl_IP st) req);
                s2 = commitLocked s1 now (lease6 clientHex (clientHostname6 m) req static)
            in (reply6 lib peer Reply6 m (v6BaseMods s2 m @ [v6IANA s2 m req static]), s2))"

definition v6Release :: "v6req \<Rightarrow> string \<Rightarrow> dhcpServer \<Rightarrow> dhcpServer" where
  "v6Release m clientHex s = snd (releaseLease s (v6Key clientHex) (requestedAddr6 m))"

definition v6Confirm :: "dhcpLib \<Rightarrow> IP option option \<Rightarrow> v6req \<Rightarrow> dhcpServer \<Rightarrow> dhcp_event list" where
  "v6Confirm lib peer m s =
     (let onLink = list_all (\<lambda>a. addrInPoolLocked s a True) (iaAddrs6 m)
      in reply6 lib peer Reply6 m (v6BaseMods s m @ (if onLink then [] else [OptStatusCode StatusNotOnLink])))"

definition v6Decline :: "gotime \<Rightarrow> v6req \<Rightarrow> dhcpServer \<Rightarrow> dhcpServer" where
  "v6Decline now m s = fold (\<lambda>a s. declineLease s now a) (iaAddrs6 m) s"

definition v6InfoRequest :: "dhcpLib \<Rightarrow> IP option option \<Rightarrow> v6req \<Rightarrow> dhcpServer \<Rightarrow> dhcp_event list" where
  "v6InfoRequest lib peer m s = reply6 lib peer Reply6 m (v6BaseMods s m)"

text \<open>\<^verbatim>\<open>handleV6\<close>; the inner message is absent when the library finds none. Without a result the search for an address runs on.\<close>

definition handleV6 :: "dhcpLib \<Rightarrow> gotime \<Rightarrow> IP option option \<Rightarrow> v6req option \<Rightarrow> dhcpServer \<Rightarrow> (dhcp_event list \<times> dhcpServer) option" where
  "handleV6 lib now peer inner s =
     (case inner of
        None \<Rightarrow> Some ([], s)
      | Some m \<Rightarrow>
          let hexID = duidHex lib (v6_clientID m) in
          if hexID = [] \<or> v6_serverID m \<noteq> None \<and> v6_serverID m \<noteq> ds_serverDUID s then Some ([], s)
          else case v6_type m of
            Solicit6 \<Rightarrow> v6Solicit lib now peer m hexID s
          | Request6 \<Rightarrow> Some (v6Request lib now peer m hexID s)
          | Renew6 \<Rightarrow> Some (v6Request lib now peer m hexID s)
          | Rebind6 \<Rightarrow> Some (v6Request lib now peer m hexID s)
          | Release6 \<Rightarrow> Some ([], v6Release m hexID s)
          | Confirm6 \<Rightarrow> Some (v6Confirm lib peer m s, s)
          | Decline6 \<Rightarrow> Some ([], v6Decline now m s)
          | InformationRequest6 \<Rightarrow> Some (v6InfoRequest lib peer m s, s)
          | _ \<Rightarrow> Some ([], s))"

end
