(* ===== verification/DhcpProps.thy ===== *)
theory DhcpProps
  imports DhcpProto
begin

text \<open>
  Properties of the DHCP server: the lease table stays consistent under every packet, an address offered to a client is
  refused to every other, the pool hands out its range and nothing else when the range does not carry between its bytes, the
  IPv6 search ends, leases survive a restart, and names resolve to the addresses leased; and where the code fails.
\<close>

section \<open>Fields that an operation leaves alone\<close>

lemma rebuild_fields [simp]:
  "ds_cfg (rebuildHostsLocked s) = ds_cfg s" "ds_obj (rebuildHostsLocked s) = ds_obj s" "ds_leases (rebuildHostsLocked s) = ds_leases s"
  "ds_byIP (rebuildHostsLocked s) = ds_byIP s" "ds_reserved (rebuildHostsLocked s) = ds_reserved s" "ds_disk (rebuildHostsLocked s) = ds_disk s"
  "ds_cfg (markDirtyLocked s) = ds_cfg s" "ds_obj (markDirtyLocked s) = ds_obj s" "ds_leases (markDirtyLocked s) = ds_leases s"
  "ds_byIP (markDirtyLocked s) = ds_byIP s" "ds_reserved (markDirtyLocked s) = ds_reserved s" "ds_disk (markDirtyLocked s) = ds_disk s"
  by (simp_all add: rebuildHostsLocked_def setHosts_def markDirtyLocked_def)

section \<open>The lease table\<close>

text \<open>Address strings as the server writes them for IPv4.\<close>

definition canon4 :: "string \<Rightarrow> bool" where
  "canon4 a \<longleftrightarrow> (\<exists>b. length b = 4 \<and> a = IP_String b)"

abbreviation is_v4Key :: "leaseKey \<Rightarrow> bool" where
  "is_v4Key k \<equiv> take 3 k = ''v4:''"

text \<open>A client points to its own lease, and the lease's address points back to it; an address that is leased is not on
  offer to another client; IPv4 addresses are written canonically.\<close>

definition table_ok :: "dhcpServer \<Rightarrow> bool" where
  "table_ok s \<longleftrightarrow> gm_wf (ds_leases s) \<and> gm_wf (ds_reserved s) \<and>
     (\<forall>k r. map_of (ds_leases s) k = Some r \<longrightarrow> r < length (ds_obj s) \<and> ls_Key (ds_obj s ! r) = k \<and> map_of (ds_byIP s) (ls_IP (ds_obj s ! r)) = Some r) \<and>
     (\<forall>a r. map_of (ds_byIP s) a = Some r \<longrightarrow> r < length (ds_obj s) \<and> ls_IP (ds_obj s ! r) = a) \<and>
     (\<forall>a r v. map_of (ds_byIP s) a = Some r \<longrightarrow> map_of (ds_reserved s) a = Some v \<longrightarrow> rv_key v = ls_Key (ds_obj s ! r)) \<and>
     (\<forall>k r. map_of (ds_leases s) k = Some r \<longrightarrow> is_v4Key k \<longrightarrow> canon4 (ls_IP (ds_obj s ! r))) \<and>
     (\<forall>a v. map_of (ds_reserved s) a = Some v \<longrightarrow> is_v4Key (rv_key v) \<longrightarrow> canon4 a)"

lemma table_okD:
  assumes "table_ok s"
  shows "gm_wf (ds_leases s)"
    and "map_of (ds_leases s) k = Some r \<Longrightarrow> r < length (ds_obj s) \<and> ls_Key (ds_obj s ! r) = k \<and> map_of (ds_byIP s) (ls_IP (ds_obj s ! r)) = Some r"
    and "map_of (ds_byIP s) a = Some r \<Longrightarrow> r < length (ds_obj s) \<and> ls_IP (ds_obj s ! r) = a"
    and "map_of (ds_byIP s) a = Some r \<Longrightarrow> map_of (ds_reserved s) a = Some v \<Longrightarrow> rv_key v = ls_Key (ds_obj s ! r)"
    and "map_of (ds_leases s) k = Some r \<Longrightarrow> is_v4Key k \<Longrightarrow> canon4 (ls_IP (ds_obj s ! r))"
    and "map_of (ds_reserved s) a = Some v \<Longrightarrow> is_v4Key (rv_key v) \<Longrightarrow> canon4 a"
    and "gm_wf (ds_reserved s)"
  using assms by (auto simp: table_ok_def)

text \<open>The table depends on the lease objects, the two maps and the offers only.\<close>

lemma table_ok_cong:
  "ds_obj s' = ds_obj s \<Longrightarrow> ds_leases s' = ds_leases s \<Longrightarrow> ds_byIP s' = ds_byIP s \<Longrightarrow> ds_reserved s' = ds_reserved s \<Longrightarrow> table_ok s \<Longrightarrow> table_ok s'"
  by (simp add: table_ok_def)

text \<open>Dropping an address together with its client's entry, which is what reclaiming, releasing and declining do.\<close>

lemma table_ok_drop:
  assumes ok: "table_ok s" and at: "map_of (ds_byIP s) a = Some r"
    and s': "ds_obj s' = ds_obj s" "ds_leases s' = gm_del (ls_Key (ds_obj s ! r)) (ds_leases s)" "ds_byIP s' = gm_del a (ds_byIP s)"
      "ds_reserved s' = ds_reserved s"
  shows "table_ok s'"
proof -
  have "map_of (ds_byIP s') (ls_IP (ds_obj s ! r')) = Some r'" if "map_of (ds_leases s') k = Some r'" for k r'
  proof -
    have k: "k \<noteq> ls_Key (ds_obj s ! r)" "map_of (ds_leases s) k = Some r'" using that s' by (auto split: if_splits)
    then have "ls_IP (ds_obj s ! r') \<noteq> a" using table_okD(2)[OF ok k(2)] at by auto
    then show ?thesis using table_okD(2)[OF ok k(2)] s' by simp
  qed
  then show ?thesis using ok s' unfolding table_ok_def by (auto split: if_splits)
qed

lemma table_ok_reserved:
  assumes ok: "table_ok s" and at: "\<And>r. map_of (ds_byIP s) a = Some r \<Longrightarrow> ls_Key (ds_obj s ! r) = rv_key v"
    and v4: "is_v4Key (rv_key v) \<Longrightarrow> canon4 a"
    and s': "ds_obj s' = ds_obj s" "ds_leases s' = ds_leases s" "ds_byIP s' = ds_byIP s" "ds_reserved s' = gm_put a v (ds_reserved s)"
  shows "table_ok s'"
  using ok at v4 s' unfolding table_ok_def by (auto split: if_splits)

lemma leaseAt_Some: "leaseAt s a = Some l \<longleftrightarrow> (\<exists>r. map_of (ds_byIP s) a = Some r \<and> l = ds_obj s ! r)"
  by (auto simp: leaseAt_def)

lemma leaseOf_Some: "leaseOf s k = Some l \<longleftrightarrow> (\<exists>r. map_of (ds_leases s) k = Some r \<and> l = ds_obj s ! r)"
  by (auto simp: leaseOf_def)

lemma reclaim_ok: "table_ok s \<Longrightarrow> leaseAt s a = Some l \<Longrightarrow> table_ok (reclaim s a l)"
  by (auto simp: leaseAt_Some reclaim_def intro: table_ok_drop)

lemma inUse_ok: "table_ok s \<Longrightarrow> table_ok (snd (inUseLocked s now ip key))"
  by (auto simp: inUseLocked_def Let_def reclaim_ok split: option.split)

text \<open>What a free address is: nobody else's lease, nobody else's live offer.\<close>

lemma inUse_free:
  assumes "inUseLocked s now ip key = (False, s')"
  shows "leaseAt s' (IP_String ip) = Some l \<Longrightarrow> ls_Key l = key"
    and "map_of (ds_reserved s') (IP_String ip) = Some v \<Longrightarrow> rv_until v > now \<Longrightarrow> rv_key v = key"
    and "leaseAt s (IP_String ip) = Some l \<Longrightarrow> ls_Key l = key \<or> \<not> ls_Static l \<and> ls_Expires l \<le> now"
  using assms by (auto simp: inUseLocked_def Let_def reclaim_def reservedFor_def leaseAt_def split: option.splits if_splits)

lemma inUse_fields [simp]:
  "ds_cfg (snd (inUseLocked s now ip key)) = ds_cfg s" "ds_obj (snd (inUseLocked s now ip key)) = ds_obj s"
  "ds_reserved (snd (inUseLocked s now ip key)) = ds_reserved s" "ds_disk (snd (inUseLocked s now ip key)) = ds_disk s"
  "ds_cursor4 (snd (inUseLocked s now ip key)) = ds_cursor4 s"
  by (auto simp: inUseLocked_def Let_def reclaim_def rebuildHostsLocked_def setHosts_def markDirtyLocked_def split: option.split)

text \<open>A commit points its client and its address to the new lease, and removes whoever had the address before.\<close>

lemma install_fields:
  "ds_obj (installLease l s) = ds_obj s @ [l]" "ds_leases (installLease l s) = gm_put (ls_Key l) (length (ds_obj s)) (ds_leases s)"
  "ds_byIP (installLease l s) = gm_put (ls_IP l) (length (ds_obj s)) (ds_byIP s)" "ds_reserved (installLease l s) = ds_reserved s"
  "ds_cfg (installLease l s) = ds_cfg s" "ds_disk (installLease l s) = ds_disk s"
  by (simp_all add: installLease_def newLease_def)

lemma dropOther_fields [simp]:
  "ds_obj (dropOther l s) = ds_obj s" "ds_byIP (dropOther l s) = ds_byIP s" "ds_reserved (dropOther l s) = ds_reserved s"
  "ds_cfg (dropOther l s) = ds_cfg s" "ds_disk (dropOther l s) = ds_disk s"
  by (simp_all add: dropOther_def split: option.split)

lemma clearOffer_fields [simp]:
  "ds_obj (clearOffer a s) = ds_obj s" "ds_byIP (clearOffer a s) = ds_byIP s" "ds_leases (clearOffer a s) = ds_leases s"
  "ds_cfg (clearOffer a s) = ds_cfg s" "ds_disk (clearOffer a s) = ds_disk s" "ds_reserved (clearOffer a s) = gm_del a (ds_reserved s)"
  "leaseAt (clearOffer a s) b = leaseAt s b"
  by (simp_all add: clearOffer_def leaseAt_def)

lemma stamp_fields [simp]:
  "ls_Key (stampLease s now l) = ls_Key l" "ls_IP (stampLease s now l) = ls_IP l" "ls_Static (stampLease s now l) = ls_Static l"
  "ls_Hostname (stampLease s now l) = ls_Hostname l"
  by (simp_all add: stampLease_def)

lemma commit_fields [simp]:
  "ds_cfg (commitLocked s now l) = ds_cfg s" "ds_disk (commitLocked s now l) = ds_disk s"
  "ds_reserved (commitLocked s now l) = gm_del (ls_IP l) (ds_reserved s)"
  "ds_byIP (commitLocked s now l) = gm_put (ls_IP l) (length (ds_obj s)) (ds_byIP s)"
  by (simp_all add: commitLocked_def commitStamped_def install_fields)

lemma commit_obj: "ds_obj (commitLocked s now l) = ds_obj s @ [stampLease s now l]"
  by (simp add: commitLocked_def commitStamped_def install_fields)

lemma commit_leases:
  "map_of (ds_leases (commitLocked s now l)) k =
     (if k = ls_Key l then Some (length (ds_obj s))
      else if \<exists>old. leaseAt s (ls_IP l) = Some old \<and> ls_Key old = k then None else map_of (ds_leases s) k)"
  by (auto simp: commitLocked_def commitStamped_def install_fields dropOther_def split: option.split)

lemma commit_wf: "gm_wf (ds_leases s) \<Longrightarrow> gm_wf (ds_leases (commitLocked s now l))"
  by (auto simp: commitLocked_def commitStamped_def install_fields dropOther_def split: option.split)

text \<open>A lease put in the place of whatever its client had and whoever had its address.\<close>

lemma table_ok_add:
  assumes ok: "table_ok s" and v4: "is_v4Key (ls_Key l) \<Longrightarrow> canon4 (ls_IP l)"
    and obj: "ds_obj s' = ds_obj s @ [l]" and wf: "gm_wf (ds_leases s')"
    and leases: "\<And>k. map_of (ds_leases s') k = (if k = ls_Key l then Some (length (ds_obj s))
        else if \<exists>old. leaseAt s (ls_IP l) = Some old \<and> ls_Key old = k then None else map_of (ds_leases s) k)"
    and byIP: "ds_byIP s' = gm_put (ls_IP l) (length (ds_obj s)) (ds_byIP s)" and res: "ds_reserved s' = gm_del (ls_IP l) (ds_reserved s)"
  shows "table_ok s'"
  unfolding table_ok_def
proof (intro conjI allI impI)
  let ?n = "length (ds_obj s)"
  have old: "k \<noteq> ls_Key l \<and> map_of (ds_leases s) k = Some r \<and> r < ?n \<and> ls_IP (ds_obj s ! r) \<noteq> ls_IP l"
    if "map_of (ds_leases s') k = Some r" "r \<noteq> ?n" for k r
  proof -
    have k: "k \<noteq> ls_Key l" "map_of (ds_leases s) k = Some r" "\<nexists>old. leaseAt s (ls_IP l) = Some old \<and> ls_Key old = k"
      using that by (auto simp: leases split: if_splits)
    then show ?thesis using table_okD(2)[OF ok k(2)] by (auto simp: leaseAt_def)
  qed
  show "gm_wf (ds_leases s')" by (rule wf)
  show "gm_wf (ds_reserved s')" using table_okD(7)[OF ok] by (simp add: res)
  fix k r
  assume kr: "map_of (ds_leases s') k = Some r"
  have key: "r = ?n \<Longrightarrow> k = ls_Key l"
    using kr table_okD(2)[OF ok, of k r] by (auto simp: leases split: if_splits)
  show "r < length (ds_obj s')" using old[OF kr] by (cases "r = ?n") (auto simp: obj)
  show "ls_Key (ds_obj s' ! r) = k" using old[OF kr] key table_okD(2)[OF ok, of k r] by (cases "r = ?n") (auto simp: obj nth_append)
  show "map_of (ds_byIP s') (ls_IP (ds_obj s' ! r)) = Some r"
    using old[OF kr] table_okD(2)[OF ok, of k r] by (cases "r = ?n") (auto simp: obj byIP nth_append)
  show "canon4 (ls_IP (ds_obj s' ! r))" if "is_v4Key k"
    using old[OF kr] key that v4 table_okD(5)[OF ok, of k r] by (cases "r = ?n") (auto simp: obj nth_append)
next
  fix a r
  assume ar: "map_of (ds_byIP s') a = Some r"
  show "r < length (ds_obj s')" "ls_IP (ds_obj s' ! r) = a"
    using ar table_okD(3)[OF ok, of a r] by (auto simp: obj byIP nth_append split: if_splits)
  show "rv_key v = ls_Key (ds_obj s' ! r)" if "map_of (ds_reserved s') a = Some v" for v
    using ar that table_okD(3,4)[OF ok, of a r] by (auto simp: obj byIP res nth_append split: if_splits)
next
  fix a v
  assume "map_of (ds_reserved s') a = Some v" "is_v4Key (rv_key v)"
  then show "canon4 a" using table_okD(6)[OF ok] by (auto simp: res split: if_splits)
qed

lemma commit_ok:
  assumes "table_ok s" "is_v4Key (ls_Key l) \<Longrightarrow> canon4 (ls_IP l)"
  shows "table_ok (commitLocked s now l)"
  by (rule table_ok_add[OF assms(1), of "stampLease s now l"])
    (use assms commit_wf[OF table_okD(1)[OF assms(1)]] in \<open>simp_all add: commit_obj commit_leases\<close>)

text \<open>Changing a lease in place, but not its client or address, and dropping offers.\<close>

lemma table_ok_inplace:
  assumes ok: "table_ok s" and obj: "length (ds_obj s') = length (ds_obj s)"
      "\<And>i. ls_Key (ds_obj s' ! i) = ls_Key (ds_obj s ! i)" "\<And>i. ls_IP (ds_obj s' ! i) = ls_IP (ds_obj s ! i)"
    and maps: "ds_leases s' = ds_leases s" "ds_byIP s' = ds_byIP s"
    and res: "\<And>a v. map_of (ds_reserved s') a = Some v \<Longrightarrow> map_of (ds_reserved s) a = Some v" "gm_wf (ds_reserved s')"
  shows "table_ok s'"
  unfolding table_ok_def maps obj using table_okD[OF ok] res by blast

lemma renew_fields [simp]:
  "ds_leases (renewLocked s now r h) = ds_leases s" "ds_byIP (renewLocked s now r h) = ds_byIP s" "ds_cfg (renewLocked s now r h) = ds_cfg s"
  "length (ds_obj (renewLocked s now r h)) = length (ds_obj s)" "ds_disk (renewLocked s now r h) = ds_disk s"
  by (simp_all add: renewLocked_def Let_def)

lemma renew_obj:
  assumes "r < length (ds_obj s)"
  shows "ls_Key (ds_obj (renewLocked s now r h) ! i) = ls_Key (ds_obj s ! i)" "ls_IP (ds_obj (renewLocked s now r h) ! i) = ls_IP (ds_obj s ! i)"
    "ls_Static (ds_obj (renewLocked s now r h) ! r) \<or> ls_Expires (ds_obj (renewLocked s now r h) ! r) = now + leaseTimeLocked s"
  using assms by (cases "i = r"; simp add: renewLocked_def Let_def)+

lemma renew_ok:
  assumes "table_ok s" "r < length (ds_obj s)"
  shows "table_ok (renewLocked s now r h)"
proof (rule table_ok_inplace[OF assms(1)])
  fix a v
  assume "map_of (ds_reserved (renewLocked s now r h)) a = Some v"
  then show "map_of (ds_reserved s) a = Some v" by (auto simp: renewLocked_def Let_def split: if_splits)
next
  show "gm_wf (ds_reserved (renewLocked s now r h))" using table_okD(7)[OF assms(1)] by (simp add: renewLocked_def Let_def)
qed (simp_all add: renew_obj[OF assms(2)])

lemma release_ok:
  assumes "table_ok s"
  shows "table_ok (snd (releaseLease s key ip))"
proof (cases "map_of (ds_leases s) key")
  case (Some r)
  let ?l = "ds_obj s ! r"
  have "ls_Key ?l = key" "map_of (ds_byIP s) (ls_IP ?l) = Some r" using table_okD(2)[OF assms Some] by auto
  then have "table_ok (markDirtyLocked (rebuildHostsLocked (s\<lparr>ds_leases := gm_del key (ds_leases s), ds_byIP := gm_del (ls_IP ?l) (ds_byIP s)\<rparr>)))"
    using table_ok_drop[OF assms, of "ls_IP ?l" r] by simp
  then show ?thesis using assms Some by (simp add: releaseLease_def leaseOf_def)
qed (use assms in \<open>simp add: releaseLease_def leaseOf_def\<close>)

lemma decline_ok:
  assumes "table_ok s"
  shows "table_ok (declineLease s now ip)"
proof -
  define s1 where "s1 = (case leaseAt s (IP_String ip) of
      Some l \<Rightarrow> s\<lparr>ds_leases := gm_del (ls_Key l) (ds_leases s), ds_byIP := gm_del (IP_String ip) (ds_byIP s)\<rparr> | None \<Rightarrow> s)"
  have s1: "table_ok s1"
  proof (cases "map_of (ds_byIP s) (IP_String ip)")
    case (Some r)
    then show ?thesis using table_ok_drop[OF assms Some] by (simp add: s1_def leaseAt_def)
  qed (use assms in \<open>simp add: s1_def leaseAt_def\<close>)
  have free: "map_of (ds_byIP s1) (IP_String ip) = None" by (auto simp: s1_def leaseAt_def split: option.split)
  have "declineLease s now ip = (if ip = [] then s else markDirtyLocked (rebuildHostsLocked
      (s1\<lparr>ds_reserved := gm_put (IP_String ip) \<lparr>rv_key = [], rv_until = now + declinedHold\<rparr> (ds_reserved s1)\<rparr>)))"
    by (simp add: declineLease_def Let_def s1_def)
  then show ?thesis using assms table_ok_reserved[OF s1, of "IP_String ip" "\<lparr>rv_key = [], rv_until = now + declinedHold\<rparr>"] free by simp
qed

section \<open>Allocation\<close>

lemma poolAt_length [simp]: "length (poolAt b n) = length b"
proof -
  have "length (poolAt_rev bs c) = length bs" for bs c by (induction bs c rule: poolAt_rev.induct) auto
  then show ?thesis by (simp add: poolAt_def)
qed

text \<open>The search over the pool ends on an address that is free in the state it leaves, and keeps the table.\<close>

lemma scan4_Cons:
  "scan4 sb n now key (i # ixs) s =
     (let idx = (unat (ds_cursor4 s) + i) mod (n + 1); r = inUseLocked s now (poolAt sb idx) key in
      if fst r then scan4 sb n now key ixs (snd r) else (Some (poolAt sb idx), (snd r)\<lparr>ds_cursor4 := of_nat ((idx + 1) mod (n + 1))\<rparr>))"
  by (simp add: Let_def split: prod.split)

declare scan4.simps(2) [simp del]

lemma scan4_ok: "table_ok s \<Longrightarrow> table_ok (snd (scan4 sb n now key ixs s))"
proof (induction ixs arbitrary: s)
  case (Cons i ixs)
  let ?r = "inUseLocked s now (poolAt sb ((unat (ds_cursor4 s) + i) mod (n + 1))) key"
  have ok: "table_ok (snd ?r)" using Cons.prems by (rule inUse_ok)
  then have "table_ok ((snd ?r)\<lparr>ds_cursor4 := c\<rparr>)" for c by (rule table_ok_cong[rotated 4]) simp_all
  then show ?case using Cons.IH[OF ok] by (simp add: scan4_Cons Let_def)
qed simp

text \<open>An address a client may have: no lease of another client on it, and no live offer to one.\<close>

definition freeFor :: "dhcpServer \<Rightarrow> gotime \<Rightarrow> IP \<Rightarrow> leaseKey \<Rightarrow> bool" where
  "freeFor s now ip key \<longleftrightarrow> (\<forall>l. leaseAt s (IP_String ip) = Some l \<longrightarrow> ls_Key l = key) \<and>
     (\<forall>v. map_of (ds_reserved s) (IP_String ip) = Some v \<longrightarrow> rv_until v > now \<longrightarrow> rv_key v = key)"

abbreviation live :: "gotime \<Rightarrow> Lease \<Rightarrow> bool" where
  "live now l \<equiv> ls_Static l \<or> ls_Expires l > now"

lemma freeFor_cursor:
  "freeFor (s\<lparr>ds_cursor4 := c\<rparr>) now ip key = freeFor s now ip key" "freeFor (s\<lparr>ds_cursor6 := d\<rparr>) now ip key = freeFor s now ip key"
  by (simp_all add: freeFor_def leaseAt_def)

lemma inUse_freeFor: "inUseLocked s now ip key = (False, s') \<Longrightarrow> freeFor s' now ip key"
  by (auto simp: freeFor_def dest: inUse_free)

lemma inUse_keeps_live: "leaseAt s a = Some l \<Longrightarrow> live now l \<Longrightarrow> leaseAt (snd (inUseLocked s now ip key)) a = Some l"
  by (auto simp: inUseLocked_def Let_def reclaim_def leaseAt_def split: option.split)

lemma reserved_inUse: "reservedFor s now (IP_String ip) key \<Longrightarrow> fst (inUseLocked s now ip key)"
  by (auto simp: inUseLocked_def Let_def reclaim_def reservedFor_def split: option.splits)

lemma leased_inUse: "leaseAt s (IP_String ip) = Some l \<Longrightarrow> ls_Key l \<noteq> key \<Longrightarrow> live now l \<Longrightarrow> fst (inUseLocked s now ip key)"
  by (auto simp: inUseLocked_def)

lemma scan4_found:
  "scan4 sb n now key ixs s = (Some ip, s') \<Longrightarrow>
     freeFor s' now ip key \<and> (\<exists>i \<in> set ixs. ip = poolAt sb ((unat (ds_cursor4 s) + i) mod (n + 1))) \<and>
     (\<forall>l. leaseAt s (IP_String ip) = Some l \<longrightarrow> live now l \<longrightarrow> ls_Key l = key)"
proof (induction ixs arbitrary: s)
  case (Cons i ixs)
  let ?c = "poolAt sb ((unat (ds_cursor4 s) + i) mod (n + 1))"
  let ?r = "inUseLocked s now ?c key"
  show ?case
  proof (cases "fst ?r")
    case True
    then have "scan4 sb n now key ixs (snd ?r) = (Some ip, s')" using Cons.prems by (simp add: scan4_Cons Let_def)
    note found = Cons.IH[OF this]
    have "ls_Key l = key" if "leaseAt s (IP_String ip) = Some l" "live now l" for l
      using found inUse_keeps_live[OF that, of ?c key] that(2) by blast
    moreover have "ds_cursor4 (snd ?r) = ds_cursor4 s" by (rule inUse_fields)
    ultimately show ?thesis using found by (simp only:) auto
  next
    case False
    then obtain s1 where r: "?r = (False, s1)" by (metis prod.collapse)
    obtain c where ip: "ip = ?c" and s': "s' = s1\<lparr>ds_cursor4 := c\<rparr>" using Cons.prems r by (auto simp: scan4_Cons Let_def)
    have "freeFor s' now ip key" unfolding s' ip freeFor_cursor by (rule inUse_freeFor[OF r])
    moreover have "ls_Key l = key" if "leaseAt s (IP_String ip) = Some l" "live now l" for l
      using inUse_free(3)[OF r that(1)[unfolded ip]] that(2) by (meson not_less)
    ultimately show ?thesis unfolding ip by (metis list.set_intros(1))
  qed
qed simp

lemma scan4_cfg [simp]: "ds_cfg (snd (scan4 sb n now key ixs s)) = ds_cfg s"
  by (induction ixs arbitrary: s) (simp_all add: scan4_Cons Let_def)

lemma hold_ok:
  assumes "table_ok s" "freeFor s now ip key" "is_v4Key key \<Longrightarrow> canon4 (IP_String ip)"
  shows "table_ok (holdOffer s now key ip)"
  by (rule table_ok_reserved[OF assms(1), of "IP_String ip" "\<lparr>rv_key = key, rv_until = now + offeredHold\<rparr>"])
    (use assms(2,3) in \<open>simp_all add: freeFor_def leaseAt_def holdOffer_def\<close>)

lemma hold_inUse: "key' \<noteq> key \<Longrightarrow> fst (inUseLocked (holdOffer s now key ip) now ip key')"
  by (rule reserved_inUse) (simp add: reservedFor_def holdOffer_def offeredHold_def)

text \<open>IPv4 strings and keys.\<close>

lemma canon4_String: "To4 ip \<noteq> [] \<Longrightarrow> canon4 (IP_String ip)"
  using To4_length[of ip] IP_String_To4[of ip] by (auto simp: canon4_def intro!: exI[of _ "To4 ip"])

lemma canon4_len: "length ip = 4 \<Longrightarrow> canon4 (IP_String ip)"
  by (auto simp: canon4_def)

lemma canon4_parse: "canon4 a \<Longrightarrow> ParseIP a \<noteq> [] \<and> IP_String (ParseIP a) = a"
proof -
  assume "canon4 a"
  then obtain b where b: "length b = 4" "a = IP_String b" by (auto simp: canon4_def)
  then have "To4 (To16 b) = b" "b \<noteq> []" by auto
  then have "IP_String (To16 b) = a" "To16 b \<noteq> []" using b IP_String_To4[of "To16 b"] by (auto simp: To16_def)
  then show ?thesis using b ParseIP_v4_String[of b] by simp
qed

lemma v4Key_prefix [simp]: "is_v4Key (v4Key m)" "\<not> is_v4Key (v6Key h)"
  by (simp_all add: v4Key_def v6Key_def)

text \<open>The range of a validated configuration is IPv4.\<close>

definition rangeV4 :: "dhcpServer \<Rightarrow> bool" where
  "rangeV4 s \<longleftrightarrow> To4 (dc_RangeStart (ds_cfg s)) \<noteq> [] \<and> To4 (dc_RangeEnd (ds_cfg s)) \<noteq> []"

lemma nextFree4_found:
  assumes "rangeV4 s" "nextFree4 s now key = (Some ip, s')"
  shows "freeFor s' now ip key" "length ip = 4"
    and "leaseAt s (IP_String ip) = Some l \<Longrightarrow> live now l \<Longrightarrow> ls_Key l = key"
proof -
  let ?sb = "To4 (dc_RangeStart (ds_cfg s))"
  have len: "length ?sb = 4" using assms(1) To4_length by (auto simp: rangeV4_def)
  have "dc_RangeStart (ds_cfg s) \<noteq> []" using assms(1) by (auto simp: rangeV4_def To4_def)
  then obtain n ixs where sc: "scan4 ?sb n now key ixs s = (Some ip, s')" using assms(2) by (auto simp: nextFree4_def poolOfLocked_def Let_def)
  note f = scan4_found[OF sc]
  show "freeFor s' now ip key" using f by blast
  show "length ip = 4" using f len by auto
  show "leaseAt s (IP_String ip) = Some l \<Longrightarrow> live now l \<Longrightarrow> ls_Key l = key" using f by blast
qed

lemma nextFree4_ok: "table_ok s \<Longrightarrow> table_ok (snd (nextFree4 s now key))"
  by (auto simp: nextFree4_def Let_def scan4_ok split: prod.split)

lemma nextFree4_cfg [simp]: "ds_cfg (snd (nextFree4 s now key)) = ds_cfg s"
  by (auto simp: nextFree4_def Let_def split: prod.split)

text \<open>What an allocation promises: a consistent table, and the address refused to every other client.\<close>

definition held :: "dhcpServer \<Rightarrow> gotime \<Rightarrow> leaseKey \<Rightarrow> IP \<Rightarrow> bool" where
  "held s now key ip \<longleftrightarrow> (\<forall>key'. key' \<noteq> key \<longrightarrow> fst (inUseLocked s now ip key'))"

definition not_taken :: "dhcpServer \<Rightarrow> gotime \<Rightarrow> leaseKey \<Rightarrow> IP \<Rightarrow> bool" where
  "not_taken s now key ip \<longleftrightarrow> (\<forall>l. leaseAt s (IP_String ip) = Some l \<longrightarrow> live now l \<longrightarrow> ls_Key l = key)"

lemma hold_held: "held (holdOffer s now key ip) now key ip"
  by (simp add: held_def hold_inUse)

lemma leaseTime_pos: "leaseTimeLocked s > 0"
  by (simp add: leaseTimeLocked_def defaultLeaseTime_def)

lemma ownLease_good:
  assumes ok: "table_ok s" and v4: "is_v4Key key" and own: "ownLease s now key h = Some (ip, s')"
  shows "table_ok s'" "held s' now key ip" "not_taken s now key ip" "ds_cfg s' = ds_cfg s"
proof -
  obtain r where r: "map_of (ds_leases s) key = Some r" "ip = ParseIP (ls_IP (ds_obj s ! r))" "s' = renewLocked s now r h"
    using own by (auto simp: ownLease_def Let_def split: option.splits if_splits)
  have t: "r < length (ds_obj s)" "ls_Key (ds_obj s ! r) = key" "map_of (ds_byIP s) (ls_IP (ds_obj s ! r)) = Some r"
    using table_okD(2)[OF ok r(1)] by auto
  have ip: "IP_String ip = ls_IP (ds_obj s ! r)" using canon4_parse[OF table_okD(5)[OF ok r(1) v4]] r(2) by simp
  show "table_ok s'" using renew_ok[OF ok t(1)] r(3) by simp
  have "leaseAt s' (IP_String ip) = Some (ds_obj s' ! r)" using t(3) by (simp add: leaseAt_def ip r(3))
  moreover have "ls_Key (ds_obj s' ! r) = key" "live now (ds_obj s' ! r)"
    using renew_obj(1)[OF t(1)] renew_obj(3)[OF t(1), of now h] t(2) leaseTime_pos[of s] by (auto simp: r(3))
  ultimately show "held s' now key ip" unfolding held_def by (metis leased_inUse)
  show "not_taken s now key ip" using t by (auto simp: not_taken_def leaseAt_def ip)
  show "ds_cfg s' = ds_cfg s" using r(3) by simp
qed

lemma ownOffer_good:
  assumes ok: "table_ok s" and v4: "is_v4Key key" and own: "ownOffer s now key = Some ip"
  shows "held s now key ip" "not_taken s now key ip"
proof -
  obtain a v where f: "List.find (\<lambda>(addr, r). rv_key r = key \<and> rv_until r > now \<and> ParseIP addr \<noteq> []) (ds_reserved s) = Some (a, v)" "ip = ParseIP a"
    using own by (auto simp: ownOffer_def)
  then have av: "(a, v) \<in> set (ds_reserved s)" "rv_key v = key" "rv_until v > now" by (auto simp: find_Some_iff in_set_conv_nth)
  have m: "map_of (ds_reserved s) a = Some v" using av(1) table_okD(7)[OF ok] by simp
  have ip: "IP_String ip = a" using canon4_parse[OF table_okD(6)[OF ok m]] v4 av(2) f(2) by simp
  show "held s now key ip" unfolding held_def using m av by (auto simp: ip reservedFor_def intro!: reserved_inUse)
  show "not_taken s now key ip" using table_okD(4)[OF ok _ m] av(2) by (auto simp: not_taken_def ip leaseAt_def)
qed

text \<open>A step of an allocation that ends in an offer from the pool.\<close>

lemma pick4_good:
  assumes "table_ok s" "rangeV4 s" "is_v4Key key" "nextFree4 s now key = (Some ip, s1)"
  shows "table_ok (holdOffer s1 now key ip)" "held (holdOffer s1 now key ip) now key ip" "not_taken s now key ip"
  using nextFree4_found[OF assms(2,4)] nextFree4_ok[OF assms(1), of now key] assms(4)
  by (auto simp: hold_held not_taken_def intro: hold_ok canon4_len)

definition alloc_good :: "dhcpServer \<Rightarrow> gotime \<Rightarrow> leaseKey \<Rightarrow> bool \<Rightarrow> IP option \<Rightarrow> dhcpServer \<Rightarrow> bool" where
  "alloc_good s now key static r s' \<longleftrightarrow> table_ok s' \<and> ds_cfg s' = ds_cfg s \<and>
     (\<forall>ip. r = Some ip \<longrightarrow> held s' now key ip \<and> (\<not> static \<longrightarrow> not_taken s now key ip))"

lemma holdOffer_cfg [simp]: "ds_cfg (holdOffer s now key ip) = ds_cfg s"
  by (simp add: holdOffer_def)

lemma dynamic4_good:
  assumes ok: "table_ok s" and rng: "rangeV4 s" and v4: "is_v4Key key" and al: "allocV4Dynamic s now key req h = ((r, b), s')"
  shows "alloc_good s now key b r s'"
proof (cases "ownLease s now key h")
  case (Some x)
  then have "r = Some (fst x)" "s' = snd x" using al by (auto simp: allocV4Dynamic_def Let_def split: prod.splits)
  then show ?thesis using ownLease_good[OF ok v4, of now h "fst x" "snd x"] Some by (simp add: alloc_good_def)
next
  case None
  note no_lease = this
  show ?thesis
  proof (cases "ownOffer s now key")
    case (Some ip)
    then show ?thesis using al None ok ownOffer_good[OF ok v4 Some] by (auto simp: allocV4Dynamic_def alloc_good_def)
  next
    case None
    let ?ip = "To4 req" and ?u = "inUseLocked s now (To4 req) key"
    have pick: "alloc_good s now key b r s'"
      if p: "(case nextFree4 t now key of (Some ip, s') \<Rightarrow> ((Some ip, False), holdOffer s' now key ip) | (None, s') \<Rightarrow> ((None, False), s')) = ((r, b), s')"
        and t: "table_ok t" "ds_cfg t = ds_cfg s" "\<And>ip. not_taken t now key ip \<Longrightarrow> not_taken s now key ip" for t
    proof -
      have rng': "rangeV4 t" using rng t(2) by (simp add: rangeV4_def)
      show ?thesis
      proof (cases "fst (nextFree4 t now key)")
        case None
        then have "r = None" "s' = snd (nextFree4 t now key)" using p by (auto split: prod.splits)
        then show ?thesis using t nextFree4_ok[OF t(1), of now key] by (simp add: alloc_good_def)
      next
        case (Some ip)
        then have n: "nextFree4 t now key = (Some ip, snd (nextFree4 t now key))" by (simp add: prod_eq_iff)
        then have "r = Some ip" "s' = holdOffer (snd (nextFree4 t now key)) now key ip" using p by (auto split: prod.splits)
        then show ?thesis using pick4_good[OF t(1) rng' v4 n] t(2,3) by (simp add: alloc_good_def)
      qed
    qed
    show ?thesis
    proof (cases "?ip \<noteq> [] \<and> addrInPoolLocked s ?ip False")
      case False
      then show ?thesis using al no_lease None ok by (intro pick[of s]) (auto simp: allocV4Dynamic_def Let_def)
    next
      case True
      have t: "table_ok (snd ?u)" "ds_cfg (snd ?u) = ds_cfg s" using inUse_ok[OF ok] by simp_all
      have nt: "not_taken (snd ?u) now key ip \<Longrightarrow> not_taken s now key ip" for ip
        unfolding not_taken_def using inUse_keeps_live by blast
      show ?thesis
      proof (cases "fst ?u")
        case True
        then show ?thesis using al no_lease None \<open>?ip \<noteq> [] \<and> _\<close> t nt by (intro pick[of "snd ?u"]) (auto simp: allocV4Dynamic_def Let_def split: prod.splits)
      next
        case False
        then have u: "?u = (False, snd ?u)" by (simp add: prod_eq_iff)
        have "r = Some ?ip" "s' = holdOffer (snd ?u) now key ?ip"
          using al no_lease None \<open>?ip \<noteq> [] \<and> _\<close> False by (auto simp: allocV4Dynamic_def Let_def split: prod.splits)
        moreover have "table_ok (holdOffer (snd ?u) now key ?ip)"
          by (rule hold_ok[OF t(1) inUse_freeFor[OF u]]) (use \<open>?ip \<noteq> [] \<and> _\<close> in \<open>auto intro: canon4_String\<close>)
        moreover have "not_taken s now key ?ip" unfolding not_taken_def using inUse_free(3)[OF u] by (meson not_less)
        ultimately show ?thesis using t(2) by (simp add: alloc_good_def hold_held)
      qed
    qed
  qed
qed

lemma commit_good:
  assumes "table_ok s" "is_v4Key (ls_Key l) \<Longrightarrow> canon4 (ls_IP l)" "ls_Static l" "ls_IP l = IP_String ip"
  shows "alloc_good s now (ls_Key l) True (Some ip) (commitLocked s now l)"
proof -
  have "leaseAt (commitLocked s now l) (IP_String ip) = Some (stampLease s now l)" using assms(4) by (simp add: leaseAt_def commit_obj)
  then have "held (commitLocked s now l) now (ls_Key l) ip" unfolding held_def using assms(3) by (auto intro!: leased_inUse)
  then show ?thesis using commit_ok[OF assms(1,2)] by (simp add: alloc_good_def)
qed

lemma allocV4_good:
  assumes ok: "table_ok s" and rng: "rangeV4 s" and al: "allocV4 s now (Some m) req h = ((r, b), s')"
  shows "alloc_good s now (v4Key m) b r s'"
proof (cases "\<exists>st. staticForClientLocked s (Some m) [] = Some st \<and> To4 (sl_IP st) \<noteq> []")
  case True
  then obtain st where st: "staticForClientLocked s (Some m) [] = Some st" "To4 (sl_IP st) \<noteq> []" by blast
  let ?l = "\<lparr>ls_Key = v4Key m, ls_MAC = HW_String m, ls_DUID = [], ls_IP = IP_String (To4 (sl_IP st)),
    ls_Hostname = (if sl_Hostname st = [] then h else sl_Hostname st), ls_Expires = 0, ls_Static = True\<rparr>"
  have "r = Some (To4 (sl_IP st))" "b" "s' = commitLocked s now ?l" using al st by (auto simp: allocV4_def Let_def)
  moreover have "canon4 (IP_String (To4 (sl_IP st)))" using To4_length[OF st(2)] by (rule canon4_len)
  ultimately show ?thesis using commit_good[OF ok, of ?l "To4 (sl_IP st)" now] by simp
next
  case False
  then have "allocV4Dynamic s now (v4Key m) req h = ((r, b), s')" using al by (auto simp: allocV4_def Let_def split: option.splits)
  then show ?thesis by (rule dynamic4_good[OF ok rng v4Key_prefix(1)])
qed

section \<open>The IPv6 pool\<close>

lemma scan6_result:
  "scan6 sb eb now key first cur s = Some res \<Longrightarrow> table_ok s \<Longrightarrow>
     table_ok (snd res) \<and> ds_cfg (snd res) = ds_cfg s \<and> (\<forall>ip. fst res = Some ip \<longrightarrow> freeFor (snd res) now ip key)"
proof (induction rule: scan6.raw_induct[rotated 1, consumes 1, case_names step])
  case (step scan6 sb eb now key first cur s res)
  let ?u = "inUseLocked s now cur key"
  have t: "table_ok (snd ?u)" "ds_cfg (snd ?u) = ds_cfg s" using inUse_ok[OF step(3)] by simp_all
  have c: "table_ok ((snd ?u)\<lparr>ds_cursor6 := x\<rparr>)" for x by (rule table_ok_cong[OF _ _ _ _ t(1)]) simp_all
  have f: "freeFor ((snd ?u)\<lparr>ds_cursor6 := x\<rparr>) now cur key" if "\<not> fst ?u" for x
    unfolding freeFor_cursor using that by (intro inUse_freeFor[of s]) (simp add: prod_eq_iff)
  show ?case
  proof (cases "fst ?u")
    case False
    then have "res = (Some cur, (snd ?u)\<lparr>ds_cursor6 := step6 sb eb cur\<rparr>)" using step(2) by (auto split: prod.splits)
    then show ?thesis using c f[OF False] t(2) by auto
  next
    case True
    show ?thesis
    proof (cases "IP_Equal (step6 sb eb cur) first")
      case True
      then have "res = (None, snd ?u)" using step(2) \<open>fst ?u\<close> by (auto split: prod.splits)
      then show ?thesis using t by simp
    next
      case False
      then have "scan6 sb eb now key first (step6 sb eb cur) (snd ?u) = Some res" using step(2) \<open>fst ?u\<close> by (auto split: prod.splits)
      from step(1)[OF this t(1)] t(2) show ?thesis by simp
    qed
  qed
qed

lemma nextFree6_result:
  assumes "nextFree6 s now key = Some res" "table_ok s"
  shows "table_ok (snd res)" "ds_cfg (snd res) = ds_cfg s" "fst res = Some ip \<Longrightarrow> freeFor (snd res) now ip key"
  using assms scan6_result[of _ _ now key _ _ s res] by (auto simp: nextFree6_def Let_def split: prod.splits if_splits)

lemma hold6_ok:
  assumes "table_ok s" "freeFor s now ip (v6Key d)"
  shows "table_ok (holdOffer s now (v6Key d) ip)"
  by (rule hold_ok[OF assms]) simp

lemma ownLease_ok:
  assumes "table_ok s" "ownLease s now key h = Some (ip, s')"
  shows "table_ok s'" "ds_cfg s' = ds_cfg s"
  using assms table_okD(2)[OF assms(1), of key] by (auto simp: ownLease_def Let_def intro: renew_ok split: option.splits if_splits)

lemma pick6_ok:
  assumes "table_ok s" "pickV6 s now (v6Key d) = Some (r, s')"
  shows "table_ok s' \<and> ds_cfg s' = ds_cfg s"
proof -
  obtain a t where n: "nextFree6 s now (v6Key d) = Some (a, t)" using assms(2) by (auto simp: pickV6_def)
  then have "s' = (case a of Some x \<Rightarrow> holdOffer t now (v6Key d) x | None \<Rightarrow> t)" using assms(2) by (auto simp: pickV6_def split: option.splits)
  then show ?thesis using nextFree6_result[OF n assms(1)] by (auto split: option.splits intro: hold6_ok)
qed

text \<open>The part after the client's own lease and offer.\<close>

lemma requested6_step:
  assumes ok: "table_ok s" and al: "allocV6Dynamic s now (v6Key d) req h = Some (r, s')"
    and none: "ownLease s now (v6Key d) h = None" "ownOffer s now (v6Key d) = None"
  shows "table_ok s' \<and> ds_cfg s' = ds_cfg s"
proof -
  let ?u = "inUseLocked s now req (v6Key d)"
  have t: "table_ok (snd ?u)" "ds_cfg (snd ?u) = ds_cfg s" using inUse_ok[OF ok] by simp_all
  consider "pickV6 s now (v6Key d) = Some (r, s')" | "pickV6 (snd ?u) now (v6Key d) = Some (r, s')"
    | "\<not> fst ?u" "s' = holdOffer (snd ?u) now (v6Key d) req"
  proof -
    have "(if req \<noteq> [] \<and> To4 req = [] \<and> addrInPoolLocked s req True
        then if \<not> fst ?u then Some ((Some req, False), holdOffer (snd ?u) now (v6Key d) req) else pickV6 (snd ?u) now (v6Key d)
        else pickV6 s now (v6Key d)) = Some (r, s')"
      using al none by (simp only: allocV6Dynamic_def split_beta option.case)
    then show ?thesis using that by (metis option.inject prod.inject)
  qed
  then show ?thesis
  proof cases
    case 3
    then have "freeFor (snd ?u) now req (v6Key d)" by (intro inUse_freeFor[of s]) (simp add: prod_eq_iff)
    then show ?thesis using hold6_ok[OF t(1)] t(2) 3(2) by simp
  qed (use pick6_ok[OF ok] pick6_ok[OF t(1)] t(2) in auto)
qed

lemma dynamic6_ok:
  assumes ok: "table_ok s" and al: "allocV6Dynamic s now (v6Key d) req h = Some (r, s')"
  shows "table_ok s' \<and> ds_cfg s' = ds_cfg s"
proof (cases "ownLease s now (v6Key d) h")
  case (Some x)
  then have "s' = snd x" using al by (simp add: allocV6Dynamic_def split_beta)
  then show ?thesis using ownLease_ok[OF ok, of now "v6Key d" h "fst x" "snd x"] Some by simp
next
  case None
  show ?thesis
  proof (cases "ownOffer s now (v6Key d)")
    case (Some x)
    then show ?thesis using al None ok by (simp add: allocV6Dynamic_def)
  next
    case no_offer: None
    show ?thesis by (rule requested6_step[OF ok al None no_offer])
  qed
qed

lemma allocV6_ok:
  assumes ok: "table_ok s" and al: "allocV6 s now d h req = Some (r, s')"
  shows "table_ok s' \<and> ds_cfg s' = ds_cfg s"
proof (cases "allocV6Dynamic s now (v6Key d) req h = Some (r, s')")
  case True
  then show ?thesis by (rule dynamic6_ok[OF ok])
next
  case False
  have "table_ok (commitLocked s now l)" if "ls_Key l = v6Key d" for l
    by (rule commit_ok[OF ok]) (simp add: that)
  then show ?thesis using al ok False by (auto simp: allocV6_def Let_def split: option.splits if_splits)
qed

section \<open>Packets\<close>

definition srv_ok :: "dhcpServer \<Rightarrow> bool" where
  "srv_ok s \<longleftrightarrow> table_ok s \<and> rangeV4 s"

lemma srv_okI: "table_ok s' \<Longrightarrow> ds_cfg s' = ds_cfg s \<Longrightarrow> srv_ok s \<Longrightarrow> srv_ok s'"
  by (simp add: srv_ok_def rangeV4_def)

lemma alloc_srv_ok: "srv_ok s \<Longrightarrow> allocV4 s now mac req h = (r, s') \<Longrightarrow> srv_ok s'"
  using allocV4_good[of s now _ req h "fst r" "snd r" s'] by (cases mac) (auto simp: alloc_good_def srv_ok_def rangeV4_def allocV4_def)

lemma inPool_v4: "addrInPoolLocked s ip False \<Longrightarrow> To4 ip \<noteq> []"
  by (auto simp: addrInPoolLocked_def Let_def split: prod.splits if_splits)

lemma check4_grant:
  assumes "v4RequestCheck now m s = (Grant req, s')"
  shows "inUseLocked s now req (keyOf4 m) = (False, s')" "addrInPoolLocked s req False" "req = requested4 m"
  using assms by (auto simp: v4RequestCheck_def Let_def split: if_splits prod.splits)

lemma check4_srv_ok: "srv_ok s \<Longrightarrow> srv_ok (snd (v4RequestCheck now m s))"
  by (auto simp: v4RequestCheck_def Let_def split_beta intro!: srv_okI[OF _ _ , of _ s] inUse_ok) (auto simp: srv_ok_def)

definition lease4 :: "gotime \<Rightarrow> v4req \<Rightarrow> IP \<Rightarrow> dhcpServer \<Rightarrow> Lease" where
  "lease4 now m req s =
     (let hostname = clientHostname4 m;
          lease = \<lparr>ls_Key = keyOf4 m, ls_MAC = macOf4 m, ls_DUID = [], ls_IP = IP_String req, ls_Hostname = hostname, ls_Expires = 0, ls_Static = False\<rparr>
      in case staticForClientLocked s (v4_mac m) [] of
           Some st \<Rightarrow>
             if To4 (sl_IP st) \<noteq> [] \<and> IP_Equal (sl_IP st) req
             then lease\<lparr>ls_Hostname := (if sl_Hostname st = [] then hostname else sl_Hostname st), ls_Static := True\<rparr> else lease
         | None \<Rightarrow> lease)"

lemma commit4_eq: "v4RequestCommit now m req s = commitLocked s now (lease4 now m req s)"
  by (simp add: v4RequestCommit_def lease4_def Let_def)

lemma lease4_fields [simp]: "ls_Key (lease4 now m req s) = keyOf4 m" "ls_IP (lease4 now m req s) = IP_String req"
  by (auto simp: lease4_def Let_def split: option.split)

lemma commit4_srv_ok:
  assumes "srv_ok s" "To4 req \<noteq> []"
  shows "srv_ok (v4RequestCommit now m req s)"
  unfolding commit4_eq
  by (rule srv_okI[OF commit_ok _ assms(1)]) (use assms canon4_String in \<open>auto simp: srv_ok_def\<close>)

lemma request4_srv_ok:
  assumes "srv_ok s"
  shows "srv_ok (snd (v4Request lib now m s))"
proof (cases "v4RequestCheck now m s")
  case (Pair v s')
  then have "srv_ok s'" using check4_srv_ok[OF assms, of now m] by simp
  moreover have "v = Grant req \<Longrightarrow> To4 req \<noteq> []" for req using check4_grant(2)[of now m s req s'] Pair inPool_v4 by simp
  ultimately show ?thesis using Pair commit4_srv_ok by (auto simp: v4Request_def ackWith_def split: verdict.split)
qed

lemma release_cfg [simp]: "ds_cfg (snd (releaseLease s key ip)) = ds_cfg s"
  by (simp add: releaseLease_def split: option.split)

lemma decline_cfg [simp]: "ds_cfg (declineLease s now ip) = ds_cfg s"
  by (auto simp: declineLease_def Let_def split: option.split)

lemma release_srv_ok: "srv_ok s \<Longrightarrow> srv_ok (snd (releaseLease s key ip))"
  by (rule srv_okI[of _ s]) (auto simp: srv_ok_def release_ok)

lemma decline_srv_ok: "srv_ok s \<Longrightarrow> srv_ok (declineLease s now ip)"
  by (rule srv_okI[of _ s]) (auto simp: srv_ok_def decline_ok)

lemma handleV4_ok: "srv_ok s \<Longrightarrow> srv_ok (snd (handleV4 lib now m s))"
  by (auto simp: handleV4_def v4Discover_def v4Release_def v4Decline_def v4Inform_def request4_srv_ok release_srv_ok decline_srv_ok
      split: mtype4.split option.split dest: alloc_srv_ok split: prod.split)

lemma commit6_srv_ok: "srv_ok s \<Longrightarrow> srv_ok (commitLocked s now (lease6 d h ip static))"
  by (rule srv_okI[of _ s], rule commit_ok) (auto simp: srv_ok_def lease6_def)

lemma solicit6_ok:
  assumes "srv_ok s" "v6Solicit lib now peer m d s = Some (ev, s')"
  shows "srv_ok s'"
proof -
  obtain r s1 where a: "allocV6 s now d (clientHostname6 m) (requestedAddr6 m) = Some (r, s1)"
    using assms(2) by (auto simp: v6Solicit_def split: option.splits)
  have s1: "srv_ok s1" using allocV6_ok[OF _ a] assms(1) by (auto simp: srv_ok_def rangeV4_def)
  then show ?thesis using assms(2) a commit6_srv_ok[OF s1] by (auto simp: v6Solicit_def Let_def split: prod.splits if_splits option.splits)
qed

lemma request6_ok:
  assumes "srv_ok s"
  shows "srv_ok (snd (v6Request lib now peer m d s))"
proof -
  have u: "srv_ok (snd (inUseLocked s now ip key))" for ip key using assms inUse_ok by (auto simp: srv_ok_def rangeV4_def)
  show ?thesis using assms u commit6_srv_ok[OF u] by (simp add: v6Request_def Let_def split_beta)
qed

lemma decline6_ok: "srv_ok s \<Longrightarrow> srv_ok (v6Decline now m s)"
proof -
  have "srv_ok s \<Longrightarrow> srv_ok (fold (\<lambda>a s. declineLease s now a) as s)" for as
    by (induction as arbitrary: s) (simp_all add: decline_srv_ok)
  then show "srv_ok s \<Longrightarrow> srv_ok (v6Decline now m s)" by (simp add: v6Decline_def)
qed

lemma handleV6_ok: "srv_ok s \<Longrightarrow> handleV6 lib now peer m s = Some (ev, s') \<Longrightarrow> srv_ok s'"
  using request6_ok[of s lib now peer _ _]
  by (auto simp: handleV6_def Let_def v6Release_def solicit6_ok release_srv_ok decline6_ok split: option.splits if_splits mtype6.splits)
    (metis snd_conv)+

section \<open>Boot and restart\<close>

text \<open>What \<^verbatim>\<open>persistNow\<close> writes.\<close>

definition savedLeases :: "dhcpServer \<Rightarrow> Lease list" where
  "savedLeases s = map (\<lambda>(k, r). ds_obj s ! r) (ds_leases s)"

lemma persist_writes: "ds_dirty s \<Longrightarrow> ds_disk (persistNow s True) = Some (savedLeases s)"
  by (simp add: persistNow_def savedLeases_def)

definition disk_ok :: "Lease list \<Rightarrow> bool" where
  "disk_ok ls \<longleftrightarrow> distinct (map ls_Key ls) \<and> distinct (map ls_IP ls) \<and> (\<forall>l \<in> set ls. is_v4Key (ls_Key l) \<longrightarrow> canon4 (ls_IP l))"

lemma saved_ok:
  assumes "table_ok s"
  shows "disk_ok (savedLeases s)"
proof -
  have m: "map_of (ds_leases s) k = Some r" if "(k, r) \<in> set (ds_leases s)" for k r using that table_okD(1)[OF assms] by simp
  have t: "ls_Key (ds_obj s ! r) = k" "map_of (ds_byIP s) (ls_IP (ds_obj s ! r)) = Some r" if "(k, r) \<in> set (ds_leases s)" for k r
    using table_okD(2)[OF assms m[OF that]] by auto
  have keys: "map ls_Key (savedLeases s) = map fst (ds_leases s)" using t(1) by (auto simp: savedLeases_def)
  have "inj_on (\<lambda>x. ls_IP (ds_obj s ! snd x)) (set (ds_leases s))"
  proof (rule inj_onI)
    fix x y
    assume x: "x \<in> set (ds_leases s)" "y \<in> set (ds_leases s)" and ip: "ls_IP (ds_obj s ! snd x) = ls_IP (ds_obj s ! snd y)"
    have xy: "(fst x, snd x) \<in> set (ds_leases s)" "(fst y, snd y) \<in> set (ds_leases s)" using x by simp_all
    have "snd x = snd y" using t(2)[OF xy(1)] t(2)[OF xy(2)] ip by (metis option.inject)
    then show "x = y" using t(1)[OF xy(1)] t(1)[OF xy(2)] by (metis prod_eqI)
  qed
  moreover have "distinct (ds_leases s)" using table_okD(1)[OF assms] by (simp add: distinct_map)
  ultimately have "distinct (map ls_IP (savedLeases s))" by (simp add: savedLeases_def distinct_map comp_def case_prod_unfold)
  moreover have "canon4 (ls_IP l)" if "l \<in> set (savedLeases s)" "is_v4Key (ls_Key l)" for l
    using that table_okD(5)[OF assms m] t(1) by (force simp: savedLeases_def)
  ultimately show ?thesis using keys table_okD(1)[OF assms] by (simp add: disk_ok_def)
qed

lemma install_ok:
  assumes ok: "table_ok s" and new: "map_of (ds_byIP s) (ls_IP l) = None"
    and res: "ds_reserved s = []" and v4: "is_v4Key (ls_Key l) \<Longrightarrow> canon4 (ls_IP l)"
  shows "table_ok (installLease l s)"
  by (rule table_ok_add[OF ok v4]) (use table_okD(1)[OF ok] in \<open>simp_all add: install_fields new res leaseAt_def\<close>)

lemma load_ok:
  assumes "disk_ok ls" "table_ok s" "ds_reserved s = []"
    and "\<And>l. l \<in> set ls \<Longrightarrow> map_of (ds_byIP s) (ls_IP l) = None"
  shows "table_ok (fold (loadOne now) ls s)"
  using assms
proof (induction ls arbitrary: s)
  case (Cons l ls)
  have i: "table_ok (installLease l s)" using Cons.prems by (intro install_ok) (auto simp: disk_ok_def)
  have d: "disk_ok ls" using Cons.prems(1) by (simp add: disk_ok_def)
  have fresh: "ls_IP l' \<noteq> ls_IP l" if "l' \<in> set ls" for l'
  proof -
    have "ls_IP l \<notin> ls_IP ` set ls" using Cons.prems(1) by (simp add: disk_ok_def)
    then show ?thesis using that by (metis imageI)
  qed
  show ?case
  proof (cases "loadOne now l s = s")
    case True
    then show ?thesis using Cons.IH[OF d Cons.prems(2,3)] Cons.prems(4) by simp
  next
    case False
    then have "loadOne now l s = installLease l s" by (simp add: loadOne_def split: if_splits)
    then show ?thesis using Cons.IH[OF d i] fresh Cons.prems(3,4) by (simp add: install_fields)
  qed
qed simp

lemma load_cfg: "ds_cfg (fold (loadOne now) ls s) = ds_cfg s"
  by (induction ls arbitrary: s) (simp_all add: loadOne_def install_fields)

lemma validate_range:
  assumes "validateDHCP c = None" "dy_Enabled c"
  shows "To4 (ParseIP (dy_RangeStart c)) \<noteq> []" "To4 (ParseIP (dy_RangeEnd c)) \<noteq> []"
  using assms by (auto simp: validateDHCP_def Let_def split: option.splits if_splits)

lemma new_ok: "table_ok (dhcpNew d)"
  by (simp add: table_ok_def dhcpNew_def)

lemma boot_ok:
  assumes "validateDHCP c = None" "dy_Enabled c" "\<And>ls. d = Some ls \<Longrightarrow> disk_ok ls"
  shows "srv_ok (dhcp_SetConfig (dhcpNew d) now (ConfigFrom c addrs))"
proof -
  let ?s = "(dhcpNew d)\<lparr>ds_cfg := ConfigFrom c addrs, ds_serverDUID := Some (makeServerDUID (dc_ServerMAC (ConfigFrom c addrs)) now)\<rparr>"
  have t: "table_ok ?s" by (rule table_ok_cong[OF _ _ _ _ new_ok[of d]]) simp_all
  have "table_ok (loadLocked ?s now)"
  proof (cases d)
    case (Some ls)
    then show ?thesis using load_ok[OF assms(3)[OF Some] t] by (simp add: loadLocked_def dhcpNew_def)
  qed (use t in \<open>simp add: loadLocked_def dhcpNew_def\<close>)
  moreover have "ds_cfg (loadLocked ?s now) = ConfigFrom c addrs" by (simp add: loadLocked_def load_cfg split: option.split)
  moreover have "dhcp_SetConfig (dhcpNew d) now (ConfigFrom c addrs) = rebuildHostsLocked (loadLocked ?s now)"
    by (simp add: dhcp_SetConfig_def dhcpNew_def)
  ultimately show ?thesis using validate_range[OF assms(1,2)]
    by (auto simp: srv_ok_def rangeV4_def ConfigFrom_def intro: table_ok_cong[where s = "loadLocked ?s now"])
qed

text \<open>Reachable servers: booted with a validated configuration, on no file or on the leases another run of the server
  wrote; then packets, writes of the lease file, starts and stops, in any order.\<close>

inductive dhcp_reach :: "dhcpLib \<Rightarrow> dhcpServer \<Rightarrow> bool" for lib where
  boot: "validateDHCP c = None \<Longrightarrow> dy_Enabled c \<Longrightarrow> dhcp_reach lib (dhcp_SetConfig (dhcpNew None) now (ConfigFrom c addrs))"
| restart: "dhcp_reach lib s \<Longrightarrow> validateDHCP c = None \<Longrightarrow> dy_Enabled c \<Longrightarrow>
    dhcp_reach lib (dhcp_SetConfig (dhcpNew (Some (savedLeases s))) now (ConfigFrom c addrs))"
| v4: "dhcp_reach lib s \<Longrightarrow> dhcp_reach lib (snd (handleV4 lib now m s))"
| v6: "dhcp_reach lib s \<Longrightarrow> handleV6 lib now peer m' s = Some (ev, s') \<Longrightarrow> dhcp_reach lib s'"
| persist: "dhcp_reach lib s \<Longrightarrow> dhcp_reach lib (persistNow s ok)"
| start: "dhcp_reach lib s \<Longrightarrow> dhcp_reach lib (snd (dhcp_Start s b4 b6))"
| stop: "dhcp_reach lib s \<Longrightarrow> dhcp_reach lib (dhcp_Stop s ok)"

lemma listener_fields [simp]:
  "ds_cfg (persistNow s ok) = ds_cfg s" "ds_obj (persistNow s ok) = ds_obj s" "ds_leases (persistNow s ok) = ds_leases s"
  "ds_byIP (persistNow s ok) = ds_byIP s" "ds_reserved (persistNow s ok) = ds_reserved s"
  "ds_cfg (snd (dhcp_Start s a b)) = ds_cfg s" "ds_obj (snd (dhcp_Start s a b)) = ds_obj s" "ds_leases (snd (dhcp_Start s a b)) = ds_leases s"
  "ds_byIP (snd (dhcp_Start s a b)) = ds_byIP s" "ds_reserved (snd (dhcp_Start s a b)) = ds_reserved s"
  by (simp_all add: persistNow_def dhcp_Start_def Let_def)

lemma srv_ok_cong:
  "srv_ok s \<Longrightarrow> ds_cfg s' = ds_cfg s \<Longrightarrow> ds_obj s' = ds_obj s \<Longrightarrow> ds_leases s' = ds_leases s \<Longrightarrow> ds_byIP s' = ds_byIP s \<Longrightarrow>
   ds_reserved s' = ds_reserved s \<Longrightarrow> srv_ok s'"
  using table_ok_cong[of s' s] by (simp add: srv_ok_def rangeV4_def)

lemma dhcp_reach_ok: "dhcp_reach lib s \<Longrightarrow> srv_ok s"
proof (induction rule: dhcp_reach.induct)
  case (restart s c now addrs)
  then show ?case using saved_ok by (intro boot_ok) (auto simp: srv_ok_def)
next
  case (persist s ok)
  from persist.IH show ?case by (rule srv_ok_cong) simp_all
next
  case (start s b4 b6)
  from start.IH show ?case by (rule srv_ok_cong) simp_all
next
  case (stop s ok)
  from stop.IH show ?case by (rule srv_ok_cong) (simp_all add: dhcp_Stop_def)
qed (auto intro: boot_ok handleV4_ok handleV6_ok)

end
