(* ===== verification/DhcpPool.thy ===== *)
theory DhcpPool
  imports DhcpProps
begin

text \<open>
  The address pools of the DHCP server: which addresses the IPv4 search visits, that it fails only when all of them are
  taken, and that the IPv6 search ends. The theorems on leases, offers, pools and restarts, and those on what goes wrong.
\<close>

section \<open>The IPv4 pool as numbers\<close>

lemma poolAt_val: "be_val (poolAt b n) = (be_val b + n) mod 256 ^ length b"
proof -
  have "be_val (rev (poolAt_rev bs c)) = (be_val (rev bs) + c) mod 256 ^ length bs" for bs c
  proof (induction bs c rule: poolAt_rev.induct)
    case (2 b bs c)
    let ?n = "256 ^ length bs :: nat"
    have v: "be_val (rev bs) < ?n" using be_val_less[of "rev bs"] by simp
    show ?case
    proof (cases "c = 0")
      case True
      have "be_val (rev (b # bs)) < 256 ^ length (b # bs)" using be_val_less[of "rev (b # bs)"] by simp
      then show ?thesis using True by simp
    next
      case False
      have "be_val (rev (poolAt_rev (b # bs) c)) = be_val (rev (poolAt_rev bs ((unat b + c) div 256))) * 256 + (unat b + c) mod 256"
        using False by (simp add: be_val_snoc unat_of_nat unat_word_ariths mod_simps)
      also have "\<dots> = ((be_val (rev bs) + (unat b + c) div 256) mod ?n) * 256 + (unat b + c) mod 256" using 2 False by simp
      also have "\<dots> = ((be_val (rev bs) + (unat b + c) div 256) * 256 + (unat b + c) mod 256) mod (256 * ?n)"
        by (subst mod_mult2_eq) simp
      also have "(be_val (rev bs) + (unat b + c) div 256) * 256 + (unat b + c) mod 256 = be_val (rev bs) * 256 + (unat b + c)"
        by (simp add: add_mult_distrib)
      finally show ?thesis by (simp add: be_val_snoc algebra_simps)
    qed
  qed (simp add: be_val_def)
  from this[of "rev b" n] show ?thesis by (simp add: poolAt_def)
qed

text \<open>A range that does not carry between its bytes: the size the code computes is the size it has.\<close>

definition bytewise :: "IP \<Rightarrow> IP \<Rightarrow> bool" where
  "bytewise a b \<longleftrightarrow> list_all2 (\<le>) a b"

lemma len4: "length a = 4 \<Longrightarrow> a = [a ! 0, a ! 1, a ! 2, a ! 3]"
  by (rule nth_equalityI) (auto simp: less_Suc_eq numeral_eq_Suc)

lemma be_val4: "be_val [a, b, c, d] = 16777216 * unat a + 65536 * unat b + 256 * unat c + unat d"
  by (simp add: be_val_def)

lemma poolTotal_nat:
  "poolTotal a b = unat (b ! 3 - a ! 3) + 256 * unat (b ! 2 - a ! 2) + 65536 * unat (b ! 1 - a ! 1) + 16777216 * unat (b ! 0 - a ! 0)"
proof -
  let ?d = "\<lambda>i. b ! i - a ! i"
  have u: "uint (?d i) = int (unat (?d i))" for i by simp
  have "poolTotal a b = nat (int (unat (?d 3) + 256 * unat (?d 2) + 65536 * unat (?d 1) + 16777216 * unat (?d 0)))"
    unfolding poolTotal_def by (simp only: u of_nat_add of_nat_mult of_nat_numeral)
  then show ?thesis by (simp only: nat_int)
qed

lemma poolTotal_exact:
  assumes "length a = 4" "length b = 4" "bytewise a b"
  shows "be_val a + poolTotal a b = be_val b"
proof -
  have le: "a ! i \<le> b ! i" if "i < 4" for i using assms that by (auto simp: bytewise_def list_all2_conv_all_nth)
  have d: "unat (b ! i - a ! i) + unat (a ! i) = unat (b ! i)" if "i < 4" for i
    using le[OF that] by (simp add: unat_sub word_le_nat_alt)
  have v: "be_val x = 16777216 * unat (x ! 0) + 65536 * unat (x ! 1) + 256 * unat (x ! 2) + unat (x ! 3)" if "length x = 4" for x
    using be_val4[of "x ! 0" "x ! 1" "x ! 2" "x ! 3"] len4[OF that] by simp
  show ?thesis unfolding poolTotal_nat v[OF assms(1)] v[OF assms(2)] using d[of 0] d[of 1] d[of 2] d[of 3] by simp
qed

lemma be_val_inj: "length a = length b \<Longrightarrow> be_val a = be_val b \<Longrightarrow> a = b"
  using bytes_le_val[of a b] bytes_le_val[of b a] bytes_le_antisym[of a b] by simp

lemma poolAt_in:
  assumes "length a = 4" "length b = 4" "bytewise a b" "n \<le> poolTotal a b"
  shows "be_val (poolAt a n) = be_val a + n"
proof -
  have "be_val a + n < 256 ^ 4" using poolTotal_exact[OF assms(1-3)] assms(2,4) be_val_less[of b] by simp
  then show ?thesis by (simp add: poolAt_val assms(1))
qed

text \<open>Looking at one address never makes another one taken.\<close>

lemma inUse_back:
  assumes "fst (inUseLocked (snd (inUseLocked s now b key)) now a key)"
  shows "fst (inUseLocked s now a key)"
proof -
  let ?t = "snd (inUseLocked s now b key)"
  have sub: "leaseAt ?t x = Some l \<Longrightarrow> leaseAt s x = Some l" for x l
    by (auto simp: inUseLocked_def Let_def reclaim_def leaseAt_def split: option.splits if_splits)
  have "reservedFor ?t now (IP_String a) key = reservedFor s now (IP_String a) key" by (simp add: reservedFor_def)
  then consider "reservedFor s now (IP_String a) key" | l where "leaseAt ?t (IP_String a) = Some l" "ls_Key l \<noteq> key" "live now l"
    using assms by (auto simp: inUseLocked_def[of ?t] Let_def reclaim_def reservedFor_def split: option.splits if_splits)
  then show ?thesis by cases (auto intro: reserved_inUse leased_inUse dest: sub)
qed

lemma scan4_exhausted:
  assumes "scan4 sb n now key ixs s = (None, s')" "i \<in> set ixs"
  shows "fst (inUseLocked s now (poolAt sb ((unat (ds_cursor4 s) + i) mod (n + 1))) key)"
  using assms
proof (induction ixs arbitrary: s)
  case (Cons j ixs)
  let ?r = "inUseLocked s now (poolAt sb ((unat (ds_cursor4 s) + j) mod (n + 1))) key"
  have u: "fst ?r" and rest: "scan4 sb n now key ixs (snd ?r) = (None, s')" using Cons.prems(1) by (auto simp: scan4_Cons Let_def split: if_splits)
  show ?case
  proof (cases "i = j")
    case False
    then have "i \<in> set ixs" using Cons.prems(2) by simp
    from Cons.IH[OF rest this] show ?thesis by (auto dest: inUse_back)
  qed (use u in simp)
qed simp

text \<open>The search of the IPv4 pool, for a range that does not carry.\<close>

lemma nextFree4_pool:
  assumes rng: "rangeV4 s" and bw: "bytewise (To4 (dc_RangeStart (ds_cfg s))) (To4 (dc_RangeEnd (ds_cfg s)))"
  shows "nextFree4 s now key = (Some ip, s') \<Longrightarrow>
      be_val (To4 (dc_RangeStart (ds_cfg s))) \<le> be_val ip \<and> be_val ip \<le> be_val (To4 (dc_RangeEnd (ds_cfg s)))"
    and "nextFree4 s now key = (None, s') \<Longrightarrow> length a = 4 \<Longrightarrow> be_val (To4 (dc_RangeStart (ds_cfg s))) \<le> be_val a \<Longrightarrow>
      be_val a \<le> be_val (To4 (dc_RangeEnd (ds_cfg s))) \<Longrightarrow> fst (inUseLocked s now a key)"
proof -
  let ?sb = "To4 (dc_RangeStart (ds_cfg s))" and ?eb = "To4 (dc_RangeEnd (ds_cfg s))" and ?n = "poolTotal (To4 (dc_RangeStart (ds_cfg s))) (To4 (dc_RangeEnd (ds_cfg s)))"
  have len: "length ?sb = 4" "length ?eb = 4" using rng To4_length by (auto simp: rangeV4_def)
  have "dc_RangeStart (ds_cfg s) \<noteq> []" using rng by (auto simp: rangeV4_def To4_def)
  then have next_free: "nextFree4 s now key = scan4 ?sb ?n now key [0..<?n + 1] s" by (simp add: nextFree4_def poolOfLocked_def Let_def)
  note val = poolAt_in[OF len bw] and tot = poolTotal_exact[OF len bw]
  show "be_val ?sb \<le> be_val ip \<and> be_val ip \<le> be_val ?eb" if found: "nextFree4 s now key = (Some ip, s')"
  proof -
    obtain i where ip: "ip = poolAt ?sb (i mod (?n + 1))" using scan4_found[OF found[unfolded next_free]] by blast
    have le: "i mod (?n + 1) \<le> ?n" using mod_less_divisor[of "?n + 1" i] by linarith
    show ?thesis unfolding ip using val[OF le] tot le by linarith
  qed
  show "fst (inUseLocked s now a key)" if none: "nextFree4 s now key = (None, s')" and a: "length a = 4" "be_val ?sb \<le> be_val a" "be_val a \<le> be_val ?eb"
  proof -
    define j where "j = be_val a - be_val ?sb"
    have j: "j \<le> ?n" using a tot by (simp add: j_def)
    define c where "c = unat (ds_cursor4 s) mod (?n + 1)"
    have c: "c < ?n + 1" by (simp add: c_def)
    define i where "i = (if c \<le> j then j - c else j + (?n + 1) - c)"
    have "i < ?n + 1" "(c + i) mod (?n + 1) = j" using c j by (auto simp: i_def mod_if)
    then have i: "i \<in> set [0..<?n + 1]" "(unat (ds_cursor4 s) + i) mod (?n + 1) = j" by (auto simp: c_def mod_simps less_Suc_eq)
    have "poolAt ?sb j = a" using val[OF j] a len by (intro be_val_inj) (simp_all add: j_def)
    then show ?thesis using scan4_exhausted[OF none[unfolded next_free] i(1)] i(2) by simp
  qed
qed

section \<open>The IPv6 search ends\<close>

lemma bytesCompare16:
  assumes "length a = 16" "length b = 16"
  shows "bytesCompare a b > 0 \<longleftrightarrow> be_val b < be_val a" "bytesCompare a b < 0 \<longleftrightarrow> be_val a < be_val b"
  using assms bytes_le_val[of a b] bytes_le_val[of b a] by (auto simp: bytesCompare_def To16_def Let_def)

lemma step6_val:
  assumes "length sb = 16" "length eb = 16" "length cur = 16" "be_val sb \<le> be_val cur" "be_val cur \<le> be_val eb" "be_val eb < 2 ^ 128 - 1"
  shows "length (step6 sb eb cur) = 16" "be_val (step6 sb eb cur) = (if be_val cur = be_val eb then be_val sb else be_val cur + 1)"
proof -
  have l: "length (incr cur) = 16" using assms(3) by (simp add: incr_def addOne128_def)
  have v: "be_val (incr cur) = be_val cur + 1" using assms v6s.inc_val[of cur] by (simp add: incr_def)
  show "length (step6 sb eb cur) = 16" using l assms(1) by (simp add: step6_def)
  show "be_val (step6 sb eb cur) = (if be_val cur = be_val eb then be_val sb else be_val cur + 1)"
    using assms(5) by (auto simp: step6_def bytesCompare16[OF l assms(2)] v)
qed

lemma scan6_ends:
  assumes len: "length sb = 16" "length eb = 16" "length first = 16" and rng: "be_val sb \<le> be_val first" "be_val first \<le> be_val eb" "be_val eb < 2 ^ 128 - 1"
    and cur: "length cur = 16" "be_val sb \<le> be_val cur" "be_val cur \<le> be_val eb"
    and d: "(be_val cur - be_val sb + d + 1) mod (be_val eb - be_val sb + 1) = be_val first - be_val sb"
  shows "\<exists>r s'. scan6 sb eb now key first cur s = Some (r, s') \<and> (\<forall>ip. r = Some ip \<longrightarrow> length ip = 16 \<and> be_val sb \<le> be_val ip \<and> be_val ip \<le> be_val eb)"
  using cur d
proof (induction d arbitrary: cur s)
  case (0 cur)
  let ?c = "step6 sb eb cur"
  note c = step6_val[OF len(1,2) 0(1-3) rng(3)]
  have "be_val ?c = be_val first" using 0 rng c(2) by (auto simp: mod_if split: if_splits)
  then have "IP_Equal ?c first" using be_val_inj[of ?c first] c(1) len(3) by (simp add: IP_Equal_def)
  then show ?case using 0 by (subst (1) scan6.simps) (auto split: prod.split)
next
  case (Suc d cur s)
  let ?c = "step6 sb eb cur" and ?u = "inUseLocked s now cur key" and ?N = "be_val eb - be_val sb + 1"
  note c = step6_val[OF len(1,2) Suc.prems(1-3) rng(3)]
  have le: "be_val sb \<le> be_val ?c" "be_val ?c \<le> be_val eb" using c(2) Suc.prems(2,3) rng by auto
  have "be_val ?c - be_val sb = (be_val cur - be_val sb + 1) mod ?N" using c(2) Suc.prems(2,3) by (auto simp: mod_if)
  then have "(be_val ?c - be_val sb + d + 1) mod ?N = (be_val cur - be_val sb + Suc d + 1) mod ?N"
    by (simp only: mod_simps add.assoc) (simp add: ac_simps mod_simps)
  then have ih: "\<exists>r s'. scan6 sb eb now key first ?c t = Some (r, s') \<and> (\<forall>ip. r = Some ip \<longrightarrow> length ip = 16 \<and> be_val sb \<le> be_val ip \<and> be_val ip \<le> be_val eb)" for t
    using Suc.IH[OF c(1) le] Suc.prems(4) by simp
  show ?case using ih[of "snd ?u"] Suc.prems by (subst (1) scan6.simps) (auto split: prod.split)
qed

lemma nextFree6_ends:
  assumes pool: "dc_IPv6 (ds_cfg s)" "length (dc_IPv6Start (ds_cfg s)) = 16" "length (dc_IPv6End (ds_cfg s)) = 16"
    and rng: "be_val (dc_IPv6Start (ds_cfg s)) \<le> be_val (dc_IPv6End (ds_cfg s))" "be_val (dc_IPv6End (ds_cfg s)) < 2 ^ 128 - 1"
    and cur: "ds_cursor6 s = [] \<or> length (ds_cursor6 s) = 16"
  shows "\<exists>r s'. nextFree6 s now key = Some (r, s') \<and> (\<forall>ip. r = Some ip \<longrightarrow> length ip = 16 \<and>
     be_val (dc_IPv6Start (ds_cfg s)) \<le> be_val ip \<and> be_val ip \<le> be_val (dc_IPv6End (ds_cfg s)))"
proof -
  let ?sb = "dc_IPv6Start (ds_cfg s)" and ?eb = "dc_IPv6End (ds_cfg s)" and ?c = "ds_cursor6 s"
  define cur where "cur = (if ?c = [] \<or> bytesCompare ?c ?sb < 0 \<or> bytesCompare ?c ?eb > 0 then ?sb else ?c)"
  have c: "length cur = 16" "be_val ?sb \<le> be_val cur" "be_val cur \<le> be_val ?eb"
    using pool rng assms(6) bytesCompare16[of ?c ?sb] bytesCompare16[of ?c ?eb] by (auto simp: cur_def)
  have n: "nextFree6 s now key = scan6 ?sb ?eb now key cur cur s"
    using pool by (auto simp: nextFree6_def poolOfLocked_def Let_def To16_def cur_def)
  have "(be_val cur - be_val ?sb + (be_val ?eb - be_val ?sb) + 1) mod (be_val ?eb - be_val ?sb + 1) = be_val cur - be_val ?sb"
  proof -
    have "be_val cur - be_val ?sb < be_val ?eb - be_val ?sb + 1" using c by simp
    then show ?thesis by (simp only: add.assoc mod_add_self2 mod_less)
  qed
  from scan6_ends[OF pool(2,3) c(1) c(2,3) rng(2) c this] show ?thesis unfolding n .
qed

end
