(* ===== verification/DhcpInvariants.thy ===== *)
theory DhcpInvariants
  imports DhcpPool
begin

text \<open>
  Invariants of the DHCP server that hold for any sequence of packets. A property that the few primitive changes of the
  server keep is kept by both handlers: that is the locale \<open>dhcp_invariant\<close>, interpreted for the name tables and for the range
  and cursor of the IPv6 pool. From the second, every DHCPv6 packet is answered after finitely many steps.
\<close>

section \<open>What every packet keeps\<close>

locale dhcp_invariant =
  fixes I :: "dhcpServer \<Rightarrow> bool"
  assumes inuse: "I s \<Longrightarrow> I (snd (inUseLocked s now ip key))"
    and commit: "I s \<Longrightarrow> I (commitLocked s now l)"
    and renew: "I s \<Longrightarrow> I (renewLocked s now r h)"
    and release: "I s \<Longrightarrow> I (snd (releaseLease s key ip))"
    and decline: "I s \<Longrightarrow> I (declineLease s now ip)"
    and hold: "I s \<Longrightarrow> I (holdOffer s now key ip)"
    and cursor4: "I s \<Longrightarrow> I (s\<lparr>ds_cursor4 := c\<rparr>)"
    and next6: "I s \<Longrightarrow> nextFree6 s now key = Some (r6, s') \<Longrightarrow> I s'"
begin

lemma inuse_step: "inUseLocked s now ip key = (u, s') \<Longrightarrow> I s \<Longrightarrow> I s'"
  using inuse[of s now ip key] by simp

lemma scan4_keeps: "I s \<Longrightarrow> I (snd (scan4 sb n now key ixs s))"
proof (induction ixs arbitrary: s)
  case (Cons i ixs)
  then show ?case using inuse by (auto simp: scan4_Cons Let_def split: prod.splits intro!: cursor4 dest: inuse_step)
qed simp

lemma nextFree4_keeps: "nextFree4 s now key = (r, s') \<Longrightarrow> I s \<Longrightarrow> I s'"
  using scan4_keeps[of s] by (auto simp: nextFree4_def Let_def split: prod.splits if_splits) (metis snd_conv)

lemma ownLease_keeps: "ownLease s now key h = Some (ip, s') \<Longrightarrow> I s \<Longrightarrow> I s'"
  using renew by (auto simp: ownLease_def Let_def split: option.splits if_splits)

lemma dynamic4_keeps: "allocV4Dynamic s now key req h = (r, s') \<Longrightarrow> I s \<Longrightarrow> I s'"
  by (auto simp: allocV4Dynamic_def Let_def split: option.splits prod.splits if_splits
      intro!: hold dest: ownLease_keeps nextFree4_keeps inuse_step)

lemma allocV4_keeps: "allocV4 s now mac req h = (r, s') \<Longrightarrow> I s \<Longrightarrow> I s'"
  by (auto simp: allocV4_def Let_def split: option.splits if_splits intro: commit dest: dynamic4_keeps)

lemma handleV4_keeps: "I s \<Longrightarrow> I (snd (handleV4 lib now m s))"
  by (auto simp: handleV4_def v4Discover_def v4Request_def v4RequestCheck_def commit4_eq ackWith_def v4Release_def v4Decline_def v4Inform_def Let_def
      split: mtype4.split prod.split verdict.split option.split intro!: commit release decline dest: allocV4_keeps inuse_step split: if_splits)

lemma pickV6_keeps: "pickV6 s now key = Some (r, s') \<Longrightarrow> I s \<Longrightarrow> I s'"
  by (auto simp: pickV6_def split: option.splits prod.splits intro!: hold dest: next6)

lemma dynamic6_keeps: "allocV6Dynamic s now key req h = Some (r, s') \<Longrightarrow> I s \<Longrightarrow> I s'"
  by (auto simp: allocV6Dynamic_def split: option.splits prod.splits if_splits intro!: hold dest: ownLease_keeps pickV6_keeps inuse_step)

lemma allocV6_keeps: "allocV6 s now d h req = Some (r, s') \<Longrightarrow> I s \<Longrightarrow> I s'"
  by (auto simp: allocV6_def Let_def split: option.splits if_splits intro: commit dest: dynamic6_keeps)

lemma solicit_keeps: "v6Solicit lib now peer m d s = Some (ev, s') \<Longrightarrow> I s \<Longrightarrow> I s'"
  by (auto simp: v6Solicit_def Let_def split: option.splits prod.splits if_splits intro: commit dest: allocV6_keeps)

lemma request6_keeps: "v6Request lib now peer m d s = (ev, s') \<Longrightarrow> I s \<Longrightarrow> I s'"
  by (auto simp: v6Request_def Let_def split: prod.splits if_splits intro: commit dest: inuse_step)

lemma decline6_keeps: "I s \<Longrightarrow> I (v6Decline now m s)"
proof -
  have "I s \<Longrightarrow> I (fold (\<lambda>a s. declineLease s now a) as s)" for as by (induction as arbitrary: s) (auto intro: decline)
  then show "I s \<Longrightarrow> I (v6Decline now m s)" by (simp add: v6Decline_def)
qed

lemma handleV6_keeps: "handleV6 lib now peer m s = Some (ev, s') \<Longrightarrow> I s \<Longrightarrow> I s'"
  by (auto simp: handleV6_def Let_def v6Release_def split: option.splits if_splits mtype6.splits
      intro: release decline6_keeps dest: solicit_keeps request6_keeps)

end


lemma scan6_keeps:
  "scan6 sb eb now key first cur s = Some res \<Longrightarrow> P s \<Longrightarrow> Q cur \<Longrightarrow> (\<And>s ip. P s \<Longrightarrow> P (snd (inUseLocked s now ip key))) \<Longrightarrow>
   (\<And>c. Q c \<Longrightarrow> Q (step6 sb eb c)) \<Longrightarrow> (\<And>s c. P s \<Longrightarrow> Q c \<Longrightarrow> P (s\<lparr>ds_cursor6 := c\<rparr>)) \<Longrightarrow> P (snd res)"
proof (induction rule: scan6.raw_induct[rotated 1, consumes 1, case_names step])
  case (step scan6 sb eb now key first cur s res)
  obtain used t where t: "inUseLocked s now cur key = (used, t)" by fastforce
  have p: "P t" using step(5)[OF step(3), of cur] t by simp
  show ?case using step(1)[OF _ p step(6)[OF step(4)] step(5-7)] step(2) step(7)[OF p step(6)[OF step(4)]] p by (auto simp: t split: if_splits)
qed

lemma nextFree6_keeps:
  assumes "\<And>s ip. P s \<Longrightarrow> P (snd (inUseLocked s now ip key))" "\<And>s c. P s \<Longrightarrow> P (s\<lparr>ds_cursor6 := c\<rparr>)"
    and "nextFree6 s now key = Some (r, s')" "P s"
  shows "P s'"
  using assms(3,4) scan6_keeps[where P = P and Q = "\<lambda>_. True" and s = s and res = "(r, s')", OF _ _ _ assms(1) _ assms(2)]
  by (auto simp: nextFree6_def Let_def split: prod.splits if_splits)

section \<open>The name tables\<close>

text \<open>The tables that answer name lookups are those of the current reservations and leases.\<close>

definition names_ok :: "dhcpServer \<Rightarrow> bool" where
  "names_ok s \<longleftrightarrow> (ds_hosts s, ds_ptr s) = hostTables s"

lemma names_rebuilt [simp]: "names_ok (rebuildHostsLocked s)" "names_ok (markDirtyLocked (rebuildHostsLocked s))"
  by (simp_all add: names_ok_def rebuildHostsLocked_def markDirtyLocked_def setHosts_def hostTables_def)

lemma names_cong:
  "names_ok s \<Longrightarrow> ds_cfg s' = ds_cfg s \<Longrightarrow> ds_obj s' = ds_obj s \<Longrightarrow> ds_leases s' = ds_leases s \<Longrightarrow> ds_hosts s' = ds_hosts s \<Longrightarrow> ds_ptr s' = ds_ptr s \<Longrightarrow> names_ok s'"
  by (simp add: names_ok_def hostTables_def)

lemma names_inUse: "names_ok s \<Longrightarrow> names_ok (snd (inUseLocked s now ip key))"
  by (auto simp: inUseLocked_def Let_def reclaim_def split: option.split)

lemma names_cursor6: "names_ok s \<Longrightarrow> names_ok (s\<lparr>ds_cursor6 := c\<rparr>)"
  by (erule names_cong) simp_all

interpretation names: dhcp_invariant names_ok
proof unfold_locales
  fix s now ip key l r h c r6 s'
  assume ok: "names_ok s"
  show "names_ok (snd (inUseLocked s now ip key))" using ok by (rule names_inUse)
  show "names_ok (commitLocked s now l)" by (simp add: commitLocked_def commitStamped_def)
  show "names_ok (renewLocked s now r h)" using ok by (simp add: renewLocked_def Let_def)
  show "names_ok (snd (releaseLease s key ip))" using ok by (auto simp: releaseLease_def split: option.split)
  show "names_ok (declineLease s now ip)" using ok by (simp add: declineLease_def Let_def)
  show "names_ok (holdOffer s now key ip)" using ok by (rule names_cong) (simp_all add: holdOffer_def)
  show "names_ok (s\<lparr>ds_cursor4 := c\<rparr>)" using ok by (rule names_cong) simp_all
  show "nextFree6 s now key = Some (r6, s') \<Longrightarrow> names_ok s'" using nextFree6_keeps[OF names_inUse names_cursor6] ok by blast
qed

lemma reach_names: "dhcp_reach lib s \<Longrightarrow> names_ok s"
proof (induction rule: dhcp_reach.induct)
  case (persist s ok)
  from persist.IH show ?case by (rule names_cong) (simp_all add: persistNow_def Let_def)
next
  case (start s b4 b6)
  from start.IH show ?case by (rule names_cong) (simp_all add: dhcp_Start_def Let_def)
next
  case (stop s ok)
  from stop.IH show ?case by (rule names_cong) (simp_all add: dhcp_Stop_def persistNow_def Let_def)
qed (auto simp: dhcp_SetConfig_def Let_def intro: names.handleV4_keeps names.handleV6_keeps)

section \<open>Every DHCPv6 packet is answered\<close>

definition range6_ok :: "dhcpServer \<Rightarrow> bool" where
  "range6_ok s \<longleftrightarrow> (dc_IPv6 (ds_cfg s) \<longrightarrow> length (dc_IPv6Start (ds_cfg s)) = 16 \<and> length (dc_IPv6End (ds_cfg s)) = 16 \<and>
       be_val (dc_IPv6Start (ds_cfg s)) \<le> be_val (dc_IPv6End (ds_cfg s)) \<and> be_val (dc_IPv6End (ds_cfg s)) < 2 ^ 128 - 1) \<and>
     (ds_cursor6 s = [] \<or> length (ds_cursor6 s) = 16)"

lemma range6_cong: "range6_ok s \<Longrightarrow> ds_cfg s' = ds_cfg s \<Longrightarrow> ds_cursor6 s' = ds_cursor6 s \<Longrightarrow> range6_ok s'"
  by (simp add: range6_ok_def)

lemma cursor6_fields [simp]:
  "ds_cursor6 (rebuildHostsLocked s) = ds_cursor6 s" "ds_cursor6 (markDirtyLocked s) = ds_cursor6 s" "ds_cursor6 (commitLocked s now l) = ds_cursor6 s"
  "ds_cursor6 (snd (inUseLocked s now ip key)) = ds_cursor6 s" "ds_cursor6 (renewLocked s now r h) = ds_cursor6 s"
  "ds_cursor6 (snd (releaseLease s key ip)) = ds_cursor6 s" "ds_cursor6 (declineLease s now ip) = ds_cursor6 s" "ds_cursor6 (holdOffer s now key ip) = ds_cursor6 s"
  by (auto simp: rebuildHostsLocked_def markDirtyLocked_def setHosts_def commitLocked_def commitStamped_def installLease_def newLease_def dropOther_def clearOffer_def
      inUseLocked_def reclaim_def renewLocked_def releaseLease_def declineLease_def holdOffer_def Let_def split: option.split)

lemma range6_next:
  assumes ok: "range6_ok s" and n: "nextFree6 s now key = Some (r, s')"
  shows "range6_ok s'"
proof (cases "dc_IPv6 (ds_cfg s)")
  case True
  let ?sb = "dc_IPv6Start (ds_cfg s)"
  have sb: "To16 ?sb = ?sb" "length ?sb = 16" using ok True by (simp_all add: range6_ok_def To16_def)
  define c where "c = (if ds_cursor6 s = [] \<or> bytesCompare (ds_cursor6 s) ?sb < 0 \<or> bytesCompare (ds_cursor6 s) (dc_IPv6End (ds_cfg s)) > 0 then ?sb else ds_cursor6 s)"
  have c: "length c = 16" using ok sb by (auto simp: c_def range6_ok_def)
  have q: "length (step6 ?sb eb c) = 16" if "length c = 16" for eb c using that sb by (simp add: step6_def incr_def addOne128_def)
  have eb: "To16 (dc_IPv6End (ds_cfg s)) = dc_IPv6End (ds_cfg s)" "?sb \<noteq> []" using ok True by (auto simp: range6_ok_def To16_def)
  have "nextFree6 s now key = scan6 ?sb (dc_IPv6End (ds_cfg s)) now key c c s"
    using eb(2) by (simp add: nextFree6_def poolOfLocked_def True Let_def c_def sb(1) eb(1))
  then have "scan6 ?sb (dc_IPv6End (ds_cfg s)) now key c c s = Some (r, s')" using n by simp
  then have "range6_ok (snd (r, s'))"
    by (rule scan6_keeps[where P = range6_ok and Q = "\<lambda>c. length c = 16", OF _ ok c _ q]) (auto elim: range6_cong simp: range6_ok_def)
  then show ?thesis by simp
next
  case False
  then show ?thesis using n ok by (simp add: nextFree6_def poolOfLocked_def)
qed

interpretation range6: dhcp_invariant range6_ok
  by unfold_locales (auto intro: range6_next elim: range6_cong)

lemma nextFree6_returns: "range6_ok s \<Longrightarrow> nextFree6 s now key \<noteq> None"
  using nextFree6_ends[of s now key] by (cases "dc_IPv6 (ds_cfg s)") (auto simp: range6_ok_def nextFree6_def poolOfLocked_def)

lemma pickV6_returns: "range6_ok s \<Longrightarrow> pickV6 s now key \<noteq> None"
  using nextFree6_returns by (simp add: pickV6_def)

lemma dynamic6_returns:
  assumes "range6_ok s"
  shows "allocV6Dynamic s now key req h \<noteq> None"
proof -
  obtain used t where t: "inUseLocked s now req key = (used, t)" by fastforce
  have "range6_ok t" using range6.inuse_step[OF t assms] .
  then show ?thesis using pickV6_returns assms
    by (cases "ownLease s now key h"; cases "ownOffer s now key") (auto simp: allocV6Dynamic_def t case_prod_unfold)
qed

lemma allocV6_returns: "range6_ok s \<Longrightarrow> allocV6 s now d h req \<noteq> None"
  using dynamic6_returns by (auto simp: allocV6_def Let_def split: option.split)

lemma solicit6_returns: "range6_ok s \<Longrightarrow> v6Solicit lib now peer m d s \<noteq> None"
  using allocV6_returns[of s now d "clientHostname6 m" "requestedAddr6 m"] by (auto simp: v6Solicit_def Let_def split: option.split prod.split)

lemma handleV6_returns: "range6_ok s \<Longrightarrow> handleV6 lib now peer m s \<noteq> None"
  using solicit6_returns by (cases m) (simp_all add: handleV6_def Let_def split: mtype6.split)

lemma ParseIP_16: "ParseIP a \<noteq> [] \<Longrightarrow> length (ParseIP a) = 16"
  by (auto simp: ParseIP_def To16_def v4InV6Prefix_def split: option.splits if_splits)

lemma validate_range6:
  assumes "validateDHCP c = None" "dy_Enabled c" "dy_IPv6 c"
  shows "length (ParseIP (dy_IPv6RangeStart c)) = 16" "length (ParseIP (dy_IPv6RangeEnd c)) = 16"
    "be_val (ParseIP (dy_IPv6RangeStart c)) \<le> be_val (ParseIP (dy_IPv6RangeEnd c))"
proof -
  have "validate6 c = None" using assms by (auto simp: validateDHCP_def Let_def split: option.splits if_splits)
  then have v: "ParseIP (dy_IPv6RangeStart c) \<noteq> []" "ParseIP (dy_IPv6RangeEnd c) \<noteq> []" "bytes_le (ParseIP (dy_IPv6RangeStart c)) (ParseIP (dy_IPv6RangeEnd c))"
    by (auto simp: validate6_def Let_def split: option.splits if_splits)
  show l: "length (ParseIP (dy_IPv6RangeStart c)) = 16" "length (ParseIP (dy_IPv6RangeEnd c)) = 16" using v ParseIP_16 by auto
  show "be_val (ParseIP (dy_IPv6RangeStart c)) \<le> be_val (ParseIP (dy_IPv6RangeEnd c))" using v(3) l by (simp add: bytes_le_val)
qed


lemma boot_range6:
  assumes "validateDHCP c = None" "dy_Enabled c" "ParseIP (dy_IPv6RangeEnd c) \<noteq> replicate 16 255"
  shows "range6_ok (dhcp_SetConfig (dhcpNew d) now (ConfigFrom c addrs))"
proof -
  have f: "ds_cfg (dhcp_SetConfig (dhcpNew d) now cfg) = cfg" "ds_cursor6 (dhcp_SetConfig (dhcpNew d) now cfg) = []" for cfg
  proof -
    have "ds_cursor6 (fold (loadOne now) ls s) = ds_cursor6 s" for ls s
      by (induction ls arbitrary: s) (simp_all add: loadOne_def installLease_def newLease_def)
    then show "ds_cfg (dhcp_SetConfig (dhcpNew d) now cfg) = cfg" "ds_cursor6 (dhcp_SetConfig (dhcpNew d) now cfg) = []"
      by (cases d; simp add: dhcp_SetConfig_def loadLocked_def load_cfg dhcpNew_def Let_def)+
  qed
  have "be_val (ParseIP (dy_IPv6RangeEnd c)) < 2 ^ 128 - 1" if "dy_IPv6 c"
  proof -
    note l = validate_range6(2)[OF assms(1,2) that]
    then show ?thesis using be_val_less[of "ParseIP (dy_IPv6RangeEnd c)"] be_val_max[OF l] assms(3) by fastforce
  qed
  then show ?thesis using validate_range6[OF assms(1,2)] by (simp add: range6_ok_def f ConfigFrom_def)
qed

text \<open>The server on a sequence of DHCPv6 packets, with the time each arrives and its sender.\<close>

fun serve6 :: "dhcpLib \<Rightarrow> (gotime \<times> IP option option \<times> v6req option) list \<Rightarrow> dhcpServer \<Rightarrow> (dhcp_event list \<times> dhcpServer) option" where
  "serve6 lib [] s = Some ([], s)"
| "serve6 lib ((now, peer, m) # ps) s =
     (case handleV6 lib now peer m s of
        None \<Rightarrow> None
      | Some (ev, s') \<Rightarrow> map_option (\<lambda>(evs, t). (ev @ evs, t)) (serve6 lib ps s'))"

lemma serve6_returns: "range6_ok s \<Longrightarrow> \<exists>ev s'. serve6 lib ps s = Some (ev, s') \<and> range6_ok s'"
proof (induction ps arbitrary: s)
  case (Cons p ps)
  obtain now peer m where p: "p = (now, peer, m)" by (cases p)
  obtain ev s' where h: "handleV6 lib now peer m s = Some (ev, s')" using handleV6_returns[OF Cons.prems] by fastforce
  from Cons.IH[OF range6.handleV6_keeps[OF h Cons.prems]] show ?case by (auto simp: p h)
qed simp

end
