(* ===== verification/DhcpTheorems.thy ===== *)
theory DhcpTheorems
  imports DhcpInvariants Pipeline
begin

text \<open>
  What the DHCP server guarantees, and where it fails: theorems over the handlers of \<^verbatim>\<open>DhcpProto\<close>, from the
  invariant of \<^verbatim>\<open>DhcpProps\<close> and the arithmetic of \<^verbatim>\<open>DhcpPool\<close>. The runs at the end use one home network.
\<close>

section \<open>A home network\<close>

definition homeConfig :: "string \<Rightarrow> string \<Rightarrow> DHCPStaticLease list \<Rightarrow> DHCPConfig" where
  "homeConfig start end' statics = \<lparr>dy_Enabled = True, dy_Interface = ''eth0'', dy_Subnet = ''10.0.0.0/16'', dy_RangeStart = start, dy_RangeEnd = end',
     dy_Gateway = [], dy_DNS = [], dy_LeaseTime = Hour, dy_Domain = ''lan'', dy_StaticLeases = statics, dy_IPv6 = False, dy_IPv6Prefix = [],
     dy_IPv6RangeStart = [], dy_IPv6RangeEnd = []\<rparr>"

definition homeAddrs :: HostAddresses where "homeAddrs = \<lparr>ha_IPv4 = [10, 0, 0, 1], ha_IPv6 = [], ha_MAC = None\<rparr>"

definition homeServer :: "string \<Rightarrow> string \<Rightarrow> DHCPStaticLease list \<Rightarrow> dhcpServer" where
  "homeServer start end' statics = dhcp_SetConfig (dhcpNew None) 0 (ConfigFrom (homeConfig start end' statics) homeAddrs)"

definition okLib :: dhcpLib where
  "okLib = \<lparr>dl_reply4 = \<lambda>_ _. True, dl_reply6 = \<lambda>_ _ _. True, dl_duidBytes = \<lambda>d. case d of DUIDLL b \<Rightarrow> b | DUIDOther b \<Rightarrow> b\<rparr>"

text \<open>A packet from the client with the given last byte of its hardware address.\<close>

definition packet :: "mtype4 \<Rightarrow> byte \<Rightarrow> IP \<Rightarrow> v4req" where
  "packet t c req = \<lparr>v4_type = t, v4_mac = Some [2, 0, 0, 0, 0, c], v4_serverID = [10, 0, 0, 1], v4_requested = req, v4_ciaddr = [], v4_giaddr = [],
     v4_fqdn = [], v4_hostname = ''pc'', v4_broadcast = False\<rparr>"

definition messageTypes :: "dhcp_event list \<Rightarrow> mtype4 list" where
  "messageTypes ev = concat (map (\<lambda>e. case e of Send4 _ _ opts \<Rightarrow> List.map_filter (\<lambda>opt. case opt of WithMessageType t \<Rightarrow> Some t | _ \<Rightarrow> None) opts | _ \<Rightarrow> []) ev)"

definition offered :: "dhcp_event list \<Rightarrow> IP list" where
  "offered ev = concat (map (\<lambda>e. case e of Send4 _ _ opts \<Rightarrow> List.map_filter (\<lambda>opt. case opt of WithYourIP a \<Rightarrow> Some a | _ \<Rightarrow> None) opts | _ \<Rightarrow> []) ev)"

lemma request_granted:
  "v4_type m = Request4 \<Longrightarrow> v4RequestCheck now m s = (Grant req, s') \<Longrightarrow>
   handleV4 lib now m s = (v4Reply lib (v4RequestCommit now m req s') m Ack4 req, v4RequestCommit now m req s')"
  by (simp add: handleV4_def v4Request_def ackWith_def)

text \<open>A server on the range .10 to .20, and the same server after client 7 got .12.\<close>

definition freshServer :: dhcpServer where "freshServer = homeServer ''10.0.0.10'' ''10.0.0.20'' []"

definition leaseFor :: "string \<Rightarrow> string \<Rightarrow> gotime \<Rightarrow> Lease" where
  "leaseFor mac ip t = \<lparr>ls_Key = ''v4:'' @ mac, ls_MAC = mac, ls_DUID = [], ls_IP = ip, ls_Hostname = ''pc'', ls_Expires = t, ls_Static = False\<rparr>"

definition ask12 :: "byte \<Rightarrow> v4req" where "ask12 c = packet Request4 c [10, 0, 0, 12]"

lemma fresh_reach: "dhcp_reach lib freshServer"
  unfolding freshServer_def homeServer_def by (rule dhcp_reach.boot) code_simp+

lemma fresh_grants: "v4RequestCheck Second (ask12 7) freshServer = (Grant [10, 0, 0, 12], freshServer)"
  by code_simp

lemma fresh_commits:
  "leaseOf (v4RequestCommit Second (ask12 7) [10, 0, 0, 12] freshServer) ''v4:02:00:00:00:00:07'' = Some (leaseFor ''02:00:00:00:00:07'' ''10.0.0.12'' (Second + Hour))"
  by code_simp

lemma ask12_handled: "snd (handleV4 lib Second (ask12 7) freshServer) = v4RequestCommit Second (ask12 7) [10, 0, 0, 12] freshServer"
  using request_granted[OF _ fresh_grants, of lib] by (simp add: ask12_def packet_def)

section \<open>The lease table\<close>



text \<open>An address the server picks for a DHCPv4 client is from then on in use for every other client, and unless a
  reservation forced it, no other client had a live lease on it.\<close>

theorem dhcp_offer_exclusive:
  assumes "dhcp_reach lib s" and "allocV4 s now (Some m) req h = ((Some ip, static), s')"
  shows "(\<forall>key'. key' \<noteq> v4Key m \<longrightarrow> fst (inUseLocked s' now ip key')) \<and>
    (static \<or> (\<forall>l. leaseAt s (IP_String ip) = Some l \<longrightarrow> ls_Static l \<or> ls_Expires l > now \<longrightarrow> ls_Key l = v4Key m))"
  using dhcp_reach_ok[OF assms(1)] allocV4_good[of s now m req h "Some ip" static s'] assms(2)
  by (auto simp: srv_ok_def alloc_good_def held_def not_taken_def)

theorem dhcp_offer_exclusive_witness:
  "fst (inUseLocked (snd (allocV4 freshServer Second (Some [2, 0, 0, 0, 0, 7]) [] [])) Second [10, 0, 0, 10] ''v4:02:00:00:00:00:08'')"
proof -
  have "fst (allocV4 freshServer Second (Some [2, 0, 0, 0, 0, 7]) [] []) = (Some [10, 0, 0, 10], False)" by code_simp
  then have "allocV4 freshServer Second (Some [2, 0, 0, 0, 0, 7]) [] [] = ((Some [10, 0, 0, 10], False), snd (allocV4 freshServer Second (Some [2, 0, 0, 0, 0, 7]) [] []))"
    by (metis prod.collapse)
  moreover have "''v4:02:00:00:00:00:08'' \<noteq> v4Key [2, 0, 0, 0, 0, 7]" by code_simp
  ultimately show ?thesis using dhcp_offer_exclusive[OF fresh_reach[of okLib]] by blast
qed

section \<open>The pool\<close>

text \<open>When no byte of the start of the range exceeds that of its end, the search for a free address returns one inside the
  configured range, and gives up only when every address of the range is in use for the client.\<close>

theorem dhcp_pool_exact:
  assumes "dhcp_reach lib s" and "bytewise (To4 (dc_RangeStart (ds_cfg s))) (To4 (dc_RangeEnd (ds_cfg s)))"
  shows "case nextFree4 s now key of
      (Some ip, s') \<Rightarrow> be_val (To4 (dc_RangeStart (ds_cfg s))) \<le> be_val ip \<and> be_val ip \<le> be_val (To4 (dc_RangeEnd (ds_cfg s)))
    | (None, s') \<Rightarrow> \<forall>a. length a = 4 \<and> be_val (To4 (dc_RangeStart (ds_cfg s))) \<le> be_val a \<and> be_val a \<le> be_val (To4 (dc_RangeEnd (ds_cfg s))) \<longrightarrow>
        fst (inUseLocked s now a key)"
proof -
  have rng: "rangeV4 s" using dhcp_reach_ok[OF assms(1)] by (simp add: srv_ok_def)
  obtain r s' where n: "nextFree4 s now key = (r, s')" by (cases "nextFree4 s now key")
  show ?thesis using nextFree4_pool[OF rng assms(2), of now key] n by (cases r) auto
qed

theorem dhcp_pool_exact_witness:
  "\<exists>ip s'. nextFree4 freshServer Second ''k'' = (Some ip, s') \<and> be_val [10, 0, 0, 10] \<le> be_val ip \<and> be_val ip \<le> be_val [10, 0, 0, 20]"
proof -
  have b: "bytewise (To4 (dc_RangeStart (ds_cfg freshServer))) (To4 (dc_RangeEnd (ds_cfg freshServer)))"
    "To4 (dc_RangeStart (ds_cfg freshServer)) = [10, 0, 0, 10]" "To4 (dc_RangeEnd (ds_cfg freshServer)) = [10, 0, 0, 20]"
    "fst (nextFree4 freshServer Second ''k'') \<noteq> None" by code_simp+
  from dhcp_pool_exact[OF fresh_reach[of okLib] b(1), of Second "''k''"] b(2-4) show ?thesis
    by (cases "nextFree4 freshServer Second ''k''") (auto split: option.splits)
qed


definition overrunRun :: "IP list \<times> mtype4 list" where
  "overrunRun =
     (let s0 = homeServer ''10.0.0.255'' ''10.0.1.0'' [];
          (e1, s1) = handleV4 okLib 1 (packet Discover4 1 []) s0;
          (e2, s2) = handleV4 okLib 2 (packet Discover4 2 []) s1;
          (e3, s3) = handleV4 okLib 3 (packet Discover4 3 []) s2;
          (e4, s4) = handleV4 okLib 4 (packet Request4 3 [10, 0, 1, 1]) s3
      in (concat (map offered [e1, e2, e3]), messageTypes e4))"

text \<open>A range whose last byte wraps round is accepted by the validation, but its size is computed byte by byte without
  borrow: the range from 10.0.0.255 to 10.0.1.0 of two addresses serves 10.0.1.1 to a third client, whose request is then refused.\<close>

theorem dhcp_pool_overrun:
  "validateDHCP (homeConfig ''10.0.0.255'' ''10.0.1.0'' []) = None \<and>
   overrunRun = ([[10, 0, 0, 255], [10, 0, 1, 0], [10, 0, 1, 1]], [Nak4])"
  by (rule conjI; code_simp)


lemma inPool_cfg: "ds_cfg s' = ds_cfg s \<Longrightarrow> addrInPoolLocked s' ip v6 = addrInPoolLocked s ip v6"
  by (simp add: addrInPoolLocked_def poolOfLocked_def)

text \<open>A reservation inside the subnet but outside the dynamic range is offered on DISCOVER and stored as a lease, yet every
  REQUEST for it is refused: the client never gets an address.\<close>

theorem dhcp_static_outside_range:
  assumes types: "v4_type d = Discover4" "v4_type r = Request4" "v4_mac d = Some mac" "v4_mac r = Some mac"
    and mine: "\<not> foreign4 s d" "\<not> foreign4 s r"
    and st: "staticForClientLocked s (Some mac) [] = Some st" "To4 (sl_IP st) \<noteq> []" "\<not> addrInPoolLocked s (To4 (sl_IP st)) False"
    and req: "requested4 r = To4 (sl_IP st)"
  shows "\<exists>s'. handleV4 lib now d s = (v4Reply lib s' d Offer4 (To4 (sl_IP st)), s') \<and> leaseOf s' (v4Key mac) \<noteq> None \<and>
    handleV4 lib later r s' = (v4Nak lib s' r, s')"
proof -
  let ?l = "\<lparr>ls_Key = v4Key mac, ls_MAC = HW_String mac, ls_DUID = [], ls_IP = IP_String (To4 (sl_IP st)),
    ls_Hostname = (if sl_Hostname st = [] then clientHostname4 d else sl_Hostname st), ls_Expires = 0, ls_Static = True\<rparr>"
  define s' where "s' = commitLocked s now ?l"
  have cfg: "ds_cfg s' = ds_cfg s" by (simp add: s'_def)
  have "handleV4 lib now d s = (v4Reply lib s' d Offer4 (To4 (sl_IP st)), s')"
    using st(1,2) types mine by (simp add: handleV4_def v4Discover_def allocV4_def s'_def Let_def)
  moreover have "leaseOf s' (v4Key mac) \<noteq> None" by (simp add: s'_def leaseOf_def commit_leases)
  moreover have "v4RequestCheck later r s' = (Nak, s')"
    using st(3) mine(2) req by (simp add: v4RequestCheck_def Let_def inPool_cfg[OF cfg] foreign4_def cfg)
  then have "handleV4 lib later r s' = (v4Nak lib s' r, s')" using types by (simp add: handleV4_def v4Request_def)
  ultimately show ?thesis by blast
qed

text \<open>A reservation for .5 on the range .10 to .20.\<close>

definition printerLease :: DHCPStaticLease where
  "printerLease = \<lparr>cl_MAC = ''02:00:00:00:00:07'', cl_DUID = [], cl_IP = ''10.0.0.5'', cl_Hostname = ''printer''\<rparr>"

theorem dhcp_static_outside_range_witness:
  "validateDHCP (homeConfig ''10.0.0.10'' ''10.0.0.20'' [printerLease]) = None \<and>
   (let s = homeServer ''10.0.0.10'' ''10.0.0.20'' [printerLease]; d = packet Discover4 7 []; r = packet Request4 7 [10, 0, 0, 5] in
    \<exists>s'. handleV4 okLib 1 d s = (v4Reply okLib s' d Offer4 [10, 0, 0, 5], s') \<and> leaseOf s' (v4Key [2, 0, 0, 0, 0, 7]) \<noteq> None \<and>
      handleV4 okLib 2 r s' = (v4Nak okLib s' r, s'))"
proof (rule conjI)
  show "validateDHCP (homeConfig ''10.0.0.10'' ''10.0.0.20'' [printerLease]) = None" by code_simp
  let ?s = "homeServer ''10.0.0.10'' ''10.0.0.20'' [printerLease]" and ?d = "packet Discover4 7 []" and ?r = "packet Request4 7 [10, 0, 0, 5]"
  let ?st = "\<lparr>sl_MAC = ''02:00:00:00:00:07'', sl_DUID = [], sl_IP = ParseIP ''10.0.0.5'', sl_Hostname = ''printer''\<rparr>"
  have st: "staticForClientLocked ?s (Some [2, 0, 0, 0, 0, 7]) [] = Some ?st" by code_simp
  have a: "To4 (sl_IP ?st) = [10, 0, 0, 5]" by code_simp
  have f: "\<not> foreign4 ?s ?d" "\<not> foreign4 ?s ?r" "\<not> addrInPoolLocked ?s [10, 0, 0, 5] False" "requested4 ?r = [10, 0, 0, 5]" by code_simp+
  have "\<exists>s'. handleV4 okLib 1 ?d ?s = (v4Reply okLib s' ?d Offer4 (To4 (sl_IP ?st)), s') \<and> leaseOf s' (v4Key [2, 0, 0, 0, 0, 7]) \<noteq> None \<and>
      handleV4 okLib 2 ?r s' = (v4Nak okLib s' ?r, s')"
    by (rule dhcp_static_outside_range[OF _ _ _ _ f(1,2) st]) (unfold a, simp_all only: f, simp_all add: packet_def)
  then show "let s = ?s; d = ?d; r = ?r in
    \<exists>s'. handleV4 okLib 1 d s = (v4Reply okLib s' d Offer4 [10, 0, 0, 5], s') \<and> leaseOf s' (v4Key [2, 0, 0, 0, 0, 7]) \<noteq> None \<and>
      handleV4 okLib 2 r s' = (v4Nak okLib s' r, s')" unfolding Let_def a .
qed

section \<open>Restart\<close>

definition keptLease :: "dhcpConfig \<Rightarrow> gotime \<Rightarrow> Lease \<Rightarrow> bool" where
  "keptLease c now l \<longleftrightarrow> (if ls_Static l then staticForLocked ((dhcpNew None)\<lparr>ds_cfg := c\<rparr>) (ls_Key l) (ls_IP l) else ls_Expires l > now)"

lemma loadOne_kept: "loadOne now l s = (if keptLease (ds_cfg s) now l then installLease l s else s)"
  by (simp add: loadOne_def keptLease_def staticForLocked_def)

lemma install_leaseOf: "table_ok s \<Longrightarrow> leaseOf (installLease l s) k = (if k = ls_Key l then Some l else leaseOf s k)"
  using table_okD(2)[of s k] by (cases "map_of (ds_leases s) k") (auto simp: leaseOf_def install_fields nth_append)

lemma load_leases:
  assumes "disk_ok ls" "table_ok s" "ds_reserved s = []" "ds_leases s = []" "ds_byIP s = []"
  shows "leaseOf (fold (loadOne now) ls s) k = Some l \<longleftrightarrow> l \<in> set ls \<and> ls_Key l = k \<and> keptLease (ds_cfg s) now l"
  using assms(1)
proof (induction ls rule: rev_induct)
  case Nil
  then show ?case using assms(4) by (simp add: leaseOf_def)
next
  case (snoc x ls)
  have d: "disk_ok ls" and key: "ls_Key x \<notin> ls_Key ` set ls" using snoc.prems by (auto simp: disk_ok_def)
  have new: "ls_Key l \<noteq> ls_Key x" if "l \<in> set ls" for l using key that by (metis imageI)
  have t: "table_ok (fold (loadOne now) ls s)" using assms(5) by (intro load_ok[OF d assms(2,3)]) simp
  have "fold (loadOne now) (ls @ [x]) s =
      (if keptLease (ds_cfg s) now x then installLease x (fold (loadOne now) ls s) else fold (loadOne now) ls s)"
    by (simp add: loadOne_kept[of now x] load_cfg)
  then show ?case using snoc.IH[OF d] new install_leaseOf[OF t, of x k] by auto
qed

text \<open>A server started on the leases a reachable server wrote has exactly the leases of that server that have not expired, or
  that a configured reservation still backs.\<close>

theorem dhcp_leases_survive_restart:
  assumes "dhcp_reach lib s"
  shows "leaseOf (dhcp_SetConfig (dhcpNew (Some (savedLeases s))) now cfg) k = Some l \<longleftrightarrow> leaseOf s k = Some l \<and> keptLease cfg now l"
proof -
  have ok: "table_ok s" using dhcp_reach_ok[OF assms] by (simp add: srv_ok_def)
  let ?s = "(dhcpNew (Some (savedLeases s)))\<lparr>ds_cfg := cfg, ds_serverDUID := Some (makeServerDUID (dc_ServerMAC cfg) now)\<rparr>"
  have t: "table_ok ?s" by (rule table_ok_cong[OF _ _ _ _ new_ok]) simp_all
  have "leaseOf (dhcp_SetConfig (dhcpNew (Some (savedLeases s))) now cfg) k = leaseOf (fold (loadOne now) (savedLeases s) ?s) k"
    by (simp add: dhcp_SetConfig_def loadLocked_def dhcpNew_def leaseOf_def)
  also have "\<dots> = Some l \<longleftrightarrow> l \<in> set (savedLeases s) \<and> ls_Key l = k \<and> keptLease cfg now l"
    using load_leases[OF saved_ok[OF ok] t] by (simp add: dhcpNew_def)
  also have "\<dots> \<longleftrightarrow> leaseOf s k = Some l \<and> keptLease cfg now l"
    using table_okD(1,2)[OF ok] by (force simp: savedLeases_def leaseOf_Some)
  finally show ?thesis .
qed


theorem dhcp_leases_survive_restart_witness:
  "leaseOf (dhcp_SetConfig (dhcpNew (Some (savedLeases (snd (handleV4 okLib Second (ask12 7) freshServer))))) Hour (ds_cfg freshServer)) ''v4:02:00:00:00:00:07''
    = Some (leaseFor ''02:00:00:00:00:07'' ''10.0.0.12'' (Second + Hour))"
proof -
  have "keptLease (ds_cfg freshServer) Hour (leaseFor ''02:00:00:00:00:07'' ''10.0.0.12'' (Second + Hour))" by (simp add: keptLease_def leaseFor_def)
  then show ?thesis
    using dhcp_leases_survive_restart[OF dhcp_reach.v4[OF fresh_reach, of okLib Second "ask12 7"], unfolded ask12_handled] fresh_commits
    unfolding ask12_handled by blast
qed

section \<open>Interleavings\<close>


definition raceRun :: "(dhcp_event list \<times> dhcp_event list \<times> dhcpServer) option" where
  "raceRun =
     (case v4RequestCheck Second (ask12 7) freshServer of
        (Grant a, s1) \<Rightarrow>
          (case v4RequestCheck Second (ask12 8) s1 of
             (Grant b, s2) \<Rightarrow>
               let (e1, s3) = ackWith okLib (ask12 7) a (v4RequestCommit Second (ask12 7) a s2);
                   (e2, s4) = ackWith okLib (ask12 8) b (v4RequestCommit Second (ask12 8) b s3)
               in Some (e1, e2, s4)
           | _ \<Rightarrow> None)
      | _ \<Rightarrow> None)"

lemma race_check: "v4RequestCheck Second (ask12 8) freshServer = (Grant [10, 0, 0, 12], freshServer)" by code_simp

definition leased7 :: dhcpServer where "leased7 = v4RequestCommit Second (ask12 7) [10, 0, 0, 12] freshServer"
definition leased8 :: dhcpServer where "leased8 = v4RequestCommit Second (ask12 8) [10, 0, 0, 12] leased7"

lemma race_steps:
  "raceRun = Some (v4Reply okLib leased7 (ask12 7) Ack4 [10, 0, 0, 12], v4Reply okLib leased8 (ask12 8) Ack4 [10, 0, 0, 12], leased8)"
  by (simp add: raceRun_def fresh_grants race_check ackWith_def leased7_def leased8_def)

lemma race_replies:
  "messageTypes (v4Reply okLib leased7 (ask12 7) Ack4 [10, 0, 0, 12]) = [Ack4]" "offered (v4Reply okLib leased7 (ask12 7) Ack4 [10, 0, 0, 12]) = [[10, 0, 0, 12]]"
  "messageTypes (v4Reply okLib leased8 (ask12 8) Ack4 [10, 0, 0, 12]) = [Ack4]" "offered (v4Reply okLib leased8 (ask12 8) Ack4 [10, 0, 0, 12]) = [[10, 0, 0, 12]]"
  by code_simp+

text \<open>Two clients whose REQUESTs are both checked before either is committed both get an ACK for the same address, and the
  first one's lease is gone.\<close>

theorem dhcp_request_race:
  "\<exists>e1 e2 s. raceRun = Some (e1, e2, s) \<and> messageTypes e1 = [Ack4] \<and> messageTypes e2 = [Ack4] \<and> offered e1 = offered e2 \<and>
     leaseOf s (keyOf4 (ask12 7)) = None"
proof -
  have "leaseOf leased8 (keyOf4 (ask12 7)) = None" by code_simp
  then show ?thesis using race_steps race_replies by metis
qed

definition ask13 :: v4req where "ask13 = packet Request4 7 [10, 0, 0, 13]"

definition moved7 :: dhcpServer where "moved7 = v4RequestCommit (30 * Minute) ask13 [10, 0, 0, 13] leased7"

lemma moved_grants: "v4RequestCheck (30 * Minute) ask13 leased7 = (Grant [10, 0, 0, 13], leased7)" by code_simp

text \<open>A client that moves to another address leaves its old lease in the index by address; when that one has expired and another
  client asks for the address, the live lease of the first client is deleted.\<close>

theorem dhcp_moved_lease_lost:
  "let s1 = snd (handleV4 okLib Second (ask12 7) freshServer);
       s2 = snd (handleV4 okLib (30 * Minute) ask13 s1);
       s3 = snd (v4RequestCheck (Hour + 2 * Second) (ask12 8) s2)
   in leaseOf s2 (keyOf4 ask13) = Some (leaseFor ''02:00:00:00:00:07'' ''10.0.0.13'' (30 * Minute + Hour)) \<and> leaseOf s3 (keyOf4 ask13) = None"
proof -
  have "snd (handleV4 okLib (30 * Minute) ask13 leased7) = moved7"
    using request_granted[OF _ moved_grants, of okLib] by (simp add: moved7_def ask13_def packet_def)
  moreover have "leaseOf moved7 (keyOf4 ask13) = Some (leaseFor ''02:00:00:00:00:07'' ''10.0.0.13'' (30 * Minute + Hour))"
    "leaseOf (snd (v4RequestCheck (Hour + 2 * Second) (ask12 8) moved7)) (keyOf4 ask13) = None" by code_simp+
  ultimately show ?thesis by (simp add: ask12_handled leased7_def[symmetric])
qed

definition bye12 :: v4req where "bye12 = (packet Release4 7 [])\<lparr>v4_ciaddr := [10, 0, 0, 12]\<rparr>"

definition reloadRun :: dhcpServer where
  "reloadRun =
     (let s1 = persistNow (snd (handleV4 okLib Second (ask12 7) freshServer)) True;
          s2 = snd (handleV4 okLib (2 * Second) bye12 s1);
          s3 = snd (handleV4 okLib (3 * Second) (ask12 8) s2)
      in dhcp_SetConfig s3 (4 * Second) (ds_cfg s3))"

definition released7 :: dhcpServer where "released7 = v4Release bye12 (persistNow leased7 True)"
definition taken8 :: dhcpServer where "taken8 = v4RequestCommit (3 * Second) (ask12 8) [10, 0, 0, 12] released7"

lemma reload_grants: "v4RequestCheck (3 * Second) (ask12 8) released7 = (Grant [10, 0, 0, 12], released7)" by code_simp

lemma reload_steps: "reloadRun = dhcp_SetConfig taken8 (4 * Second) (ds_cfg taken8)"
proof -
  have "snd (handleV4 okLib (3 * Second) (ask12 8) released7) = taken8"
    using request_granted[OF _ reload_grants, of okLib] by (simp add: taken8_def ask12_def packet_def)
  moreover have "snd (handleV4 okLib (2 * Second) bye12 s) = v4Release bye12 s" for s by (simp add: handleV4_def bye12_def packet_def)
  ultimately show ?thesis by (simp add: reloadRun_def ask12_handled leased7_def[symmetric] released7_def[symmetric])
qed

text \<open>Applying a configuration to a running server reads the lease file again: a lease released since the last write comes back
  and two clients have a lease on one address.\<close>

theorem dhcp_reload_duplicates:
  "leaseOf reloadRun (keyOf4 (ask12 7)) = Some (leaseFor ''02:00:00:00:00:07'' ''10.0.0.12'' (Second + Hour)) \<and>
   leaseOf reloadRun (keyOf4 (ask12 8)) = Some (leaseFor ''02:00:00:00:00:08'' ''10.0.0.12'' (3 * Second + Hour))"
  unfolding reload_steps by (rule conjI; code_simp)

section \<open>DHCPv6\<close>

definition home6 :: DHCPConfig where
  "home6 = (homeConfig ''10.0.0.10'' ''10.0.0.20'' [])\<lparr>dy_IPv6 := True, dy_IPv6Prefix := ''7::/64'', dy_IPv6RangeStart := ''7::10'', dy_IPv6RangeEnd := ''7::20''\<rparr>"

text \<open>C29: a server started on a validated configuration handles every sequence of DHCPv6 packets in finitely many steps, unless
  its range ends at the last address of all.\<close>

theorem dhcp6_always_returns:
  assumes "validateDHCP c = None" and "dy_Enabled c" and "ParseIP (dy_IPv6RangeEnd c) \<noteq> replicate 16 255"
  shows "\<exists>ev s'. serve6 lib ps (dhcp_SetConfig (dhcpNew d) now (ConfigFrom c addrs)) = Some (ev, s')"
  using serve6_returns[OF boot_range6[OF assms]] by blast

definition solicit :: "byte \<Rightarrow> v6req" where
  "solicit c = \<lparr>v6_type = Solicit6, v6_clientID = Some (DUIDLL [2, 0, 0, 0, 0, c]), v6_serverID = None, v6_ianas = [([0, 0, 0, 1], [])], v6_rapid = True, v6_fqdn = None\<rparr>"

theorem dhcp6_always_returns_witness:
  "\<exists>ev s'. serve6 okLib [(1, None, Some (solicit 1)), (2, None, Some (solicit 2))] (dhcp_SetConfig (dhcpNew None) 0 (ConfigFrom home6 homeAddrs)) = Some (ev, s')"
proof (rule dhcp6_always_returns)
  show "validateDHCP home6 = None" by code_simp
  show "dy_Enabled home6" by code_simp
  show "ParseIP (dy_IPv6RangeEnd home6) \<noteq> replicate 16 255" by code_simp
qed

section \<open>Names\<close>

definition bareName :: "dhcpServer \<Rightarrow> string \<Rightarrow> string" where
  "bareName s name =
     (let n = CanonicalDomain name; domain = CanonicalDomain (dc_Domain (ds_cfg s))
      in if domain \<noteq> [] \<and> HasSuffix n (CHR ''.'' # domain) then TrimSuffix n (CHR ''.'' # domain) else n)"

definition namedAddress :: "dhcpServer \<Rightarrow> string \<Rightarrow> IP \<Rightarrow> bool" where
  "namedAddress s h ip \<longleftrightarrow>
     (\<exists>st \<in> set (dc_Static (ds_cfg s)). sl_Hostname st \<noteq> [] \<and> ToLower (sl_Hostname st) = h \<and> ip = sl_IP st) \<or>
     (\<exists>k l. leaseOf s k = Some l \<and> ls_Hostname l \<noteq> [] \<and> ToLower (ls_Hostname l) = h \<and> ip = ParseIP (ls_IP l) \<and> ip \<noteq> [])"

lemma static_names:
  "map_of (fst (fold hostOfStatic sts hp)) h = Some ip \<Longrightarrow>
     map_of (fst hp) h = Some ip \<or> (\<exists>st \<in> set sts. sl_Hostname st \<noteq> [] \<and> ToLower (sl_Hostname st) = h \<and> ip = sl_IP st)"
  by (induction sts arbitrary: hp) (fastforce simp: hostOfStatic_def split: if_splits)+

lemma lease_names:
  "map_of (fst (fold (\<lambda>(k, r). hostOfLease (obj ! r)) krs hp)) h = Some ip \<Longrightarrow>
     map_of (fst hp) h = Some ip \<or>
     (\<exists>(k, r) \<in> set krs. ls_Hostname (obj ! r) \<noteq> [] \<and> ToLower (ls_Hostname (obj ! r)) = h \<and> ip = ParseIP (ls_IP (obj ! r)) \<and> ip \<noteq> [])"
proof (induction krs arbitrary: hp)
  case (Cons x krs)
  obtain k r where x: "x = (k, r)" by (cases x)
  have one: "map_of (fst (hostOfLease l hp)) h = Some ip \<Longrightarrow> map_of (fst hp) h = Some ip \<or>
      ls_Hostname l \<noteq> [] \<and> ToLower (ls_Hostname l) = h \<and> ip = ParseIP (ls_IP l) \<and> ip \<noteq> []" for l
    by (auto simp: hostOfLease_def Let_def split: if_splits)
  show ?case using Cons.IH[of "hostOfLease (obj ! r) hp"] Cons.prems one[of "obj ! r"] by (auto simp: x)
qed simp

lemma lease_mono:
  "map_of (fst hp) h \<noteq> None \<Longrightarrow> map_of (fst (fold (\<lambda>(k, r). hostOfLease (obj ! r)) xs hp)) h \<noteq> None"
  by (induction xs arbitrary: hp) (auto simp: hostOfLease_def Let_def split: prod.splits)

lemma lease_named:
  assumes "(k, r) \<in> set krs" "ls_Hostname (obj ! r) \<noteq> []" "ParseIP (ls_IP (obj ! r)) \<noteq> []"
  shows "map_of (fst (fold (\<lambda>(k, r). hostOfLease (obj ! r)) krs hp)) (ToLower (ls_Hostname (obj ! r))) \<noteq> None"
  using assms(1)
proof (induction krs arbitrary: hp)
    case (Cons x krs)
    show ?case
    proof (cases "x = (k, r)")
      case True
      have "map_of (fst (hostOfLease (obj ! r) hp)) (ToLower (ls_Hostname (obj ! r))) \<noteq> None" using assms(2,3) by (simp add: hostOfLease_def Let_def)
      then show ?thesis unfolding True by (simp add: lease_mono)
    qed (use Cons in auto)
  qed simp

lemma lookup_host_sound:
  assumes "dhcp_reach lib s" "dhcp_LookupHost s name = Some ips"
  shows "\<exists>ip. ips = [ip] \<and> namedAddress s (bareName s name) ip"
proof -
  have names: "ds_hosts s = fst (hostTables s)" using reach_names[OF assms(1)] by (simp add: names_ok_def prod_eq_iff)
  have wf: "gm_wf (ds_leases s)" using dhcp_reach_ok[OF assms(1)] table_okD(1) by (auto simp: srv_ok_def)
  obtain ip where ip: "ips = [ip]" "map_of (ds_hosts s) (bareName s name) = Some ip"
    using assms(2) by (auto simp: dhcp_LookupHost_def bareName_def Let_def split: if_splits)
  have "namedAddress s (bareName s name) ip"
    using lease_names[OF ip(2)[unfolded names hostTables_def]] static_names[of "dc_Static (ds_cfg s)" "([], [])" "bareName s name" ip] wf
    by (fastforce simp: namedAddress_def leaseOf_def)
  then show ?thesis using ip(1) by blast
qed

lemma static_named:
  assumes "st \<in> set sts" "sl_Hostname st \<noteq> []"
  shows "map_of (fst (fold hostOfStatic sts hp)) (ToLower (sl_Hostname st)) \<noteq> None"
proof -
  have mono: "map_of (fst (fold hostOfStatic xs hp)) h \<noteq> None" if "map_of (fst hp) h \<noteq> None" for xs hp h
    using that by (induction xs arbitrary: hp) (auto simp: hostOfStatic_def)
  show ?thesis using assms(1)
  proof (induction sts arbitrary: hp)
    case (Cons x sts)
    show ?case
    proof (cases "x = st")
      case True
      have "map_of (fst (hostOfStatic st hp)) (ToLower (sl_Hostname st)) \<noteq> None" using assms(2) by (simp add: hostOfStatic_def)
      then show ?thesis unfolding True by (simp add: mono)
    qed (use Cons in auto)
  qed simp
qed

lemma lookup_host_complete:
  assumes "dhcp_reach lib s" "namedAddress s (bareName s name) ip" "CanonicalDomain name \<noteq> []"
  shows "dhcp_LookupHost s name \<noteq> None"
proof -
  have names: "ds_hosts s = fst (hostTables s)" using reach_names[OF assms(1)] by (simp add: names_ok_def prod_eq_iff)
  have "map_of (ds_hosts s) (bareName s name) \<noteq> None"
    using assms(2) unfolding namedAddress_def
  proof (elim disjE bexE exE conjE)
    fix st
    assume "st \<in> set (dc_Static (ds_cfg s))" "sl_Hostname st \<noteq> []" "ToLower (sl_Hostname st) = bareName s name"
    then show ?thesis using static_named[of st "dc_Static (ds_cfg s)"] unfolding names hostTables_def by (metis lease_mono)
  next
    fix k l
    assume l: "leaseOf s k = Some l" "ls_Hostname l \<noteq> []" "ToLower (ls_Hostname l) = bareName s name" "ip = ParseIP (ls_IP l)" "ip \<noteq> []"
    then obtain r where "map_of (ds_leases s) k = Some r" "l = ds_obj s ! r" by (auto simp: leaseOf_def)
    then show ?thesis
      using lease_named[of k r "ds_leases s" "ds_obj s"] l(2-5) map_of_SomeD unfolding names hostTables_def by (metis (no_types, lifting))
  qed
  then show ?thesis using assms(3) by (auto simp: dhcp_LookupHost_def bareName_def Let_def)
qed

text \<open>The DNS handler answers a name from the DHCP server exactly when a reservation or lease carries it, with the address of one
  that does: the step of the pipeline, run on a reachable server, never crashes, passes the query on only when no device has
  the name, and otherwise replies with the record of a device's address, empty when the question is for another type.\<close>

theorem dhcp_name_answered:
  assumes "dhcp_reach lib s"
  shows "let W = wd\<lparr>w_dhcp := Some \<lparr>LookupHost = dhcp_LookupHost s, LookupPTR = dhcp_LookupPTR s\<rparr>\<rparr>; name = q_Name (cx_q cx) in
    case dhcpHostStep W cfg cx st of
      Next t \<Rightarrow> t = st \<and> (CanonicalDomain name = [] \<or> (\<nexists>ip. namedAddress s (bareName s name) ip))
    | Stop ev t \<Rightarrow> \<exists>ip. namedAddress s (bareName s name) ip \<and>
        ev = writeMsg W cfg cx ((SetReply (w_lib wd) (cx_r cx))\<lparr>m_Authoritative := True,
          m_Answer := m_Answer (SetReply (w_lib wd) (cx_r cx)) @ (case hostRR (cx_q cx) ip of None \<Rightarrow> [] | Some rr \<Rightarrow> [rr])\<rparr>)
    | Crash t \<Rightarrow> False"
proof (cases "dhcp_LookupHost s (q_Name (cx_q cx))")
  case None
  then show ?thesis using lookup_host_complete[OF assms(1), of "q_Name (cx_q cx)"] by (auto simp: dhcpHostStep_def Let_def)
next
  case (Some ips)
  from lookup_host_sound[OF assms(1) Some] obtain ip where ip: "ips = [ip]" "namedAddress s (bareName s (q_Name (cx_q cx))) ip" by blast
  show ?thesis using Some ip(2)
    by (auto simp: dhcpHostStep_def ip(1) answerLocal_def Let_def List.map_filter_simps split: option.split)
qed


theorem dhcp_name_answered_witness:
  "\<forall>(wd :: unit world) cfg cx st. \<exists>ev t.
     dhcpHostStep (wd\<lparr>w_dhcp := Some \<lparr>LookupHost = dhcp_LookupHost leased7, LookupPTR = dhcp_LookupPTR leased7\<rparr>\<rparr>) cfg
       (cx\<lparr>cx_q := \<lparr>q_Name = ''PC.lan.'', q_Qtype = TypeA, q_Qclass = ClassINET\<rparr>\<rparr>) st = Stop ev t"
proof (intro allI)
  fix wd :: "unit world" and cfg :: "unit Settings" and cx st
  have "dhcp_reach okLib leased7" using dhcp_reach.v4[OF fresh_reach, of okLib Second "ask12 7"] by (simp add: ask12_handled leased7_def)
  note a = dhcp_name_answered[OF this, of wd "cx\<lparr>cx_q := \<lparr>q_Name = ''PC.lan.'', q_Qtype = TypeA, q_Qclass = ClassINET\<rparr>\<rparr>" cfg st]
  have n: "CanonicalDomain ''PC.lan.'' \<noteq> []" by code_simp
  have b: "bareName leased7 ''PC.lan.'' = ''pc''" by code_simp
  have h: "ls_Hostname (leaseFor ''02:00:00:00:00:07'' ''10.0.0.12'' (Second + Hour)) = ''pc''" "ToLower ''pc'' = ''pc''"
    "ParseIP (ls_IP (leaseFor ''02:00:00:00:00:07'' ''10.0.0.12'' (Second + Hour))) \<noteq> []" by code_simp+
  have d: "\<exists>ip. namedAddress leased7 ''pc'' ip"
    using fresh_commits h unfolding namedAddress_def leased7_def by (metis list.distinct(1))
  show "\<exists>ev t. dhcpHostStep (wd\<lparr>w_dhcp := Some \<lparr>LookupHost = dhcp_LookupHost leased7, LookupPTR = dhcp_LookupPTR leased7\<rparr>\<rparr>) cfg
       (cx\<lparr>cx_q := \<lparr>q_Name = ''PC.lan.'', q_Qtype = TypeA, q_Qclass = ClassINET\<rparr>\<rparr>) st = Stop ev t"
    using a n b d by (auto simp: Let_def split: stepres.splits)
qed

end
