(* ===== verification/Dnssec.thy ===== *)
theory Dnssec
  imports DnsMsg Prelude
begin

text \<open>
  The DNSSEC validator of \<^verbatim>\<open>internal/dnssec\<close>: trust anchors (\<^verbatim>\<open>anchor.go\<close>), the chain of trust with its cache of zone keys and
  the check of an answer (\<^verbatim>\<open>validate.go\<close>), and the proofs that a name or type does not exist (\<^verbatim>\<open>denial.go\<close>). What a signature, a
  key tag, a digest or a hashed name is belongs to the DNS library: those functions are the record \<open>dnssecLib\<close>. The network
  answers the n-th query of the validator as it likes. A walk holds for one moment, its argument \<open>now\<close>.
\<close>

section \<open>Typed records\<close>

type_synonym key = "RR_Header \<times> dnskeyData"
type_synonym sig = "RR_Header \<times> rrsigData"
type_synonym dsrr = "RR_Header \<times> dsData"
type_synonym nsec = "RR_Header \<times> nsecData"
type_synonym nsec3 = "RR_Header \<times> nsec3Data"

definition keyRR :: "key \<Rightarrow> RR" where "keyRR k = \<lparr>rr_Hdr = fst k, rr_Data = DNSKEY (snd k)\<rparr>"
definition dsRR :: "dsrr \<Rightarrow> RR" where "dsRR d = \<lparr>rr_Hdr = fst d, rr_Data = DS (snd d)\<rparr>"
definition nsecRR :: "nsec \<Rightarrow> RR" where "nsecRR n = \<lparr>rr_Hdr = fst n, rr_Data = NSEC (snd n)\<rparr>"
definition nsec3RR :: "nsec3 \<Rightarrow> RR" where "nsec3RR n = \<lparr>rr_Hdr = fst n, rr_Data = NSEC3 (snd n)\<rparr>"

definition sigsOf :: "RR list \<Rightarrow> sig list" where
  "sigsOf rrs = List.map_filter (\<lambda>rr. case rr_Data rr of RRSIG d \<Rightarrow> Some (rr_Hdr rr, d) | _ \<Rightarrow> None) rrs"

definition keysOf :: "RR list \<Rightarrow> key list" where
  "keysOf rrs = List.map_filter (\<lambda>rr. case rr_Data rr of DNSKEY d \<Rightarrow> Some (rr_Hdr rr, d) | _ \<Rightarrow> None) rrs"

definition dssOf :: "RR list \<Rightarrow> dsrr list" where
  "dssOf rrs = List.map_filter (\<lambda>rr. case rr_Data rr of DS d \<Rightarrow> Some (rr_Hdr rr, d) | _ \<Rightarrow> None) rrs"

definition nsecsOf :: "RR list \<Rightarrow> nsec list" where
  "nsecsOf rrs = List.map_filter (\<lambda>rr. case rr_Data rr of NSEC d \<Rightarrow> Some (rr_Hdr rr, d) | _ \<Rightarrow> None) rrs"

definition nsec3sOf :: "RR list \<Rightarrow> nsec3 list" where
  "nsec3sOf rrs = List.map_filter (\<lambda>rr. case rr_Data rr of NSEC3 d \<Rightarrow> Some (rr_Hdr rr, d) | _ \<Rightarrow> None) rrs"

text \<open>\<^verbatim>\<open>splitAnswer\<close>: the records of a type and the signatures over that type.\<close>

definition covering :: "16 word \<Rightarrow> RR list \<Rightarrow> sig list" where
  "covering t rrs = filter (\<lambda>s. sg_TypeCovered (snd s) = t) (sigsOf rrs)"

text \<open>The library: \<^verbatim>\<open>RRSIG.ValidityPeriod\<close>, whether \<^verbatim>\<open>RRSIG.Verify\<close> returns no error, \<^verbatim>\<open>DNSKEY.KeyTag\<close>, \<^verbatim>\<open>DNSKEY.ToDS\<close>,
  \<^verbatim>\<open>NSEC3.Match\<close> and \<^verbatim>\<open>NSEC3.Cover\<close>.\<close>

record dnssecLib =
  ValidityPeriod :: "sig \<Rightarrow> gotime \<Rightarrow> bool"
  Verify :: "sig \<Rightarrow> key \<Rightarrow> RR list \<Rightarrow> bool"
  KeyTag :: "key \<Rightarrow> 16 word"
  ToDS :: "key \<Rightarrow> byte \<Rightarrow> dsData option"
  NSEC3_Match :: "nsec3 \<Rightarrow> string \<Rightarrow> bool"
  NSEC3_Cover :: "nsec3 \<Rightarrow> string \<Rightarrow> bool"

text \<open>The libraries, the answer of the network to the n-th query (none when it fails) and the id drawn for it.\<close>

record dnssecEnv =
  e_lib :: dnsLib
  e_kx :: dnssecLib
  e_ask :: "nat \<Rightarrow> Msg \<Rightarrow> Msg option"
  e_id :: "nat \<Rightarrow> 16 word"

section \<open>Trust anchors\<close>

record TrustAnchor =
  ta_Zone :: string
  ta_KeyTag :: "16 word"
  ta_Algorithm :: byte
  ta_DigestType :: byte
  ta_Digest :: string

definition DefaultRootAnchors :: "TrustAnchor list" where
  "DefaultRootAnchors = [\<lparr>ta_Zone = ''.'', ta_KeyTag = 20326, ta_Algorithm = 8, ta_DigestType = 2,
     ta_Digest = ''E06D44B80B8F1D39A95C0B0D7C65D08458E880409BBC683457104237C7F8EC8''\<rparr>]"

text \<open>\<^verbatim>\<open>ParseRootAnchorsXML\<close>, on what the XML decoder makes of the file.\<close>

record keyDigest =
  kd_KeyTag :: "16 word"
  kd_Algorithm :: byte
  kd_DigestType :: byte
  kd_Digest :: string

definition ParseRootAnchorsXML :: "(byte list \<Rightarrow> keyDigest list option) \<Rightarrow> byte list \<Rightarrow> TrustAnchor list option" where
  "ParseRootAnchorsXML decode data =
     (case decode data of
        None \<Rightarrow> None
      | Some kds \<Rightarrow>
          if kds = [] then None
          else Some (map (\<lambda>kd. \<lparr>ta_Zone = ''.'', ta_KeyTag = kd_KeyTag kd, ta_Algorithm = kd_Algorithm kd, ta_DigestType = kd_DigestType kd,
                 ta_Digest = ToUpper (TrimSpace (kd_Digest kd))\<rparr>) kds))"

datatype anchorSource = Live | Cached | Bundled

text \<open>The manager and the file of its last good copy; \<open>am_disk\<close> is the content of the file, absent when it cannot be read.\<close>

record AnchorManager =
  am_hasPath :: bool
  am_anchors :: "TrustAnchor list"
  am_source :: anchorSource
  am_lastFetch :: "gotime option"
  am_disk :: "byte list option"

definition NewAnchorManager :: "bool \<Rightarrow> byte list option \<Rightarrow> AnchorManager" where
  "NewAnchorManager hasPath disk = \<lparr>am_hasPath = hasPath, am_anchors = DefaultRootAnchors, am_source = Bundled, am_lastFetch = None, am_disk = disk\<rparr>"

text \<open>\<^verbatim>\<open>load\<close>: the fetched file, else the last good copy, else the bundled anchors. The last argument says whether the copy could be written.\<close>

definition anchor_load :: "(byte list \<Rightarrow> keyDigest list option) \<Rightarrow> AnchorManager \<Rightarrow> byte list option \<Rightarrow> bool \<Rightarrow> (TrustAnchor list \<times> anchorSource) \<times> AnchorManager" where
  "anchor_load decode am fetched written =
     (case (case fetched of None \<Rightarrow> None | Some data \<Rightarrow> map_option (Pair data) (ParseRootAnchorsXML decode data)) of
        Some (data, parsed) \<Rightarrow> ((parsed, Live), if am_hasPath am \<and> written then am\<lparr>am_disk := Some data\<rparr> else am)
      | None \<Rightarrow>
          (case (if am_hasPath am then (case am_disk am of None \<Rightarrow> None | Some raw \<Rightarrow> ParseRootAnchorsXML decode raw) else None) of
             Some parsed \<Rightarrow> ((parsed, Cached), am)
           | None \<Rightarrow> ((DefaultRootAnchors, Bundled), am)))"

definition anchor_Refresh :: "(byte list \<Rightarrow> keyDigest list option) \<Rightarrow> AnchorManager \<Rightarrow> gotime \<Rightarrow> byte list option \<Rightarrow> bool \<Rightarrow> AnchorManager" where
  "anchor_Refresh decode am now fetched written =
     (case anchor_load decode am fetched written of
        ((anchors, source), am') \<Rightarrow>
          am'\<lparr>am_anchors := anchors, am_source := source, am_lastFetch := (if source = Live then Some now else am_lastFetch am')\<rparr>)"

section \<open>Signatures\<close>

definition verifySigned :: "dnssecLib \<Rightarrow> gotime \<Rightarrow> sig \<Rightarrow> RR list \<Rightarrow> key list \<Rightarrow> bool" where
  "verifySigned kx now sig rrset keys \<longleftrightarrow> ValidityPeriod kx sig now \<and>
     list_ex (\<lambda>k. ky_Algorithm (snd k) = sg_Algorithm (snd sig) \<and> KeyTag kx k = sg_KeyTag (snd sig) \<and> Verify kx sig k rrset) keys"

definition verifySignedAny :: "dnssecLib \<Rightarrow> gotime \<Rightarrow> sig list \<Rightarrow> RR list \<Rightarrow> key list \<Rightarrow> bool" where
  "verifySignedAny kx now sigs rrset keys \<longleftrightarrow> list_ex (\<lambda>sig. verifySigned kx now sig rrset keys) sigs"

text \<open>A key whose digest is the given one.\<close>

definition digestMatches :: "dnssecLib \<Rightarrow> 16 word \<Rightarrow> byte \<Rightarrow> byte \<Rightarrow> string \<Rightarrow> key \<Rightarrow> bool" where
  "digestMatches kx tag alg digestType digest k =
     (case ToDS kx k digestType of
        None \<Rightarrow> False
      | Some cand \<Rightarrow> dz_KeyTag cand = tag \<and> dz_Algorithm cand = alg \<and> EqualFold (dz_Digest cand) digest)"

fun matchDS :: "dnssecLib \<Rightarrow> key list \<Rightarrow> dsrr list \<Rightarrow> key option" where
  "matchDS kx keys [] = None"
| "matchDS kx keys (d # ds) =
     (case List.find (digestMatches kx (dz_KeyTag (snd d)) (dz_Algorithm (snd d)) (dz_DigestType (snd d)) (dz_Digest (snd d))) keys of
        Some k \<Rightarrow> Some k
      | None \<Rightarrow> matchDS kx keys ds)"

fun matchAnchor :: "dnssecLib \<Rightarrow> key list \<Rightarrow> TrustAnchor list \<Rightarrow> key option" where
  "matchAnchor kx keys [] = None"
| "matchAnchor kx keys (a # as) =
     (case List.find (digestMatches kx (ta_KeyTag a) (ta_Algorithm a) (ta_DigestType a) (ta_Digest a)) keys of
        Some k \<Rightarrow> Some k
      | None \<Rightarrow> matchAnchor kx keys as)"

definition verifyAgainstAnchors :: "dnssecLib \<Rightarrow> gotime \<Rightarrow> key list \<Rightarrow> sig list \<Rightarrow> RR list \<Rightarrow> TrustAnchor list \<Rightarrow> bool" where
  "verifyAgainstAnchors kx now keys sigs rrset anchors =
     (case matchAnchor kx keys anchors of None \<Rightarrow> False | Some k \<Rightarrow> verifySignedAny kx now sigs rrset [k])"

definition parentZone :: "dnsLib \<Rightarrow> string \<Rightarrow> string" where
  "parentZone lib z =
     (let zone = Fqdn lib z; labels = SplitDomainName lib zone in
      if zone = ''.'' \<or> length labels \<le> 1 then ''.'' else Fqdn lib (join_with ''.'' (tl labels)))"

section \<open>The chain of trust\<close>

definition minZoneKeyTTL :: duration where "minZoneKeyTTL = 5 * Minute"
definition maxZoneKeyTTL :: duration where "maxZoneKeyTTL = 24 * Hour"
definition maxChainDepth :: nat where "maxChainDepth = 20"

text \<open>The smallest TTL of the keys; a zero is taken for "none yet".\<close>

definition minKeyTTL :: "RR list \<Rightarrow> 32 word" where
  "minKeyTTL rrs = foldl (\<lambda>mn k. let ttl = h_Ttl (fst k) in if mn = 0 \<or> ttl < mn then ttl else mn) 0 (keysOf rrs)"

definition zoneKeyTTL :: "RR list \<Rightarrow> duration" where
  "zoneKeyTTL rrs =
     (let d = uint (minKeyTTL rrs) * Second in if d < minZoneKeyTTL then minZoneKeyTTL else if d > maxZoneKeyTTL then maxZoneKeyTTL else d)"

record zoneCacheEntry =
  zc_keys :: "key list"
  zc_secure :: bool
  zc_expires :: gotime

text \<open>The validator, with the anchors its manager has at the moment and the number of queries it has made.\<close>

record Validator =
  va_anchors :: "TrustAnchor list"
  va_cache :: "(string, zoneCacheEntry) gomap"
  va_sent :: nat

definition NewValidator :: "TrustAnchor list \<Rightarrow> Validator" where
  "NewValidator anchors = \<lparr>va_anchors = anchors, va_cache = [], va_sent = 0\<rparr>"

definition cachedZone :: "Validator \<Rightarrow> gotime \<Rightarrow> string \<Rightarrow> zoneCacheEntry option" where
  "cachedZone v now zone = (case map_of (va_cache v) zone of None \<Rightarrow> None | Some e \<Rightarrow> if now > zc_expires e then None else Some e)"

definition storeZone :: "gotime \<Rightarrow> string \<Rightarrow> key list \<Rightarrow> bool \<Rightarrow> duration \<Rightarrow> Validator \<Rightarrow> Validator" where
  "storeZone now zone keys secure ttl v = v\<lparr>va_cache := gm_put zone \<lparr>zc_keys = keys, zc_secure = secure, zc_expires = now + ttl\<rparr> (va_cache v)\<rparr>"

datatype dnssec_error = DepthExceeded string | QueryError string "16 word" | QueryRcode string "16 word" nat

text \<open>\<^verbatim>\<open>queryZone\<close>, and the check of the response code that both of its callers make.\<close>

definition queryZone :: "dnssecEnv \<Rightarrow> string \<Rightarrow> 16 word \<Rightarrow> Validator \<Rightarrow> (dnssec_error + Msg) \<times> Validator" where
  "queryZone E name qtype v =
     (let lib = e_lib E; n = va_sent v; m = SetEdns0 lib (SetQuestion lib (Fqdn lib name) qtype (e_id E n)) 4096 True in
      (case e_ask E n m of
         None \<Rightarrow> Inl (QueryError name qtype)
       | Some resp \<Rightarrow> if m_Rcode resp \<noteq> RcodeSuccess then Inl (QueryRcode name qtype (m_Rcode resp)) else Inr resp,
       v\<lparr>va_sent := n + 1\<rparr>))"

text \<open>The keys of a zone: an error, or the keys and whether they are trusted.\<close>

type_synonym zoneResult = "dnssec_error + (key list \<times> bool)"

text \<open>The end of \<^verbatim>\<open>fetchZoneKeys\<close>: the delegation from a trusted parent.\<close>

definition delegatedKeys :: "dnssecEnv \<Rightarrow> gotime \<Rightarrow> string \<Rightarrow> RR list \<Rightarrow> key list \<Rightarrow> Validator \<Rightarrow> zoneResult \<times> Validator" where
  "delegatedKeys E now zone answer parentKeys v =
     (let keys = keysOf answer; keySigs = covering TypeDNSKEY answer; ttl = zoneKeyTTL answer; kx = e_kx E in
      case queryZone E zone TypeDS v of
        (Inl err, v1) \<Rightarrow> (Inl err, v1)
      | (Inr dsMsg, v1) \<Rightarrow>
          let ds = dssOf (m_Answer dsMsg);
              secure = (ds \<noteq> [] \<and> verifySignedAny kx now (covering TypeDS (m_Answer dsMsg)) (map dsRR ds) parentKeys \<and>
                (case matchDS kx keys ds of None \<Rightarrow> False | Some k \<Rightarrow> verifySignedAny kx now keySigs (map keyRR keys) [k]))
          in (Inr (keys, secure), storeZone now zone keys secure ttl v1))"

text \<open>The root: the anchors take the place of a parent's DS records.\<close>

definition rootKeys :: "dnssecEnv \<Rightarrow> gotime \<Rightarrow> string \<Rightarrow> RR list \<Rightarrow> Validator \<Rightarrow> zoneResult \<times> Validator" where
  "rootKeys E now zone answer v =
     (let keys = keysOf answer; secure = verifyAgainstAnchors (e_kx E) now keys (covering TypeDNSKEY answer) (map keyRR keys) (va_anchors v)
      in (Inr (keys, secure), storeZone now zone keys secure (zoneKeyTTL answer) v))"

text \<open>Keys that are not trusted.\<close>

definition untrustedKeys :: "gotime \<Rightarrow> string \<Rightarrow> RR list \<Rightarrow> Validator \<Rightarrow> zoneResult \<times> Validator" where
  "untrustedKeys now zone answer v = (Inr (keysOf answer, False), storeZone now zone (keysOf answer) False (zoneKeyTTL answer) v)"

function zoneKeys :: "dnssecEnv \<Rightarrow> gotime \<Rightarrow> string \<Rightarrow> nat \<Rightarrow> Validator \<Rightarrow> zoneResult \<times> Validator"
  and fetchZoneKeys :: "dnssecEnv \<Rightarrow> gotime \<Rightarrow> string \<Rightarrow> nat \<Rightarrow> Validator \<Rightarrow> zoneResult \<times> Validator" where
  "zoneKeys E now z depth v =
     (case cachedZone v now (Fqdn (e_lib E) z) of
        Some e \<Rightarrow> (Inr (zc_keys e, zc_secure e), v)
      | None \<Rightarrow> fetchZoneKeys E now (Fqdn (e_lib E) z) depth v)"
| "fetchZoneKeys E now zone depth v =
     (if depth > maxChainDepth then (Inl (DepthExceeded zone), v)
      else case queryZone E zone TypeDNSKEY v of
        (Inl err, v1) \<Rightarrow> (Inl err, v1)
      | (Inr msg, v1) \<Rightarrow>
          if keysOf (m_Answer msg) = [] then untrustedKeys now zone (m_Answer msg) v1
          else if zone = ''.'' then rootKeys E now zone (m_Answer msg) v1
          else case zoneKeys E now (parentZone (e_lib E) zone) (depth + 1) v1 of
            (Inl err, v2) \<Rightarrow> (Inl err, v2)
          | (Inr (parentKeys, parentSecure), v2) \<Rightarrow>
              if \<not> parentSecure then untrustedKeys now zone (m_Answer msg) v2
              else delegatedKeys E now zone (m_Answer msg) parentKeys v2)"
  by pat_completeness auto
termination
  by (relation "measure (\<lambda>x. case x of Inl (E, now, z, d, v) \<Rightarrow> 2 * (maxChainDepth + 2 - d) + 1 | Inr (E, now, z, d, v) \<Rightarrow> 2 * (maxChainDepth + 2 - d))") auto

declare zoneKeys.simps [simp del] fetchZoneKeys.simps [simp del]

section \<open>Denial of existence\<close>

definition bitmapHasType :: "16 word list \<Rightarrow> 16 word \<Rightarrow> bool" where
  "bitmapHasType bitmap t \<longleftrightarrow> t \<in> set bitmap"

text \<open>\<^verbatim>\<open>strings.Compare(a, b) < 0\<close>.\<close>

fun str_less :: "string \<Rightarrow> string \<Rightarrow> bool" where
  "str_less _ [] = False"
| "str_less [] (_ # _) = True"
| "str_less (x # xs) (y # ys) = (if x = y then str_less xs ys else (of_char x :: nat) < of_char y)"

text \<open>The loop of \<^verbatim>\<open>canonicalLess\<close>, from the last label inward.\<close>

fun labels_less :: "string list \<Rightarrow> string list \<Rightarrow> bool" where
  "labels_less (a # as) (b # bs) = (if a = b then labels_less as bs else str_less a b)"
| "labels_less as bs = (length as < length bs)"

definition canonicalLabels :: "dnsLib \<Rightarrow> string \<Rightarrow> string list" where
  "canonicalLabels lib a = rev (map ToLower (SplitDomainName lib (Fqdn lib a)))"

definition canonicalLess :: "dnsLib \<Rightarrow> string \<Rightarrow> string \<Rightarrow> bool" where
  "canonicalLess lib a b = labels_less (canonicalLabels lib a) (canonicalLabels lib b)"

definition nsecCovers :: "dnsLib \<Rightarrow> string \<Rightarrow> string \<Rightarrow> string \<Rightarrow> bool" where
  "nsecCovers lib owner nxt name =
     (if \<not> canonicalLess lib owner nxt then \<not> canonicalLess lib name owner \<or> canonicalLess lib name nxt
      else \<not> canonicalLess lib name owner \<and> canonicalLess lib name nxt)"

definition nsecOwner :: "dnsLib \<Rightarrow> nsec \<Rightarrow> string" where "nsecOwner lib n = ToLower (Fqdn lib (h_Name (fst n)))"
definition nsecNext :: "dnsLib \<Rightarrow> nsec \<Rightarrow> string" where "nsecNext lib n = ToLower (Fqdn lib (ns_NextDomain (snd n)))"

definition nsecCoversAny :: "dnsLib \<Rightarrow> nsec list \<Rightarrow> string \<Rightarrow> bool" where
  "nsecCoversAny lib nsecs name \<longleftrightarrow> list_ex (\<lambda>n. nsecCovers lib (nsecOwner lib n) (nsecNext lib n) name) nsecs"

definition nsecOwnerExists :: "dnsLib \<Rightarrow> nsec list \<Rightarrow> string \<Rightarrow> bool" where
  "nsecOwnerExists lib nsecs name \<longleftrightarrow> list_ex (\<lambda>n. EqualFold (nsecOwner lib n) name) nsecs"

text \<open>The ancestors of a name, the longest first, without the root.\<close>

definition ancestors :: "dnsLib \<Rightarrow> string \<Rightarrow> string list" where
  "ancestors lib qname = (let labels = SplitDomainName lib qname in map (\<lambda>i. Fqdn lib (join_with ''.'' (drop i labels))) [1..<length labels])"

definition proveNSEC :: "dnsLib \<Rightarrow> nat \<Rightarrow> string \<Rightarrow> 16 word \<Rightarrow> nsec list \<Rightarrow> bool" where
  "proveNSEC lib rcode qname qtype nsecs =
     (if rcode = RcodeSuccess then
        (case List.find (\<lambda>n. EqualFold (nsecOwner lib n) qname) nsecs of
           None \<Rightarrow> False
         | Some n \<Rightarrow> \<not> bitmapHasType (ns_TypeBitMap (snd n)) qtype \<and> \<not> bitmapHasType (ns_TypeBitMap (snd n)) TypeCNAME)
      else if rcode \<noteq> RcodeNameError \<or> \<not> nsecCoversAny lib nsecs qname then False
      else if nsecOwnerExists lib nsecs qname then True
      else case List.find (nsecOwnerExists lib nsecs) (ancestors lib qname) of
        None \<Rightarrow> False
      | Some ancestor \<Rightarrow> nsecCoversAny lib nsecs (''*.'' @ ancestor))"

definition nsec3CoversAny :: "dnssecLib \<Rightarrow> nsec3 list \<Rightarrow> string \<Rightarrow> bool" where
  "nsec3CoversAny kx nsec3s name \<longleftrightarrow> list_ex (\<lambda>n. NSEC3_Cover kx n name) nsec3s"

definition proveNSEC3 :: "dnsLib \<Rightarrow> dnssecLib \<Rightarrow> nat \<Rightarrow> string \<Rightarrow> 16 word \<Rightarrow> nsec3 list \<Rightarrow> bool" where
  "proveNSEC3 lib kx rcode qname qtype nsec3s =
     (if rcode = RcodeSuccess then
        (case List.find (\<lambda>n. NSEC3_Match kx n qname) nsec3s of
           None \<Rightarrow> False
         | Some n \<Rightarrow> \<not> bitmapHasType (n3_TypeBitMap (snd n)) qtype \<and> \<not> bitmapHasType (n3_TypeBitMap (snd n)) TypeCNAME)
      else if rcode \<noteq> RcodeNameError \<or> \<not> nsec3CoversAny kx nsec3s qname then False
      else case List.find (\<lambda>a. list_ex (\<lambda>n. NSEC3_Match kx n a) nsec3s) (ancestors lib qname) of
        None \<Rightarrow> False
      | Some ancestor \<Rightarrow> nsec3CoversAny kx nsec3s (''*.'' @ ancestor))"

text \<open>\<^verbatim>\<open>verifyDenialRR\<close>: a zone whose keys cannot be had, or are not trusted, only costs its signature.\<close>

fun verifyDenialRR :: "dnssecEnv \<Rightarrow> gotime \<Rightarrow> RR \<Rightarrow> sig list \<Rightarrow> Validator \<Rightarrow> bool \<times> Validator" where
  "verifyDenialRR E now rr [] v = (False, v)"
| "verifyDenialRR E now rr (sig # sigs) v =
     (if \<not> EqualFold (ToLower (h_Name (fst sig))) (ToLower (h_Name (rr_Hdr rr))) then verifyDenialRR E now rr sigs v
      else case zoneKeys E now (sg_SignerName (snd sig)) 0 v of
        (Inr (keys, True), v1) \<Rightarrow> if verifySigned (e_kx E) now sig [rr] keys then (True, v1) else verifyDenialRR E now rr sigs v1
      | (_, v1) \<Rightarrow> verifyDenialRR E now rr sigs v1)"

fun verifyAllDenial :: "dnssecEnv \<Rightarrow> gotime \<Rightarrow> RR list \<Rightarrow> sig list \<Rightarrow> Validator \<Rightarrow> bool \<times> Validator" where
  "verifyAllDenial E now [] sigs v = (True, v)"
| "verifyAllDenial E now (rr # rrs) sigs v =
     (case verifyDenialRR E now rr sigs v of (ok, v1) \<Rightarrow> if ok then verifyAllDenial E now rrs sigs v1 else (False, v1))"

record dnssecVerdict =
  vd_secure :: bool
  vd_signed :: bool
  vd_err :: "dnssec_error option"

definition validateDenial :: "dnssecEnv \<Rightarrow> gotime \<Rightarrow> Msg \<Rightarrow> Validator \<Rightarrow> dnssecVerdict \<times> Validator" where
  "validateDenial E now resp v =
     (case m_Question resp of
        [] \<Rightarrow> (\<lparr>vd_secure = False, vd_signed = False, vd_err = None\<rparr>, v)
      | q # _ \<Rightarrow>
          let lib = e_lib E; qname = ToLower (Fqdn lib (q_Name q)); nsecs = nsecsOf (m_Ns resp); nsec3s = nsec3sOf (m_Ns resp) in
          if nsecs = [] \<and> nsec3s = [] then (\<lparr>vd_secure = False, vd_signed = False, vd_err = None\<rparr>, v)
          else case verifyAllDenial E now (map nsecRR nsecs) (covering TypeNSEC (m_Ns resp)) v of
            (ok, v1) \<Rightarrow>
              if \<not> ok then (\<lparr>vd_secure = False, vd_signed = True, vd_err = None\<rparr>, v1)
              else case verifyAllDenial E now (map nsec3RR nsec3s) (covering TypeNSEC3 (m_Ns resp)) v1 of
                (ok3, v2) \<Rightarrow>
                  (\<lparr>vd_secure = ok3 \<and> (if nsec3s \<noteq> [] then proveNSEC3 lib (e_kx E) (m_Rcode resp) qname (q_Qtype q) nsec3s
                                     else proveNSEC lib (m_Rcode resp) qname (q_Qtype q) nsecs),
                    vd_signed = True, vd_err = None\<rparr>, v2))"

section \<open>Answers\<close>

definition byType :: "RR list \<Rightarrow> 16 word \<Rightarrow> RR list" where
  "byType answer t = filter (\<lambda>rr. h_Rrtype (rr_Hdr rr) = t \<and> (case rr_Data rr of RRSIG _ \<Rightarrow> False | _ \<Rightarrow> True)) answer"

text \<open>The loop over the signatures of the answer: the first one that fails decides.\<close>

fun validateSigs :: "dnssecEnv \<Rightarrow> gotime \<Rightarrow> RR list \<Rightarrow> sig list \<Rightarrow> Validator \<Rightarrow> dnssecVerdict \<times> Validator" where
  "validateSigs E now answer [] v = (\<lparr>vd_secure = True, vd_signed = True, vd_err = None\<rparr>, v)"
| "validateSigs E now answer (sig # sigs) v =
     (let rrset = byType answer (sg_TypeCovered (snd sig)) in
      if rrset = [] then validateSigs E now answer sigs v
      else case zoneKeys E now (sg_SignerName (snd sig)) 0 v of
        (Inl err, v1) \<Rightarrow> (\<lparr>vd_secure = False, vd_signed = True, vd_err = Some err\<rparr>, v1)
      | (Inr (keys, zoneSecure), v1) \<Rightarrow>
          if \<not> zoneSecure \<or> \<not> verifySigned (e_kx E) now sig rrset keys then (\<lparr>vd_secure = False, vd_signed = True, vd_err = None\<rparr>, v1)
          else validateSigs E now answer sigs v1)"

definition Validate :: "dnssecEnv \<Rightarrow> gotime \<Rightarrow> Msg option \<Rightarrow> Validator \<Rightarrow> dnssecVerdict \<times> Validator" where
  "Validate E now mresp v =
     (case mresp of
        None \<Rightarrow> (\<lparr>vd_secure = False, vd_signed = False, vd_err = None\<rparr>, v)
      | Some resp \<Rightarrow>
          let sigs = sigsOf (m_Answer resp) in
          if sigs = [] then
            if m_Answer resp = [] \<and> (m_Rcode resp = RcodeNameError \<or> m_Rcode resp = RcodeSuccess) then validateDenial E now resp v
            else (\<lparr>vd_secure = False, vd_signed = False, vd_err = None\<rparr>, v)
          else validateSigs E now (m_Answer resp) sigs v)"

end
