(* ===== verification/DnssecTheorems.thy ===== *)
theory DnssecTheorems
  imports DnssecProps PipelineProps
begin

text \<open>
  The validator's guarantees and gaps, the second as the DNS handler sees them: its step \<open>dnssecCheck\<close> run with this validator.
\<close>

section \<open>Validators over time\<close>

text \<open>A validator from its creation on: answers are validated and the anchors replaced by others of the given set.\<close>

inductive dnssec_reach :: "dnssecEnv \<Rightarrow> TrustAnchor set \<Rightarrow> Validator \<Rightarrow> bool" for E AS where
  new: "set anchors \<subseteq> AS \<Longrightarrow> dnssec_reach E AS (NewValidator anchors)"
| validate: "dnssec_reach E AS v \<Longrightarrow> dnssec_reach E AS (snd (Validate E now resp v))"
| refresh: "dnssec_reach E AS v \<Longrightarrow> set anchors \<subseteq> AS \<Longrightarrow> dnssec_reach E AS (v\<lparr>va_anchors := anchors\<rparr>)"

lemma denial_chain: "chain_ok E AS v \<Longrightarrow> chain_ok E AS (snd (validateDenial E now resp v))"
proof -
  assume c: "chain_ok E AS v"
  obtain o1 v1 where d1: "verifyAllDenial E now (map nsecRR (nsecsOf (m_Ns resp))) (covering TypeNSEC (m_Ns resp)) v = (o1, v1)" by fastforce
  obtain o2 v2 where d2: "verifyAllDenial E now (map nsec3RR (nsec3sOf (m_Ns resp))) (covering TypeNSEC3 (m_Ns resp)) v1 = (o2, v2)" by fastforce
  have c1: "chain_ok E AS v1" using allDenial_sound[OF c d1] by simp
  then have "chain_ok E AS v2" using allDenial_sound[OF _ d2] by simp
  then show ?thesis using c c1 by (simp add: validateDenial_def d1 d2 Let_def split: list.split)
qed

lemma reach_chain: "dnssec_reach E AS v \<Longrightarrow> chain_ok E AS v"
proof (induction rule: dnssec_reach.induct)
  case (validate v now resp)
  show ?case
  proof (cases resp)
    case (Some m)
    have "chain_ok E AS (snd (validateSigs E now (m_Answer m) (sigsOf (m_Answer m)) v))"
      using validateSigs_sound[OF validate.IH] by (metis prod.collapse)
    then show ?thesis using denial_chain[OF validate.IH] validate.IH by (simp add: Validate_def Some Let_def)
  qed (use validate.IH in \<open>simp add: Validate_def\<close>)
qed (simp_all add: chain_ok_def NewValidator_def)

text \<open>The records of a negative answer, each with a verified signature of its own.\<close>

definition denial_verified :: "dnssecEnv \<Rightarrow> TrustAnchor set \<Rightarrow> gotime \<Rightarrow> Msg \<Rightarrow> bool" where
  "denial_verified E AS now resp \<longleftrightarrow>
     (\<forall>n \<in> set (nsecsOf (m_Ns resp)). \<exists>sig \<in> set (covering TypeNSEC (m_Ns resp)). verified E AS now sig [nsecRR n]) \<and>
     (\<forall>n \<in> set (nsec3sOf (m_Ns resp)). \<exists>sig \<in> set (covering TypeNSEC3 (m_Ns resp)). verified E AS now sig [nsec3RR n])"

lemma denial_sound:
  assumes c: "chain_ok E AS v" and "validateDenial E now resp v = (d, v')" "vd_secure d"
  shows "denial_verified E AS now resp"
proof -
  obtain o1 v1 where d1: "verifyAllDenial E now (map nsecRR (nsecsOf (m_Ns resp))) (covering TypeNSEC (m_Ns resp)) v = (o1, v1)" by fastforce
  obtain o2 v2 where d2: "verifyAllDenial E now (map nsec3RR (nsec3sOf (m_Ns resp))) (covering TypeNSEC3 (m_Ns resp)) v1 = (o2, v2)" by fastforce
  note s1 = allDenial_sound[OF c d1]
  note s2 = allDenial_sound[OF conjunct1[OF s1] d2]
  have "o1" "o2" using assms(2,3) by (auto simp: validateDenial_def d1 d2 Let_def split: list.splits if_splits)
  then show ?thesis using s1 s2 unfolding denial_verified_def by force
qed

section \<open>The verdict\<close>

text \<open>C30: an answer is found secure only on verified signatures. Whatever the network did, every signature in the answer that covers a
  type the answer has verifies with keys that a chain of signatures and digests ties to an anchor; a negative answer is found
  secure only when each of its NSEC and NSEC3 records has such a signature.\<close>

theorem dnssec_verdict_sound:
  assumes "dnssec_reach E AS v" and "Validate E now (Some resp) v = (d, v')" and "vd_secure d"
  shows "if sigsOf (m_Answer resp) \<noteq> []
    then \<forall>sig \<in> set (sigsOf (m_Answer resp)). let rrset = byType (m_Answer resp) (sg_TypeCovered (snd sig)) in rrset = [] \<or> verified E AS now sig rrset
    else m_Answer resp = [] \<and> denial_verified E AS now resp"
proof (cases "sigsOf (m_Answer resp) = []")
  case True
  then have a: "m_Answer resp = []" "validateDenial E now resp v = (d, v')" using assms(2,3) by (auto simp: Validate_def Let_def split: if_splits)
  then show ?thesis using True denial_sound[OF reach_chain[OF assms(1)] a(2) assms(3)] by simp
next
  case False
  then have "validateSigs E now (m_Answer resp) (sigsOf (m_Answer resp)) v = (d, v')" using assms(2) by (simp add: Validate_def Let_def)
  from validateSigs_sound[OF reach_chain[OF assms(1)] this] show ?thesis using False assms(3) by (auto simp: Let_def)
qed

section \<open>A signed root\<close>

text \<open>A root zone with one key for the examples. Its library accepts every signature of that key.\<close>

definition rootKey :: RR where
  "rootKey = \<lparr>rr_Hdr = \<lparr>h_Name = ''.'', h_Rrtype = TypeDNSKEY, h_Class = ClassINET, h_Ttl = 3600\<rparr>, rr_Data = DNSKEY \<lparr>ky_Algorithm = 8, ky_Rest = []\<rparr>\<rparr>"

definition sigOver :: "string \<Rightarrow> 16 word \<Rightarrow> RR" where
  "sigOver owner t = \<lparr>rr_Hdr = \<lparr>h_Name = owner, h_Rrtype = 46, h_Class = ClassINET, h_Ttl = 3600\<rparr>,
     rr_Data = RRSIG \<lparr>sg_TypeCovered = t, sg_Algorithm = 8, sg_KeyTag = 7, sg_SignerName = ''.'', sg_Rest = []\<rparr>\<rparr>"

definition demoKx :: dnssecLib where
  "demoKx = \<lparr>ValidityPeriod = \<lambda>_ _. True, Verify = \<lambda>_ _ _. True, KeyTag = \<lambda>_. 7,
     ToDS = \<lambda>k t. Some \<lparr>dz_KeyTag = 7, dz_Algorithm = 8, dz_DigestType = t, dz_Digest = ''AA''\<rparr>,
     NSEC3_Match = \<lambda>_ _. False, NSEC3_Cover = \<lambda>_ _. False\<rparr>"

definition demoEnv :: dnssecEnv where
  "demoEnv = \<lparr>e_lib = simpleLib, e_kx = demoKx, e_ask = \<lambda>_ _. Some (emptyMsg\<lparr>m_Answer := [rootKey, sigOver ''.'' TypeDNSKEY]\<rparr>), e_id = \<lambda>_. 1\<rparr>"

definition demoAnchor :: TrustAnchor where
  "demoAnchor = \<lparr>ta_Zone = ''.'', ta_KeyTag = 7, ta_Algorithm = 8, ta_DigestType = 2, ta_Digest = ''AA''\<rparr>"

definition aRecord :: "string \<Rightarrow> IP \<Rightarrow> RR" where
  "aRecord nm ip = \<lparr>rr_Hdr = \<lparr>h_Name = nm, h_Rrtype = TypeA, h_Class = ClassINET, h_Ttl = 60\<rparr>, rr_Data = A ip\<rparr>"

definition signedAnswer :: Msg where
  "signedAnswer = (askA ''a.'')\<lparr>m_Response := True, m_Answer := [aRecord ''a.'' [1, 2, 3, 4], sigOver ''a.'' TypeA]\<rparr>"

lemma demo_reach: "dnssec_reach demoEnv {demoAnchor} (NewValidator [demoAnchor])"
  by (rule dnssec_reach.new) simp

lemma signed_secure: "fst (Validate demoEnv 0 (Some signedAnswer) (NewValidator [demoAnchor])) = \<lparr>vd_secure = True, vd_signed = True, vd_err = None\<rparr>"
  by code_simp


theorem dnssec_verdict_sound_witness:
  "verified demoEnv {demoAnchor} 0
     (rr_Hdr (sigOver ''a.'' TypeA), \<lparr>sg_TypeCovered = TypeA, sg_Algorithm = 8, sg_KeyTag = 7, sg_SignerName = ''.'', sg_Rest = []\<rparr>) [aRecord ''a.'' [1, 2, 3, 4]]"
proof -
  let ?v = "Validate demoEnv 0 (Some signedAnswer) (NewValidator [demoAnchor])"
  let ?sig = "(rr_Hdr (sigOver ''a.'' TypeA), \<lparr>sg_TypeCovered = TypeA, sg_Algorithm = 8, sg_KeyTag = 7, sg_SignerName = ''.'', sg_Rest = []\<rparr>)"
  have v: "?v = (\<lparr>vd_secure = True, vd_signed = True, vd_err = None\<rparr>, snd ?v)" using signed_secure by (metis prod.collapse)
  have a: "sigsOf (m_Answer signedAnswer) = [?sig]" "byType (m_Answer signedAnswer) TypeA = [aRecord ''a.'' [1, 2, 3, 4]]" by code_simp+
  show ?thesis using dnssec_verdict_sound[OF demo_reach v] by (simp add: a)
qed

section \<open>Records that nothing covers\<close>

text \<open>The validator as the handler calls it for the upstream that answered: no result when the check could not be completed.\<close>

definition localValidator :: "(Upstream \<Rightarrow> dnssecEnv) \<Rightarrow> gotime \<Rightarrow> Validator \<Rightarrow> Upstream \<Rightarrow> Msg \<Rightarrow> (bool \<times> bool) option" where
  "localValidator E now v u resp =
     (let d = fst (Validate (E u) now (Some resp) v) in if vd_err d \<noteq> None then None else Some (vd_secure d, vd_signed d))"

lemma stray_sigs: "\<forall>sig \<in> set sigs. byType answer (sg_TypeCovered (snd sig)) = [] \<Longrightarrow>
    validateSigs E now answer sigs v = (\<lparr>vd_secure = True, vd_signed = True, vd_err = None\<rparr>, v)"
  by (induction sigs) auto

text \<open>C32: with local validation on, an answer none of whose records is signed passes as authenticated when it carries a signature over
  some type it does not have: no key is fetched, no signature checked, and the handler sets the authenticated bit that it demands.\<close>

theorem forged_answer_authenticated:
  assumes "s_DNSSECEnabled cfg" and "s_DNSSECValidateLocally cfg" and "upstreamByName store (s_Upstreams cfg) up = Some u"
    and "sigsOf (m_Answer resp) \<noteq> []" and "\<forall>sig \<in> set (sigsOf (m_Answer resp)). byType (m_Answer resp) (sg_TypeCovered (snd sig)) = []"
  shows "dnssecCheck (wd\<lparr>w_validator := Some (localValidator E now v)\<rparr>) cfg store up resp = Inr (resp\<lparr>m_AuthenticatedData := True\<rparr>)"
proof -
  have "Validate (E u) now (Some resp) v = (\<lparr>vd_secure = True, vd_signed = True, vd_err = None\<rparr>, v)"
    using assms(4) stray_sigs[OF assms(5)] by (simp add: Validate_def Let_def)
  then show ?thesis using assms(1-3) by (simp add: dnssecCheck_def localValidator_def Let_def)
qed

definition strictSettings :: "string Settings" where
  "strictSettings = quietSettings\<lparr>s_DNSSECEnabled := True, s_DNSSECRequireAD := True, s_DNSSECValidateLocally := True\<rparr>"

definition forgedAnswer :: Msg where
  "forgedAnswer = (askA ''bank.example.'')\<lparr>m_Response := True, m_Answer := [aRecord ''bank.example.'' [6, 6, 6, 6], sigOver ''x.'' TypePTR]\<rparr>"

theorem forged_answer_authenticated_witness:
  "dnssecCheck (quietWorld\<lparr>w_validator := Some (localValidator (\<lambda>_. demoEnv) 0 (NewValidator DefaultRootAnchors))\<rparr>) strictSettings
     (\<lambda>_. upstreamOf Recursive [] [] ''u'') ''u'' forgedAnswer = Inr (forgedAnswer\<lparr>m_AuthenticatedData := True\<rparr>)"
proof (rule forged_answer_authenticated)
  show "upstreamByName (\<lambda>_. upstreamOf Recursive [] [] ''u'') (s_Upstreams strictSettings) ''u'' = Some (upstreamOf Recursive [] [] ''u'')"
    by (simp add: upstreamByName_def strictSettings_def quietSettings_def upstreamOf_def)
  show "sigsOf (m_Answer forgedAnswer) \<noteq> []" by code_simp
  show "\<forall>sig \<in> set (sigsOf (m_Answer forgedAnswer)). byType (m_Answer forgedAnswer) (sg_TypeCovered (snd sig)) = []" by code_simp
qed (simp_all add: strictSettings_def)

section \<open>Proofs of absence\<close>

text \<open>A validated proof that a name exists without some type also passes as a proof that the name does not exist: when an answer
  NOERROR without data is found secure on NSEC records, so is the same answer with the response code, which no signature covers,
  changed to NXDOMAIN.\<close>

theorem nodata_proof_denies_name:
  assumes "Validate E now (Some resp) v = (d, v')" and "vd_secure d"
    and "m_Answer resp = []" and "m_Rcode resp = RcodeSuccess" and "nsec3sOf (m_Ns resp) = []"
  shows "Validate E now (Some (resp\<lparr>m_Rcode := RcodeNameError\<rparr>)) v = (d, v')"
proof -
  have v: "validateDenial E now resp v = (d, v')" using assms(1,3,4) by (simp add: Validate_def sigsOf_def List.map_filter_simps)
  obtain q qs where q: "m_Question resp = q # qs" using v assms(2) by (cases "m_Question resp") (auto simp: validateDenial_def)
  let ?qn = "ToLower (Fqdn (e_lib E) (q_Name q))" and ?ns = "nsecsOf (m_Ns resp)"
  have p: "proveNSEC (e_lib E) RcodeSuccess ?qn (q_Qtype q) ?ns"
    using v assms(2,4,5) by (auto simp: validateDenial_def q Let_def split: prod.splits if_splits)
  then obtain n where n: "n \<in> set ?ns" "EqualFold (nsecOwner (e_lib E) n) ?qn"
    by (auto simp: proveNSEC_def split: option.splits) (metis find_Some_iff nth_mem)
  then have same: "nsecOwner (e_lib E) n = ?qn" by (simp add: EqualFold_def nsecOwner_def)
  have "nsecCoversAny (e_lib E) ?ns ?qn"
    unfolding nsecCoversAny_def list_ex_iff nsecCovers_canon using n(1) same canon.covers_owner by metis
  moreover have "nsecOwnerExists (e_lib E) ?ns ?qn" using n by (auto simp: nsecOwnerExists_def list_ex_iff)
  ultimately have "proveNSEC (e_lib E) RcodeNameError ?qn (q_Qtype q) ?ns" by (simp add: proveNSEC_def RcodeNameError_def RcodeSuccess_def)
  then have "validateDenial E now (resp\<lparr>m_Rcode := RcodeNameError\<rparr>) v = (d, v')"
    using v p assms(4,5) by (auto simp: validateDenial_def q Let_def split: prod.splits if_splits)
  then show ?thesis using assms(3) by (simp add: Validate_def sigsOf_def List.map_filter_simps)
qed

definition nsecRecord :: "string \<Rightarrow> string \<Rightarrow> 16 word list \<Rightarrow> RR" where
  "nsecRecord owner nxt types = \<lparr>rr_Hdr = \<lparr>h_Name = owner, h_Rrtype = TypeNSEC, h_Class = ClassINET, h_Ttl = 60\<rparr>,
     rr_Data = NSEC \<lparr>ns_NextDomain = nxt, ns_TypeBitMap = types\<rparr>\<rparr>"

text \<open>The name has addresses of the other family only.\<close>

definition nodataAnswer :: Msg where
  "nodataAnswer = (askA ''a.'')\<lparr>m_Response := True, m_Ns := [nsecRecord ''a.'' ''b.'' [TypeAAAA], sigOver ''a.'' TypeNSEC]\<rparr>"

theorem nodata_proof_denies_name_witness:
  "vd_secure (fst (Validate demoEnv 0 (Some nodataAnswer) (NewValidator [demoAnchor]))) \<and>
   vd_secure (fst (Validate demoEnv 0 (Some (nodataAnswer\<lparr>m_Rcode := RcodeNameError\<rparr>)) (NewValidator [demoAnchor])))"
proof -
  have s: "vd_secure (fst (Validate demoEnv 0 (Some nodataAnswer) (NewValidator [demoAnchor])))" by code_simp
  moreover have "m_Answer nodataAnswer = []" "m_Rcode nodataAnswer = RcodeSuccess" "nsec3sOf (m_Ns nodataAnswer) = []" by code_simp+
  ultimately show ?thesis using nodata_proof_denies_name[OF prod.collapse[symmetric]] by (metis fst_conv)
qed


text \<open>What the library says of names: a fully qualified name is its labels joined, and \<^verbatim>\<open>Fqdn\<close> leaves such a name as it is, in lower
  case or below a wildcard too.\<close>

definition Split_doc :: "dnsLib \<Rightarrow> bool" where
  "Split_doc lib \<longleftrightarrow> (\<forall>s. Fqdn lib s = join_with ''.'' (SplitDomainName lib (Fqdn lib s)) @ ''.'') \<and>
     (\<forall>s. Fqdn lib (ToLower (Fqdn lib s)) = ToLower (Fqdn lib s)) \<and> (\<forall>s. Fqdn lib (''*.'' @ Fqdn lib s) = ''*.'' @ Fqdn lib s)"

lemma dotted: "HasSuffix s ''.'' \<longleftrightarrow> (\<exists>t. s = t @ ''.'')"
proof
  assume "HasSuffix s ''.''"
  then show "\<exists>t. s = t @ ''.''" unfolding HasSuffix_def by (metis append_take_drop_id)
qed (auto simp: HasSuffix_def)

lemma simpleLib_split: "Split_doc simpleLib"
proof -
  have f: "\<exists>t. Fqdn simpleLib s = t @ ''.''" for s using dotted[of s] by (auto simp: simpleLib_def)
  have k: "Fqdn simpleLib (t @ ''.'') = t @ ''.''" for t using dotted[of "t @ ''.''"] by (auto simp: simpleLib_def)
  have j: "join_with ''.'' (SplitDomainName simpleLib (t @ ''.'')) @ ''.'' = t @ ''.''" for t
    using dotted[of "t @ ''.''"] by (auto simp: simpleLib_def)
  have "Fqdn simpleLib s = join_with ''.'' (SplitDomainName simpleLib (Fqdn simpleLib s)) @ ''.''" for s using f[of s] j by metis
  moreover have "Fqdn simpleLib (ToLower (Fqdn simpleLib s)) = ToLower (Fqdn simpleLib s)" for s
  proof -
    obtain t where "Fqdn simpleLib s = t @ ''.''" using f by blast
    moreover have "ToLower (t @ ''.'') = ToLower t @ ''.''" by (simp add: ToLower_def)
    ultimately show ?thesis using k by metis
  qed
  moreover have "Fqdn simpleLib (''*.'' @ Fqdn simpleLib s) = ''*.'' @ Fqdn simpleLib s" for s using f[of s] k by (metis append_assoc)
  ultimately show ?thesis by (simp add: Split_doc_def)
qed

lemma lower_join: "ToLower sep = sep \<Longrightarrow> ToLower (join_with sep ls) = join_with sep (map ToLower ls)"
  by (induction sep ls rule: join_with.induct) (simp_all add: ToLower_def)

lemma labels_name:
  assumes "Split_doc lib" "canonicalLabels lib a = canonicalLabels lib b"
  shows "ToLower (Fqdn lib a) = ToLower (Fqdn lib b)"
proof -
  have "map ToLower (SplitDomainName lib (Fqdn lib a)) = map ToLower (SplitDomainName lib (Fqdn lib b))"
    using assms(2) by (simp add: canonicalLabels_def)
  moreover have n: "ToLower (Fqdn lib s) = join_with ''.'' (map ToLower (SplitDomainName lib (Fqdn lib s))) @ ToLower ''.''" for s
  proof -
    have "Fqdn lib s = join_with ''.'' (SplitDomainName lib (Fqdn lib s)) @ ''.''" using assms(1) by (simp add: Split_doc_def)
    then have "ToLower (Fqdn lib s) = ToLower (join_with ''.'' (SplitDomainName lib (Fqdn lib s)) @ ''.'')" by metis
    then show ?thesis using lower_join[of "''.''" "SplitDomainName lib (Fqdn lib s)"] by (simp add: ToLower_append) (simp add: ToLower_def)
  qed
  ultimately show ?thesis by simp
qed

text \<open>The names of a zone and an NSEC record of it: owner and next name are in the zone and nothing is between them.\<close>

definition zone_nsec :: "dnsLib \<Rightarrow> string list set \<Rightarrow> nsec \<Rightarrow> bool" where
  "zone_nsec lib Z n \<longleftrightarrow> canon.gap Z (canonicalLabels lib (nsecOwner lib n)) (canonicalLabels lib (nsecNext lib n))"

lemma nsec_cover_sound:
  assumes "\<forall>n \<in> set nsecs. zone_nsec lib Z n" "nsecCoversAny lib nsecs name"
  shows "canonicalLabels lib name \<notin> Z \<or> (\<exists>n \<in> set nsecs. canonicalLabels lib name = canonicalLabels lib (nsecOwner lib n))"
proof -
  obtain n where n: "n \<in> set nsecs" "nsecCovers lib (nsecOwner lib n) (nsecNext lib n) name"
    using assms(2) by (auto simp: nsecCoversAny_def list_ex_iff)
  then show ?thesis using assms(1) canon.covers_sound[of Z] unfolding nsecCovers_canon zone_nsec_def by metis
qed


text \<open>A name no NSEC record is owned by is not the owner of one.\<close>

lemma not_owner:
  assumes doc: "Split_doc lib" and "\<not> nsecOwnerExists lib nsecs name" "Fqdn lib name = name" "n \<in> set nsecs"
  shows "canonicalLabels lib name \<noteq> canonicalLabels lib (nsecOwner lib n)"
proof
  assume "canonicalLabels lib name = canonicalLabels lib (nsecOwner lib n)"
  then have "ToLower name = ToLower (Fqdn lib (nsecOwner lib n))" using labels_name[OF doc, of name "nsecOwner lib n"] assms(3) by simp
  also have "\<dots> = nsecOwner lib n" using doc by (simp add: nsecOwner_def Split_doc_def)
  finally show False using assms(2,4) by (auto simp: nsecOwnerExists_def list_ex_iff EqualFold_def nsecOwner_def)
qed


text \<open>A zone with the names \<^verbatim>\<open>b.\<close> and \<^verbatim>\<open>d.b.\<close>, and the proof that \<^verbatim>\<open>a.b.\<close> is not in it.\<close>

definition smallZone :: "string list set" where "smallZone = {[''b''], [''b'', ''d'']}"

definition apexNSEC :: nsec where
  "apexNSEC = (\<lparr>h_Name = ''b.'', h_Rrtype = TypeNSEC, h_Class = ClassINET, h_Ttl = 60\<rparr>, \<lparr>ns_NextDomain = ''d.b.'', ns_TypeBitMap = [TypeNS]\<rparr>)"


section \<open>Names below a missing top-level domain\<close>

text \<open>When no NSEC record of a negative answer is owned by the name or one of its ancestors other than the root, the proof is
  not accepted, since the root never counts as closest encloser. The handler then rejects the answer: the NXDOMAIN of the root zone for
  a name below a top-level domain that does not exist becomes SERVFAIL.\<close>

theorem missing_tld_servfails:
  assumes "s_DNSSECEnabled cfg" and "s_DNSSECValidateLocally cfg" and "upstreamByName store (s_Upstreams cfg) up = Some u"
    and "m_Answer resp = []" and "m_Rcode resp = RcodeNameError" and "m_Question resp = [q]"
    and "nsecsOf (m_Ns resp) \<noteq> []" and "nsec3sOf (m_Ns resp) = []"
    and none: "let lib = e_lib (E u); qname = ToLower (Fqdn lib (q_Name q)) in
      \<forall>a \<in> set (qname # ancestors lib qname). \<not> nsecOwnerExists lib (nsecsOf (m_Ns resp)) a"
  shows "\<exists>reason. dnssecCheck (wd\<lparr>w_validator := Some (localValidator E now v)\<rparr>) cfg store up resp = Inl reason"
proof -
  let ?lib = "e_lib (E u)"
  let ?qn = "ToLower (Fqdn ?lib (q_Name q))"
  have "List.find (nsecOwnerExists ?lib (nsecsOf (m_Ns resp))) (ancestors ?lib ?qn) = None"
    using none by (simp add: find_None_iff Let_def)
  then have p: "\<not> proveNSEC ?lib RcodeNameError ?qn (q_Qtype q) (nsecsOf (m_Ns resp))"
    using none by (simp add: proveNSEC_def RcodeNameError_def RcodeSuccess_def Let_def)
  have "fst (Validate (E u) now (Some resp) v) = \<lparr>vd_secure = False, vd_signed = True, vd_err = None\<rparr>"
    using assms(4-8) p by (simp add: Validate_def validateDenial_def sigsOf_def List.map_filter_simps Let_def split: prod.split)
  then show ?thesis using assms(1-3) by (simp add: dnssecCheck_def localValidator_def Let_def)
qed

definition lanAnswer :: Msg where
  "lanAnswer = (askA ''tv.lan.'')\<lparr>m_Response := True, m_Rcode := RcodeNameError, m_AuthenticatedData := True,
     m_Ns := [nsecRecord ''lamer.'' ''lat.'' [TypeNS], sigOver ''lamer.'' TypeNSEC, nsecRecord ''.'' ''aaa.'' [TypeNS], sigOver ''.'' TypeNSEC]\<rparr>"

theorem missing_tld_servfails_witness:
  "\<exists>reason. dnssecCheck (quietWorld\<lparr>w_validator := Some (localValidator (\<lambda>_. demoEnv) 0 (NewValidator [demoAnchor]))\<rparr>) strictSettings
     (\<lambda>_. upstreamOf Recursive [] [] ''u'') ''u'' lanAnswer = Inl reason"
proof (rule missing_tld_servfails)
  show "upstreamByName (\<lambda>_. upstreamOf Recursive [] [] ''u'') (s_Upstreams strictSettings) ''u'' = Some (upstreamOf Recursive [] [] ''u'')"
    by (simp add: upstreamByName_def strictSettings_def quietSettings_def upstreamOf_def)
  show "m_Question lanAnswer = [\<lparr>q_Name = ''tv.lan.'', q_Qtype = TypeA, q_Qclass = ClassINET\<rparr>]" by (simp add: lanAnswer_def askA_def)
  show "nsecsOf (m_Ns lanAnswer) \<noteq> []" "nsec3sOf (m_Ns lanAnswer) = []" by code_simp+
  show "let lib = e_lib demoEnv; qname = ToLower (Fqdn lib (q_Name \<lparr>q_Name = ''tv.lan.'', q_Qtype = TypeA, q_Qclass = ClassINET\<rparr>)) in
      \<forall>a \<in> set (qname # ancestors lib qname). \<not> nsecOwnerExists lib (nsecsOf (m_Ns lanAnswer)) a" by code_simp
qed (simp_all add: strictSettings_def lanAnswer_def askA_def emptyMsg_def)

section \<open>The bundled anchor\<close>

text \<open>SHA-256, digest type 2, gives 32 bytes.\<close>

definition sha256_doc :: "dnssecLib \<Rightarrow> bool" where
  "sha256_doc kx \<longleftrightarrow> (\<forall>k d. ToDS kx k 2 = Some d \<longrightarrow> length (dz_Digest d) = 64)"

lemma bundled_no_match:
  assumes "sha256_doc kx" "set anchors \<subseteq> set DefaultRootAnchors"
  shows "matchAnchor kx keys anchors = None"
  using assms(2)
proof (induction anchors)
  case (Cons a as)
  then have a: "a \<in> set DefaultRootAnchors" by simp
  have "\<not> digestMatches kx (ta_KeyTag a) (ta_Algorithm a) (ta_DigestType a) (ta_Digest a) k" for k
  proof
    assume "digestMatches kx (ta_KeyTag a) (ta_Algorithm a) (ta_DigestType a) (ta_Digest a) k"
    then obtain d where d: "ToDS kx k 2 = Some d" "ToLower (dz_Digest d) = ToLower (ta_Digest a)"
      using a by (auto simp: digestMatches_def DefaultRootAnchors_def EqualFold_def split: option.splits)
    then have "length (dz_Digest d) = length (ta_Digest a)" by (metis length_ToLower)
    moreover have "length (ta_Digest a) = 63" using a by (auto simp: DefaultRootAnchors_def)
    ultimately show False using d(1) assms(1) unfolding sha256_doc_def by fastforce
  qed
  then have "List.find (digestMatches kx (ta_KeyTag a) (ta_Algorithm a) (ta_DigestType a) (ta_Digest a)) keys = None" by (simp add: find_None_iff)
  then show ?case using Cons by simp
qed simp

lemma bundled_no_chain:
  assumes "chain_trusted E (set DefaultRootAnchors) z keys" "sha256_doc (e_kx E)"
  shows False
  using assms by (induction) (auto simp: verifyAgainstAnchors_def bundled_no_match)

text \<open>With the bundled anchor alone no zone is ever secure: its digest has 63 digits where a SHA-256 digest has 64.\<close>

theorem bundled_anchor_trusts_nothing:
  assumes "dnssec_reach E (set DefaultRootAnchors) v" and "sha256_doc (e_kx E)" and "zoneKeys E now z depth v = (Inr (keys, secure), v')"
  shows "\<not> secure"
  using zoneKeys_step(2)[OF reach_chain[OF assms(1)] assms(3)] bundled_no_chain assms(2) by blast

definition sha256Kx :: dnssecLib where
  "sha256Kx = demoKx\<lparr>ToDS := \<lambda>k t. Some \<lparr>dz_KeyTag = 20326, dz_Algorithm = 8, dz_DigestType = t, dz_Digest = replicate 64 (CHR ''E'')\<rparr>\<rparr>"

theorem bundled_anchor_trusts_nothing_witness:
  "\<exists>v'. zoneKeys (demoEnv\<lparr>e_kx := sha256Kx\<rparr>) 0 ''.'' 0 (NewValidator DefaultRootAnchors) = (Inr ([(rr_Hdr rootKey, \<lparr>ky_Algorithm = 8, ky_Rest = []\<rparr>)], False), v')"
proof -
  let ?E = "demoEnv\<lparr>e_kx := sha256Kx\<rparr>"
  have r: "dnssec_reach ?E (set DefaultRootAnchors) (NewValidator DefaultRootAnchors)" by (rule dnssec_reach.new) simp
  have d: "sha256_doc (e_kx ?E)" by (simp add: sha256_doc_def sha256Kx_def)
  have k: "keysOf [rootKey, sigOver ''.'' TypeDNSKEY] = [(rr_Hdr rootKey, \<lparr>ky_Algorithm = 8, ky_Rest = []\<rparr>)]" "Fqdn simpleLib ''.'' = ''.''" by code_simp+
  have "\<exists>secure v'. zoneKeys ?E 0 ''.'' 0 (NewValidator DefaultRootAnchors) = (Inr ([(rr_Hdr rootKey, \<lparr>ky_Algorithm = 8, ky_Rest = []\<rparr>)], secure), v')"
    by (simp add: zoneKeys.simps fetchZoneKeys.simps cachedZone_def NewValidator_def queryZone_def demoEnv_def emptyMsg_def RcodeSuccess_def maxChainDepth_def
        rootKeys_def Let_def k)
  then show ?thesis using bundled_anchor_trusts_nothing[OF r d] by (metis (full_types))
qed

end
