(* ===== verification/Recursive.thy ===== *)
theory Recursive
  imports Forwarding
begin

text \<open>
  The recursive resolver of \<^verbatim>\<open>internal/recursive/resolver.go\<close>: connection pools, the referral walk with QNAME minimization, the
  delegation and nameserver caches and CNAME chasing. The network decides what every exchange returns and in which order the
  raced servers answer. The two depth counters of the code run downwards here: \<open>resolveC\<close> has a budget of CNAME targets, and the
  lookup of nameserver addresses is an argument of the walk, built from the resolver one level below. One resolution sees one time.
\<close>

section \<open>Connection pools\<close>

definition nsPoolMaxIdle :: duration where "nsPoolMaxIdle = 20 * Second"

record nsPooledConn =
  np_conn :: nat
  np_pooledAt :: gotime

text \<open>The pools by network and address, the number of keys ever added, and the two limits that the machine's size determines.\<close>

record connPools =
  cp_pools :: "(string, nsPooledConn list) gomap"
  cp_keyCount :: nat
  cp_size :: nat
  cp_maxKeys :: nat

definition poolKey :: "string \<Rightarrow> string \<Rightarrow> string" where "poolKey network addr = network @ ''|'' @ addr"

fun popFresh :: "gotime \<Rightarrow> nsPooledConn list \<Rightarrow> nat option \<times> nsPooledConn list" where
  "popFresh now [] = (None, [])"
| "popFresh now (pc # pcs) = (if now - np_pooledAt pc > nsPoolMaxIdle then popFresh now pcs else (Some (np_conn pc), pcs))"

definition ns_getConn :: "connPools \<Rightarrow> gotime \<Rightarrow> string \<Rightarrow> nat option \<times> connPools" where
  "ns_getConn P now key =
     (case map_of (cp_pools P) key of
        None \<Rightarrow> (None, P)
      | Some pool \<Rightarrow> (case popFresh now pool of (c, rest) \<Rightarrow> (c, P\<lparr>cp_pools := gm_put key rest (cp_pools P)\<rparr>)))"

definition ns_putConn :: "connPools \<Rightarrow> gotime \<Rightarrow> string \<Rightarrow> nat \<Rightarrow> connPools" where
  "ns_putConn P now key c =
     (let put = (\<lambda>pool P. if length pool < cp_size P then P\<lparr>cp_pools := gm_put key (pool @ [\<lparr>np_conn = c, np_pooledAt = now\<rparr>]) (cp_pools P)\<rparr> else P) in
      case map_of (cp_pools P) key of
        Some pool \<Rightarrow> put pool P
      | None \<Rightarrow>
          if cp_keyCount P \<ge> cp_maxKeys P then P
          else put [] (P\<lparr>cp_pools := gm_put key [] (cp_pools P), cp_keyCount := cp_keyCount P + 1\<rparr>))"

definition ns_Close :: "connPools \<Rightarrow> connPools" where "ns_Close P = P\<lparr>cp_pools := []\<rparr>"

text \<open>The network: the connection a dial gives and the reply on a connection, in the n-th race of the resolver, and the order in
  which the servers of that race finish. The libraries are fields too, and the id drawn for the n-th query.\<close>

record resolveEnv =
  re_lib :: dnsLib
  re_dial :: "nat \<Rightarrow> string \<Rightarrow> string \<Rightarrow> nat option"
  re_talk :: "nat \<Rightarrow> nat \<Rightarrow> Msg \<Rightarrow> Msg option"
  re_order :: "nat \<Rightarrow> string list \<Rightarrow> string list"
  re_id :: "nat \<Rightarrow> 16 word"
  re_now :: gotime

definition dialFresh :: "resolveEnv \<Rightarrow> nat \<Rightarrow> string \<Rightarrow> string \<Rightarrow> Msg \<Rightarrow> connPools \<Rightarrow> Msg option \<times> connPools" where
  "dialFresh E n network addr m P =
     (case re_dial E n network addr of
        None \<Rightarrow> (None, P)
      | Some c \<Rightarrow> (case re_talk E n c m of None \<Rightarrow> (None, P) | Some resp \<Rightarrow> (Some resp, ns_putConn P (re_now E) (poolKey network addr) c)))"

definition ns_exchange :: "resolveEnv \<Rightarrow> nat \<Rightarrow> string \<Rightarrow> string \<Rightarrow> Msg \<Rightarrow> connPools \<Rightarrow> Msg option \<times> connPools" where
  "ns_exchange E n network addr m P =
     (case ns_getConn P (re_now E) (poolKey network addr) of
        (Some c, P1) \<Rightarrow>
          (case re_talk E n c m of
             Some resp \<Rightarrow> (Some resp, ns_putConn P1 (re_now E) (poolKey network addr) c)
           | None \<Rightarrow> dialFresh E n network addr m P1)
      | (None, P1) \<Rightarrow> dialFresh E n network addr m P1)"

text \<open>One server of a race: over UDP, and over TCP when the reply is truncated.\<close>

definition askServer :: "resolveEnv \<Rightarrow> nat \<Rightarrow> Msg \<Rightarrow> string \<Rightarrow> connPools \<Rightarrow> Msg option \<times> connPools" where
  "askServer E n m addr P =
     (case ns_exchange E n ''udp'' addr m P of
        (None, P1) \<Rightarrow> (None, P1)
      | (Some resp, P1) \<Rightarrow> if m_Truncated resp then ns_exchange E n ''tcp'' addr m P1 else (Some resp, P1))"

fun raceServers :: "resolveEnv \<Rightarrow> nat \<Rightarrow> Msg \<Rightarrow> string list \<Rightarrow> connPools \<Rightarrow> Msg option \<times> connPools" where
  "raceServers E n m [] P = (None, P)"
| "raceServers E n m (a # as) P =
     (case askServer E n m a P of
        (r, P1) \<Rightarrow> (case raceServers E n m as P1 of (r', P2) \<Rightarrow> (if r \<noteq> None then r else r', P2)))"

section \<open>The resolver\<close>

definition maxHops :: nat where "maxHops = 30"
definition maxCNAMEChain :: nat where "maxCNAMEChain = 10"
definition maxNSResolveDepth :: nat where "maxNSResolveDepth = 3"
definition minDelegationTTL :: duration where "minDelegationTTL = 60 * Second"
definition maxDelegationTTL :: duration where "maxDelegationTTL = 24 * Hour"
definition recursiveUDPSize :: "16 word" where "recursiveUDPSize = 1232"

record delegation =
  dg_servers :: "string list"
  dg_expiry :: gotime

record nsAddr =
  na_addr :: string
  na_expiry :: gotime

text \<open>The resolver; \<open>rs_asked\<close> records the races so far, the newest first: who was asked what.\<close>

record Resolver =
  rs_rootHints :: "string list"
  rs_nsPort :: string
  rs_delegations :: "(string, delegation) gomap"
  rs_nsAddrs :: "(string, nsAddr) gomap"
  rs_pools :: connPools
  rs_asked :: "(string list \<times> Question) list"

definition resolverNew :: "string list \<Rightarrow> string list \<Rightarrow> nat \<Rightarrow> nat \<Rightarrow> Resolver" where
  "resolverNew rootHints defaultHints poolSize maxKeys =
     \<lparr>rs_rootHints = (if rootHints = [] then defaultHints else rootHints), rs_nsPort = ''53'', rs_delegations = [], rs_nsAddrs = [],
      rs_pools = \<lparr>cp_pools = [], cp_keyCount = 0, cp_size = poolSize, cp_maxKeys = maxKeys\<rparr>, rs_asked = []\<rparr>"

definition queryServers :: "resolveEnv \<Rightarrow> string list \<Rightarrow> Question \<Rightarrow> Resolver \<Rightarrow> Msg option \<times> Resolver" where
  "queryServers E servers q r =
     (let n = length (rs_asked r); lib = re_lib E;
          m0 = SetQuestion lib (q_Name q) (q_Qtype q) (re_id E n);
          m = SetEdns0 lib (m0\<lparr>m_Question := map (\<lambda>x. x\<lparr>q_Qclass := q_Qclass q\<rparr>) (m_Question m0), m_RecursionDesired := False\<rparr>) recursiveUDPSize False
      in case raceServers E n m (re_order E n servers) (rs_pools r) of
           (resp, P) \<Rightarrow> (resp, r\<lparr>rs_pools := P, rs_asked := (servers, q) # rs_asked r\<rparr>))"

definition clampDelegationTTL :: "duration \<Rightarrow> duration" where
  "clampDelegationTTL ttl = (if ttl < minDelegationTTL then minDelegationTTL else if ttl > maxDelegationTTL then maxDelegationTTL else ttl)"

function bestFrom :: "Resolver \<Rightarrow> gotime \<Rightarrow> string \<Rightarrow> string \<times> string list" where
  "bestFrom r now name =
     (case (case map_of (rs_delegations r) name of Some d \<Rightarrow> if now < dg_expiry d then Some d else None | None \<Rightarrow> None) of
        Some d \<Rightarrow> (name, dg_servers d)
      | None \<Rightarrow>
          (case IndexByte name CHR ''.'' of
             None \<Rightarrow> (''.'', rs_rootHints r)
           | Some i \<Rightarrow> if i + 1 \<ge> length name then (''.'', rs_rootHints r) else bestFrom r now (drop (i + 1) name)))"
  by pat_completeness auto
termination by (relation "measure (\<lambda>(r, now, name). length name)") auto

declare bestFrom.simps [simp del]

definition bestDelegation :: "Resolver \<Rightarrow> gotime \<Rightarrow> string \<Rightarrow> string \<times> string list" where
  "bestDelegation r now qname = bestFrom r now (ToLower qname)"

definition cacheDelegation :: "gotime \<Rightarrow> string \<Rightarrow> string list \<Rightarrow> duration \<Rightarrow> Resolver \<Rightarrow> Resolver" where
  "cacheDelegation now zone servers ttl r = r\<lparr>rs_delegations := gm_put zone \<lparr>dg_servers = servers, dg_expiry = now + ttl\<rparr> (rs_delegations r)\<rparr>"

definition cachedNSAddr :: "Resolver \<Rightarrow> gotime \<Rightarrow> string \<Rightarrow> string option" where
  "cachedNSAddr r now host = (case map_of (rs_nsAddrs r) host of None \<Rightarrow> None | Some e \<Rightarrow> if now < na_expiry e then Some (na_addr e) else None)"

definition cacheNSAddr :: "gotime \<Rightarrow> string \<Rightarrow> string \<Rightarrow> duration \<Rightarrow> Resolver \<Rightarrow> Resolver" where
  "cacheNSAddr now host addr ttl r = r\<lparr>rs_nsAddrs := gm_put host \<lparr>na_addr = addr, na_expiry = now + ttl\<rparr> (rs_nsAddrs r)\<rparr>"

section \<open>Reading responses\<close>

text \<open>The smallest TTL of a list, a zero being taken for "none yet".\<close>

definition minTTLOf :: "RR list \<Rightarrow> 32 word" where
  "minTTLOf rrs = foldl (\<lambda>mn rr. let ttl = h_Ttl (rr_Hdr rr) in if mn = 0 \<or> ttl < mn then ttl else mn) 0 rrs"

record nsInfo =
  ni_name :: string
  ni_glueIPs :: "string list"

definition nsRecords :: "Msg \<Rightarrow> (RR \<times> string) list" where
  "nsRecords resp = List.map_filter (\<lambda>rr. case rr_Data rr of NS t \<Rightarrow> Some (rr, ToLower t) | _ \<Rightarrow> None) (m_Ns resp)"

definition glueFor :: "Msg \<Rightarrow> string \<Rightarrow> string list" where
  "glueFor resp name = List.map_filter (\<lambda>rr. if ToLower (h_Name (rr_Hdr rr)) \<noteq> name then None
     else case rr_Data rr of A ip \<Rightarrow> Some (IP_String ip) | AAAA ip \<Rightarrow> Some (IP_String ip) | _ \<Rightarrow> None) (m_Extra resp)"

definition parseReferral :: "Msg \<Rightarrow> (string \<times> nsInfo list \<times> duration) option" where
  "parseReferral resp =
     (let ns = nsRecords resp in
      if ns = [] then None
      else Some (ToLower (h_Name (rr_Hdr (fst (last ns)))), map (\<lambda>(rr, t). \<lparr>ni_name = t, ni_glueIPs = glueFor resp t\<rparr>) ns,
             clampDelegationTTL (uint (minTTLOf (map fst ns)) * Second)))"

definition isFinal :: "Msg \<Rightarrow> bool" where
  "isFinal resp \<longleftrightarrow> m_Rcode resp = RcodeNameError \<or> m_Answer resp \<noteq> [] \<or> m_Authoritative resp"

definition nsAnswerTTL :: "Msg \<Rightarrow> duration" where
  "nsAnswerTTL resp =
     (let mn = minTTLOf (filter (\<lambda>rr. h_Rrtype (rr_Hdr rr) = TypeA \<or> h_Rrtype (rr_Hdr rr) = TypeAAAA) (m_Answer resp))
      in if mn = 0 then minDelegationTTL else clampDelegationTTL (uint mn * Second))"

definition firstAddress :: "Msg \<Rightarrow> string option" where
  "firstAddress resp =
     (case List.map_filter (\<lambda>rr. case rr_Data rr of A ip \<Rightarrow> Some (IP_String ip) | AAAA ip \<Rightarrow> Some (IP_String ip) | _ \<Rightarrow> None) (m_Answer resp) of
        [] \<Rightarrow> None | a # _ \<Rightarrow> Some a)"

text \<open>\<^verbatim>\<open>nextMinimizedLabel\<close>.\<close>

definition nextMinimizedLabel :: "dnsLib \<Rightarrow> string \<Rightarrow> string \<Rightarrow> string option" where
  "nextMinimizedLabel lib zone0 qname0 =
     (let zone = ToLower (Fqdn lib zone0); qname = ToLower (Fqdn lib qname0); qLabels = SplitDomainName lib qname; zLabels = SplitDomainName lib zone in
      if zone = qname \<or> length zLabels \<ge> length qLabels then None
      else Some (Fqdn lib (join_with ''.'' (drop (length qLabels - length zLabels - 1) qLabels))))"

text \<open>The question a hop asks, and whether it is a minimized one.\<close>

definition askQuestion :: "dnsLib \<Rightarrow> bool \<Rightarrow> string \<Rightarrow> Question \<Rightarrow> Question \<times> bool" where
  "askQuestion lib full zone q =
     (case (if full then None else nextMinimizedLabel lib zone (q_Name q)) of
        None \<Rightarrow> (q, False)
      | Some nxt \<Rightarrow> if EqualFold nxt (q_Name q) then (q, False) else (\<lparr>q_Name = nxt, q_Qtype = TypeNS, q_Qclass = q_Qclass q\<rparr>, True))"

text \<open>The scan of \<^verbatim>\<open>chaseCNAME\<close>: nothing to follow when the type is there, else the last CNAME of the name.\<close>

fun cnameTarget :: "Question \<Rightarrow> string \<Rightarrow> RR list \<Rightarrow> string" where
  "cnameTarget q target [] = target"
| "cnameTarget q target (rr # rrs) =
     (if h_Rrtype (rr_Hdr rr) = q_Qtype q then []
      else cnameTarget q (case rr_Data rr of CNAME t \<Rightarrow> if EqualFold (h_Name (rr_Hdr rr)) (q_Name q) then t else target | _ \<Rightarrow> target) rrs)"

definition mergeFollow :: "Msg \<Rightarrow> Msg \<Rightarrow> Msg" where
  "mergeFollow resp follow =
     (let m = resp\<lparr>m_Answer := m_Answer resp @ m_Answer follow, m_Rcode := m_Rcode follow\<rparr>
      in if m_Authoritative follow then m\<lparr>m_Ns := m_Ns follow\<rparr> else m)"

section \<open>The walk\<close>

datatype resolve_error = NoQuestion | ChainTooLong string | NoAnswer string | NoNameservers string | HopsExceeded string

type_synonym resolution = "resolve_error + Msg"

text \<open>The lookup of a nameserver's address by its name, absent at the deepest level.\<close>

type_synonym nsLookup = "(string \<Rightarrow> Resolver \<Rightarrow> string option \<times> Resolver) option"

text \<open>\<^verbatim>\<open>resolveNameservers\<close>: the glue, then the addresses that could be looked up; the lookups run one after the other here.\<close>

fun lookupAll :: "(string \<Rightarrow> Resolver \<Rightarrow> string option \<times> Resolver) \<Rightarrow> string list \<Rightarrow> Resolver \<Rightarrow> string list \<times> Resolver" where
  "lookupAll look [] r = ([], r)"
| "lookupAll look (h # hs) r =
     (case look h r of
        (a, r1) \<Rightarrow> (case lookupAll look hs r1 of (as, r2) \<Rightarrow> ((case a of None \<Rightarrow> as | Some x \<Rightarrow> x # as), r2)))"

definition resolveNameservers :: "nsLookup \<Rightarrow> nsInfo list \<Rightarrow> Resolver \<Rightarrow> string list \<times> Resolver" where
  "resolveNameservers look ns r =
     (let glued = concat (map (\<lambda>n. map (\<lambda>ip. JoinHostPort ip (rs_nsPort r)) (ni_glueIPs n)) ns);
          glueless = map ni_name (filter (\<lambda>n. ni_glueIPs n = []) ns)
      in case look of
           None \<Rightarrow> (glued, r)
         | Some f \<Rightarrow> (case lookupAll f glueless r of (as, r1) \<Rightarrow> (glued @ as, r1)))"

text \<open>\<open>follow\<close> resolves the target of a CNAME.\<close>

definition chaseCNAME :: "(Question \<Rightarrow> Resolver \<Rightarrow> resolution \<times> Resolver) \<Rightarrow> Question \<Rightarrow> Msg \<Rightarrow> Resolver \<Rightarrow> resolution \<times> Resolver" where
  "chaseCNAME follow q resp r =
     (let target = cnameTarget q [] (m_Answer resp) in
      if q_Qtype q = TypeCNAME \<or> target = [] then (Inr resp, r)
      else case follow (q\<lparr>q_Name := target\<rparr>) r of
        (Inl _, r1) \<Rightarrow> (Inr resp, r1)
      | (Inr f, r1) \<Rightarrow> (Inr (mergeFollow resp f), r1))"

fun walk :: "resolveEnv \<Rightarrow> (Question \<Rightarrow> Resolver \<Rightarrow> resolution \<times> Resolver) \<Rightarrow> nsLookup \<Rightarrow> Question \<Rightarrow> nat \<Rightarrow>
    string \<Rightarrow> string list \<Rightarrow> string list \<Rightarrow> bool \<Rightarrow> Resolver \<Rightarrow> resolution \<times> Resolver" where
  "walk E follow look q 0 zone servers visited full r = (Inl (HopsExceeded (q_Name q)), r)"
| "walk E follow look q (Suc hops) zone servers visited full r =
     (case askQuestion (re_lib E) full zone q of
        (askQ, minimized) \<Rightarrow>
          (case queryServers E servers askQ r of
             (None, r1) \<Rightarrow> (Inl (NoAnswer (q_Name askQ)), r1)
           | (Some resp, r1) \<Rightarrow>
               (case parseReferral resp of
                  Some (nextZone, ns, ttl) \<Rightarrow>
                    (case resolveNameservers look ns r1 of
                       (nextServers, r2) \<Rightarrow>
                         if nextServers = [] then (Inl (NoNameservers nextZone), r2)
                         else if nextZone \<in> set visited then (Inr resp, r2)
                         else walk E follow look q hops nextZone nextServers (nextZone # visited) full
                                (cacheDelegation (re_now E) nextZone nextServers ttl r2))
                | None \<Rightarrow>
                    if \<not> minimized then if isFinal resp then chaseCNAME follow q resp r1 else (Inr resp, r1)
                    else if m_Rcode resp = RcodeSuccess then walk E follow look q hops (q_Name askQ) servers visited full r1
                    else walk E follow look q hops zone servers visited True r1)))"

text \<open>\<^verbatim>\<open>resolve\<close> with the CNAME targets it may still follow.\<close>

primrec resolveC :: "resolveEnv \<Rightarrow> nsLookup \<Rightarrow> nat \<Rightarrow> Question \<Rightarrow> Resolver \<Rightarrow> resolution \<times> Resolver" where
  "resolveC E look 0 q r = (Inl (ChainTooLong (q_Name q)), r)"
| "resolveC E look (Suc j) q r =
     (case bestDelegation r (re_now E) (q_Name q) of
        (zone, servers) \<Rightarrow> walk E (resolveC E look j) look q maxHops zone servers [zone] False r)"

text \<open>\<^verbatim>\<open>resolveNSAddrWalk\<close>, over the types to try, with the resolver of the level below.\<close>

fun nsAddrWalk :: "resolveEnv \<Rightarrow> (Question \<Rightarrow> Resolver \<Rightarrow> resolution \<times> Resolver) \<Rightarrow> string \<Rightarrow> 16 word list \<Rightarrow> Resolver \<Rightarrow> string option \<times> Resolver" where
  "nsAddrWalk E res host [] r = (None, r)"
| "nsAddrWalk E res host (t # ts) r =
     (case res \<lparr>q_Name = host, q_Qtype = t, q_Qclass = ClassINET\<rparr> r of
        (Inl _, r1) \<Rightarrow> nsAddrWalk E res host ts r1
      | (Inr resp, r1) \<Rightarrow>
          (case firstAddress resp of
             None \<Rightarrow> nsAddrWalk E res host ts r1
           | Some ip \<Rightarrow>
               let addr = JoinHostPort ip (rs_nsPort r1) in (Some addr, cacheNSAddr (re_now E) host addr (nsAnswerTTL resp) r1)))"

definition resolveNSAddr :: "resolveEnv \<Rightarrow> (Question \<Rightarrow> Resolver \<Rightarrow> resolution \<times> Resolver) \<Rightarrow> string \<Rightarrow> Resolver \<Rightarrow> string option \<times> Resolver" where
  "resolveNSAddr E res host r =
     (case cachedNSAddr r (re_now E) host of
        Some addr \<Rightarrow> (Some addr, r)
      | None \<Rightarrow> nsAddrWalk E res host [TypeA, TypeAAAA] r)"

text \<open>\<^verbatim>\<open>resolve\<close> by the levels of nameserver lookups still allowed.\<close>

primrec resolveLevel :: "resolveEnv \<Rightarrow> nat \<Rightarrow> Question \<Rightarrow> Resolver \<Rightarrow> resolution \<times> Resolver" where
  "resolveLevel E 0 q r = resolveC E None (maxCNAMEChain + 1) q r"
| "resolveLevel E (Suc k) q r = resolveC E (Some (resolveNSAddr E (resolveLevel E k))) (maxCNAMEChain + 1) q r"

definition resolver_Resolve :: "resolveEnv \<Rightarrow> Msg \<Rightarrow> Resolver \<Rightarrow> resolution \<times> Resolver" where
  "resolver_Resolve E m r =
     (case m_Question m of
        [] \<Rightarrow> (Inl NoQuestion, r)
      | q # _ \<Rightarrow>
          (case resolveLevel E maxNSResolveDepth q r of
             (Inl err, r1) \<Rightarrow> (Inl err, r1)
           | (Inr resp, r1) \<Rightarrow> (Inr (resp\<lparr>m_Id := m_Id m, m_RecursionAvailable := True\<rparr>), r1)))"

definition resolver_Close :: "Resolver \<Rightarrow> Resolver" where "resolver_Close r = r\<lparr>rs_pools := ns_Close (rs_pools r)\<rparr>"

end
