(* ===== verification/RecursiveProps.thy ===== *)
theory RecursiveProps
  imports Recursive
begin

text \<open>
  What a resolution keeps and costs. A property that a race, the two caches' writes and nothing else could break is an invariant of
  the whole resolver (locale \<open>resolver_invariant\<close>, interpreted for the caches and for the connection pools). The number of races of one
  resolution is bounded for responses with boundedly many nameservers.
\<close>

section \<open>The deepest delegation\<close>

text \<open>A name and its ancestors, as \<^verbatim>\<open>bestDelegation\<close> tries them.\<close>

function zonesOf :: "string \<Rightarrow> string list" where
  "zonesOf name =
     name # (case IndexByte name CHR ''.'' of None \<Rightarrow> [] | Some i \<Rightarrow> if i + 1 \<ge> length name then [] else zonesOf (drop (i + 1) name))"
  by pat_completeness auto
termination by (relation "measure length") auto

declare zonesOf.simps [simp del]

definition freshZone :: "Resolver \<Rightarrow> gotime \<Rightarrow> string \<Rightarrow> bool" where
  "freshZone r now z \<longleftrightarrow> (\<exists>d. map_of (rs_delegations r) z = Some d \<and> now < dg_expiry d)"

lemma bestFrom_find:
  "bestFrom r now name = (case List.find (freshZone r now) (zonesOf name) of
     Some z \<Rightarrow> (z, dg_servers (the (map_of (rs_delegations r) z))) | None \<Rightarrow> (''.'', rs_rootHints r))"
proof (induction r now name rule: bestFrom.induct)
  case (1 r now name)
  show ?case
  proof (cases "freshZone r now name")
    case True
    then show ?thesis by (subst bestFrom.simps, subst zonesOf.simps) (auto simp: freshZone_def)
  next
    case False
    then have n: "(case map_of (rs_delegations r) name of Some d \<Rightarrow> if now < dg_expiry d then Some d else None | None \<Rightarrow> None) = None"
      by (auto simp: freshZone_def split: option.split)
    show ?thesis using 1 False n by (subst bestFrom.simps, subst zonesOf.simps) (auto split: option.split)
  qed
qed

section \<open>What a resolution keeps\<close>

locale resolver_invariant =
  fixes I :: "Resolver \<Rightarrow> bool" and now :: gotime
  assumes ask: "I r \<Longrightarrow> re_now E = now \<Longrightarrow> I (snd (queryServers E servers q r))"
    and delegate: "I r \<Longrightarrow> servers \<noteq> [] \<Longrightarrow> minDelegationTTL \<le> ttl \<Longrightarrow> ttl \<le> maxDelegationTTL \<Longrightarrow> I (cacheDelegation now zone servers ttl r)"
    and nsaddr: "I r \<Longrightarrow> minDelegationTTL \<le> ttl \<Longrightarrow> ttl \<le> maxDelegationTTL \<Longrightarrow> I (cacheNSAddr now host addr ttl r)"
begin

definition keeps :: "('a \<Rightarrow> Resolver \<Rightarrow> 'b \<times> Resolver) \<Rightarrow> bool" where
  "keeps f \<longleftrightarrow> (\<forall>x r. I r \<longrightarrow> I (snd (f x r)))"

lemma lookupAll_keeps: "keeps look \<Longrightarrow> I r \<Longrightarrow> I (snd (lookupAll look hs r))"
proof (induction hs arbitrary: r)
  case (Cons h hs)
  obtain a r1 where l: "look h r = (a, r1)" by fastforce
  have "I r1" using Cons.prems l by (metis keeps_def snd_conv)
  from Cons.IH[OF Cons.prems(1) this] show ?case by (simp add: l case_prod_unfold)
qed simp

lemma nameservers_keeps: "(\<And>f. look = Some f \<Longrightarrow> keeps f) \<Longrightarrow> I r \<Longrightarrow> I (snd (resolveNameservers look ns r))"
  using lookupAll_keeps by (auto simp: resolveNameservers_def Let_def split: option.split prod.split) (metis snd_conv)

lemma chase_keeps: "keeps follow \<Longrightarrow> I r \<Longrightarrow> I (snd (chaseCNAME follow q resp r))"
  by (auto simp: chaseCNAME_def Let_def keeps_def split: prod.split sum.split) (metis snd_conv)+

lemma referral_ttl: "parseReferral resp = Some (z, ns, ttl) \<Longrightarrow> minDelegationTTL \<le> ttl \<and> ttl \<le> maxDelegationTTL"
  by (auto simp: parseReferral_def clampDelegationTTL_def minDelegationTTL_def maxDelegationTTL_def Let_def split: if_splits)

lemma walk_keeps:
  assumes f: "keeps follow" and l: "\<And>g. look = Some g \<Longrightarrow> keeps g" and e: "re_now E = now"
  shows "I r \<Longrightarrow> I (snd (walk E follow look q hops zone servers visited full r))"
proof (induction hops arbitrary: zone servers visited full r)
  case (Suc hops)
  obtain askQ minimized where a: "askQuestion (re_lib E) full zone q = (askQ, minimized)" by fastforce
  obtain resp r1 where s: "queryServers E servers askQ r = (resp, r1)" by fastforce
  have r1: "I r1" using ask[OF Suc.prems e, of servers askQ] s by simp
  show ?case
  proof (cases resp)
    case None
    then show ?thesis using r1 by (simp add: a s)
  next
    case (Some m)
    show ?thesis
    proof (cases "parseReferral m")
      case None
      then show ?thesis using r1 Suc.IH[OF r1] chase_keeps[OF f r1] by (simp add: a s Some)
    next
      case ref: (Some zt)
      obtain z ns ttl where zt: "zt = (z, ns, ttl)" by (metis prod_cases3)
      obtain nxt r2 where n: "resolveNameservers look ns r1 = (nxt, r2)" by fastforce
      have r2: "I r2" using nameservers_keeps[of look r1 ns, OF l r1] n by simp
      show ?thesis using r2 Suc.IH[OF delegate[OF r2, of nxt ttl z]] referral_ttl[OF ref[unfolded zt]] e by (simp add: a s Some ref zt n)
    qed
  qed
qed simp

lemma resolveC_keeps:
  assumes "\<And>g. look = Some g \<Longrightarrow> keeps g" "re_now E = now"
  shows "keeps (resolveC E look j)"
proof (induction j)
  case (Suc j)
  show ?case unfolding keeps_def using walk_keeps[OF Suc assms] by (auto split: prod.split)
qed (simp add: keeps_def)

lemma answer_ttl: "minDelegationTTL \<le> nsAnswerTTL resp \<and> nsAnswerTTL resp \<le> maxDelegationTTL"
  by (simp add: nsAnswerTTL_def clampDelegationTTL_def minDelegationTTL_def maxDelegationTTL_def Let_def)

lemma nsAddrWalk_keeps: "keeps res \<Longrightarrow> re_now E = now \<Longrightarrow> I r \<Longrightarrow> I (snd (nsAddrWalk E res host ts r))"
proof (induction ts arbitrary: r)
  case (Cons t ts)
  obtain a r1 where l: "res \<lparr>q_Name = host, q_Qtype = t, q_Qclass = ClassINET\<rparr> r = (a, r1)" by fastforce
  have r1: "I r1" using Cons.prems(1,3) l by (metis keeps_def snd_conv)
  from Cons.IH[OF Cons.prems(1,2) r1] show ?case using nsaddr[OF r1] answer_ttl Cons.prems(2)
    by (auto simp: l Let_def split: sum.split option.split)
qed simp

lemma level_keeps: "re_now E = now \<Longrightarrow> keeps (resolveLevel E k)"
proof (induction k)
  case 0
  then show ?case using resolveC_keeps[of None E "maxCNAMEChain + 1"] by (simp add: keeps_def)
next
  case (Suc k)
  have "keeps (resolveNSAddr E (resolveLevel E k))"
    unfolding keeps_def using nsAddrWalk_keeps[OF Suc.IH[OF Suc.prems] Suc.prems] by (simp add: resolveNSAddr_def del: nsAddrWalk.simps split: option.split)
  then show ?case using resolveC_keeps[of "Some (resolveNSAddr E (resolveLevel E k))" E "maxCNAMEChain + 1"] Suc.prems by (simp add: keeps_def)
qed

lemma Resolve_keeps: "re_now E = now \<Longrightarrow> I r \<Longrightarrow> I (snd (resolver_Resolve E m r))"
  using level_keeps[of E maxNSResolveDepth] by (auto simp: resolver_Resolve_def keeps_def split: list.split prod.split sum.split) (metis snd_conv)+

end


text \<open>The caches: every delegation has a server, and nothing outlives a day.\<close>

definition caches_ok :: "gotime \<Rightarrow> Resolver \<Rightarrow> bool" where
  "caches_ok now r \<longleftrightarrow>
     (\<forall>z d. map_of (rs_delegations r) z = Some d \<longrightarrow> dg_servers d \<noteq> [] \<and> dg_expiry d \<le> now + maxDelegationTTL) \<and>
     (\<forall>h e. map_of (rs_nsAddrs r) h = Some e \<longrightarrow> na_expiry e \<le> now + maxDelegationTTL)"

lemma ask_fields [simp]:
  "rs_delegations (snd (queryServers E servers q r)) = rs_delegations r" "rs_nsAddrs (snd (queryServers E servers q r)) = rs_nsAddrs r"
  "rs_rootHints (snd (queryServers E servers q r)) = rs_rootHints r"
  "rs_asked (snd (queryServers E servers q r)) = (servers, q) # rs_asked r"
  by (simp_all add: queryServers_def Let_def case_prod_unfold)

lemma cache_fields [simp]:
  "rs_pools (cacheDelegation now zone servers ttl r) = rs_pools r" "rs_pools (cacheNSAddr now host addr ttl r) = rs_pools r"
  "rs_asked (cacheDelegation now zone servers ttl r) = rs_asked r" "rs_asked (cacheNSAddr now host addr ttl r) = rs_asked r"
  by (simp_all add: cacheDelegation_def cacheNSAddr_def)

interpretation caches: resolver_invariant "caches_ok now" now
  by unfold_locales (auto simp: caches_ok_def cacheDelegation_def cacheNSAddr_def)

text \<open>The pools: at most \<open>cp_maxKeys\<close> keys, and at most \<open>cp_size\<close> connections under each.\<close>

definition pools_ok :: "connPools \<Rightarrow> bool" where
  "pools_ok P \<longleftrightarrow> gm_wf (cp_pools P) \<and> length (cp_pools P) \<le> cp_keyCount P \<and> cp_keyCount P \<le> cp_maxKeys P \<and>
     (\<forall>x \<in> set (cp_pools P). length (snd x) \<le> cp_size P)"

lemma popFresh_le: "length (snd (popFresh now pool)) \<le> length pool"
  by (induction pool) auto

lemma popFresh_fresh: "popFresh now pool = (Some c, rest) \<Longrightarrow> \<exists>pc \<in> set pool. np_conn pc = c \<and> now - np_pooledAt pc \<le> nsPoolMaxIdle"
  by (induction pool) (auto split: if_splits)

lemma pools_put:
  assumes "pools_ok P" "map_of (cp_pools P) key = Some old" "length pool \<le> cp_size P"
  shows "pools_ok (P\<lparr>cp_pools := gm_put key pool (cp_pools P)\<rparr>)"
  using assms gm_put_ball[of "cp_pools P" "\<lambda>x. length (snd x) \<le> cp_size P" key pool]
  by (simp add: pools_ok_def length_put_some[OF assms(2)])

lemma getConn_ok:
  assumes "pools_ok P"
  shows "pools_ok (snd (ns_getConn P now key))"
proof (cases "map_of (cp_pools P) key")
  case (Some pool)
  have "length pool \<le> cp_size P" using assms Some by (auto simp: pools_ok_def dest: map_of_SomeD)
  then have "length (snd (popFresh now pool)) \<le> cp_size P" using popFresh_le[of now pool] by linarith
  from pools_put[OF assms Some this] show ?thesis by (simp add: ns_getConn_def Some case_prod_unfold)
qed (use assms in \<open>simp add: ns_getConn_def\<close>)

lemma pools_new:
  assumes "pools_ok P" "cp_keyCount P < cp_maxKeys P"
  shows "pools_ok (P\<lparr>cp_pools := gm_put key [] (cp_pools P), cp_keyCount := cp_keyCount P + 1\<rparr>)"
  using assms gm_put_ball[of "cp_pools P" "\<lambda>x. length (snd x) \<le> cp_size P" key "[]"] length_put_le[of key "[]" "cp_pools P"]
  by (simp add: pools_ok_def)

lemma putConn_ok:
  assumes "pools_ok P"
  shows "pools_ok (ns_putConn P now key c)"
proof (cases "map_of (cp_pools P) key")
  case None
  show ?thesis
  proof (cases "cp_keyCount P < cp_maxKeys P")
    case True
    let ?P = "P\<lparr>cp_pools := gm_put key [] (cp_pools P), cp_keyCount := cp_keyCount P + 1\<rparr>"
    have "pools_ok ?P" by (rule pools_new[OF assms True])
    then show ?thesis using True pools_put[of ?P key "[]" "[\<lparr>np_conn = c, np_pooledAt = now\<rparr>]"] by (simp add: ns_putConn_def None Let_def)
  qed (use assms in \<open>simp add: ns_putConn_def None Let_def\<close>)
next
  case (Some pool)
  show ?thesis using pools_put[OF assms Some] assms by (simp add: ns_putConn_def Some Let_def)
qed

lemma exchange_ok: "pools_ok P \<Longrightarrow> pools_ok (snd (ns_exchange E n network addr m P))"
proof -
  assume ok: "pools_ok P"
  have d: "pools_ok (snd (dialFresh E n network addr m P'))" if "pools_ok P'" for P'
    using that putConn_ok by (auto simp: dialFresh_def split: option.split)
  obtain c P1 where g: "ns_getConn P (re_now E) (poolKey network addr) = (c, P1)" by fastforce
  have "pools_ok P1" using getConn_ok[OF ok, of "re_now E" "poolKey network addr"] g by simp
  then show ?thesis using d putConn_ok by (auto simp: ns_exchange_def g split: option.split)
qed

lemma askServer_ok: "pools_ok P \<Longrightarrow> pools_ok (snd (askServer E n m addr P))"
proof -
  assume ok: "pools_ok P"
  obtain c P1 where g: "ns_exchange E n ''udp'' addr m P = (c, P1)" by fastforce
  have "pools_ok P1" using exchange_ok[OF ok, of E n "''udp''" addr m] g by simp
  then show ?thesis using exchange_ok by (auto simp: askServer_def g split: option.split)
qed

lemma race_ok: "pools_ok P \<Longrightarrow> pools_ok (snd (raceServers E n m as P))"
proof (induction as arbitrary: P)
  case (Cons a as)
  obtain c P1 where g: "askServer E n m a P = (c, P1)" by fastforce
  have "pools_ok P1" using askServer_ok[OF Cons.prems, of E n m a] g by simp
  from Cons.IH[OF this] show ?case by (simp add: g case_prod_unfold)
qed simp

interpretation pools: resolver_invariant "\<lambda>r. pools_ok (rs_pools r)" now
proof unfold_locales
  fix r :: Resolver and E :: resolveEnv and servers q
  assume "pools_ok (rs_pools r)"
  then show "pools_ok (rs_pools (snd (queryServers E servers q r)))"
    using race_ok by (simp add: queryServers_def Let_def case_prod_unfold)
qed simp_all

section \<open>The cost of a resolution\<close>

definition asked :: "Resolver \<Rightarrow> nat" where "asked r = length (rs_asked r)"

text \<open>No response names more than \<open>G\<close> nameservers.\<close>

definition ns_limited :: "resolveEnv \<Rightarrow> nat \<Rightarrow> bool" where
  "ns_limited E G \<longleftrightarrow> (\<forall>n c m resp. re_talk E n c m = Some resp \<longrightarrow> length (nsRecords resp) \<le> G)"

definition costs :: "('a \<Rightarrow> Resolver \<Rightarrow> 'b \<times> Resolver) \<Rightarrow> nat \<Rightarrow> bool" where
  "costs f w \<longleftrightarrow> (\<forall>x r. asked (snd (f x r)) \<le> asked r + w)"

lemma costsD: "costs f w \<Longrightarrow> f x r = (y, r') \<Longrightarrow> asked r' \<le> asked r + w"
  unfolding costs_def by (metis snd_conv)

lemma exchange_talk: "fst (ns_exchange E n network addr m P) = Some resp \<Longrightarrow> \<exists>c. re_talk E n c m = Some resp"
  by (auto simp: ns_exchange_def dialFresh_def split: prod.splits option.splits)

lemma race_talk: "fst (raceServers E n m as P) = Some resp \<Longrightarrow> \<exists>c. re_talk E n c m = Some resp"
proof (induction as arbitrary: P)
  case (Cons a as)
  obtain x P1 where g: "askServer E n m a P = (x, P1)" by fastforce
  have "x = Some resp \<Longrightarrow> \<exists>c. re_talk E n c m = Some resp"
    using g exchange_talk[of E n _ a m] by (auto simp: askServer_def split: prod.splits option.splits if_splits) (metis fst_conv)+
  then show ?case using Cons.prems Cons.IH[of P1] by (cases x) (simp_all add: g case_prod_unfold)
qed simp

lemma ask_limited: "ns_limited E G \<Longrightarrow> queryServers E servers q r = (Some resp, r') \<Longrightarrow> length (nsRecords resp) \<le> G"
  using race_talk[of E "length (rs_asked r)"] by (fastforce simp: queryServers_def ns_limited_def Let_def case_prod_unfold)

lemma referral_length: "parseReferral resp = Some (z, ns, ttl) \<Longrightarrow> length ns = length (nsRecords resp)"
  by (auto simp: parseReferral_def Let_def split: if_splits)

lemma lookupAll_cost: "costs look w \<Longrightarrow> asked (snd (lookupAll look hs r)) \<le> asked r + length hs * w"
proof (induction hs arbitrary: r)
  case (Cons h hs)
  obtain a r1 where l: "look h r = (a, r1)" by fastforce
  have "asked r1 \<le> asked r + w" using costsD[OF Cons.prems l] .
  then show ?case using Cons.IH[OF Cons.prems, of r1] by (simp add: l case_prod_unfold)
qed simp

lemma nameservers_cost:
  assumes "\<And>f. look = Some f \<Longrightarrow> costs f w" "length ns \<le> G" "resolveNameservers look ns r = (a, r')"
  shows "asked r' \<le> asked r + G * w"
proof (cases look)
  case (Some f)
  let ?hs = "map ni_name (filter (\<lambda>n. ni_glueIPs n = []) ns)"
  have "asked r' \<le> asked r + length ?hs * w"
    using lookupAll_cost[OF assms(1)[OF Some], of ?hs r] assms(3) by (auto simp: resolveNameservers_def Some Let_def split: prod.splits)
  moreover have "length ?hs \<le> G" using le_trans[OF length_filter_le assms(2)] by simp
  then have "length ?hs * w \<le> G * w" by (rule mult_right_mono) simp
  ultimately show ?thesis by linarith
qed (use assms(3) in \<open>simp add: resolveNameservers_def Let_def\<close>)

lemma walk_cost:
  assumes lim: "ns_limited E G" and f: "costs follow cf" and l: "\<And>g. look = Some g \<Longrightarrow> costs g w"
  shows "asked (snd (walk E follow look q hops zone servers visited full r)) \<le> asked r + hops * (1 + G * w) + cf"
proof (induction hops arbitrary: zone servers visited full r)
  case (Suc hops)
  obtain askQ minimized where a: "askQuestion (re_lib E) full zone q = (askQ, minimized)" by fastforce
  obtain resp r1 where s: "queryServers E servers askQ r = (resp, r1)" by fastforce
  have r1: "asked r1 = asked r + 1" using ask_fields(4)[of E servers askQ r] s by (simp add: asked_def)
  show ?case
  proof (cases resp)
    case None
    then show ?thesis using r1 by (simp add: a s)
  next
    case (Some m)
    show ?thesis
    proof (cases "parseReferral m")
      case None
      have "asked (snd (chaseCNAME follow q m r1)) \<le> asked r1 + cf"
        using costsD[OF f] by (auto simp: chaseCNAME_def Let_def split: prod.split sum.split)
      moreover have "asked (snd (walk E follow look q hops z sv vs fl r1)) \<le> asked r + Suc hops * (1 + G * w) + cf" for z sv vs fl
        using Suc.IH[of z sv vs fl r1] r1 by simp
      ultimately show ?thesis using r1 by (simp add: a s Some None)
    next
      case ref: (Some zt)
      obtain z ns ttl where zt: "zt = (z, ns, ttl)" by (metis prod_cases3)
      obtain nxt r2 where n: "resolveNameservers look ns r1 = (nxt, r2)" by fastforce
      have "length ns \<le> G" using ask_limited[OF lim] s referral_length[OF ref[unfolded zt]] Some by fastforce
      from nameservers_cost[OF l this n] have r2: "asked r2 \<le> asked r1 + G * w" by simp
      have c: "asked (cacheDelegation t z sv tt r2) = asked r2" for t z sv tt by (simp add: asked_def)
      show ?thesis using r1 r2 Suc.IH[of z nxt "z # visited" full "cacheDelegation (re_now E) z nxt ttl r2"] c
        by (auto simp: a s Some ref zt n)
    qed
  qed
qed simp

lemma resolveC_cost:
  assumes "ns_limited E G" "\<And>g. look = Some g \<Longrightarrow> costs g w"
  shows "costs (resolveC E look j) (j * (maxHops * (1 + G * w)))"
proof (induction j)
  case (Suc j)
  have "asked (snd (walk E (resolveC E look j) look q maxHops z sv vs fl r)) \<le> asked r + Suc j * (maxHops * (1 + G * w))" for q z sv vs fl r
    using walk_cost[of E G "resolveC E look j" _ look w q maxHops z sv vs fl r, OF assms(1) Suc assms(2)] by simp
  then show ?case unfolding costs_def by (auto split: prod.split)
qed (simp add: costs_def)

text \<open>The races of one resolution with \<open>k\<close> levels of nameserver lookups.\<close>

fun raceBound :: "nat \<Rightarrow> nat \<Rightarrow> nat" where
  "raceBound G 0 = 330"
| "raceBound G (Suc k) = 330 * (1 + G * (2 * raceBound G k))"

lemma nsAddrWalk_cost: "costs res w \<Longrightarrow> asked (snd (nsAddrWalk E res host ts r)) \<le> asked r + length ts * w"
proof (induction ts arbitrary: r)
  case (Cons t ts)
  obtain a r1 where l: "res \<lparr>q_Name = host, q_Qtype = t, q_Qclass = ClassINET\<rparr> r = (a, r1)" by fastforce
  have r1: "asked r1 \<le> asked r + w" using costsD[OF Cons.prems l] .
  have c: "asked (cacheNSAddr x y z tt r1) = asked r1" for x y z tt by (simp add: asked_def)
  show ?case using Cons.IH[OF Cons.prems, of r1] r1 c by (auto simp: l Let_def split: sum.split option.split intro: order.trans)
qed simp

lemma level_cost: "ns_limited E G \<Longrightarrow> costs (resolveLevel E k) (raceBound G k)"
proof (induction k)
  case 0
  then show ?case using resolveC_cost[of E G None 0 "maxCNAMEChain + 1"] by (simp add: costs_def maxHops_def maxCNAMEChain_def)
next
  case (Suc k)
  have "costs (resolveNSAddr E (resolveLevel E k)) (2 * raceBound G k)"
    unfolding costs_def
  proof (intro allI)
    fix h r
    show "asked (snd (resolveNSAddr E (resolveLevel E k) h r)) \<le> asked r + 2 * raceBound G k"
      using nsAddrWalk_cost[OF Suc.IH[OF Suc.prems], of E h "[TypeA, TypeAAAA]" r] by (simp add: resolveNSAddr_def del: nsAddrWalk.simps split: option.split)
  qed
  then show ?case
    using resolveC_cost[of E G "Some (resolveNSAddr E (resolveLevel E k))" "2 * raceBound G k" "maxCNAMEChain + 1"] Suc.prems
    by (simp add: costs_def maxHops_def maxCNAMEChain_def)
qed

lemma Resolve_cost: "ns_limited E G \<Longrightarrow> asked (snd (resolver_Resolve E m r)) \<le> asked r + raceBound G maxNSResolveDepth"
  using level_cost[of E G maxNSResolveDepth] by (auto simp: resolver_Resolve_def costs_def split: list.split prod.split sum.split) (metis snd_conv)+

end
