(* ===== verification/RecursiveTheorems.thy ===== *)
theory RecursiveTheorems
  imports RecursiveProps
begin

text \<open>What the resolver guarantees, and a run in which one server takes over a zone it has nothing to do with.\<close>

section \<open>Resolvers over time\<close>

text \<open>A resolver from its creation on, with the time of the last resolution.\<close>

inductive resolver_reach :: "gotime \<Rightarrow> Resolver \<Rightarrow> bool" where
  new: "resolver_reach t (resolverNew hints defaults poolSize maxKeys)"
| resolve: "resolver_reach t r \<Longrightarrow> t \<le> re_now E \<Longrightarrow> resolver_reach (re_now E) (snd (resolver_Resolve E m r))"
| close: "resolver_reach t r \<Longrightarrow> resolver_reach t (resolver_Close r)"

lemma caches_later: "caches_ok t r \<Longrightarrow> t \<le> t' \<Longrightarrow> caches_ok t' r"
  by (force simp: caches_ok_def)

lemma reach_ok: "resolver_reach t r \<Longrightarrow> caches_ok t r \<and> pools_ok (rs_pools r)"
proof (induction rule: resolver_reach.induct)
  case (resolve t r E m)
  then have "caches_ok (re_now E) r" and "pools_ok (rs_pools r)" using caches_later by auto
  then show ?case using caches.Resolve_keeps[OF refl] pools.Resolve_keeps[OF refl] by blast
qed (auto simp: resolverNew_def caches_ok_def pools_ok_def resolver_Close_def ns_Close_def)

text \<open>At every moment of a resolver's life a cached delegation names at least one server and no cached delegation or nameserver
  address lasts longer than a day from the last resolution, whatever TTLs the servers send; at most the configured number of
  connection pools exist, none holds more than its size.\<close>

theorem resolver_caches_bounded:
  assumes "resolver_reach t r"
  shows "(map_of (rs_delegations r) z = Some d \<longrightarrow> dg_servers d \<noteq> [] \<and> dg_expiry d \<le> t + maxDelegationTTL) \<and>
    (map_of (rs_nsAddrs r) h = Some e \<longrightarrow> na_expiry e \<le> t + maxDelegationTTL) \<and>
    length (cp_pools (rs_pools r)) \<le> cp_maxKeys (rs_pools r) \<and>
    (map_of (cp_pools (rs_pools r)) k = Some pool \<longrightarrow> length pool \<le> cp_size (rs_pools r))"
  using reach_ok[OF assms] by (auto simp: caches_ok_def pools_ok_def dest: map_of_SomeD)

section \<open>A takeover\<close>

text \<open>Three servers: the root, that of \<^verbatim>\<open>com\<close>, and one that \<^verbatim>\<open>evil.com\<close> is delegated to. The last answers everything with a referral of
  \<^verbatim>\<open>com\<close> to itself.\<close>

definition referral :: "string \<Rightarrow> string \<Rightarrow> IP \<Rightarrow> Msg" where
  "referral zone host ip = emptyMsg\<lparr>m_Response := True,
     m_Ns := [\<lparr>rr_Hdr = \<lparr>h_Name = zone, h_Rrtype = TypeNS, h_Class = ClassINET, h_Ttl = 3600\<rparr>, rr_Data = NS host\<rparr>],
     m_Extra := [\<lparr>rr_Hdr = \<lparr>h_Name = host, h_Rrtype = TypeA, h_Class = ClassINET, h_Ttl = 3600\<rparr>, rr_Data = A ip\<rparr>]\<rparr>"

definition evilNet :: "gotime \<Rightarrow> resolveEnv" where
  "evilNet now = \<lparr>re_lib = simpleLib,
     re_dial = \<lambda>n network addr. if addr = ''1.1.1.1:53'' then Some 1 else if addr = ''2.2.2.2:53'' then Some 2 else Some 6,
     re_talk = \<lambda>n c m. Some (if c = 1 then referral ''com.'' ''a.com.'' [2, 2, 2, 2] else if c = 2 then referral ''e.com.'' ''ns.e.com.'' [6, 6, 6, 6]
       else referral ''com.'' ''ns.e.com.'' [6, 6, 6, 6]),
     re_order = \<lambda>n servers. servers, re_id = \<lambda>_. 1, re_now = now\<rparr>"

definition ask :: "string \<Rightarrow> Msg" where
  "ask nm = emptyMsg\<lparr>m_Id := 7, m_Question := [\<lparr>q_Name = nm, q_Qtype = TypeA, q_Qclass = ClassINET\<rparr>]\<rparr>"

definition honest :: Resolver where "honest = resolverNew [''1.1.1.1:53''] [] 2 8"

definition once :: Resolver where "once = snd (resolver_Resolve (evilNet 0) (ask ''x.e.com.'') honest)"
definition twice :: Resolver where "twice = snd (resolver_Resolve (evilNet Second) (ask ''y.e.com.'') once)"


theorem resolver_caches_bounded_witness:
  "dg_servers \<lparr>dg_servers = [''6.6.6.6:53''], dg_expiry = 3601 * Second\<rparr> \<noteq> [] \<and> (3601 * Second \<le> Second + maxDelegationTTL)"
proof -
  have "resolver_reach 0 honest" unfolding honest_def by (rule resolver_reach.new)
  then have "resolver_reach 0 once" using resolver_reach.resolve[of 0 honest "evilNet 0" "ask ''x.e.com.''"] by (simp add: once_def evilNet_def)
  then have "resolver_reach Second twice"
    using resolver_reach.resolve[of 0 once "evilNet Second" "ask ''y.e.com.''"] by (simp add: twice_def evilNet_def)
  from resolver_caches_bounded[OF this, of "''com.''" "\<lparr>dg_servers = [''6.6.6.6:53''], dg_expiry = 3601 * Second\<rparr>"]
  have "map_of (rs_delegations twice) ''com.'' = Some \<lparr>dg_servers = [''6.6.6.6:53''], dg_expiry = 3601 * Second\<rparr> \<longrightarrow>
    dg_servers \<lparr>dg_servers = [''6.6.6.6:53''], dg_expiry = 3601 * Second\<rparr> \<noteq> [] \<and> 3601 * Second \<le> Second + maxDelegationTTL" by simp
  moreover have "map_of (rs_delegations twice) ''com.'' = Some \<lparr>dg_servers = [''6.6.6.6:53''], dg_expiry = 3601 * Second\<rparr>" by code_simp
  ultimately show ?thesis by blast
qed

section \<open>Delegations and cost\<close>

text \<open>A question is sent to the servers of the deepest zone above its name (in lower case) whose cached delegation has not expired,
  and to the root servers when there is none.\<close>

theorem best_delegation_deepest:
  "bestDelegation r now qname = (case List.find (freshZone r now) (zonesOf (ToLower qname)) of
     Some z \<Rightarrow> (z, dg_servers (the (map_of (rs_delegations r) z))) | None \<Rightarrow> (''.'', rs_rootHints r))"
  by (simp add: bestDelegation_def bestFrom_find)

text \<open>C33: one resolution ends, and when no response names more than \<open>G\<close> nameservers it makes at most the races that thirty hops, eleven
  names of a CNAME chain and three levels of nameserver lookups allow: with the cubic growth in \<open>G\<close> that comes from looking up every
  nameserver without an address.\<close>

theorem resolve_query_bound:
  assumes "ns_limited E G"
  shows "length (rs_asked (snd (resolver_Resolve E m r))) \<le>
    length (rs_asked r) + 330 + 330 * (660 * G) + 330 * (660 * G) * (660 * G) + 330 * (660 * G) * (660 * G) * (660 * G)"
proof -
  have "raceBound G maxNSResolveDepth = 330 + 330 * (660 * G) + 330 * (660 * G) * (660 * G) + 330 * (660 * G) * (660 * G) * (660 * G)"
    by (simp add: maxNSResolveDepth_def numeral_3_eq_3 algebra_simps)
  then show ?thesis using Resolve_cost[OF assms, of m r] by (simp add: asked_def)
qed

theorem resolve_query_bound_witness:
  "ns_limited (evilNet 0) 1 \<and> length (rs_asked once) \<le> 330 + 330 * 660 + 330 * 660 * 660 + 330 * 660 * 660 * 660"
proof -
  have l: "ns_limited (evilNet 0) 1"
    by (auto simp: ns_limited_def evilNet_def nsRecords_def referral_def emptyMsg_def List.map_filter_def split: if_splits)
  have "length (rs_asked honest) = 0" by (simp add: honest_def resolverNew_def)
  then show ?thesis using l resolve_query_bound[OF l, of "ask ''x.e.com.''" honest] unfolding once_def by simp
qed

section \<open>An alias that is not followed\<close>

text \<open>The zone \<^verbatim>\<open>com\<close> with an alias in it; its server names itself in the authority section of every answer, or leaves that section empty.\<close>

definition aliasAnswer :: "bool \<Rightarrow> Msg \<Rightarrow> Msg" where
  "aliasAnswer chatty m =
     (let nm = q_Name (hd (m_Question m));
          rec = (\<lambda>t d. \<lparr>rr_Hdr = \<lparr>h_Name = nm, h_Rrtype = t, h_Class = ClassINET, h_Ttl = 60\<rparr>, rr_Data = d\<rparr>) in
      (if chatty then referral ''com.'' ''a.com.'' [2, 2, 2, 2] else emptyMsg)\<lparr>m_Response := True, m_Authoritative := True,
        m_Answer := (if nm = ''w.com.'' then [rec TypeCNAME (CNAME ''h.com.'')] else [rec TypeA (A [9, 9, 9, 9])])\<rparr>)"

definition aliasNet :: "bool \<Rightarrow> resolveEnv" where
  "aliasNet chatty = (evilNet 0)\<lparr>re_talk := \<lambda>n c m. Some (if c = 1 then referral ''com.'' ''a.com.'' [2, 2, 2, 2] else aliasAnswer chatty m)\<rparr>"

definition answersOf :: "resolution \<times> Resolver \<Rightarrow> RData list" where
  "answersOf x = (case fst x of Inl _ \<Rightarrow> [] | Inr m \<Rightarrow> map rr_Data (m_Answer m))"

text \<open>Nameservers in the authority section make an authoritative answer a referral; as its zone was visited already the answer is
  returned as it is, and an alias in it is not followed. The same server without that section has its alias followed to the address.\<close>

theorem authority_section_stops_alias:
  "answersOf (resolver_Resolve (aliasNet False) (ask ''w.com.'') honest) = [CNAME ''h.com.'', A [9, 9, 9, 9]]"
  "answersOf (resolver_Resolve (aliasNet True) (ask ''w.com.'') honest) = [CNAME ''h.com.'']"
  by code_simp+

end
