(* ===== verification/RootHints.thy ===== *)
theory RootHints
  imports Recursive "HOL-Library.List_Lexorder" "HOL-Library.Char_ord" "HOL-Library.Sublist"
begin

text \<open>
  The root hints of \<^verbatim>\<open>internal/recursive/hints.go\<close> and \<^verbatim>\<open>roots.go\<close>: the parser of \<^verbatim>\<open>named.root\<close>, the signature check, and the manager that
  fetches, verifies, caches and applies the hints. The OpenPGP library is a parameter. What a fetch returns and how far the write of the
  cache file gets are arguments of a refresh; the file itself and the process-wide hints are part of the manager's state.
\<close>

section \<open>Bundled hints\<close>

definition DefaultRootHints :: "string list" where
  "DefaultRootHints =
     [''198.41.0.4:53'', ''170.247.170.2:53'', ''192.33.4.12:53'', ''199.7.91.13:53'', ''192.203.230.10:53'', ''192.5.5.241:53'', ''192.112.36.4:53'',
      ''198.97.190.53:53'', ''192.36.148.17:53'', ''192.58.128.30:53'', ''193.0.14.129:53'', ''199.7.83.42:53'', ''202.12.27.33:53'',
      ''[2001:503:ba3e::2:30]:53'', ''[2801:1b8:10::b]:53'', ''[2001:500:2::c]:53'', ''[2001:500:2d::d]:53'', ''[2001:500:a8::e]:53'',
      ''[2001:500:2f::f]:53'', ''[2001:500:12::d0d]:53'', ''[2001:500:1::53]:53'', ''[2001:7fe::53]:53'', ''[2001:503:c27::2:30]:53'',
      ''[2001:7fd::1]:53'', ''[2001:500:9f::42]:53'', ''[2001:dc3::35]:53'']"

section \<open>Parsing\<close>

definition minRootServers :: nat where "minRootServers = 13"

record hintsTable =
  ht_names :: "string list"
  ht_v4 :: "(string, string list) gomap"
  ht_v6 :: "(string, string list) gomap"

definition addrsOf :: "(string, string list) gomap \<Rightarrow> string \<Rightarrow> string list" where
  "addrsOf m k = (case map_of m k of None \<Rightarrow> [] | Some xs \<Rightarrow> xs)"

definition addAddr :: "string \<Rightarrow> string \<Rightarrow> (string, string list) gomap \<Rightarrow> (string, string list) gomap" where
  "addAddr k v m = gm_put k (addrsOf m k @ [v]) m"

text \<open>One line of the file: blank lines, comments and short lines are skipped, an \<^verbatim>\<open>IN\<close> in the third field shifts the type and the value.\<close>

definition hintsLine :: "string \<Rightarrow> hintsTable \<Rightarrow> hintsTable" where
  "hintsLine line0 T =
     (let line = TrimSpace line0; f = Fields line in
      if line = [] \<or> HasPrefix line '';'' \<or> length f < 4 then T
      else
        let shift = (ToUpper (f ! 2) = ''IN'' \<and> length f \<ge> 5);
            owner = CanonicalDomain (f ! 0);
            typ = ToUpper (f ! (if shift then 3 else 2));
            val = f ! (if shift then 4 else 3);
            ip = ParseIP val
        in if typ = ''NS'' then (if owner = [] then T\<lparr>ht_names := List.insert (CanonicalDomain val) (ht_names T)\<rparr> else T)
           else if typ = ''A'' then (if ip \<noteq> [] \<and> To4 ip \<noteq> [] then T\<lparr>ht_v4 := addAddr owner val (ht_v4 T)\<rparr> else T)
           else if typ = ''AAAA'' then (if ip \<noteq> [] \<and> To4 ip = [] then T\<lparr>ht_v6 := addAddr owner val (ht_v6 T)\<rparr> else T)
           else T)"

definition hintsTableOf :: "string \<Rightarrow> hintsTable" where
  "hintsTableOf data = fold hintsLine (split_on CHR 0x0A data) \<lparr>ht_names = [], ht_v4 = [], ht_v6 = []\<rparr>"

text \<open>The addresses of the sorted names, each with its port, without those already listed.\<close>

definition appendNew :: "string list \<Rightarrow> string list \<Rightarrow> string list" where
  "appendNew out xs = foldl (\<lambda>out a. if a \<in> set out then out else out @ [a]) out xs"

definition dialAddrs :: "(string, string list) gomap \<Rightarrow> string list \<Rightarrow> string list" where
  "dialAddrs m names = concat (map (\<lambda>n. map (\<lambda>ip. JoinHostPort ip ''53'') (addrsOf m n)) names)"

definition hasIPv4 :: "string list \<Rightarrow> bool" where
  "hasIPv4 addrs \<longleftrightarrow> list_ex (\<lambda>a. case SplitHostPort a of None \<Rightarrow> False | Some (host, _) \<Rightarrow> To4 (ParseIP host) \<noteq> []) addrs"

datatype hintsError = TooFewServers nat | NoAddresses | NoIPv4

definition ParseRootHints :: "string \<Rightarrow> hintsError + string list" where
  "ParseRootHints data =
     (let T = hintsTableOf data in
      if length (ht_names T) < minRootServers then Inl (TooFewServers (length (ht_names T)))
      else
        let sorted = sort (ht_names T);
            out = appendNew (appendNew [] (dialAddrs (ht_v4 T) sorted)) (dialAddrs (ht_v6 T) sorted)
        in if out = [] then Inl NoAddresses else if \<not> hasIPv4 out then Inl NoIPv4 else Inr out)"

section \<open>The signature\<close>

record pgpEntity =
  pe_Fingerprint :: string
  pe_KeyId :: string

record pgpLib =
  ReadArmoredKeyRing :: "string \<Rightarrow> pgpEntity list option"
  CheckDetachedSignature :: "pgpEntity list \<Rightarrow> string \<Rightarrow> string \<Rightarrow> pgpEntity option"

definition RootHintsKeyFP :: string where "RootHintsKeyFP = ''F0CB1A326BDF3F3EFA3A01FA937BB869E3A238C5''"
definition RootHintsKeyID :: string where "RootHintsKeyID = ''937BB869E3A238C5''"

text \<open>The keyring of the embedded key's text, nothing when it is not exactly the expected key.\<close>

definition parseRootHintsKeyring :: "pgpLib \<Rightarrow> string \<Rightarrow> pgpEntity list option" where
  "parseRootHintsKeyring lib armored =
     (case ReadArmoredKeyRing lib armored of
        None \<Rightarrow> None
      | Some keyring \<Rightarrow> if length keyring \<noteq> 1 then None else if pe_Fingerprint (hd keyring) \<noteq> RootHintsKeyFP then None else Some keyring)"

definition VerifyRootHints :: "pgpLib \<Rightarrow> string \<Rightarrow> string \<Rightarrow> string \<Rightarrow> bool" where
  "VerifyRootHints lib armored sig body =
     (case parseRootHintsKeyring lib armored of
        None \<Rightarrow> False
      | Some keyring \<Rightarrow>
          (case CheckDetachedSignature lib keyring body sig of
             None \<Rightarrow> False
           | Some entity \<Rightarrow> pe_KeyId entity = RootHintsKeyID))"

section \<open>The manager\<close>

datatype hintsSource = HintsLive | HintsCached | HintsBundled

datatype liveFail = HintsFetchFailed | SignatureFailed | HintsParseFailed hintsError

datatype hintsReason = CachedAfter liveFail | BundledAfter liveFail

text \<open>The write of the cache file: the directory could not be made, the file was written, or the write failed after some bytes of the
  truncated file.\<close>

datatype cacheWrite = NoDirectory | WholeFile | TornAt nat

record HintsManager =
  hm_hasPath :: bool
  hm_interval :: duration
  hm_source :: "hintsSource option"
  hm_verified :: bool
  hm_lastFetch :: "gotime option"
  hm_lastError :: "hintsReason option"
  hm_addresses :: nat
  hm_disk :: "(string \<times> gotime) option"
  hm_activeDefaultHints :: "string list"

definition DefaultRefreshInterval :: duration where "DefaultRefreshInterval = 7 * 24 * Hour"

definition NewHintsManager :: "bool \<Rightarrow> duration \<Rightarrow> (string \<times> gotime) option \<Rightarrow> HintsManager" where
  "NewHintsManager hasPath interval disk =
     \<lparr>hm_hasPath = hasPath, hm_interval = (if interval \<le> 0 then DefaultRefreshInterval else interval), hm_source = None, hm_verified = False,
      hm_lastFetch = None, hm_lastError = None, hm_addresses = 0, hm_disk = disk, hm_activeDefaultHints = DefaultRootHints\<rparr>"

definition SetDefaultRootHints :: "string list \<Rightarrow> HintsManager \<Rightarrow> HintsManager" where
  "SetDefaultRootHints hints m = m\<lparr>hm_activeDefaultHints := (if hints = [] then DefaultRootHints else hints)\<rparr>"

definition writeCache :: "HintsManager \<Rightarrow> gotime \<Rightarrow> string \<Rightarrow> cacheWrite \<Rightarrow> (string \<times> gotime) option" where
  "writeCache m now data w =
     (if \<not> hm_hasPath m then hm_disk m
      else case w of NoDirectory \<Rightarrow> hm_disk m | WholeFile \<Rightarrow> Some (data, now) | TornAt n \<Rightarrow> Some (take n data, now))"

text \<open>What a fetch gives: the file and its signature, or nothing. The live file must be signed and must parse.\<close>

definition liveHints :: "(string \<Rightarrow> string \<Rightarrow> bool) \<Rightarrow> (string \<times> string) option \<Rightarrow> liveFail + (string \<times> string list)" where
  "liveHints verify fetched =
     (case fetched of
        None \<Rightarrow> Inl HintsFetchFailed
      | Some (data, sig) \<Rightarrow>
          if \<not> verify sig data then Inl SignatureFailed
          else case ParseRootHints data of Inl e \<Rightarrow> Inl (HintsParseFailed e) | Inr hints \<Rightarrow> Inr (data, hints))"

definition loadRootHints :: "(string \<Rightarrow> string \<Rightarrow> bool) \<Rightarrow> HintsManager \<Rightarrow> gotime \<Rightarrow> (string \<times> string) option \<Rightarrow> cacheWrite \<Rightarrow>
    (string list \<times> hintsSource \<times> bool \<times> hintsReason option) \<times> HintsManager" where
  "loadRootHints verify m now fetched w =
     (case liveHints verify fetched of
        Inr (data, hints) \<Rightarrow> ((hints, HintsLive, True, None), m\<lparr>hm_disk := writeCache m now data w\<rparr>)
      | Inl why \<Rightarrow>
          (case (if hm_hasPath m then (case hm_disk m of None \<Rightarrow> None | Some (raw, _) \<Rightarrow> (case ParseRootHints raw of Inl _ \<Rightarrow> None | Inr h \<Rightarrow> Some h)) else None) of
             Some hints \<Rightarrow> ((hints, HintsCached, False, Some (CachedAfter why)), m)
           | None \<Rightarrow> ((DefaultRootHints, HintsBundled, False, Some (BundledAfter why)), m)))"

definition hints_Refresh :: "(string \<Rightarrow> string \<Rightarrow> bool) \<Rightarrow> HintsManager \<Rightarrow> gotime \<Rightarrow> (string \<times> string) option \<Rightarrow> cacheWrite \<Rightarrow> HintsManager" where
  "hints_Refresh verify m0 now fetched w =
     (case loadRootHints verify m0 now fetched w of
        ((hints, source, verified, reason), m1) \<Rightarrow>
          let m = SetDefaultRootHints hints m1 in
          m\<lparr>hm_source := Some source, hm_verified := verified, hm_addresses := length hints, hm_lastError := reason,
            hm_lastFetch := (case source of HintsLive \<Rightarrow> Some now
              | HintsCached \<Rightarrow> (case hm_disk m of Some (_, t) \<Rightarrow> Some t | None \<Rightarrow> hm_lastFetch m)
              | HintsBundled \<Rightarrow> hm_lastFetch m)\<rparr>)"

section \<open>Parsed hints\<close>

text \<open>A table whose addresses are of the right family.\<close>

definition isV4 :: "string \<Rightarrow> bool" where "isV4 s \<longleftrightarrow> ParseIP s \<noteq> [] \<and> To4 (ParseIP s) \<noteq> []"
definition isV6 :: "string \<Rightarrow> bool" where "isV6 s \<longleftrightarrow> ParseIP s \<noteq> [] \<and> To4 (ParseIP s) = []"

definition table_ok :: "hintsTable \<Rightarrow> bool" where
  "table_ok T \<longleftrightarrow> distinct (ht_names T) \<and> (\<forall>k. list_all isV4 (addrsOf (ht_v4 T) k)) \<and> (\<forall>k. list_all isV6 (addrsOf (ht_v6 T) k))"

lemma addAddr_all: "(\<And>k. list_all P (addrsOf m k)) \<Longrightarrow> P v \<Longrightarrow> list_all P (addrsOf (addAddr o' v m) k)"
  by (auto simp: addAddr_def addrsOf_def split: option.splits)

lemma line_ok: "table_ok T \<Longrightarrow> table_ok (hintsLine l T)"
  using addAddr_all[of isV4] addAddr_all[of isV6] by (simp add: table_ok_def hintsLine_def Let_def isV4_def isV6_def)

lemma fold_ok: "table_ok T \<Longrightarrow> table_ok (fold hintsLine ls T)"
  by (induction ls arbitrary: T) (simp_all add: line_ok)

lemma table_of_ok: "table_ok (hintsTableOf data)"
  unfolding hintsTableOf_def by (rule fold_ok) (simp add: table_ok_def addrsOf_def)

lemma appendNew_props: "distinct out \<Longrightarrow> distinct (appendNew out xs) \<and> (\<exists>ys. appendNew out xs = out @ ys \<and> set ys \<subseteq> set xs)"
proof (induction xs arbitrary: out)
  case (Cons x xs)
  have "distinct (if x \<in> set out then out else out @ [x])" using Cons.prems by simp
  from Cons.IH[OF this] show ?case by (auto simp: appendNew_def split: if_splits)
qed (simp add: appendNew_def)

lemma dialAddrs_of: "(\<And>k. list_all P (addrsOf m k)) \<Longrightarrow> a \<in> set (dialAddrs m names) \<Longrightarrow> \<exists>ip. P ip \<and> a = JoinHostPort ip ''53''"
  by (fastforce simp: dialAddrs_def list_all_iff)

text \<open>Accepted hints are distinct dial addresses on port 53, those of the IPv4 records before those of the IPv6 records, each the
  text of a valid address of its family; and one of them is seen to be an IPv4 address.\<close>

theorem hints_ipv4_first:
  assumes "ParseRootHints data = Inr hints"
  shows "\<exists>as bs. hints = as @ bs \<and> distinct hints \<and> hasIPv4 hints \<and>
    list_all (\<lambda>a. \<exists>ip. isV4 ip \<and> a = JoinHostPort ip ''53'') as \<and> list_all (\<lambda>b. \<exists>ip. isV6 ip \<and> b = JoinHostPort ip ''53'') bs"
proof -
  let ?T = "hintsTableOf data"
  let ?four = "dialAddrs (ht_v4 ?T) (sort (ht_names ?T))" and ?six = "dialAddrs (ht_v6 ?T) (sort (ht_names ?T))"
  have h: "hints = appendNew (appendNew [] ?four) ?six" "hasIPv4 hints"
    using assms by (simp_all add: ParseRootHints_def Let_def split: if_splits)
  obtain as where as: "appendNew [] ?four = as" "distinct as" "set as \<subseteq> set ?four" using appendNew_props[of "[]" ?four] by auto
  then obtain bs where bs: "hints = as @ bs" "distinct hints" "set bs \<subseteq> set ?six" using appendNew_props[of as ?six] h(1) by auto
  have "list_all (\<lambda>a. \<exists>ip. isV4 ip \<and> a = JoinHostPort ip ''53'') as" and "list_all (\<lambda>b. \<exists>ip. isV6 ip \<and> b = JoinHostPort ip ''53'') bs"
    using table_of_ok[of data] dialAddrs_of[of isV4 "ht_v4 ?T"] dialAddrs_of[of isV6 "ht_v6 ?T"] as(3) bs(3) unfolding table_ok_def list_all_iff
    by blast+
  then show ?thesis using bs h(2) by blast
qed

section \<open>A small file of hints\<close>

text \<open>Thirteen servers on as many lines, and the address of one of them on the last line.\<close>

definition letters :: string where "letters = ''abcdefghijklm''"

definition smallHints :: string where
  "smallHints = concat (map (\<lambda>c. ''. 1 NS '' @ [c, CHR 0x0A]) letters) @ ''a 1 A 9.0.0.12''"

definition okSig :: "string \<Rightarrow> string \<Rightarrow> bool" where "okSig sig body \<longleftrightarrow> sig = ''s''"

lemma smallHints_parse: "ParseRootHints smallHints = Inr [''9.0.0.12:53'']" by code_simp

theorem hints_ipv4_first_witness: "ParseRootHints smallHints = Inr [''9.0.0.12:53''] \<and> hasIPv4 [''9.0.0.12:53'']"
  using smallHints_parse hints_ipv4_first[OF smallHints_parse] by blast

section \<open>Trust\<close>

inductive hints_reach :: "(string \<Rightarrow> string \<Rightarrow> bool) \<Rightarrow> HintsManager \<Rightarrow> bool" for verify where
  new: "hints_reach verify (NewHintsManager hasPath interval None)"
| refresh: "hints_reach verify m \<Longrightarrow> hints_reach verify (hints_Refresh verify m now fetched w)"

text \<open>Text that is the start of a signed file.\<close>

definition signedStart :: "(string \<Rightarrow> string \<Rightarrow> bool) \<Rightarrow> string \<Rightarrow> bool" where
  "signedStart verify raw \<longleftrightarrow> (\<exists>data sig. verify sig data \<and> prefix raw data)"

definition hints_trusted :: "(string \<Rightarrow> string \<Rightarrow> bool) \<Rightarrow> HintsManager \<Rightarrow> bool" where
  "hints_trusted verify m \<longleftrightarrow>
     (\<forall>raw t. hm_disk m = Some (raw, t) \<longrightarrow> signedStart verify raw) \<and>
     (hm_activeDefaultHints m = DefaultRootHints \<or> (\<exists>raw. signedStart verify raw \<and> ParseRootHints raw = Inr (hm_activeDefaultHints m))) \<and>
     (hm_verified m \<longrightarrow> (\<exists>data sig. verify sig data \<and> ParseRootHints data = Inr (hm_activeDefaultHints m)))"

lemma parsed_ne: "ParseRootHints data = Inr hints \<Longrightarrow> hints \<noteq> []"
  by (auto simp: ParseRootHints_def Let_def split: if_splits)

lemma live_signed: "liveHints verify fetched = Inr (data, hints) \<Longrightarrow> \<exists>sig. verify sig data \<and> ParseRootHints data = Inr hints"
  by (auto simp: liveHints_def split: option.splits prod.splits if_splits sum.splits)

lemma write_signed:
  assumes "verify sig data" "\<forall>raw t. hm_disk m = Some (raw, t) \<longrightarrow> signedStart verify raw" "writeCache m now data w = Some (raw, t)"
  shows "signedStart verify raw"
proof -
  have "prefix (take n data) data" for n by (metis append_take_drop_id prefixI)
  then have "signedStart verify (take n data)" for n using assms(1) by (auto simp: signedStart_def)
  moreover have "signedStart verify data" using assms(1) by (auto simp: signedStart_def)
  ultimately show ?thesis using assms(2,3) by (auto simp: writeCache_def split: if_splits cacheWrite.splits)
qed

lemma refresh_trusted:
  assumes "hints_trusted verify m"
  shows "hints_trusted verify (hints_Refresh verify m now fetched w)"
proof (cases "liveHints verify fetched")
  case (Inl why)
  then show ?thesis using assms parsed_ne
    by (auto simp: hints_Refresh_def loadRootHints_def hints_trusted_def SetDefaultRootHints_def split: if_splits option.splits sum.splits prod.splits)
next
  case (Inr x)
  then obtain data hints where x: "liveHints verify fetched = Inr (data, hints)" by (cases x) simp
  from live_signed[OF x] obtain sig where s: "verify sig data" "ParseRootHints data = Inr hints" by blast
  have "signedStart verify raw" if "writeCache m now data w = Some (raw, t)" for raw t
    using write_signed[where sig = sig] s(1) assms that by (auto simp: hints_trusted_def)
  moreover have "signedStart verify data" using s(1) by (auto simp: signedStart_def)
  ultimately show ?thesis using s parsed_ne[OF s(2)]
    by (auto simp: hints_Refresh_def loadRootHints_def hints_trusted_def SetDefaultRootHints_def x)
qed

text \<open>A manager that starts without a cache file only ever puts into use the bundled hints or hints read from the start of a file
  whose signature was checked; its status says "verified" only for hints of a whole signed file; and its cache file never holds
  anything but the start of a signed file.\<close>

theorem hints_only_signed:
  assumes "hints_reach verify m"
  shows "(hm_activeDefaultHints m = DefaultRootHints \<or>
      (\<exists>data sig raw. verify sig data \<and> prefix raw data \<and> ParseRootHints raw = Inr (hm_activeDefaultHints m))) \<and>
    (hm_verified m \<longrightarrow> (\<exists>data sig. verify sig data \<and> ParseRootHints data = Inr (hm_activeDefaultHints m))) \<and>
    (hm_disk m = Some (raw, t) \<longrightarrow> (\<exists>data sig. verify sig data \<and> prefix raw data))"
proof -
  have "hints_trusted verify m" using assms
  proof induction
    case (new hasPath interval)
    show ?case by (simp add: hints_trusted_def NewHintsManager_def)
  qed (rule refresh_trusted)
  then show ?thesis by (auto simp: hints_trusted_def signedStart_def)
qed

definition fresh :: HintsManager where "fresh = hints_Refresh okSig (NewHintsManager True 0 None) 1 (Some (smallHints, ''s'')) (TornAt 130)"
definition torn :: HintsManager where "torn = hints_Refresh okSig fresh 2 None NoDirectory"

theorem hints_only_signed_witness:
  "hm_verified fresh \<and> (\<exists>data sig. okSig sig data \<and> ParseRootHints data = Inr (hm_activeDefaultHints fresh))"
proof -
  have "hints_reach okSig fresh" unfolding fresh_def by (intro hints_reach.intros)
  moreover have "hm_verified fresh" by code_simp
  ultimately show ?thesis using hints_only_signed by blast
qed

text \<open>A write of the cache that breaks off leaves the start of a signed file, and the start can parse to an address the signed
  file does not contain: the next refresh that cannot reach the source sends every new resolver there.\<close>

theorem torn_cache_changes_address:
  "hm_activeDefaultHints fresh = [''9.0.0.12:53''] \<and> hm_activeDefaultHints torn = [''9.0.0.1:53'']"
  by code_simp

end
