(* ===== verification/GoDuration.thy ===== *)
theory GoDuration
  imports GoEncoding
begin

text \<open>
  What the program uses of Go's durations in text form: \<^verbatim>\<open>Duration.String\<close> and \<^verbatim>\<open>time.ParseDuration\<close>. The parser scales a fraction with
  floating-point numbers in Go; here the product is exact, which is the same for the at most nine digits a printed duration has. The
  round trip of every non-negative duration is proved.
\<close>

section \<open>Printing\<close>

text \<open>The fraction of \<open>v / 10^prec\<close> without trailing zeros, and the whole part: digits are taken from the right, and none is written
  before the first that is not zero.\<close>

fun fracLoop :: "nat \<Rightarrow> nat \<Rightarrow> string \<Rightarrow> nat \<times> string" where
  "fracLoop 0 v acc = (v, acc)"
| "fracLoop (Suc p) v acc = fracLoop p (v div 10) (if acc \<noteq> [] \<or> v mod 10 \<noteq> 0 then char_of (48 + v mod 10) # acc else acc)"

definition fmtFrac :: "nat \<Rightarrow> nat \<Rightarrow> nat \<times> string" where
  "fmtFrac prec v = (case fracLoop prec v [] of (w, ds) \<Rightarrow> (w, if ds = [] then [] else CHR ''.'' # ds))"

definition microSign :: string where "microSign = [CHR 0xC2, CHR 0xB5]"

definition showUnit :: "nat \<Rightarrow> nat \<Rightarrow> string \<Rightarrow> string" where
  "showUnit prec u unit = (case fmtFrac prec u of (w, frac) \<Rightarrow> dec_digits w @ frac @ unit)"

definition showDuration :: "nat \<Rightarrow> string" where
  "showDuration u =
     (if u = 0 then ''0s''
      else if u < 1000 then showUnit 0 u ''ns''
      else if u < 1000000 then showUnit 3 u (microSign @ ''s'')
      else if u < 1000000000 then showUnit 6 u ''ms''
      else
        case fmtFrac 9 u of
          (secs, frac) \<Rightarrow>
            let mins = secs div 60; tail = dec_digits (secs mod 60) @ frac @ ''s'' in
            if mins = 0 then tail
            else if mins div 60 = 0 then dec_digits (mins mod 60) @ ''m'' @ tail
            else dec_digits (mins div 60) @ ''h'' @ dec_digits (mins mod 60) @ ''m'' @ tail)"

definition Duration_String :: "duration \<Rightarrow> string" where
  "Duration_String d = (if d < 0 then CHR ''-'' # showDuration (nat (- d)) else showDuration (nat d))"

section \<open>Parsing\<close>

definition digitVal :: "char \<Rightarrow> nat" where "digitVal c = of_char c - 48"

text \<open>\<^verbatim>\<open>leadingInt\<close>: nothing on overflow.\<close>

fun leadingInt :: "nat \<Rightarrow> string \<Rightarrow> (nat \<times> string) option" where
  "leadingInt x [] = Some (x, [])"
| "leadingInt x (c # s) =
     (if \<not> is_digit c then Some (x, c # s)
      else if x > 2 ^ 63 div 10 then None
      else let y = x * 10 + digitVal c in if y > 2 ^ 63 then None else leadingInt y s)"

text \<open>\<^verbatim>\<open>leadingFraction\<close>: the digits read as a number, and its scale; digits after an overflow are skipped.\<close>

fun leadingFraction :: "bool \<Rightarrow> nat \<Rightarrow> nat \<Rightarrow> string \<Rightarrow> nat \<times> nat \<times> string" where
  "leadingFraction over x scale [] = (x, scale, [])"
| "leadingFraction over x scale (c # s) =
     (if \<not> is_digit c then (x, scale, c # s)
      else if over \<or> x > (2 ^ 63 - 1) div 10 \<or> x * 10 + digitVal c > 2 ^ 63 then leadingFraction True x scale s
      else leadingFraction False (x * 10 + digitVal c) (scale * 10) s)"

definition unitMap :: "(string, nat) gomap" where
  "unitMap = [(''ns'', 1), (''us'', 1000), (microSign @ ''s'', 1000), ([CHR 0xCE, CHR 0xBC] @ ''s'', 1000), (''ms'', 1000000),
     (''s'', 1000000000), (''m'', 60000000000), (''h'', 3600000000000)]"

definition unitChar :: "char \<Rightarrow> bool" where "unitChar c \<longleftrightarrow> c \<noteq> CHR ''.'' \<and> \<not> is_digit c"

text \<open>One number with its unit: its value and the rest of the text.\<close>

definition parsePiece :: "string \<Rightarrow> (nat \<times> string) option" where
  "parsePiece s =
     (if s = [] \<or> \<not> (hd s = CHR ''.'' \<or> is_digit (hd s)) then None
      else case leadingInt 0 s of
        None \<Rightarrow> None
      | Some (v, s1) \<Rightarrow>
          let pre = (length s1 \<noteq> length s);
              (f, scale, s2, post) = (if s1 \<noteq> [] \<and> hd s1 = CHR ''.''
                then (case leadingFraction False 0 1 (tl s1) of (f, scale, s2) \<Rightarrow> (f, scale, s2, length s2 \<noteq> length (tl s1)))
                else (0, 1, s1, False));
              u = takeWhile unitChar s2
          in if \<not> pre \<and> \<not> post \<or> u = [] then None
             else case map_of unitMap u of
               None \<Rightarrow> None
             | Some unit \<Rightarrow>
                 if v > 2 ^ 63 div unit then None
                 else let w = v * unit + (if f > 0 then f * unit div scale else 0) in
                   if w > 2 ^ 63 then None else Some (w, drop (length u) s2))"

lemma leadingInt_length: "leadingInt x s = Some (v, s') \<Longrightarrow> length s' \<le> length s"
  by (induction x s rule: leadingInt.induct) (auto simp: Let_def split: if_splits)

lemma leadingFraction_length: "leadingFraction b x scale s = (f, sc, s') \<Longrightarrow> length s' \<le> length s"
  by (induction b x scale s rule: leadingFraction.induct) (auto split: if_splits)

lemma parsePiece_shorter:
  assumes "parsePiece s = Some (w, s')"
  shows "length s' < length s"
proof -
  obtain v s1 where v: "leadingInt 0 s = Some (v, s1)" using assms by (auto simp: parsePiece_def split: if_splits option.splits)
  have l1: "length s1 \<le> length s" using leadingInt_length[OF v] .
  show ?thesis
  proof (cases "s1 \<noteq> [] \<and> hd s1 = CHR ''.''")
    case True
    obtain f sc s2 where f: "leadingFraction False 0 1 (tl s1) = (f, sc, s2)" by (metis prod_cases3)
    have "length s2 \<le> length (tl s1)" using leadingFraction_length[OF f] .
    then have "length s2 < length s" using True l1 by (cases s1) auto
    then show ?thesis using assms True f by (auto simp: parsePiece_def v Let_def split: if_splits option.splits)
  next
    case False
    then have "s' = drop (length (takeWhile unitChar s1)) s1 \<and> takeWhile unitChar s1 \<noteq> []"
      using assms by (auto simp: parsePiece_def v Let_def split: if_splits option.splits)
    moreover have "s1 \<noteq> []" using calculation by (cases s1) auto
    ultimately show ?thesis using l1 by (cases "takeWhile unitChar s1"; cases s1) auto
  qed
qed

function parsePieces :: "nat \<Rightarrow> string \<Rightarrow> nat option" where
  "parsePieces d [] = Some d"
| "parsePieces d (c # s) =
     (case parsePiece (c # s) of
        None \<Rightarrow> None
      | Some (w, s') \<Rightarrow> if d + w > 2 ^ 63 then None else parsePieces (d + w) s')"
  by pat_completeness auto
termination by (relation "measure (\<lambda>(d, s). length s)") (auto dest: parsePiece_shorter)

declare parsePieces.simps(2) [simp del]

definition ParseDuration :: "string \<Rightarrow> duration option" where
  "ParseDuration s0 =
     (let neg = HasPrefix s0 ''-''; s = (if neg \<or> HasPrefix s0 ''+'' then drop 1 s0 else s0) in
      if s = ''0'' then Some 0
      else if s = [] then None
      else case parsePieces 0 s of
        None \<Rightarrow> None
      | Some d \<Rightarrow> if neg then Some (- int d) else if d > 2 ^ 63 - 1 then None else Some (int d))"

section \<open>Round trip\<close>

lemma dec_val_step [simp]: "dec_val x (c # s) = (if is_digit c then dec_val (x * 10 + digitVal c) s else None)"
  by (simp add: digitVal_def)

declare dec_val.simps(2) [simp del]

lemma dec_val_ge: "dec_val x s = Some v \<Longrightarrow> x \<le> v"
  by (induction s arbitrary: x) (fastforce split: if_splits)+

lemma dec_val_shift: "dec_val y s = Some a \<Longrightarrow> dec_val (x + y) s = Some (x * 10 ^ length s + a)"
proof (induction s arbitrary: x y)
  case (Cons c s)
  then show ?case using Cons.IH[of "y * 10 + digitVal c" "x * 10"] by (simp add: algebra_simps split: if_splits)
qed simp

lemma dec_val_digit: "k < 10 \<Longrightarrow> dec_val 0 s = Some a \<Longrightarrow> dec_val 0 (char_of (48 + k) # s) = Some (k * 10 ^ length s + a)"
  using dec_val_shift[of 0 s a k] by (simp add: digitVal_def is_digit_def)

lemma leadingInt_digits:
  "dec_val x ds = Some v \<Longrightarrow> v \<le> 2 ^ 63 \<Longrightarrow> rest = [] \<or> \<not> is_digit (hd rest) \<Longrightarrow> leadingInt x (ds @ rest) = Some (v, rest)"
proof (induction ds arbitrary: x)
  case Nil
  then show ?case by (cases rest) auto
next
  case (Cons c ds)
  have c: "is_digit c" and v: "dec_val (x * 10 + digitVal c) ds = Some v" using Cons.prems(1) by (simp_all split: if_splits)
  have le: "x * 10 + digitVal c \<le> 2 ^ 63" using dec_val_ge[OF v] Cons.prems(2) by linarith
  then have "\<not> x > 2 ^ 63 div 10" by auto
  then show ?case using Cons.IH[OF v Cons.prems(2,3)] le c by (simp add: Let_def)
qed

lemma leadingFraction_digits:
  "dec_val x ds = Some v \<Longrightarrow> v < 2 ^ 63 \<Longrightarrow> rest = [] \<or> \<not> is_digit (hd rest) \<Longrightarrow>
    leadingFraction False x sc (ds @ rest) = (v, sc * 10 ^ length ds, rest)"
proof (induction ds arbitrary: x sc)
  case Nil
  then show ?case by (cases rest) auto
next
  case (Cons c ds)
  have c: "is_digit c" and v: "dec_val (x * 10 + digitVal c) ds = Some v" using Cons.prems(1) by (simp_all split: if_splits)
  have le: "x * 10 + digitVal c < 2 ^ 63" using dec_val_ge[OF v] Cons.prems(2) by linarith
  then have "\<not> x > (2 ^ 63 - 1) div 10" by auto
  then show ?case using Cons.IH[OF v Cons.prems(2,3)] le c by (simp add: mult.assoc)
qed

lemma fracLoop_val:
  "fracLoop p v acc = (w, ds) \<Longrightarrow> dec_val 0 acc = Some a \<Longrightarrow> length acc \<le> i \<Longrightarrow>
    w = v div 10 ^ p \<and> length ds \<le> i + p \<and>
    (\<exists>b. dec_val 0 ds = Some b \<and> b * 10 ^ (i + p - length ds) = (v mod 10 ^ p) * 10 ^ i + a * 10 ^ (i - length acc))"
proof (induction p v acc arbitrary: i a rule: fracLoop.induct)
  case (2 p v acc)
  let ?k = "v mod 10"
  have split: "v mod 10 ^ Suc p = 10 * (v div 10 mod 10 ^ p) + ?k" by (simp add: mod_mult2_eq)
  have w: "v div 10 div 10 ^ p = v div 10 ^ Suc p" by (simp add: div_mult2_eq)
  let ?acc = "if acc \<noteq> [] \<or> ?k \<noteq> 0 then char_of (48 + ?k) # acc else acc"
  have "\<exists>a'. dec_val 0 ?acc = Some a' \<and> a' * 10 ^ (Suc i - length ?acc) = ?k * 10 ^ i + a * 10 ^ (i - length acc)"
  proof (cases "acc \<noteq> [] \<or> ?k \<noteq> 0")
    case True
    have "dec_val 0 (char_of (48 + ?k) # acc) = Some (?k * 10 ^ length acc + a)" by (rule dec_val_digit) (use 2 in auto)
    moreover have "?k * 10 ^ length acc * 10 ^ (i - length acc) = ?k * 10 ^ i" using 2(4) by (simp add: mult.assoc flip: power_add)
    ultimately show ?thesis using True by (auto simp: algebra_simps)
  qed (use 2(3) in auto)
  then obtain a' where a': "dec_val 0 ?acc = Some a'" "a' * 10 ^ (Suc i - length ?acc) = ?k * 10 ^ i + a * 10 ^ (i - length acc)" by blast
  have "length ?acc \<le> Suc i" using 2(4) by simp
  from "2.IH"[OF _ a'(1) this] 2(2) w split a'(2) show ?case by (auto simp: algebra_simps)
qed simp

lemma unit_pos: "map_of unitMap un = Some unit \<Longrightarrow> 0 < unit"
  by (auto simp: unitMap_def split: if_splits)

lemma takeWhile_unit: "list_all unitChar un \<Longrightarrow> rest = [] \<or> \<not> unitChar (hd rest) \<Longrightarrow> takeWhile unitChar (un @ rest) = un"
  by (induction un) (cases rest; auto)+

text \<open>One printed number with its unit is read back.\<close>

lemma piece:
  assumes un: "map_of unitMap un = Some unit" "un \<noteq> []" "list_all unitChar un" and rest: "rest = [] \<or> \<not> unitChar (hd rest)"
    and ds: "dec_val 0 ds = Some b" "b < 2 ^ 63" and le: "n * unit + b * unit div 10 ^ length ds \<le> 2 ^ 63"
  shows "parsePiece (dec_digits n @ (if ds = [] then [] else CHR ''.'' # ds) @ un @ rest) = Some (n * unit + b * unit div 10 ^ length ds, rest)"
proof -
  have pos: "0 < unit" using unit_pos[OF un(1)] .
  have nu: "n * unit \<le> 2 ^ 63" using le by linarith
  have "n \<le> n * unit" using pos by simp
  then have n: "n \<le> 2 ^ 63" using nu by linarith
  have q: "\<not> n > 2 ^ 63 div unit" using pos nu by (simp add: less_eq_div_iff_mult_less_eq not_less)
  have hd: "\<not> is_digit (hd un)" using un(2,3) by (cases un) (auto simp: unitChar_def)
  have dd: "dec_digits n \<noteq> []" "is_digit (hd (dec_digits n))" using dec_digits_ne[of n] dec_digits_digits[of "hd (dec_digits n)" n] by auto
  have tw: "takeWhile unitChar (un @ rest) = un" using takeWhile_unit[OF un(3) rest] .
  show ?thesis
  proof (cases "ds = []")
    case True
    then have "b = 0" using ds(1) by simp
    moreover have "leadingInt 0 (dec_digits n @ un @ rest) = Some (n, un @ rest)"
      by (rule leadingInt_digits) (use dec_val_digits n un(2) hd in auto)
    moreover have "hd un \<noteq> CHR ''.''" using un(2,3) by (cases un) (auto simp: unitChar_def)
    ultimately show ?thesis using True un n q nu dd tw pos by (simp add: parsePiece_def Let_def)
  next
    case False
    have "leadingInt 0 (dec_digits n @ CHR ''.'' # ds @ un @ rest) = Some (n, CHR ''.'' # ds @ un @ rest)"
      by (rule leadingInt_digits) (use dec_val_digits n in \<open>auto simp: is_digit_def\<close>)
    moreover have "leadingFraction False 0 1 (ds @ un @ rest) = (b, 10 ^ length ds, un @ rest)"
      using leadingFraction_digits[OF ds, of "un @ rest" 1] hd un(2) by simp
    ultimately show ?thesis using False un n q le dd tw pos by (simp add: parsePiece_def Let_def)
  qed
qed

text \<open>The same for a fraction printed with the precision of its unit.\<close>

lemma fracPiece:
  assumes un: "map_of unitMap un = Some (10 ^ prec)" "un \<noteq> []" "list_all unitChar un" and p: "prec \<le> 9"
    and rest: "rest = [] \<or> \<not> unitChar (hd rest)" and f: "fmtFrac prec u = (w, frac)" and le: "n * 10 ^ prec + u mod 10 ^ prec \<le> 2 ^ 63"
  shows "parsePiece (dec_digits n @ frac @ un @ rest) = Some (n * 10 ^ prec + u mod 10 ^ prec, rest) \<and> w = u div 10 ^ prec"
proof -
  obtain ds where fl: "fracLoop prec u [] = (w, ds)" and fr: "frac = (if ds = [] then [] else CHR ''.'' # ds)"
    using f by (auto simp: fmtFrac_def split: prod.splits)
  obtain b where b: "dec_val 0 ds = Some b" "b * 10 ^ (prec - length ds) = u mod 10 ^ prec" and l: "length ds \<le> prec" and w: "w = u div 10 ^ prec"
    using fracLoop_val[OF fl, of 0 0] by auto
  have "10 ^ prec = 10 ^ (prec - length ds) * (10 :: nat) ^ length ds" using l by (simp flip: power_add)
  then have val: "b * 10 ^ prec div 10 ^ length ds = u mod 10 ^ prec" using b(2) by (simp add: mult.assoc[symmetric])
  have "b \<le> b * 10 ^ (prec - length ds)" by simp
  also have "\<dots> < 10 ^ prec" using b(2) by simp
  also have "\<dots> \<le> (10 :: nat) ^ 9" using p by (intro power_increasing) auto
  finally have "b < 2 ^ 63" by simp
  then show ?thesis using piece[OF un rest b(1), of n] le val fr w by simp
qed

lemma parsePieces_piece:
  "parsePiece (s @ rest) = Some (w, rest) \<Longrightarrow> s \<noteq> [] \<Longrightarrow> d + w \<le> 2 ^ 63 \<Longrightarrow> parsePieces d (s @ rest) = parsePieces (d + w) rest"
  by (cases s) (simp_all add: parsePieces.simps)

lemma pieces_end: "parsePiece s = Some (w, []) \<Longrightarrow> d + w \<le> 2 ^ 63 \<Longrightarrow> parsePieces d s = Some (d + w)"
  by (cases s) (auto simp: parsePieces.simps parsePiece_def)

lemma pieces_more: "parsePiece (dec_digits n @ s) = Some (w, rest) \<Longrightarrow> d + w \<le> 2 ^ 63 \<Longrightarrow> parsePieces d (dec_digits n @ s) = parsePieces (d + w) rest"
  using dec_digits_ne[of n] by (cases "dec_digits n") (auto simp: parsePieces.simps)

lemma digits_0: "dec_digits 0 = ''0''"
  by code_simp

lemma unit_lookup:
  "map_of unitMap ''ns'' = Some (10 ^ 0)" "map_of unitMap (microSign @ ''s'') = Some (10 ^ 3)" "map_of unitMap ''ms'' = Some (10 ^ 6)"
  "map_of unitMap ''s'' = Some (10 ^ 9)" "map_of unitMap ''m'' = Some 60000000000" "map_of unitMap ''h'' = Some 3600000000000"
  by (simp_all add: unitMap_def microSign_def)

lemma unit_chars:
  "list_all unitChar ''ns''" "list_all unitChar (microSign @ ''s'')" "list_all unitChar ''ms''" "list_all unitChar ''s''"
  "list_all unitChar ''m''" "list_all unitChar ''h''"
  by (simp_all add: unitChar_def microSign_def is_digit_def)

lemma digits_stop: "\<not> unitChar (hd (dec_digits n @ s))"
  using dec_digits_ne[of n] dec_digits_digits[of "hd (dec_digits n)" n] by (simp add: unitChar_def)

lemma showUnit_read:
  assumes "map_of unitMap un = Some (10 ^ prec)" "list_all unitChar un" "un \<noteq> []" "prec \<le> 9" "u \<le> 2 ^ 63"
  shows "parsePieces 0 (showUnit prec u un) = Some u"
proof -
  obtain w frac where f: "fmtFrac prec u = (w, frac)" by fastforce
  have d: "u div 10 ^ prec * 10 ^ prec + u mod 10 ^ prec = u" by (rule div_mult_mod_eq)
  have "parsePiece (dec_digits (u div 10 ^ prec) @ frac @ un @ []) = Some (u, []) \<and> w = u div 10 ^ prec"
    using fracPiece[OF assms(1,3,2,4) _ f, of "[]" "u div 10 ^ prec"] assms(5) d by simp
  then show ?thesis using pieces_end[of _ u 0] assms(5) by (simp add: showUnit_def f)
qed

text \<open>A printed whole number of minutes or hours.\<close>

lemma wholePiece:
  assumes "map_of unitMap un = Some unit" "list_all unitChar un" "un \<noteq> []" "n * unit \<le> 2 ^ 63" "d + n * unit \<le> 2 ^ 63"
  shows "parsePieces d (dec_digits n @ un @ dec_digits k @ s) = parsePieces (d + n * unit) (dec_digits k @ s)"
  using piece[OF assms(1,3,2), of "dec_digits k @ s" "[]" 0 n] digits_stop[of k s] pieces_more[of n "un @ dec_digits k @ s"] assms(4,5) by simp

lemma clock_parts:
  "q = m * 60 + s \<Longrightarrow> m = h * 60 + k \<Longrightarrow> h * 3600000000000 + k * 60000000000 + (s * 10 ^ 9 + f) = q * 10 ^ 9 + (f :: nat)"
  by simp

lemma showDuration_read:
  assumes "u \<le> 2 ^ 63"
  shows "parsePieces 0 (showDuration u) = Some u"
proof -
  consider "u = 0" | "0 < u" "u < 1000000000" | "1000000000 \<le> u" by linarith
  then show ?thesis
  proof cases
    case 1
    have "parsePiece (dec_digits 0 @ ''s'') = Some (0, [])" using piece[OF unit_lookup(4) _ unit_chars(4), of "[]" "[]" 0 0] by simp
    then show ?thesis using 1 digits_0 pieces_end[of "''0s''" 0 0] by (simp add: showDuration_def)
  next
    case 2
    then show ?thesis
      using assms showUnit_read[OF unit_lookup(1) unit_chars(1), of u] showUnit_read[OF unit_lookup(2) unit_chars(2), of u]
        showUnit_read[OF unit_lookup(3) unit_chars(3), of u]
      by (simp add: showDuration_def)
  next
    case 3
    obtain secs frac where f: "fmtFrac 9 u = (secs, frac)" by fastforce
    let ?frac = "u mod 10 ^ 9" and ?mins = "u div 10 ^ 9 div 60"
    have le: "u div 10 ^ 9 * 10 ^ 9 + ?frac = u" by (rule div_mult_mod_eq)
    have parts: "?mins div 60 * 3600000000000 + ?mins mod 60 * 60000000000 + (u div 10 ^ 9 mod 60 * 10 ^ 9 + ?frac) = u"
      using clock_parts[of "u div 10 ^ 9" ?mins "u div 10 ^ 9 mod 60" "?mins div 60" "?mins mod 60" ?frac] le by simp
    have "parsePiece (dec_digits (secs mod 60) @ frac @ ''s'' @ []) = Some (secs mod 60 * 10 ^ 9 + ?frac, []) \<and> secs = u div 10 ^ 9"
      using fracPiece[OF unit_lookup(4) _ unit_chars(4) _ _ f, of "[]" "secs mod 60"] fracPiece[OF unit_lookup(4) _ unit_chars(4) _ _ f, of "[]" "0"] parts assms
      by simp
    then have secs: "secs = u div 10 ^ 9"
      and tail: "d + (secs mod 60 * 10 ^ 9 + ?frac) \<le> 2 ^ 63 \<Longrightarrow> parsePieces d (dec_digits (secs mod 60) @ frac @ ''s'') = Some (d + (secs mod 60 * 10 ^ 9 + ?frac))" for d
      using pieces_end by auto
    have sd: "showDuration u = (if ?mins = 0 then dec_digits (secs mod 60) @ frac @ ''s''
        else if ?mins div 60 = 0 then dec_digits (?mins mod 60) @ ''m'' @ dec_digits (secs mod 60) @ frac @ ''s''
        else dec_digits (?mins div 60) @ ''h'' @ dec_digits (?mins mod 60) @ ''m'' @ dec_digits (secs mod 60) @ frac @ ''s'')"
      using 3 f secs by (simp add: showDuration_def Let_def)
    have minutes: "parsePieces d (dec_digits (?mins mod 60) @ ''m'' @ dec_digits (secs mod 60) @ frac @ ''s'') = Some u"
      if "d + ?mins mod 60 * 60000000000 + (secs mod 60 * 10 ^ 9 + ?frac) = u" for d
      using wholePiece[OF unit_lookup(5) unit_chars(5), of "?mins mod 60" d] tail that assms by simp
    show ?thesis
    proof (cases "?mins = 0")
      case True
      then have "secs mod 60 * 10 ^ 9 + ?frac = u" using parts secs by simp
      then show ?thesis using tail[of 0] True sd assms by simp
    next
      case False
      show ?thesis
      proof (cases "?mins div 60 = 0")
        case True
        have "0 + ?mins mod 60 * 60000000000 + (secs mod 60 * 10 ^ 9 + ?frac) = u" using parts unfolding secs True by (simp only: mult_0 add_0)
        from minutes[OF this] show ?thesis using sd True False by simp
      next
        case hours: False
        have "?mins div 60 * 3600000000000 + ?mins mod 60 * 60000000000 + (secs mod 60 * 10 ^ 9 + ?frac) = u" using parts secs by simp
        note m = minutes[OF this]
        have le: "?mins div 60 * 3600000000000 \<le> 2 ^ 63" using parts assms by linarith
        have "parsePieces 0 (showDuration u) = parsePieces (0 + ?mins div 60 * 3600000000000)
            (dec_digits (?mins mod 60) @ ''m'' @ dec_digits (secs mod 60) @ frac @ ''s'')"
          unfolding sd using False hours
          by (simp only: if_False, intro wholePiece[OF unit_lookup(6) unit_chars(6)]) (use le in auto)
        then show ?thesis using m by simp
      qed
    qed
  qed
qed

definition digitStart :: "string \<Rightarrow> bool" where
  "digitStart s \<longleftrightarrow> s \<noteq> [] \<and> is_digit (hd s) \<and> tl s \<noteq> []"

lemma digits_start [simp]: "t \<noteq> [] \<Longrightarrow> digitStart (dec_digits n @ t)"
  using dec_digits_ne[of n] dec_digits_digits[of "hd (dec_digits n)" n] by (simp add: digitStart_def)

lemma showDuration_start: "digitStart (showDuration u)"
proof -
  have "digitStart ''0s''" by (simp add: digitStart_def is_digit_def)
  then show ?thesis by (simp add: showDuration_def showUnit_def Let_def microSign_def case_prod_unfold)
qed

lemma ParseDuration_String:
  assumes "minDuration \<le> d" "d \<le> maxDuration"
  shows "ParseDuration (Duration_String d) = Some d"
proof -
  let ?u = "nat (if d < 0 then - d else d)"
  obtain c s where s: "showDuration ?u = c # s" "is_digit c" "s \<noteq> []"
    using showDuration_start[of ?u] by (cases "showDuration ?u") (auto simp: digitStart_def)
  then have c: "c \<noteq> CHR ''-''" "c \<noteq> CHR ''+''" by (auto simp: is_digit_def)
  have "?u \<le> 2 ^ 63" using assms by (auto simp: minDuration_def maxDuration_def)
  from showDuration_read[OF this] have "parsePieces 0 (c # s) = Some ?u" using s(1) by simp
  then show ?thesis using s c assms by (auto simp: ParseDuration_def Duration_String_def HasPrefix_def Let_def minDuration_def maxDuration_def)
qed

end
