(* ===== verification/Config.thy ===== *)
theory Config
  imports HandlerSettings Dhcp WebAuth GoDuration
begin

text \<open>
  The configuration file of \<^verbatim>\<open>internal/config/config.go\<close>: its sections, the defaults, the validation with the normalisation it does in
  place, and loading and saving. Sections that other theories already have (DHCP, client groups, rewrites, routes, users, tokens, lists)
  are theirs. A rejected configuration is dropped by every caller, so an error carries no configuration. YAML is a parameter.
\<close>

section \<open>Sections\<close>

record UpstreamHealthConfig = uh_Enabled :: bool

record RecursiveConfig = rv_ServerTimeout :: duration

record WarmerConfig =
  wm_Enabled :: bool
  wm_Interval :: duration
  wm_Lookback :: duration
  wm_MaxDomains :: int
  wm_Concurrency :: int

record VPNProxyConfig =
  vx_Enabled :: bool
  vx_Listen :: string
  vx_ListenHTTP :: string
  vx_Fallback :: string
  vx_PublicIP :: string

record VPNProviders =
  vp_NordVPN_Token :: string
  vp_PIA_Username :: string
  vp_PIA_Password :: string

record VPNProfile =
  vf_ID :: string
  vf_Provider :: string
  vf_Region :: string

record VPNRoute =
  vr_Profile :: string
  vr_Domains :: "string list"
  vr_Proxy :: bool

record VPNConfig =
  vc_Enabled :: bool
  vc_Providers :: VPNProviders
  vc_Profiles :: "VPNProfile list"
  vc_Routes :: "VPNRoute list"
  vc_Proxy :: VPNProxyConfig

record RepeatQuerySection = RepeatQueryConfig +
  qc_BlockFor :: duration
  qc_UDPBlockFor :: duration

record RateLimitSection = RateLimitConfig +
  rc_NXGuard :: NXGuardConfig
  rc_RepeatQuery :: RepeatQuerySection

record GeoBlockConfig =
  gb_Enabled :: bool
  gb_Countries :: "string list"
  gb_Allowlist :: "string list"
  gb_IPs :: "string list"
  gb_Honeypots :: "string list"
  gb_TrustUDP :: bool
  gb_HoneypotUDPBlock :: duration
  gb_BaseURL :: string
  gb_AllowASNs :: "string list"
  gb_BlockASNs :: "string list"
  gb_ASNBaseURL :: string
  gb_AutoUpdate :: duration

record AbuseConfig = au_AbuseIPDBKey :: string

text \<open>The server section; its last field is not part of what the web API exchanges, and so it extends that part.\<close>

record serverPayload =
  sv_ListenUDP :: string
  sv_ListenTCP :: string
  sv_ListenDoT :: string
  sv_ListenDoH :: string
  sv_ListenDoH3 :: string
  sv_ListenDoQ :: string
  sv_DoHPath :: string
  sv_WebListen :: string
  sv_WebTLS :: bool
  sv_WebRedirect :: bool
  sv_WebRedirectPort :: int
  sv_TimeoutSec :: int
  sv_UDPSockets :: int
  sv_UDPWorkers :: int
  sv_Padding :: bool
  sv_Cookies :: bool
  sv_DebugPprof :: bool
  sv_MaxTCPConnsPerIP :: int
  sv_MaxHTTPConnsPerIP :: int
  sv_TrustedProxies :: "string list"
  sv_XFFHopLimit :: int
  sv_DoHASNHeader :: bool

record ServerConfig = serverPayload +
  sv_AllowFrom :: "string list"

record dnssecPayload =
  dx_Enabled :: bool
  dx_RequireAD :: bool

record DNSSECConfig = dnssecPayload +
  dx_ValidateLocally :: bool

record CacheConfig =
  ca_Addr :: string
  ca_Password :: string
  ca_DB :: int
  ca_TTL :: duration
  ca_NegativeTTL :: duration
  ca_L1Entries :: int
  ca_ServeStale :: duration
  ca_Prefetch :: bool
  ca_LookupTimeout :: duration
  ca_FailureTTL :: duration

record DNS01Config =
  d1_Provider :: string
  d1_PropagationWait :: int
  d1_CloudflareToken :: string
  d1_DigitalOceanToken :: string
  d1_HetznerToken :: string
  d1_GoDaddyKey :: string
  d1_GoDaddySecret :: string
  d1_AWSAccessKeyID :: string
  d1_AWSSecretAccessKey :: string

record ACMEConfig =
  ae_Enabled :: bool
  ae_Email :: string
  ae_Domains :: "string list"
  ae_Staging :: bool
  ae_HTTP01Port :: int
  ae_RenewBeforeDays :: int
  ae_DNS01 :: DNS01Config

record TLSConfig =
  tl_CertFile :: string
  tl_KeyFile :: string
  tl_GenerateSelfSigned :: bool
  tl_SelfSignedHosts :: "string list"
  tl_CertDir :: string
  tl_ACME :: ACMEConfig

record FilterConfig =
  fc_BlockResponse :: string
  fc_BlockTTL :: "32 word"
  fc_Blocklists :: "ListSpec list"
  fc_Whitelist :: "string list"
  fc_Blacklist :: "string list"
  fc_AutoUpdate :: duration
  fc_CNAMECloakingProtection :: bool

record LogConfig =
  lo_QueryLogFile :: string
  lo_RetentionDays :: int
  lo_Verbose :: bool
  lo_BatchSize :: int

record LoggingConfig =
  lv_Level :: string
  lv_JSON :: bool

record WebConfig =
  wc_Username :: string
  wc_Password :: string
  wc_SessionSecret :: string
  wc_Tokens :: "APIToken list"
  wc_Users :: "WebUser list"

record TunnelConfig =
  tu_Enabled :: bool
  tu_Token :: string
  tu_ConfigFile :: string
  tu_QuickTunnel :: bool
  tu_QuickTunnelURL :: string
  tu_Hostname :: string

record Config =
  cf_Server :: ServerConfig
  cf_Upstreams :: "string list"
  cf_UpstreamMode :: string
  cf_UpstreamRoutes :: "RouteSpec list"
  cf_Cache :: CacheConfig
  cf_TLS :: TLSConfig
  cf_Filter :: FilterConfig
  cf_Log :: LogConfig
  cf_Logging :: LoggingConfig
  cf_Web :: WebConfig
  cf_Tunnel :: TunnelConfig
  cf_Rewrites :: "RewriteSpec list"
  cf_ClientGroups :: "ClientGroup list"
  cf_VPN :: VPNConfig
  cf_RateLimit :: RateLimitSection
  cf_GeoBlock :: GeoBlockConfig
  cf_Abuse :: AbuseConfig
  cf_DNSSEC :: DNSSECConfig
  cf_Warmer :: WarmerConfig
  cf_Recursive :: RecursiveConfig
  cf_DHCP :: DHCPConfig
  cf_UpstreamHealth :: UpstreamHealthConfig

section \<open>Defaults\<close>

definition noACME :: ACMEConfig where
  "noACME = \<lparr>ae_Enabled = False, ae_Email = [], ae_Domains = [], ae_Staging = False, ae_HTTP01Port = 0, ae_RenewBeforeDays = 0,
     ae_DNS01 = \<lparr>d1_Provider = [], d1_PropagationWait = 0, d1_CloudflareToken = [], d1_DigitalOceanToken = [], d1_HetznerToken = [],
       d1_GoDaddyKey = [], d1_GoDaddySecret = [], d1_AWSAccessKeyID = [], d1_AWSSecretAccessKey = []\<rparr>\<rparr>"

definition noVPN :: VPNConfig where
  "noVPN = \<lparr>vc_Enabled = False, vc_Providers = \<lparr>vp_NordVPN_Token = [], vp_PIA_Username = [], vp_PIA_Password = []\<rparr>, vc_Profiles = [], vc_Routes = [],
     vc_Proxy = \<lparr>vx_Enabled = False, vx_Listen = [], vx_ListenHTTP = [], vx_Fallback = [], vx_PublicIP = []\<rparr>\<rparr>"

definition Default :: Config where
  "Default =
     \<lparr>cf_Server = \<lparr>sv_ListenUDP = ''0.0.0.0:53'', sv_ListenTCP = ''0.0.0.0:53'', sv_ListenDoT = ''0.0.0.0:853'', sv_ListenDoH = ''0.0.0.0:443'',
        sv_ListenDoH3 = [], sv_ListenDoQ = ''0.0.0.0:853'', sv_DoHPath = ''/dns-query'', sv_WebListen = ''0.0.0.0:8080'', sv_WebTLS = False,
        sv_WebRedirect = False, sv_WebRedirectPort = 0, sv_TimeoutSec = 5, sv_UDPSockets = 0, sv_UDPWorkers = 0, sv_Padding = False,
        sv_Cookies = False, sv_DebugPprof = False, sv_MaxTCPConnsPerIP = 0, sv_MaxHTTPConnsPerIP = 0, sv_TrustedProxies = [],
        sv_XFFHopLimit = 0, sv_DoHASNHeader = False, sv_AllowFrom = []\<rparr>,
      cf_Upstreams = [''udp://1.1.1.1:53'', ''udp://8.8.8.8:53''], cf_UpstreamMode = ''race'', cf_UpstreamRoutes = [],
      cf_Cache = \<lparr>ca_Addr = ''localhost:6379'', ca_Password = [], ca_DB = 0, ca_TTL = 6 * Hour, ca_NegativeTTL = 60 * Second, ca_L1Entries = 0,
        ca_ServeStale = 5 * Minute, ca_Prefetch = True, ca_LookupTimeout = 150000000, ca_FailureTTL = 5 * Second\<rparr>,
      cf_TLS = \<lparr>tl_CertFile = [], tl_KeyFile = [], tl_GenerateSelfSigned = True, tl_SelfSignedHosts = [''localhost'', ''dns.example.com''],
        tl_CertDir = ''data/certs'', tl_ACME = noACME\<rparr>,
      cf_Filter = \<lparr>fc_BlockResponse = ''nxdomain'', fc_BlockTTL = 600, fc_Blocklists = [], fc_Whitelist = [], fc_Blacklist = [],
        fc_AutoUpdate = 24 * Hour, fc_CNAMECloakingProtection = False\<rparr>,
      cf_Log = \<lparr>lo_QueryLogFile = ''data/querylog.db'', lo_RetentionDays = 30, lo_Verbose = True, lo_BatchSize = 256\<rparr>,
      cf_Logging = \<lparr>lv_Level = [], lv_JSON = False\<rparr>,
      cf_Web = \<lparr>wc_Username = ''admin'', wc_Password = [], wc_SessionSecret = [], wc_Tokens = [], wc_Users = []\<rparr>,
      cf_Tunnel = \<lparr>tu_Enabled = False, tu_Token = [], tu_ConfigFile = [], tu_QuickTunnel = False, tu_QuickTunnelURL = ''http://localhost:8080'',
        tu_Hostname = []\<rparr>,
      cf_Rewrites = [], cf_ClientGroups = [], cf_VPN = noVPN,
      cf_RateLimit = \<lparr>rc_Enabled = False, rc_QPS = 20, rc_Burst = 40, rc_AutoBlock = False, rc_BlockAfter = 3, rc_BlockFor = 10 * Minute,
        rc_NXGuard = \<lparr>nc_Enabled = False, nc_Threshold = 30, nc_Window = 30 * Second, nc_BlockFor = 10 * Minute\<rparr>,
        rc_RepeatQuery = \<lparr>qc_Enabled = False, qc_Threshold = 50, qc_Window = 10 * Second, qc_BlockFor = 10 * Minute, qc_UDPBlockFor = 0\<rparr>\<rparr>,
      cf_GeoBlock = \<lparr>gb_Enabled = False, gb_Countries = [], gb_Allowlist = [], gb_IPs = [], gb_Honeypots = [], gb_TrustUDP = False,
        gb_HoneypotUDPBlock = 0, gb_BaseURL = [], gb_AllowASNs = [], gb_BlockASNs = [], gb_ASNBaseURL = [], gb_AutoUpdate = 168 * Hour\<rparr>,
      cf_Abuse = \<lparr>au_AbuseIPDBKey = []\<rparr>,
      cf_DNSSEC = \<lparr>dx_Enabled = False, dx_RequireAD = True, dx_ValidateLocally = False\<rparr>,
      cf_Warmer = \<lparr>wm_Enabled = False, wm_Interval = 15 * Minute, wm_Lookback = 24 * Hour, wm_MaxDomains = 5000, wm_Concurrency = 8\<rparr>,
      cf_Recursive = \<lparr>rv_ServerTimeout = 0\<rparr>,
      cf_DHCP = \<lparr>dy_Enabled = False, dy_Interface = [], dy_Subnet = [], dy_RangeStart = [], dy_RangeEnd = [], dy_Gateway = [], dy_DNS = [],
        dy_LeaseTime = 24 * Hour, dy_Domain = ''lan'', dy_StaticLeases = [], dy_IPv6 = False, dy_IPv6Prefix = [], dy_IPv6RangeStart = [],
        dy_IPv6RangeEnd = []\<rparr>,
      cf_UpstreamHealth = \<lparr>uh_Enabled = False\<rparr>\<rparr>"


section \<open>Checks\<close>

text \<open>An error names the setting, and the entry of a list.\<close>

datatype cfgError = Bad string | BadEntry string nat | BadDHCP dhcp_error

type_synonym check = "Config \<Rightarrow> cfgError + Config"

definition require :: "(Config \<Rightarrow> bool) \<Rightarrow> string \<Rightarrow> check" where
  "require ok key c = (if ok c then Inr c else Inl (Bad key))"

text \<open>A loop over a list that rejects at the first bad entry and otherwise replaces every entry by its normal form.\<close>

fun mapEntries :: "nat \<Rightarrow> ('a \<Rightarrow> string + 'b) \<Rightarrow> 'a list \<Rightarrow> cfgError + 'b list" where
  "mapEntries i f [] = Inr []"
| "mapEntries i f (x # xs) =
     (case f x of
        Inl key \<Rightarrow> Inl (BadEntry key i)
      | Inr y \<Rightarrow> (case mapEntries (i + 1) f xs of Inl e \<Rightarrow> Inl e | Inr ys \<Rightarrow> Inr (y # ys)))"

text \<open>The same for a loop that only rejects.\<close>

definition checkEntries :: "string \<Rightarrow> ('a \<Rightarrow> bool) \<Rightarrow> (Config \<Rightarrow> 'a list) \<Rightarrow> check" where
  "checkEntries key ok entries c =
     (case mapEntries 0 (\<lambda>x. if ok x then Inr x else Inl key) (entries c) of Inl e \<Rightarrow> Inl e | Inr _ \<Rightarrow> Inr c)"

fun runChecks :: "check list \<Rightarrow> check" where
  "runChecks [] c = Inr c"
| "runChecks (f # fs) c = (case f c of Inl e \<Rightarrow> Inl e | Inr c' \<Rightarrow> runChecks fs c')"

subsection \<open>Helpers\<close>

definition config_normalizeDomain :: "string \<Rightarrow> string" where
  "config_normalizeDomain d0 =
     (let d = TrimSuffix (ToLower (TrimSpace d0)) ''.'' in if d = [] \<or> ContainsAny d [CHR '' '', CHR 0x09] then [] else d)"

definition config_parseASN :: "string \<Rightarrow> string option" where
  "config_parseASN s = map_option (\<lambda>n. ''AS'' @ dec_digits (unat n)) (ParseASN s)"

definition ipOrCIDR :: "string \<Rightarrow> bool" where
  "ipOrCIDR e \<longleftrightarrow> ParseCIDR e \<noteq> None \<or> ParseIP e \<noteq> []"

definition wildHost :: "string \<Rightarrow> bool" where
  "wildHost h \<longleftrightarrow> h = [] \<or> h = ''0.0.0.0'' \<or> h = ''::'' \<or> h = ''*''"

definition sameUDPAddr :: "string \<Rightarrow> string \<Rightarrow> bool" where
  "sameUDPAddr a b =
     (case (SplitHostPort a, SplitHostPort b) of
        (Some (ah, ap), Some (bh, bp)) \<Rightarrow> ap = bp \<and> (ah = bh \<or> wildHost ah \<and> wildHost bh)
      | _ \<Rightarrow> False)"

text \<open>\<^verbatim>\<open>strconv.Atoi\<close> with its error ignored: what it could not read is 0, except that an overflow gives the largest value of its sign.\<close>

definition atoiOr0 :: "string \<Rightarrow> int" where
  "atoiOr0 s =
     (let neg = HasPrefix s ''-''; ds = (if neg \<or> HasPrefix s ''+'' then drop 1 s else s) in
      if ds = [] then 0
      else case dec_val 0 ds of
        None \<Rightarrow> 0
      | Some n \<Rightarrow> if neg then - int (min n (2 ^ 63)) else int (min n (2 ^ 63 - 1)))"

definition webPort :: "string \<Rightarrow> int" where
  "webPort addr = (case SplitHostPort addr of None \<Rightarrow> 0 | Some (_, port) \<Rightarrow> atoiOr0 port)"

definition webURL :: "string \<Rightarrow> bool" where
  "webURL u \<longleftrightarrow> u = [] \<or> HasPrefix u ''http://'' \<or> HasPrefix u ''https://'' \<or> HasPrefix u ''file://''"

subsection \<open>Upstreams and routes\<close>

definition checkMode :: check where
  "checkMode c =
     (if cf_UpstreamMode c = [] then Inr (c\<lparr>cf_UpstreamMode := ''race''\<rparr>)
      else if cf_UpstreamMode c = ''race'' \<or> cf_UpstreamMode c = ''sequential'' then Inr c
      else Inl (Bad ''upstream_mode''))"

definition routeEntry :: "RouteSpec \<Rightarrow> string + RouteSpec" where
  "routeEntry rt =
     (let dom = config_normalizeDomain (rs_Domain rt) in
      if dom = [] then Inl ''upstream_routes.domain''
      else if rs_Upstreams rt = [] then Inl ''upstream_routes.upstreams''
      else if [] \<in> set (rs_Upstreams rt) then Inl ''upstream_routes.empty''
      else Inr (rt\<lparr>rs_Domain := dom\<rparr>))"

definition checkRoutes :: check where
  "checkRoutes c = (case mapEntries 0 routeEntry (cf_UpstreamRoutes c) of Inl e \<Rightarrow> Inl e | Inr rts \<Rightarrow> Inr (c\<lparr>cf_UpstreamRoutes := rts\<rparr>))"

subsection \<open>VPN\<close>

fun profilesError :: "nat \<Rightarrow> string list \<Rightarrow> VPNProfile list \<Rightarrow> cfgError option" where
  "profilesError i seen [] = None"
| "profilesError i seen (p # ps) =
     (if vf_ID p = [] then Some (BadEntry ''vpn.profiles.id'' i)
      else if vf_ID p \<in> set seen then Some (BadEntry ''vpn.profiles.duplicate'' i)
      else if vf_Provider p \<noteq> ''nordvpn'' \<and> vf_Provider p \<noteq> ''pia'' then Some (BadEntry ''vpn.profiles.provider'' i)
      else if vf_Region p = [] then Some (BadEntry ''vpn.profiles.region'' i)
      else profilesError (i + 1) (vf_ID p # seen) ps)"

definition domainEntry :: "string \<Rightarrow> string + string" where
  "domainEntry d = (let dom = config_normalizeDomain d in if dom = [] then Inl ''domain'' else Inr dom)"

definition vpnRouteEntry :: "string list \<Rightarrow> VPNRoute \<Rightarrow> string + VPNRoute" where
  "vpnRouteEntry ids rt =
     (if vr_Profile rt = [] then Inl ''vpn.routes.profile''
      else if vr_Profile rt \<notin> set ids then Inl ''vpn.routes.undefined''
      else if vr_Domains rt = [] then Inl ''vpn.routes.domains''
      else case mapEntries 0 domainEntry (vr_Domains rt) of Inl _ \<Rightarrow> Inl ''vpn.routes.domain'' | Inr ds \<Rightarrow> Inr (rt\<lparr>vr_Domains := ds\<rparr>))"

definition vpnCredsOK :: "VPNConfig \<Rightarrow> bool" where
  "vpnCredsOK v \<longleftrightarrow>
     (vc_Enabled v \<longrightarrow>
       (list_ex (\<lambda>p. vf_Provider p = ''nordvpn'') (vc_Profiles v) \<longrightarrow> vp_NordVPN_Token (vc_Providers v) \<noteq> []) \<and>
       (list_ex (\<lambda>p. vf_Provider p = ''pia'') (vc_Profiles v) \<longrightarrow> vp_PIA_Username (vc_Providers v) \<noteq> [] \<and> vp_PIA_Password (vc_Providers v) \<noteq> []))"

definition validateVPN :: check where
  "validateVPN c =
     (let v = cf_VPN c in
      if \<not> vc_Enabled v \<and> vc_Profiles v = [] \<and> vc_Routes v = [] then Inr c
      else case profilesError 0 [] (vc_Profiles v) of
        Some e \<Rightarrow> Inl e
      | None \<Rightarrow>
          (case mapEntries 0 (vpnRouteEntry (map vf_ID (vc_Profiles v))) (vc_Routes v) of
             Inl e \<Rightarrow> Inl e
           | Inr rts \<Rightarrow> if vpnCredsOK v then Inr (c\<lparr>cf_VPN := v\<lparr>vc_Routes := rts\<rparr>\<rparr>) else Inl (Bad ''vpn.providers'')))"

subsection \<open>Cache, DHCP and listeners\<close>

definition cacheChecks :: "check list" where
  "cacheChecks =
     [require (\<lambda>c. ca_Addr (cf_Cache c) \<noteq> []) ''cache.addr'',
      require (\<lambda>c. ca_L1Entries (cf_Cache c) \<ge> -1) ''cache.l1_entries'',
      require (\<lambda>c. ca_ServeStale (cf_Cache c) \<ge> 0) ''cache.serve_stale'',
      require (\<lambda>c. ca_LookupTimeout (cf_Cache c) \<ge> 0) ''cache.lookup_timeout'',
      require (\<lambda>c. ca_FailureTTL (cf_Cache c) \<ge> 0) ''cache.failure_ttl'',
      require (\<lambda>c. rv_ServerTimeout (cf_Recursive c) \<ge> 0) ''recursive.server_timeout'',
      require (\<lambda>c. lo_BatchSize (cf_Log c) \<ge> 0) ''log.batch_size'',
      require (\<lambda>c. wm_Interval (cf_Warmer c) \<ge> 0) ''warmer.interval'',
      require (\<lambda>c. wm_Lookback (cf_Warmer c) \<ge> 0) ''warmer.lookback'',
      require (\<lambda>c. wm_MaxDomains (cf_Warmer c) \<ge> 0) ''warmer.max_domains'',
      require (\<lambda>c. wm_Concurrency (cf_Warmer c) \<ge> 0) ''warmer.concurrency'']"

definition checkDHCP :: check where
  "checkDHCP c = (case validateDHCP (cf_DHCP c) of None \<Rightarrow> Inr c | Some e \<Rightarrow> Inl (BadDHCP e))"

definition someListener :: "Config \<Rightarrow> bool" where
  "someListener c \<longleftrightarrow> (let s = cf_Server c in
     \<not> (sv_ListenUDP s = [] \<and> sv_ListenTCP s = [] \<and> sv_ListenDoT s = [] \<and> sv_ListenDoH s = [] \<and> sv_ListenDoQ s = []))"

definition trustedProxyOK :: "string \<Rightarrow> bool" where
  "trustedProxyOK e0 \<longleftrightarrow> (let e = TrimSpace e0 in e \<noteq> [] \<and> (ParseIP e \<noteq> [] \<or> ParseCIDR e \<noteq> None))"

definition checkXFF :: check where
  "checkXFF c =
     (if sv_XFFHopLimit (cf_Server c) < 0 then Inl (Bad ''server.xff_hop_limit'')
      else if sv_XFFHopLimit (cf_Server c) = 0 then Inr (c\<lparr>cf_Server := (cf_Server c)\<lparr>sv_XFFHopLimit := 1\<rparr>\<rparr>)
      else Inr c)"

definition logLevelOK :: "string \<Rightarrow> bool" where
  "logLevelOK l \<longleftrightarrow> ToLower (TrimSpace l) \<in> {[], ''debug'', ''info'', ''warn'', ''warning'', ''error''}"

definition serverChecks :: "check list" where
  "serverChecks =
     [require someListener ''server.listeners'',
      require (\<lambda>c. sv_TimeoutSec (cf_Server c) \<ge> 1) ''server.timeout_sec'',
      require (\<lambda>c. sv_UDPSockets (cf_Server c) \<ge> 0) ''server.udp_sockets'',
      require (\<lambda>c. sv_UDPWorkers (cf_Server c) \<ge> 0) ''server.udp_workers'',
      require (\<lambda>c. sv_MaxTCPConnsPerIP (cf_Server c) \<ge> 0) ''server.max_tcp_conns_per_ip'',
      require (\<lambda>c. sv_MaxHTTPConnsPerIP (cf_Server c) \<ge> 0) ''server.max_http_conns_per_ip'',
      checkEntries ''server.trusted_proxies'' trustedProxyOK (\<lambda>c. sv_TrustedProxies (cf_Server c)),
      checkXFF,
      require (\<lambda>c. let s = cf_Server c in \<not> (sv_ListenDoH3 s \<noteq> [] \<and> sv_ListenDoQ s \<noteq> [] \<and> sameUDPAddr (sv_ListenDoH3 s) (sv_ListenDoQ s))) ''server.listen_doh3'',
      require (\<lambda>c. lo_RetentionDays (cf_Log c) \<ge> 1) ''log.retention_days'',
      require (\<lambda>c. logLevelOK (lv_Level (cf_Logging c))) ''logging.level'']"

subsection \<open>Certificates and the web server\<close>

definition dns01OK :: "DNS01Config \<Rightarrow> bool" where
  "dns01OK d \<longleftrightarrow>
     (if d1_Provider d = [] then True
      else if d1_Provider d = ''cloudflare'' then d1_CloudflareToken d \<noteq> []
      else if d1_Provider d = ''digitalocean'' then d1_DigitalOceanToken d \<noteq> []
      else if d1_Provider d = ''hetzner'' then d1_HetznerToken d \<noteq> []
      else if d1_Provider d = ''godaddy'' then d1_GoDaddyKey d \<noteq> [] \<and> d1_GoDaddySecret d \<noteq> []
      else if d1_Provider d = ''route53'' then d1_AWSAccessKeyID d \<noteq> [] \<and> d1_AWSSecretAccessKey d \<noteq> []
      else False)"

definition acmeDefaults :: "ACMEConfig \<Rightarrow> ACMEConfig" where
  "acmeDefaults a =
     a\<lparr>ae_HTTP01Port := (if ae_HTTP01Port a = 0 then 80 else ae_HTTP01Port a),
       ae_RenewBeforeDays := (if ae_RenewBeforeDays a \<le> 0 then 30 else ae_RenewBeforeDays a),
       ae_DNS01 := (if d1_PropagationWait (ae_DNS01 a) = 0 then (ae_DNS01 a)\<lparr>d1_PropagationWait := 60\<rparr> else ae_DNS01 a)\<rparr>"

definition checkACME :: check where
  "checkACME c =
     (let a = tl_ACME (cf_TLS c) in
      if \<not> ae_Enabled a then Inr c
      else if ae_Email a = [] then Inl (Bad ''tls.acme.email'')
      else if ae_Domains a = [] then Inl (Bad ''tls.acme.domains'')
      else if \<not> dns01OK (ae_DNS01 a) then Inl (Bad ''tls.acme.dns01'')
      else Inr (c\<lparr>cf_TLS := (cf_TLS c)\<lparr>tl_ACME := acmeDefaults a\<rparr>\<rparr>))"

definition checkRedirect :: check where
  "checkRedirect c =
     (let s = cf_Server c; p = (if sv_WebRedirectPort s = 0 then 80 else sv_WebRedirectPort s) in
      if \<not> sv_WebRedirect s then Inr c
      else if \<not> sv_WebTLS s then Inl (Bad ''server.web_redirect'')
      else if p = webPort (sv_WebListen s) then Inl (Bad ''server.web_redirect_port'')
      else Inr (c\<lparr>cf_Server := s\<lparr>sv_WebRedirectPort := p\<rparr>\<rparr>))"

definition sharedPort :: "ServerConfig \<Rightarrow> bool" where
  "sharedPort s \<longleftrightarrow> sv_ListenDoH s \<noteq> [] \<and> sv_WebListen s \<noteq> [] \<and> webPort (sv_ListenDoH s) = webPort (sv_WebListen s)"

subsection \<open>Users, rewrites and client groups\<close>

fun usersError :: "nat \<Rightarrow> string list \<Rightarrow> string list \<Rightarrow> WebUser list \<Rightarrow> cfgError option" where
  "usersError i ids names [] = None"
| "usersError i ids names (u # us) =
     (if wu_ID u = [] then Some (BadEntry ''web.users.id'' i)
      else if wu_ID u \<in> set ids then Some (BadEntry ''web.users.duplicate_id'' i)
      else if wu_Username u = [] then Some (BadEntry ''web.users.username'' i)
      else if wu_Username u \<in> set names then Some (BadEntry ''web.users.duplicate_username'' i)
      else if wu_Role u \<noteq> ''admin'' \<and> wu_Role u \<noteq> ''viewer'' then Some (BadEntry ''web.users.role'' i)
      else usersError (i + 1) (wu_ID u # ids) (wu_Username u # names) us)"

definition checkUsers :: check where
  "checkUsers c =
     (let w = cf_Web c in
      case usersError 0 [] [] (wc_Users w) of
        Some e \<Rightarrow> Inl e
      | None \<Rightarrow>
          if wc_Users w \<noteq> [] \<and> \<not> list_ex (\<lambda>u. wu_Role u = ''admin'') (wc_Users w) then Inl (Bad ''web.users.admin'')
          else if wc_Users w = [] \<and> wc_Username w = [] then Inl (Bad ''web.username'')
          else Inr c)"

definition rewriteOK :: "RewriteSpec \<Rightarrow> bool" where
  "rewriteOK rw \<longleftrightarrow> rw_Domain rw \<noteq> [] \<and> ToUpper (rw_Type rw) \<in> {''A'', ''AAAA'', ''CNAME''} \<and> rw_Value rw \<noteq> []"

definition asnEntry :: "string \<Rightarrow> string + string" where
  "asnEntry a = (case config_parseASN a of None \<Rightarrow> Inl ''asn'' | Some n \<Rightarrow> Inr n)"

definition groupCheck :: "ClientGroup \<Rightarrow> string + ClientGroup" where
  "groupCheck g =
     (if cg_CIDRs g = [] \<and> cg_ASNs g = [] then Inl ''client_groups.cidrs''
      else if \<not> list_all ipOrCIDR (cg_CIDRs g) then Inl ''client_groups.cidr''
      else case mapEntries 0 asnEntry (cg_ASNs g) of
        Inl _ \<Rightarrow> Inl ''client_groups.asns''
      | Inr asns \<Rightarrow> if [] \<in> set (cg_Upstreams g) then Inl ''client_groups.upstreams'' else Inr (g\<lparr>cg_ASNs := asns\<rparr>))"

fun groupsCheck :: "nat \<Rightarrow> string list \<Rightarrow> ClientGroup list \<Rightarrow> cfgError + ClientGroup list" where
  "groupsCheck i seen [] = Inr []"
| "groupsCheck i seen (g # gs) =
     (if cg_ID g = [] then Inl (BadEntry ''client_groups.id'' i)
      else if cg_ID g \<in> set seen then Inl (BadEntry ''client_groups.duplicate'' i)
      else case groupCheck g of
        Inl key \<Rightarrow> Inl (BadEntry key i)
      | Inr g' \<Rightarrow> (case groupsCheck (i + 1) (cg_ID g # seen) gs of Inl e \<Rightarrow> Inl e | Inr gs' \<Rightarrow> Inr (g' # gs')))"

definition checkGroups :: check where
  "checkGroups c = (case groupsCheck 0 [] (cf_ClientGroups c) of Inl e \<Rightarrow> Inl e | Inr gs \<Rightarrow> Inr (c\<lparr>cf_ClientGroups := gs\<rparr>))"

definition webChecks :: "check list" where
  "webChecks =
     [checkACME, checkRedirect,
      require (\<lambda>c. sharedPort (cf_Server c) \<longrightarrow> sv_WebTLS (cf_Server c)) ''server.web_listen'',
      require (\<lambda>c. sharedPort (cf_Server c) \<longrightarrow> sv_DoHPath (cf_Server c) \<noteq> []) ''server.doh_path'',
      checkUsers, checkEntries ''rewrites'' rewriteOK cf_Rewrites, checkGroups]"

subsection \<open>Limits and blocking\<close>

definition limitChecks :: "check list" where
  "limitChecks =
     [require (\<lambda>c. let r = cf_RateLimit c in rc_AutoBlock r \<longrightarrow> rc_Enabled r) ''rate_limit.auto_block'',
      require (\<lambda>c. let r = cf_RateLimit c in rc_Enabled r \<longrightarrow> rc_QPS r \<ge> 1) ''rate_limit.qps'',
      require (\<lambda>c. let r = cf_RateLimit c in rc_Enabled r \<longrightarrow> rc_Burst r \<ge> rc_QPS r) ''rate_limit.burst'',
      require (\<lambda>c. let r = cf_RateLimit c in rc_Enabled r \<and> rc_AutoBlock r \<longrightarrow> rc_BlockAfter r \<ge> 1) ''rate_limit.block_after'',
      require (\<lambda>c. let r = cf_RateLimit c in rc_Enabled r \<and> rc_AutoBlock r \<longrightarrow> rc_BlockFor r > 0) ''rate_limit.block_for'',
      require (\<lambda>c. let g = rc_NXGuard (cf_RateLimit c) in nc_Enabled g \<longrightarrow> nc_Threshold g \<ge> 1) ''nxdomain_guard.threshold'',
      require (\<lambda>c. let g = rc_NXGuard (cf_RateLimit c) in nc_Enabled g \<longrightarrow> nc_Window g > 0) ''nxdomain_guard.window'',
      require (\<lambda>c. let g = rc_NXGuard (cf_RateLimit c) in nc_Enabled g \<longrightarrow> nc_BlockFor g > 0) ''nxdomain_guard.block_for'',
      require (\<lambda>c. let g = rc_RepeatQuery (cf_RateLimit c) in qc_Enabled g \<longrightarrow> qc_Threshold g \<ge> 2) ''repeat_query_guard.threshold'',
      require (\<lambda>c. let g = rc_RepeatQuery (cf_RateLimit c) in qc_Enabled g \<longrightarrow> qc_Window g > 0) ''repeat_query_guard.window'',
      require (\<lambda>c. let g = rc_RepeatQuery (cf_RateLimit c) in qc_Enabled g \<longrightarrow> qc_BlockFor g > 0) ''repeat_query_guard.block_for'',
      require (\<lambda>c. let g = rc_RepeatQuery (cf_RateLimit c) in qc_Enabled g \<longrightarrow> qc_UDPBlockFor g \<ge> 0) ''repeat_query_guard.udp_block_for'']"

definition countryEntry :: "string \<Rightarrow> string + string" where
  "countryEntry cc0 = (let cc = ToUpper (TrimSpace cc0) in if length cc = 2 \<and> list_all is_upper cc then Inr cc else Inl ''geo_block.countries'')"

text \<open>A loop that normalises one list of the geo section.\<close>

definition geoEntries :: "(GeoBlockConfig \<Rightarrow> string list) \<Rightarrow> (string list \<Rightarrow> GeoBlockConfig \<Rightarrow> GeoBlockConfig) \<Rightarrow> (string \<Rightarrow> string + string) \<Rightarrow> check" where
  "geoEntries get set' f c =
     (case mapEntries 0 f (get (cf_GeoBlock c)) of Inl e \<Rightarrow> Inl e | Inr xs \<Rightarrow> Inr (c\<lparr>cf_GeoBlock := set' xs (cf_GeoBlock c)\<rparr>))"

definition geoChecks :: "check list" where
  "geoChecks =
     [geoEntries gb_Countries (\<lambda>xs g. g\<lparr>gb_Countries := xs\<rparr>) countryEntry,
      checkEntries ''geo_block.allowlist'' ipOrCIDR (\<lambda>c. gb_Allowlist (cf_GeoBlock c)),
      geoEntries gb_AllowASNs (\<lambda>xs g. g\<lparr>gb_AllowASNs := xs\<rparr>) asnEntry,
      geoEntries gb_BlockASNs (\<lambda>xs g. g\<lparr>gb_BlockASNs := xs\<rparr>) asnEntry,
      require (\<lambda>c. webURL (gb_ASNBaseURL (cf_GeoBlock c))) ''geo_block.asn_base_url'',
      checkEntries ''geo_block.ips'' ipOrCIDR (\<lambda>c. gb_IPs (cf_GeoBlock c)),
      geoEntries gb_Honeypots (\<lambda>xs g. g\<lparr>gb_Honeypots := xs\<rparr>) domainEntry,
      require (\<lambda>c. webURL (gb_BaseURL (cf_GeoBlock c))) ''geo_block.base_url'',
      require (\<lambda>c. gb_AutoUpdate (cf_GeoBlock c) \<ge> 0) ''geo_block.auto_update'',
      require (\<lambda>c. gb_HoneypotUDPBlock (cf_GeoBlock c) \<ge> 0) ''geo_block.honeypot_udp_block'',
      require (\<lambda>c. gb_HoneypotUDPBlock (cf_GeoBlock c) > 0 \<longrightarrow> rc_Enabled (cf_RateLimit c)) ''geo_block.honeypot_udp_block.rate_limit'']"

definition allChecks :: "check list" where
  "allChecks = [require (\<lambda>c. cf_Upstreams c \<noteq> []) ''upstreams'', checkMode, checkRoutes, validateVPN] @ cacheChecks @ [checkDHCP] @
     serverChecks @ webChecks @ limitChecks @ geoChecks"

definition cfg_validate :: check where "cfg_validate = runChecks allChecks"

section \<open>Loading and saving\<close>

text \<open>The password hash, the hash of tokens and the YAML library; \<open>Unmarshal\<close> fills the settings a file leaves out from the given
  configuration.\<close>

record cfgLib =
  GenerateFromPassword :: "string \<Rightarrow> string option"
  Sum256Hex :: "string \<Rightarrow> string"
  yaml_Marshal :: "Config \<Rightarrow> string option"
  yaml_Unmarshal :: "string \<Rightarrow> Config \<Rightarrow> Config option"

definition isBcrypt :: "string \<Rightarrow> bool" where
  "isBcrypt s \<longleftrightarrow> HasPrefix s ''$2a$'' \<or> HasPrefix s ''$2b$'' \<or> HasPrefix s ''$2y$''"

definition isSHA256Hex :: "string \<Rightarrow> bool" where
  "isSHA256Hex s \<longleftrightarrow> length s = 64 \<and> list_all (\<lambda>c. let n = of_char c :: nat in 48 \<le> n \<and> n \<le> 57 \<or> 97 \<le> n \<and> n \<le> 102) s"

definition hashToken :: "cfgLib \<Rightarrow> APIToken \<Rightarrow> APIToken" where
  "hashToken lib t = (if tk_Token t \<noteq> [] \<and> \<not> isSHA256Hex (tk_Token t) then t\<lparr>tk_Token := Sum256Hex lib (tk_Token t)\<rparr> else t)"

text \<open>The loop over the users stops at a password that cannot be hashed.\<close>

fun hashUsers :: "cfgLib \<Rightarrow> WebUser list \<Rightarrow> bool \<times> WebUser list" where
  "hashUsers lib [] = (True, [])"
| "hashUsers lib (u # us) =
     (let next = (\<lambda>u'. case hashUsers lib us of (ok, us') \<Rightarrow> (ok, u' # us')) in
      if wu_Password u \<noteq> [] \<and> \<not> isBcrypt (wu_Password u) then
        (case GenerateFromPassword lib (wu_Password u) of None \<Rightarrow> (False, u # us) | Some h \<Rightarrow> next (u\<lparr>wu_Password := h\<rparr>))
      else next u)"

text \<open>What \<^verbatim>\<open>Save\<close> does to the configuration before it writes: whether every secret could be hashed, and the configuration so far.\<close>

definition hashSecrets :: "cfgLib \<Rightarrow> WebConfig \<Rightarrow> bool \<times> WebConfig" where
  "hashSecrets lib w =
     (let rest = (\<lambda>w. case hashUsers lib (wc_Users w) of
              (ok, us) \<Rightarrow> (ok, w\<lparr>wc_Tokens := map (hashToken lib) (wc_Tokens w), wc_Users := us\<rparr>)) in
      if wc_Password w \<noteq> [] \<and> \<not> isBcrypt (wc_Password w) then
        (case GenerateFromPassword lib (wc_Password w) of None \<Rightarrow> (False, w) | Some h \<Rightarrow> rest (w\<lparr>wc_Password := h\<rparr>))
      else rest w)"

text \<open>The file is what can be read from it. A write makes the directory and the file, or fails before it touches the file, or fails with
  some text in it: \<^verbatim>\<open>os.WriteFile\<close> truncates the file first.\<close>

datatype cfgFile = NotExist | Unreadable | Content string

datatype writeResult = Written | NotWritten | Torn string

definition Save :: "cfgLib \<Rightarrow> writeResult \<Rightarrow> Config \<Rightarrow> cfgFile \<Rightarrow> bool \<times> Config \<times> cfgFile" where
  "Save lib write c file =
     (case hashSecrets lib (cf_Web c) of
        (ok, w) \<Rightarrow>
          let c' = c\<lparr>cf_Web := w\<rparr> in
          if \<not> ok then (False, c', file)
          else case yaml_Marshal lib c' of
            None \<Rightarrow> (False, c', file)
          | Some data \<Rightarrow>
              (case write of Written \<Rightarrow> (True, c', Content data) | NotWritten \<Rightarrow> (False, c', file) | Torn part \<Rightarrow> (False, c', Content part)))"

datatype loadError = CreateFailed | ReadFailed | ParseFailed | RandomFailed | Invalid cfgError

text \<open>The random identifiers a load draws, and how its at most two writes end.\<close>

record loadEnv =
  ld_userID :: "string option"
  ld_secret :: "string option"
  ld_write1 :: writeResult
  ld_write2 :: writeResult

definition needsMigration :: "Config \<Rightarrow> bool" where
  "needsMigration c \<longleftrightarrow> wc_Users (cf_Web c) = [] \<and> wc_Username (cf_Web c) \<noteq> [] \<and> wc_Password (cf_Web c) \<noteq> []"

definition migrateUser :: "cfgLib \<Rightarrow> loadEnv \<Rightarrow> Config \<Rightarrow> cfgFile \<Rightarrow> (Config \<times> cfgFile) option" where
  "migrateUser lib E c file =
     (if \<not> needsMigration c then Some (c, file)
      else case ld_userID E of
        None \<Rightarrow> None
      | Some uid \<Rightarrow>
          let w = cf_Web c;
              u = \<lparr>wu_ID = uid, wu_Username = wc_Username w, wu_Password = wc_Password w, wu_Role = ''admin''\<rparr>
          in case Save lib (ld_write1 E) (c\<lparr>cf_Web := w\<lparr>wc_Users := [u]\<rparr>\<rparr>) file of (_, c', file') \<Rightarrow> Some (c', file'))"

definition withSecret :: "cfgLib \<Rightarrow> loadEnv \<Rightarrow> Config \<Rightarrow> cfgFile \<Rightarrow> (Config \<times> cfgFile) option" where
  "withSecret lib E c file =
     (if wc_SessionSecret (cf_Web c) \<noteq> [] then Some (c, file)
      else case ld_secret E of
        None \<Rightarrow> None
      | Some sec \<Rightarrow>
          (case Save lib (ld_write2 E) (c\<lparr>cf_Web := (cf_Web c)\<lparr>wc_SessionSecret := sec\<rparr>\<rparr>) file of (_, c', file') \<Rightarrow> Some (c', file')))"

definition Load :: "cfgLib \<Rightarrow> loadEnv \<Rightarrow> cfgFile \<Rightarrow> (loadError + Config) \<times> cfgFile" where
  "Load lib E file =
     (case file of
        NotExist \<Rightarrow> (case Save lib (ld_write1 E) Default file of (ok, c, file') \<Rightarrow> (if ok then Inr c else Inl CreateFailed, file'))
      | Unreadable \<Rightarrow> (Inl ReadFailed, file)
      | Content data \<Rightarrow>
          (case yaml_Unmarshal lib data Default of
             None \<Rightarrow> (Inl ParseFailed, file)
           | Some c0 \<Rightarrow>
               (case migrateUser lib E c0 file of
                  None \<Rightarrow> (Inl RandomFailed, file)
                | Some (c1, file1) \<Rightarrow>
                    (case cfg_validate c1 of
                       Inl e \<Rightarrow> (Inl (Invalid e), file1)
                     | Inr c2 \<Rightarrow>
                         (case withSecret lib E c2 file1 of
                            None \<Rightarrow> (Inl RandomFailed, file1)
                          | Some (c3, file3) \<Rightarrow> (Inr c3, file3))))))"

end
