(* ===== verification/ConfigProps.thy ===== *)
theory ConfigProps
  imports Config
begin

text \<open>
  What validation guarantees. A sequence of checks that each settle their own setting and leave the settings of the others alone
  settles the whole configuration (locale \<open>settling\<close>, interpreted for the checks of the file). Passing a check is rewritten into the
  condition it stands for by the collection \<open>passed\<close>.
\<close>

named_theorems passed

section \<open>Sequences of checks\<close>

locale settling =
  fixes checks :: "check list" and Q :: "Config \<Rightarrow> bool"
  assumes settles: "f \<in> set checks \<Longrightarrow> Q c \<Longrightarrow> f c = Inr c' \<Longrightarrow> f c' = Inr c' \<and> Q c'"
    and keeps: "f \<in> set checks \<Longrightarrow> g \<in> set checks \<Longrightarrow> f \<noteq> g \<Longrightarrow> f c = Inr c \<Longrightarrow> g c = Inr c' \<Longrightarrow> f c' = Inr c'"
begin

lemma run_keeps:
  "set fs \<subseteq> set checks \<Longrightarrow> f \<in> set checks \<Longrightarrow> Q c \<Longrightarrow> f c = Inr c \<Longrightarrow> runChecks fs c = Inr c' \<Longrightarrow> f c' = Inr c'"
proof (induction fs arbitrary: c)
  case (Cons g gs)
  obtain c1 where c1: "g c = Inr c1" "runChecks gs c1 = Inr c'" using Cons.prems(5) by (auto split: sum.splits)
  have g: "g \<in> set checks" using Cons.prems(1) by simp
  have "f c1 = Inr c1" using settles[OF g Cons.prems(3) c1(1)] keeps[OF Cons.prems(2) g _ Cons.prems(4) c1(1)] by (cases "f = g") auto
  then show ?case using Cons.IH[of c1] Cons.prems settles[OF g Cons.prems(3) c1(1)] c1(2) by auto
qed simp

lemma run_settles: "set fs \<subseteq> set checks \<Longrightarrow> Q c \<Longrightarrow> runChecks fs c = Inr c' \<Longrightarrow> (\<forall>f \<in> set fs. f c' = Inr c') \<and> Q c'"
proof (induction fs arbitrary: c)
  case (Cons g gs)
  obtain c1 where c1: "g c = Inr c1" "runChecks gs c1 = Inr c'" using Cons.prems(3) by (auto split: sum.splits)
  have g: "g \<in> set checks" and gs: "set gs \<subseteq> set checks" using Cons.prems(1) by auto
  have s: "g c1 = Inr c1" "Q c1" using settles[OF g Cons.prems(2) c1(1)] by auto
  show ?case using run_keeps[OF gs g s(2,1) c1(2)] Cons.IH[OF gs s(2) c1(2)] by auto
qed simp

lemma run_again: "(\<forall>f \<in> set fs. f c = Inr c) \<Longrightarrow> runChecks fs c = Inr c"
  by (induction fs) auto

lemma idem: "Q c \<Longrightarrow> runChecks checks c = Inr c' \<Longrightarrow> runChecks checks c' = Inr c'"
  using run_settles[of checks] run_again by blast

end

lemma runChecks_append: "runChecks (fs @ gs) c = (case runChecks fs c of Inl e \<Rightarrow> Inl e | Inr c' \<Rightarrow> runChecks gs c')"
  by (induction fs arbitrary: c) (auto split: sum.split)

section \<open>Passing a check\<close>

lemma require_Inr [passed]: "require ok key c = Inr c' \<longleftrightarrow> ok c \<and> c' = c"
  by (auto simp: require_def)

lemma bind_Inr: "(case r of Inl e \<Rightarrow> Inl e | Inr x \<Rightarrow> Inr (g x)) = Inr y \<longleftrightarrow> (\<exists>x. r = Inr x \<and> y = g x)"
  by (cases r) auto

lemma mapEntries_Inr [passed]: "mapEntries i f xs = Inr ys \<longleftrightarrow> list_all2 (\<lambda>x y. f x = Inr y) xs ys"
proof (induction xs arbitrary: i ys)
  case (Cons x xs)
  show ?case using Cons.IH by (cases "f x") (auto simp: list_all2_Cons1 bind_Inr)
qed auto

lemma checkEntries_Inr [passed]: "checkEntries key ok entries c = Inr c' \<longleftrightarrow> list_all ok (entries c) \<and> c' = c"
proof -
  have "list_all2 (\<lambda>x y. (if ok x then Inr x else Inl key) = Inr y) xs ys \<longleftrightarrow> list_all ok xs \<and> ys = xs" for xs ys
    by (induction xs arbitrary: ys) (auto simp: list_all2_Cons1 split: if_splits)
  then show ?thesis by (auto simp: checkEntries_def bind_Inr mapEntries_Inr)
qed

text \<open>Entries that are their own normal form.\<close>

lemma entries_settled:
  assumes "list_all2 (\<lambda>x y. f x = Inr y) xs ys" "\<And>x y. x \<in> set xs \<Longrightarrow> f x = Inr y \<Longrightarrow> f y = Inr y"
  shows "list_all2 (\<lambda>x y. f x = Inr y) ys ys"
  using assms by (induction rule: list_all2_induct) auto

lemma checkMode_Inr: "checkMode c = Inr c' \<Longrightarrow> checkMode c' = Inr c' \<and> c' = c\<lparr>cf_UpstreamMode := cf_UpstreamMode c'\<rparr>"
  by (auto simp: checkMode_def split: if_splits)

lemma checkRoutes_Inr [passed]:
  "checkRoutes c = Inr c' \<longleftrightarrow> (\<exists>rts. list_all2 (\<lambda>x y. routeEntry x = Inr y) (cf_UpstreamRoutes c) rts \<and> c' = c\<lparr>cf_UpstreamRoutes := rts\<rparr>)"
  by (simp add: checkRoutes_def bind_Inr mapEntries_Inr)

lemma geoEntries_Inr [passed]:
  "geoEntries get set' f c = Inr c' \<longleftrightarrow> (\<exists>xs. list_all2 (\<lambda>x y. f x = Inr y) (get (cf_GeoBlock c)) xs \<and> c' = c\<lparr>cf_GeoBlock := set' xs (cf_GeoBlock c)\<rparr>)"
  by (simp add: geoEntries_def bind_Inr mapEntries_Inr)

section \<open>Settled settings\<close>

text \<open>A domain whose normal form is its own normal form; two trailing dots are not.\<close>

definition settledDomain :: "string \<Rightarrow> bool" where
  "settledDomain d \<longleftrightarrow> config_normalizeDomain (config_normalizeDomain d) = config_normalizeDomain d"

definition settledDomains :: "Config \<Rightarrow> bool" where
  "settledDomains c \<longleftrightarrow> list_all (\<lambda>rt. settledDomain (rs_Domain rt)) (cf_UpstreamRoutes c) \<and>
     list_all (\<lambda>rt. list_all settledDomain (vr_Domains rt)) (vc_Routes (cf_VPN c)) \<and> list_all settledDomain (gb_Honeypots (cf_GeoBlock c))"

lemma routeEntry_settled: "routeEntry x = Inr y \<Longrightarrow> settledDomain (rs_Domain x) \<Longrightarrow> routeEntry y = Inr y \<and> settledDomain (rs_Domain y)"
  by (auto simp: routeEntry_def Let_def settledDomain_def split: if_splits)

lemma domainEntry_settled: "domainEntry x = Inr y \<Longrightarrow> settledDomain x \<Longrightarrow> domainEntry y = Inr y \<and> settledDomain y"
  by (auto simp: domainEntry_def Let_def settledDomain_def split: if_splits)

text \<open>The same for lists of entries with a condition on each.\<close>

lemma entries_settle:
  assumes "list_all2 (\<lambda>x y. f x = Inr y) xs ys" "\<And>x y. f x = Inr y \<Longrightarrow> P x \<Longrightarrow> f y = Inr y \<and> P y" "list_all P xs"
  shows "list_all2 (\<lambda>x y. f x = Inr y) ys ys \<and> list_all P ys"
  using assms(1,3)
proof (induction rule: list_all2_induct)
  case (Cons x xs y ys)
  then show ?case using assms(2)[of x y] by simp
qed simp

lemma vpnRoute_settled:
  assumes "vpnRouteEntry ids x = Inr y" "list_all settledDomain (vr_Domains x)"
  shows "vpnRouteEntry ids y = Inr y \<and> list_all settledDomain (vr_Domains y)"
proof -
  obtain ds where ds: "mapEntries 0 domainEntry (vr_Domains x) = Inr ds" "y = x\<lparr>vr_Domains := ds\<rparr>"
    and h: "vr_Profile x \<noteq> []" "vr_Profile x \<in> set ids" "vr_Domains x \<noteq> []"
    using assms(1) by (auto simp: vpnRouteEntry_def split: if_splits sum.splits)
  have l: "list_all2 (\<lambda>x y. domainEntry x = Inr y) (vr_Domains x) ds" using ds(1) by (simp add: mapEntries_Inr)
  from entries_settle[OF l domainEntry_settled assms(2)] have "mapEntries 0 domainEntry ds = Inr ds" "list_all settledDomain ds"
    by (simp_all add: mapEntries_Inr)
  moreover have "ds \<noteq> []" using l h(3) by auto
  ultimately show ?thesis using ds(2) h by (simp add: vpnRouteEntry_def)
qed

lemma ParseUint32_digits: "unat n < 2 ^ 32 \<Longrightarrow> ParseUint32 (dec_digits (unat n)) = Some (n :: 32 word)"
  using dec_digits_ne by (simp add: ParseUint32_def dec_val_digits)

lemma upper_digits: "ToUpper (dec_digits n) = dec_digits n"
proof -
  have "upper_char c = c" if "c \<in> set (dec_digits n)" for c using dec_digits_digits[OF that] by (auto simp: upper_char_def is_digit_def)
  then show ?thesis by (simp add: ToUpper_def map_idI)
qed

lemma trim_solid: "s \<noteq> [] \<Longrightarrow> \<not> is_space (hd s) \<Longrightarrow> \<not> is_space (last s) \<Longrightarrow> TrimSpace s = s"
proof -
  assume "s \<noteq> []" "\<not> is_space (hd s)" "\<not> is_space (last s)"
  then have "dropWhile is_space s = s" "dropWhile is_space (rev s) = rev s"
    by (auto simp: dropWhile_eq_self_iff hd_rev)
  then show ?thesis by (simp add: TrimSpace_def)
qed

lemma ParseASN_canonical:
  assumes "n \<noteq> 0"
  shows "ParseASN (''AS'' @ dec_digits (unat (n :: 32 word))) = Some n"
proof -
  have "is_digit (last (dec_digits (unat n)))" using dec_digits_digits[of "last (dec_digits (unat n))" "unat n"] dec_digits_ne[of "unat n"] by simp
  then have "\<not> is_space (last (''AS'' @ dec_digits (unat n)))" using dec_digits_ne[of "unat n"] by (auto simp: is_space_def is_digit_def)
  then have t: "TrimSpace (''AS'' @ dec_digits (unat n)) = ''AS'' @ dec_digits (unat n)" by (intro trim_solid) (auto simp: is_space_def)
  have u: "ToUpper (''AS'' @ dec_digits (unat n)) = ''AS'' @ dec_digits (unat n)" using upper_digits[of "unat n"] by (simp add: ToUpper_def upper_char_def)
  have "unat n < 2 ^ 32" using unsigned_less[where 'a = nat, of n] by simp
  then show ?thesis using t u assms ParseUint32_digits[of n] by (simp add: ParseASN_def TrimPrefix_def HasPrefix_def)
qed

lemma asnEntry_settled: "asnEntry x = Inr y \<Longrightarrow> asnEntry y = Inr y"
proof -
  assume "asnEntry x = Inr y"
  then obtain n where n: "ParseASN x = Some n" "y = ''AS'' @ dec_digits (unat n)" by (auto simp: asnEntry_def config_parseASN_def split: option.splits)
  then have "n \<noteq> 0" by (auto simp: ParseASN_def Let_def split: option.splits if_splits)
  from ParseASN_canonical[OF this] show ?thesis unfolding n(2) asnEntry_def config_parseASN_def by simp
qed

lemma asn_canonical: "asnEntry y = Inr y \<Longrightarrow> ParseASN y \<noteq> None"
  by (auto simp: asnEntry_def config_parseASN_def split: option.splits)

lemma countryEntry_settled: "countryEntry x = Inr y \<Longrightarrow> countryEntry y = Inr y"
proof -
  assume "countryEntry x = Inr y"
  then have y: "length y = 2" "list_all is_upper y" by (auto simp: countryEntry_def Let_def split: if_splits)
  then obtain a b where ab: "y = [a, b]" "is_upper a" "is_upper b" by (auto simp: length_Suc_conv numeral_2_eq_2)
  then have "TrimSpace y = y" "ToUpper y = y" by (auto intro!: trim_solid simp: is_upper_def is_space_def ToUpper_def upper_char_def)
  then show "countryEntry y = Inr y" using y by (simp add: countryEntry_def)
qed

section \<open>What a check changes\<close>

lemma checkXFF_Inr: "checkXFF c = Inr c' \<Longrightarrow> checkXFF c' = Inr c' \<and> c' = c\<lparr>cf_Server := (cf_Server c)\<lparr>sv_XFFHopLimit := sv_XFFHopLimit (cf_Server c')\<rparr>\<rparr>"
proof -
  assume c: "checkXFF c = Inr c'"
  show ?thesis
  proof (cases "sv_XFFHopLimit (cf_Server c) = 0")
    case True
    then have "c' = c\<lparr>cf_Server := (cf_Server c)\<lparr>sv_XFFHopLimit := 1\<rparr>\<rparr>" using c by (simp add: checkXFF_def)
    then show ?thesis by (simp add: checkXFF_def)
  next
    case False
    then have "c' = c" using c by (simp add: checkXFF_def split: if_splits)
    then show ?thesis using c by simp
  qed
qed

lemma acmeDefaults_idem: "acmeDefaults (acmeDefaults a) = acmeDefaults a"
  by (simp add: acmeDefaults_def)

lemma acmeDefaults_fields:
  "ae_Enabled (acmeDefaults a) = ae_Enabled a" "ae_Email (acmeDefaults a) = ae_Email a" "ae_Domains (acmeDefaults a) = ae_Domains a"
  "dns01OK (ae_DNS01 (acmeDefaults a)) = dns01OK (ae_DNS01 a)"
  by (simp_all add: acmeDefaults_def dns01OK_def)

lemma checkACME_Inr: "checkACME c = Inr c' \<Longrightarrow> checkACME c' = Inr c' \<and> c' = c\<lparr>cf_TLS := cf_TLS c'\<rparr>"
  by (auto simp: checkACME_def Let_def acmeDefaults_idem acmeDefaults_fields split: if_splits)

lemma checkRedirect_Inr:
  "checkRedirect c = Inr c' \<Longrightarrow> checkRedirect c' = Inr c' \<and> c' = c\<lparr>cf_Server := (cf_Server c)\<lparr>sv_WebRedirectPort := sv_WebRedirectPort (cf_Server c')\<rparr>\<rparr>"
proof -
  let ?s = "cf_Server c"
  let ?p = "if sv_WebRedirectPort ?s = 0 then 80 else sv_WebRedirectPort ?s"
  assume c: "checkRedirect c = Inr c'"
  show ?thesis
  proof (cases "sv_WebRedirect ?s")
    case True
    then have r: "sv_WebTLS ?s" "?p \<noteq> webPort (sv_WebListen ?s)" and c': "c' = c\<lparr>cf_Server := ?s\<lparr>sv_WebRedirectPort := ?p\<rparr>\<rparr>"
      using c unfolding checkRedirect_def Let_def by (simp_all only: if_False if_True not_True_eq_False split: if_split_asm) auto
    have "?p \<noteq> 0" by simp
    then show ?thesis using True r unfolding c' checkRedirect_def Let_def by simp
  next
    case False
    then have "c' = c" using c by (simp add: checkRedirect_def)
    then show ?thesis using c by simp
  qed
qed

lemma groupCheck_settled: "groupCheck g = Inr g' \<Longrightarrow> groupCheck g' = Inr g' \<and> cg_ID g' = cg_ID g \<and> list_all (\<lambda>a. ParseASN a \<noteq> None) (cg_ASNs g')"
proof -
  assume g: "groupCheck g = Inr g'"
  then obtain asns where a: "mapEntries 0 asnEntry (cg_ASNs g) = Inr asns" "g' = g\<lparr>cg_ASNs := asns\<rparr>"
    by (auto simp: groupCheck_def split: if_splits sum.splits)
  have l: "list_all2 (\<lambda>x y. asnEntry x = Inr y) asns asns"
    using entries_settled[of asnEntry "cg_ASNs g" asns] a(1) asnEntry_settled by (auto simp: mapEntries_Inr)
  then have "list_all (\<lambda>a. ParseASN a \<noteq> None) asns" using asn_canonical by (auto simp: list_all2_same list_all_iff)
  moreover have "mapEntries 0 asnEntry asns = Inr asns" using l by (simp add: mapEntries_Inr)
  moreover have "cg_ASNs g \<noteq> [] \<Longrightarrow> asns \<noteq> []" using a(1) by (auto simp: mapEntries_Inr)
  ultimately show ?thesis using g a by (auto simp: groupCheck_def split: if_splits)
qed

lemma groupsCheck_settled:
  "groupsCheck i seen gs = Inr gs' \<Longrightarrow> groupsCheck i seen gs' = Inr gs' \<and> list_all (\<lambda>g. list_all (\<lambda>a. ParseASN a \<noteq> None) (cg_ASNs g)) gs' \<and>
    distinct (map cg_ID gs') \<and> set (map cg_ID gs') \<inter> set seen = {}"
proof (induction gs arbitrary: i seen gs')
  case (Cons g gs)
  obtain g' gs1 where g: "groupCheck g = Inr g'" "groupsCheck (i + 1) (cg_ID g # seen) gs = Inr gs1" "gs' = g' # gs1"
    using Cons.prems by (auto split: if_splits sum.splits)
  then show ?case using Cons.IH[OF g(2)] groupCheck_settled[OF g(1)] Cons.prems by (auto split: if_splits)
qed simp

lemma checkGroups_Inr: "checkGroups c = Inr c' \<Longrightarrow> checkGroups c' = Inr c' \<and> c' = c\<lparr>cf_ClientGroups := cf_ClientGroups c'\<rparr>"
  using groupsCheck_settled[of 0 "[]"] by (auto simp: checkGroups_def bind_Inr)

definition vpnIdle :: "VPNConfig \<Rightarrow> bool" where
  "vpnIdle v \<longleftrightarrow> \<not> vc_Enabled v \<and> vc_Profiles v = [] \<and> vc_Routes v = []"

lemma validateVPN_Inr:
  assumes "validateVPN c = Inr c'" "list_all (\<lambda>rt. list_all settledDomain (vr_Domains rt)) (vc_Routes (cf_VPN c))"
  shows "validateVPN c' = Inr c' \<and> c' = c\<lparr>cf_VPN := cf_VPN c'\<rparr> \<and> list_all (\<lambda>rt. list_all settledDomain (vr_Domains rt)) (vc_Routes (cf_VPN c'))"
proof (cases "vpnIdle (cf_VPN c)")
  case True
  then show ?thesis using assms by (auto simp: validateVPN_def vpnIdle_def)
next
  case False
  let ?v = "cf_VPN c" and ?f = "vpnRouteEntry (map vf_ID (vc_Profiles (cf_VPN c)))"
  obtain rts where r: "mapEntries 0 ?f (vc_Routes ?v) = Inr rts" "c' = c\<lparr>cf_VPN := ?v\<lparr>vc_Routes := rts\<rparr>\<rparr>"
    and h: "profilesError 0 [] (vc_Profiles ?v) = None" "vpnCredsOK ?v"
    using assms(1) False by (auto simp: validateVPN_def vpnIdle_def Let_def split: if_splits option.splits sum.splits)
  have "list_all2 (\<lambda>x y. ?f x = Inr y) rts rts \<and> list_all (\<lambda>rt. list_all settledDomain (vr_Domains rt)) rts"
    by (rule entries_settle[OF r(1)[unfolded mapEntries_Inr] vpnRoute_settled assms(2)])
  then have "mapEntries 0 ?f rts = Inr rts" "list_all (\<lambda>rt. list_all settledDomain (vr_Domains rt)) rts" by (simp_all add: mapEntries_Inr)
  moreover have "vpnCredsOK (?v\<lparr>vc_Routes := rts\<rparr>)" using h(2) by (simp add: vpnCredsOK_def)
  ultimately show ?thesis using r(2) h(1) by (simp add: validateVPN_def Let_def)
qed

lemma checkRoutes_settled:
  assumes "checkRoutes c = Inr c'" "list_all (\<lambda>rt. settledDomain (rs_Domain rt)) (cf_UpstreamRoutes c)"
  shows "checkRoutes c' = Inr c' \<and> c' = c\<lparr>cf_UpstreamRoutes := cf_UpstreamRoutes c'\<rparr> \<and> list_all (\<lambda>rt. settledDomain (rs_Domain rt)) (cf_UpstreamRoutes c')"
proof -
  obtain rts where r: "list_all2 (\<lambda>x y. routeEntry x = Inr y) (cf_UpstreamRoutes c) rts" "c' = c\<lparr>cf_UpstreamRoutes := rts\<rparr>"
    using assms(1) by (auto simp: checkRoutes_Inr)
  have "list_all2 (\<lambda>x y. routeEntry x = Inr y) rts rts \<and> list_all (\<lambda>rt. settledDomain (rs_Domain rt)) rts"
    by (rule entries_settle[OF r(1) routeEntry_settled assms(2)])
  then have "mapEntries 0 routeEntry rts = Inr rts" "list_all (\<lambda>rt. settledDomain (rs_Domain rt)) rts" by (simp_all add: mapEntries_Inr)
  then show ?thesis using r(2) by (simp add: checkRoutes_def)
qed

section \<open>Checks that do not meet\<close>

text \<open>A check commutes with an update of a setting it does not read.\<close>

definition blindTo :: "(Config \<Rightarrow> Config) \<Rightarrow> check \<Rightarrow> bool" where
  "blindTo upd f \<longleftrightarrow> (\<forall>c. f (upd c) = map_sum id upd (f c))"

lemma blind_require: "(\<And>c. ok (upd c) = ok c) \<Longrightarrow> blindTo upd (require ok key)"
  by (simp add: blindTo_def require_def)

lemma blind_entries: "(\<And>c. entries (upd c) = entries c) \<Longrightarrow> blindTo upd (checkEntries key ok entries)"
  by (simp add: blindTo_def checkEntries_def split: sum.split)

lemma blind_geo: "(\<And>c. cf_GeoBlock (upd c) = cf_GeoBlock c) \<Longrightarrow> (\<And>c x. upd (c\<lparr>cf_GeoBlock := x\<rparr>) = (upd c)\<lparr>cf_GeoBlock := x\<rparr>) \<Longrightarrow> blindTo upd (geoEntries get set' f)"
  by (simp add: blindTo_def geoEntries_def split: sum.split)

lemma blind_geo_other:
  "(\<And>g. get (h g) = get g) \<Longrightarrow> (\<And>g xs. set' xs (h g) = h (set' xs g)) \<Longrightarrow> blindTo (\<lambda>c. c\<lparr>cf_GeoBlock := h (cf_GeoBlock c)\<rparr>) (geoEntries get set' f)"
  by (simp add: blindTo_def geoEntries_def split: sum.split)

lemmas check_lists = allChecks_def cacheChecks_def serverChecks_def webChecks_def limitChecks_def geoChecks_def

lemmas blind = blind_require blind_entries blind_geo

lemmas blind_defs = blindTo_def checkMode_def checkRoutes_def validateVPN_def checkDHCP_def checkXFF_def checkACME_def checkRedirect_def checkUsers_def checkGroups_def

lemma blind_mode: "list_all (\<lambda>f. f = checkMode \<or> blindTo (\<lambda>c. c\<lparr>cf_UpstreamMode := x\<rparr>) f) allChecks"
  unfolding check_lists by (simp add: blind sharedPort_def someListener_def) (simp add: blind_defs Let_def split: sum.split option.split)

lemma blind_routes: "list_all (\<lambda>f. f = checkRoutes \<or> blindTo (\<lambda>c. c\<lparr>cf_UpstreamRoutes := x\<rparr>) f) allChecks"
  unfolding check_lists by (simp add: blind sharedPort_def someListener_def) (simp add: blind_defs Let_def split: sum.split option.split)

lemma blind_vpn: "list_all (\<lambda>f. f = validateVPN \<or> blindTo (\<lambda>c. c\<lparr>cf_VPN := x\<rparr>) f) allChecks"
  unfolding check_lists by (simp add: blind sharedPort_def someListener_def) (simp add: blind_defs Let_def split: sum.split option.split)

lemma blind_tls: "list_all (\<lambda>f. f = checkACME \<or> blindTo (\<lambda>c. c\<lparr>cf_TLS := x\<rparr>) f) allChecks"
  unfolding check_lists by (simp add: blind sharedPort_def someListener_def) (simp add: blind_defs Let_def split: sum.split option.split)

lemma blind_groups: "list_all (\<lambda>f. f = checkGroups \<or> blindTo (\<lambda>c. c\<lparr>cf_ClientGroups := x\<rparr>) f) allChecks"
  unfolding check_lists by (simp add: blind sharedPort_def someListener_def) (simp add: blind_defs Let_def split: sum.split option.split)

lemma blind_xff: "list_all (\<lambda>f. f = checkXFF \<or> blindTo (\<lambda>c. c\<lparr>cf_Server := (cf_Server c)\<lparr>sv_XFFHopLimit := x\<rparr>\<rparr>) f) allChecks"
  unfolding check_lists by (simp add: blind sharedPort_def someListener_def Let_def) (simp add: blind_defs require_def someListener_def sharedPort_def Let_def split: sum.split option.split)

lemma blind_redirect: "list_all (\<lambda>f. f = checkRedirect \<or> blindTo (\<lambda>c. c\<lparr>cf_Server := (cf_Server c)\<lparr>sv_WebRedirectPort := x\<rparr>\<rparr>) f) allChecks"
  unfolding check_lists by (simp add: blind sharedPort_def someListener_def Let_def) (simp add: blind_defs require_def someListener_def sharedPort_def Let_def split: sum.split option.split)

text \<open>The four loops over the lists of the geo section.\<close>

abbreviation countries :: check where "countries \<equiv> geoEntries gb_Countries (\<lambda>xs g. g\<lparr>gb_Countries := xs\<rparr>) countryEntry"
abbreviation allowASNs :: check where "allowASNs \<equiv> geoEntries gb_AllowASNs (\<lambda>xs g. g\<lparr>gb_AllowASNs := xs\<rparr>) asnEntry"
abbreviation blockASNs :: check where "blockASNs \<equiv> geoEntries gb_BlockASNs (\<lambda>xs g. g\<lparr>gb_BlockASNs := xs\<rparr>) asnEntry"
abbreviation honeypots :: check where "honeypots \<equiv> geoEntries gb_Honeypots (\<lambda>xs g. g\<lparr>gb_Honeypots := xs\<rparr>) domainEntry"

lemma blind_countries: "list_all (\<lambda>f. f = countries \<or> blindTo (\<lambda>c. c\<lparr>cf_GeoBlock := (cf_GeoBlock c)\<lparr>gb_Countries := x\<rparr>\<rparr>) f) allChecks"
  unfolding check_lists by (simp add: blind_require blind_entries blind_geo_other sharedPort_def someListener_def) (simp add: blind_defs Let_def split: sum.split option.split)

lemma blind_allow: "list_all (\<lambda>f. f = allowASNs \<or> blindTo (\<lambda>c. c\<lparr>cf_GeoBlock := (cf_GeoBlock c)\<lparr>gb_AllowASNs := x\<rparr>\<rparr>) f) allChecks"
  unfolding check_lists by (simp add: blind_require blind_entries blind_geo_other sharedPort_def someListener_def) (simp add: blind_defs Let_def split: sum.split option.split)

lemma blind_block: "list_all (\<lambda>f. f = blockASNs \<or> blindTo (\<lambda>c. c\<lparr>cf_GeoBlock := (cf_GeoBlock c)\<lparr>gb_BlockASNs := x\<rparr>\<rparr>) f) allChecks"
  unfolding check_lists by (simp add: blind_require blind_entries blind_geo_other sharedPort_def someListener_def) (simp add: blind_defs Let_def split: sum.split option.split)

lemma blind_honeypots: "list_all (\<lambda>f. f = honeypots \<or> blindTo (\<lambda>c. c\<lparr>cf_GeoBlock := (cf_GeoBlock c)\<lparr>gb_Honeypots := x\<rparr>\<rparr>) f) allChecks"
  unfolding check_lists by (simp add: blind_require blind_entries blind_geo_other sharedPort_def someListener_def) (simp add: blind_defs Let_def split: sum.split option.split)

lemma blind_stays:
  assumes "list_all (\<lambda>f. f = g \<or> blindTo upd f) allChecks" "f \<in> set allChecks" "f \<noteq> g" "f c = Inr c" "c' = upd c"
  shows "f c' = Inr c'"
proof -
  have "blindTo upd f" using assms(1-3) by (auto simp: list_all_iff)
  then show ?thesis using assms(4,5) by (simp add: blindTo_def)
qed

section \<open>All checks together\<close>

lemma vpn_effect: "validateVPN c = Inr c' \<Longrightarrow> c' = c\<lparr>cf_VPN := cf_VPN c'\<rparr>"
  by (auto simp: validateVPN_def Let_def split: if_splits option.splits sum.splits)

text \<open>A check changes nothing or a setting of its own.\<close>

definition changes :: "check \<Rightarrow> Config \<Rightarrow> Config \<Rightarrow> bool" where
  "changes g c c' \<longleftrightarrow>
    c' = c \<or> (g = checkMode \<and> c' = c\<lparr>cf_UpstreamMode := cf_UpstreamMode c'\<rparr>) \<or> (g = checkRoutes \<and> c' = c\<lparr>cf_UpstreamRoutes := cf_UpstreamRoutes c'\<rparr>) \<or>
    (g = validateVPN \<and> c' = c\<lparr>cf_VPN := cf_VPN c'\<rparr>) \<or> (g = checkACME \<and> c' = c\<lparr>cf_TLS := cf_TLS c'\<rparr>) \<or>
    (g = checkGroups \<and> c' = c\<lparr>cf_ClientGroups := cf_ClientGroups c'\<rparr>) \<or>
    (g = checkXFF \<and> c' = c\<lparr>cf_Server := (cf_Server c)\<lparr>sv_XFFHopLimit := sv_XFFHopLimit (cf_Server c')\<rparr>\<rparr>) \<or>
    (g = checkRedirect \<and> c' = c\<lparr>cf_Server := (cf_Server c)\<lparr>sv_WebRedirectPort := sv_WebRedirectPort (cf_Server c')\<rparr>\<rparr>) \<or>
    (g = countries \<and> c' = c\<lparr>cf_GeoBlock := (cf_GeoBlock c)\<lparr>gb_Countries := gb_Countries (cf_GeoBlock c')\<rparr>\<rparr>) \<or>
    (g = allowASNs \<and> c' = c\<lparr>cf_GeoBlock := (cf_GeoBlock c)\<lparr>gb_AllowASNs := gb_AllowASNs (cf_GeoBlock c')\<rparr>\<rparr>) \<or>
    (g = blockASNs \<and> c' = c\<lparr>cf_GeoBlock := (cf_GeoBlock c)\<lparr>gb_BlockASNs := gb_BlockASNs (cf_GeoBlock c')\<rparr>\<rparr>) \<or>
    (g = honeypots \<and> c' = c\<lparr>cf_GeoBlock := (cf_GeoBlock c)\<lparr>gb_Honeypots := gb_Honeypots (cf_GeoBlock c')\<rparr>\<rparr>)"

definition tame :: "check \<Rightarrow> bool" where "tame g \<longleftrightarrow> (\<forall>c c'. g c = Inr c' \<longrightarrow> changes g c c')"

lemma tame_quiet: "tame (require ok key)" "tame (checkEntries key ok' entries)" "tame checkDHCP" "tame checkUsers"
  by (auto simp: tame_def changes_def passed checkDHCP_def checkUsers_def Let_def split: option.splits if_splits)

lemma tame_sections: "tame checkMode" "tame validateVPN" "tame checkACME" "tame checkGroups" "tame checkXFF" "tame checkRedirect"
proof -
  show "tame checkMode" unfolding tame_def changes_def using checkMode_Inr by blast
  show "tame validateVPN" unfolding tame_def changes_def using vpn_effect by blast
  show "tame checkACME" unfolding tame_def changes_def using checkACME_Inr by blast
  show "tame checkGroups" unfolding tame_def changes_def using checkGroups_Inr by blast
  show "tame checkXFF" unfolding tame_def changes_def using checkXFF_Inr by blast
  show "tame checkRedirect" unfolding tame_def changes_def using checkRedirect_Inr by blast
qed

lemma tame_lists: "tame checkRoutes" "tame countries" "tame allowASNs" "tame blockASNs" "tame honeypots"
proof -
  have "checkRoutes c = Inr c' \<Longrightarrow> c' = c\<lparr>cf_UpstreamRoutes := cf_UpstreamRoutes c'\<rparr>" for c c' by (auto simp: passed)
  then show "tame checkRoutes" unfolding tame_def changes_def by blast
  have "countries c = Inr c' \<Longrightarrow> c' = c\<lparr>cf_GeoBlock := (cf_GeoBlock c)\<lparr>gb_Countries := gb_Countries (cf_GeoBlock c')\<rparr>\<rparr>" for c c' by (auto simp: passed)
  then show "tame countries" unfolding tame_def changes_def by blast
  have "allowASNs c = Inr c' \<Longrightarrow> c' = c\<lparr>cf_GeoBlock := (cf_GeoBlock c)\<lparr>gb_AllowASNs := gb_AllowASNs (cf_GeoBlock c')\<rparr>\<rparr>" for c c' by (auto simp: passed)
  then show "tame allowASNs" unfolding tame_def changes_def by blast
  have "blockASNs c = Inr c' \<Longrightarrow> c' = c\<lparr>cf_GeoBlock := (cf_GeoBlock c)\<lparr>gb_BlockASNs := gb_BlockASNs (cf_GeoBlock c')\<rparr>\<rparr>" for c c' by (auto simp: passed)
  then show "tame blockASNs" unfolding tame_def changes_def by blast
  have "honeypots c = Inr c' \<Longrightarrow> c' = c\<lparr>cf_GeoBlock := (cf_GeoBlock c)\<lparr>gb_Honeypots := gb_Honeypots (cf_GeoBlock c')\<rparr>\<rparr>" for c c' by (auto simp: passed)
  then show "tame honeypots" unfolding tame_def changes_def by blast
qed

lemma all_tame: "list_all tame allChecks"
  unfolding check_lists by (simp add: tame_quiet tame_sections tame_lists)

lemma check_keeps:
  assumes "f \<in> set allChecks" "g \<in> set allChecks" "f \<noteq> g" "f c = Inr c" "g c = Inr c'"
  shows "f c' = Inr c'"
proof -
  have "changes g c c'" using all_tame assms(2,5) by (auto simp: list_all_iff tame_def)
  then consider (same) "c' = c"
    | (mode) "g = checkMode" "c' = c\<lparr>cf_UpstreamMode := cf_UpstreamMode c'\<rparr>"
    | (routes) "g = checkRoutes" "c' = c\<lparr>cf_UpstreamRoutes := cf_UpstreamRoutes c'\<rparr>"
    | (vpn) "g = validateVPN" "c' = c\<lparr>cf_VPN := cf_VPN c'\<rparr>"
    | (tls) "g = checkACME" "c' = c\<lparr>cf_TLS := cf_TLS c'\<rparr>"
    | (groups) "g = checkGroups" "c' = c\<lparr>cf_ClientGroups := cf_ClientGroups c'\<rparr>"
    | (xff) "g = checkXFF" "c' = c\<lparr>cf_Server := (cf_Server c)\<lparr>sv_XFFHopLimit := sv_XFFHopLimit (cf_Server c')\<rparr>\<rparr>"
    | (redirect) "g = checkRedirect" "c' = c\<lparr>cf_Server := (cf_Server c)\<lparr>sv_WebRedirectPort := sv_WebRedirectPort (cf_Server c')\<rparr>\<rparr>"
    | (countries) "g = countries" "c' = c\<lparr>cf_GeoBlock := (cf_GeoBlock c)\<lparr>gb_Countries := gb_Countries (cf_GeoBlock c')\<rparr>\<rparr>"
    | (allow) "g = allowASNs" "c' = c\<lparr>cf_GeoBlock := (cf_GeoBlock c)\<lparr>gb_AllowASNs := gb_AllowASNs (cf_GeoBlock c')\<rparr>\<rparr>"
    | (block) "g = blockASNs" "c' = c\<lparr>cf_GeoBlock := (cf_GeoBlock c)\<lparr>gb_BlockASNs := gb_BlockASNs (cf_GeoBlock c')\<rparr>\<rparr>"
    | (honeypots) "g = honeypots" "c' = c\<lparr>cf_GeoBlock := (cf_GeoBlock c)\<lparr>gb_Honeypots := gb_Honeypots (cf_GeoBlock c')\<rparr>\<rparr>"
    unfolding changes_def by blast
  then show ?thesis
  proof cases
    case same
    then show ?thesis using assms(4) by simp
  next
    case mode
    show ?thesis using assms(3) mode(1) by (intro blind_stays[OF blind_mode assms(1) _ assms(4) mode(2)]) simp
  next
    case routes
    show ?thesis using assms(3) routes(1) by (intro blind_stays[OF blind_routes assms(1) _ assms(4) routes(2)]) simp
  next
    case vpn
    show ?thesis using assms(3) vpn(1) by (intro blind_stays[OF blind_vpn assms(1) _ assms(4) vpn(2)]) simp
  next
    case tls
    show ?thesis using assms(3) tls(1) by (intro blind_stays[OF blind_tls assms(1) _ assms(4) tls(2)]) simp
  next
    case groups
    show ?thesis using assms(3) groups(1) by (intro blind_stays[OF blind_groups assms(1) _ assms(4) groups(2)]) simp
  next
    case xff
    show ?thesis using assms(3) xff(1) by (intro blind_stays[OF blind_xff assms(1) _ assms(4) xff(2)]) simp
  next
    case redirect
    show ?thesis using assms(3) redirect(1) by (intro blind_stays[OF blind_redirect assms(1) _ assms(4) redirect(2)]) simp
  next
    case countries
    show ?thesis using assms(3) countries(1) by (intro blind_stays[OF blind_countries assms(1) _ assms(4) countries(2)]) simp
  next
    case allow
    show ?thesis using assms(3) allow(1) by (intro blind_stays[OF blind_allow assms(1) _ assms(4) allow(2)]) simp
  next
    case block
    show ?thesis using assms(3) block(1) by (intro blind_stays[OF blind_block assms(1) _ assms(4) block(2)]) simp
  next
    case honeypots
    show ?thesis using assms(3) honeypots(1) by (intro blind_stays[OF blind_honeypots assms(1) _ assms(4) honeypots(2)]) simp
  qed
qed

definition settlesAt :: "check \<Rightarrow> bool" where
  "settlesAt f \<longleftrightarrow> (\<forall>c c'. settledDomains c \<longrightarrow> f c = Inr c' \<longrightarrow> f c' = Inr c' \<and> settledDomains c')"

lemma settlesI:
  "(\<And>c c'. f c = Inr c' \<Longrightarrow> f c' = Inr c' \<and> c' = upd (x c c') c) \<Longrightarrow> (\<And>y c. settledDomains (upd y c) = settledDomains c) \<Longrightarrow> settlesAt f"
  unfolding settlesAt_def by metis

lemma settles_quiet: "settlesAt (require ok key)" "settlesAt (checkEntries key ok' entries)" "settlesAt checkDHCP" "settlesAt checkUsers"
  by (auto simp: settlesAt_def passed checkDHCP_def checkUsers_def Let_def split: option.splits if_splits)

lemma settles_sections: "settlesAt checkMode" "settlesAt checkACME" "settlesAt checkGroups" "settlesAt checkXFF" "settlesAt checkRedirect"
proof -
  show "settlesAt checkMode" by (rule settlesI[where upd = "\<lambda>y c. c\<lparr>cf_UpstreamMode := y\<rparr>", OF checkMode_Inr]) (simp_all add: settledDomains_def)
  show "settlesAt checkACME" by (rule settlesI[where upd = "\<lambda>y c. c\<lparr>cf_TLS := y\<rparr>", OF checkACME_Inr]) (simp_all add: settledDomains_def)
  show "settlesAt checkGroups" by (rule settlesI[where upd = "\<lambda>y c. c\<lparr>cf_ClientGroups := y\<rparr>", OF checkGroups_Inr]) (simp_all add: settledDomains_def)
  show "settlesAt checkXFF"
    by (rule settlesI[where upd = "\<lambda>y c. c\<lparr>cf_Server := (cf_Server c)\<lparr>sv_XFFHopLimit := y\<rparr>\<rparr>", OF checkXFF_Inr]) (simp_all add: settledDomains_def)
  show "settlesAt checkRedirect"
    by (rule settlesI[where upd = "\<lambda>y c. c\<lparr>cf_Server := (cf_Server c)\<lparr>sv_WebRedirectPort := y\<rparr>\<rparr>", OF checkRedirect_Inr]) (simp_all add: settledDomains_def)
qed

lemma settles_domains: "settlesAt checkRoutes" "settlesAt validateVPN"
proof -
  have same: "cf_VPN c' = cf_VPN c \<and> cf_GeoBlock c' = cf_GeoBlock c" if "c' = c\<lparr>cf_UpstreamRoutes := cf_UpstreamRoutes c'\<rparr>" for c c'
    by (subst that, subst (2) that) simp
  show "settlesAt checkRoutes" unfolding settlesAt_def settledDomains_def using checkRoutes_settled same by metis
  have same: "cf_UpstreamRoutes c' = cf_UpstreamRoutes c \<and> cf_GeoBlock c' = cf_GeoBlock c" if "c' = c\<lparr>cf_VPN := cf_VPN c'\<rparr>" for c c'
    by (subst that, subst (2) that) simp
  show "settlesAt validateVPN" unfolding settlesAt_def settledDomains_def using validateVPN_Inr same by metis
qed

text \<open>A loop over a list of the geo section settles when its entries do.\<close>

lemma settles_geo:
  assumes get: "\<And>g xs. get (set' xs g) = xs" "\<And>g xs ys. set' ys (set' xs g) = set' ys g" "\<And>g. set' (get g) g = g"
    and entry: "\<And>x y. f x = Inr y \<Longrightarrow> P x \<Longrightarrow> f y = Inr y \<and> P y"
    and Q: "\<And>g. list_all settledDomain (gb_Honeypots g) \<Longrightarrow> list_all P (get g)"
    and hp: "\<And>g xs. list_all settledDomain (gb_Honeypots g) \<Longrightarrow> list_all P xs \<Longrightarrow> list_all settledDomain (gb_Honeypots (set' xs g))"
  shows "settlesAt (geoEntries get set' f)"
  unfolding settlesAt_def
proof (intro allI impI)
  fix c c' assume q: "settledDomains c" and c: "geoEntries get set' f c = Inr c'"
  then obtain xs where xs: "list_all2 (\<lambda>x y. f x = Inr y) (get (cf_GeoBlock c)) xs" "c' = c\<lparr>cf_GeoBlock := set' xs (cf_GeoBlock c)\<rparr>"
    by (auto simp: geoEntries_Inr)
  have h: "list_all settledDomain (gb_Honeypots (cf_GeoBlock c))" using q by (simp add: settledDomains_def)
  have l: "list_all2 (\<lambda>x y. f x = Inr y) xs xs \<and> list_all P xs" by (rule entries_settle[OF xs(1) entry Q[OF h]])
  then have "mapEntries 0 f xs = Inr xs" by (simp add: mapEntries_Inr)
  then have "geoEntries get set' f c' = Inr c'" using xs(2) get by (simp add: geoEntries_def)
  moreover have "settledDomains c'" using q xs(2) hp[OF h] l by (simp add: settledDomains_def)
  ultimately show "geoEntries get set' f c' = Inr c' \<and> settledDomains c'" by blast
qed

lemma settles_lists: "settlesAt countries" "settlesAt allowASNs" "settlesAt blockASNs" "settlesAt honeypots"
proof -
  show "settlesAt countries" by (rule settles_geo[where P = "\<lambda>_. True"]) (simp_all add: countryEntry_settled list_all_iff)
  show "settlesAt allowASNs" by (rule settles_geo[where P = "\<lambda>_. True"]) (simp_all add: asnEntry_settled list_all_iff)
  show "settlesAt blockASNs" by (rule settles_geo[where P = "\<lambda>_. True"]) (simp_all add: asnEntry_settled list_all_iff)
  show "settlesAt honeypots" by (rule settles_geo[where P = settledDomain, OF _ _ _ domainEntry_settled]) simp_all
qed

lemma all_settle: "list_all settlesAt allChecks"
  unfolding check_lists by (simp add: settles_quiet settles_sections settles_domains settles_lists)

interpretation cfg: settling allChecks settledDomains
proof
  fix f c c' assume "f \<in> set allChecks" "settledDomains c" "f c = Inr c'"
  then show "f c' = Inr c' \<and> settledDomains c'" using all_settle by (auto simp: list_all_iff settlesAt_def)
qed (rule check_keeps)

end
