(* ===== verification/ConfigApi.thy ===== *)
theory ConfigApi
  imports ConfigProps RespCache
begin

text \<open>
  The settings page of the dashboard (\<^verbatim>\<open>internal/api/handlers_config.go\<close>): the JSON shape of the configuration, reading it out, and
  applying an edited one: durations are parsed, accounts merged, the result validated, the parts that can change at run time given to the
  DNS handler, the list manager, the cache, the warmer and the DHCP server, and the file written. A section whose JSON shape has the fields
  of its configuration section is that section; nil and empty lists are not told apart.
\<close>

section \<open>The JSON shape\<close>

record cachePayload =
  ya_Addr :: string
  ya_Password :: string
  ya_DB :: int
  ya_TTL :: string
  ya_NegativeTTL :: string
  ya_L1Entries :: int
  ya_ServeStale :: string
  ya_Prefetch :: bool
  ya_LookupTimeout :: string
  ya_FailureTTL :: string

record warmerPayload =
  yw_Enabled :: bool
  yw_Interval :: string
  yw_Lookback :: string
  yw_MaxDomains :: int
  yw_Concurrency :: int

record filterPayload =
  yf_BlockResponse :: string
  yf_BlockTTL :: "32 word"
  yf_Blocklists :: "ListSpec list"
  yf_Whitelist :: "string list"
  yf_Blacklist :: "string list"
  yf_AutoUpdate :: string
  yf_CNAMECloakingProtection :: bool

record nxGuardPayload =
  yn_Enabled :: bool
  yn_Threshold :: int
  yn_Window :: string
  yn_BlockFor :: string

record repeatQueryPayload =
  yq_Enabled :: bool
  yq_Threshold :: int
  yq_Window :: string
  yq_BlockFor :: string
  yq_UDPBlockFor :: string

record rateLimitPayload =
  yl_Enabled :: bool
  yl_QPS :: int
  yl_Burst :: int
  yl_AutoBlock :: bool
  yl_BlockAfter :: int
  yl_BlockFor :: string
  yl_NXGuard :: nxGuardPayload
  yl_RepeatQuery :: repeatQueryPayload

record geoBlockPayload =
  yg_Enabled :: bool
  yg_Countries :: "string list"
  yg_Allowlist :: "string list"
  yg_IPs :: "string list"
  yg_Honeypots :: "string list"
  yg_AllowASNs :: "string list"
  yg_BlockASNs :: "string list"
  yg_BaseURL :: string
  yg_ASNBaseURL :: string
  yg_AutoUpdate :: string
  yg_TrustUDP :: bool
  yg_HoneypotUDPBlock :: string

record dhcpPayload =
  yd_Enabled :: bool
  yd_Interface :: string
  yd_Subnet :: string
  yd_RangeStart :: string
  yd_RangeEnd :: string
  yd_Gateway :: string
  yd_DNS :: "string list"
  yd_LeaseTime :: string
  yd_Domain :: string
  yd_StaticLeases :: "DHCPStaticLease list"
  yd_IPv6 :: bool
  yd_IPv6Prefix :: string
  yd_IPv6RangeStart :: string
  yd_IPv6RangeEnd :: string

text \<open>A user's password is plain text; empty keeps the stored hash.\<close>

type_synonym userPayload = WebUser

record configPayload =
  pl_Server :: serverPayload
  pl_Upstreams :: "string list"
  pl_UpstreamMode :: string
  pl_UpstreamRoutes :: "RouteSpec list"
  pl_Cache :: cachePayload
  pl_TLS :: TLSConfig
  pl_Filter :: filterPayload
  pl_Log :: LogConfig
  pl_Users :: "userPayload list"
  pl_Tunnel :: TunnelConfig
  pl_Rewrites :: "RewriteSpec list"
  pl_ClientGroups :: "ClientGroup list"
  pl_RateLimit :: rateLimitPayload
  pl_GeoBlock :: geoBlockPayload
  pl_Abuse :: AbuseConfig
  pl_DNSSEC :: dnssecPayload
  pl_Warmer :: warmerPayload
  pl_ServerTimeout :: string
  pl_DHCP :: dhcpPayload
  pl_VPN :: VPNConfig

section \<open>Reading the configuration out\<close>

definition durationOrEmpty :: "duration \<Rightarrow> string" where
  "durationOrEmpty d =
     (if d \<le> 0 then [] else if d mod Hour = 0 then dec_digits (nat (d div Hour)) @ ''h'' else Duration_String d)"

definition cacheOut :: "CacheConfig \<Rightarrow> cachePayload" where
  "cacheOut c = \<lparr>ya_Addr = ca_Addr c, ya_Password = ca_Password c, ya_DB = ca_DB c, ya_TTL = Duration_String (ca_TTL c),
     ya_NegativeTTL = Duration_String (ca_NegativeTTL c), ya_L1Entries = ca_L1Entries c, ya_ServeStale = durationOrEmpty (ca_ServeStale c),
     ya_Prefetch = ca_Prefetch c, ya_LookupTimeout = durationOrEmpty (ca_LookupTimeout c), ya_FailureTTL = durationOrEmpty (ca_FailureTTL c)\<rparr>"

definition warmerOut :: "WarmerConfig \<Rightarrow> warmerPayload" where
  "warmerOut w = \<lparr>yw_Enabled = wm_Enabled w, yw_Interval = durationOrEmpty (wm_Interval w), yw_Lookback = durationOrEmpty (wm_Lookback w),
     yw_MaxDomains = wm_MaxDomains w, yw_Concurrency = wm_Concurrency w\<rparr>"

definition filterOut :: "FilterConfig \<Rightarrow> filterPayload" where
  "filterOut f = \<lparr>yf_BlockResponse = fc_BlockResponse f, yf_BlockTTL = fc_BlockTTL f, yf_Blocklists = fc_Blocklists f,
     yf_Whitelist = fc_Whitelist f, yf_Blacklist = fc_Blacklist f, yf_AutoUpdate = durationOrEmpty (fc_AutoUpdate f),
     yf_CNAMECloakingProtection = fc_CNAMECloakingProtection f\<rparr>"

definition rateLimitOut :: "RateLimitSection \<Rightarrow> rateLimitPayload" where
  "rateLimitOut r =
     (let g = rc_NXGuard r; q = rc_RepeatQuery r in
      \<lparr>yl_Enabled = rc_Enabled r, yl_QPS = rc_QPS r, yl_Burst = rc_Burst r, yl_AutoBlock = rc_AutoBlock r, yl_BlockAfter = rc_BlockAfter r,
       yl_BlockFor = durationOrEmpty (rc_BlockFor r),
       yl_NXGuard = \<lparr>yn_Enabled = nc_Enabled g, yn_Threshold = nc_Threshold g, yn_Window = durationOrEmpty (nc_Window g),
         yn_BlockFor = durationOrEmpty (nc_BlockFor g)\<rparr>,
       yl_RepeatQuery = \<lparr>yq_Enabled = qc_Enabled q, yq_Threshold = qc_Threshold q, yq_Window = durationOrEmpty (qc_Window q),
         yq_BlockFor = durationOrEmpty (qc_BlockFor q), yq_UDPBlockFor = durationOrEmpty (qc_UDPBlockFor q)\<rparr>\<rparr>)"

definition geoOut :: "GeoBlockConfig \<Rightarrow> geoBlockPayload" where
  "geoOut g = \<lparr>yg_Enabled = gb_Enabled g, yg_Countries = gb_Countries g, yg_Allowlist = gb_Allowlist g, yg_IPs = gb_IPs g,
     yg_Honeypots = gb_Honeypots g, yg_AllowASNs = gb_AllowASNs g, yg_BlockASNs = gb_BlockASNs g, yg_BaseURL = gb_BaseURL g,
     yg_ASNBaseURL = gb_ASNBaseURL g, yg_AutoUpdate = durationOrEmpty (gb_AutoUpdate g), yg_TrustUDP = gb_TrustUDP g,
     yg_HoneypotUDPBlock = durationOrEmpty (gb_HoneypotUDPBlock g)\<rparr>"

definition dhcpOut :: "DHCPConfig \<Rightarrow> dhcpPayload" where
  "dhcpOut d = \<lparr>yd_Enabled = dy_Enabled d, yd_Interface = dy_Interface d, yd_Subnet = dy_Subnet d, yd_RangeStart = dy_RangeStart d,
     yd_RangeEnd = dy_RangeEnd d, yd_Gateway = dy_Gateway d, yd_DNS = dy_DNS d, yd_LeaseTime = durationOrEmpty (dy_LeaseTime d),
     yd_Domain = dy_Domain d, yd_StaticLeases = dy_StaticLeases d, yd_IPv6 = dy_IPv6 d, yd_IPv6Prefix = dy_IPv6Prefix d,
     yd_IPv6RangeStart = dy_IPv6RangeStart d, yd_IPv6RangeEnd = dy_IPv6RangeEnd d\<rparr>"

definition userOut :: "WebUser \<Rightarrow> userPayload" where
  "userOut u = u\<lparr>wu_Password := []\<rparr>"

definition payloadFromConfig :: "Config \<Rightarrow> configPayload" where
  "payloadFromConfig c =
     \<lparr>pl_Server = serverPayload.truncate (cf_Server c), pl_Upstreams = cf_Upstreams c, pl_UpstreamMode = cf_UpstreamMode c,
      pl_UpstreamRoutes = cf_UpstreamRoutes c, pl_Cache = cacheOut (cf_Cache c), pl_TLS = cf_TLS c, pl_Filter = filterOut (cf_Filter c),
      pl_Log = cf_Log c, pl_Users = map userOut (wc_Users (cf_Web c)), pl_Tunnel = cf_Tunnel c, pl_Rewrites = cf_Rewrites c,
      pl_ClientGroups = cf_ClientGroups c, pl_RateLimit = rateLimitOut (cf_RateLimit c), pl_GeoBlock = geoOut (cf_GeoBlock c),
      pl_Abuse = cf_Abuse c, pl_DNSSEC = dnssecPayload.truncate (cf_DNSSEC c), pl_Warmer = warmerOut (cf_Warmer c),
      pl_ServerTimeout = durationOrEmpty (rv_ServerTimeout (cf_Recursive c)), pl_DHCP = dhcpOut (cf_DHCP c), pl_VPN = cf_VPN c\<rparr>"

section \<open>Building the configuration\<close>

definition parseDur :: "string \<Rightarrow> duration option" where
  "parseDur s = (if TrimSpace s = [] then Some 0 else ParseDuration s)"

text \<open>The durations in the order they are parsed; the first one that does not parse ends the request.\<close>

definition durations :: "configPayload \<Rightarrow> (string \<times> string) list" where
  "durations p =
     (let c = pl_Cache p; r = pl_RateLimit p; n = yl_NXGuard r; q = yl_RepeatQuery r in
      [(''cache.ttl'', ya_TTL c), (''cache.negative_ttl'', ya_NegativeTTL c), (''cache.serve_stale'', ya_ServeStale c),
       (''cache.lookup_timeout'', ya_LookupTimeout c), (''cache.failure_ttl'', ya_FailureTTL c),
       (''recursive.server_timeout'', pl_ServerTimeout p), (''filter.auto_update'', yf_AutoUpdate (pl_Filter p)),
       (''rate_limit.block_for'', yl_BlockFor r), (''rate_limit.nxdomain_guard.window'', yn_Window n),
       (''rate_limit.nxdomain_guard.block_for'', yn_BlockFor n), (''rate_limit.repeat_query_guard.window'', yq_Window q),
       (''rate_limit.repeat_query_guard.block_for'', yq_BlockFor q), (''rate_limit.repeat_query_guard.udp_block_for'', yq_UDPBlockFor q),
       (''geo_block.auto_update'', yg_AutoUpdate (pl_GeoBlock p)), (''geo_block.honeypot_udp_block'', yg_HoneypotUDPBlock (pl_GeoBlock p)),
       (''dhcp.lease_time'', yd_LeaseTime (pl_DHCP p)), (''warmer.interval'', yw_Interval (pl_Warmer p)),
       (''warmer.lookback'', yw_Lookback (pl_Warmer p))])"

definition badDuration :: "configPayload \<Rightarrow> string option" where
  "badDuration p = map_option fst (List.find (\<lambda>(key, s). parseDur s = None) (durations p))"

text \<open>The value of a duration that parsed.\<close>

definition dur :: "string \<Rightarrow> duration" where
  "dur s = (case parseDur s of Some d \<Rightarrow> d | None \<Rightarrow> 0)"

definition cacheIn :: "cachePayload \<Rightarrow> CacheConfig" where
  "cacheIn c = \<lparr>ca_Addr = ya_Addr c, ca_Password = ya_Password c, ca_DB = ya_DB c, ca_TTL = dur (ya_TTL c),
     ca_NegativeTTL = dur (ya_NegativeTTL c), ca_L1Entries = ya_L1Entries c, ca_ServeStale = dur (ya_ServeStale c),
     ca_Prefetch = ya_Prefetch c, ca_LookupTimeout = dur (ya_LookupTimeout c), ca_FailureTTL = dur (ya_FailureTTL c)\<rparr>"

definition warmerIn :: "warmerPayload \<Rightarrow> WarmerConfig" where
  "warmerIn w = \<lparr>wm_Enabled = yw_Enabled w, wm_Interval = dur (yw_Interval w), wm_Lookback = dur (yw_Lookback w),
     wm_MaxDomains = yw_MaxDomains w, wm_Concurrency = yw_Concurrency w\<rparr>"

definition filterIn :: "filterPayload \<Rightarrow> FilterConfig" where
  "filterIn f = \<lparr>fc_BlockResponse = yf_BlockResponse f, fc_BlockTTL = yf_BlockTTL f, fc_Blocklists = yf_Blocklists f,
     fc_Whitelist = yf_Whitelist f, fc_Blacklist = yf_Blacklist f, fc_AutoUpdate = dur (yf_AutoUpdate f),
     fc_CNAMECloakingProtection = yf_CNAMECloakingProtection f\<rparr>"

text \<open>Automatic blocking without values for it blocks for ten minutes after three violations.\<close>

definition rateLimitIn :: "rateLimitPayload \<Rightarrow> RateLimitSection" where
  "rateLimitIn r =
     (let n = yl_NXGuard r; q = yl_RepeatQuery r; blockFor = dur (yl_BlockFor r) in
      \<lparr>rc_Enabled = yl_Enabled r, rc_QPS = yl_QPS r, rc_Burst = yl_Burst r, rc_AutoBlock = yl_AutoBlock r,
       rc_BlockAfter = (if yl_AutoBlock r \<and> yl_BlockAfter r < 1 then 3 else yl_BlockAfter r),
       rc_BlockFor = (if yl_AutoBlock r \<and> blockFor \<le> 0 then 10 * Minute else blockFor),
       rc_NXGuard = \<lparr>nc_Enabled = yn_Enabled n, nc_Threshold = yn_Threshold n, nc_Window = dur (yn_Window n), nc_BlockFor = dur (yn_BlockFor n)\<rparr>,
       rc_RepeatQuery = \<lparr>qc_Enabled = yq_Enabled q, qc_Threshold = yq_Threshold q, qc_Window = dur (yq_Window q),
         qc_BlockFor = dur (yq_BlockFor q), qc_UDPBlockFor = dur (yq_UDPBlockFor q)\<rparr>\<rparr>)"

definition geoIn :: "geoBlockPayload \<Rightarrow> GeoBlockConfig" where
  "geoIn g = \<lparr>gb_Enabled = yg_Enabled g, gb_Countries = yg_Countries g, gb_Allowlist = yg_Allowlist g, gb_IPs = yg_IPs g,
     gb_Honeypots = yg_Honeypots g, gb_TrustUDP = yg_TrustUDP g, gb_HoneypotUDPBlock = dur (yg_HoneypotUDPBlock g),
     gb_BaseURL = yg_BaseURL g, gb_AllowASNs = yg_AllowASNs g, gb_BlockASNs = yg_BlockASNs g, gb_ASNBaseURL = yg_ASNBaseURL g,
     gb_AutoUpdate = dur (yg_AutoUpdate g)\<rparr>"

definition dhcpIn :: "dhcpPayload \<Rightarrow> DHCPConfig" where
  "dhcpIn d = \<lparr>dy_Enabled = yd_Enabled d, dy_Interface = yd_Interface d, dy_Subnet = yd_Subnet d, dy_RangeStart = yd_RangeStart d,
     dy_RangeEnd = yd_RangeEnd d, dy_Gateway = yd_Gateway d, dy_DNS = yd_DNS d, dy_LeaseTime = dur (yd_LeaseTime d), dy_Domain = yd_Domain d,
     dy_StaticLeases = yd_StaticLeases d, dy_IPv6 = yd_IPv6 d, dy_IPv6Prefix = yd_IPv6Prefix d, dy_IPv6RangeStart = yd_IPv6RangeStart d,
     dy_IPv6RangeEnd = yd_IPv6RangeEnd d\<rparr>"

text \<open>The configuration of a payload whose durations parse, with the merged accounts and the session secret. Settings the payload does not
  carry have Go's zero value.\<close>

definition configFromPayload :: "configPayload \<Rightarrow> WebUser list \<Rightarrow> string \<Rightarrow> Config" where
  "configFromPayload p users sec =
     \<lparr>cf_Server = serverPayload.extend (pl_Server p) (ServerConfig.fields []), cf_Upstreams = pl_Upstreams p, cf_UpstreamMode = pl_UpstreamMode p,
      cf_UpstreamRoutes = pl_UpstreamRoutes p, cf_Cache = cacheIn (pl_Cache p), cf_TLS = pl_TLS p, cf_Filter = filterIn (pl_Filter p),
      cf_Log = pl_Log p, cf_Logging = \<lparr>lv_Level = [], lv_JSON = False\<rparr>,
      cf_Web = \<lparr>wc_Username = [], wc_Password = [], wc_SessionSecret = sec, wc_Tokens = [], wc_Users = users\<rparr>,
      cf_Tunnel = pl_Tunnel p, cf_Rewrites = pl_Rewrites p, cf_ClientGroups = pl_ClientGroups p, cf_VPN = pl_VPN p,
      cf_RateLimit = rateLimitIn (pl_RateLimit p), cf_GeoBlock = geoIn (pl_GeoBlock p), cf_Abuse = pl_Abuse p,
      cf_DNSSEC = dnssecPayload.extend (pl_DNSSEC p) (DNSSECConfig.fields False), cf_Warmer = warmerIn (pl_Warmer p),
      cf_Recursive = \<lparr>rv_ServerTimeout = dur (pl_ServerTimeout p)\<rparr>, cf_DHCP = dhcpIn (pl_DHCP p),
      cf_UpstreamHealth = \<lparr>uh_Enabled = False\<rparr>\<rparr>"

section \<open>Accounts\<close>

datatype applyError =
    BadDuration string
  | PasswordRequired nat
  | RandomError
  | Rejected cfgError
  | BadRoute "string \<times> parse_error"
  | BadUpstream parse_error
  | SaveFailed

text \<open>\<^verbatim>\<open>resolveWebUsers\<close>; \<open>ids\<close> are the identifiers drawn for new users, \<open>None\<close> where the draw fails. In the map of the existing users the
  last one of an identifier wins.\<close>

definition existingByID :: "WebUser list \<Rightarrow> string \<Rightarrow> WebUser option" where
  "existingByID existing uid = map_of (rev (map (\<lambda>u. (wu_ID u, u)) existing)) uid"

fun mergeUsers :: "WebUser list \<Rightarrow> nat \<Rightarrow> string option list \<Rightarrow> userPayload list \<Rightarrow> applyError + WebUser list" where
  "mergeUsers existing i ids [] = Inr []"
| "mergeUsers existing i ids (u # us) =
     (let next = (\<lambda>u' ids'. case mergeUsers existing (i + 1) ids' us of Inl e \<Rightarrow> Inl e | Inr us' \<Rightarrow> Inr (u' # us')) in
      case (if wu_ID u = [] then None else existingByID existing (wu_ID u)) of
        Some old \<Rightarrow> next (if wu_Password u = [] then u\<lparr>wu_Password := wu_Password old\<rparr> else u) ids
      | None \<Rightarrow>
          if wu_Password u = [] then Inl (PasswordRequired i)
          else (case ids of Some uid # ids' \<Rightarrow> next (u\<lparr>wu_ID := uid\<rparr>) ids' | _ \<Rightarrow> Inl RandomError))"

definition resolveWebUsers :: "WebUser list \<Rightarrow> string option list \<Rightarrow> userPayload list \<Rightarrow> applyError + WebUser list" where
  "resolveWebUsers existing ids incoming = mergeUsers existing 0 ids incoming"

definition rotateSecretIfUsersChanged :: "WebUser list \<Rightarrow> WebUser list \<Rightarrow> string \<Rightarrow> string option \<Rightarrow> string option" where
  "rotateSecretIfUsersChanged oldUsers newUsers oldSecret fresh = (if oldUsers = newUsers then Some oldSecret else fresh)"

section \<open>The running server\<close>

text \<open>The components a snapshot of the DNS handler points at, at the place of a heap that its reference names.\<close>

datatype 're obj =
    ORewriter Rewriter
  | ORouter "'re ClientRouter"
  | OLimiter RateLimiter
  | ONXGuard NXGuard
  | ORepeatGuard RepeatGuard
  | OACL "IPNet list"
  | OCache Cache

text \<open>The warmer: its settings, and whether its one-place trigger channel holds a kick.\<close>

record Warmer =
  wr_cfg :: WarmerConfig
  wr_trigger :: bool

definition Warmer_SetConfig :: "WarmerConfig \<Rightarrow> Warmer \<Rightarrow> Warmer" where
  "Warmer_SetConfig c w = w\<lparr>wr_cfg := c, wr_trigger := wr_trigger w \<or> (wm_Enabled c \<and> \<not> wm_Enabled (wr_cfg w))\<rparr>"

text \<open>The rebuilds a save starts in the background.\<close>

datatype rebuild = RebuildGeo GeoBlockConfig | RebuildClientGroups Config | RebuildVPN Config

record 're apiState =
  as_Cfg :: Config
  as_File :: cfgFile
  as_heap :: "'re obj list"
  as_DNS :: Handler
  as_Upstreams :: "string list"
  as_ServerTimeout :: duration
  as_Cache :: ref
  as_Lists :: "'re ListManager"
  as_GroupASN :: "ASNTable option"
  as_Warmer :: "Warmer option"
  as_DHCP :: "dhcpServer option"
  as_rebuilds :: "rebuild list"

text \<open>What a request meets: the libraries, the random draws, the end of the write, the cached list files and the time.\<close>

record 're apiEnv =
  ap_lib :: cfgLib
  ap_filter :: "'re filterEnv"
  ap_urlParse :: "string \<Rightarrow> URL option"
  ap_withPath :: "URL \<Rightarrow> string \<Rightarrow> string"
  ap_ids :: "string option list"
  ap_secret :: "string option"
  ap_write :: writeResult
  ap_disk :: "string \<Rightarrow> string option"
  ap_now :: gotime

text \<open>A forwarder is known to the handler by its name.\<close>

definition parseName :: "'re apiEnv \<Rightarrow> string \<Rightarrow> parse_error + string" where
  "parseName E spec = map_sum id up_Name (Parse (ap_urlParse E) (ap_withPath E) spec)"

definition onDNS :: "(Handler \<Rightarrow> Handler) \<Rightarrow> 're apiState \<Rightarrow> 're apiState" where
  "onDNS f s = s\<lparr>as_DNS := f (as_DNS s)\<rparr>"

definition install :: "'re obj \<Rightarrow> (ref \<Rightarrow> Handler \<Rightarrow> Handler) \<Rightarrow> 're apiState \<Rightarrow> 're apiState" where
  "install x f s = s\<lparr>as_heap := as_heap s @ [x], as_DNS := f (length (as_heap s)) (as_DNS s)\<rparr>"

definition installOpt :: "'re obj option \<Rightarrow> (ref option \<Rightarrow> Handler \<Rightarrow> Handler) \<Rightarrow> 're apiState \<Rightarrow> 're apiState" where
  "installOpt x f s = (case x of None \<Rightarrow> onDNS (f None) s | Some y \<Rightarrow> install y (\<lambda>r. f (Some r)) s)"

text \<open>The timeout in nanoseconds, a product of 64-bit integers.\<close>

definition timeoutOf :: "ServerConfig \<Rightarrow> duration" where
  "timeoutOf s = (sv_TimeoutSec s * Second + 2 ^ 63) mod 2 ^ 64 - 2 ^ 63"

section \<open>Applying an edited configuration\<close>

text \<open>\<^verbatim>\<open>dhcpBindConfig\<close>: the settings the DHCP listeners are bound by.\<close>

definition dhcpBindConfig :: "DHCPConfig \<Rightarrow> bool \<times> string \<times> string \<times> bool \<times> string" where
  "dhcpBindConfig c = (dy_Enabled c, dy_Interface c, dy_Subnet c, dy_IPv6 c, dy_IPv6Prefix c)"

definition cacheNoFailure :: "CacheConfig \<Rightarrow> CacheConfig" where
  "cacheNoFailure c = c\<lparr>ca_FailureTTL := 0\<rparr>"

definition restartSections :: "bool \<Rightarrow> Config \<Rightarrow> Config \<Rightarrow> string list" where
  "restartSections hasDHCP old new =
     (if cf_Server old \<noteq> cf_Server new then [''server (listeners)''] else []) @
     (if cacheNoFailure (cf_Cache old) \<noteq> cacheNoFailure (cf_Cache new) then [''cache''] else []) @
     (if cf_TLS old \<noteq> cf_TLS new then [''tls''] else []) @
     (if cf_Log old \<noteq> cf_Log new then [''log''] else []) @
     (if cf_Tunnel old \<noteq> cf_Tunnel new then [''tunnel''] else []) @
     (if hasDHCP \<and> dhcpBindConfig (cf_DHCP old) \<noteq> dhcpBindConfig (cf_DHCP new) then [''dhcp (listeners)''] else [])"

text \<open>\<^verbatim>\<open>dhcpRuntimeConfig\<close>: the addresses of the host are those of the running configuration.\<close>

definition dhcpRuntimeConfig :: "dhcpServer \<Rightarrow> DHCPConfig \<Rightarrow> dhcpConfig" where
  "dhcpRuntimeConfig srv c =
     (let r = ds_cfg srv in ConfigFrom c \<lparr>ha_IPv4 = dc_ServerIPv4 r, ha_IPv6 = dc_ServerIPv6 r, ha_MAC = dc_ServerMAC r\<rparr>)"

text \<open>\<^verbatim>\<open>applyUserLists\<close> and \<^verbatim>\<open>applyLists\<close> on the list manager and its engine.\<close>

definition applyFilter :: "'re apiEnv \<Rightarrow> FilterConfig \<Rightarrow> 're ListManager \<Rightarrow> 're ListManager" where
  "applyFilter E f m =
     (let m1 = m\<lparr>lm_engine := applyUserLists (ap_filter E) (fc_Blacklist f) (fc_Whitelist f) (lm_engine m)\<rparr>
      in ReloadAll (ap_filter E) (LoadCached (ap_disk E) (ap_now E) (SetAutoUpdate (fc_AutoUpdate f) (SetSpecs (fc_Blocklists f) m1))))"

definition buildRouter :: "'re apiEnv \<Rightarrow> Config \<Rightarrow> 're apiState \<Rightarrow> 're ClientRouter" where
  "buildRouter E cfg s = BuildClientRouter (ap_filter E) (\<lambda>spec. case parseName E spec of Inl _ \<Rightarrow> None | Inr u \<Rightarrow> Some u)
     (cf_ClientGroups cfg) (fc_Blocklists (cf_Filter cfg)) (as_Lists s) (as_GroupASN s)"

definition setCacheTimeout :: "duration \<Rightarrow> 're apiState \<Rightarrow> 're apiState" where
  "setCacheTimeout d s =
     (case as_heap s ! as_Cache s of OCache c \<Rightarrow> s\<lparr>as_heap := (as_heap s)[as_Cache s := OCache (SetLookupTimeout c d)]\<rparr> | _ \<Rightarrow> s)"

text \<open>The live part of a save. The forwarders are given when they changed.\<close>

definition liveApply :: "'re apiEnv \<Rightarrow> Config \<Rightarrow> UpstreamRoute list \<Rightarrow> string list option \<Rightarrow> 're apiState \<Rightarrow> 're apiState" where
  "liveApply E cfg routes ups s0 =
     (let s1 = (case ups of None \<Rightarrow> s0 | Some us \<Rightarrow> (onDNS (SetUpstreams us) s0)\<lparr>as_Upstreams := us\<rparr>);
          s2 = (if cf_UpstreamRoutes (as_Cfg s0) = cf_UpstreamRoutes cfg then s1 else onDNS (SetUpstreamRoutes routes) s1);
          s3 = onDNS (SetUpstreamMode (cf_UpstreamMode cfg)) s2;
          s4 = onDNS (SetBlockPolicy (fc_BlockResponse (cf_Filter cfg)) (fc_BlockTTL (cf_Filter cfg))) s3;
          s5 = onDNS (SetTimeout (timeoutOf (cf_Server cfg))) s4;
          s6 = onDNS (SetFailureTTL (ca_FailureTTL (cf_Cache cfg))) s5;
          s7 = setCacheTimeout (ca_LookupTimeout (cf_Cache cfg)) (s6\<lparr>as_ServerTimeout := rv_ServerTimeout (cf_Recursive cfg)\<rparr>);
          s8 = s7\<lparr>as_Lists := applyFilter E (cf_Filter cfg) (as_Lists s7)\<rparr>;
          s9 = install (ORewriter (BuildRewriter (ap_filter E) (cf_Rewrites cfg))) SetRewriter s8;
          s10 = install (ORouter (buildRouter E cfg s9)) SetClientRouter s9;
          s11 = installOpt (map_option OLimiter (BuildRateLimiter (RateLimitConfig.truncate (cf_RateLimit cfg)))) SetRateLimiter s10;
          s12 = onDNS (SetDNSSEC (dx_Enabled (cf_DNSSEC cfg)) (dx_RequireAD (cf_DNSSEC cfg))) s11;
          s13 = onDNS (SetCNAMECloakingProtection (fc_CNAMECloakingProtection (cf_Filter cfg))) s12
      in s13\<lparr>as_Warmer := map_option (Warmer_SetConfig (cf_Warmer cfg)) (as_Warmer s13),
             as_DHCP := map_option (\<lambda>srv. dhcp_SetConfig srv (ap_now E) (dhcpRuntimeConfig srv (cf_DHCP cfg))) (as_DHCP s13)\<rparr>)"

text \<open>The end of a save: the configuration replaces the running one and is written; when that fails, only the secret is put back.\<close>

definition persistConfig :: "'re apiEnv \<Rightarrow> Config \<Rightarrow> string list \<Rightarrow> 're apiState \<Rightarrow> (applyError + string list) \<times> 're apiState" where
  "persistConfig E cfg restart s =
     (case Save (ap_lib E) (ap_write E) cfg (as_File s) of
        (ok, cfg', file') \<Rightarrow>
          if ok then
            (Inr restart, s\<lparr>as_Cfg := cfg', as_File := file',
              as_rebuilds := as_rebuilds s @ [RebuildGeo (cf_GeoBlock cfg'), RebuildClientGroups cfg', RebuildVPN cfg']\<rparr>)
          else
            (Inl SaveFailed, s\<lparr>as_Cfg := cfg'\<lparr>cf_Web := (cf_Web cfg')\<lparr>wc_SessionSecret := wc_SessionSecret (cf_Web (as_Cfg s))\<rparr>\<rparr>,
              as_File := file'\<rparr>))"

definition newUpstreams :: "'re apiEnv \<Rightarrow> Config \<Rightarrow> Config \<Rightarrow> parse_error + string list option" where
  "newUpstreams E old new =
     (if cf_Upstreams old = cf_Upstreams new then Inr None else map_sum id Some (parseAll (parseName E) (cf_Upstreams new)))"

definition applyPayload :: "'re apiEnv \<Rightarrow> configPayload \<Rightarrow> 're apiState \<Rightarrow> (applyError + string list) \<times> 're apiState" where
  "applyPayload E p s =
     (let old = as_Cfg s; w = cf_Web old in
      case badDuration p of
        Some key \<Rightarrow> (Inl (BadDuration key), s)
      | None \<Rightarrow>
          (case resolveWebUsers (wc_Users w) (ap_ids E) (pl_Users p) of
             Inl e \<Rightarrow> (Inl e, s)
           | Inr users \<Rightarrow>
               (case rotateSecretIfUsersChanged (wc_Users w) users (wc_SessionSecret w) (ap_secret E) of
                  None \<Rightarrow> (Inl RandomError, s)
                | Some sec \<Rightarrow>
                    (case cfg_validate (configFromPayload p users sec) of
                       Inl e \<Rightarrow> (Inl (Rejected e), s)
                     | Inr cfg \<Rightarrow>
                         (case ParseRoutes (parseName E) (cf_UpstreamRoutes cfg) of
                            Inl e \<Rightarrow> (Inl (BadRoute e), s)
                          | Inr routes \<Rightarrow>
                              (case newUpstreams E old cfg of
                                 Inl e \<Rightarrow> (Inl (BadUpstream e), s)
                               | Inr ups \<Rightarrow> persistConfig E cfg (restartSections (as_DHCP s \<noteq> None) old cfg) (liveApply E cfg routes ups s)))))))"

section \<open>Reloading\<close>

datatype reloadError =
    CacheError
  | TLSError
  | ReloadUpstream parse_error
  | ReloadRoute "string \<times> parse_error"
  | ReloadACL acl_error
  | ListenError

text \<open>What a reload meets: the new cache when it could be connected, the certificates, the DNS listeners, the networks of the client groups,
  and for DHCP the addresses of the host, the lease file and the listeners.\<close>

record reloadEnv =
  re_cache :: "Cache option"
  re_tls :: bool
  re_listen :: bool
  re_asn :: "ASNTable option"
  re_addrs :: HostAddresses
  re_persist :: bool
  re_bind4 :: bool
  re_bind6 :: bool

definition reloadDHCP :: "reloadEnv \<Rightarrow> gotime \<Rightarrow> DHCPConfig \<Rightarrow> dhcpServer \<Rightarrow> dhcpServer" where
  "reloadDHCP R now c srv =
     (let wasRunning = dhcp_Enabled srv; wasIface = dc_Interface (ds_cfg srv);
          srv1 = dhcp_SetConfig srv now (ConfigFrom c (re_addrs R));
          wantRunning = (dy_Enabled c \<and> (dy_Subnet c \<noteq> [] \<or> dy_IPv6 c \<and> dy_IPv6Prefix c \<noteq> [])) in
      if wasRunning \<noteq> wantRunning \<or> wantRunning \<and> wasIface \<noteq> dy_Interface c then
        if wantRunning then
          snd (if wasRunning then RestartListeners srv1 (re_persist R) (re_bind4 R) (re_bind6 R) else dhcp_Start srv1 (re_bind4 R) (re_bind6 R))
        else dhcp_Stop srv1 (re_persist R)
      else srv1)"

text \<open>The swap of the live references, after everything that can fail.\<close>

definition reloadSwap ::
  "'re apiEnv \<Rightarrow> reloadEnv \<Rightarrow> Config \<Rightarrow> Cache \<Rightarrow> string list \<Rightarrow> UpstreamRoute list \<Rightarrow> IPNet list option \<Rightarrow> 're apiState \<Rightarrow> 're apiState" where
  "reloadSwap E R cfg newCache ups routes acl s0 =
     (let cref = length (as_heap s0);
          s1 = install (OCache (SetLookupTimeout newCache (ca_LookupTimeout (cf_Cache cfg)))) (\<lambda>r. SetCache (Some r)) s0;
          s2 = onDNS (SetUpstreamRoutes routes \<circ> SetUpstreamMode (cf_UpstreamMode cfg) \<circ> SetUpstreams ups) s1;
          s3 = onDNS (SetFailureTTL (ca_FailureTTL (cf_Cache cfg)) \<circ> SetTimeout (timeoutOf (cf_Server cfg)) \<circ>
                 SetBlockPolicy (fc_BlockResponse (cf_Filter cfg)) (fc_BlockTTL (cf_Filter cfg))) s2;
          s4 = install (ORewriter (BuildRewriter (ap_filter E) (cf_Rewrites cfg))) SetRewriter s3;
          s5 = s4\<lparr>as_GroupASN := re_asn R\<rparr>;
          s6 = install (ORouter (buildRouter E cfg s5)) SetClientRouter s5;
          s7 = installOpt (map_option OLimiter (BuildRateLimiter (RateLimitConfig.truncate (cf_RateLimit cfg)))) SetRateLimiter s6;
          s8 = installOpt (map_option ONXGuard (BuildNXGuard (rc_NXGuard (cf_RateLimit cfg)))) SetNXGuard s7;
          s9 = installOpt (map_option ORepeatGuard (BuildRepeatGuard (RepeatQueryConfig.truncate (rc_RepeatQuery (cf_RateLimit cfg))))) SetRepeatGuard s8;
          s10 = onDNS (SetRepeatQueryUDPBlockFor (qc_UDPBlockFor (rc_RepeatQuery (cf_RateLimit cfg))) \<circ>
                  SetRepeatQueryBlockFor (qc_BlockFor (rc_RepeatQuery (cf_RateLimit cfg)))) s9;
          s11 = onDNS (SetDNSSECValidateLocally (dx_ValidateLocally (cf_DNSSEC cfg)) \<circ>
                  SetCNAMECloakingProtection (fc_CNAMECloakingProtection (cf_Filter cfg)) \<circ>
                  SetDNSSEC (dx_Enabled (cf_DNSSEC cfg)) (dx_RequireAD (cf_DNSSEC cfg))) s10;
          s12 = installOpt (map_option OACL acl) SetACL s11;
          s13 = onDNS (SetCookies (sv_Cookies (cf_Server cfg)) \<circ> SetPadding (sv_Padding (cf_Server cfg)) \<circ>
                  SetUpstreamHealthCheck (uh_Enabled (cf_UpstreamHealth cfg))) s12
      in s13\<lparr>as_DHCP := map_option (reloadDHCP R (ap_now E) (cf_DHCP cfg)) (as_DHCP s13),
             as_rebuilds := as_rebuilds s13 @ [RebuildGeo (cf_GeoBlock cfg), RebuildVPN cfg], as_Cache := cref, as_Upstreams := ups\<rparr>)"

definition Reload :: "'re apiEnv \<Rightarrow> reloadEnv \<Rightarrow> 're apiState \<Rightarrow> reloadError option \<times> 're apiState" where
  "Reload E R s =
     (let cfg = as_Cfg s in
      case re_cache R of
        None \<Rightarrow> (Some CacheError, s)
      | Some newCache \<Rightarrow>
          if \<not> re_tls R then (Some TLSError, s)
          else
            let s1 = s\<lparr>as_ServerTimeout := rv_ServerTimeout (cf_Recursive cfg)\<rparr> in
            case parseAll (parseName E) (cf_Upstreams cfg) of
              Inl e \<Rightarrow> (Some (ReloadUpstream e), s1)
            | Inr ups \<Rightarrow>
                (case ParseRoutes (parseName E) (cf_UpstreamRoutes cfg) of
                   Inl e \<Rightarrow> (Some (ReloadRoute e), s1)
                 | Inr routes \<Rightarrow>
                     (case BuildACL (sv_AllowFrom (cf_Server cfg)) of
                        Inl e \<Rightarrow> (Some (ReloadACL e), s1)
                      | Inr acl \<Rightarrow>
                          if \<not> re_listen R then (Some ListenError, s1)
                          else (None, reloadSwap E R cfg newCache ups routes acl s1))))"

text \<open>The sections \<^verbatim>\<open>reloadConfig\<close> still reports after a reload.\<close>

definition stillRequiresRestart :: "Config \<Rightarrow> string list" where
  "stillRequiresRestart c =
     (let t = cf_Tunnel c in if tu_Enabled t \<or> tu_Token t \<noteq> [] \<or> tu_QuickTunnel t then [''tunnel''] else [])"

end
