(* ===== verification/ConfigApiProps.thy ===== *)
theory ConfigApiProps
  imports ConfigApi
begin

text \<open>
  Lemmas on the settings page: durations and whole configurations through the JSON shape, accounts and secrets through a save, what a save
  and a reload change in the running server.
\<close>

section \<open>Durations through the page\<close>

lemma parseDur_solid: "s \<noteq> [] \<Longrightarrow> \<not> is_space (hd s) \<Longrightarrow> parseDur s = ParseDuration s"
proof -
  assume s: "s \<noteq> []" "\<not> is_space (hd s)"
  then have "dropWhile is_space s = s" by (simp add: dropWhile_eq_self_iff)
  then have "TrimSpace s = rev (dropWhile is_space (rev s))" by (simp add: TrimSpace_def)
  moreover have "dropWhile is_space (rev s) \<noteq> []" using s by (auto simp: dropWhile_eq_Nil_conv)
  ultimately show ?thesis by (auto simp: parseDur_def)
qed

lemma digit_solid: "is_digit c \<Longrightarrow> \<not> is_space c"
  by (auto simp: is_digit_def is_space_def)

lemma parseDur_String: "minDuration \<le> d \<Longrightarrow> d \<le> maxDuration \<Longrightarrow> parseDur (Duration_String d) = Some d"
proof -
  assume d: "minDuration \<le> d" "d \<le> maxDuration"
  have "Duration_String d \<noteq> [] \<and> \<not> is_space (hd (Duration_String d))"
    using showDuration_start digit_solid by (auto simp: Duration_String_def Let_def digitStart_def is_space_def)
  then show ?thesis using d by (simp add: parseDur_solid ParseDuration_String)
qed

lemma ParseDuration_hours:
  assumes "n * 3600000000000 \<le> (2 :: nat) ^ 63 - 1"
  shows "ParseDuration (dec_digits n @ ''h'') = Some (int n * Hour)"
proof -
  obtain c s where s: "dec_digits n @ ''h'' = c # s" "is_digit c" "s \<noteq> []"
    using digits_start[of "''h''" n] by (cases "dec_digits n @ ''h''") (auto simp: digitStart_def)
  then have c: "c \<noteq> CHR ''-''" "c \<noteq> CHR ''+''" by (auto simp: is_digit_def)
  have "parsePiece (dec_digits n @ ''h'') = Some (n * 3600000000000, [])"
    using piece[OF unit_lookup(6) _ unit_chars(6), of "[]" "[]" 0 n] assms by simp
  from pieces_end[OF this, of 0] have "parsePieces 0 (c # s) = Some (n * 3600000000000)" using assms s(1) by simp
  then show ?thesis using s c assms by (auto simp: ParseDuration_def HasPrefix_def Let_def)
qed

lemma parseDur_durationOrEmpty:
  assumes "d \<le> maxDuration"
  shows "parseDur (durationOrEmpty d) = Some (max 0 d)"
proof (cases "d \<le> 0")
  case True
  then show ?thesis by (simp add: durationOrEmpty_def parseDur_def TrimSpace_def)
next
  case pos: False
  show ?thesis
  proof (cases "d mod Hour = 0")
    case True
    let ?s = "dec_digits (nat (d div Hour)) @ ''h''"
    have h: "d = int (nat (d div Hour)) * Hour" using True pos by auto
    have "?s \<noteq> []" "\<not> is_space (hd ?s)" using digits_start[of "''h''" "nat (d div Hour)"] digit_solid by (auto simp: digitStart_def)
    moreover have "nat (d div Hour) * 3600000000000 \<le> 2 ^ 63 - 1" using h assms by (simp add: maxDuration_def)
    ultimately show ?thesis using True pos h by (simp add: durationOrEmpty_def parseDur_solid ParseDuration_hours)
  next
    case False
    then show ?thesis using pos assms parseDur_String[of d] by (simp add: durationOrEmpty_def minDuration_def)
  qed
qed

lemma dur_out: "d \<le> maxDuration \<Longrightarrow> 0 \<le> d \<Longrightarrow> dur (durationOrEmpty d) = d" "minDuration \<le> t \<Longrightarrow> t \<le> maxDuration \<Longrightarrow> dur (Duration_String t) = t"
  by (simp_all add: dur_def parseDur_durationOrEmpty parseDur_String)

section \<open>A configuration through the page\<close>

text \<open>The durations of the settings page fit into 64 bits, and those shown as empty when they are not positive are not negative.\<close>

definition shownDurations :: "Config \<Rightarrow> duration list" where
  "shownDurations c =
     (let k = cf_Cache c; r = cf_RateLimit c; n = rc_NXGuard r; q = rc_RepeatQuery r; g = cf_GeoBlock c; w = cf_Warmer c in
      [ca_ServeStale k, ca_LookupTimeout k, ca_FailureTTL k, rv_ServerTimeout (cf_Recursive c), fc_AutoUpdate (cf_Filter c), rc_BlockFor r,
       nc_Window n, nc_BlockFor n, qc_Window q, qc_BlockFor q, qc_UDPBlockFor q, gb_AutoUpdate g, gb_HoneypotUDPBlock g,
       dy_LeaseTime (cf_DHCP c), wm_Interval w, wm_Lookback w])"

definition durationsOK :: "Config \<Rightarrow> bool" where
  "durationsOK c \<longleftrightarrow> list_all (\<lambda>d. 0 \<le> d \<and> d \<le> maxDuration) (shownDurations c) \<and>
     list_all (\<lambda>d. minDuration \<le> d \<and> d \<le> maxDuration) [ca_TTL (cf_Cache c), ca_NegativeTTL (cf_Cache c)]"

text \<open>What the page does not carry.\<close>

definition forget :: "Config \<Rightarrow> Config" where
  "forget c = c\<lparr>cf_Server := (cf_Server c)\<lparr>sv_AllowFrom := []\<rparr>, cf_Logging := \<lparr>lv_Level = [], lv_JSON = False\<rparr>,
     cf_Web := (cf_Web c)\<lparr>wc_Username := [], wc_Password := [], wc_Tokens := []\<rparr>,
     cf_DNSSEC := (cf_DNSSEC c)\<lparr>dx_ValidateLocally := False\<rparr>, cf_UpstreamHealth := \<lparr>uh_Enabled = False\<rparr>\<rparr>"

lemma no_bad_duration: "durationsOK c \<Longrightarrow> badDuration (payloadFromConfig c) = None"
  by (simp add: badDuration_def durations_def payloadFromConfig_def cacheOut_def filterOut_def rateLimitOut_def geoOut_def dhcpOut_def warmerOut_def
      durationsOK_def shownDurations_def Let_def parseDur_durationOrEmpty parseDur_String)

text \<open>Each section whose durations are shown comes back.\<close>

lemma section_back:
  assumes "durationsOK c"
  shows "cacheIn (cacheOut (cf_Cache c)) = cf_Cache c" "warmerIn (warmerOut (cf_Warmer c)) = cf_Warmer c"
    "filterIn (filterOut (cf_Filter c)) = cf_Filter c" "geoIn (geoOut (cf_GeoBlock c)) = cf_GeoBlock c"
    "dhcpIn (dhcpOut (cf_DHCP c)) = cf_DHCP c" "\<lparr>rv_ServerTimeout = dur (durationOrEmpty (rv_ServerTimeout (cf_Recursive c)))\<rparr> = cf_Recursive c"
    "(rc_AutoBlock (cf_RateLimit c) \<longrightarrow> rc_BlockAfter (cf_RateLimit c) \<ge> 1 \<and> rc_BlockFor (cf_RateLimit c) > 0) \<Longrightarrow>
       rateLimitIn (rateLimitOut (cf_RateLimit c)) = cf_RateLimit c"
proof -
  note d = assms[unfolded durationsOK_def shownDurations_def Let_def, simplified]
  show "cacheIn (cacheOut (cf_Cache c)) = cf_Cache c" using d by (simp add: cacheIn_def cacheOut_def dur_out)
  show "warmerIn (warmerOut (cf_Warmer c)) = cf_Warmer c" using d by (simp add: warmerIn_def warmerOut_def dur_out)
  show "filterIn (filterOut (cf_Filter c)) = cf_Filter c" using d by (simp add: filterIn_def filterOut_def dur_out)
  show "geoIn (geoOut (cf_GeoBlock c)) = cf_GeoBlock c" using d by (simp add: geoIn_def geoOut_def dur_out)
  show "dhcpIn (dhcpOut (cf_DHCP c)) = cf_DHCP c" using d by (simp add: dhcpIn_def dhcpOut_def dur_out)
  show "\<lparr>rv_ServerTimeout = dur (durationOrEmpty (rv_ServerTimeout (cf_Recursive c)))\<rparr> = cf_Recursive c" using d by (simp add: dur_out)
  assume "rc_AutoBlock (cf_RateLimit c) \<longrightarrow> rc_BlockAfter (cf_RateLimit c) \<ge> 1 \<and> rc_BlockFor (cf_RateLimit c) > 0"
  then show "rateLimitIn (rateLimitOut (cf_RateLimit c)) = cf_RateLimit c" using d
    by (cases "cf_RateLimit c") (auto simp: rateLimitIn_def rateLimitOut_def dur_out Let_def)
qed

lemma page_config:
  assumes "durationsOK c" "rc_AutoBlock (cf_RateLimit c) \<longrightarrow> rc_BlockAfter (cf_RateLimit c) \<ge> 1 \<and> rc_BlockFor (cf_RateLimit c) > 0"
  shows "configFromPayload (payloadFromConfig c) (wc_Users (cf_Web c)) (wc_SessionSecret (cf_Web c)) = forget c"
proof -
  have "serverPayload.extend (serverPayload.truncate s) (ServerConfig.fields []) = s\<lparr>sv_AllowFrom := []\<rparr>" for s :: ServerConfig
    by (cases s) (simp add: serverPayload.defs ServerConfig.defs)
  moreover have "dnssecPayload.extend (dnssecPayload.truncate s) (DNSSECConfig.fields False) = s\<lparr>dx_ValidateLocally := False\<rparr>" for s :: DNSSECConfig
    by (cases s) (simp add: dnssecPayload.defs DNSSECConfig.defs)
  ultimately show ?thesis using section_back[OF assms(1)] assms(2)
    by (simp add: configFromPayload_def payloadFromConfig_def forget_def)
qed

section \<open>Accounts through the page\<close>

lemma existingByID_distinct: "distinct (map wu_ID us) \<Longrightarrow> u \<in> set us \<Longrightarrow> existingByID us (wu_ID u) = Some u"
  unfolding existingByID_def by (rule map_of_is_SomeI) (auto simp: rev_map[symmetric] comp_def)

lemma mergeUsers_same:
  assumes "distinct (map wu_ID us)" "set vs \<subseteq> set us" "\<And>u. u \<in> set us \<Longrightarrow> wu_ID u \<noteq> []"
  shows "mergeUsers us i ids (map userOut vs) = Inr vs"
  using assms(2)
proof (induction vs arbitrary: i)
  case (Cons v vs)
  then have "existingByID us (wu_ID v) = Some v" "wu_ID v \<noteq> []" using existingByID_distinct[OF assms(1)] assms(3) by auto
  then show ?case using Cons by (simp add: userOut_def)
qed simp

lemma usersError_None:
  "usersError i ids names us = None \<longleftrightarrow> distinct (map wu_ID us) \<and> distinct (map wu_Username us) \<and> set (map wu_ID us) \<inter> set ids = {} \<and>
     set (map wu_Username us) \<inter> set names = {} \<and> (\<forall>u \<in> set us. wu_ID u \<noteq> [] \<and> wu_Username u \<noteq> [] \<and> (wu_Role u = ''admin'' \<or> wu_Role u = ''viewer''))"
  by (induction us arbitrary: i ids names) auto

section \<open>Settled configurations\<close>

text \<open>A configuration every check accepts as it is.\<close>

definition settled :: "Config \<Rightarrow> bool" where
  "settled c \<longleftrightarrow> list_all (\<lambda>f. f c = Inr c) allChecks"

lemma validate_settles: "settledDomains c0 \<Longrightarrow> cfg_validate c0 = Inr c \<Longrightarrow> settled c"
  using cfg.run_settles[of allChecks c0 c] by (auto simp: settled_def cfg_validate_def list_all_iff)

lemma settled_validates: "settled c \<Longrightarrow> cfg_validate c = Inr c"
  unfolding settled_def cfg_validate_def list_all_iff by (rule cfg.run_again) blast

lemma settled_users: "settled c \<Longrightarrow> usersError 0 [] [] (wc_Users (cf_Web c)) = None"
proof -
  assume "settled c"
  then have "checkUsers c = Inr c" by (simp add: settled_def check_lists)
  then show ?thesis by (auto simp: checkUsers_def Let_def split: option.splits)
qed

lemma settled_auto_block: "settled c \<Longrightarrow> rc_AutoBlock (cf_RateLimit c) \<Longrightarrow> rc_BlockAfter (cf_RateLimit c) \<ge> 1 \<and> rc_BlockFor (cf_RateLimit c) > 0"
  by (simp add: settled_def check_lists passed Let_def)

lemma settled_forget:
  assumes "settled c" "wc_Users (cf_Web c) \<noteq> []"
  shows "settled (forget c)"
proof -
  let ?lv = "require (\<lambda>c. logLevelOK (lv_Level (cf_Logging c))) ''logging.level''"
  have all: "list_all (\<lambda>f. f = checkUsers \<or> f = ?lv \<or> blindTo forget f) allChecks"
    unfolding check_lists by (simp add: blind forget_def sharedPort_def someListener_def Let_def)
      (simp add: blind_defs forget_def Let_def split: sum.split option.split)
  have users: "checkUsers (forget c) = Inr (forget c)"
    using settled_users[OF assms(1)] assms by (auto simp: settled_def check_lists checkUsers_def forget_def Let_def split: if_splits)
  have lv: "?lv (forget c) = Inr (forget c)" by (simp add: require_def forget_def logLevelOK_def TrimSpace_def ToLower_def)
  have "f (forget c) = Inr (forget c)" if "f \<in> set allChecks" for f
  proof -
    have "f c = Inr c" using assms(1) that by (auto simp: settled_def list_all_iff)
    then have "blindTo forget f \<Longrightarrow> f (forget c) = Inr (forget c)" by (simp add: blindTo_def)
    then show ?thesis using all users lv that by (auto simp: list_all_iff)
  qed
  then show ?thesis by (simp add: settled_def list_all_iff)
qed

section \<open>Secrets through a save\<close>

definition hashedUser :: "WebUser \<Rightarrow> bool" where
  "hashedUser u \<longleftrightarrow> wu_Password u = [] \<or> isBcrypt (wu_Password u)"

definition hashedTokens :: "APIToken list \<Rightarrow> bool" where
  "hashedTokens ts \<longleftrightarrow> list_all (\<lambda>t. tk_Token t = [] \<or> isSHA256Hex (tk_Token t)) ts"

definition secretsHashed :: "WebConfig \<Rightarrow> bool" where
  "secretsHashed w \<longleftrightarrow> (wc_Password w = [] \<or> isBcrypt (wc_Password w)) \<and> hashedTokens (wc_Tokens w) \<and> list_all hashedUser (wc_Users w)"

lemma hashUsers_hashed: "list_all hashedUser us \<Longrightarrow> hashUsers lib us = (True, us)"
  by (induction us) (auto simp: hashedUser_def)

lemma Save_hashed:
  assumes "secretsHashed (cf_Web c)" "yaml_Marshal lib c = Some data"
  shows "Save lib Written c file = (True, c, Content data)"
proof -
  have "map (hashToken lib) (wc_Tokens (cf_Web c)) = wc_Tokens (cf_Web c)"
    using assms(1) by (intro map_idI) (auto simp: secretsHashed_def hashedTokens_def list_all_iff hashToken_def)
  then have "hashSecrets lib (cf_Web c) = (True, cf_Web c)" using assms(1) hashUsers_hashed by (auto simp: secretsHashed_def hashSecrets_def Let_def)
  then show ?thesis using assms(2) by (simp add: Save_def)
qed

text \<open>The account a save leaves behind: the same but for its password, which is a hash and accepts what was accepted before.\<close>

definition sameLogin :: "webCrypto \<Rightarrow> WebUser \<Rightarrow> WebUser \<Rightarrow> bool" where
  "sameLogin k u u' \<longleftrightarrow> u' = u\<lparr>wu_Password := wu_Password u'\<rparr> \<and> hashedUser u' \<and>
     (\<forall>plain. passwordMatches k plain (wu_Password u') = passwordMatches k plain (wu_Password u))"

lemma hashUsers_logins:
  assumes "\<And>p h. GenerateFromPassword lib p = Some h \<Longrightarrow> isBcrypt h \<and> (\<forall>q. bcrypt_ok k h q \<longleftrightarrow> q = p)"
  shows "hashUsers lib us = (True, us') \<Longrightarrow> list_all2 (sameLogin k) us us'"
proof (induction us arbitrary: us')
  case (Cons u us)
  show ?case
  proof (cases "hashedUser u")
    case True
    then show ?thesis using Cons by (auto simp: hashedUser_def sameLogin_def split: prod.splits)
  next
    case False
    then obtain h us1 where h: "GenerateFromPassword lib (wu_Password u) = Some h" "hashUsers lib us = (True, us1)" "us' = u\<lparr>wu_Password := h\<rparr> # us1"
      using Cons.prems by (auto simp: hashedUser_def split: prod.splits option.splits)
    have b: "isBcrypt h" "\<And>q. bcrypt_ok k h q \<longleftrightarrow> q = wu_Password u" using assms[OF h(1)] by auto
    have "h \<noteq> []" using b(1) by (auto simp: isBcrypt_def HasPrefix_def)
    then have "passwordMatches k q h = (q = wu_Password u)" for q using b by (simp add: passwordMatches_def isBcrypt_def)
    moreover have "passwordMatches k q (wu_Password u) = (q = wu_Password u)" for q
      using False by (simp add: passwordMatches_def hashedUser_def isBcrypt_def)
    ultimately have "sameLogin k u (u\<lparr>wu_Password := h\<rparr>)" using b(1) by (simp add: sameLogin_def hashedUser_def)
    then show ?thesis using Cons.IH h by simp
  qed
qed simp

lemma Save_written:
  assumes "\<And>p h. GenerateFromPassword lib p = Some h \<Longrightarrow> isBcrypt h \<and> (\<forall>q. bcrypt_ok k h q \<longleftrightarrow> q = p)" "\<And>t. isSHA256Hex (Sum256Hex lib t)"
    and "Save lib wr c file = (True, c', file')"
  shows "secretsHashed (cf_Web c') \<and> c' = c\<lparr>cf_Web := cf_Web c'\<rparr> \<and> (\<exists>data. yaml_Marshal lib c' = Some data \<and> file' = Content data) \<and>
    list_all2 (sameLogin k) (wc_Users (cf_Web c)) (wc_Users (cf_Web c'))"
proof -
  obtain w data where w: "hashSecrets lib (cf_Web c) = (True, w)" "c' = c\<lparr>cf_Web := w\<rparr>" "yaml_Marshal lib c' = Some data" "file' = Content data"
    using assms(3) by (auto simp: Save_def Let_def split: prod.splits if_splits option.splits writeResult.splits)
  obtain us where us: "hashUsers lib (wc_Users (cf_Web c)) = (True, us)" "wc_Users w = us" "wc_Tokens w = map (hashToken lib) (wc_Tokens (cf_Web c))"
    and pw: "wc_Password w = [] \<or> isBcrypt (wc_Password w)"
    using w(1) assms(1) by (auto simp: hashSecrets_def Let_def split: if_splits option.splits prod.splits)
  have l: "list_all2 (sameLogin k) (wc_Users (cf_Web c)) us" by (rule hashUsers_logins[OF assms(1) us(1)])
  then have "list_all hashedUser us" by (auto simp: list_all2_conv_all_nth list_all_length sameLogin_def)
  moreover have "hashedTokens (wc_Tokens w)" using assms(2) us(3) by (auto simp: hashedTokens_def hashToken_def list_all_iff)
  ultimately show ?thesis using w us pw l by (simp add: secretsHashed_def)
qed

section \<open>What a save changes in the running server\<close>

lemma liveApply_settings:
  "hd_settings (as_DNS (liveApply E cfg routes ups s)) =
    (hd_settings (as_DNS s))\<lparr>ns_Upstreams := (case ups of None \<Rightarrow> ns_Upstreams (hd_settings (as_DNS s)) | Some us \<Rightarrow> us),
      ns_UpstreamRoutes := (if cf_UpstreamRoutes (as_Cfg s) = cf_UpstreamRoutes cfg then ns_UpstreamRoutes (hd_settings (as_DNS s)) else routes),
      ns_UpstreamMode := cf_UpstreamMode cfg, ns_BlockResponse := fc_BlockResponse (cf_Filter cfg), ns_BlockTTL := fc_BlockTTL (cf_Filter cfg),
      ns_Timeout := timeoutOf (cf_Server cfg), ns_FailureTTL := ca_FailureTTL (cf_Cache cfg), ns_Rewriter := length (as_heap s),
      ns_ClientRouter := length (as_heap s) + 1, ns_RateLimiter := (if rc_Enabled (cf_RateLimit cfg) then Some (length (as_heap s) + 2) else None),
      ns_DNSSECEnabled := dx_Enabled (cf_DNSSEC cfg), ns_DNSSECRequireAD := dx_RequireAD (cf_DNSSEC cfg),
      ns_CNAMECloakingProtection := fc_CNAMECloakingProtection (cf_Filter cfg)\<rparr>"
proof -
  have c: "as_DNS (setCacheTimeout d t) = as_DNS t \<and> length (as_heap (setCacheTimeout d t)) = length (as_heap t)" for d and t :: "'a apiState"
    by (simp add: setCacheTimeout_def split: obj.split)
  show ?thesis
    by (cases ups; cases "cf_UpstreamRoutes (as_Cfg s) = cf_UpstreamRoutes cfg"; cases "rc_Enabled (cf_RateLimit cfg)")
      (simp_all add: liveApply_def onDNS_def install_def installOpt_def setter_defs swapSettings_def BuildRateLimiter_def RateLimitConfig.defs c Let_def)
qed

lemma step_other:
  "as_Cfg (onDNS f s) = as_Cfg s" "as_File (onDNS f s) = as_File s" "as_DHCP (onDNS f s) = as_DHCP s"
  "as_Cfg (install x g s) = as_Cfg s" "as_File (install x g s) = as_File s" "as_DHCP (install x g s) = as_DHCP s"
  "as_Cfg (installOpt y g' s) = as_Cfg s" "as_File (installOpt y g' s) = as_File s" "as_DHCP (installOpt y g' s) = as_DHCP s"
  "as_Cfg (setCacheTimeout d s) = as_Cfg s" "as_File (setCacheTimeout d s) = as_File s" "as_DHCP (setCacheTimeout d s) = as_DHCP s"
  "as_rebuilds (onDNS f s) = as_rebuilds s" "as_rebuilds (install x g s) = as_rebuilds s" "as_rebuilds (installOpt y g' s) = as_rebuilds s"
  "as_rebuilds (setCacheTimeout d s) = as_rebuilds s"
  by (simp_all add: onDNS_def install_def installOpt_def setCacheTimeout_def split: option.split obj.split)

lemma liveApply_other:
  "as_Cfg (liveApply E cfg routes ups s) = as_Cfg s" "as_File (liveApply E cfg routes ups s) = as_File s"
  "as_DHCP (liveApply E cfg routes ups s) = map_option (\<lambda>srv. dhcp_SetConfig srv (ap_now E) (dhcpRuntimeConfig srv (cf_DHCP cfg))) (as_DHCP s)"
  "as_rebuilds (liveApply E cfg routes ups s) = as_rebuilds s"
  by (cases ups; simp add: liveApply_def step_other Let_def)+

section \<open>What validation leaves alone\<close>

definition untouched :: "Config \<Rightarrow> string list \<times> DNSSECConfig \<times> UpstreamHealthConfig \<times> WebConfig \<times> DHCPConfig \<times> RateLimitSection" where
  "untouched c = (sv_AllowFrom (cf_Server c), cf_DNSSEC c, cf_UpstreamHealth c, cf_Web c, cf_DHCP c, cf_RateLimit c)"

lemma changes_untouched: "changes g c c' \<Longrightarrow> untouched c' = untouched c"
proof -
  assume "changes g c c'"
  then have "c' = c \<or> (\<exists>y. c' = c\<lparr>cf_UpstreamMode := y\<rparr>) \<or> (\<exists>y. c' = c\<lparr>cf_UpstreamRoutes := y\<rparr>) \<or> (\<exists>y. c' = c\<lparr>cf_VPN := y\<rparr>) \<or>
    (\<exists>y. c' = c\<lparr>cf_TLS := y\<rparr>) \<or> (\<exists>y. c' = c\<lparr>cf_ClientGroups := y\<rparr>) \<or> (\<exists>y. c' = c\<lparr>cf_GeoBlock := y\<rparr>) \<or>
    (\<exists>y. c' = c\<lparr>cf_Server := (cf_Server c)\<lparr>sv_XFFHopLimit := y\<rparr>\<rparr>) \<or> (\<exists>y. c' = c\<lparr>cf_Server := (cf_Server c)\<lparr>sv_WebRedirectPort := y\<rparr>\<rparr>)"
    unfolding changes_def by blast
  then show ?thesis by (auto simp: untouched_def)
qed

lemma check_untouched: "f \<in> set allChecks \<Longrightarrow> f c = Inr c' \<Longrightarrow> untouched c' = untouched c"
proof -
  assume "f \<in> set allChecks" "f c = Inr c'"
  then have "changes f c c'" using all_tame by (auto simp: list_all_iff tame_def)
  then show ?thesis by (rule changes_untouched)
qed

lemma run_untouched: "set fs \<subseteq> set allChecks \<Longrightarrow> runChecks fs c = Inr c' \<Longrightarrow> untouched c' = untouched c"
proof (induction fs arbitrary: c)
  case (Cons f fs)
  then obtain c1 where "f c = Inr c1" "runChecks fs c1 = Inr c'" by (auto split: sum.splits)
  then show ?case using Cons.IH[of c1] Cons.prems(1) check_untouched[of f c c1] by simp
qed simp

lemma validate_untouched: "cfg_validate c = Inr c' \<Longrightarrow> untouched c' = untouched c"
  unfolding cfg_validate_def using run_untouched by blast

section \<open>Saves and reloads\<close>

text \<open>A save that succeeds went through every step.\<close>

lemma applyPayload_Inr:
  assumes "applyPayload E p s = (Inr rs, s')"
  obtains users sec cfg routes ups where "resolveWebUsers (wc_Users (cf_Web (as_Cfg s))) (ap_ids E) (pl_Users p) = Inr users"
    "rotateSecretIfUsersChanged (wc_Users (cf_Web (as_Cfg s))) users (wc_SessionSecret (cf_Web (as_Cfg s))) (ap_secret E) = Some sec"
    "cfg_validate (configFromPayload p users sec) = Inr cfg" "ParseRoutes (parseName E) (cf_UpstreamRoutes cfg) = Inr routes"
    "newUpstreams E (as_Cfg s) cfg = Inr ups" "rs = restartSections (as_DHCP s \<noteq> None) (as_Cfg s) cfg"
    "persistConfig E cfg rs (liveApply E cfg routes ups s) = (Inr rs, s')"
  using assms by (auto simp: applyPayload_def persistConfig_def Let_def split: option.splits sum.splits prod.splits if_splits intro: that)

lemma persistConfig_Inr:
  assumes "persistConfig E cfg rs t = (Inr rs, s')"
  obtains cfg' file' where "Save (ap_lib E) (ap_write E) cfg (as_File t) = (True, cfg', file')" "as_Cfg s' = cfg'" "as_File s' = file'"
    "as_DNS s' = as_DNS t" "as_DHCP s' = as_DHCP t" "as_heap s' = as_heap t"
  using assms by (auto simp: persistConfig_def split: prod.splits if_splits intro: that)

lemma hashSecrets_tokens: "hashSecrets lib w = (True, w') \<Longrightarrow> wc_Tokens w' = map (hashToken lib) (wc_Tokens w)"
  by (auto simp: hashSecrets_def Let_def split: if_splits option.splits prod.splits)

lemma Save_web: "Save lib wr c file = (ok, c', file') \<Longrightarrow> \<exists>w. c' = c\<lparr>cf_Web := w\<rparr>"
  by (auto simp: Save_def Let_def split: prod.splits if_splits option.splits writeResult.splits)

lemma hashUsers_ids: "map wu_ID (snd (hashUsers lib us)) = map wu_ID us"
  by (induction us) (auto simp: Let_def split: prod.splits option.splits)

lemma Save_ids: "Save lib wr c file = (ok, c', file') \<Longrightarrow> map wu_ID (wc_Users (cf_Web c')) = map wu_ID (wc_Users (cf_Web c))"
proof -
  have "map wu_ID (wc_Users (snd (hashSecrets lib w))) = map wu_ID (wc_Users w)" for w
    using hashUsers_ids[of lib "wc_Users w"] by (auto simp: hashSecrets_def Let_def split: option.splits prod.splits)
  then have "map wu_ID (wc_Users (snd (hashSecrets lib (cf_Web c)))) = map wu_ID (wc_Users (cf_Web c))" .
  then show "Save lib wr c file = (ok, c', file') \<Longrightarrow> map wu_ID (wc_Users (cf_Web c')) = map wu_ID (wc_Users (cf_Web c))"
    by (cases "hashSecrets lib (cf_Web c)") (auto simp: Save_def Let_def split: if_splits option.splits writeResult.splits)
qed

lemma Save_same:
  assumes "Save lib wr c file = (True, c', file')"
  shows "cf_Server c' = cf_Server c \<and> cf_DNSSEC c' = cf_DNSSEC c \<and> cf_UpstreamHealth c' = cf_UpstreamHealth c \<and> cf_DHCP c' = cf_DHCP c \<and>
    wc_Tokens (cf_Web c') = map (hashToken lib) (wc_Tokens (cf_Web c))"
  using assms by (auto simp: Save_def Let_def hashSecrets_tokens split: prod.splits if_splits option.splits writeResult.splits)

lemma saved_config:
  assumes "applyPayload E p s = (Inr rs, s')"
  shows "sv_AllowFrom (cf_Server (as_Cfg s')) = [] \<and> wc_Tokens (cf_Web (as_Cfg s')) = [] \<and> \<not> dx_ValidateLocally (cf_DNSSEC (as_Cfg s')) \<and>
    \<not> uh_Enabled (cf_UpstreamHealth (as_Cfg s'))"
proof -
  obtain users sec cfg routes ups where a: "cfg_validate (configFromPayload p users sec) = Inr cfg"
    "persistConfig E cfg rs (liveApply E cfg routes ups s) = (Inr rs, s')"
    by (rule applyPayload_Inr[OF assms]) blast
  obtain file' where b: "Save (ap_lib E) (ap_write E) cfg (as_File s) = (True, as_Cfg s', file')"
    by (rule persistConfig_Inr[OF a(2)]) (auto simp: liveApply_other)
  have "untouched cfg = untouched (configFromPayload p users sec)" by (rule validate_untouched[OF a(1)])
  then show ?thesis using Save_same[OF b]
    by (simp add: untouched_def configFromPayload_def serverPayload.defs ServerConfig.defs dnssecPayload.defs DNSSECConfig.defs)
qed

text \<open>A save of the page that shows a given valid configuration, with the accounts of the running one.\<close>

lemma forget_sections:
  "cf_UpstreamRoutes (forget c) = cf_UpstreamRoutes c" "cf_Upstreams (forget c) = cf_Upstreams c" "cf_Cache (forget c) = cf_Cache c"
  "cf_TLS (forget c) = cf_TLS c" "cf_Log (forget c) = cf_Log c" "cf_Tunnel (forget c) = cf_Tunnel c" "cf_DHCP (forget c) = cf_DHCP c"
  "cf_Server (forget c) = (cf_Server c)\<lparr>sv_AllowFrom := []\<rparr>"
  by (simp_all add: forget_def)

lemma forget_restart: "restartSections h c (forget c) = (if sv_AllowFrom (cf_Server c) = [] then [] else [''server (listeners)''])"
proof -
  have "cf_Server c = (cf_Server c)\<lparr>sv_AllowFrom := []\<rparr> \<longleftrightarrow> sv_AllowFrom (cf_Server c) = []"
    by (cases "cf_Server c") simp
  then show ?thesis by (simp add: restartSections_def forget_sections)
qed

lemma page_reaches_write:
  assumes "settled c" "durationsOK c" "cf_Web c = cf_Web (as_Cfg s)" "wc_Users (cf_Web c) \<noteq> []"
    and "ParseRoutes (parseName E) (cf_UpstreamRoutes c) = Inr routes" "newUpstreams E (as_Cfg s) (forget c) = Inr ups"
  shows "applyPayload E (payloadFromConfig c) s =
    persistConfig E (forget c) (restartSections (as_DHCP s \<noteq> None) (as_Cfg s) (forget c)) (liveApply E (forget c) routes ups s)"
proof -
  let ?us = "wc_Users (cf_Web c)"
  have users: "resolveWebUsers ?us (ap_ids E) (pl_Users (payloadFromConfig c)) = Inr ?us"
    using settled_users[OF assms(1)] by (auto simp: resolveWebUsers_def payloadFromConfig_def usersError_None intro!: mergeUsers_same)
  have cfg: "configFromPayload (payloadFromConfig c) ?us (wc_SessionSecret (cf_Web c)) = forget c"
    using page_config[OF assms(2)] settled_auto_block[OF assms(1)] by blast
  have "cfg_validate (forget c) = Inr (forget c)" by (intro settled_validates settled_forget assms(1,4))
  then show ?thesis using assms(5,6) no_bad_duration[OF assms(2)] users cfg
    by (simp add: applyPayload_def rotateSecretIfUsersChanged_def forget_sections assms(3)[symmetric] Let_def)
qed

lemma page_save:
  assumes "settled c" "durationsOK c" "cf_Web c = cf_Web (as_Cfg s)" "wc_Users (cf_Web c) \<noteq> []" "list_all hashedUser (wc_Users (cf_Web c))"
    and "ParseRoutes (parseName E) (cf_UpstreamRoutes c) = Inr routes" "newUpstreams E (as_Cfg s) (forget c) = Inr ups"
    and "yaml_Marshal (ap_lib E) (forget c) = Some data" "ap_write E = Written"
  shows "\<exists>s'. applyPayload E (payloadFromConfig c) s = (Inr (restartSections (as_DHCP s \<noteq> None) (as_Cfg s) (forget c)), s') \<and>
    as_Cfg s' = forget c \<and> as_File s' = Content data"
proof -
  have "secretsHashed (cf_Web (forget c))" using assms(5) by (simp add: secretsHashed_def forget_def hashedTokens_def)
  from Save_hashed[OF this assms(8)] have "Save (ap_lib E) (ap_write E) (forget c) f = (True, forget c, Content data)" for f
    using assms(9) by simp
  then show ?thesis using page_reaches_write[OF assms(1-4,6,7)] by (simp add: persistConfig_def)
qed

text \<open>What a reload installs.\<close>

lemma reloadSwap_settings:
  fixes s :: "'re apiState"
  shows "ns_ACL (hd_settings (as_DNS (reloadSwap E R cfg nc ups routes None s))) = None"
    "ns_DNSSECValidateLocally (hd_settings (as_DNS (reloadSwap E R cfg nc ups routes acl s))) = dx_ValidateLocally (cf_DNSSEC cfg)"
    "ns_UpstreamHealthCheck (hd_settings (as_DNS (reloadSwap E R cfg nc ups routes acl s))) = uh_Enabled (cf_UpstreamHealth cfg)"
proof -
  let ?ns = "\<lambda>acl. hd_settings (as_DNS (reloadSwap E R cfg nc ups routes acl s))"
  have i: "hd_settings (as_DNS (installOpt x f t)) = hd_settings (f (map_option (\<lambda>_. length (as_heap t)) x) (as_DNS t))" for x f and t :: "'re apiState"
    by (simp add: installOpt_def onDNS_def install_def split: option.split)
  show "ns_ACL (?ns None) = None" by (simp add: reloadSwap_def i onDNS_def SetACL_def SetCookies_def SetPadding_def SetUpstreamHealthCheck_def swapSettings_def Let_def)
  show "ns_UpstreamHealthCheck (?ns acl) = uh_Enabled (cf_UpstreamHealth cfg)"
    by (simp add: reloadSwap_def onDNS_def SetCookies_def SetPadding_def SetUpstreamHealthCheck_def swapSettings_def Let_def)
  have v: "ns_DNSSECValidateLocally (hd_settings (SetACL y h)) = ns_DNSSECValidateLocally (hd_settings h)" for y h by (simp add: SetACL_def swapSettings_def)
  show "ns_DNSSECValidateLocally (?ns acl) = dx_ValidateLocally (cf_DNSSEC cfg)"
    by (simp add: reloadSwap_def i v onDNS_def SetCookies_def SetPadding_def SetUpstreamHealthCheck_def SetDNSSECValidateLocally_def swapSettings_def Let_def)
qed

lemma reloadSwap_other:
  "as_Cfg (reloadSwap E R cfg nc ups routes acl s) = as_Cfg s"
  "as_DHCP (reloadSwap E R cfg nc ups routes acl s) = map_option (reloadDHCP R (ap_now E) (cf_DHCP cfg)) (as_DHCP s)"
  by (simp_all add: reloadSwap_def step_other Let_def)

lemma Reload_None:
  assumes "Reload E R s = (None, s')"
  obtains nc ups routes acl where "BuildACL (sv_AllowFrom (cf_Server (as_Cfg s))) = Inr acl"
    "s' = reloadSwap E R (as_Cfg s) nc ups routes acl (s\<lparr>as_ServerTimeout := rv_ServerTimeout (cf_Recursive (as_Cfg s))\<rparr>)"
  using assms by (auto simp: Reload_def Let_def split: option.splits sum.splits if_splits intro: that)

section \<open>DHCP listeners\<close>

definition listening :: "dhcpServer \<Rightarrow> bool \<times> bool" where
  "listening srv = (ds_v4srv srv, ds_v6srv srv)"

lemma SetConfig_listening: "listening (dhcp_SetConfig srv now c) = listening srv" "ds_cfg (dhcp_SetConfig srv now c) = c"
proof -
  have f: "listening (fold (loadOne now) ls t) = listening t \<and> ds_cfg (fold (loadOne now) ls t) = ds_cfg t" for ls t
    by (induction ls arbitrary: t) (auto simp: loadOne_def installLease_def newLease_def listening_def)
  have "listening (loadLocked t now) = listening t \<and> ds_cfg (loadLocked t now) = ds_cfg t" for t
    using f by (simp add: loadLocked_def split: option.split)
  moreover have "listening (rebuildHostsLocked t) = listening t \<and> ds_cfg (rebuildHostsLocked t) = ds_cfg t" for t
    by (simp add: rebuildHostsLocked_def setHosts_def listening_def)
  ultimately show "listening (dhcp_SetConfig srv now c) = listening srv" "ds_cfg (dhcp_SetConfig srv now c) = c"
    by (simp_all add: dhcp_SetConfig_def Let_def) (simp add: listening_def)
qed

lemma run_passes:
  assumes "runChecks fs c = Inr c'" "set fs \<subseteq> set allChecks" "f \<in> set fs"
  shows "\<exists>a b. f a = Inr b \<and> untouched a = untouched c'"
  using assms
proof (induction fs arbitrary: c)
  case (Cons g gs)
  then obtain c1 where c1: "g c = Inr c1" "runChecks gs c1 = Inr c'" by (auto split: sum.splits)
  have "untouched c' = untouched c" by (rule run_untouched[OF Cons.prems(2,1)])
  then show ?case using Cons.IH[OF c1(2)] Cons.prems(2,3) c1(1) by (cases "f = g") auto
qed simp

lemma validated_subnet: "cfg_validate c = Inr c' \<Longrightarrow> dy_Enabled (cf_DHCP c') \<Longrightarrow> ParseCIDR (dy_Subnet (cf_DHCP c')) \<noteq> None"
proof -
  assume v: "cfg_validate c = Inr c'" and e: "dy_Enabled (cf_DHCP c')"
  obtain a b where "checkDHCP a = Inr b" "untouched a = untouched c'"
    using run_passes[of allChecks c c' checkDHCP] v by (auto simp: cfg_validate_def check_lists)
  then have "validateDHCP (cf_DHCP c') = None" by (auto simp: untouched_def checkDHCP_def split: option.splits)
  then show ?thesis using e by (cases "ParseCIDR (dy_Subnet (cf_DHCP c'))") (simp_all add: validateDHCP_def)
qed

text \<open>A reload with the configuration the server already runs leaves its listeners as they are.\<close>

lemma reloadDHCP_same:
  assumes "dy_Enabled c \<Longrightarrow> ParseCIDR (dy_Subnet c) \<noteq> None" "ds_cfg srv = ConfigFrom c addrs"
  shows "listening (reloadDHCP R now c srv) = listening srv"
proof -
  have "ParseCIDR [] = None" by (simp add: ParseCIDR_def IndexByte_def)
  then have "dhcp_Enabled srv \<longleftrightarrow> dy_Enabled c \<and> (dy_Subnet c \<noteq> [] \<or> dy_IPv6 c \<and> dy_IPv6Prefix c \<noteq> [])"
    using assms by (cases "dy_Subnet c = []") (auto simp: dhcp_Enabled_def ConfigFrom_def)
  moreover have "dc_Interface (ds_cfg srv) = dy_Interface c" using assms(2) by (simp add: ConfigFrom_def)
  ultimately show ?thesis by (auto simp: reloadDHCP_def SetConfig_listening Let_def)
qed

lemma save_reload_listening:
  assumes "applyPayload E p s = (Inr rs, s1)" "Reload E' R s1 = (None, s2)" "as_DHCP s = Some srv"
  shows "\<exists>srv2. as_DHCP s2 = Some srv2 \<and> listening srv2 = listening srv"
proof -
  obtain users sec cfg routes ups where a: "cfg_validate (configFromPayload p users sec) = Inr cfg"
    "persistConfig E cfg rs (liveApply E cfg routes ups s) = (Inr rs, s1)"
    by (rule applyPayload_Inr[OF assms(1)]) blast
  obtain file' where b: "Save (ap_lib E) (ap_write E) cfg (as_File s) = (True, as_Cfg s1, file')"
    "as_DHCP s1 = as_DHCP (liveApply E cfg routes ups s)"
    by (rule persistConfig_Inr[OF a(2)]) (auto simp: liveApply_other)
  let ?srv = "dhcp_SetConfig srv (ap_now E) (dhcpRuntimeConfig srv (cf_DHCP cfg))"
  have "as_DHCP s1 = Some ?srv" using b(2) assms(3) by (simp add: liveApply_other)
  moreover have "cf_DHCP (as_Cfg s1) = cf_DHCP cfg" using Save_same[OF b(1)] by simp
  ultimately have "as_DHCP s2 = Some (reloadDHCP R (ap_now E') (cf_DHCP cfg) ?srv)"
    by (rule_tac Reload_None[OF assms(2)]) (simp add: reloadSwap_other)
  moreover have "\<exists>addrs. ds_cfg ?srv = ConfigFrom (cf_DHCP cfg) addrs" by (auto simp: SetConfig_listening dhcpRuntimeConfig_def Let_def)
  then have "listening (reloadDHCP R (ap_now E') (cf_DHCP cfg) ?srv) = listening srv"
    using reloadDHCP_same[of "cf_DHCP cfg" ?srv] validated_subnet[OF a(1)] by (auto simp: SetConfig_listening)
  ultimately show ?thesis by simp
qed

end
