(* ===== verification/ConfigTheorems.thy ===== *)
theory ConfigTheorems
  imports ConfigApiProps
begin

text \<open>
  The main results on the configuration and the settings page.
\<close>

section \<open>A running server for the examples\<close>

definition sampleCfg :: Config where
  "sampleCfg = Default\<lparr>cf_Server := (cf_Server Default)\<lparr>sv_XFFHopLimit := 1, sv_AllowFrom := [''10.0.0.0/8'']\<rparr>,
     cf_Web := \<lparr>wc_Username = [], wc_Password = [], wc_SessionSecret = ''s3'', wc_Tokens = [],
       wc_Users = [\<lparr>wu_ID = ''u1'', wu_Username = ''admin'', wu_Password = ''$2a$x'', wu_Role = ''admin''\<rparr>]\<rparr>\<rparr>"

definition sampleLib :: cfgLib where
  "sampleLib = \<lparr>GenerateFromPassword = (\<lambda>p. Some (''$2a$'' @ p)), Sum256Hex = (\<lambda>t. replicate 64 CHR ''0''), yaml_Marshal = (\<lambda>c. Some ''yaml''),
     yaml_Unmarshal = (\<lambda>data c. Some c)\<rparr>"

definition sampleEnv :: "string apiEnv" where
  "sampleEnv = \<lparr>ap_lib = sampleLib, ap_filter = plain_env,
     ap_urlParse = (\<lambda>s. Some \<lparr>u_Scheme = ''udp'', u_Host = s, u_Hostname = s, u_Port = ''53'', u_Path = [], u_String = s\<rparr>), ap_withPath = (\<lambda>u p. u_String u),
     ap_ids = [], ap_secret = None, ap_write = Written, ap_disk = (\<lambda>_. None), ap_now = 0\<rparr>"

definition sampleState :: "string apiState" where
  "sampleState = \<lparr>as_Cfg = sampleCfg, as_File = NotExist, as_heap = [OCache (cacheOf False None 0 0)],
     as_DNS = NewHandler (Some 0) (cf_Upstreams Default) ''nxdomain'' 600 (5 * Second) 0 0, as_Upstreams = cf_Upstreams Default,
     as_ServerTimeout = 0, as_Cache = 0, as_Lists = NewListManager NewEngine [], as_GroupASN = None,
     as_Warmer = None, as_DHCP = Some (dhcpNew None), as_rebuilds = []\<rparr>"

definition sampleReload :: reloadEnv where
  "sampleReload = \<lparr>re_cache = Some (cacheOf False None 0 0), re_tls = True, re_listen = True, re_asn = None,
     re_addrs = \<lparr>ha_IPv4 = [], ha_IPv6 = [], ha_MAC = None\<rparr>, re_persist = True, re_bind4 = True, re_bind6 = True\<rparr>"

definition dhcpCfg :: Config where
  "dhcpCfg = sampleCfg\<lparr>cf_DHCP := (cf_DHCP sampleCfg)\<lparr>dy_Enabled := True, dy_Interface := ''eth0'', dy_Subnet := ''192.168.1.0/24'',
     dy_RangeStart := ''192.168.1.10'', dy_RangeEnd := ''192.168.1.20''\<rparr>\<rparr>"

lemma sample_ports: "webPort ''0.0.0.0:443'' = 443" "webPort ''0.0.0.0:8080'' = 8080"
proof -
  have "SplitHostPort ''0.0.0.0:443'' = Some (''0.0.0.0'', ''443'')" "SplitHostPort ''0.0.0.0:8080'' = Some (''0.0.0.0'', ''8080'')" by code_simp+
  moreover have "dec_val 0 ''443'' = Some 443" "dec_val 0 ''8080'' = Some 8080" by (simp_all add: is_digit_def digitVal_def)
  ultimately show "webPort ''0.0.0.0:443'' = 443" "webPort ''0.0.0.0:8080'' = 8080"
    by (simp_all add: webPort_def atoiOr0_def HasPrefix_def Let_def)
qed

lemma sample_levels: "logLevelOK []"
  by code_simp

lemma dhcp_valid: "validateDHCP (cf_DHCP dhcpCfg) = None"
  by code_simp

lemmas sample_defs = sampleCfg_def Default_def noACME_def noVPN_def

lemmas check_defs = settled_def check_lists require_def checkEntries_def checkMode_def checkRoutes_def validateVPN_def checkDHCP_def checkXFF_def
  checkACME_def checkRedirect_def checkUsers_def checkGroups_def geoEntries_def someListener_def sharedPort_def webURL_def sample_levels sample_ports

lemma sample_settled: "settled sampleCfg"
  by (simp add: check_defs sample_defs validateDHCP_def Let_def)

lemma dhcp_settled: "settled dhcpCfg"
  using dhcp_valid by (simp add: check_defs dhcpCfg_def sample_defs Let_def)

lemma sample_durations: "durationsOK sampleCfg" "durationsOK dhcpCfg"
  by (simp_all add: durationsOK_def shownDurations_def dhcpCfg_def sample_defs maxDuration_def minDuration_def Let_def)

lemma sample_users: "wc_Users (cf_Web sampleCfg) \<noteq> []" "list_all hashedUser (wc_Users (cf_Web sampleCfg))"
  by (simp_all add: sampleCfg_def hashedUser_def isBcrypt_def HasPrefix_def)

lemma sample_routes: "ParseRoutes (parseName sampleEnv) (cf_UpstreamRoutes sampleCfg) = Inr []"
  by (simp add: sample_defs)

lemma sample_restart:
  "restartSections True sampleCfg (forget sampleCfg) = [''server (listeners)'']" "restartSections True sampleCfg (forget dhcpCfg) = [''server (listeners)'', ''dhcp (listeners)'']"
  by (simp_all add: restartSections_def forget_def dhcpCfg_def sample_defs dhcpBindConfig_def)

lemma sample_save:
  assumes "c \<in> {sampleCfg, dhcpCfg}"
  shows "\<exists>s'. applyPayload sampleEnv (payloadFromConfig c) sampleState = (Inr (restartSections True sampleCfg (forget c)), s') \<and> as_Cfg s' = forget c"
proof -
  have same: "cf_UpstreamRoutes c = cf_UpstreamRoutes sampleCfg" "cf_Upstreams c = cf_Upstreams sampleCfg" "cf_Web c = cf_Web sampleCfg"
    "settled c" "durationsOK c" using assms sample_settled dhcp_settled sample_durations by (auto simp: dhcpCfg_def)
  have "newUpstreams sampleEnv (as_Cfg sampleState) (forget c) = Inr None" by (simp add: newUpstreams_def sampleState_def forget_sections same)
  then show ?thesis using page_save[of c sampleState sampleEnv "[]" None "''yaml''"] same sample_users sample_routes
    by (auto simp: sampleState_def sampleEnv_def sampleLib_def)
qed

lemma sample_reload:
  assumes "as_Cfg s1 = forget c" "c \<in> {sampleCfg, dhcpCfg}"
  shows "\<exists>s2. Reload sampleEnv sampleReload s1 = (None, s2)"
proof -
  have "cf_Upstreams (forget c) = [''udp://1.1.1.1:53'', ''udp://8.8.8.8:53'']" "cf_UpstreamRoutes (forget c) = []" "sv_AllowFrom (cf_Server (forget c)) = []"
    using assms(2) by (auto simp: forget_def dhcpCfg_def sample_defs)
  moreover have "parseName sampleEnv ''udp://1.1.1.1:53'' = Inr ''udp://1.1.1.1:53''" "parseName sampleEnv ''udp://8.8.8.8:53'' = Inr ''udp://8.8.8.8:53''"
    by code_simp+
  ultimately show ?thesis using assms(1) by (simp add: Reload_def sampleReload_def BuildACL_def Let_def)
qed

section \<open>Validation\<close>

text \<open>Validating an accepted configuration again accepts it and changes nothing, as long as no domain of it ends in two dots; and
  validation never touches the query ACL, the DNSSEC, health and rate-limit sections, the accounts or the DHCP section.\<close>

theorem validate_idempotent:
  assumes "settledDomains c" "cfg_validate c = Inr c'"
  shows "cfg_validate c' = Inr c' \<and> sv_AllowFrom (cf_Server c') = sv_AllowFrom (cf_Server c) \<and> cf_DNSSEC c' = cf_DNSSEC c \<and>
    cf_UpstreamHealth c' = cf_UpstreamHealth c \<and> cf_Web c' = cf_Web c \<and> cf_DHCP c' = cf_DHCP c \<and> cf_RateLimit c' = cf_RateLimit c"
  using cfg.idem[OF assms(1)] assms(2) validate_untouched[OF assms(2)] by (simp add: cfg_validate_def untouched_def)

theorem validate_idempotent_witness:
  "cfg_validate (sampleCfg\<lparr>cf_UpstreamMode := []\<rparr>) = Inr sampleCfg \<and> cfg_validate sampleCfg = Inr sampleCfg"
proof -
  have "runChecks (checkMode # fs) (sampleCfg\<lparr>cf_UpstreamMode := []\<rparr>) = runChecks fs sampleCfg" for fs by (simp add: checkMode_def sample_defs)
  moreover have "runChecks (checkMode # fs) sampleCfg = runChecks fs sampleCfg" for fs by (simp add: checkMode_def sample_defs)
  ultimately have "cfg_validate (sampleCfg\<lparr>cf_UpstreamMode := []\<rparr>) = cfg_validate sampleCfg"
    by (simp add: cfg_validate_def allChecks_def require_def sample_defs)
  then have v: "cfg_validate (sampleCfg\<lparr>cf_UpstreamMode := []\<rparr>) = Inr sampleCfg" using settled_validates[OF sample_settled] by simp
  moreover have "settledDomains (sampleCfg\<lparr>cf_UpstreamMode := []\<rparr>)" by (simp add: settledDomains_def sample_defs)
  ultimately show ?thesis using validate_idempotent[of "sampleCfg\<lparr>cf_UpstreamMode := []\<rparr>" sampleCfg] by simp
qed

text \<open>A domain of two dots is accepted and stored as one dot, which the next start of the server rejects.\<close>

theorem dotdot_domain_breaks_restart:
  "\<exists>c'. cfg_validate (sampleCfg\<lparr>cf_UpstreamRoutes := [\<lparr>rs_Domain = ''..'', rs_Upstreams = [''udp://10.0.0.1'']\<rparr>]\<rparr>) = Inr c' \<and>
    cf_UpstreamRoutes c' = [\<lparr>rs_Domain = ''.'', rs_Upstreams = [''udp://10.0.0.1'']\<rparr>] \<and>
    cfg_validate c' = Inl (BadEntry ''upstream_routes.domain'' 0)"
proof -
  let ?rt = "\<lambda>d. sampleCfg\<lparr>cf_UpstreamRoutes := [\<lparr>rs_Domain = d, rs_Upstreams = [''udp://10.0.0.1'']\<rparr>]\<rparr>"
  have n: "config_normalizeDomain ''..'' = ''.''" "config_normalizeDomain ''.'' = []" by code_simp+
  have "cfg_validate (?rt ''..'') = Inr (?rt ''.'')"
    by (simp add: cfg_validate_def check_defs routeEntry_def n sample_defs validateDHCP_def Let_def)
  moreover have "cfg_validate (?rt ''.'') = Inl (BadEntry ''upstream_routes.domain'' 0)"
    by (simp add: cfg_validate_def check_defs routeEntry_def n sample_defs Let_def)
  ultimately show ?thesis by simp
qed

lemma userByUsername_distinct: "distinct (map wu_Username us) \<Longrightarrow> u \<in> set us \<Longrightarrow> userByUsername us (wu_Username u) = Some u"
  by (induction us) auto

text \<open>In an accepted configuration every account is the one found under its name, an administrator is among them, an enabled rate limit
  admits at least one query per second and its burst holds a second's worth, and automatic blocks have a positive length.\<close>

theorem validated_settings_usable:
  assumes "cfg_validate c = Inr c'"
  shows "list_all (\<lambda>u. userByUsername (wc_Users (cf_Web c')) (wu_Username u) = Some u) (wc_Users (cf_Web c')) \<and>
    (wc_Users (cf_Web c') = [] \<or> list_ex (\<lambda>u. wu_Role u = ''admin'') (wc_Users (cf_Web c'))) \<and>
    (rc_Enabled (cf_RateLimit c') \<longrightarrow> 1 \<le> rc_QPS (cf_RateLimit c') \<and> rc_QPS (cf_RateLimit c') \<le> rc_Burst (cf_RateLimit c')) \<and>
    (rc_AutoBlock (cf_RateLimit c') \<longrightarrow> rc_Enabled (cf_RateLimit c') \<and> 1 \<le> rc_BlockAfter (cf_RateLimit c') \<and> 0 < rc_BlockFor (cf_RateLimit c'))"
proof -
  note passes = run_passes[OF assms[unfolded cfg_validate_def] subset_refl]
  obtain a b where "checkUsers a = Inr b" "cf_Web a = cf_Web c'" using passes[of checkUsers] by (auto simp: check_lists untouched_def)
  then have users: "usersError 0 [] [] (wc_Users (cf_Web c')) = None" "wc_Users (cf_Web c') = [] \<or> list_ex (\<lambda>u. wu_Role u = ''admin'') (wc_Users (cf_Web c'))"
    by (auto simp: checkUsers_def Let_def split: option.splits if_splits)
  have limits: "ok (cf_RateLimit c')" if "require (\<lambda>c. ok (cf_RateLimit c)) key \<in> set allChecks" for ok :: "RateLimitSection \<Rightarrow> bool" and key
    using passes[OF that] by (auto simp: passed untouched_def)
  have "rc_AutoBlock (cf_RateLimit c') \<longrightarrow> rc_Enabled (cf_RateLimit c')" "rc_Enabled (cf_RateLimit c') \<longrightarrow> 1 \<le> rc_QPS (cf_RateLimit c')"
    "rc_Enabled (cf_RateLimit c') \<longrightarrow> rc_QPS (cf_RateLimit c') \<le> rc_Burst (cf_RateLimit c')"
    "rc_Enabled (cf_RateLimit c') \<and> rc_AutoBlock (cf_RateLimit c') \<longrightarrow> 1 \<le> rc_BlockAfter (cf_RateLimit c')"
    "rc_Enabled (cf_RateLimit c') \<and> rc_AutoBlock (cf_RateLimit c') \<longrightarrow> 0 < rc_BlockFor (cf_RateLimit c')"
    using limits[of "\<lambda>r. rc_AutoBlock r \<longrightarrow> rc_Enabled r" "''rate_limit.auto_block''"] limits[of "\<lambda>r. rc_Enabled r \<longrightarrow> rc_QPS r \<ge> 1" "''rate_limit.qps''"]
      limits[of "\<lambda>r. rc_Enabled r \<longrightarrow> rc_Burst r \<ge> rc_QPS r" "''rate_limit.burst''"]
      limits[of "\<lambda>r. rc_Enabled r \<and> rc_AutoBlock r \<longrightarrow> rc_BlockAfter r \<ge> 1" "''rate_limit.block_after''"]
      limits[of "\<lambda>r. rc_Enabled r \<and> rc_AutoBlock r \<longrightarrow> rc_BlockFor r > 0" "''rate_limit.block_for''"]
    by (simp_all add: allChecks_def limitChecks_def Let_def)
  moreover have "list_all (\<lambda>u. userByUsername (wc_Users (cf_Web c')) (wu_Username u) = Some u) (wc_Users (cf_Web c'))"
    using users(1) userByUsername_distinct by (auto simp: usersError_None list_all_iff)
  ultimately show ?thesis using users(2) by blast
qed

theorem validated_settings_usable_witness:
  "cfg_validate sampleCfg = Inr sampleCfg \<and>
   userByUsername (wc_Users (cf_Web sampleCfg)) ''admin'' = Some \<lparr>wu_ID = ''u1'', wu_Username = ''admin'', wu_Password = ''$2a$x'', wu_Role = ''admin''\<rparr>"
  using validated_settings_usable[OF settled_validates[OF sample_settled]] settled_validates[OF sample_settled] by (simp add: sampleCfg_def)

section \<open>The settings page\<close>



text \<open>C36: After any save of the page followed by a reload the server answers every client: no ACL is installed, answers are not validated
  locally, upstreams are not health-checked, and no API token is accepted.\<close>

theorem save_and_reload_opens_resolver:
  assumes "applyPayload E p s = (Inr rs, s1)" "Reload E' R s1 = (None, s2)"
  shows "ns_ACL (hd_settings (as_DNS s2)) = None \<and> \<not> ns_DNSSECValidateLocally (hd_settings (as_DNS s2)) \<and>
    \<not> ns_UpstreamHealthCheck (hd_settings (as_DNS s2)) \<and> validToken k r (wc_Tokens (cf_Web (as_Cfg s2))) = None"
proof -
  note c = saved_config[OF assms(1)]
  obtain nc ups routes acl where r: "BuildACL (sv_AllowFrom (cf_Server (as_Cfg s1))) = Inr acl"
    "s2 = reloadSwap E' R (as_Cfg s1) nc ups routes acl (s1\<lparr>as_ServerTimeout := rv_ServerTimeout (cf_Recursive (as_Cfg s1))\<rparr>)"
    by (rule Reload_None[OF assms(2)])
  then have "acl = None" using c by (simp add: BuildACL_def)
  then show ?thesis using c r(2) by (simp add: reloadSwap_settings reloadSwap_other validToken_def Let_def)
qed

theorem save_and_reload_opens_resolver_witness:
  "\<exists>s1 s2. applyPayload sampleEnv (payloadFromConfig sampleCfg) sampleState = (Inr [''server (listeners)''], s1) \<and>
    Reload sampleEnv sampleReload s1 = (None, s2) \<and> ns_ACL (hd_settings (as_DNS s2)) = None \<and> sv_AllowFrom (cf_Server (as_Cfg sampleState)) = [''10.0.0.0/8'']"
proof -
  obtain s1 where s1: "applyPayload sampleEnv (payloadFromConfig sampleCfg) sampleState = (Inr [''server (listeners)''], s1)" "as_Cfg s1 = forget sampleCfg"
    using sample_save[of sampleCfg] sample_restart by auto
  obtain s2 where s2: "Reload sampleEnv sampleReload s1 = (None, s2)" using sample_reload[OF s1(2)] by auto
  from save_and_reload_opens_resolver[OF s1(1) s2] show ?thesis using s1(1) s2 by (auto simp: sampleState_def sample_defs)
qed

text \<open>C40: A save followed by a reload never opens or closes a DHCP listener, whatever it did to the DHCP section: the save has already
  given the new configuration to the server when the reload compares the two.\<close>

theorem dhcp_listeners_ignore_dashboard:
  assumes "applyPayload E p s = (Inr rs, s1)" "Reload E' R s1 = (None, s2)" "as_DHCP s = Some srv"
  shows "\<exists>srv2. as_DHCP s2 = Some srv2 \<and> ds_v4srv srv2 = ds_v4srv srv \<and> ds_v6srv srv2 = ds_v6srv srv"
  using save_reload_listening[OF assms] by (simp add: listening_def)

theorem dhcp_listeners_ignore_dashboard_witness:
  "\<exists>s1 s2 srv2. applyPayload sampleEnv (payloadFromConfig dhcpCfg) sampleState = (Inr [''server (listeners)'', ''dhcp (listeners)''], s1) \<and>
    Reload sampleEnv sampleReload s1 = (None, s2) \<and> dy_Enabled (cf_DHCP (as_Cfg s1)) \<and> as_DHCP s2 = Some srv2 \<and> \<not> ds_v4srv srv2"
proof -
  obtain s1 where s1: "applyPayload sampleEnv (payloadFromConfig dhcpCfg) sampleState = (Inr [''server (listeners)'', ''dhcp (listeners)''], s1)" "as_Cfg s1 = forget dhcpCfg"
    using sample_save[of dhcpCfg] sample_restart by auto
  obtain s2 where s2: "Reload sampleEnv sampleReload s1 = (None, s2)" using sample_reload[OF s1(2)] by auto
  have "as_DHCP sampleState = Some (dhcpNew None)" "\<not> ds_v4srv (dhcpNew None)" by (simp_all add: sampleState_def dhcpNew_def)
  then obtain srv2 where "as_DHCP s2 = Some srv2" "\<not> ds_v4srv srv2"
    using dhcp_listeners_ignore_dashboard[OF s1(1) s2] by auto
  moreover have "dy_Enabled (cf_DHCP (as_Cfg s1))" using s1(2) by (simp add: forget_def dhcpCfg_def)
  ultimately show ?thesis using s1(1) s2 by blast
qed



text \<open>C39: A save that is refused leaves the server and the file as they were. One that fails at the write reports an error, yet the running
  configuration already has the new accounts; the session secret is kept, so that sessions opened before stay valid.\<close>

theorem failed_save:
  assumes "applyPayload E p s = (Inl e, s')"
  shows "if e \<noteq> SaveFailed then s' = s
    else wc_SessionSecret (cf_Web (as_Cfg s')) = wc_SessionSecret (cf_Web (as_Cfg s)) \<and> as_rebuilds s' = as_rebuilds s \<and>
      (\<exists>users. resolveWebUsers (wc_Users (cf_Web (as_Cfg s))) (ap_ids E) (pl_Users p) = Inr users \<and>
        map wu_ID (wc_Users (cf_Web (as_Cfg s'))) = map wu_ID users)"
proof (cases "e = SaveFailed")
  case False
  then show ?thesis using assms by (auto simp: applyPayload_def persistConfig_def Let_def split: option.splits sum.splits prod.splits if_splits)
next
  case True
  have "mergeUsers us i ids vs \<noteq> Inl SaveFailed" for us i ids vs
    by (induction us i ids vs rule: mergeUsers.induct) (auto simp: Let_def split: option.splits sum.splits list.splits)
  then obtain users sec cfg routes ups where a: "resolveWebUsers (wc_Users (cf_Web (as_Cfg s))) (ap_ids E) (pl_Users p) = Inr users"
    "cfg_validate (configFromPayload p users sec) = Inr cfg"
    "persistConfig E cfg (restartSections (as_DHCP s \<noteq> None) (as_Cfg s) cfg) (liveApply E cfg routes ups s) = (Inl e, s')"
    using assms True by (auto simp: applyPayload_def resolveWebUsers_def Let_def split: option.splits sum.splits)
  obtain cfg' file' where b: "Save (ap_lib E) (ap_write E) cfg (as_File s) = (False, cfg', file')" "as_rebuilds s' = as_rebuilds s"
    "as_Cfg s' = cfg'\<lparr>cf_Web := (cf_Web cfg')\<lparr>wc_SessionSecret := wc_SessionSecret (cf_Web (as_Cfg s))\<rparr>\<rparr>"
    using a(3) by (auto simp: persistConfig_def liveApply_other split: prod.splits if_splits)
  have "cf_Web cfg = cf_Web (configFromPayload p users sec)" using validate_untouched[OF a(2)] by (simp add: untouched_def)
  then show ?thesis using True a(1) b Save_ids[OF b(1)] by (simp add: configFromPayload_def)
qed

theorem failed_save_witness:
  "\<exists>s'. applyPayload (sampleEnv\<lparr>ap_write := NotWritten\<rparr>) (payloadFromConfig sampleCfg) sampleState = (Inl SaveFailed, s') \<and>
    wc_SessionSecret (cf_Web (as_Cfg s')) = ''s3'' \<and> as_rebuilds s' = []"
proof -
  let ?E = "sampleEnv\<lparr>ap_write := NotWritten\<rparr>"
  have p: "applyPayload ?E (payloadFromConfig sampleCfg) sampleState =
      persistConfig ?E (forget sampleCfg) (restartSections (as_DHCP sampleState \<noteq> None) (as_Cfg sampleState) (forget sampleCfg))
        (liveApply ?E (forget sampleCfg) [] None sampleState)"
    using sample_settled sample_durations sample_users
    by (intro page_reaches_write) (simp_all add: sampleState_def newUpstreams_def forget_sections sample_defs)
  have "\<not> fst (Save lib NotWritten c f)" for lib c f by (simp add: Save_def Let_def split: prod.split option.split)
  then have "fst (persistConfig ?E c rs t) = Inl SaveFailed" for c rs and t :: "string apiState"
    by (cases "Save (ap_lib ?E) NotWritten c (as_File t)") (simp add: persistConfig_def, metis fst_conv)
  then obtain s' where s': "applyPayload ?E (payloadFromConfig sampleCfg) sampleState = (Inl SaveFailed, s')"
    unfolding p by (metis prod.collapse)
  from failed_save[OF s'] show ?thesis using s' by (auto simp: sampleState_def sampleCfg_def)
qed

section \<open>Secrets\<close>


definition plainCfg :: Config where
  "plainCfg = sampleCfg\<lparr>cf_Web := (cf_Web sampleCfg)\<lparr>wc_Users := [\<lparr>wu_ID = ''u1'', wu_Username = ''admin'', wu_Password = ''secret'', wu_Role = ''admin''\<rparr>]\<rparr>\<rparr>"


section \<open>Starting without a configuration file\<close>

text \<open>The application the web server authenticates against.\<close>

definition appOf :: "Config \<Rightarrow> LoginGuard \<Rightarrow> APIRateLimiter \<Rightarrow> WebApp" where
  "appOf c g l = \<lparr>wa_Users = wc_Users (cf_Web c), wa_SessionSecret = wc_SessionSecret (cf_Web c), wa_WebTLS = sv_WebTLS (cf_Server c),
     wa_Tokens = wc_Tokens (cf_Web c), wa_loginGuard = g, wa_apiRateLimiter = l\<rparr>"

text \<open>A server started without a configuration file writes the defaults and lets nobody into the web API: there is no account, no token
  and no session secret.\<close>

theorem fresh_install_locked:
  assumes "Load lib E NotExist = (Inr c, file)"
  shows "c = Default \<and> yaml_Marshal lib Default \<noteq> None \<and> fst (authorize k (appOf c g l) r now) \<noteq> Authorized"
proof -
  have "hashSecrets lib (cf_Web Default) = (True, cf_Web Default)" by (simp add: hashSecrets_def Default_def)
  then have c: "c = Default" "yaml_Marshal lib Default \<noteq> None"
    using assms by (auto simp: Load_def Save_def Let_def split: prod.splits if_splits option.splits writeResult.splits)
  have "wa_Users (appOf Default g l) = []" "wa_SessionSecret (appOf Default g l) = []" "wa_Tokens (appOf Default g l) = []"
    by (simp_all add: appOf_def Default_def)
  then have "fst (authorize k (appOf Default g l) r now) \<noteq> Authorized"
    by (auto simp: authorize_def validSession_def validToken_def Let_def split: option.splits prod.splits)
  then show ?thesis using c by simp
qed

theorem fresh_install_locked_witness:
  "Load sampleLib \<lparr>ld_userID = None, ld_secret = None, ld_write1 = Written, ld_write2 = Written\<rparr> NotExist = (Inr Default, Content ''yaml'') \<and>
   fst (authorize sample_crypto (appOf Default (wa_loginGuard sample_app) (wa_apiRateLimiter sample_app))
     \<lparr>r_Method = ''GET'', r_RemoteAddr = ''10.0.0.1:9'', r_XForwardedFor = [], r_Authorization = ''Bearer x'', r_SessionCookie = Some ''a.b''\<rparr> 0) \<noteq> Authorized"
proof -
  have "Load sampleLib \<lparr>ld_userID = None, ld_secret = None, ld_write1 = Written, ld_write2 = Written\<rparr> NotExist = (Inr Default, Content ''yaml'')"
    by (simp add: Load_def Save_def hashSecrets_def sampleLib_def Default_def)
  from fresh_install_locked[OF this] this show ?thesis by simp
qed

section \<open>Settings validation lets through or refuses by mistake\<close>

text \<open>The timeout has no upper bound: one above \<open>2 ^ 63\<close> nanoseconds wraps to a negative duration, so that every query times out.\<close>

lemma timeout_wraps:
  "let c = sampleCfg\<lparr>cf_Server := (cf_Server sampleCfg)\<lparr>sv_TimeoutSec := 9223372037\<rparr>\<rparr> in settled c \<and> timeoutOf (cf_Server c) < 0"
  by (simp add: check_defs sample_defs validateDHCP_def timeoutOf_def Let_def)

text \<open>A server for DNS over HTTP/3 alone is refused as one without listeners.\<close>

lemma doh3_only_refused:
  "cfg_validate (sampleCfg\<lparr>cf_Server := (cf_Server sampleCfg)\<lparr>sv_ListenUDP := [], sv_ListenTCP := [], sv_ListenDoT := [], sv_ListenDoH := [],
     sv_ListenDoQ := [], sv_ListenDoH3 := ''0.0.0.0:443''\<rparr>\<rparr>) = Inl (Bad ''server.listeners'')"
  by (simp add: cfg_validate_def check_defs sample_defs validateDHCP_def Let_def)

text \<open>An ACL entry that is no network is accepted by validation, and the next start or reload fails on it.\<close>

lemma bad_acl_accepted:
  "let c = sampleCfg\<lparr>cf_Server := (cf_Server sampleCfg)\<lparr>sv_AllowFrom := [''lan'']\<rparr>\<rparr> in settled c \<and> BuildACL (sv_AllowFrom (cf_Server c)) = Inl (acl_error.BadEntry ''lan'')"
proof -
  have "BuildACL [''lan''] = Inl (acl_error.BadEntry ''lan'')" by code_simp
  then show ?thesis by (simp add: check_defs sample_defs validateDHCP_def Let_def)
qed

end
