(* ===== verification/GoText.thy ===== *)
theory GoText
  imports GoStrings
begin

text \<open>
  More of Go's \<^verbatim>\<open>strings\<close> package: \<^verbatim>\<open>Contains\<close> and \<^verbatim>\<open>TrimRight\<close> for one byte, and the laws of \<^verbatim>\<open>Split\<close> the readers of lists
  in headers rely on.
\<close>

fun Contains :: "string \<Rightarrow> string \<Rightarrow> bool" where
  "Contains [] t = HasPrefix [] t"
| "Contains (c # s) t = (HasPrefix (c # s) t \<or> Contains s t)"

definition TrimRightByte :: "char \<Rightarrow> string \<Rightarrow> string" where
  "TrimRightByte c s = rev (dropWhile (\<lambda>x. x = c) (rev s))"

lemma Contains_iff: "Contains s t \<longleftrightarrow> (\<exists>a b. s = a @ t @ b)"
proof (induction s)
  case Nil
  then show ?case by (auto simp: HasPrefix_def)
next
  case (Cons c s)
  have "HasPrefix (c # s) t \<longleftrightarrow> (\<exists>b. c # s = t @ b)" by (metis HasPrefix_def append_eq_conv_conj)
  moreover have "(\<exists>a b. c # s = a @ t @ b) \<longleftrightarrow> (\<exists>b. c # s = t @ b) \<or> (\<exists>a b. s = a @ t @ b)"
    by (metis append_Nil append_eq_Cons_conv)
  ultimately show ?case using Cons.IH by simp
qed

lemma TrimRightByte_id: "s = [] \<or> last s \<noteq> c \<Longrightarrow> TrimRightByte c s = s"
  by (cases s rule: rev_cases) (simp_all add: TrimRightByte_def)

text \<open>A separator between two texts splits them.\<close>

lemma split_on_mid: "split_on sep (x @ sep # y) = split_on sep x @ split_on sep y"
proof (induction x)
  case (Cons c x)
  then show ?case using split_on_ne[of sep x] by (auto split: list.split)
qed simp

end
