(* ===== verification/Doh.thy ===== *)
theory Doh
  imports PipelineProps ConfigProps ConnLimit GoText
begin

text \<open>
  DNS over HTTPS (\<^verbatim>\<open>internal/dnsserver/doh.go\<close> and the settings of \<^verbatim>\<open>servers.go\<close> it reads): who the client behind a proxy is,
  the decoding of a request, the handler up to \<^verbatim>\<open>Handler.serve\<close>, and the connection cap of the HTTP listeners. An HTTP request
  is the part of it the handler reads: method, the decoded \<^verbatim>\<open>dns\<close> parameter, the lines of two headers, the bytes of the body with
  whether reading them ends in an error, and the address of the peer.
\<close>

section \<open>Requests and settings\<close>

record httpReq =
  rq_Method :: string
  rq_dns :: string
  rq_ContentType :: "string list"
  rq_XForwardedFor :: "string list"
  rq_Body :: "byte list \<times> bool"
  rq_RemoteAddr :: string

text \<open>\<^verbatim>\<open>Header.Get\<close>: the first line of a header.\<close>

definition Header_Get :: "string list \<Rightarrow> string" where
  "Header_Get ls = (case ls of [] \<Rightarrow> [] | l # _ \<Rightarrow> l)"

record dohManager =
  mg_trustedProxies :: "IPNet list"
  mg_xffHops :: int
  mg_asnHeader :: bool
  mg_asnHeaders :: nat

text \<open>\<^verbatim>\<open>SetProxyConfig\<close>: the networks of the entries, or the entry that is none.\<close>

definition proxyNet :: "string \<Rightarrow> IPNet option" where
  "proxyNet e =
     (let ip = ParseIP e in
      if ip \<noteq> [] then
        let bits = (if To4 ip = [] then 128 else 32) in Some \<lparr>net_IP = ip, net_Mask = CIDRMask (int bits) bits\<rparr>
      else map_option snd (ParseCIDR e))"

fun proxyNets :: "string list \<Rightarrow> string + IPNet list" where
  "proxyNets [] = Inr []"
| "proxyNets (e0 # es) =
     (let e = TrimSpace e0 in
      if e = [] then proxyNets es
      else case proxyNet e of
        None \<Rightarrow> Inl e
      | Some n \<Rightarrow> (case proxyNets es of Inl err \<Rightarrow> Inl err | Inr ns \<Rightarrow> Inr (n # ns)))"

definition SetProxyConfig :: "string list \<Rightarrow> int \<Rightarrow> dohManager \<Rightarrow> string + dohManager" where
  "SetProxyConfig proxies hopLimit m =
     (case proxyNets proxies of
        Inl err \<Rightarrow> Inl err
      | Inr nets \<Rightarrow> Inr (m\<lparr>mg_trustedProxies := nets, mg_xffHops := (if hopLimit < 1 then 1 else hopLimit)\<rparr>))"

definition SetDoHASNHeader :: "bool \<Rightarrow> dohManager \<Rightarrow> dohManager" where
  "SetDoHASNHeader on m = m\<lparr>mg_asnHeader := on\<rparr>"

section \<open>The client behind a proxy\<close>

definition IsPrivate :: "IP \<Rightarrow> bool" where
  "IsPrivate ip \<longleftrightarrow>
     (let ip4 = To4 ip in
      if ip4 \<noteq> [] then ip4 ! 0 = 10 \<or> ip4 ! 0 = 172 \<and> ip4 ! 1 AND 0xf0 = 16 \<or> ip4 ! 0 = 192 \<and> ip4 ! 1 = 168
      else length ip = 16 \<and> ip ! 0 AND 0xfe = 0xfc)"

definition peerHost :: "string \<Rightarrow> string" where
  "peerHost remote = (case SplitHostPort remote of None \<Rightarrow> remote | Some (host, _) \<Rightarrow> host)"

definition isTrustedProxy :: "string \<Rightarrow> IPNet list \<Rightarrow> bool" where
  "isTrustedProxy remote extra \<longleftrightarrow>
     (let ip = ParseIP (peerHost remote) in
      if ip = [] then False
      else if IsLoopback ip \<or> IsPrivate ip then True
      else list_ex (\<lambda>n. IPNet_Contains n ip) extra)"

definition doh_clientIPFromRequest :: "httpReq \<Rightarrow> IPNet list \<Rightarrow> int \<Rightarrow> string" where
  "doh_clientIPFromRequest r proxies hopLimit0 =
     (let xff = Header_Get (rq_XForwardedFor r);
          ip = (if xff \<noteq> [] \<and> isTrustedProxy (rq_RemoteAddr r) proxies then
                  let hopLimit = (if hopLimit0 < 1 then 1 else hopLimit0);
                      entries = split_on (CHR '','') xff;
                      idx = max (int (length entries) - hopLimit) 0
                  in ParseIP (TrimSpace (entries ! nat idx))
                else [])
      in if ip \<noteq> [] then IP_String ip else peerHost (rq_RemoteAddr r))"

section \<open>The handler\<close>

text \<open>An HTTP error with its status, or the message.\<close>

definition dohMessage :: "dnsLib \<Rightarrow> httpReq \<Rightarrow> (nat \<times> string) + Msg" where
  "dohMessage lib r =
     (if rq_Method r = ''GET'' then
        if rq_dns r = [] then Inl (400, ''missing dns parameter'')
        else case b64_DecodeString (TrimRightByte (CHR ''='') (rq_dns r)) of
          None \<Rightarrow> Inl (400, ''invalid dns parameter'')
        | Some raw \<Rightarrow> (case Unpack lib (map of_char raw) of None \<Rightarrow> Inl (400, ''malformed DNS message'') | Some m \<Rightarrow> Inr m)
      else if rq_Method r = ''POST'' then
        let ct = Header_Get (rq_ContentType r) in
        if ct \<noteq> [] \<and> \<not> Contains ct ''application/dns-message'' then Inl (415, ''unsupported content type'')
        else case rq_Body r of
          (body, fails) \<Rightarrow>
            if fails \<and> length body < 65536 then Inl (400, ''read error'')
            else (case Unpack lib (take 65536 body) of None \<Rightarrow> Inl (400, ''malformed DNS message'') | Some m \<Rightarrow> Inr m)
      else Inl (405, ''method not allowed''))"

datatype dohReply = HTTPError nat string | DNSReply "32 word" "event list"

text \<open>The writer's \<^verbatim>\<open>RemoteAddr\<close> prints as the client with the port 0; the number in a \<open>DNSReply\<close> is that of the response header,
  0 for none.\<close>

definition handleDoH :: "'re world \<Rightarrow> 're Settings \<Rightarrow> httpReq \<Rightarrow> string \<Rightarrow> dohManager \<Rightarrow> 're hstate \<Rightarrow> dohReply \<times> dohManager \<times> 're hstate" where
  "handleDoH wd cfg r proto dm st =
     (case dohMessage (w_lib wd) r of
        Inl (code, txt) \<Rightarrow> (HTTPError code txt, dm, st)
      | Inr msg \<Rightarrow>
          let clientIP = doh_clientIPFromRequest r (mg_trustedProxies dm) (mg_xffHops dm);
              ((asn, ok), st1) = (if mg_asnHeader dm then ClientASN cfg st clientIP else ((0, False), st));
              dm1 = (if ok then dm\<lparr>mg_asnHeaders := mg_asnHeaders dm + 1\<rparr> else dm);
              wd1 = wd\<lparr>w_remote := clientIPOf (OtherAddr (clientIP @ '':0''))\<rparr>;
              (ev, st2) = serve wd1 cfg (Some msg) clientIP proto st1
          in (DNSReply (if ok then asn else 0) ev, dm1, st2))"

section \<open>The connection cap of the HTTP listeners\<close>

text \<open>A connection is its identity and the address of its peer; \<open>acq\<close> are the connections that hold a slot.\<close>

datatype connState = StateNew | StateActive | StateIdle | StateHijacked | StateClosed

type_synonym httpConn = "nat \<times> Addr"

abbreviation connIP :: "httpConn \<Rightarrow> string" where "connIP c \<equiv> clientIPOf (snd c)"

definition HTTPConnState :: "httpConn \<Rightarrow> connState \<Rightarrow> connLimiter \<times> httpConn set \<Rightarrow> connLimiter \<times> httpConn set" where
  "HTTPConnState c s = (\<lambda>(cl, acq).
     if s = StateNew then (case acquire cl (connIP c) of (ok, cl2) \<Rightarrow> (cl2, if ok then insert c acq else acq))
     else if s = StateClosed \<or> s = StateHijacked then
       (if c \<in> acq then (release cl (connIP c), acq - {c}) else (cl, acq))
     else (cl, acq))"

text \<open>The server reports each connection as new once; what it reports after that is in no order the cap relies on.\<close>

inductive http_step :: "connLimiter \<times> httpConn set \<Rightarrow> connLimiter \<times> httpConn set \<Rightarrow> bool" where
  http_new: "c \<notin> snd st \<Longrightarrow> http_step st (HTTPConnState c StateNew st)"
| http_later: "s \<noteq> StateNew \<Longrightarrow> http_step st (HTTPConnState c s st)"

definition http_reach :: "int \<Rightarrow> connLimiter \<times> httpConn set \<Rightarrow> bool" where
  "http_reach mx st \<longleftrightarrow> http_step\<^sup>*\<^sup>* (newConnLimiter mx, {}) st"

section \<open>Lemmas\<close>

lemma peer_untrusted: "\<not> isTrustedProxy (rq_RemoteAddr r) proxies \<Longrightarrow> doh_clientIPFromRequest r proxies hops = peerHost (rq_RemoteAddr r)"
  by (simp add: doh_clientIPFromRequest_def)

text \<open>Only the last entries of the chain count, as many as there are hops.\<close>

lemma xff_last_entries:
  assumes "rq_XForwardedFor r = (x @ CHR '','' # y) # ls" "rq_XForwardedFor r' = y # ls'" "rq_RemoteAddr r' = rq_RemoteAddr r"
    and "int (length (split_on (CHR '','') y)) \<ge> hops" "y \<noteq> []"
  shows "doh_clientIPFromRequest r proxies hops = doh_clientIPFromRequest r' proxies hops"
proof -
  let ?h = "if hops < 1 then 1 else hops" and ?X = "split_on (CHR '','') x" and ?Y = "split_on (CHR '','') y"
  have Y: "int (length ?Y) \<ge> ?h" using assms(4) split_on_ne[of "CHR '',''" y] by (cases ?Y) auto
  have "nat (max (int (length (?X @ ?Y)) - ?h) 0) = length ?X + nat (max (int (length ?Y) - ?h) 0)" using Y by simp
  then have "(?X @ ?Y) ! nat (max (int (length (?X @ ?Y)) - ?h) 0) = ?Y ! nat (max (int (length ?Y) - ?h) 0)" by (simp add: nth_append)
  then show ?thesis using assms by (simp add: doh_clientIPFromRequest_def Header_Get_def split_on_mid Let_def)
qed

lemma proxyNets_ok: "list_all trustedProxyOK es \<Longrightarrow> \<exists>ns. proxyNets es = Inr ns"
proof (induction es)
  case (Cons e es)
  then obtain ns where "proxyNets es = Inr ns" by auto
  moreover have "proxyNet (TrimSpace e) \<noteq> None" using Cons.prems by (auto simp: trustedProxyOK_def proxyNet_def Let_def)
  ultimately show ?case by (auto simp: Let_def)
qed simp

text \<open>The networks are those of the entries.\<close>

lemma proxyNets_set: "proxyNets es = Inr ns \<Longrightarrow> set ns = {n. \<exists>e \<in> set es. TrimSpace e \<noteq> [] \<and> proxyNet (TrimSpace e) = Some n}"
proof (induction es arbitrary: ns)
  case (Cons e es)
  show ?case
  proof (cases "TrimSpace e = []")
    case False
    then obtain n ns' where "proxyNet (TrimSpace e) = Some n" "proxyNets es = Inr ns'" "ns = n # ns'"
      using Cons.prems by (auto simp: Let_def split: option.splits sum.splits)
    then show ?thesis using Cons.IH[of ns'] False by auto
  qed (use Cons in \<open>auto simp: Let_def\<close>)
qed simp

text \<open>Validation checks the entries and leaves them as they are.\<close>

lemma changes_one:
  assumes "changes g c c'"
  shows "c' = c \<or> (\<exists>y. c' = c\<lparr>cf_UpstreamMode := y\<rparr>) \<or> (\<exists>y. c' = c\<lparr>cf_UpstreamRoutes := y\<rparr>) \<or> (\<exists>y. c' = c\<lparr>cf_VPN := y\<rparr>) \<or>
    (\<exists>y. c' = c\<lparr>cf_TLS := y\<rparr>) \<or> (\<exists>y. c' = c\<lparr>cf_ClientGroups := y\<rparr>) \<or> (\<exists>y. c' = c\<lparr>cf_GeoBlock := y\<rparr>) \<or>
    (\<exists>y. c' = c\<lparr>cf_Server := (cf_Server c)\<lparr>sv_XFFHopLimit := y\<rparr>\<rparr>) \<or> (\<exists>y. c' = c\<lparr>cf_Server := (cf_Server c)\<lparr>sv_WebRedirectPort := y\<rparr>\<rparr>)"
  using assms unfolding changes_def by blast

lemma changes_proxies: "changes g c c' \<Longrightarrow> sv_TrustedProxies (cf_Server c') = sv_TrustedProxies (cf_Server c)"
  by (drule changes_one) auto

lemma run_proxies: "set fs \<subseteq> set allChecks \<Longrightarrow> runChecks fs c = Inr c' \<Longrightarrow>
    sv_TrustedProxies (cf_Server c') = sv_TrustedProxies (cf_Server c)"
proof (induction fs arbitrary: c)
  case (Cons f fs)
  then obtain c1 where c1: "f c = Inr c1" "runChecks fs c1 = Inr c'" by (auto split: sum.splits)
  have "changes f c c1" using Cons.prems(1) c1(1) all_tame by (auto simp: list_all_iff tame_def)
  then have "sv_TrustedProxies (cf_Server c1) = sv_TrustedProxies (cf_Server c)" by (rule changes_proxies)
  then show ?case using Cons.IH[OF _ c1(2)] Cons.prems(1) by simp
qed simp

lemma run_checked:
  assumes "set fs \<subseteq> set allChecks" "runChecks fs c = Inr c'" "f \<in> set fs"
  shows "\<exists>a b. f a = Inr b \<and> sv_TrustedProxies (cf_Server a) = sv_TrustedProxies (cf_Server c)"
  using assms
proof (induction fs arbitrary: c)
  case (Cons g gs)
  then obtain c1 where c1: "g c = Inr c1" "runChecks gs c1 = Inr c'" by (auto split: sum.splits)
  have "sv_TrustedProxies (cf_Server c1) = sv_TrustedProxies (cf_Server c)"
    using run_proxies[of "[g]" c c1] Cons.prems(1) c1(1) by simp
  then show ?case using Cons.IH[OF _ c1(2)] Cons.prems(1,3) c1(1) by (cases "f = g") auto
qed simp

lemma validated_proxies: "cfg_validate c = Inr c' \<Longrightarrow> list_all trustedProxyOK (sv_TrustedProxies (cf_Server c'))"
proof -
  let ?f = "checkEntries ''server.trusted_proxies'' trustedProxyOK (\<lambda>c. sv_TrustedProxies (cf_Server c))"
  assume v: "cfg_validate c = Inr c'"
  obtain a b where "?f a = Inr b" "sv_TrustedProxies (cf_Server a) = sv_TrustedProxies (cf_Server c)"
    using run_checked[of allChecks c c' ?f] v by (auto simp: cfg_validate_def allChecks_def serverChecks_def)
  then show ?thesis using run_proxies[of allChecks c c'] v by (simp add: passed cfg_validate_def)
qed

text \<open>An address an operator's entries name.\<close>

definition listedProxy :: "string list \<Rightarrow> IP \<Rightarrow> bool" where
  "listedProxy es ip \<longleftrightarrow> list_ex (\<lambda>e. case proxyNet (TrimSpace e) of None \<Rightarrow> False | Some n \<Rightarrow> IPNet_Contains n ip) es"

lemma untrusted_peer:
  assumes "proxyNets es = Inr ns" "\<not> IsLoopback (ParseIP (peerHost remote))" "\<not> IsPrivate (ParseIP (peerHost remote))"
    and "\<not> listedProxy es (ParseIP (peerHost remote))"
  shows "\<not> isTrustedProxy remote ns"
proof -
  have "\<not> IPNet_Contains n (ParseIP (peerHost remote))" if n: "n \<in> set ns" for n
  proof -
    obtain e where "e \<in> set es" "proxyNet (TrimSpace e) = Some n" using proxyNets_set[OF assms(1)] n by auto
    then show ?thesis using assms(4) unfolding listedProxy_def list_ex_iff by (metis option.case(2))
  qed
  then show ?thesis using assms(2,3) by (auto simp: isTrustedProxy_def list_ex_iff)
qed

lemma http_step_conn:
  assumes "http_step (cl, acq) (cl2, acq')" "finite acq"
  shows "finite acq' \<and> conn_step\<^sup>*\<^sup>* (cl, image_mset connIP (mset_set acq)) (cl2, image_mset connIP (mset_set acq'))"
  using assms(1)
proof cases
  case (http_new c)
  obtain ok l where q: "acquire cl (connIP c) = (ok, l)" by force
  then have st: "cl2 = l" "acq' = (if ok then insert c acq else acq)" using http_new(1) by (simp_all add: HTTPConnState_def)
  show ?thesis
  proof (cases ok)
    case True
    then have "conn_step (cl, image_mset connIP (mset_set acq)) (l, add_mset (connIP c) (image_mset connIP (mset_set acq)))"
      using q by (intro step_accept[where addr = "snd c"]) (simp add: limitListener_Accept_def)
    then show ?thesis using st True http_new(2) assms(2) by (simp add: r_into_rtranclp)
  next
    case False
    then have "conn_step (cl, image_mset connIP (mset_set acq)) (l, image_mset connIP (mset_set acq))"
      using q by (intro step_reject[where addr = "snd c"]) (simp add: limitListener_Accept_def)
    then show ?thesis using st False assms(2) by (simp add: r_into_rtranclp)
  qed
next
  case (http_later s c)
  show ?thesis
  proof (cases "(s = StateClosed \<or> s = StateHijacked) \<and> c \<in> acq")
    case True
    then have st: "cl2 = release cl (connIP c)" "acq' = acq - {c}" using http_later by (auto simp: HTTPConnState_def)
    have "conn_step (cl, image_mset connIP (mset_set acq)) (conn_Close cl (TrackedConn (connIP c)), image_mset connIP (mset_set acq) - {#connIP c#})"
      using True assms(2) by (intro step_close) auto
    then show ?thesis using st True assms(2) by (simp add: mset_set_Diff image_mset_Diff r_into_rtranclp)
  next
    case False
    then have "cl2 = cl" "acq' = acq" using http_later by (auto simp: HTTPConnState_def split: if_splits)
    then show ?thesis using assms(2) by simp
  qed
qed

lemma http_reach_conn: "http_reach mx (cl, acq) \<Longrightarrow> finite acq \<and> conn_reach mx (cl, image_mset connIP (mset_set acq))"
  unfolding http_reach_def conn_reach_def
proof (induction "(cl, acq)" arbitrary: cl acq rule: rtranclp_induct)
  case (step st)
  obtain l a where st: "st = (l, a)" by force
  then show ?case using step(3)[OF st] http_step_conn[of l a cl acq] step(2) by (auto intro: rtranclp_trans)
qed simp

text \<open>What the writer of a DoH or DoQ query reports as the client's address.\<close>

lemma writer_addr_v6:
  assumes "CHR '':'' \<in> set client" "hd client \<noteq> CHR ''[''"
  shows "clientIPOf (OtherAddr (client @ '':0'')) = client @ '':0''"
proof -
  have "client \<noteq> []" using assms(1) by auto
  moreover have "LastIndexByte (client @ '':0'') CHR '':'' = Some (length client)" by (simp add: LastIndexByte_def)
  ultimately have "SplitHostPort (client @ '':0'') = None" using assms by (simp add: SplitHostPort_def Let_def)
  then show ?thesis by simp
qed

lemma writer_addr_v4:
  assumes "client \<noteq> []" "CHR '':'' \<notin> set client" "CHR ''['' \<notin> set client" "CHR '']'' \<notin> set client"
  shows "clientIPOf (OtherAddr (client @ '':0'')) = client"
proof -
  have "hd client \<noteq> CHR ''[''" using assms(1,3) by (metis list.set_sel(1))
  moreover have "LastIndexByte (client @ '':0'') CHR '':'' = Some (length client)" by (simp add: LastIndexByte_def)
  ultimately have "SplitHostPort (client @ '':0'') = Some (client, ''0'')" using assms by (simp add: SplitHostPort_def Let_def)
  then show ?thesis by simp
qed

lemma b64_no_pad: "CHR ''='' \<notin> set (b64_EncodeToString s)"
proof -
  have b: "\<forall>x \<in> set (map of_char s :: nat list). x < 256" by auto
  have "b64_char n \<noteq> CHR ''=''" if "n < 64" for n
    using b64_val_char[OF that] by (auto simp: b64_val_def)
  then show ?thesis using b64_pack_bound[OF b] by (force simp: b64_EncodeToString_def)
qed

lemma unat_less256: "unat (b :: byte) < 256"
proof -
  have "unat b < 2 ^ LENGTH(8)" by (rule unsigned_less)
  then show ?thesis by simp
qed

lemma byte_char: "of_char (char_of (unat b) :: char) = (b :: byte)"
proof -
  have "unat b mod 256 = unat b" using unat_less256[of b] by simp
  moreover have "of_char (char_of (unat b) :: char) = (of_nat (of_char (char_of (unat b) :: char)) :: byte)" by (simp only: of_nat_of_char)
  ultimately show ?thesis by simp
qed

end
