(* ===== verification/DohTheorems.thy ===== *)
theory DohTheorems
  imports Doh ConfigTheorems
begin

text \<open>
  The main results on DNS over HTTPS.
\<close>


definition proxyCfg :: Config where
  "proxyCfg = sampleCfg\<lparr>cf_Server := (cf_Server sampleCfg)\<lparr>sv_TrustedProxies := [''203.0.113.0/24'']\<rparr>\<rparr>"

definition dohRequest :: httpReq where
  "dohRequest = \<lparr>rq_Method = ''GET'', rq_dns = [], rq_ContentType = [], rq_XForwardedFor = [''6.6.6.6, 198.51.100.7''], rq_Body = ([], False),
     rq_RemoteAddr = ''8.8.8.8:1''\<rparr>"

definition plainManager :: dohManager where
  "plainManager = \<lparr>mg_trustedProxies = [], mg_xffHops = 1, mg_asnHeader = False, mg_asnHeaders = 0\<rparr>"

lemma proxy_entry: "trustedProxyOK ''203.0.113.0/24''"
  by code_simp

lemma proxy_settled: "settled proxyCfg"
  using proxy_entry by (simp add: check_defs proxyCfg_def sample_defs validateDHCP_def Let_def)


text \<open>GET and POST are one interface: a message sent base64url-encoded in the query and the same bytes sent in the body get
  the same reply and have the same effects, on every listener.\<close>

theorem doh_get_is_post:
  assumes "bs \<noteq> []" "length bs \<le> 65536"
    and "rq_Method g = ''GET''" "rq_dns g = b64_EncodeToString (map (\<lambda>b. char_of (unat b)) bs)"
    and "rq_Method p = ''POST''" "rq_Body p = (bs, False)" "rq_ContentType p = [''application/dns-message'']"
    and "rq_XForwardedFor g = rq_XForwardedFor p" "rq_RemoteAddr g = rq_RemoteAddr p"
  shows "handleDoH wd cfg g proto dm st = handleDoH wd cfg p proto dm st"
proof -
  let ?s = "map (\<lambda>b. char_of (unat b)) bs :: string"
  have "b64_EncodeToString ?s \<noteq> []" using assms(1) by (cases bs rule: remdups_adj.cases) (auto simp: b64_EncodeToString_def elim: b64_pack.elims)
  moreover have "TrimRightByte (CHR ''='') (b64_EncodeToString ?s) = b64_EncodeToString ?s"
    using b64_no_pad[of ?s] by (intro TrimRightByte_id) (metis last_in_set)
  moreover have "Contains ''application/dns-message'' ''application/dns-message''" by code_simp
  moreover have "map (of_char :: char \<Rightarrow> byte) ?s = bs" by (simp add: byte_char comp_def)
  ultimately have "dohMessage (w_lib wd) g = dohMessage (w_lib wd) p"
    using assms b64_roundtrip[of ?s] by (simp add: dohMessage_def Header_Get_def)
  moreover have "doh_clientIPFromRequest g = doh_clientIPFromRequest p" by (intro ext) (simp only: doh_clientIPFromRequest_def assms(8,9))
  ultimately show ?thesis unfolding handleDoH_def by (simp only:)
qed

definition rootQuery :: "byte list" where
  "rootQuery = [0x12, 0x34, 1, 0, 0, 1, 0, 0, 0, 0, 0, 0, 0, 0, 1, 0, 1]"

theorem doh_get_is_post_witness:
  "handleDoH quietWorld quietSettings (dohRequest\<lparr>rq_dns := ''EjQBAAABAAAAAAAAAAABAAE''\<rparr>) ''doh'' plainManager quietState =
   handleDoH quietWorld quietSettings (dohRequest\<lparr>rq_Method := ''POST'', rq_Body := (rootQuery, False), rq_ContentType := [''application/dns-message'']\<rparr>) ''doh'' plainManager quietState"
proof (rule doh_get_is_post[of rootQuery])
  show "rq_dns (dohRequest\<lparr>rq_dns := ''EjQBAAABAAAAAAAAAAABAAE''\<rparr>) = b64_EncodeToString (map (\<lambda>b. char_of (unat b)) rootQuery)" by code_simp
qed (simp_all add: rootQuery_def dohRequest_def)

definition cookieFor :: "'re world \<Rightarrow> 're Settings \<Rightarrow> string \<Rightarrow> string \<Rightarrow> string" where
  "cookieFor wd cfg ip cc = cc @ serverCookie (w_hmac wd) (wc_secret (s_write cfg)) ip cc"

text \<open>C27: with cookies on, a client that reaches the DoH or DoQ endpoint over IPv6 can never use the cookie it was given: the reply mints the
  server cookie for the printed address of the writer, which for an IPv6 client keeps the port, while the check uses the client's address.
  Every query that echoes the cookie is answered BADCOOKIE, with that same cookie, and nothing else happens but the count of the query.\<close>

theorem doh_ipv6_cookie_refused:
  assumes "wc_Cookies (s_write cfg)" "s_ACL cfg = None" "\<not> mg_asnHeader dm"
    and "dohMessage (w_lib wd) r = Inr msg" "m_Question msg = q # qs" "IsEdns0 (w_lib wd) msg = Some i" "OPT_Version (w_lib wd) (m_Extra msg ! i) = 0"
    and "client = doh_clientIPFromRequest r (mg_trustedProxies dm) (mg_xffHops dm)" "CHR '':'' \<in> set client" "hd client \<noteq> CHR ''[''"
    and "length cc = 16" "requestCookieValue (w_lib wd) msg = cookieFor wd cfg (clientIPOf (OtherAddr (client @ '':0''))) cc" "\<forall>k s. 16 \<le> length (w_hmac wd k s)"
    and "\<not> EqualFold (take 16 (w_hmac wd (wc_secret (s_write cfg)) (client @ '':0'' @ cc))) (take 16 (w_hmac wd (wc_secret (s_write cfg)) (client @ cc)))"
  shows "handleDoH wd cfg r proto dm st =
    (DNSReply 0 (writeMsg (wd\<lparr>w_remote := client @ '':0''\<rparr>) cfg
         \<lparr>cx_r = msg, cx_q = q, cx_qname = CanonicalDomain (q_Name q), cx_client = client, cx_proto = proto\<rparr>
         (attachCookie (w_lib wd) ((newReply (w_lib wd) msg)\<lparr>m_Rcode := RcodeBadCookie\<rparr>) (cookieFor wd cfg client cc))),
     dm, countQuery proto st)"
proof -
  have addr: "clientIPOf (OtherAddr (client @ '':0'')) = client @ '':0''" by (rule writer_addr_v6[OF assms(9,10)])
  have len: "length (cookieFor wd cfg (clientIPOf (OtherAddr (client @ '':0''))) cc) = 32" "take 16 (cookieFor wd cfg (clientIPOf (OtherAddr (client @ '':0''))) cc) = cc"
    using assms(11,13) by (simp_all add: cookieFor_def addr serverCookie_def clientCookieHexLen_def)
  let ?m = "serverCookie (w_hmac wd) (wc_secret (s_write cfg)) (client @ '':0'') cc" and ?c = "serverCookie (w_hmac wd) (wc_secret (s_write cfg)) client cc"
  have split: "EqualFold (cc @ x) (cc @ y) \<Longrightarrow> EqualFold x y" for x y by (simp add: EqualFold_def ToLower_def)
  have neq: "\<not> EqualFold (cookieFor wd cfg (clientIPOf (OtherAddr (client @ '':0''))) cc) (cookieFor wd cfg client cc)"
    unfolding cookieFor_def addr using split[of ?m ?c] assms(14) unfolding serverCookie_def clientCookieHexLen_def append_assoc by blast
  have "client \<noteq> []" using assms(9) by auto
  then have "serve (wd\<lparr>w_remote := client @ '':0''\<rparr>) cfg (Some msg) client proto st =
      (writeMsg (wd\<lparr>w_remote := client @ '':0''\<rparr>) cfg \<lparr>cx_r = msg, cx_q = q, cx_qname = CanonicalDomain (q_Name q), cx_client = client, cx_proto = proto\<rparr>
         (attachCookie (w_lib wd) ((newReply (w_lib wd) msg)\<lparr>m_Rcode := RcodeBadCookie\<rparr>) (cookieFor wd cfg client cc)), countQuery proto st)"
    using assms(1,2,5-7,12) len neq
    by (simp add: serve_def serveQuery_def frontSteps_def aclStep_def versionStep_def cookieStep_def clientCookieHexLen_def cookieFor_def Let_def)
  then show ?thesis using assms(3,4) addr by (simp add: handleDoH_def assms(8)[symmetric] Let_def)
qed

definition cookieEcho :: Msg where
  "cookieEcho = (askA ''a.'')\<lparr>m_Extra := [\<lparr>rr_Hdr = \<lparr>h_Name = ''.'', h_Rrtype = TypeOPT, h_Class = 1232, h_Ttl = 0\<rparr>,
     rr_Data = OPT 1232 [EDNS0_COOKIE ''0123456789abcdef2001:db8::1:0012'']\<rparr>]\<rparr>"

definition cookieWorld :: "string world" where
  "cookieWorld = quietWorld\<lparr>w_lib := simpleLib\<lparr>Unpack := \<lambda>b. Some cookieEcho\<rparr>, w_hmac := \<lambda>k s. take 16 (s @ replicate 16 (CHR ''0''))\<rparr>"

abbreviation cookieSettings :: "string Settings" where
  "cookieSettings \<equiv> quietSettings\<lparr>s_write := \<lparr>wc_Padding = False, wc_Cookies = True, wc_secret = ''k''\<rparr>\<rparr>"

definition dohV6Request :: httpReq where
  "dohV6Request = \<lparr>rq_Method = ''POST'', rq_dns = [], rq_ContentType = [], rq_XForwardedFor = [], rq_Body = ([1], False), rq_RemoteAddr = ''[2001:db8::1]:5''\<rparr>"

theorem doh_ipv6_cookie_refused_witness:
  "snd (snd (handleDoH cookieWorld cookieSettings dohV6Request ''doh'' plainManager quietState)) = countQuery ''doh'' quietState"
proof -
  have a: "''2001:db8::1'' = doh_clientIPFromRequest dohV6Request (mg_trustedProxies plainManager) (mg_xffHops plainManager)" by code_simp
  have m: "dohMessage (w_lib cookieWorld) dohV6Request = Inr cookieEcho"
    by (simp add: dohMessage_def dohV6Request_def cookieWorld_def Header_Get_def)
  have e: "IsEdns0 (w_lib cookieWorld) cookieEcho = Some 0" "OPT_Version (w_lib cookieWorld) (m_Extra cookieEcho ! 0) = 0" by code_simp+
  have c: "requestCookieValue (w_lib cookieWorld) cookieEcho =
      cookieFor cookieWorld cookieSettings (clientIPOf (OtherAddr (''2001:db8::1'' @ '':0''))) ''0123456789abcdef''" by code_simp
  have q: "m_Question cookieEcho = [\<lparr>q_Name = ''a.'', q_Qtype = TypeA, q_Qclass = ClassINET\<rparr>]" by (simp add: cookieEcho_def askA_def)
  have d: "\<not> EqualFold (take 16 (w_hmac cookieWorld (wc_secret (s_write cookieSettings)) (''2001:db8::1'' @ '':0'' @ ''0123456789abcdef'')))
      (take 16 (w_hmac cookieWorld (wc_secret (s_write cookieSettings)) (''2001:db8::1'' @ ''0123456789abcdef'')))" by code_simp
  have s: "wc_Cookies (s_write cookieSettings)" "s_ACL cookieSettings = None" "\<not> mg_asnHeader plainManager"
    by (simp_all add: quietSettings_def plainManager_def)
  have h: "\<forall>k s. 16 \<le> length (w_hmac cookieWorld k s)" by (auto simp: cookieWorld_def)
  have v6: "CHR '':'' \<in> set ''2001:db8::1''" "hd ''2001:db8::1'' \<noteq> CHR ''[''" "length ''0123456789abcdef'' = 16" by simp_all
  show ?thesis unfolding doh_ipv6_cookie_refused[OF s m q e a v6 c h d] by (simp only: snd_conv)
qed

text \<open>A client with an IPv4 address gets a cookie it can use.\<close>

lemma doh_ipv4_cookie:
  assumes "client \<noteq> []" "CHR '':'' \<notin> set client" "CHR ''['' \<notin> set client" "CHR '']'' \<notin> set client"
  shows "cookieFor wd cfg (clientIPOf (OtherAddr (client @ '':0''))) cc = cookieFor wd cfg client cc"
  by (simp only: writer_addr_v4[OF assms])

text \<open>Only the first line of the header is read: a trusted proxy that adds its entry as a line of its own leaves the choice of the address
  to the client.\<close>

lemma second_line_ignored:
  assumes "isTrustedProxy (rq_RemoteAddr r) proxies" "rq_XForwardedFor r = [IP_String a, proxyLine]" "length a = 4"
  shows "doh_clientIPFromRequest r proxies hops = IP_String a"
proof -
  have sep: "CHR '','' \<notin> set (IP_String a)" using v4_String_chars[OF assms(3), of "CHR '',''"] by (auto simp: is_digit_def)
  have "To16 a \<noteq> []" "To4 a = a" "a \<noteq> []" using assms(3) by (auto simp: To16_def To4_def)
  then have "IP_String (To16 a) = IP_String a" using assms(3) by (simp add: IP_String_def)
  then show ?thesis using assms v4_entry(1,2)[OF assms(3)] split_on_single[OF sep] ParseIP_v4_String[OF assms(3)] \<open>To16 a \<noteq> []\<close>
    by (simp add: doh_clientIPFromRequest_def Header_Get_def Let_def)
qed

text \<open>In every reachable state of the HTTP listeners the counter of a client address is the number of its connections that hold a
  slot, and never above the cap: a refused connection releases nothing when it is closed, a hijacked one releases once.\<close>

theorem http_connection_cap:
  assumes "http_reach mx (cl, acq)" "0 < mx" "ip \<noteq> []"
  shows "int (card {c \<in> acq. connIP c = ip}) \<le> mx \<and> conns_of cl ip = int (card {c \<in> acq. connIP c = ip}) \<and>
    (fst (acquire cl ip) \<longleftrightarrow> int (card {c \<in> acq. connIP c = ip}) < mx)"
proof -
  have r: "finite acq" "conn_reach mx (cl, image_mset connIP (mset_set acq))" using http_reach_conn[OF assms(1)] by auto
  have "conn_inv mx (cl, image_mset connIP (mset_set acq))" by (rule conn_reach_inv[OF r(2) assms(2)])
  moreover have "count (image_mset connIP (mset_set acq)) ip = card {c \<in> acq. connIP c = ip}"
    using r(1) by (simp add: count_image_mset' Collect_conj_eq eq_commute)
  ultimately show ?thesis using assms(2,3) by (auto simp: conn_inv_def acquire_def)
qed

theorem http_connection_cap_witness:
  "card {c \<in> {(7 :: nat, TCPAddr [10, 0, 0, 1])}. connIP c = ''10.0.0.1''} = 1 \<and>
   conns_of (snd (acquire (newConnLimiter 1) ''10.0.0.1'')) ''10.0.0.1'' = 1"
proof -
  have ip: "clientIPOf (TCPAddr [10, 0, 0, 1]) = ''10.0.0.1''" by code_simp
  have "http_step (newConnLimiter 1, {}) (HTTPConnState (7, TCPAddr [10, 0, 0, 1]) StateNew (newConnLimiter 1, {}))" by (rule http_new) simp
  moreover have "HTTPConnState (7, TCPAddr [10, 0, 0, 1]) StateNew (newConnLimiter 1, {}) =
      (snd (acquire (newConnLimiter 1) ''10.0.0.1''), {(7, TCPAddr [10, 0, 0, 1])})"
    using ip by (simp add: HTTPConnState_def acquire_def newConnLimiter_def conns_of_def)
  ultimately have "http_reach 1 (snd (acquire (newConnLimiter 1) ''10.0.0.1''), {(7, TCPAddr [10, 0, 0, 1])})" by (simp add: http_reach_def r_into_rtranclp)
  from http_connection_cap[OF this, of "''10.0.0.1''"] have "conns_of (snd (acquire (newConnLimiter 1) ''10.0.0.1'')) ''10.0.0.1'' =
      int (card {c \<in> {(7 :: nat, TCPAddr [10, 0, 0, 1])}. connIP c = ''10.0.0.1''})" by simp
  moreover have "{c \<in> {(7 :: nat, TCPAddr [10, 0, 0, 1])}. connIP c = ''10.0.0.1''} = {(7, TCPAddr [10, 0, 0, 1])}" using ip by auto
  ultimately show ?thesis by simp
qed

end
