(* ===== verification/TopDomains.thy ===== *)
theory TopDomains
  imports Prelude "HOL-Library.List_Lexorder" "HOL-Library.Char_ord" "HOL-Library.Multiset"
begin

text \<open>
  The top lists of the query log (\<^verbatim>\<open>topN\<close> of \<^verbatim>\<open>internal/querylog/querylog.go\<close>): the strongest entries of a map in one pass, with a min-heap
  of bounded size. The heap is that of Go's \<^verbatim>\<open>container/heap\<close>, a list read as a binary tree.
\<close>

section \<open>Entries and their order\<close>

datatype TopDomain = TopDomain (td_Domain: string) (td_Count: int)

text \<open>\<^verbatim>\<open>topDomainHeap.Less\<close>: fewer queries are weaker, and of equal counts the name that comes later.\<close>

instantiation TopDomain :: linorder
begin

definition less_eq_TopDomain :: "TopDomain \<Rightarrow> TopDomain \<Rightarrow> bool" where
  "a \<le> b \<longleftrightarrow> td_Count a < td_Count b \<or> td_Count a = td_Count b \<and> td_Domain b \<le> td_Domain a"

definition less_TopDomain :: "TopDomain \<Rightarrow> TopDomain \<Rightarrow> bool" where
  "a < b \<longleftrightarrow> td_Count a < td_Count b \<or> td_Count a = td_Count b \<and> td_Domain b < td_Domain a"

instance
  by intro_classes (auto simp: less_eq_TopDomain_def less_TopDomain_def TopDomain.expand)

end

section \<open>The heap\<close>

definition swap :: "'a list \<Rightarrow> nat \<Rightarrow> nat \<Rightarrow> 'a list" where
  "swap h i j = h[i := h ! j, j := h ! i]"

function heap_up :: "'a :: linorder list \<Rightarrow> nat \<Rightarrow> 'a list" where
  "heap_up h j = (if j = 0 then h else let i = (j - 1) div 2 in if h ! j < h ! i then heap_up (swap h i j) i else h)"
  by pat_completeness auto
termination by (relation "measure snd") auto

text \<open>The weaker child of a place that has one.\<close>

definition child :: "'a :: linorder list \<Rightarrow> nat \<Rightarrow> nat \<Rightarrow> nat" where
  "child h i n = (let j1 = 2 * i + 1 in if j1 + 1 < n \<and> h ! (j1 + 1) < h ! j1 then j1 + 1 else j1)"

function heap_down :: "'a :: linorder list \<Rightarrow> nat \<Rightarrow> nat \<Rightarrow> 'a list" where
  "heap_down h i n =
     (if 2 * i + 1 \<ge> n then h
      else if h ! child h i n < h ! i then heap_down (swap h i (child h i n)) (child h i n) n else h)"
  by pat_completeness auto
termination by (relation "measure (\<lambda>(h, i, n). n - i)") (auto simp: child_def Let_def)

declare heap_up.simps [simp del] heap_down.simps [simp del]

definition heap_Push :: "'a :: linorder list \<Rightarrow> 'a \<Rightarrow> 'a list" where
  "heap_Push h x = heap_up (h @ [x]) (length h)"

text \<open>\<^verbatim>\<open>heap.Fix\<close> at the root: nothing is above it.\<close>

definition heap_Fix0 :: "'a :: linorder list \<Rightarrow> 'a list" where
  "heap_Fix0 h = heap_down h 0 (length h)"

section \<open>The strongest entries\<close>

definition topStep :: "nat \<Rightarrow> TopDomain \<Rightarrow> TopDomain list \<Rightarrow> TopDomain list" where
  "topStep n cand h =
     (if length h < n then heap_Push h cand
      else if td_Count cand > td_Count (h ! 0) \<or> td_Count cand = td_Count (h ! 0) \<and> td_Domain cand < td_Domain (h ! 0)
      then heap_Fix0 (h[0 := cand])
      else h)"

definition topN :: "(string, int) gomap \<Rightarrow> int \<Rightarrow> TopDomain list" where
  "topN counts n =
     (if n \<le> 0 then []
      else rev (sort (fold (topStep (nat n)) (map (\<lambda>(d, c). TopDomain d c) counts) [])))"

section \<open>Heap order\<close>

definition parent :: "nat \<Rightarrow> nat" where "parent j = (j - 1) div 2"

definition isHeap :: "'a :: linorder list \<Rightarrow> bool" where
  "isHeap h \<longleftrightarrow> (\<forall>j < length h. j > 0 \<longrightarrow> h ! parent j \<le> h ! j)"

lemma parent_less: "j > 0 \<Longrightarrow> parent j < j"
  by (simp add: parent_def)

lemma heap_root: "isHeap h \<Longrightarrow> j < length h \<Longrightarrow> h ! 0 \<le> h ! j"
proof (induction j rule: less_induct)
  case (less j)
  show ?case
  proof (cases "j = 0")
    case False
    then have "h ! parent j \<le> h ! j" "h ! 0 \<le> h ! parent j"
      using less parent_less[of j] by (auto simp: isHeap_def)
    then show ?thesis by simp
  qed simp
qed

lemma swap_props: "length (swap h i j) = length h" "i < length h \<Longrightarrow> j < length h \<Longrightarrow> mset (swap h i j) = mset h"
  by (simp_all add: swap_def mset_swap)

lemma nth_swap: "i < length h \<Longrightarrow> j < length h \<Longrightarrow> k < length h \<Longrightarrow> swap h i j ! k = (if k = j then h ! i else if k = i then h ! j else h ! k)"
  by (simp add: swap_def nth_list_update)

text \<open>A heap but for the place \<open>j\<close>, which may be too small; nothing below it is smaller than its parent.\<close>

definition heapUpTo :: "'a :: linorder list \<Rightarrow> nat \<Rightarrow> bool" where
  "heapUpTo h j \<longleftrightarrow> (\<forall>k < length h. k > 0 \<longrightarrow> k \<noteq> j \<longrightarrow> h ! parent k \<le> h ! k) \<and>
     (\<forall>k < length h. k > 0 \<longrightarrow> parent k = j \<longrightarrow> j > 0 \<longrightarrow> h ! parent j \<le> h ! k)"

lemma heap_up_ok: "j < length h \<Longrightarrow> heapUpTo h j \<Longrightarrow> isHeap (heap_up h j) \<and> mset (heap_up h j) = mset h"
proof (induction h j rule: heap_up.induct)
  case (1 h j)
  show ?case
  proof (cases "j > 0 \<and> h ! j < h ! parent j")
    case False
    then have "heap_up h j = h" by (subst heap_up.simps) (auto simp: parent_def Let_def)
    moreover have "h ! parent k \<le> h ! k" if "k < length h" "k > 0" for k
      using 1(3) False that by (cases "k = j") (auto simp: heapUpTo_def)
    then have "isHeap h" by (simp add: isHeap_def)
    ultimately show ?thesis by simp
  next
    case True
    let ?i = "parent j" and ?h = "swap h (parent j) j"
    have i: "?i < j" "?i < length h" using True parent_less[of j] 1(2) by auto
    have s: "heap_up h j = heap_up ?h ?i" using True by (subst heap_up.simps) (simp add: parent_def Let_def)
    have "heapUpTo ?h ?i" unfolding heapUpTo_def swap_props
    proof (intro conjI allI impI)
      fix k assume k: "k < length h" "k > 0" "k \<noteq> ?i"
      have "h ! parent k \<le> h ! k" if "k \<noteq> j" using 1(3) k that by (auto simp: heapUpTo_def)
      moreover have "h ! ?i \<le> h ! k" if "parent k = j" using 1(3) k True that by (auto simp: heapUpTo_def)
      ultimately show "?h ! parent k \<le> ?h ! k" using k i 1(2) True parent_less[of k] by (auto simp: nth_swap)
    next
      fix k assume k: "k < length h" "k > 0" "parent k = ?i" "?i > 0"
      then have p: "h ! parent ?i \<le> h ! ?i" using 1(3) i by (auto simp: heapUpTo_def)
      have "h ! parent k \<le> h ! k" if "k \<noteq> j" using 1(3) k(1,2) that by (simp add: heapUpTo_def)
      then have "h ! ?i \<le> h ! k" if "k \<noteq> j" using k(3) that by simp
      then show "?h ! parent ?i \<le> ?h ! k" using k i p 1(2) parent_less[of ?i] parent_less[of k] by (auto simp: nth_swap)
    qed
    then have "isHeap (heap_up ?h ?i) \<and> mset (heap_up ?h ?i) = mset ?h"
      using 1(1)[of ?i] True i 1(2) by (simp add: parent_def swap_props)
    then show ?thesis using s i 1(2) by (simp add: swap_props)
  qed
qed

text \<open>A heap but for the children of the place \<open>i\<close>; they are not smaller than its parent.\<close>

definition heapDownFrom :: "'a :: linorder list \<Rightarrow> nat \<Rightarrow> bool" where
  "heapDownFrom h i \<longleftrightarrow> (\<forall>k < length h. k > 0 \<longrightarrow> parent k \<noteq> i \<longrightarrow> h ! parent k \<le> h ! k) \<and>
     (\<forall>k < length h. k > 0 \<longrightarrow> parent k = i \<longrightarrow> i > 0 \<longrightarrow> h ! parent i \<le> h ! k)"

lemma parent_children: "k > 0 \<Longrightarrow> parent k = i \<longleftrightarrow> k = 2 * i + 1 \<or> k = 2 * i + 2"
  by (auto simp: parent_def)

lemma heap_down_ok: "n = length h \<Longrightarrow> i < n \<Longrightarrow> heapDownFrom h i \<Longrightarrow> isHeap (heap_down h i n) \<and> mset (heap_down h i n) = mset h"
proof (induction h i n rule: heap_down.induct)
  case (1 h i n)
  define j where "j = child h i n"
  have least: "h ! j \<le> h ! k" if "k < n" "k > 0" "parent k = i" for k using that by (auto simp: parent_children j_def child_def Let_def)
  show ?case
  proof (cases "2 * i + 1 < n \<and> h ! j < h ! i")
    case False
    then have "heap_down h i n = h" by (subst heap_down.simps) (auto simp: j_def)
    moreover have "h ! parent k \<le> h ! k" if k: "k < length h" "k > 0" for k
    proof (cases "parent k = i")
      case True
      then have "2 * i + 1 < n" using k 1(2) by (auto simp: parent_children)
      then show ?thesis using False least[of k] k True 1(2) by auto
    next
      case other: False
      then show ?thesis using 1(4) k by (simp add: heapDownFrom_def)
    qed
    ultimately show ?thesis by (simp add: isHeap_def)
  next
    case True
    let ?h = "swap h i j"
    have j: "j < n" "j > i" "parent j = i" using True by (auto simp: parent_def j_def child_def Let_def)
    have len: "i < length h" "j < length h" using 1(2,3) j by auto
    have "heapDownFrom ?h j" unfolding heapDownFrom_def swap_props
    proof (intro conjI allI impI)
      fix k assume k: "k < length h" "k > 0" "parent k \<noteq> j"
      have up: "h ! parent k \<le> h ! k" if "parent k \<noteq> i" using 1(4) k that by (simp add: heapDownFrom_def)
      have pi: "h ! parent i \<le> h ! j" if "i > 0" using 1(4) j len that by (simp add: heapDownFrom_def)
      have pl: "parent k < length h" "parent k < k" using parent_less[OF k(2)] k(1) by auto
      show "?h ! parent k \<le> ?h ! k"
      proof (cases "parent k = i")
        case pk: True
        then show ?thesis using least[of k] k 1(2) j len pl True by (auto simp: nth_swap)
      next
        case False
        then show ?thesis using up pi k pl len j by (auto simp: nth_swap)
      qed
    next
      fix k assume k: "k < length h" "k > 0" "parent k = j" "j > 0"
      have "parent k \<noteq> i \<longrightarrow> h ! parent k \<le> h ! k" using 1(4) k(1,2) by (simp add: heapDownFrom_def)
      then have "h ! j \<le> h ! k" using k(3) j(2) by simp
      moreover have "k \<noteq> i" "k \<noteq> j" using parent_less[OF k(2)] k(3) j(2) by auto
      ultimately show "?h ! parent j \<le> ?h ! k" using k j len by (simp add: nth_swap)
    qed
    moreover have "heap_down h i n = heap_down ?h j n" using True by (subst heap_down.simps) (simp add: j_def)
    ultimately show ?thesis using 1(1)[folded j_def] True j 1(2) len by (simp add: swap_props)
  qed
qed

lemma heap_Push_ok: "isHeap h \<Longrightarrow> isHeap (heap_Push h x) \<and> mset (heap_Push h x) = add_mset x (mset h)"
proof -
  assume h: "isHeap h"
  have "(h @ [x]) ! parent k \<le> (h @ [x]) ! k" if "k < length h" "k > 0" for k
    using h that parent_less[of k] by (simp add: isHeap_def nth_append)
  moreover have "parent k \<noteq> length h" if "k < Suc (length h)" "k > 0" for k using parent_less[of k] that by simp
  ultimately have "heapUpTo (h @ [x]) (length h)" by (simp add: heapUpTo_def less_Suc_eq)
  then show ?thesis using heap_up_ok[of "length h" "h @ [x]"] by (simp add: heap_Push_def)
qed

lemma heap_Fix0_ok:
  assumes "isHeap h" "h \<noteq> []"
  shows "isHeap (heap_Fix0 (h[0 := x])) \<and> mset (heap_Fix0 (h[0 := x])) = add_mset x (mset h - {#h ! 0#})"
proof -
  have "heapDownFrom (h[0 := x]) 0" using assms(1) by (auto simp: heapDownFrom_def isHeap_def nth_list_update)
  then show ?thesis using heap_down_ok[of _ "h[0 := x]" 0] assms(2) by (simp add: heap_Fix0_def mset_update)
qed

section \<open>The top list is a prefix of the sorted map\<close>

text \<open>The heap holds as many entries as it may, and none that was dropped is stronger than one that was kept.\<close>

definition keepsTop :: "nat \<Rightarrow> TopDomain list \<Rightarrow> TopDomain multiset \<Rightarrow> TopDomain multiset \<Rightarrow> bool" where
  "keepsTop n h D M \<longleftrightarrow> isHeap h \<and> mset h + D = M \<and> length h \<le> n \<and> (D \<noteq> {#} \<longrightarrow> length h = n) \<and> (\<forall>d \<in># D. \<forall>k \<in> set h. d \<le> k)"

lemma topStep_keeps:
  assumes "keepsTop n h D M" "n > 0"
  shows "\<exists>D'. keepsTop n (topStep n c h) D' (add_mset c M)"
proof (cases "length h < n")
  case True
  then have "keepsTop n (topStep n c h) D (add_mset c M)"
    using assms(1) heap_Push_ok[of h c] by (auto simp: keepsTop_def topStep_def dest: arg_cong[of _ _ size] arg_cong[of _ _ set_mset])
  then show ?thesis by blast
next
  case full: False
  then have len: "length h = n" "h \<noteq> []" using assms by (auto simp: keepsTop_def)
  have root: "\<forall>k \<in> set h. h ! 0 \<le> k" using heap_root[of h] assms(1) by (auto simp: keepsTop_def in_set_conv_nth)
  show ?thesis
  proof (cases "h ! 0 < c")
    case True
    let ?h = "heap_Fix0 (h[0 := c])"
    have h: "isHeap ?h" "mset ?h = add_mset c (mset h - {#h ! 0#})" using heap_Fix0_ok len(2) assms(1) by (auto simp: keepsTop_def)
    have r: "h ! 0 \<in># mset h" using len(2) by simp
    have step: "topStep n c h = ?h" using full True by (auto simp: topStep_def less_TopDomain_def)
    have "size (mset ?h) = n" using h(2) r len assms(2) by (simp add: size_Diff_singleton)
    moreover have "mset ?h + add_mset (h ! 0) D = add_mset c M" using assms(1) h(2) r by (auto simp: keepsTop_def multiset_eq_iff)
    moreover have "d \<le> k" if "d \<in># add_mset (h ! 0) D" "k \<in> set ?h" for d k
    proof -
      have "k = c \<or> k \<in> set h" using that(2) h(2) by (metis insert_iff in_diffD set_mset_add_mset_insert set_mset_mset)
      moreover have "d \<le> h ! 0" using that(1) assms(1) len(2) by (auto simp: keepsTop_def)
      ultimately show ?thesis using True root by auto
    qed
    ultimately have "keepsTop n (topStep n c h) (add_mset (h ! 0) D) (add_mset c M)" using h(1) step by (auto simp: keepsTop_def)
    then show ?thesis by blast
  next
    case False
    then have "topStep n c h = h" using full by (auto simp: topStep_def less_TopDomain_def)
    then have "keepsTop n (topStep n c h) (add_mset c D) (add_mset c M)" using assms(1) root False len by (auto simp: keepsTop_def not_less intro: order_trans)
    then show ?thesis by blast
  qed
qed

lemma topN_kept: "n > 0 \<Longrightarrow> \<exists>D. keepsTop n (fold (topStep n) xs []) D (mset xs)"
proof (induction xs rule: rev_induct)
  case Nil
  have "keepsTop n [] {#} {#}" by (simp add: keepsTop_def isHeap_def)
  then show ?case by auto
next
  case (snoc x xs)
  then show ?case using topStep_keeps by fastforce
qed

lemma topN_sorted: "topN counts n = take (nat n) (rev (sort (map (\<lambda>(d, c). TopDomain d c) counts)))"
proof (cases "n \<le> 0")
  case False
  let ?xs = "map (\<lambda>(d, c). TopDomain d c) counts" and ?h = "fold (topStep (nat n)) (map (\<lambda>(d, c). TopDomain d c) counts) []"
  obtain D where D: "keepsTop (nat n) ?h D (mset ?xs)" using topN_kept[of "nat n" ?xs] False by auto
  obtain ds where ds: "mset ds = D" using ex_mset by blast
  have "sorted (sort ds @ sort ?h)" using D ds by (auto simp: keepsTop_def sorted_append)
  moreover have "mset (sort ds @ sort ?h) = mset ?xs" using D ds by (simp add: keepsTop_def add.commute)
  ultimately have "sort ?xs = sort ds @ sort ?h" by (metis properties_for_sort)
  then have "rev (sort ?xs) = rev (sort ?h) @ rev (sort ds)" by simp
  moreover have "length ?h = nat n \<or> ds = [] \<and> length ?h \<le> nat n" using D ds by (auto simp: keepsTop_def)
  ultimately show ?thesis using False by (auto simp: topN_def)
qed (simp add: topN_def)

text \<open>The one-pass selection with a bounded heap returns exactly the strongest entries of the map in descending order, as sorting the
  whole map and cutting it off would; so the order in which Go walks the map does not show.\<close>

theorem topN_spec: "topN counts n = take (nat n) (rev (sort (map (\<lambda>(d, c). TopDomain d c) counts)))"
  by (rule topN_sorted)

end
