(* ===== verification/QueryStats.thy ===== *)
theory QueryStats
  imports TopDomains WebAuth
begin

text \<open>
  The rolling statistics of the query log (\<^verbatim>\<open>internal/querylog/rolling.go\<close>): the counts of the last twenty-four hours in one-hour slots with
  their running sum, and those of the current day, both kept up to date entry by entry. A set of counters is one record wherever the code
  has it (per slot, for the window, for the day); a nil map is an empty one. Sums of response times are integers where the code adds
  them up in a \<^verbatim>\<open>float64\<close>; \<open>mid\<close> gives the local midnight of a time.
\<close>

section \<open>Counters\<close>

record logEntry =
  qe_ID :: string
  qe_Time :: gotime
  qe_Client :: string
  qe_Domain :: string
  qe_Type :: string
  qe_Action :: string
  qe_Reason :: string
  qe_Upstream :: string
  qe_ResponseTimeMS :: int
  qe_Rcode :: int
  qe_Answers :: int
  qe_ASN :: "32 word"

record slotAgg =
  sa_total :: int
  sa_allowed :: int
  sa_blocked :: int
  sa_cached :: int
  sa_rtSum :: int
  sa_blockedDomains :: "(string, int) gomap"
  sa_clients :: "(string, int) gomap"

definition emptyAgg :: slotAgg where
  "emptyAgg = \<lparr>sa_total = 0, sa_allowed = 0, sa_blocked = 0, sa_cached = 0, sa_rtSum = 0, sa_blockedDomains = [], sa_clients = []\<rparr>"

definition cnt :: "(string, int) gomap \<Rightarrow> string \<Rightarrow> int" where
  "cnt m k = (case map_of m k of None \<Rightarrow> 0 | Some n \<Rightarrow> n)"

definition bump :: "string \<Rightarrow> (string, int) gomap \<Rightarrow> (string, int) gomap" where
  "bump k m = gm_put k (cnt m k + 1) m"

definition aggAdd :: "logEntry \<Rightarrow> slotAgg \<Rightarrow> slotAgg" where
  "aggAdd e s0 =
     (let s = s0\<lparr>sa_total := sa_total s0 + 1, sa_rtSum := sa_rtSum s0 + qe_ResponseTimeMS e, sa_clients := bump (qe_Client e) (sa_clients s0)\<rparr> in
      if qe_Action e = ''allowed'' then s\<lparr>sa_allowed := sa_allowed s + 1\<rparr>
      else if qe_Action e = ''blocked'' then s\<lparr>sa_blocked := sa_blocked s + 1, sa_blockedDomains := bump (qe_Domain e) (sa_blockedDomains s)\<rparr>
      else if qe_Action e = ''cached'' then s\<lparr>sa_cached := sa_cached s + 1\<rparr>
      else s)"

definition unbump :: "string \<times> int \<Rightarrow> (string, int) gomap \<Rightarrow> (string, int) gomap" where
  "unbump = (\<lambda>(k, c) m. let n = cnt m k - c in if n \<le> 0 then gm_del k m else gm_put k n m)"

definition aggSub :: "slotAgg \<Rightarrow> slotAgg \<Rightarrow> slotAgg" where
  "aggSub s a = \<lparr>sa_total = sa_total a - sa_total s, sa_allowed = sa_allowed a - sa_allowed s, sa_blocked = sa_blocked a - sa_blocked s,
     sa_cached = sa_cached a - sa_cached s, sa_rtSum = sa_rtSum a - sa_rtSum s,
     sa_blockedDomains = fold unbump (sa_blockedDomains s) (sa_blockedDomains a), sa_clients = fold unbump (sa_clients s) (sa_clients a)\<rparr>"

section \<open>The ring\<close>

definition aggSlots :: nat where "aggSlots = 24"

record rollingAgg =
  ra_slotHour :: "int list"
  ra_slots :: "slotAgg option list"
  ra_sum :: slotAgg
  ra_todayDate :: gotime
  ra_today :: slotAgg

definition newRollingAgg :: rollingAgg where
  "newRollingAgg = \<lparr>ra_slotHour = replicate aggSlots 0, ra_slots = replicate aggSlots None, ra_sum = emptyAgg, ra_todayDate = 0, ra_today = emptyAgg\<rparr>"

definition resetTodayLocked :: "(gotime \<Rightarrow> gotime) \<Rightarrow> gotime \<Rightarrow> rollingAgg \<Rightarrow> rollingAgg" where
  "resetTodayLocked mid now a = a\<lparr>ra_todayDate := mid now, ra_today := emptyAgg\<rparr>"

definition resetTodayIfNeeded :: "(gotime \<Rightarrow> gotime) \<Rightarrow> gotime \<Rightarrow> rollingAgg \<Rightarrow> rollingAgg" where
  "resetTodayIfNeeded mid now a = (if ra_todayDate a \<noteq> 0 \<and> now \<ge> ra_todayDate a + 24 * Hour then resetTodayLocked mid now a else a)"

definition subtractSlotLocked :: "nat \<Rightarrow> rollingAgg \<Rightarrow> rollingAgg" where
  "subtractSlotLocked i a =
     (case ra_slots a ! i of None \<Rightarrow> a | Some s \<Rightarrow> a\<lparr>ra_slots := (ra_slots a)[i := None], ra_sum := aggSub s (ra_sum a)\<rparr>)"

definition slotHours :: "int \<Rightarrow> nat list \<Rightarrow> int list" where
  "slotHours hour is = map (\<lambda>i. hour - int aggSlots + 1 + int i) is"

definition rollToLocked :: "int \<Rightarrow> rollingAgg \<Rightarrow> rollingAgg" where
  "rollToLocked hour a =
     (if ra_slotHour a ! 0 = 0 then a\<lparr>ra_slotHour := slotHours hour [0..<aggSlots]\<rparr>
      else
        let newest = ra_slotHour a ! (aggSlots - 1) in
        if hour \<le> newest then a
        else
          let n = nat (min (hour - newest) (int aggSlots)); a1 = fold subtractSlotLocked [0..<n] a
          in a1\<lparr>ra_slotHour := drop n (ra_slotHour a1) @ slotHours hour [aggSlots - n..<aggSlots],
                ra_slots := drop n (ra_slots a1) @ replicate n None\<rparr>)"

text \<open>\<^verbatim>\<open>e.Time.Truncate(time.Hour).Unix() / 3600\<close>.\<close>

definition unixHour :: "gotime \<Rightarrow> int" where
  "unixHour t = Unix (t - t mod Hour) div 3600"

definition addToday :: "(gotime \<Rightarrow> gotime) \<Rightarrow> logEntry \<Rightarrow> rollingAgg \<Rightarrow> rollingAgg" where
  "addToday mid e a0 =
     (let a = (if qe_Time e \<ge> ra_todayDate a0 + 24 * Hour then resetTodayLocked mid (qe_Time e) a0 else a0) in
      if qe_Time e \<ge> ra_todayDate a then a\<lparr>ra_today := aggAdd e (ra_today a)\<rparr> else a)"

definition slotEntry :: "logEntry \<Rightarrow> nat \<Rightarrow> rollingAgg \<Rightarrow> rollingAgg" where
  "slotEntry e idx a =
     (let s = (case ra_slots a ! idx of None \<Rightarrow> emptyAgg | Some s \<Rightarrow> s)
      in a\<lparr>ra_slots := (ra_slots a)[idx := Some (aggAdd e s)], ra_sum := aggAdd e (ra_sum a)\<rparr>)"

definition addWindow :: "logEntry \<Rightarrow> rollingAgg \<Rightarrow> rollingAgg" where
  "addWindow e a0 =
     (let h = unixHour (qe_Time e); a1 = (if ra_slotHour a0 ! 0 = 0 then rollToLocked h a0 else a0) in
      if h < ra_slotHour a1 ! 0 then a1
      else
        let a2 = (if h > ra_slotHour a1 ! (aggSlots - 1) then rollToLocked h a1 else a1) in
        if h < ra_slotHour a2 ! 0 then a2 else slotEntry e (nat (h - ra_slotHour a2 ! 0)) a2)"

definition addLocked :: "(gotime \<Rightarrow> gotime) \<Rightarrow> logEntry \<Rightarrow> rollingAgg \<Rightarrow> rollingAgg" where
  "addLocked mid e a = addWindow e (addToday mid e a)"

section \<open>What the dashboard reads\<close>

record stats =
  so_total :: int
  so_allowed :: int
  so_blocked :: int
  so_cached :: int
  so_avg_rt_ms :: rat
  so_top_blocked :: "TopDomain list"
  so_top_clients :: "TopDomain list"

definition statsOf :: "slotAgg \<Rightarrow> stats" where
  "statsOf s = \<lparr>so_total = sa_total s, so_allowed = sa_allowed s, so_blocked = sa_blocked s, so_cached = sa_cached s,
     so_avg_rt_ms = (if sa_total s > 0 then of_int (sa_rtSum s) / of_int (sa_total s) else 0),
     so_top_blocked = topN (sa_blockedDomains s) 10, so_top_clients = topN (sa_clients s) 10\<rparr>"

text \<open>The window, the day, and per slot its start in seconds, its queries and the blocked ones.\<close>

definition snapshot :: "rollingAgg \<Rightarrow> stats \<times> stats \<times> (int \<times> int \<times> int) list" where
  "snapshot a =
     (statsOf (ra_sum a), statsOf (ra_today a),
      map (\<lambda>i. case ra_slots a ! i of
          None \<Rightarrow> (ra_slotHour a ! i * 3600, 0, 0)
        | Some s \<Rightarrow> (ra_slotHour a ! i * 3600, sa_total s, sa_blocked s)) [0..<aggSlots])"

definition agg_clear :: "rollingAgg \<Rightarrow> rollingAgg" where
  "agg_clear a = a\<lparr>ra_slotHour := replicate aggSlots 0, ra_slots := replicate aggSlots None, ra_sum := emptyAgg, ra_todayDate := 0, ra_today := emptyAgg\<rparr>"

section \<open>Counters of a set of entries\<close>

text \<open>A map that counts a number per key has exactly the keys of a positive number.\<close>

definition mapCounts :: "(string, int) gomap \<Rightarrow> (string \<Rightarrow> nat) \<Rightarrow> bool" where
  "mapCounts m f \<longleftrightarrow> gm_wf m \<and> (\<forall>k. map_of m k = (if f k = 0 then None else Some (int (f k))))"

lemma mapCounts_cnt: "mapCounts m f \<Longrightarrow> cnt m k = int (f k)"
  by (simp add: mapCounts_def cnt_def)

lemma mapCounts_bump: "mapCounts m f \<Longrightarrow> mapCounts (bump k m) (f(k := f k + 1))"
  using mapCounts_cnt[of m f k] by (auto simp: mapCounts_def bump_def)

lemma mapCounts_unbump: "gm_wf xs \<Longrightarrow> mapCounts m (\<lambda>k. nat (cnt xs k) + g k) \<Longrightarrow> (\<forall>(k, c) \<in> set xs. c \<ge> 0) \<Longrightarrow> mapCounts (fold unbump xs m) g"
proof (induction xs arbitrary: m)
  case Nil
  then show ?case by (simp add: cnt_def)
next
  case (Cons x xs)
  obtain k c where x: "x = (k, c)" by force
  have k: "map_of xs k = None" using Cons.prems(1) x by (auto simp: map_of_eq_None_iff)
  have c: "c \<ge> 0" "gm_wf xs" "\<forall>(k, c) \<in> set xs. c \<ge> 0" using Cons.prems x by auto
  have "cnt m k = int (nat c + g k)" using mapCounts_cnt[OF Cons.prems(2), of k] x by (simp add: cnt_def)
  then have "mapCounts (unbump x m) (\<lambda>k'. nat (cnt xs k') + g k')"
    using Cons.prems(2) k c(1) x by (auto simp: mapCounts_def unbump_def cnt_def)
  then show ?case using Cons.IH[OF c(2) _ c(3)] by simp
qed

definition has :: "string \<Rightarrow> logEntry multiset \<Rightarrow> nat" where
  "has act M = size {#e \<in># M. qe_Action e = act#}"

definition counts :: "slotAgg \<Rightarrow> logEntry multiset \<Rightarrow> bool" where
  "counts s M \<longleftrightarrow> sa_total s = int (size M) \<and> sa_allowed s = int (has ''allowed'' M) \<and> sa_blocked s = int (has ''blocked'' M) \<and>
     sa_cached s = int (has ''cached'' M) \<and> sa_rtSum s = (\<Sum>e \<in># M. qe_ResponseTimeMS e) \<and>
     mapCounts (sa_blockedDomains s) (\<lambda>d. size {#e \<in># M. qe_Action e = ''blocked'' \<and> qe_Domain e = d#}) \<and>
     mapCounts (sa_clients s) (\<lambda>c. size {#e \<in># M. qe_Client e = c#})"

lemma counts_empty: "counts emptyAgg {#}"
  by (simp add: counts_def emptyAgg_def mapCounts_def has_def)

lemma counts_add:
  assumes "counts s M"
  shows "counts (aggAdd e s) (add_mset e M)"
proof -
  let ?b = "\<lambda>M d. size {#x \<in># M. qe_Action x = ''blocked'' \<and> qe_Domain x = d#}" and ?c = "\<lambda>M c. size {#x \<in># M. qe_Client x = c#}"
  have "?c (add_mset e M) = (?c M)(qe_Client e := ?c M (qe_Client e) + 1)" by auto
  then have c: "mapCounts (bump (qe_Client e) (sa_clients s)) (?c (add_mset e M))"
    using mapCounts_bump[of "sa_clients s" "?c M" "qe_Client e"] assms by (simp only: counts_def)
  have "?b (add_mset e M) = (?b M)(qe_Domain e := ?b M (qe_Domain e) + 1)" if "qe_Action e = ''blocked''" using that by auto
  then have b: "mapCounts (bump (qe_Domain e) (sa_blockedDomains s)) (?b (add_mset e M))" if "qe_Action e = ''blocked''"
    using mapCounts_bump[of "sa_blockedDomains s" "?b M" "qe_Domain e"] assms that by (simp only: counts_def)
  show ?thesis
  proof (cases "qe_Action e = ''blocked''")
    case True
    then show ?thesis using assms b[OF True] c unfolding counts_def by (simp add: aggAdd_def has_def Let_def)
  next
    case False
    then have "?b (add_mset e M) = ?b M" by auto
    then show ?thesis using False assms c unfolding counts_def by (simp add: aggAdd_def has_def Let_def)
  qed
qed

lemma mapCounts_nonneg: "mapCounts m f \<Longrightarrow> \<forall>(k, c) \<in> set m. c \<ge> 0"
proof -
  assume m: "mapCounts m f"
  have "c \<ge> 0" if "(k, c) \<in> set m" for k c
    using m map_of_is_SomeI[of m k c] that by (auto simp: mapCounts_def split: if_splits)
  then show ?thesis by auto
qed

lemma counts_sub:
  assumes "counts a (X + Y)" "counts s X"
  shows "counts (aggSub s a) Y"
proof -
  have sub: "mapCounts (fold unbump xs m) g" if "mapCounts xs f" "mapCounts m (\<lambda>k. f k + g k)" for xs m f g
    using mapCounts_unbump[of xs m g] mapCounts_nonneg[OF that(1)] that by (simp add: mapCounts_cnt[OF that(1)]) (simp add: mapCounts_def)
  show ?thesis using assms unfolding counts_def aggSub_def by (auto simp: has_def intro!: sub)
qed

section \<open>The ring counts its window\<close>

abbreviation hr :: "logEntry \<Rightarrow> int" where "hr e \<equiv> unixHour (qe_Time e)"

fun slotCounts :: "slotAgg option \<Rightarrow> logEntry multiset \<Rightarrow> bool" where
  "slotCounts None X \<longleftrightarrow> X = {#}"
| "slotCounts (Some s) X \<longleftrightarrow> counts s X"

text \<open>The ring ends at hour \<open>N\<close> and has seen the entries \<open>M\<close>, none of them later.\<close>

definition ring :: "int \<Rightarrow> logEntry multiset \<Rightarrow> rollingAgg \<Rightarrow> bool" where
  "ring N M a \<longleftrightarrow> ra_slotHour a = slotHours N [0..<aggSlots] \<and> length (ra_slots a) = aggSlots \<and>
     (\<forall>i < aggSlots. slotCounts (ra_slots a ! i) {#e \<in># M. hr e = N - 23 + int i#}) \<and>
     counts (ra_sum a) {#e \<in># M. hr e \<ge> N - 23#} \<and> (\<forall>e \<in># M. hr e \<le> N)"

lemma slotHours_nth: "i < aggSlots \<Longrightarrow> slotHours N [0..<aggSlots] ! i = N - 23 + int i"
  by (simp add: slotHours_def aggSlots_def)

lemma ring_ends: "ring N M a \<Longrightarrow> ra_slotHour a ! 0 = N - 23 \<and> ra_slotHour a ! (aggSlots - 1) = N"
  by (simp add: ring_def slotHours_def aggSlots_def)

lemma subtract_slots:
  assumes "ring N M a" "k \<le> aggSlots"
  shows "let b = fold subtractSlotLocked [0..<k] a in ra_slotHour b = ra_slotHour a \<and> length (ra_slots b) = aggSlots \<and>
    (\<forall>i < aggSlots. i \<ge> k \<longrightarrow> ra_slots b ! i = ra_slots a ! i) \<and> counts (ra_sum b) {#e \<in># M. hr e \<ge> N - 23 + int k#}"
  using assms(2)
proof (induction k)
  case 0
  then show ?case using assms(1) by (simp add: ring_def)
next
  case (Suc k)
  define b where "b = fold subtractSlotLocked [0..<k] a"
  have b: "ra_slotHour b = ra_slotHour a" "length (ra_slots b) = aggSlots" "\<forall>i < aggSlots. i \<ge> k \<longrightarrow> ra_slots b ! i = ra_slots a ! i"
    "counts (ra_sum b) {#e \<in># M. hr e \<ge> N - 23 + int k#}" using Suc unfolding b_def Let_def by auto
  let ?X = "{#e \<in># M. hr e = N - 23 + int k#}" and ?Y = "{#e \<in># M. hr e \<ge> N - 23 + int (Suc k)#}"
  have split: "{#e \<in># M. hr e \<ge> N - 23 + int k#} = ?X + ?Y" by (rule multiset_eqI) auto
  have slot: "slotCounts (ra_slots b ! k) ?X" using assms(1) b(3) Suc.prems by (auto simp: ring_def)
  have eq: "fold subtractSlotLocked [0..<Suc k] a = subtractSlotLocked k b" by (simp add: b_def)
  have rest: "ra_slotHour (subtractSlotLocked k b) = ra_slotHour b" "length (ra_slots (subtractSlotLocked k b)) = length (ra_slots b)"
    "\<And>i. i \<ge> Suc k \<Longrightarrow> ra_slots (subtractSlotLocked k b) ! i = ra_slots b ! i"
    by (auto simp: subtractSlotLocked_def split: option.split)
  have "counts (ra_sum (subtractSlotLocked k b)) ?Y"
  proof (cases "ra_slots b ! k")
    case None
    then have "?X = {#}" using slot by (simp only: slotCounts.simps)
    then show ?thesis using b(4) None unfolding split by (simp only: subtractSlotLocked_def option.case add_0)
  next
    case (Some s)
    then show ?thesis using slot b(4) counts_sub[of "ra_sum b" ?X ?Y s] unfolding split by (simp add: subtractSlotLocked_def)
  qed
  then show ?case unfolding Let_def eq using b(1-3) rest by auto
qed

lemma ring_roll:
  assumes "ring N M a" "N > 23" "h > N"
  shows "ring h M (rollToLocked h a)"
proof -
  define n where "n = nat (min (h - N) (int aggSlots))"
  define b where "b = fold subtractSlotLocked [0..<n] a"
  have n: "n \<le> aggSlots" by (simp add: n_def)
  have b: "ra_slotHour b = ra_slotHour a" "length (ra_slots b) = aggSlots" "\<And>i. i < aggSlots \<Longrightarrow> i \<ge> n \<Longrightarrow> ra_slots b ! i = ra_slots a ! i"
    "counts (ra_sum b) {#e \<in># M. hr e \<ge> N - 23 + int n#}" using subtract_slots[OF assms(1) n] unfolding b_def Let_def by auto
  let ?r = "b\<lparr>ra_slotHour := drop n (ra_slotHour b) @ slotHours h [aggSlots - n..<aggSlots], ra_slots := drop n (ra_slots b) @ replicate n None\<rparr>"
  have roll: "rollToLocked h a = ?r" using assms(2,3) ring_ends[OF assms(1)] by (simp add: rollToLocked_def n_def b_def Let_def)
  have le: "\<forall>e \<in># M. hr e \<le> N" using assms(1) by (simp add: ring_def)
  have slots: "slotCounts (ra_slots a ! i) {#e \<in># M. hr e = N - 23 + int i#}" if "i < aggSlots" for i using assms(1) that by (simp add: ring_def)
  have old: "h - N \<le> 24 \<Longrightarrow> N - 23 + int n = h - 23" "h - N > 24 \<Longrightarrow> int n = 24" using assms(3) by (auto simp: n_def aggSlots_def)
  have "drop n (slotHours N [0..<aggSlots]) = slotHours h [0..<aggSlots - n]"
    by (rule nth_equalityI) (use assms(3) n in \<open>auto simp: slotHours_def n_def aggSlots_def split: if_splits\<close>)
  moreover have "[0..<aggSlots - n] @ [aggSlots - n..<aggSlots] = [0..<aggSlots]"
    using upt_add_eq_append[of 0 "aggSlots - n" n] n by simp
  then have "slotHours h [0..<aggSlots - n] @ slotHours h [aggSlots - n..<aggSlots] = slotHours h [0..<aggSlots]"
    by (metis map_append slotHours_def)
  ultimately have hours: "ra_slotHour ?r = slotHours h [0..<aggSlots]" using b(1) assms(1) by (simp add: ring_def)
  have "{#e \<in># M. hr e \<ge> N - 23 + int n#} = {#e \<in># M. hr e \<ge> h - 23#}"
    using le old by (cases "h - N \<le> 24") (auto intro!: filter_mset_cong)
  then have sum: "counts (ra_sum ?r) {#e \<in># M. hr e \<ge> h - 23#}" using b(4) by simp
  have "slotCounts (ra_slots ?r ! i) {#e \<in># M. hr e = h - 23 + int i#}" if i: "i < aggSlots" for i
  proof (cases "i < aggSlots - n")
    case True
    then have "n < aggSlots" "h - N \<le> 24" using old n by (auto simp: n_def aggSlots_def)
    then have "h - 23 + int i = N - 23 + int (n + i)" using old(1) by simp
    moreover have "ra_slots ?r ! i = ra_slots a ! (n + i)" using True b(2,3) by (simp add: nth_append)
    moreover have "slotCounts (ra_slots a ! (n + i)) {#e \<in># M. hr e = N - 23 + int (n + i)#}" using slots[of "n + i"] True by simp
    ultimately show ?thesis by (simp only:)
  next
    case False
    then have "h - 23 + int i > N" using i assms(3) by (auto simp: n_def aggSlots_def)
    then have "{#e \<in># M. hr e = h - 23 + int i#} = {#}" using le by (auto simp: filter_mset_eq_mempty_iff)
    moreover have "ra_slots ?r ! i = None" using False i b(2) n by (simp add: nth_append)
    ultimately show ?thesis by simp
  qed
  then show ?thesis unfolding roll using hours sum b(2) n le assms(3) by (auto simp: ring_def)
qed

lemma ring_skip: "ring N M a \<Longrightarrow> hr e < N - 23 \<Longrightarrow> ring N (add_mset e M) a"
  by (auto simp: ring_def)

lemma ring_slot:
  assumes "ring N M a" "N - 23 \<le> hr e" "hr e \<le> N"
  shows "ring N (add_mset e M) (slotEntry e (nat (hr e - (N - 23))) a)"
proof -
  let ?i = "nat (hr e - (N - 23))"
  have i: "?i < aggSlots" "N - 23 + int ?i = hr e" using assms(2,3) by (auto simp: aggSlots_def)
  have slots: "slotCounts (ra_slots a ! j) {#x \<in># M. hr x = N - 23 + int j#}" if "j < aggSlots" for j using assms(1) that by (simp add: ring_def)
  have "counts (case ra_slots a ! ?i of None \<Rightarrow> emptyAgg | Some s \<Rightarrow> s) {#x \<in># M. hr x = hr e#}"
    using slots[OF i(1)] counts_empty unfolding i(2) by (cases "ra_slots a ! ?i") (simp_all only: slotCounts.simps option.case)
  from counts_add[OF this, of e]
  have new: "slotCounts (Some (aggAdd e (case ra_slots a ! ?i of None \<Rightarrow> emptyAgg | Some s \<Rightarrow> s))) {#x \<in># add_mset e M. hr x = N - 23 + int ?i#}"
    unfolding i(2) by simp
  have "slotCounts (ra_slots (slotEntry e ?i a) ! j) {#x \<in># add_mset e M. hr x = N - 23 + int j#}" if j: "j < aggSlots" for j
  proof (cases "j = ?i")
    case True
    then show ?thesis using new i(1) assms(1) by (simp add: slotEntry_def ring_def Let_def)
  next
    case False
    then have "hr e \<noteq> N - 23 + int j" using i(2) by auto
    then show ?thesis using slots[OF j] False by (simp add: slotEntry_def Let_def)
  qed
  moreover have "counts (ra_sum (slotEntry e ?i a)) {#x \<in># add_mset e M. hr x \<ge> N - 23#}"
    using assms(1,2) counts_add[of "ra_sum a" "{#x \<in># M. hr x \<ge> N - 23#}" e] by (simp add: ring_def slotEntry_def Let_def)
  ultimately show ?thesis using assms(1,3) by (simp add: ring_def slotEntry_def Let_def)
qed

lemma ring_add:
  assumes "ring N M a" "N > 23"
  shows "ring (max N (hr e)) (add_mset e M) (addWindow e a)"
proof (cases "hr e > N")
  case True
  have r: "ring (hr e) M (rollToLocked (hr e) a)" by (rule ring_roll[OF assms True])
  then show ?thesis using True assms(2) ring_slot[OF r, of e] ring_ends[OF r] ring_ends[OF assms(1)] by (simp add: addWindow_def Let_def max_def)
next
  case False
  then show ?thesis using assms(2) ring_slot[OF assms(1), of e] ring_skip[OF assms(1), of e] ring_ends[OF assms(1)]
    by (auto simp: addWindow_def Let_def max_def)
qed

lemma ring_first:
  assumes "ra_slotHour a = replicate aggSlots 0" "ra_slots a = replicate aggSlots None" "counts (ra_sum a) {#}" "hr e > 23"
  shows "ring (hr e) {#e#} (addWindow e a)"
proof -
  have r: "ring (hr e) {#} (rollToLocked (hr e) a)" using assms by (simp add: ring_def rollToLocked_def aggSlots_def)
  have "ra_slotHour a ! 0 = 0" using assms(1) by (simp add: aggSlots_def)
  then show ?thesis using ring_slot[OF r, of e] ring_ends[OF r] by (simp add: addWindow_def Let_def)
qed

lemma addToday_ring:
  "ra_slotHour (addToday mid e a) = ra_slotHour a" "ra_slots (addToday mid e a) = ra_slots a" "ra_sum (addToday mid e a) = ra_sum a"
  by (simp_all add: addToday_def resetTodayLocked_def Let_def)

lemma ring_run:
  assumes "es \<noteq> []" "\<forall>e \<in> set es. hr e > 23"
  shows "ring (Max (hr ` set es)) (mset es) (fold (addLocked mid) es newRollingAgg)"
  using assms
proof (induction es rule: rev_induct)
  case (snoc e es)
  let ?a = "fold (addLocked mid) es newRollingAgg"
  show ?case
  proof (cases "es = []")
    case True
    then show ?thesis using snoc.prems ring_first[of "addToday mid e newRollingAgg" e] counts_empty
      by (simp add: addLocked_def addToday_ring newRollingAgg_def)
  next
    case False
    have r: "ring (Max (hr ` set es)) (mset es) ?a" using snoc False by simp
    have "Max (hr ` set es) \<in> hr ` set es" using False by (intro Max_in) auto
    then have "Max (hr ` set es) > 23" using snoc.prems by auto
    moreover have "ring (Max (hr ` set es)) (mset es) (addToday mid e ?a)" using r by (simp add: ring_def addToday_ring)
    ultimately have "ring (max (Max (hr ` set es)) (hr e)) (add_mset e (mset es)) (addLocked mid e ?a)" using ring_add by (simp add: addLocked_def)
    moreover have "Max (hr ` set (es @ [e])) = max (Max (hr ` set es)) (hr e)" using False by (simp add: max.commute)
    ultimately show ?thesis by simp
  qed
qed simp

section \<open>The same statistics by walking the entries\<close>

definition isBlocked :: "logEntry \<Rightarrow> bool" where "isBlocked e \<longleftrightarrow> qe_Action e = ''blocked''"

text \<open>The ten strongest of the given keys by the number of entries that carry them.\<close>

definition top10 :: "(logEntry \<Rightarrow> string) \<Rightarrow> logEntry list \<Rightarrow> TopDomain list" where
  "top10 key W = take 10 (rev (sort (map (\<lambda>k. TopDomain k (int (length (filter (\<lambda>e. key e = k) W)))) (remdups (map key W)))))"

definition recount :: "logEntry list \<Rightarrow> stats" where
  "recount W = \<lparr>so_total = int (length W), so_allowed = int (length (filter (\<lambda>e. qe_Action e = ''allowed'') W)),
     so_blocked = int (length (filter isBlocked W)), so_cached = int (length (filter (\<lambda>e. qe_Action e = ''cached'') W)),
     so_avg_rt_ms = (if W = [] then 0 else of_int (sum_list (map qe_ResponseTimeMS W)) / of_nat (length W)),
     so_top_blocked = top10 qe_Domain (filter isBlocked W), so_top_clients = top10 qe_Client W\<rparr>"

lemma sort_mset: "mset xs = mset ys \<Longrightarrow> sort xs = sort ys"
  by (metis properties_for_sort mset_sort sorted_sort)

lemma topN_mapCounts:
  assumes "mapCounts m f" "\<And>k. f k \<noteq> 0 \<longleftrightarrow> k \<in> set ks" "distinct ks"
  shows "topN m 10 = take 10 (rev (sort (map (\<lambda>k. TopDomain k (int (f k))) ks)))"
proof -
  let ?m = "map (\<lambda>k. (k, int (f k))) ks"
  have "distinct m" "distinct ?m" using assms(1,3) by (auto simp: mapCounts_def distinct_map inj_on_def)
  moreover have "(k, c) \<in> set m \<longleftrightarrow> (k, c) \<in> set ?m" for k c
    using assms(1) assms(2)[of k] map_of_is_SomeI[of m k c] map_of_SomeD[of m k c] by (auto simp: mapCounts_def split: if_splits)
  ultimately have "mset m = mset ?m" by (subst set_eq_iff_mset_eq_distinct[symmetric]) auto
  then have "mset (map (\<lambda>(d, c). TopDomain d c) m) = mset (map (\<lambda>(d, c). TopDomain d c) ?m)" by (simp only: mset_map)
  from sort_mset[OF this] show ?thesis by (simp add: topN_sorted comp_def)
qed

lemma topN_top10:
  assumes "mapCounts m (\<lambda>k. size {#e \<in># mset W. key e = k#})"
  shows "topN m 10 = top10 key W"
proof -
  have "size {#e \<in># mset W. key e = k#} = length (filter (\<lambda>e. key e = k) W)" for k by (simp flip: mset_filter)
  then show ?thesis using topN_mapCounts[OF assms, of "remdups (map key W)"] by (auto simp: top10_def filter_empty_conv)
qed

lemma statsOf_recount: "counts s (mset W) \<Longrightarrow> statsOf s = recount W"
proof -
  assume c: "counts s (mset W)"
  have n: "size {#e \<in># mset W. P e#} = length (filter P W)" for P by (simp flip: mset_filter)
  have "sa_rtSum s = sum_list (map qe_ResponseTimeMS W)" using c by (simp add: counts_def flip: sum_mset_sum_list)
  moreover have "{#e \<in># mset W. qe_Action e = ''blocked'' \<and> qe_Domain e = d#} = {#e \<in># mset (filter isBlocked W). qe_Domain e = d#}" for d
    by (simp add: isBlocked_def filter_filter_mset conj_commute)
  then have "topN (sa_blockedDomains s) 10 = top10 qe_Domain (filter isBlocked W)"
    using c by (intro topN_top10) (simp only: counts_def)
  moreover have "topN (sa_clients s) 10 = top10 qe_Client W" using c by (intro topN_top10) (simp only: counts_def)
  moreover have "isBlocked = (\<lambda>e. qe_Action e = ''blocked'')" by (rule ext) (simp add: isBlocked_def)
  ultimately show ?thesis using c by (auto simp: counts_def has_def n statsOf_def recount_def)
qed

lemma rolling_recount:
  assumes "es \<noteq> []" "list_all (\<lambda>e. unixHour (qe_Time e) > 23) es"
  shows "let a = fold (addLocked mid) es newRollingAgg; N = Max (set (map (\<lambda>e. unixHour (qe_Time e)) es)) in
    fst (snapshot a) = recount (filter (\<lambda>e. unixHour (qe_Time e) > N - 24) es) \<and>
    snd (snd (snapshot a)) = map (\<lambda>i. let S = filter (\<lambda>e. unixHour (qe_Time e) = N - 23 + int i) es
      in ((N - 23 + int i) * 3600, int (length S), int (length (filter isBlocked S)))) [0..<24]"
proof -
  let ?a = "fold (addLocked mid) es newRollingAgg" and ?N = "Max (hr ` set es)"
  have r: "ring ?N (mset es) ?a" using ring_run assms by (simp add: list_all_iff)
  have "counts (ra_sum ?a) (mset (filter (\<lambda>e. hr e \<ge> ?N - 23) es))" using r by (simp add: ring_def)
  moreover have "filter (\<lambda>e. hr e \<ge> ?N - 23) es = filter (\<lambda>e. hr e > ?N - 24) es" by (rule filter_cong) auto
  ultimately have sum: "statsOf (ra_sum ?a) = recount (filter (\<lambda>e. hr e > ?N - 24) es)" using statsOf_recount by simp
  have "(case ra_slots ?a ! i of None \<Rightarrow> (ra_slotHour ?a ! i * 3600, 0, 0) | Some s \<Rightarrow> (ra_slotHour ?a ! i * 3600, sa_total s, sa_blocked s)) =
      (let S = filter (\<lambda>e. hr e = ?N - 23 + int i) es in ((?N - 23 + int i) * 3600, int (length S), int (length (filter isBlocked S))))"
    if i: "i < aggSlots" for i
  proof -
    let ?S = "filter (\<lambda>e. hr e = ?N - 23 + int i) es"
    have h: "ra_slotHour ?a ! i = ?N - 23 + int i" using r i slotHours_nth[OF i] by (simp add: ring_def)
    have c: "slotCounts (ra_slots ?a ! i) (mset ?S)" using r i by (simp add: ring_def)
    have b: "has ''blocked'' (mset ?S) = length (filter isBlocked ?S)" by (simp add: has_def isBlocked_def flip: mset_filter)
    show ?thesis
    proof (cases "ra_slots ?a ! i")
      case None
      then have "?S = []" using c by (simp only: slotCounts.simps mset_zero_iff)
      then show ?thesis using None h by (simp only: Let_def option.case) simp
    next
      case (Some s)
      then have "sa_total s = int (length ?S)" "sa_blocked s = int (length (filter isBlocked ?S))" using c b by (simp_all only: slotCounts.simps counts_def size_mset)
      then show ?thesis using Some h by (simp only: Let_def option.case)
    qed
  qed
  then have "snd (snd (snapshot ?a)) = map (\<lambda>i. let S = filter (\<lambda>e. hr e = ?N - 23 + int i) es
      in ((?N - 23 + int i) * 3600, int (length S), int (length (filter isBlocked S)))) [0..<24]"
    by (simp add: snapshot_def aggSlots_def)
  then show ?thesis using sum by (simp add: snapshot_def Let_def image_comp)
qed

text \<open>C16: whatever entries arrive in whatever order, the statistics kept entry by entry are those of walking all entries of the last
  twenty-four hours up to the newest one: totals, average, top lists and hourly chart. (Years before 1970 aside, whose hours clash with the
  mark of an empty ring.)\<close>

theorem rolling_equals_recount:
  assumes "es \<noteq> []" "list_all (\<lambda>e. unixHour (qe_Time e) > 23) es"
  shows "let a = fold (addLocked mid) es newRollingAgg; N = Max (set (map (\<lambda>e. unixHour (qe_Time e)) es)) in
    fst (snapshot a) = recount (filter (\<lambda>e. unixHour (qe_Time e) > N - 24) es) \<and>
    snd (snd (snapshot a)) = map (\<lambda>i. let S = filter (\<lambda>e. unixHour (qe_Time e) = N - 23 + int i) es
      in ((N - 23 + int i) * 3600, int (length S), int (length (filter isBlocked S)))) [0..<24]"
  using rolling_recount[OF assms] .

definition sampleEntry :: "int \<Rightarrow> string \<Rightarrow> logEntry" where
  "sampleEntry h act = \<lparr>qe_ID = [], qe_Time = (17259888 + h) * Hour, qe_Client = ''10.0.0.1'', qe_Domain = ''ads.example'', qe_Type = ''A'', qe_Action = act,
     qe_Reason = [], qe_Upstream = [], qe_ResponseTimeMS = 4, qe_Rcode = 0, qe_Answers = 1, qe_ASN = 0\<rparr>"

definition sampleEntries :: "logEntry list" where
  "sampleEntries = map (\<lambda>(h, act). sampleEntry h act)
     [(100, ''blocked''), (90, ''allowed''), (118, ''blocked'')]"

theorem rolling_equals_recount_witness:
  "so_total (fst (snapshot (fold (addLocked id) sampleEntries newRollingAgg))) = 2 \<and>
   so_blocked (fst (snapshot (fold (addLocked id) sampleEntries newRollingAgg))) = 2"
proof -
  have h: "map (\<lambda>e. unixHour (qe_Time e)) sampleEntries = [100, 90, 118]" by (simp add: sampleEntries_def sampleEntry_def unixHour_def Unix_def)
  have "sampleEntries \<noteq> []" "list_all (\<lambda>e. unixHour (qe_Time e) > 23) sampleEntries" by (simp_all add: sampleEntries_def sampleEntry_def unixHour_def Unix_def)
  from rolling_equals_recount[OF this, of id] h
  have "fst (snapshot (fold (addLocked id) sampleEntries newRollingAgg)) = recount (filter (\<lambda>e. unixHour (qe_Time e) > 94) sampleEntries)"
    by (simp add: Let_def)
  then show ?thesis by (simp add: recount_def sampleEntries_def sampleEntry_def unixHour_def Unix_def isBlocked_def)
qed

section \<open>The current day\<close>

text \<open>Midnights of a zone with a fixed offset.\<close>

definition fixedMidnight :: "int \<Rightarrow> gotime \<Rightarrow> gotime" where
  "fixedMidnight z t = t - (t - z) mod (24 * Hour)"

definition dayCounts :: "int \<Rightarrow> logEntry multiset \<Rightarrow> rollingAgg \<Rightarrow> bool" where
  "dayCounts z M a \<longleftrightarrow> counts (ra_today a) {#e \<in># M. qe_Time e \<ge> ra_todayDate a#} \<and> (\<forall>e \<in># M. qe_Time e < ra_todayDate a + 24 * Hour) \<and>
     (M = {#} \<or> (\<exists>q. ra_todayDate a = z + q * (24 * Hour)))"

lemma midnight_bounds: "fixedMidnight z t \<le> t" "t < fixedMidnight z t + 24 * Hour" "\<exists>q. fixedMidnight z t = z + q * (24 * Hour)"
proof -
  show "fixedMidnight z t \<le> t" "t < fixedMidnight z t + 24 * Hour" by (simp_all add: fixedMidnight_def)
  have "t - (t - z) mod (24 * Hour) = z + (t - z) div (24 * Hour) * (24 * Hour)" using mod_div_mult_eq[of "t - z" "24 * Hour"] by linarith
  then show "\<exists>q. fixedMidnight z t = z + q * (24 * Hour)" unfolding fixedMidnight_def by blast
qed

lemma midnight_after: "t \<ge> z + q * (24 * Hour) \<Longrightarrow> fixedMidnight z t \<ge> z + q * (24 * Hour)"
proof -
  assume t: "t \<ge> z + q * (24 * Hour)"
  obtain p where p: "fixedMidnight z t = z + p * (24 * Hour)" using midnight_bounds(3) by blast
  then have "q * (24 * Hour) < (p + 1) * (24 * Hour)" using t midnight_bounds(2)[of t z] by (simp add: distrib_right)
  then have "q \<le> p" by (simp add: mult_less_cancel_right)
  then show ?thesis using p by simp
qed

lemma addToday_day:
  assumes "dayCounts z M a" "ra_todayDate a = 0 \<or> M \<noteq> {#}" "M = {#} \<longrightarrow> qe_Time e \<ge> 24 * Hour"
  shows "dayCounts z (add_mset e M) (addToday (fixedMidnight z) e a)"
proof (cases "qe_Time e \<ge> ra_todayDate a + 24 * Hour")
  case True
  let ?D = "fixedMidnight z (qe_Time e)"
  have "ra_todayDate a + 24 * Hour \<le> ?D" if M: "M \<noteq> {#}"
  proof -
    obtain q where "ra_todayDate a = z + q * (24 * Hour)" using assms(1) M by (auto simp: dayCounts_def)
    then have "ra_todayDate a + 24 * Hour = z + (q + 1) * (24 * Hour)" by (simp add: distrib_right)
    then show ?thesis using midnight_after[of z "q + 1" "qe_Time e"] True by simp
  qed
  then have old: "\<forall>x \<in># M. qe_Time x < ?D" using assms(1) by (fastforce simp: dayCounts_def)
  then have "{#x \<in># M. qe_Time x \<ge> ?D#} = {#}" by (auto simp: filter_mset_eq_mempty_iff not_le)
  then have new: "{#x \<in># add_mset e M. qe_Time x \<ge> ?D#} = {#e#}" by (simp only: filter_mset_add_mset midnight_bounds(1) if_True)
  have "counts (aggAdd e emptyAgg) {#x \<in># add_mset e M. qe_Time x \<ge> ?D#}"
    unfolding new by (rule counts_add[OF counts_empty])
  moreover have "\<forall>x \<in># add_mset e M. qe_Time x < ?D + 24 * Hour" using old midnight_bounds(2)[of "qe_Time e" z] by (auto intro: less_trans)
  ultimately show ?thesis using True midnight_bounds(1,3)[of z "qe_Time e"] by (simp add: dayCounts_def addToday_def resetTodayLocked_def Let_def)
next
  case False
  then have "M \<noteq> {#}" using assms(2,3) by auto
  then show ?thesis using False assms(1) counts_add[of "ra_today a" "{#x \<in># M. qe_Time x \<ge> ra_todayDate a#}" e]
    by (auto simp: dayCounts_def addToday_def Let_def)
qed

text \<open>In a zone with a fixed offset the counters of the day are those of the entries since the last midnight crossed.\<close>

lemma addWindow_today: "ra_today (addWindow e a) = ra_today a" "ra_todayDate (addWindow e a) = ra_todayDate a"
proof -
  have s: "ra_today (fold subtractSlotLocked is a) = ra_today a \<and> ra_todayDate (fold subtractSlotLocked is a) = ra_todayDate a" for "is" a
    by (induction "is" arbitrary: a) (auto simp: subtractSlotLocked_def split: option.split)
  have r: "ra_today (rollToLocked h b) = ra_today b \<and> ra_todayDate (rollToLocked h b) = ra_todayDate b" for h b
    using s by (simp add: rollToLocked_def Let_def)
  show "ra_today (addWindow e a) = ra_today a" "ra_todayDate (addWindow e a) = ra_todayDate a"
    using r by (simp_all add: addWindow_def slotEntry_def Let_def)
qed

lemma day_run:
  assumes "\<forall>e \<in> set es. qe_Time e \<ge> 24 * Hour"
  shows "dayCounts z (mset es) (fold (addLocked (fixedMidnight z)) es newRollingAgg) \<and> (es = [] \<longrightarrow> ra_todayDate (fold (addLocked (fixedMidnight z)) es newRollingAgg) = 0)"
  using assms
proof (induction es rule: rev_induct)
  case Nil
  then show ?case using counts_empty by (simp add: dayCounts_def newRollingAgg_def)
next
  case (snoc e es)
  let ?a = "fold (addLocked (fixedMidnight z)) es newRollingAgg"
  have w: "dayCounts z M (addWindow x b) = dayCounts z M b" for M x b by (simp add: dayCounts_def addWindow_today)
  have "dayCounts z (mset es) ?a" "ra_todayDate ?a = 0 \<or> mset es \<noteq> {#}" "mset es = {#} \<longrightarrow> qe_Time e \<ge> 24 * Hour"
    using snoc by auto
  from addToday_day[OF this] show ?case by (simp add: addLocked_def[of _ e] w)
qed

text \<open>On the day of twenty-five hours that ends summer time every entry of the last hour resets the day to itself.\<close>

lemma long_day_loses_counts:
  assumes "\<And>t. m \<le> t \<Longrightarrow> t < m + 25 * Hour \<Longrightarrow> mid t = m" "ra_todayDate a = m"
    and "m + 24 * Hour \<le> qe_Time e" "qe_Time e < m + 25 * Hour"
  shows "ra_today (addLocked mid e a) = aggAdd e emptyAgg \<and> ra_todayDate (addLocked mid e a) = m"
  using assms by (simp add: addLocked_def addWindow_today addToday_def resetTodayLocked_def Let_def)

end
