(* ===== verification/QueryLog.thy ===== *)
theory QueryLog
  imports QueryStats GoText
begin

text \<open>
  The query log (\<^verbatim>\<open>internal/querylog/querylog.go\<close>): the paged walk over the stream in the database, the queries over it, the result
  cache, and the background writer as a step relation. The database is a parameter: \<open>xr reverse start stop n\<close> is the reply to a range
  command, nothing when it fails. Decoding of the stored JSON is a parameter too, \<open>unm\<close>.
\<close>

section \<open>Messages\<close>

record XMessage =
  xm_ID :: string
  xm_v :: "string option"

type_synonym rangeCmd = "bool \<Rightarrow> string \<Rightarrow> string \<Rightarrow> nat \<Rightarrow> XMessage list option"

definition entryFromMessage :: "(string \<Rightarrow> logEntry option) \<Rightarrow> XMessage \<Rightarrow> logEntry option" where
  "entryFromMessage unm m =
     (if xm_ID m = [] then None
      else case xm_v m of
        None \<Rightarrow> None
      | Some raw \<Rightarrow> map_option (\<lambda>e. e\<lparr>qe_ID := xm_ID m\<rparr>) (unm raw))"

definition maxStreamEntries :: nat where "maxStreamEntries = 250000"
definition maxQueryScan :: nat where "maxQueryScan = 20000"
definition maxStatsScan :: nat where "maxStatsScan = 100000"
definition maxWarmScan :: nat where "maxWarmScan = maxStreamEntries"
definition queryPage :: nat where "queryPage = 1000"
definition aggPage :: nat where "aggPage = 5000"

lemma page_pos: "queryPage \<ge> 1" "aggPage \<ge> 1"
  by (simp_all add: queryPage_def aggPage_def)

section \<open>The walk\<close>

text \<open>The body of the loop over the messages is \<open>f\<close>: whether to go on, and its state. One page of it: whether the walk goes on, what is left
  of the scan bound, the state.\<close>

fun pageLoop :: "(XMessage \<Rightarrow> 's \<Rightarrow> bool \<times> 's) \<Rightarrow> XMessage list \<Rightarrow> nat \<Rightarrow> 's \<Rightarrow> bool \<times> nat \<times> 's" where
  "pageLoop f [] left s = (True, left, s)"
| "pageLoop f (m # ms) left s =
     (case f m s of (goon, s1) \<Rightarrow>
        if \<not> goon \<or> left \<le> 1 then (False, left - 1, s1) else pageLoop f ms (left - 1) s1)"

lemma pageLoop_left: "pageLoop f ms left s = (True, left1, s1) \<Longrightarrow> left1 \<le> left \<and> (ms \<noteq> [] \<longrightarrow> left > 0 \<longrightarrow> left1 < left)"
  by (induction f ms left s rule: pageLoop.induct) (fastforce split: prod.splits if_splits)+

text \<open>\<^verbatim>\<open>walkStream\<close> with \<open>left\<close> messages left to scan: whether the database failed, and the state.\<close>

function walkStream :: "rangeCmd \<Rightarrow> (XMessage \<Rightarrow> 's \<Rightarrow> bool \<times> 's) \<Rightarrow> bool \<Rightarrow> string \<Rightarrow> nat \<Rightarrow> bool \<Rightarrow> string \<Rightarrow> nat \<Rightarrow> 's \<Rightarrow> bool \<times> 's" where
  "walkStream xr f reverse stop page first start left s =
     (if left = 0 then (False, s)
      else case xr reverse start stop (page + 1) of
        None \<Rightarrow> (True, s)
      | Some msgs \<Rightarrow>
          let rest = (if \<not> first \<and> msgs \<noteq> [] \<and> xm_ID (hd msgs) = start then tl msgs else msgs) in
          if rest = [] then (False, s)
          else case pageLoop f rest left s of (goon, left1, s1) \<Rightarrow>
            if \<not> goon \<or> length msgs \<le> page then (False, s1)
            else walkStream xr f reverse stop page False (xm_ID (last msgs)) left1 s1)"
  by pat_completeness auto
termination
  by (relation "measure (\<lambda>(xr, f, reverse, stop, page, first, start, left, s). left)") (auto dest!: sym[THEN pageLoop_left])

declare walkStream.simps [simp del]

section \<open>Queries\<close>

definition matchesFilter :: "logEntry \<Rightarrow> string \<Rightarrow> string \<Rightarrow> string \<Rightarrow> string \<Rightarrow> bool" where
  "matchesFilter e action domainLower qtype client \<longleftrightarrow>
     (if action \<noteq> [] \<and> qe_Action e \<noteq> action then False
      else if qtype \<noteq> [] \<and> \<not> EqualFold (qe_Type e) qtype then False
      else if domainLower \<noteq> [] \<and> \<not> Contains (qe_Domain e) domainLower then False
      else if client \<noteq> [] \<and> qe_Client e \<noteq> client then False
      else True)"

definition queryStep :: "(string \<Rightarrow> logEntry option) \<Rightarrow> (logEntry \<Rightarrow> bool) \<Rightarrow> nat \<Rightarrow> XMessage \<Rightarrow> logEntry list \<Rightarrow> bool \<times> logEntry list" where
  "queryStep unm wanted want m matches =
     (case entryFromMessage unm m of
        None \<Rightarrow> (True, matches)
      | Some e \<Rightarrow> if wanted e then (length matches + 1 < want, matches @ [e]) else (True, matches))"

definition queryLimit :: "int \<Rightarrow> nat" where
  "queryLimit limit = (if limit \<le> 0 \<or> limit > 1000 then 100 else nat limit)"

definition log_Query :: "rangeCmd \<Rightarrow> (string \<Rightarrow> logEntry option) \<Rightarrow> int \<Rightarrow> int \<Rightarrow> string \<Rightarrow> string \<Rightarrow> string \<Rightarrow> string \<Rightarrow> logEntry list option" where
  "log_Query xr unm limit0 offset0 action domain qtype client =
     (let limit = queryLimit limit0; offset = nat offset0; domainLower = ToLower domain;
          wanted = (\<lambda>e. matchesFilter e action domainLower qtype client)
      in case walkStream xr (queryStep unm wanted (offset + limit)) True ''-'' queryPage True ''+'' maxQueryScan [] of
           (failed, matches) \<Rightarrow>
             if failed then None
             else if length matches \<le> offset then Some []
             else Some (drop offset (take (min (offset + limit) (length matches)) matches)))"

text \<open>A walk that takes every entry: \<open>g\<close> is what is done with one.\<close>

definition eachEntry :: "(string \<Rightarrow> logEntry option) \<Rightarrow> (logEntry \<Rightarrow> 's \<Rightarrow> 's) \<Rightarrow> XMessage \<Rightarrow> 's \<Rightarrow> bool \<times> 's" where
  "eachEntry unm g m s = (True, case entryFromMessage unm m of None \<Rightarrow> s | Some e \<Rightarrow> g e s)"

text \<open>A stream ID of the given time, \<^verbatim>\<open><milliseconds>-0\<close>.\<close>

definition sinceID :: "gotime \<Rightarrow> string" where
  "sinceID t = Itoa (Unix t * 1000 + t mod Second div 1000000) @ ''-0''"

definition seedAggregate :: "rangeCmd \<Rightarrow> (string \<Rightarrow> logEntry option) \<Rightarrow> (gotime \<Rightarrow> gotime) \<Rightarrow> gotime \<Rightarrow> rollingAgg \<Rightarrow> rollingAgg" where
  "seedAggregate xr unm mid now a =
     snd (walkStream xr (eachEntry unm (addLocked mid)) False ''+'' aggPage True (sinceID (now - 25 * Hour)) maxStatsScan a)"

definition walkStats :: "rangeCmd \<Rightarrow> (string \<Rightarrow> logEntry option) \<Rightarrow> gotime \<Rightarrow> stats option" where
  "walkStats xr unm since =
     (case walkStream xr (eachEntry unm aggAdd) False ''+'' aggPage True (sinceID since) maxStatsScan emptyAgg of
        (failed, s) \<Rightarrow> if failed then None else Some (statsOf s))"

text \<open>Hourly buckets: the counts per slot.\<close>

definition hourStep :: "gotime \<Rightarrow> logEntry \<Rightarrow> (int \<times> int) list \<Rightarrow> (int \<times> int) list" where
  "hourStep startSlot e buckets =
     (let idx = tsub (qe_Time e - qe_Time e mod Hour) startSlot div Hour in
      if idx < 0 \<or> idx \<ge> 24 then buckets
      else case buckets ! nat idx of
        (n, b) \<Rightarrow> buckets[nat idx := (n + 1, if qe_Action e = ''blocked'' then b + 1 else b)])"

definition hourBuckets :: "gotime \<Rightarrow> (int \<times> int) list \<Rightarrow> (int \<times> int \<times> int) list" where
  "hourBuckets startSlot buckets = map (\<lambda>i. (Unix (startSlot + int i * Hour), buckets ! i)) [0..<24]"

definition walkHourly :: "rangeCmd \<Rightarrow> (string \<Rightarrow> logEntry option) \<Rightarrow> gotime \<Rightarrow> gotime \<Rightarrow> (int \<times> int \<times> int) list option" where
  "walkHourly xr unm now since =
     (let startSlot = (now - now mod Hour) - 23 * Hour in
      case walkStream xr (eachEntry unm (hourStep startSlot)) True (sinceID since) aggPage True ''+'' maxStatsScan (replicate 24 (0, 0)) of
        (failed, buckets) \<Rightarrow> if failed then None else Some (hourBuckets startSlot buckets))"

definition bundleStep :: "gotime \<Rightarrow> gotime \<Rightarrow> logEntry \<Rightarrow> slotAgg \<times> slotAgg \<times> (int \<times> int) list \<Rightarrow> slotAgg \<times> slotAgg \<times> (int \<times> int) list" where
  "bundleStep today startSlot e = (\<lambda>(day, cur, buckets).
     (aggAdd e day, if qe_Time e \<ge> today then aggAdd e cur else cur, hourStep startSlot e buckets))"

definition statsBundleWalk :: "rangeCmd \<Rightarrow> (string \<Rightarrow> logEntry option) \<Rightarrow> gotime \<Rightarrow> gotime \<Rightarrow> gotime \<Rightarrow> (stats \<times> stats \<times> (int \<times> int \<times> int) list) option" where
  "statsBundleWalk xr unm now since today =
     (let startSlot = (now - now mod Hour) - 23 * Hour in
      case walkStream xr (eachEntry unm (bundleStep today startSlot)) True (sinceID since) aggPage True ''+'' maxStatsScan (emptyAgg, emptyAgg, replicate 24 (0, 0)) of
        (failed, day, cur, buckets) \<Rightarrow> if failed then None else Some (statsOf day, statsOf cur, hourBuckets startSlot buckets))"

text \<open>The active domains the cache warmer asks for.\<close>

definition activeStep :: "logEntry \<Rightarrow> (string, int) gomap \<Rightarrow> (string, int) gomap" where
  "activeStep e tally = (if qe_Domain e = [] then tally else if qe_Action e \<in> {''allowed'', ''cached''} then bump (qe_Domain e) tally else tally)"

definition ActiveDomains :: "rangeCmd \<Rightarrow> (string \<Rightarrow> logEntry option) \<Rightarrow> gotime \<Rightarrow> int \<Rightarrow> TopDomain list option" where
  "ActiveDomains xr unm since limit =
     (case walkStream xr (eachEntry unm activeStep) False ''+'' aggPage True (sinceID since) maxWarmScan [] of
        (failed, tally) \<Rightarrow>
          if failed then None
          else if tally = [] then Some []
          else Some (topN tally (if limit \<le> 0 then int (length tally) else limit)))"

section \<open>The result cache\<close>

record 'a aggCache =
  ac_sinceKey :: int
  ac_at :: gotime
  ac_val :: 'a

definition aggCacheTTL :: duration where "aggCacheTTL = 30 * Second"

definition ac_get :: "gotime \<Rightarrow> int \<Rightarrow> 'a aggCache \<Rightarrow> 'a option" where
  "ac_get now sinceKey c = (if ac_sinceKey c \<noteq> sinceKey \<or> tsub now (ac_at c) > aggCacheTTL then None else Some (ac_val c))"

definition ac_set :: "gotime \<Rightarrow> int \<Rightarrow> 'a \<Rightarrow> 'a aggCache \<Rightarrow> 'a aggCache" where
  "ac_set now sinceKey v c = c\<lparr>ac_sinceKey := sinceKey, ac_at := now, ac_val := v\<rparr>"

definition ac_clear :: "'a aggCache \<Rightarrow> 'a aggCache" where
  "ac_clear c = c\<lparr>ac_sinceKey := -1, ac_at := 0\<rparr>"

text \<open>A cached result, or the fresh one and the cache that keeps it; a failed walk leaves the cache alone.\<close>

definition cachedWalk :: "gotime \<Rightarrow> int \<Rightarrow> 'a option \<Rightarrow> 'a aggCache \<Rightarrow> 'a option \<times> 'a aggCache" where
  "cachedWalk now sinceKey walked c =
     (case ac_get now sinceKey c of
        Some v \<Rightarrow> (Some v, c)
      | None \<Rightarrow> (case walked of None \<Rightarrow> (None, c) | Some v \<Rightarrow> (Some v, ac_set now sinceKey v c)))"

definition bucketKey :: "gotime \<Rightarrow> int" where
  "bucketKey t = Unix t div 30"

definition log_Stats :: "rangeCmd option \<Rightarrow> (string \<Rightarrow> logEntry option) \<Rightarrow> gotime \<Rightarrow> gotime \<Rightarrow> stats aggCache \<Rightarrow> stats option \<times> stats aggCache" where
  "log_Stats cl unm now since c =
     (case cl of
        None \<Rightarrow> (Some (statsOf emptyAgg), c)
      | Some xr \<Rightarrow> cachedWalk now (bucketKey since) (walkStats xr unm since) c)"

definition log_Hourly :: "rangeCmd option \<Rightarrow> (string \<Rightarrow> logEntry option) \<Rightarrow> gotime \<Rightarrow> gotime \<Rightarrow> (int \<times> int \<times> int) list aggCache \<Rightarrow>
    (int \<times> int \<times> int) list option \<times> (int \<times> int \<times> int) list aggCache" where
  "log_Hourly cl unm now since c =
     (case cl of
        None \<Rightarrow> (Some [], c)
      | Some xr \<Rightarrow> cachedWalk now (bucketKey since) (walkHourly xr unm now since) c)"

type_synonym statsBundle = "stats \<times> stats \<times> (int \<times> int \<times> int) list"

definition bundleWindowMatches :: "(gotime \<Rightarrow> gotime) \<Rightarrow> gotime \<Rightarrow> gotime \<Rightarrow> gotime \<Rightarrow> bool" where
  "bundleWindowMatches mid now since today \<longleftrightarrow>
     (let d = tsub now since in if d < 23 * Hour \<or> d > 25 * Hour then False else \<bar>tsub today (mid now)\<bar> < 60 * Second)"

definition log_StatsBundle :: "rangeCmd option \<Rightarrow> (string \<Rightarrow> logEntry option) \<Rightarrow> (gotime \<Rightarrow> gotime) \<Rightarrow> gotime \<Rightarrow> gotime \<Rightarrow> gotime \<Rightarrow>
    rollingAgg option \<Rightarrow> statsBundle aggCache \<Rightarrow> statsBundle option \<times> rollingAgg option \<times> statsBundle aggCache" where
  "log_StatsBundle cl unm mid now since today agg c =
     (case cl of
        None \<Rightarrow> (Some (statsOf emptyAgg, statsOf emptyAgg, []), agg, c)
      | Some xr \<Rightarrow>
          let walk = (case cachedWalk now (or (push_bit 32 (bucketKey today)) (bucketKey since)) (statsBundleWalk xr unm now since today) c of (b, c1) \<Rightarrow> (b, agg, c1)) in
          (case agg of
             None \<Rightarrow> walk
           | Some a \<Rightarrow>
               if bundleWindowMatches mid now since today then
                 let a1 = resetTodayIfNeeded mid now a in (Some (snapshot a1), Some a1, c)
               else walk))"

text \<open>After the log was cleared no cached result is served.\<close>

lemma ac_clear_miss: "sinceKey \<ge> 0 \<Longrightarrow> ac_get now sinceKey (ac_clear c) = None"
  by (simp add: ac_get_def ac_clear_def)

lemma reset_slots: "ra_slotHour (resetTodayIfNeeded mid now a) = ra_slotHour a" "ra_slots (resetTodayIfNeeded mid now a) = ra_slots a"
  "ra_sum (resetTodayIfNeeded mid now a) = ra_sum a"
  by (simp_all add: resetTodayIfNeeded_def resetTodayLocked_def)

text \<open>The day's statistics and the chart on the fast path do not depend on the time of the request: after a quiet period they still show the
  entries of the twenty-four hours before the last one.\<close>

lemma fast_path_ignores_now:
  assumes "bundleWindowMatches mid now since today"
  shows "\<exists>cur. fst (log_StatsBundle (Some xr) unm mid now since today (Some a) c) = Some (fst (snapshot a), cur, snd (snd (snapshot a)))"
  using assms unfolding log_StatsBundle_def snapshot_def Let_def reset_slots by simp

section \<open>What the walk sees\<close>

text \<open>The documented behaviour of the range commands: \<open>R\<close> are the messages between the two ends in the order of the walk; a command
  returns the first of them, and one that starts at the ID of a message starts with that message.\<close>

definition serves :: "rangeCmd \<Rightarrow> bool \<Rightarrow> string \<Rightarrow> string \<Rightarrow> XMessage list \<Rightarrow> bool" where
  "serves xr reverse start stop R \<longleftrightarrow> distinct (map xm_ID R) \<and> (\<forall>n. xr reverse start stop n = Some (take n R)) \<and>
     (\<forall>i < length R. \<forall>n. xr reverse (xm_ID (R ! i)) stop n = Some (take n (drop i R)))"

fun foldUntil :: "(XMessage \<Rightarrow> 's \<Rightarrow> bool \<times> 's) \<Rightarrow> XMessage list \<Rightarrow> 's \<Rightarrow> bool \<times> 's" where
  "foldUntil f [] s = (True, s)"
| "foldUntil f (m # ms) s = (case f m s of (goon, s1) \<Rightarrow> if goon then foldUntil f ms s1 else (False, s1))"

lemma pageLoop_fold:
  "left > 0 \<Longrightarrow> foldUntil f (take left ms) s = (goon, s1) \<Longrightarrow>
     \<exists>l. pageLoop f ms left s = (goon \<and> length ms < left, l, s1) \<and> (goon \<longrightarrow> length ms < left \<longrightarrow> l = left - length ms)"
proof (induction f ms left s rule: pageLoop.induct)
  case (2 f m ms left s)
  obtain g s2 where m: "f m s = (g, s2)" by force
  have t: "take left (m # ms) = m # take (left - 1) ms" using "2.prems"(1) by (cases left) auto
  show ?case
  proof (cases "\<not> g \<or> left \<le> 1")
    case True
    then consider "\<not> g" | "g" "left = 1" using "2.prems"(1) by fastforce
    then show ?thesis using "2.prems" m t by cases auto
  next
    case False
    have "foldUntil f (take (left - 1) ms) s2 = (goon, s1)" using False "2.prems"(2) m t by simp
    moreover have "0 < left - 1" using False by auto
    ultimately obtain l where
      l: "pageLoop f ms (left - 1) s2 = (goon \<and> length ms < left - 1, l, s1)" "goon \<longrightarrow> length ms < left - 1 \<longrightarrow> l = left - 1 - length ms"
      using "2.IH"[OF m[symmetric] False] by blast
    have "pageLoop f (m # ms) left s = pageLoop f ms (left - 1) s2" using m False by simp
    moreover have "length ms < left - 1 \<longleftrightarrow> length (m # ms) < left" "left - 1 - length ms = left - length (m # ms)" by auto
    ultimately show ?thesis using l by simp
  qed
qed simp

lemma foldUntil_append: "foldUntil f (xs @ ys) s = (case foldUntil f xs s of (goon, s1) \<Rightarrow> if goon then foldUntil f ys s1 else (False, s1))"
  by (induction xs arbitrary: s) (auto split: prod.split)

lemma foldUntil_stop: "foldUntil f xs s = (False, s1) \<Longrightarrow> foldUntil f (xs @ ys) s = (False, s1)"
  by (simp add: foldUntil_append)

lemma foldUntil_each: "foldUntil (eachEntry unm g) ms s = (True, fold g (List.map_filter (entryFromMessage unm) ms) s)"
  by (induction ms arbitrary: s) (auto simp: eachEntry_def map_filter_simps split: option.split)

text \<open>The page that ends the walk, and one the walk goes on after.\<close>

lemma page_end:
  assumes "foldUntil f (take left (take n D)) s = (goon, s1)" "\<not> (goon \<and> length (take n D) < left) \<or> length (take n D) < n"
  shows "snd (foldUntil f (take left D) s) = s1"
proof -
  have "take (min left n) (take left D) = take left (take n D)" by (simp add: min_def)
  then obtain zs where D: "take left D = take left (take n D) @ zs" by (metis append_take_drop_id)
  show ?thesis
  proof (cases goon)
    case True
    then have "take left (take n D) = take left D" using assms(2) by (auto simp: min_def split: if_splits)
    then show ?thesis using assms(1) by simp
  next
    case False
    then have "foldUntil f (take left (take n D) @ zs) s = (False, s1)" using assms(1) by (intro foldUntil_stop) simp
    then show ?thesis using D by simp
  qed
qed

lemma page_next:
  assumes "foldUntil f (take left (take n D)) s = (True, s1)" "n < left"
  shows "foldUntil f (take left D) s = foldUntil f (take (left - n) (drop n D)) s1"
proof -
  have "take left D = take n D @ take (left - n) (drop n D)" using assms(2) by (metis le_add_diff_inverse less_imp_le take_add)
  moreover have "take left (take n D) = take n D" using assms(2) by simp
  ultimately show ?thesis using assms(1) by (simp add: foldUntil_append)
qed

text \<open>One round of the walk over the messages \<open>D\<close> of which the page has the first \<open>n\<close>.\<close>

lemma walk_round:
  assumes "xr reverse start stop (page + 1) = Some msgs"
    and "(if \<not> first \<and> msgs \<noteq> [] \<and> xm_ID (hd msgs) = start then tl msgs else msgs) = take n D" "length msgs \<le> page \<longleftrightarrow> length (take n D) < n" "n \<ge> 1"
    and "\<And>l s1. l < left \<Longrightarrow> n \<le> length D \<Longrightarrow> l = left - n \<Longrightarrow>
      walkStream xr f reverse stop page False (xm_ID (last msgs)) l s1 = (False, snd (foldUntil f (take l (drop n D)) s1))"
  shows "walkStream xr f reverse stop page first start left s = (False, snd (foldUntil f (take left D) s))"
proof -
  obtain goon s1 where f: "foldUntil f (take left (take n D)) s = (goon, s1)" by force
  show ?thesis
  proof (cases "left = 0 \<or> take n D = []")
    case True
    then show ?thesis using assms by (subst walkStream.simps) auto
  next
    case False
    then obtain l where l: "pageLoop f (take n D) left s = (goon \<and> length (take n D) < left, l, s1)"
      "goon \<longrightarrow> length (take n D) < left \<longrightarrow> l = left - length (take n D)" using pageLoop_fold[OF _ f] by blast
    have step: "walkStream xr f reverse stop page first start left s =
        (if \<not> (goon \<and> length (take n D) < left) \<or> length (take n D) < n then (False, s1)
         else walkStream xr f reverse stop page False (xm_ID (last msgs)) l s1)"
      using False by (subst walkStream.simps) (simp only: assms(1-3) l(1) option.case Let_def if_False prod.case simp_thms de_Morgan_disj)
    show ?thesis
    proof (cases "\<not> (goon \<and> length (take n D) < left) \<or> length (take n D) < n")
      case True
      show ?thesis using step True page_end[OF f True] by simp
    next
      case False
      then have n: "n \<le> length D" "n < left" "l = left - n" goon using l(2) by auto
      have "foldUntil f (take left D) s = foldUntil f (take (left - n) (drop n D)) s1" by (rule page_next) (use f n in auto)
      then show ?thesis using step False n assms(4) assms(5)[of l s1] by simp
    qed
  qed
qed

lemma walk_continues:
  assumes "serves xr reverse start stop R" "page \<ge> 1" "i < length R"
  shows "walkStream xr f reverse stop page False (xm_ID (R ! i)) left s = (False, snd (foldUntil f (take left (drop (i + 1) R)) s))"
  using assms(3)
proof (induction left arbitrary: i s rule: less_induct)
  case (less left)
  let ?D = "drop (i + 1) R"
  have "xr reverse (xm_ID (R ! i)) stop (page + 1) = Some (R ! i # take page ?D)"
    using assms(1) less.prems by (simp add: serves_def Cons_nth_drop_Suc[symmetric])
  then show ?case
  proof (rule walk_round)
    fix l s1 assume l: "l < left" "page \<le> length ?D" "l = left - page"
    have "last (R ! i # take page ?D) = R ! (i + page)" using l(2) assms(2) less.prems by (auto simp: last_conv_nth)
    then show "walkStream xr f reverse stop page False (xm_ID (last (R ! i # take page ?D))) l s1 = (False, snd (foldUntil f (take l (drop page ?D)) s1))"
      using less.IH[OF l(1), of "i + page" s1] l(2) less.prems by (simp add: ac_simps)
  qed (use assms(2) in auto)
qed

text \<open>The walk hands its body exactly the first messages of the range, each once and in order, up to the scan bound or until the body stops.\<close>

lemma walk_sees:
  assumes "serves xr reverse start stop R" "page \<ge> 1"
  shows "walkStream xr f reverse stop page True start left s = (False, snd (foldUntil f (take left R) s))"
proof (rule walk_round)
  show "xr reverse start stop (page + 1) = Some (take (page + 1) R)" using assms(1) by (simp add: serves_def)
  fix l s1 assume l: "l < left" "page + 1 \<le> length R" "l = left - (page + 1)"
  have "last (take (page + 1) R) = R ! page" using l(2) by (simp add: take_Suc_conv_app_nth)
  then show "walkStream xr f reverse stop page False (xm_ID (last (take (page + 1) R))) l s1 = (False, snd (foldUntil f (take l (drop (page + 1) R)) s1))"
    using walk_continues[OF assms, of page f l s1] l(2) by simp
qed auto

section \<open>What the readers return\<close>

text \<open>The entries of a stretch of the stream.\<close>

definition entries :: "(string \<Rightarrow> logEntry option) \<Rightarrow> XMessage list \<Rightarrow> logEntry list" where
  "entries unm ms = List.map_filter (entryFromMessage unm) ms"

lemma entries_simps [simp]: "entries unm [] = []"
  "entries unm (m # ms) = (case entryFromMessage unm m of None \<Rightarrow> entries unm ms | Some e \<Rightarrow> e # entries unm ms)"
  by (simp_all add: entries_def map_filter_simps split: option.split)

lemma walk_each:
  assumes "serves xr reverse start stop R" "page \<ge> 1"
  shows "walkStream xr (eachEntry unm g) reverse stop page True start left s = (False, fold g (entries unm (take left R)) s)"
  by (simp add: walk_sees[OF assms] foldUntil_each entries_def)

lemma query_fold:
  assumes "want > length acc"
  shows "snd (foldUntil (queryStep unm wanted want) ms acc) = acc @ take (want - length acc) (filter wanted (entries unm ms))"
  using assms
proof (induction ms arbitrary: acc)
  case (Cons m ms)
  show ?case
  proof (cases "entryFromMessage unm m")
    case (Some e)
    show ?thesis
    proof (cases "wanted e")
      case True
      then show ?thesis
      proof (cases "length acc + 1 < want")
        case goon: True
        then have "want - length acc = Suc (want - length (acc @ [e]))" by simp
        then show ?thesis using Cons.IH[of "acc @ [e]"] goon Some True by (simp add: queryStep_def)
      next
        case False
        then have "want - length acc = 1" using Cons.prems by simp
        then show ?thesis using False Some True by (simp add: queryStep_def)
      qed
    qed (use Some Cons in \<open>simp add: queryStep_def\<close>)
  qed (use Cons in \<open>simp add: queryStep_def\<close>)
qed simp

lemma fold_bundle: "fold (bundleStep today slot) es (day, cur, b) =
    (fold aggAdd es day, fold aggAdd (filter (\<lambda>e. qe_Time e \<ge> today) es) cur, fold (hourStep slot) es b)"
  by (induction es arbitrary: day cur b) (simp_all add: bundleStep_def)

lemma counts_fold: "counts s M \<Longrightarrow> counts (fold aggAdd es s) (mset es + M)"
proof (induction es arbitrary: s M)
  case (Cons e es)
  then show ?case using Cons.IH[OF counts_add[OF Cons.prems]] by simp
qed simp

lemma aggAdd_recount: "statsOf (fold aggAdd es emptyAgg) = recount es"
  using counts_fold[OF counts_empty, of es] statsOf_recount by simp

text \<open>The queries that count as activity of a domain.\<close>

definition activeFor :: "string \<Rightarrow> logEntry \<Rightarrow> bool" where
  "activeFor d e \<longleftrightarrow> d \<noteq> [] \<and> qe_Domain e = d \<and> qe_Action e \<in> {''allowed'', ''cached''}"

lemma active_step: "mapCounts m f \<Longrightarrow> mapCounts (activeStep e m) (\<lambda>d. f d + (if activeFor d e then 1 else 0))"
proof -
  assume m: "mapCounts m f"
  show ?thesis
  proof (cases "activeFor (qe_Domain e) e")
    case True
    then have "(\<lambda>d. f d + (if activeFor d e then 1 else 0)) = f(qe_Domain e := f (qe_Domain e) + 1)" by (auto simp: activeFor_def)
    moreover have "activeStep e m = bump (qe_Domain e) m" using True unfolding activeFor_def activeStep_def by simp
    ultimately show ?thesis using mapCounts_bump[OF m, of "qe_Domain e"] by simp
  next
    case False
    then have "(\<lambda>d. f d + (if activeFor d e then 1 else 0)) = f" by (auto simp: activeFor_def)
    moreover have "activeStep e m = m" using False unfolding activeFor_def activeStep_def by auto
    ultimately show ?thesis using m by simp
  qed
qed

lemma active_fold: "mapCounts m f \<Longrightarrow> mapCounts (fold activeStep es m) (\<lambda>d. f d + length (filter (activeFor d) es))"
proof (induction es arbitrary: m f)
  case (Cons e es)
  have "(\<lambda>d. f d + (if activeFor d e then 1 else 0) + length (filter (activeFor d) es)) = (\<lambda>d. f d + length (filter (activeFor d) (e # es)))" by auto
  then show ?case using Cons.IH[OF active_step[OF Cons.prems, of e]] by simp
qed simp

lemma active_counts: "mapCounts (fold activeStep es []) (\<lambda>d. length (filter (activeFor d) es))"
  using active_fold[of "[]" "\<lambda>_. 0" es] by (simp add: mapCounts_def)

text \<open>The hourly chart of a walk.\<close>

abbreviation hourIdx :: "gotime \<Rightarrow> logEntry \<Rightarrow> int" where
  "hourIdx slot e \<equiv> tsub (qe_Time e - qe_Time e mod Hour) slot div Hour"

lemma hour_fold:
  assumes "length b = 24" "i < 24"
  shows "fold (hourStep slot) es b ! i = (let S = filter (\<lambda>e. hourIdx slot e = int i) es in
    (fst (b ! i) + int (length S), snd (b ! i) + int (length (filter isBlocked S))))"
  using assms
proof (induction es arbitrary: b)
  case (Cons e es)
  have len: "length (hourStep slot e b) = 24" using Cons.prems(1) by (simp add: hourStep_def Let_def split: prod.split)
  have "hourStep slot e b ! i =
      (if hourIdx slot e = int i then (fst (b ! i) + 1, snd (b ! i) + (if isBlocked e then 1 else 0)) else b ! i)"
    using Cons.prems by (auto simp: hourStep_def isBlocked_def Let_def nth_list_update split: prod.split)
  then show ?case using Cons.IH[OF len Cons.prems(2)] by (simp add: Let_def)
qed simp

lemma unixHour_trunc: "unixHour t * Hour = t - t mod Hour - 17259888 * Hour"
proof -
  have t: "t - t mod Hour = Hour * (t div Hour)" using minus_mod_eq_mult_div[of t Hour] by simp
  have "Unix (Hour * k) = 3600 * (k - 17259888)" for k by (simp add: Unix_def)
  then show ?thesis unfolding unixHour_def t by simp
qed

lemma page_cut:
  "(let W1 = take (n + k) W in if length W1 \<le> n then Some [] else Some (drop n (take (min (n + k) (length W1)) W1))) = Some (take k (drop n W))"
  by (auto simp: Let_def drop_take min_def)

lemma recount_mset: "mset xs = mset ys \<Longrightarrow> recount xs = recount ys"
  using statsOf_recount[of "fold aggAdd xs emptyAgg"] counts_fold[OF counts_empty, of xs] by (metis add.right_neutral statsOf_recount)

lemma hour_index:
  assumes "unixHour now - 24 < unixHour (qe_Time e)" "unixHour (qe_Time e) \<le> unixHour now"
  shows "hourIdx ((now - now mod Hour) - 23 * Hour) e = unixHour (qe_Time e) - unixHour now + 23"
proof -
  let ?d = "unixHour (qe_Time e) - unixHour now + 23"
  have eq: "(qe_Time e - qe_Time e mod Hour) - ((now - now mod Hour) - 23 * Hour) = ?d * Hour"
    using unixHour_trunc[of "qe_Time e"] unixHour_trunc[of now] by (simp add: left_diff_distrib distrib_right)
  have "0 \<le> ?d" "?d \<le> 23" using assms by simp_all
  then have clamp: "max minDuration (min maxDuration (?d * Hour)) = ?d * Hour" by (simp add: minDuration_def maxDuration_def)
  show ?thesis unfolding tsub_def eq clamp by simp
qed

lemma slot_start: "Unix ((now - now mod Hour) - 23 * Hour + int i * Hour) = (unixHour now - 23 + int i) * 3600"
proof -
  have eq: "(now - now mod Hour) - 23 * Hour + int i * Hour = (unixHour now - 23 + int i + 17259888) * Hour"
    using unixHour_trunc[of now] by (simp add: left_diff_distrib distrib_right)
  have U: "Unix (k * Hour) = (k - 17259888) * 3600" for k by (simp add: Unix_def)
  show ?thesis unfolding eq U by simp
qed

section \<open>Properties\<close>

text \<open>C18: a page of the query log is what its filters select: over the documented range commands, the entries of the newest scanned part of
  the stream that match, newest first, without those before the offset and at most as many as the limit; paging through the database
  loses no message and repeats none.\<close>

theorem query_page:
  assumes "serves xr True ''+'' ''-'' R"
  shows "log_Query xr unm limit offset action domain qtype client =
    Some (take (queryLimit limit) (drop (nat offset) (filter (\<lambda>e. matchesFilter e action (ToLower domain) qtype client) (entries unm (take maxQueryScan R)))))"
proof -
  let ?w = "\<lambda>e. matchesFilter e action (ToLower domain) qtype client" and ?l = "queryLimit limit" and ?o = "nat offset"
  let ?W = "filter ?w (entries unm (take maxQueryScan R))"
  have l: "?l > 0" by (simp add: queryLimit_def)
  have "walkStream xr (queryStep unm ?w (?o + ?l)) True ''-'' queryPage True ''+'' maxQueryScan [] = (False, take (?o + ?l) ?W)"
    using query_fold[of "[]" "?o + ?l" unm ?w "take maxQueryScan R"] l by (simp add: walk_sees[OF assms page_pos(1)])
  then show ?thesis using page_cut[of ?o ?l ?W] by (simp add: log_Query_def Let_def)
qed

definition sampleStream :: "XMessage list" where
  "sampleStream = [\<lparr>xm_ID = ''2-0'', xm_v = Some ''b''\<rparr>, \<lparr>xm_ID = ''1-1'', xm_v = Some ''x''\<rparr>, \<lparr>xm_ID = ''1-0'', xm_v = Some ''a''\<rparr>]"

text \<open>A store of messages, newest first.\<close>

definition listRange :: "XMessage list \<Rightarrow> rangeCmd" where
  "listRange ms reverse start stop n =
     (let ord = (if reverse then ms else rev ms) in Some (take n (if start \<in> {''+'', ''-''} then ord else dropWhile (\<lambda>m. xm_ID m \<noteq> start) ord)))"

lemma listRange_serves:
  assumes "distinct (map xm_ID ms)" "start \<in> {''+'', ''-''}" "''+'' \<notin> xm_ID ` set ms" "''-'' \<notin> xm_ID ` set ms"
  shows "serves (listRange ms) reverse start stop (if reverse then ms else rev ms)"
proof -
  have at: "dropWhile (\<lambda>m. xm_ID m \<noteq> xm_ID (R ! i)) R = drop i R" if "i < length R" "distinct (map xm_ID R)" for R :: "XMessage list" and i
    using that
  proof (induction R arbitrary: i)
    case (Cons m R)
    then show ?case by (cases i) auto
  qed simp
  let ?R = "if reverse then ms else rev ms"
  have d: "distinct (map xm_ID ?R)" using assms(1) by (simp add: rev_map[symmetric])
  have "xm_ID (?R ! i) \<notin> {''+'', ''-''}" if "i < length ?R" for i
  proof -
    have "?R ! i \<in> set ms" using nth_mem[OF that] by (cases reverse) simp_all
    then show ?thesis using assms(3,4) by (metis imageI insertE singletonD)
  qed
  then show ?thesis using assms(2) d at[OF _ d] by (auto simp: serves_def listRange_def Let_def)
qed

definition sampleUnmarshal :: "string \<Rightarrow> logEntry option" where
  "sampleUnmarshal raw = (if raw = ''a'' then Some (sampleEntry 90 ''allowed'') else if raw = ''b'' then Some (sampleEntry 100 ''blocked'') else None)"

theorem query_page_witness:
  "log_Query (listRange sampleStream) sampleUnmarshal 1 1 [] ''ADS.'' [] [] = Some [(sampleEntry 90 ''allowed'')\<lparr>qe_ID := ''1-0''\<rparr>]"
proof -
  have s: "serves (listRange sampleStream) True ''+'' ''-'' sampleStream"
    using listRange_serves[of sampleStream "''+''" True "''-''"] by (simp add: sampleStream_def)
  have e: "entries sampleUnmarshal (take maxQueryScan sampleStream) =
      [(sampleEntry 100 ''blocked'')\<lparr>qe_ID := ''2-0''\<rparr>, (sampleEntry 90 ''allowed'')\<lparr>qe_ID := ''1-0''\<rparr>]"
    by (simp add: maxQueryScan_def sampleStream_def sampleUnmarshal_def entryFromMessage_def)
  have "Contains ''ads.example'' (ToLower ''ADS.'')" by code_simp
  then show ?thesis unfolding query_page[OF s] e by (simp add: matchesFilter_def sampleEntry_def queryLimit_def)
qed

text \<open>After a start the counters are those of the oldest entries in the window: beyond the scan bound the newest are left out.\<close>

lemma seed_oldest:
  assumes "serves xr False (sinceID (now - 25 * Hour)) ''+'' R"
  shows "seedAggregate xr unm mid now a = fold (addLocked mid) (entries unm (take maxStatsScan R)) a"
  unfolding seedAggregate_def walk_each[OF assms page_pos(2)] by simp

lemma walkStats_recount:
  assumes "serves xr False (sinceID since) ''+'' R"
  shows "walkStats xr unm since = Some (recount (entries unm (take maxStatsScan R)))"
  by (simp add: walkStats_def walk_each[OF assms page_pos(2)] aggAdd_recount)

lemma ActiveDomains_counts:
  assumes "serves xr False (sinceID since) ''+'' R"
  shows "\<exists>m. mapCounts m (\<lambda>d. length (filter (activeFor d) (entries unm (take maxWarmScan R)))) \<and>
    ActiveDomains xr unm since limit = Some (if m = [] then [] else topN m (if limit \<le> 0 then int (length m) else limit))"
proof (intro exI conjI)
  show "mapCounts (fold activeStep (entries unm (take maxWarmScan R)) []) (\<lambda>d. length (filter (activeFor d) (entries unm (take maxWarmScan R))))"
    by (rule active_counts)
qed (unfold ActiveDomains_def walk_each[OF assms page_pos(2)], simp)



end
