(* ===== verification/LogWriter.thy ===== *)
theory LogWriter
  imports QueryStats
begin

text \<open>
  The background writer of the query log (\<^verbatim>\<open>Record\<close>, \<^verbatim>\<open>runWriter\<close>, \<^verbatim>\<open>writeBatch\<close>, \<^verbatim>\<open>Clear\<close>, \<^verbatim>\<open>Close\<close> of
  \<^verbatim>\<open>internal/querylog/querylog.go\<close>) as a step relation: the queue between the queries and the writer, the batch, the stream and the rolling
  counters. A flush succeeds or fails as a whole. \<open>lg_accepted\<close> and \<open>lg_flushed\<close> only record the history: what entered the queue, and
  what was flushed, with whether the database took it.
\<close>

section \<open>State\<close>

datatype writerMode = Running | Draining | Exited

record logCfg =
  lc_queueCap :: nat
  lc_batchSize :: nat
  lc_maxStream :: nat
  lc_midnight :: "gotime \<Rightarrow> gotime"

record queryLog =
  lg_pending :: "logEntry multiset"
  lg_queue :: "logEntry list"
  lg_batch :: "logEntry list"
  lg_closed :: bool
  lg_mode :: writerMode
  lg_stream :: "logEntry list"
  lg_agg :: rollingAgg
  lg_accepted :: "logEntry list"
  lg_flushed :: "(bool \<times> logEntry) list"

definition log_New :: queryLog where
  "log_New = \<lparr>lg_pending = {#}, lg_queue = [], lg_batch = [], lg_closed = False, lg_mode = Running, lg_stream = [], lg_agg = newRollingAgg,
     lg_accepted = [], lg_flushed = []\<rparr>"

section \<open>Operations\<close>

text \<open>\<^verbatim>\<open>Record\<close> looks at the closed flag and then, maybe after a \<^verbatim>\<open>Close\<close>, offers the entry to the queue.\<close>

definition recordCheck :: "logEntry \<Rightarrow> queryLog \<Rightarrow> queryLog" where
  "recordCheck e l = (if lg_closed l then l else l\<lparr>lg_pending := add_mset e (lg_pending l)\<rparr>)"

definition recordSend :: "logCfg \<Rightarrow> logEntry \<Rightarrow> queryLog \<Rightarrow> queryLog" where
  "recordSend c e l =
     (let l1 = l\<lparr>lg_pending := lg_pending l - {#e#}\<rparr> in
      if length (lg_queue l) < lc_queueCap c then l1\<lparr>lg_queue := lg_queue l @ [e], lg_accepted := lg_accepted l @ [e]\<rparr> else l1)"

definition lastN :: "nat \<Rightarrow> 'a list \<Rightarrow> 'a list" where
  "lastN n xs = drop (length xs - n) xs"

definition writeBatch :: "logCfg \<Rightarrow> bool \<Rightarrow> logEntry list \<Rightarrow> queryLog \<Rightarrow> queryLog" where
  "writeBatch c ok es l =
     (if es = [] then l
      else
        let l1 = l\<lparr>lg_flushed := lg_flushed l @ map (\<lambda>e. (ok, e)) es\<rparr> in
        if ok then l1\<lparr>lg_stream := lastN (lc_maxStream c) (lg_stream l @ es), lg_agg := fold (addLocked (lc_midnight c)) es (lg_agg l)\<rparr> else l1)"

definition log_flush :: "logCfg \<Rightarrow> bool \<Rightarrow> queryLog \<Rightarrow> queryLog" where
  "log_flush c ok l = (if lg_batch l = [] then l else (writeBatch c ok (lg_batch l) l)\<lparr>lg_batch := []\<rparr>)"

definition log_receive :: "logCfg \<Rightarrow> bool \<Rightarrow> queryLog \<Rightarrow> queryLog" where
  "log_receive c ok l =
     (let l1 = l\<lparr>lg_queue := tl (lg_queue l), lg_batch := lg_batch l @ [hd (lg_queue l)]\<rparr> in
      if length (lg_batch l1) \<ge> lc_batchSize c then log_flush c ok l1 else l1)"

definition log_Close :: "queryLog \<Rightarrow> queryLog" where
  "log_Close l = (if lg_closed l then l else l\<lparr>lg_closed := True\<rparr>)"

text \<open>The writer leaves its loop with a last flush.\<close>

definition log_exit :: "logCfg \<Rightarrow> bool \<Rightarrow> queryLog \<Rightarrow> queryLog" where
  "log_exit c ok l = (log_flush c ok l)\<lparr>lg_mode := Exited\<rparr>"

text \<open>\<^verbatim>\<open>Clear\<close> resets the counters and then deletes the stream, in two steps.\<close>

definition clearCounters :: "queryLog \<Rightarrow> queryLog" where
  "clearCounters l = l\<lparr>lg_agg := agg_clear (lg_agg l)\<rparr>"

definition deleteStream :: "queryLog \<Rightarrow> queryLog" where
  "deleteStream l = l\<lparr>lg_stream := []\<rparr>"

inductive log_step :: "logCfg \<Rightarrow> queryLog \<Rightarrow> queryLog \<Rightarrow> bool" for c where
  log_check: "log_step c l (recordCheck e l)"
| log_send: "e \<in># lg_pending l \<Longrightarrow> log_step c l (recordSend c e l)"
| log_recv: "lg_mode l \<noteq> Exited \<Longrightarrow> lg_queue l \<noteq> [] \<Longrightarrow> log_step c l (log_receive c ok l)"
| log_tick: "lg_mode l = Running \<Longrightarrow> log_step c l (log_flush c ok l)"
| log_close: "log_step c l (log_Close l)"
| log_done: "lg_mode l = Running \<Longrightarrow> lg_closed l \<Longrightarrow> log_step c l (l\<lparr>lg_mode := Draining\<rparr>)"
| log_drained: "lg_mode l = Draining \<Longrightarrow> lg_queue l = [] \<Longrightarrow> log_step c l (log_exit c ok l)"

definition log_reach :: "logCfg \<Rightarrow> queryLog \<Rightarrow> bool" where
  "log_reach c l \<longleftrightarrow> (log_step c)\<^sup>*\<^sup>* log_New l"

section \<open>Invariant\<close>

abbreviation committed :: "queryLog \<Rightarrow> logEntry list" where
  "committed l \<equiv> map snd (filter fst (lg_flushed l))"

definition log_inv :: "logCfg \<Rightarrow> queryLog \<Rightarrow> bool" where
  "log_inv c l \<longleftrightarrow> lg_accepted l = map snd (lg_flushed l) @ lg_batch l @ lg_queue l \<and> length (lg_queue l) \<le> lc_queueCap c \<and>
     (lg_batch l \<noteq> [] \<longrightarrow> length (lg_batch l) < lc_batchSize c) \<and> lg_stream l = lastN (lc_maxStream c) (committed l) \<and>
     lg_agg l = fold (addLocked (lc_midnight c)) (committed l) newRollingAgg \<and> (lg_mode l = Exited \<longrightarrow> lg_batch l = []) \<and>
     (lg_mode l \<noteq> Running \<longrightarrow> lg_closed l)"

lemma lastN_append: "lastN n (lastN n xs @ ys) = lastN n (xs @ ys)"
proof (cases "length xs \<le> n")
  case False
  then have "length (lastN n xs) = n" by (simp add: lastN_def)
  then show ?thesis using False by (simp add: lastN_def add.commute)
qed (simp add: lastN_def)

lemma filter_flag: "map snd (filter fst (map (\<lambda>e. (ok, e)) es)) = (if ok then es else [])"
  by (induction es) auto

text \<open>A flush of a batch that is about to be full keeps all of the invariant but the bound, which it restores.\<close>

definition log_mid :: "logCfg \<Rightarrow> queryLog \<Rightarrow> bool" where
  "log_mid c l \<longleftrightarrow> log_inv c (l\<lparr>lg_batch := [], lg_accepted := map snd (lg_flushed l) @ lg_queue l\<rparr>) \<and>
     lg_accepted l = map snd (lg_flushed l) @ lg_batch l @ lg_queue l"

lemma log_inv_mid: "log_inv c l \<Longrightarrow> log_mid c l"
  by (simp add: log_inv_def log_mid_def)

lemma flush_inv: "log_mid c l \<Longrightarrow> log_inv c (log_flush c ok l)"
  by (auto simp: log_mid_def log_inv_def log_flush_def writeBatch_def filter_flag lastN_append Let_def comp_def)

lemma receive_inv:
  assumes "log_inv c l" "lg_mode l \<noteq> Exited" "lg_queue l \<noteq> []"
  shows "log_inv c (log_receive c ok l)"
proof -
  let ?l1 = "l\<lparr>lg_queue := tl (lg_queue l), lg_batch := lg_batch l @ [hd (lg_queue l)]\<rparr>"
  have q: "hd (lg_queue l) # tl (lg_queue l) = lg_queue l" using assms(3) by simp
  have mid: "log_mid c ?l1" using assms(1,2) q by (simp add: log_mid_def log_inv_def) (metis append_Cons append_Nil le_trans length_tl diff_le_self)
  show ?thesis
  proof (cases "length (lg_batch ?l1) \<ge> lc_batchSize c")
    case True
    then show ?thesis using flush_inv[OF mid, of ok] by (simp only: log_receive_def Let_def if_True)
  next
    case False
    have "log_inv c ?l1" using assms(1,2) False q mid by (simp add: log_mid_def log_inv_def)
    then show ?thesis using False by (simp only: log_receive_def Let_def if_False)
  qed
qed

lemma log_step_inv: "log_step c l l' \<Longrightarrow> log_inv c l \<Longrightarrow> log_inv c l'"
proof (induction rule: log_step.induct)
  case (log_tick l ok)
  then show ?case using flush_inv[OF log_inv_mid] by blast
next
  case (log_drained l ok)
  have "lg_batch (log_flush c ok l) = [] \<and> lg_mode (log_flush c ok l) = lg_mode l" by (simp add: log_flush_def writeBatch_def Let_def)
  then show ?case using flush_inv[OF log_inv_mid[OF log_drained.prems], of ok] log_drained by (simp add: log_exit_def log_inv_def)
qed (auto simp: receive_inv, auto simp: log_inv_def recordCheck_def recordSend_def log_Close_def Let_def)

lemma log_reach_inv: "log_reach c l \<Longrightarrow> log_inv c l"
  unfolding log_reach_def
proof (induction rule: rtranclp_induct)
  case base
  show ?case by (simp add: log_inv_def log_New_def lastN_def)
qed (blast intro: log_step_inv)

lemma agg_clear_new: "agg_clear a = newRollingAgg"
  by (cases a) (simp add: agg_clear_def newRollingAgg_def)

text \<open>A flush between the two steps of \<^verbatim>\<open>Clear\<close> leaves counters of entries the stream no longer has.\<close>

lemma clear_race:
  assumes "lg_batch l \<noteq> []"
  shows "lg_stream (deleteStream (log_flush c True (clearCounters l))) = [] \<and>
    lg_agg (deleteStream (log_flush c True (clearCounters l))) = fold (addLocked (lc_midnight c)) (lg_batch l) newRollingAgg"
  using assms by (simp add: deleteStream_def log_flush_def clearCounters_def writeBatch_def agg_clear_new Let_def)

section \<open>Properties\<close>


definition smallCfg :: logCfg where
  "smallCfg = \<lparr>lc_queueCap = 2, lc_batchSize = 1, lc_maxStream = 10, lc_midnight = id\<rparr>"

definition loggedOne :: queryLog where
  "loggedOne = log_receive smallCfg True (recordSend smallCfg (sampleEntry 90 ''allowed'') (recordCheck (sampleEntry 90 ''allowed'') log_New))"


end
