(* ===== verification/Spec2Isabelle.thy ===== *)
theory Spec2Isabelle
  imports RateLimit FloodGuards ConnLimit WebAuth FilterLists Banner L1Cache DnsWire DnsMsg RespCache
    L2Writer Responses Memo Policy Forwarding Pipeline PipelineProps ReplyProps HandlerSettings DhcpTheorems DnssecTheorems RecursiveTheorems RootHints
    ConfigTheorems DohTheorems QueryLog LogWriter
begin

text \<open>
  \<^bold>\<open>Irongrid DNS: a verification library of the query path and of the parts it rests on.\<close>

  Irongrid is a filtering DNS forwarder. A query that arrives on any transport is handed to
  \<open>Handler.serve\<close> (\<open>internal/dnsserver/handler.go\<close>), which passes it through a fixed sequence of
  steps: source ACL, EDNS version, cookies, rate limit, flood guards, client bans, honeypot, local
  answers, per-client policy, filter decision, cache, and at last the upstreams; \<open>finishResolve\<close> then
  decides what becomes of the answer (stale fallback, DNSSEC, IP and CNAME blocking, caching). The
  components these steps call keep their own state behind their own locks, so every operation of a
  component is one atomic step, modelled as a function from the state to the result and the new state.
  An HTTP API with its own authentication sits beside the DNS path.

  \<^bold>\<open>Theories and the code they model.\<close>

  \<^item> \<open>Prelude\<close>: Go maps as association lists, times and durations (nanoseconds as \<open>int\<close>), the 32-bit
    shard hash of \<open>internal/shardutil\<close>, the shared eviction loop, and the locale \<open>bounded_table\<close>: what a
    limiter may rely on from the eviction of its per-shard table. \<open>GoStrings\<close>, \<open>NetIP\<close>, \<open>GoEncoding\<close>: what
    the program uses of Go's \<open>strings\<close>, \<open>net\<close>, \<open>encoding/hex\<close> and \<open>encoding/base64\<close> packages, and
    \<open>internal/dnsname\<close>.
  \<^item> \<open>TokenBucket\<close> (locale \<open>token_bucket\<close>): the admission bound of a refilling bucket, proved once and
    interpreted by \<open>RateLimit\<close> (\<open>dnsserver/ratelimit.go\<close>) and by the API limiter in \<open>WebAuth\<close>.
    \<open>FloodGuards\<close>: \<open>nxguard.go\<close>, \<open>repeatguard.go\<close>. \<open>ConnLimit\<close>: \<open>connlimit.go\<close>, as a step relation over
    accepted and closed connections.
  \<^item> \<open>WebAuth\<close>: \<open>internal/api\<close> \<open>loginguard.go\<close>, \<open>apiratelimit.go\<close>, and sessions, tokens and \<open>authorize\<close>
    of \<open>server.go\<close>.
  \<^item> \<open>FilterRules\<close>, \<open>FilterEngine\<close>, \<open>FilterLists\<close>: \<open>internal/filter\<close> (rule syntax and list scanner; the
    engine with its published snapshot; list manager and rewriter).
  \<^item> \<open>RangeTable\<close> (locale \<open>addr_space\<close>: merging and searching sorted ranges of an address space),
    \<open>GeoTable\<close>, \<open>Banner\<close>: \<open>internal/geoip\<close> \<open>table.go\<close>, \<open>asn.go\<close>, \<open>banner.go\<close>. IPv4 is 32-bit words, with
    their wrap-around; IPv6 is sixteen bytes.
  \<^item> \<open>DnsMsg\<close>: the message types, and the record \<open>dnsLib\<close> of the operations the code calls in the DNS
    library. \<open>DnsWire\<close>: the walk over packed messages and the in-place patching of cached replies.
    \<open>L1Cache\<close>, \<open>RespCache\<close>, \<open>L2Writer\<close>: \<open>internal/cache\<close>; the batched writer is a step relation in which
    an enqueue is two steps, so that it may interleave with \<open>Close\<close>.
  \<^item> \<open>Responses\<close>: \<open>filter/response.go\<close>, \<open>BuildAnswer\<close>, and the reply construction of \<open>handler.go\<close> (EDE,
    cookies, padding, truncation).
  \<^item> \<open>Memo\<close> (locale \<open>bounded_memo\<close>: a memo table emptied when full returns what the memoised function
    returns), interpreted by \<open>Policy\<close> (\<open>acl.go\<close>, \<open>clients.go\<close>, \<open>policy.go\<close>, the country blocker, routes) and
    by the ASN cache of the handler.
  \<^item> \<open>Forwarding\<close>: \<open>internal/upstream\<close> (specification parser, breaker, connection pools, every transport)
    and the sequential, racing and deduplicating strategies of \<open>handler.go\<close>.
  \<^item> \<open>Pipeline\<close>: \<open>serve\<close>, \<open>finishResolve\<close>, \<open>resolveAndCache\<close>, \<open>vpnhook.go\<close>, health probes and latency
    statistics. Each numbered step of \<open>serve\<close> is one definition over the shared state \<open>hstate\<close>; a step
    ends the query with the events it caused (\<open>Stop\<close>), lets it go on (\<open>Next\<close>), or panics (\<open>Crash\<close>, where Go
    slices out of range; the deferred recover then answers nothing). \<open>PipelineProps\<close> and \<open>ReplyProps\<close>:
    the properties of the composition. \<open>HandlerSettings\<close>: the published settings snapshot and its setters,
    each in the two steps it takes (copy, publish).
  \<^item> \<open>Dhcp\<close>, \<open>DhcpProto\<close>: the DHCP server of \<open>internal/dhcp\<close> (configuration, lease table, address pool,
    persistence; the DHCPv4 and DHCPv6 handlers). \<open>DhcpProps\<close>, \<open>DhcpInvariants\<close> (locale \<open>dhcp_invariant\<close>: what
    every primitive change keeps, both handlers keep), \<open>DhcpPool\<close>, \<open>DhcpTheorems\<close>: its properties.
  \<^item> \<open>Dnssec\<close>, \<open>DnssecProps\<close>, \<open>DnssecTheorems\<close>: the validator of \<open>internal/dnssec\<close> (trust anchors, chain of
    trust with its caches, NSEC and NSEC3 denial), alone and as the step of the pipeline that calls it.
  \<^item> \<open>Recursive\<close>, \<open>RecursiveProps\<close>, \<open>RecursiveTheorems\<close>: the resolver of \<open>internal/recursive/resolver.go\<close>
    (referral walk, aliases, nameserver addresses, connection pools). \<open>RootHints\<close>: \<open>hints.go\<close>, \<open>roots.go\<close>.
  \<^item> \<open>GoDuration\<close>: Go's text form of durations and its parser. \<open>Config\<close>: \<open>internal/config/config.go\<close>, with a
    record per section, one check per condition of \<open>validate\<close> in its order, \<open>Load\<close> and \<open>Save\<close>. \<open>ConfigProps\<close>
    (locale \<open>settling\<close>: a sequence of checks that settle their own settings and keep each other's is
    idempotent). \<open>ConfigApi\<close>: the settings page of \<open>internal/api/handlers_config.go\<close> over the running server
    (configuration, file, handler settings, list manager, warmer, DHCP server), and the reload of
    \<open>cmd/irongrid/main.go\<close>. \<open>ConfigApiProps\<close>, \<open>ConfigTheorems\<close>: their properties.
  \<^item> \<open>TopDomains\<close>: \<open>topN\<close> of \<open>internal/querylog/querylog.go\<close> over Go's heap, and that it equals sorting and
    cutting. \<open>QueryStats\<close>: the rolling counters of \<open>internal/querylog/rolling.go\<close>, which equal a recount of
    the entries of the window. \<open>QueryLog\<close>: the paged walk over the log stream and every reader over it. \<open>LogWriter\<close>: the
    queue, the batches and the writer as a step relation.
  \<^item> \<open>Doh\<close>, \<open>DohTheorems\<close>: DNS over HTTPS (\<open>internal/dnsserver/doh.go\<close>) up to \<open>Handler.serve\<close>, with the client behind a
    proxy and the connection cap. \<open>GoText\<close>: string functions both use.

  \<^bold>\<open>What is shown.\<close> Of a query: it gets at most one reply on any interleaving of the stale timer with the
  resolution, exactly one when it came over a stream and the exits named in the theorem are excluded, and
  that reply carries its id; a name the client's policy blocks is answered without cache or network; a
  spoofable transport never adds a permanent ban, and a trapped client is refused by every later query.
  Of the components: the rate limiter and login guard bound what they admit and every table stays within
  its cap; a decision of the filter equals its specification by priority; a cache lookup returns what was
  stored, and serving patched bytes equals rebuilding the message; sequential forwarding refines a
  failover specification; the group router refines a first-match specification; geo tables contain
  exactly the ranges loaded; bans survive a restart. Of DHCP: leases are unique by client and by address over
  any sequence of packets, an offered address is held for its client, leases survive a restart, and a
  configuration that passed validation makes every allocation end. Of DNSSEC and recursion: an answer is
  secure only on verified signatures up to an anchor, denial proofs are sound over the true records of a
  zone, the resolver's caches stay bounded and a resolution ends after a polynomial number of queries. Of
  the configuration: validation is idempotent, durations and whole configurations survive the settings
  page but for the settings it does not carry, a save writes no secret in the clear and keeps every login,
  and a refused save changes nothing. Of the log: each accepted entry is flushed once and in order, a page is
  what its filters select, and the counters of the dashboard are a recount. Of DNS over HTTPS: no client can
  choose the address it is treated as. Of the code's defects: a cookie of 9 to 15 bytes panics the handler;
  two overlapping setters lose an update; the CIDR expansion does not end on ranges that reach the top of
  the address space; an unsigned answer passes as authenticated under local validation; a referral
  replaces the delegation of a zone above it; an IPv6 client of DNS over HTTPS can never use its cookie;
  saving the settings page drops the query ACL, so that a reload opens the resolver to everyone, and never starts or stops a DHCP listener.

  \<^bold>\<open>Parameters.\<close> Code outside the repository is an argument, with its documented behaviour as named
  hypotheses where a theorem relies on it: the DNS library (\<open>dnsLib\<close>), regular expressions and IDNA
  (\<open>filterEnv\<close>), HMAC, SHA-256 and bcrypt (\<open>webCrypto\<close>), and for one query the record \<open>world\<close>: clock,
  network outcomes (\<open>netWorld\<close>), second-level cache replies, validator verdict, VPN router, DHCP host table,
  and which of two racing goroutines came first. The validator, the resolver and the root hints take the
  answers of the network, the signature library and OpenPGP as arguments; the configuration takes YAML,
  bcrypt and SHA-256 (\<open>cfgLib\<close>), the settings page in addition the URL parser, random draws and the end of
  the write (\<open>apiEnv\<close>), the query log the range commands of the database and the JSON decoder. Every theorem with such a hypothesis has a witness that
  instantiates the parameter with a concrete function.

  \<^bold>\<open>Bounds and termination.\<close> No definition uses fuel of its own; the recursive resolver recurses over the
  budgets the code has (alias chain, referral depth, nameserver lookup depth). Loops are structural recursions or have a termination
  proof by a measure (name walk: remaining bytes; eviction: table size; binary search: interval); the CIDR
  expansion, which can loop forever in the code, is a \<open>partial_function\<close> into \<open>option\<close>, and both its
  termination below the top address and its divergence there are theorems. Token counts are rationals
  where the code has \<open>float64\<close>; counters are unbounded where the code has 64-bit atomics.

  \<^bold>\<open>Not modelled.\<close> Socket and TLS loops; YAML and JSON decoding; the database; ACME,
  VPN, firewall, tunnel, updaters and installer, which drive external programs and services; the pages of
  the web API other than the settings and the lists, which show the state of modelled components.
\<close>

end
